(* ===== verification/Nano_Prelude.thy ===== *)
theory Nano_Prelude
  imports Main "HOL-Library.Word"
begin

text \<open>
  The vocabulary every component theory shares.

  \<^item> Rust's integer types as words of their width, byte slices as lists of bytes,
    \<^verbatim>\<open>usize\<close> lengths and offsets as naturals (the code targets 64-bit hosts, so a
    cast of a \<^verbatim>\<open>u16\<close>, \<^verbatim>\<open>u32\<close> or \<^verbatim>\<open>u64\<close> to \<^verbatim>\<open>usize\<close> is lossless).
  \<^item> \<^verbatim>\<open>Result\<close> as a sum with the error on the left, the \<^verbatim>\<open>?\<close> operator as
    \<open>and_then\<close>, and a loop that pushes \<^verbatim>\<open>f(i)?\<close> as \<open>try_map\<close>.
  \<^item> Slicing (\<open>slice_at\<close>), \<^verbatim>\<open>copy_from_slice\<close> (\<open>copy_into\<close>), the little- and
    big-endian conversions of the integer types, and Rust's checked, saturating and
    power-of-two operations.
  \<^item> The contract of a fixed-width wire codec as a locale: what a parser and its
    serializer promise each other, with the consequences the clients use (injectivity,
    insensitivity to trailing bytes, parsing whole tables).

  Plain \<^verbatim>\<open>+\<close> and \<^verbatim>\<open>*\<close> on machine integers wrap, as they do in the release profile
  the workspace builds (its manifest sets no \<^verbatim>\<open>overflow-checks\<close>).
\<close>

unbundle bit_operations_syntax

named_theorems wire \<open>layout equations of the wire formats\<close>
named_theorems handler \<open>definitions of operations, unfolded by the component proofs\<close>

subsection \<open>Types\<close>

type_synonym u8 = "8 word"
type_synonym u16 = "16 word"
type_synonym u32 = "32 word"
type_synonym u64 = "64 word"
type_synonym bytes = "u8 list"
type_synonym ('e, 'a) result = "'e + 'a"

abbreviation Err :: "'e \<Rightarrow> ('e, 'a) result" where
  "Err \<equiv> Inl"

abbreviation Ok :: "'a \<Rightarrow> ('e, 'a) result" where
  "Ok \<equiv> Inr"

subsection \<open>Results\<close>

definition and_then :: "('e, 'a) result \<Rightarrow> ('a \<Rightarrow> ('e, 'b) result) \<Rightarrow> ('e, 'b) result" where
  "and_then r f = (case r of Inl e \<Rightarrow> Inl e | Inr x \<Rightarrow> f x)"

lemma and_then_simps [simp]:
  "and_then (Inl e) f = Inl e"
  "and_then (Inr x) f = f x"
  by (simp_all add: and_then_def)

lemma and_then_eq_Ok: "and_then r f = Inr y \<longleftrightarrow> (\<exists>x. r = Inr x \<and> f x = Inr y)"
  by (cases r) simp_all

lemma and_then_eq_Err:
  "and_then r f = Inl e \<longleftrightarrow> r = Inl e \<or> (\<exists>x. r = Inr x \<and> f x = Inl e)"
  by (cases r) simp_all

lemmas and_then_eqs = and_then_eq_Ok and_then_eq_Err

definition map_err :: "('e \<Rightarrow> 'f) \<Rightarrow> ('e, 'a) result \<Rightarrow> ('f, 'a) result" where
  "map_err f r = (case r of Inl e \<Rightarrow> Inl (f e) | Inr x \<Rightarrow> Inr x)"

lemma map_err_simps [simp]:
  "map_err f (Inl e) = Inl (f e)"
  "map_err f (Inr x) = Inr x"
  by (simp_all add: map_err_def)

definition ok_or :: "'e \<Rightarrow> 'a option \<Rightarrow> ('e, 'a) result" where
  "ok_or e v = (case v of None \<Rightarrow> Inl e | Some x \<Rightarrow> Inr x)"

lemma ok_or_simps [simp]:
  "ok_or e None = Inl e"
  "ok_or e (Some x) = Inr x"
  by (simp_all add: ok_or_def)

lemma ok_or_eq_Ok [simp]: "ok_or e v = Inr x \<longleftrightarrow> v = Some x"
  by (cases v) simp_all

definition is_ok :: "('e, 'a) result \<Rightarrow> bool" where
  "is_ok r = (case r of Inl _ \<Rightarrow> False | Inr _ \<Rightarrow> True)"

lemma is_ok_simps [simp]: "\<not> is_ok (Inl e)" "is_ok (Inr x)"
  by (simp_all add: is_ok_def)

lemma is_ok_iff: "is_ok r \<longleftrightarrow> (\<exists>x. r = Inr x)"
  by (cases r) simp_all

fun try_map :: "('a \<Rightarrow> ('e, 'b) result) \<Rightarrow> 'a list \<Rightarrow> ('e, 'b list) result" where
  "try_map f [] = Inr []"
| "try_map f (x # xs) = and_then (f x) (\<lambda>y. and_then (try_map f xs) (\<lambda>ys. Inr (y # ys)))"

lemma try_map_Ok_iff:
  "try_map f xs = Inr ys \<longleftrightarrow> list_all2 (\<lambda>x y. f x = Inr y) xs ys"
  by (induction xs arbitrary: ys) (auto simp: and_then_eqs list_all2_Cons1)

lemma try_map_length: "try_map f xs = Inr ys \<Longrightarrow> length ys = length xs"
  by (simp add: try_map_Ok_iff list_all2_lengthD)

lemma try_map_nth: "try_map f xs = Inr ys \<Longrightarrow> i < length xs \<Longrightarrow> f (xs ! i) = Inr (ys ! i)"
  by (simp add: try_map_Ok_iff list_all2_conv_all_nth)

lemma try_map_OkI:
  "length ys = length xs \<Longrightarrow> (\<And>i. i < length xs \<Longrightarrow> f (xs ! i) = Inr (ys ! i)) \<Longrightarrow>
    try_map f xs = Inr ys"
  by (simp add: try_map_Ok_iff list_all2_conv_all_nth)

lemma try_map_total: "(\<And>x. x \<in> set xs \<Longrightarrow> \<exists>y. f x = Inr y) \<Longrightarrow> \<exists>ys. try_map f xs = Inr ys"
proof (induction xs)
  case Nil
  then show ?case by simp
next
  case (Cons x xs)
  from Cons.prems obtain y where "f x = Inr y" by auto
  moreover from Cons obtain ys where "try_map f xs = Inr ys" by auto
  ultimately show ?case by simp
qed

subsection \<open>Slices\<close>

definition slice_at :: "nat \<Rightarrow> nat \<Rightarrow> 'a list \<Rightarrow> 'a list" where
  "slice_at off n xs = take n (drop off xs)"

lemma length_slice_at [simp]: "length (slice_at off n xs) = min n (length xs - off)"
  by (simp add: slice_at_def)

lemma slice_at_nth: "i < n \<Longrightarrow> off + i < length xs \<Longrightarrow> slice_at off n xs ! i = xs ! (off + i)"
  by (simp add: slice_at_def)

lemma slice_append_left: "off + n \<le> length xs \<Longrightarrow> slice_at off n (xs @ ys) = slice_at off n xs"
  by (simp add: slice_at_def)

lemma slice_append_right:
  "length xs \<le> off \<Longrightarrow> slice_at off n (xs @ ys) = slice_at (off - length xs) n ys"
  by (simp add: slice_at_def)

lemma slice_append_exact: "n = length ys \<Longrightarrow> off = length xs \<Longrightarrow> slice_at off n (xs @ ys @ zs) = ys"
  by (simp add: slice_at_def)

lemma slice_zero_take: "slice_at 0 n xs = take n xs"
  by (simp add: slice_at_def)

lemma slice_append_adj: "slice_at off n xs @ slice_at (off + n) k xs = slice_at off (n + k) xs"
proof -
  have "take (n + k) (drop off xs) = take n (drop off xs) @ take k (drop n (drop off xs))"
    by (rule take_add)
  then show ?thesis by (simp add: slice_at_def add.commute)
qed

lemma slice_slice: "off + n \<le> k \<Longrightarrow> slice_at off n (slice_at o2 k xs) = slice_at (o2 + off) n xs"
  by (simp add: slice_at_def drop_take min_def add.commute)

definition copy_into :: "nat \<Rightarrow> 'a list \<Rightarrow> 'a list \<Rightarrow> 'a list" where
  "copy_into off src dst = take off dst @ src @ drop (off + length src) dst"

lemma length_copy_into [simp]:
  "off + length src \<le> length dst \<Longrightarrow> length (copy_into off src dst) = length dst"
  by (simp add: copy_into_def)

lemma copy_into_nth:
  assumes "off + length src \<le> length dst" and "i < length dst"
  shows "copy_into off src dst ! i =
    (if off \<le> i \<and> i < off + length src then src ! (i - off) else dst ! i)"
  using assms by (auto simp: copy_into_def nth_append)

lemma slice_copy_into_same:
  "off + length src \<le> length dst \<Longrightarrow> n = length src \<Longrightarrow> slice_at off n (copy_into off src dst) = src"
  by (simp add: slice_at_def copy_into_def)

lemma slice_copy_into_disjoint:
  assumes fits: "off + length src \<le> length dst"
    and apart: "o2 + n \<le> off \<or> off + length src \<le> o2"
  shows "slice_at o2 n (copy_into off src dst) = slice_at o2 n dst"
proof (rule nth_equalityI)
  show "length (slice_at o2 n (copy_into off src dst)) = length (slice_at o2 n dst)"
    using fits by simp
  fix i assume "i < length (slice_at o2 n (copy_into off src dst))"
  then have "i < n" and "o2 + i < length dst" using fits by auto
  then show "slice_at o2 n (copy_into off src dst) ! i = slice_at o2 n dst ! i"
    using fits apart by (auto simp: slice_at_nth copy_into_nth)
qed

text \<open>Consecutive fields filled in from the front; the rewrite rules for serializers.\<close>

lemma copy_into_first: "copy_into 0 src buf = src @ drop (length src) buf"
  by (simp add: copy_into_def)

lemma copy_into_next:
  "length pre = off \<Longrightarrow> copy_into off src (pre @ drop off buf) = (pre @ src) @ drop (off + length src) buf"
  by (simp add: copy_into_def add.commute)

lemma copy_into_all: "length src = length dst \<Longrightarrow> copy_into 0 src dst = src"
  by (simp add: copy_into_def)

subsection \<open>Integers and their bytes\<close>

text \<open>
  \<^verbatim>\<open>uN::from_le_bytes\<close> and \<^verbatim>\<open>to_le_bytes\<close>: the byte at offset \<open>i\<close> holds bits
  \<open>8 i\<close> to \<open>8 i + 7\<close>. The big-endian pair reverses the bytes.
\<close>

fun from_le :: "bytes \<Rightarrow> 'a::len word" where
  "from_le [] = 0"
| "from_le (b # bs) = ucast b OR push_bit 8 (from_le bs)"

definition to_le :: "nat \<Rightarrow> 'a::len word \<Rightarrow> bytes" where
  "to_le n w = map (\<lambda>i. ucast (drop_bit (8 * i) w)) [0..<n]"

definition from_be :: "bytes \<Rightarrow> 'a::len word" where
  "from_be bs = from_le (rev bs)"

definition to_be :: "nat \<Rightarrow> 'a::len word \<Rightarrow> bytes" where
  "to_be n w = rev (to_le n w)"

lemma length_to_le [simp]: "length (to_le n w) = n"
  by (simp add: to_le_def)

lemma length_to_be [simp]: "length (to_be n w) = n"
  by (simp add: to_be_def)

lemma to_le_Suc: "to_le (Suc n) w = ucast w # to_le n (drop_bit 8 w)"
proof -
  have "map (\<lambda>i. ucast (drop_bit (8 * i) w)) [Suc 0..<Suc n] =
    (map (\<lambda>i. ucast (drop_bit (8 * i) (drop_bit 8 w))) [0..<n] :: u8 list)"
    by (simp add: map_Suc_upt [symmetric] algebra_simps del: upt_Suc)
  then show ?thesis
    by (simp add: to_le_def upt_conv_Cons del: upt_Suc)
qed

lemma bit_from_le:
  "bit (from_le bs :: 'a::len word) i \<longleftrightarrow>
    i < LENGTH('a) \<and> i div 8 < length bs \<and> bit (bs ! (i div 8)) (i mod 8)"
proof (induction bs arbitrary: i)
  case Nil
  then show ?case by simp
next
  case (Cons b bs)
  show ?case
  proof (cases "i < 8")
    case True
    then show ?thesis
      by (auto simp: bit_simps)
  next
    case False
    then have "i div 8 = Suc ((i - 8) div 8)" and "(i - 8) mod 8 = i mod 8"
      by (simp_all add: le_div_geq le_mod_geq)
    moreover have "\<not> bit b i"
      using False by (auto dest: bit_imp_le_length)
    ultimately show ?thesis
      using False by (auto simp: bit_simps Cons.IH)
  qed
qed

lemma from_le_to_le:
  fixes w :: "'a::len word"
  assumes "LENGTH('a) \<le> 8 * n"
  shows "from_le (to_le n w) = w"
proof (rule bit_word_eqI)
  fix i assume i: "i < LENGTH('a)"
  with assms have "i div 8 < n" by (simp add: less_mult_imp_div_less mult.commute)
  moreover have "8 * (i div 8) + i mod 8 = i" by simp
  ultimately show "bit (from_le (to_le n w) :: 'a word) i = bit w i"
    using i by (simp add: bit_from_le to_le_def bit_simps)
qed

lemma to_le_from_le:
  assumes "8 * length bs \<le> LENGTH('a::len)"
  shows "to_le (length bs) (from_le bs :: 'a word) = bs"
proof (rule nth_equalityI)
  show "length (to_le (length bs) (from_le bs :: 'a word)) = length bs" by simp
next
  fix i assume "i < length (to_le (length bs) (from_le bs :: 'a word))"
  then have i: "i < length bs" by simp
  show "to_le (length bs) (from_le bs :: 'a word) ! i = bs ! i"
  proof (rule bit_word_eqI)
    fix j assume "j < LENGTH(8)"
    then have j: "j < 8" by simp
    with i assms have "8 * i + j < LENGTH('a)" by linarith
    moreover from j have "(8 * i + j) div 8 = i" and "(8 * i + j) mod 8 = j"
      by simp_all
    ultimately show "bit (to_le (length bs) (from_le bs :: 'a word) ! i) j = bit (bs ! i) j"
      using i j by (simp add: to_le_def bit_simps bit_from_le)
  qed
qed

lemma le_roundtrip [simp]:
  "from_le (to_le 2 (a :: u16)) = a"
  "from_le (to_le 4 (b :: u32)) = b"
  "from_le (to_le 8 (c :: u64)) = c"
  by (simp_all add: from_le_to_le)

lemma le_roundtrip_bytes:
  "length bs = 2 \<Longrightarrow> to_le 2 (from_le bs :: u16) = bs"
  "length bs = 4 \<Longrightarrow> to_le 4 (from_le bs :: u32) = bs"
  "length bs = 8 \<Longrightarrow> to_le 8 (from_le bs :: u64) = bs"
  using to_le_from_le [of bs, where 'a = 16] to_le_from_le [of bs, where 'a = 32]
    to_le_from_le [of bs, where 'a = 64] by simp_all

lemma to_le_inject:
  "to_le 2 (a :: u16) = to_le 2 a' \<longleftrightarrow> a = a'" "to_le 4 (b :: u32) = to_le 4 b' \<longleftrightarrow> b = b'"
  "to_le 8 (c :: u64) = to_le 8 c' \<longleftrightarrow> c = c'"
  by (metis le_roundtrip)+

lemma be_roundtrip [simp]: "from_be (to_be 4 (b :: u32)) = b"
  by (simp add: from_be_def to_be_def)

subsection \<open>Checked and saturating arithmetic\<close>

definition checked_add :: "'a::len word \<Rightarrow> 'a word \<Rightarrow> 'a word option" where
  "checked_add a b = (if unat a + unat b < 2 ^ LENGTH('a) then Some (a + b) else None)"

definition checked_sub :: "'a::len word \<Rightarrow> 'a word \<Rightarrow> 'a word option" where
  "checked_sub a b = (if b \<le> a then Some (a - b) else None)"

definition checked_mul :: "'a::len word \<Rightarrow> 'a word \<Rightarrow> 'a word option" where
  "checked_mul a b = (if unat a * unat b < 2 ^ LENGTH('a) then Some (a * b) else None)"

definition saturating_mul :: "'a::len word \<Rightarrow> 'a word \<Rightarrow> 'a word" where
  "saturating_mul a b = (if unat a * unat b < 2 ^ LENGTH('a) then a * b else - 1)"

definition is_power_of_two :: "'a::len word \<Rightarrow> bool" where
  "is_power_of_two w = list_ex (\<lambda>k. w = push_bit k 1) [0..<LENGTH('a)]"

lemma checked_add_Some_iff:
  fixes a b c :: "'a::len word"
  shows "checked_add a b = Some c \<longleftrightarrow> unat a + unat b < 2 ^ LENGTH('a) \<and> unat c = unat a + unat b"
  by (auto simp: checked_add_def unat_word_ariths word_unat_eq_iff)

lemma checked_mul_Some_iff:
  fixes a b c :: "'a::len word"
  shows "checked_mul a b = Some c \<longleftrightarrow> unat a * unat b < 2 ^ LENGTH('a) \<and> unat c = unat a * unat b"
  by (auto simp: checked_mul_def unat_word_ariths word_unat_eq_iff)

lemma checked_sub_Some_iff:
  fixes a b c :: "'a::len word"
  shows "checked_sub a b = Some c \<longleftrightarrow> b \<le> a \<and> c = a - b"
  by (auto simp: checked_sub_def)

lemma checked_add_None_iff:
  fixes a b :: "'a::len word"
  shows "checked_add a b = None \<longleftrightarrow> 2 ^ LENGTH('a) \<le> unat a + unat b"
  by (auto simp: checked_add_def)

lemma checked_mul_None_iff:
  fixes a b :: "'a::len word"
  shows "checked_mul a b = None \<longleftrightarrow> 2 ^ LENGTH('a) \<le> unat a * unat b"
  by (auto simp: checked_mul_def)

lemma unat_ucast_widen:
  "unat (ucast (a :: u16) :: u64) = unat a" "unat (ucast (b :: u32) :: u64) = unat b"
  "unat (ucast (a :: u16) :: u32) = unat a"
proof -
  have "unat a < 2 ^ LENGTH(16)" and "unat b < 2 ^ LENGTH(32)" by (rule unsigned_less)+
  then show "unat (ucast a :: u64) = unat a" and "unat (ucast b :: u64) = unat b"
    and "unat (ucast a :: u32) = unat a"
    by (simp_all add: unsigned_ucast_eq take_bit_nat_eq_self)
qed

lemma unat_bounds:
  "unat (a :: u16) < 2 ^ 16" "unat (b :: u32) < 2 ^ 32" "unat (c :: u64) < 2 ^ 64"
proof -
  have "unat a < 2 ^ LENGTH(16)" "unat b < 2 ^ LENGTH(32)" "unat c < 2 ^ LENGTH(64)"
    by (rule unsigned_less)+
  then show "unat a < 2 ^ 16" "unat b < 2 ^ 32" "unat c < 2 ^ 64" by simp_all
qed

lemma unat_two_power: "k < LENGTH('a) \<Longrightarrow> unat (2 ^ k :: 'a::len word) = 2 ^ k"
  using unat_of_nat [of "2 ^ k", where 'a = 'a] by simp

lemma is_power_of_two_iff:
  fixes w :: "'a::len word"
  shows "is_power_of_two w \<longleftrightarrow> (\<exists>k < LENGTH('a). unat w = 2 ^ k)"
proof -
  have "w = push_bit k 1 \<longleftrightarrow> unat w = 2 ^ k" if "k < LENGTH('a)" for k
    using that by (simp add: word_unat_eq_iff unat_two_power)
  then show ?thesis
    by (auto simp: is_power_of_two_def list_ex_iff)
qed

subsection \<open>The contract of a fixed-width codec\<close>

text \<open>
  A serializer \<open>enc\<close> and a parser \<open>dec\<close> of one wire record of \<open>width\<close> bytes. The
  parser reads a prefix of its buffer, so a record followed by other bytes parses to the
  record; a buffer that is too short is the error \<open>short\<close>. Records outside \<open>valid\<close>
  may be rejected.
\<close>

locale wire_codec =
  fixes enc :: "'a \<Rightarrow> bytes"
    and dec :: "bytes \<Rightarrow> ('e, 'a) result"
    and width :: nat
    and short :: "nat \<Rightarrow> 'e"
    and valid :: "'a \<Rightarrow> bool"
  assumes enc_length: "valid x \<Longrightarrow> length (enc x) = width"
    and dec_enc: "valid x \<Longrightarrow> dec (enc x @ rest) = Inr x"
    and dec_short: "length b < width \<Longrightarrow> dec b = Inl (short (length b))"
    and dec_valid: "dec b = Inr x \<Longrightarrow> valid x"
begin

lemma roundtrip: "valid x \<Longrightarrow> dec (enc x) = Inr x"
  using dec_enc [of x "[]"] by simp

lemma enc_inject:
  assumes "valid x" and "valid y" and "enc x = enc y"
  shows "x = y"
proof -
  have "Inr x = dec (enc y)" using roundtrip [OF assms(1)] by (simp only: assms(3))
  also have "\<dots> = Inr y" by (rule roundtrip [OF assms(2)])
  finally show ?thesis by simp
qed

lemma dec_Ok_length: "dec b = Inr x \<Longrightarrow> width \<le> length b"
  using dec_short [of b] by (cases "length b < width") auto

lemma length_concat_enc: "list_all valid xs \<Longrightarrow> length (concat (map enc xs)) = length xs * width"
  by (induction xs) (simp_all add: enc_length)

lemma slice_concat_enc:
  "i < length xs \<Longrightarrow> list_all valid xs \<Longrightarrow> slice_at (i * width) width (concat (map enc xs) @ rest) = enc (xs ! i)"
proof (induction xs arbitrary: i)
  case Nil
  then show ?case by simp
next
  case (Cons x xs)
  show ?case
  proof (cases i)
    case 0
    with Cons show ?thesis by (simp add: slice_at_def enc_length)
  next
    case (Suc j)
    with Cons show ?thesis by (simp add: slice_append_right enc_length)
  qed
qed

lemma dec_table:
  assumes "list_all valid xs" and "n = length xs"
  shows "try_map (\<lambda>i. dec (slice_at (i * width) width (concat (map enc xs) @ rest))) [0..<n] = Inr xs"
  using assms by (intro try_map_OkI) (simp_all add: slice_concat_enc roundtrip list_all_length)

end

text \<open>
  A canonical codec has one encoding per record: whatever parses is the serialization of
  its result. A total one parses every buffer that is long enough.
\<close>

locale canonical_codec = wire_codec +
  assumes enc_dec: "dec b = Inr x \<Longrightarrow> enc x = take width b"
begin

lemma dec_iff: "dec b = Inr x \<longleftrightarrow> valid x \<and> width \<le> length b \<and> take width b = enc x"
proof
  assume "dec b = Inr x"
  then show "valid x \<and> width \<le> length b \<and> take width b = enc x"
    using dec_valid dec_Ok_length enc_dec by simp
next
  assume r: "valid x \<and> width \<le> length b \<and> take width b = enc x"
  then have "b = enc x @ drop width b" by (metis append_take_drop_id)
  with r show "dec b = Inr x" using dec_enc [of x "drop width b"] by simp
qed

lemma dec_prefix: "dec b = Inr x \<longleftrightarrow> valid x \<and> (\<exists>rest. b = enc x @ rest)"
proof
  assume "dec b = Inr x"
  then have "b = enc x @ drop width b" "valid x" using enc_dec dec_valid by (metis append_take_drop_id)+
  then show "valid x \<and> (\<exists>rest. b = enc x @ rest)" by blast
qed (auto simp: dec_enc)

lemma dec_table_enc:
  assumes "try_map (\<lambda>i. dec (slice_at (i * width) width b)) [0..<n] = Inr xs"
    and "n * width \<le> length b"
  shows "concat (map enc xs) = take (n * width) b"
  using assms
proof (induction n arbitrary: xs)
  case 0
  then show ?case by simp
next
  case (Suc n)
  let ?f = "\<lambda>i. dec (slice_at (i * width) width b)"
  from Suc.prems(1) have all: "list_all2 (\<lambda>i y. ?f i = Inr y) ([0..<n] @ [n]) xs"
    by (simp add: try_map_Ok_iff)
  then obtain ys y where xs: "xs = ys @ [y]" and ys: "list_all2 (\<lambda>i y. ?f i = Inr y) [0..<n] ys"
      and y: "?f n = Inr y"
    by (auto simp: list_all2_append1 list_all2_Cons1)
  have "concat (map enc ys) = take (n * width) b"
    using Suc.IH [of ys] ys Suc.prems(2) by (simp add: try_map_Ok_iff)
  moreover have "enc y = slice_at (n * width) width b"
    using enc_dec [OF y] by (simp add: slice_at_def)
  ultimately show ?case
    using slice_append_adj [of 0 "n * width" b width]
    by (simp add: xs slice_zero_take add.commute)
qed

lemma dec_table_iff:
  assumes "n * width \<le> length b"
  shows "try_map (\<lambda>i. dec (slice_at (i * width) width b)) [0..<n] = Inr xs \<longleftrightarrow>
    length xs = n \<and> list_all valid xs \<and> concat (map enc xs) = take (n * width) b"
proof
  assume r: "try_map (\<lambda>i. dec (slice_at (i * width) width b)) [0..<n] = Inr xs"
  then have "length xs = n" by (auto dest: try_map_length)
  moreover have "list_all valid xs"
    using r dec_valid by (auto simp: try_map_Ok_iff list_all2_conv_all_nth list_all_length)
  ultimately show "length xs = n \<and> list_all valid xs \<and> concat (map enc xs) = take (n * width) b"
    using dec_table_enc [OF r assms] by simp
next
  assume r: "length xs = n \<and> list_all valid xs \<and> concat (map enc xs) = take (n * width) b"
  then have "b = concat (map enc xs) @ drop (n * width) b" by (metis append_take_drop_id)
  with r show "try_map (\<lambda>i. dec (slice_at (i * width) width b)) [0..<n] = Inr xs"
    using dec_table [of xs n "drop (n * width) b"] by simp
qed

lemma dec_inject:
  assumes "dec b = Inr x" and "dec c = Inr x"
  shows "take width b = take width c"
  using enc_dec [OF assms(1)] enc_dec [OF assms(2)] by simp

end

locale total_codec = canonical_codec +
  assumes dec_total: "width \<le> length b \<Longrightarrow> \<exists>x. dec b = Inr x"
begin

lemma dec_Ok_iff: "is_ok (dec b) \<longleftrightarrow> width \<le> length b"
  using dec_total [of b] dec_Ok_length [of b] by (auto simp: is_ok_iff)

lemma dec_table_total:
  assumes "n * width \<le> length b"
  shows "\<exists>xs. try_map (\<lambda>i. dec (slice_at (i * width) width b)) [0..<n] = Inr xs"
proof (rule try_map_total)
  fix i assume "i \<in> set [0..<n]"
  then have "Suc i * width \<le> n * width" by (intro mult_le_mono1) simp
  with assms have "width \<le> length (slice_at (i * width) width b)" by simp
  then show "\<exists>x. dec (slice_at (i * width) width b) = Inr x" by (rule dec_total)
qed

end

subsection \<open>Records of little-endian fields\<close>

text \<open>
  Most wire records are a row of fields: the parser reads each at its own offset, the serializer
  copies each to its own offset. \<open>read_fields\<close> and \<open>write_fields\<close> do so for consecutive fields of
  given widths; a record whose two functions agree with them is a canonical codec.
\<close>

fun read_fields :: "nat \<Rightarrow> nat list \<Rightarrow> bytes \<Rightarrow> bytes list" where
  "read_fields off [] b = []"
| "read_fields off (w # ws) b = slice_at off w b # read_fields (off + w) ws b"

fun write_fields :: "nat \<Rightarrow> bytes list \<Rightarrow> bytes \<Rightarrow> bytes" where
  "write_fields off [] b = b"
| "write_fields off (f # fs) b = write_fields (off + length f) fs (copy_into off f b)"

lemma concat_read_fields: "concat (read_fields off ws b) = slice_at off (sum_list ws) b"
  by (induction ws arbitrary: off) (simp_all add: slice_append_adj, simp add: slice_at_def)

lemma write_fields_after:
  "length pre = off \<Longrightarrow> write_fields off fs (pre @ drop off b) = pre @ concat fs @ drop (off + length (concat fs)) b"
proof (induction fs arbitrary: pre off)
  case (Cons f fs)
  then show ?case using Cons.IH [of "pre @ f" "off + length f"] by (simp add: copy_into_def ac_simps)
qed simp

lemma write_fields_eq: "write_fields 0 fs b = concat fs @ drop (length (concat fs)) b"
  using write_fields_after [of "[]" 0 fs b] by simp

lemma read_fields_concat: "read_fields (length pre) (map length fs) (pre @ concat fs @ rest) = fs"
proof (induction fs arbitrary: pre)
  case (Cons f fs)
  show ?case using Cons [of "pre @ f"] by (simp add: slice_append_exact)
qed simp

text \<open>The buffer a serializer leaves; its callers pass one that is long enough.\<close>

definition written_buf :: "('e, nat \<times> bytes) result \<Rightarrow> bytes" where
  "written_buf r = (case r of Inr (_, b) \<Rightarrow> b | Inl _ \<Rightarrow> [])"

locale le_struct =
  fixes from_bytes :: "bytes \<Rightarrow> ('e, 'a) result"
    and write_to :: "'a \<Rightarrow> bytes \<Rightarrow> ('e, nat \<times> bytes) result"
    and to_bytes :: "'a \<Rightarrow> bytes"
    and width :: nat
    and short :: "nat \<Rightarrow> 'e"
    and no_room :: "nat \<Rightarrow> 'e"
    and fields :: "'a \<Rightarrow> bytes list"
    and widths :: "nat list"
    and valid :: "'a \<Rightarrow> bool"
  assumes fields_width: "valid x \<Longrightarrow> map length (fields x) = widths"
    and widths_sum: "sum_list widths = width"
    and fields_inject: "valid x \<Longrightarrow> valid y \<Longrightarrow> fields x = fields y \<Longrightarrow> x = y"
    and read_short: "length b < width \<Longrightarrow> from_bytes b = Inl (short (length b))"
    and read_exact: "width \<le> length b \<Longrightarrow>
      \<exists>x. from_bytes b = Inr x \<and> valid x \<and> fields x = read_fields 0 widths b"
    and write_short: "length b < width \<Longrightarrow> write_to x b = Inl (no_room (length b))"
    and write_exact: "valid x \<Longrightarrow> width \<le> length b \<Longrightarrow> write_to x b = Inr (width, write_fields 0 (fields x) b)"
    and to_bytes_written: "to_bytes x = written_buf (write_to x (replicate width 0))"
begin

lemma length_fields: "valid x \<Longrightarrow> length (concat (fields x)) = width"
  using fields_width [of x] widths_sum by (simp add: length_concat)

lemma to_bytes_fields: "valid x \<Longrightarrow> to_bytes x = concat (fields x)"
  by (simp add: to_bytes_written write_exact written_buf_def write_fields_eq length_fields)

lemma write_to_eq:
  "valid x \<Longrightarrow> write_to x b =
    (if length b < width then Inl (no_room (length b)) else Inr (width, to_bytes x @ drop width b))"
  by (simp add: write_short write_exact write_fields_eq length_fields to_bytes_fields)

lemma from_bytes_fields:
  assumes "from_bytes b = Inr x"
  shows "valid x \<and> width \<le> length b \<and> fields x = read_fields 0 widths b"
proof -
  have "width \<le> length b" using assms read_short [of b] by (cases "length b < width") auto
  with assms read_exact [of b] show ?thesis by auto
qed

end

sublocale le_struct \<subseteq> total_codec to_bytes from_bytes width short valid
proof (unfold_locales, goal_cases)
  case (1 x)
  then show ?case by (simp add: to_bytes_fields length_fields)
next
  case (2 x rest)
  have "read_fields 0 widths (concat (fields x) @ rest) = fields x"
    using read_fields_concat [of "[]" "fields x" rest] fields_width [OF 2] by simp
  moreover have "width \<le> length (concat (fields x) @ rest)" using length_fields [OF 2] by simp
  ultimately show ?case
    using read_exact [of "concat (fields x) @ rest"] fields_inject [OF _ 2] by (auto simp: to_bytes_fields [OF 2])
next
  case (3 b)
  then show ?case by (rule read_short)
next
  case (4 b x)
  then show ?case using from_bytes_fields by simp
next
  case (5 b x)
  then show ?case
    using from_bytes_fields [OF 5] concat_read_fields [of 0 widths b]
    by (simp add: to_bytes_fields widths_sum slice_zero_take)
next
  case (6 b)
  then show ?case using read_exact by blast
qed

text \<open>
  What it means for a record to have an exact codec: parsing accepts exactly the buffers that start
  with a serialization, and gives back the record; serialization succeeds exactly when there is room,
  and changes the first \<open>n\<close> bytes only; \<open>to_bytes\<close> is those bytes.
\<close>

definition codec_exact ::
    "(bytes \<Rightarrow> ('e, 'a) result) \<Rightarrow> ('a \<Rightarrow> bytes \<Rightarrow> ('e, nat \<times> bytes) result) \<Rightarrow> ('a \<Rightarrow> bytes) \<Rightarrow> nat \<Rightarrow>
     (nat \<Rightarrow> 'e) \<Rightarrow> (nat \<Rightarrow> 'e) \<Rightarrow> ('a \<Rightarrow> bool) \<Rightarrow> bool" where
  "codec_exact from_bytes write_to to_bytes n short no_room valid \<longleftrightarrow>
     (\<forall>b. if length b < n then from_bytes b = Err (short (length b)) else \<exists>x. from_bytes b = Ok x) \<and>
     (\<forall>b x. from_bytes b = Ok x \<longleftrightarrow> valid x \<and> n \<le> length b \<and> take n b = to_bytes x) \<and>
     (\<forall>x b. valid x \<longrightarrow> length (to_bytes x) = n \<and>
        write_to x b = (if length b < n then Err (no_room (length b)) else Ok (n, to_bytes x @ drop n b)))"

context le_struct
begin

lemma exact: "codec_exact from_bytes write_to to_bytes width short no_room valid"
  unfolding codec_exact_def
  using read_short dec_total write_to_eq dec_iff enc_length by (simp add: not_less)

end

end
