(* ===== verification/Vsock_Packet.thy ===== *)
theory Vsock_Packet
  imports Nano_Prelude
begin

text \<open>
  The 44-byte virtio-vsock packet header (\<^verbatim>\<open>crates/virtio-vsock/src/lib.rs\<close>): packet
  types and operations with their raw values, the header record, its parser and its two
  serializers. The parser and serializer are proved inverse to each other, and the parser's
  errors are characterised.
\<close>

definition VSOCK_HDR_LEN :: nat where "VSOCK_HDR_LEN = 44"
definition HYPERVISOR_CID :: u64 where "HYPERVISOR_CID = 0"
definition LOCAL_CID :: u64 where "LOCAL_CID = 1"
definition HOST_CID :: u64 where "HOST_CID = 2"
definition ANY_CID :: u64 where "ANY_CID = 0xffffffff"

definition shutdown_RCV :: u32 where "shutdown_RCV = push_bit 0 1"
definition shutdown_SEND :: u32 where "shutdown_SEND = push_bit 1 1"

datatype vsock_error =
    ShortHeader nat nat
  | ShortBuffer nat nat
  | UnknownOp u16
  | UnknownType u16

datatype vsock_type = Stream

datatype vsock_op =
    Invalid
  | Request
  | Response
  | Rst
  | Shutdown
  | Rw
  | CreditUpdate
  | CreditRequest

definition VsockType_from_raw :: "u16 \<Rightarrow> (vsock_error, vsock_type) result" where
  "VsockType_from_raw raw = (if raw = 1 then Ok Stream else Err (UnknownType raw))"

fun VsockType_as_raw :: "vsock_type \<Rightarrow> u16" where
  "VsockType_as_raw Stream = 1"

definition VsockOp_from_raw :: "u16 \<Rightarrow> (vsock_error, vsock_op) result" where
  "VsockOp_from_raw raw =
     (if raw = 0 then Ok Invalid
      else if raw = 1 then Ok Request
      else if raw = 2 then Ok Response
      else if raw = 3 then Ok Rst
      else if raw = 4 then Ok Shutdown
      else if raw = 5 then Ok Rw
      else if raw = 6 then Ok CreditUpdate
      else if raw = 7 then Ok CreditRequest
      else Err (UnknownOp raw))"

fun VsockOp_as_raw :: "vsock_op \<Rightarrow> u16" where
  "VsockOp_as_raw Invalid = 0"
| "VsockOp_as_raw Request = 1"
| "VsockOp_as_raw Response = 2"
| "VsockOp_as_raw Rst = 3"
| "VsockOp_as_raw Shutdown = 4"
| "VsockOp_as_raw Rw = 5"
| "VsockOp_as_raw CreditUpdate = 6"
| "VsockOp_as_raw CreditRequest = 7"

record vsock_header =
  vh_src_cid :: u64
  vh_dst_cid :: u64
  vh_src_port :: u32
  vh_dst_port :: u32
  vh_len :: u32
  vh_vtype :: vsock_type
  vh_op :: vsock_op
  vh_flags :: u32
  vh_buf_alloc :: u32
  vh_fwd_cnt :: u32

definition VsockHeader_from_bytes :: "bytes \<Rightarrow> (vsock_error, vsock_header) result" where
  "VsockHeader_from_bytes buf =
     (if length buf < VSOCK_HDR_LEN then Err (ShortHeader (length buf) VSOCK_HDR_LEN)
      else
        let src_cid = from_le (slice_at 0 8 buf);
            dst_cid = from_le (slice_at 8 8 buf);
            src_port = from_le (slice_at 16 4 buf);
            dst_port = from_le (slice_at 20 4 buf);
            len = from_le (slice_at 24 4 buf);
            type_raw = from_le (slice_at 28 2 buf);
            op_raw = from_le (slice_at 30 2 buf);
            flags = from_le (slice_at 32 4 buf);
            buf_alloc = from_le (slice_at 36 4 buf);
            fwd_cnt = from_le (slice_at 40 4 buf)
        in and_then (VsockType_from_raw type_raw) (\<lambda>vtype.
           and_then (VsockOp_from_raw op_raw) (\<lambda>op.
             Ok \<lparr>vh_src_cid = src_cid, vh_dst_cid = dst_cid, vh_src_port = src_port,
                 vh_dst_port = dst_port, vh_len = len, vh_vtype = vtype, vh_op = op,
                 vh_flags = flags, vh_buf_alloc = buf_alloc, vh_fwd_cnt = fwd_cnt\<rparr>)))"

definition VsockHeader_write_to :: "vsock_header \<Rightarrow> bytes \<Rightarrow> (vsock_error, nat \<times> bytes) result" where
  "VsockHeader_write_to h buf =
     (if length buf < VSOCK_HDR_LEN then Err (ShortBuffer (length buf) VSOCK_HDR_LEN)
      else
        let buf = copy_into 0 (to_le 8 (vh_src_cid h)) buf;
            buf = copy_into 8 (to_le 8 (vh_dst_cid h)) buf;
            buf = copy_into 16 (to_le 4 (vh_src_port h)) buf;
            buf = copy_into 20 (to_le 4 (vh_dst_port h)) buf;
            buf = copy_into 24 (to_le 4 (vh_len h)) buf;
            buf = copy_into 28 (to_le 2 (VsockType_as_raw (vh_vtype h))) buf;
            buf = copy_into 30 (to_le 2 (VsockOp_as_raw (vh_op h))) buf;
            buf = copy_into 32 (to_le 4 (vh_flags h)) buf;
            buf = copy_into 36 (to_le 4 (vh_buf_alloc h)) buf;
            buf = copy_into 40 (to_le 4 (vh_fwd_cnt h)) buf
        in Ok (VSOCK_HDR_LEN, buf))"

definition VsockHeader_to_bytes :: "vsock_header \<Rightarrow> bytes" where
  "VsockHeader_to_bytes h =
     (let out = replicate VSOCK_HDR_LEN 0;
          out = copy_into 0 (to_le 8 (vh_src_cid h)) out;
          out = copy_into 8 (to_le 8 (vh_dst_cid h)) out;
          out = copy_into 16 (to_le 4 (vh_src_port h)) out;
          out = copy_into 20 (to_le 4 (vh_dst_port h)) out;
          out = copy_into 24 (to_le 4 (vh_len h)) out;
          out = copy_into 28 (to_le 2 (VsockType_as_raw (vh_vtype h))) out;
          out = copy_into 30 (to_le 2 (VsockOp_as_raw (vh_op h))) out;
          out = copy_into 32 (to_le 4 (vh_flags h)) out;
          out = copy_into 36 (to_le 4 (vh_buf_alloc h)) out;
          out = copy_into 40 (to_le 4 (vh_fwd_cnt h)) out
      in out)"

subsection \<open>Layout\<close>

definition header_layout :: "vsock_header \<Rightarrow> bytes" where
  "header_layout h =
     to_le 8 (vh_src_cid h) @ to_le 8 (vh_dst_cid h) @ to_le 4 (vh_src_port h) @
     to_le 4 (vh_dst_port h) @ to_le 4 (vh_len h) @ to_le 2 (VsockType_as_raw (vh_vtype h)) @
     to_le 2 (VsockOp_as_raw (vh_op h)) @ to_le 4 (vh_flags h) @ to_le 4 (vh_buf_alloc h) @
     to_le 4 (vh_fwd_cnt h)"

lemma length_header_layout [simp]: "length (header_layout h) = 44"
  by (simp add: header_layout_def)

lemma VsockHeader_write_to_eq:
  "VSOCK_HDR_LEN \<le> length buf \<Longrightarrow>
    VsockHeader_write_to h buf = Inr (VSOCK_HDR_LEN, header_layout h @ drop VSOCK_HDR_LEN buf)"
  by (simp add: VsockHeader_write_to_def header_layout_def VSOCK_HDR_LEN_def Let_def
      copy_into_first copy_into_next del: append_assoc)

lemma VsockHeader_to_bytes_eq: "VsockHeader_to_bytes h = header_layout h"
  using VsockHeader_write_to_eq [of "replicate VSOCK_HDR_LEN 0" h]
  by (simp add: VsockHeader_to_bytes_def VsockHeader_write_to_def Let_def)

lemma VsockOp_roundtrip [simp]: "VsockOp_from_raw (VsockOp_as_raw op) = Inr op"
  by (cases op) (simp_all add: VsockOp_from_raw_def)

lemma VsockOp_from_raw_Ok: "VsockOp_from_raw raw = Inr op \<Longrightarrow> VsockOp_as_raw op = raw"
  by (auto simp: VsockOp_from_raw_def split: if_splits)

lemma VsockType_roundtrip [simp]: "VsockType_from_raw (VsockType_as_raw t) = Inr t"
  by (cases t) (simp add: VsockType_from_raw_def)

lemma VsockType_from_raw_Ok: "VsockType_from_raw raw = Inr t \<Longrightarrow> VsockType_as_raw t = raw"
  by (auto simp: VsockType_from_raw_def split: if_splits)

lemma header_slices:
  assumes "44 \<le> length b"
  shows "take 44 b = slice_at 0 8 b @ slice_at 8 8 b @ slice_at 16 4 b @ slice_at 20 4 b @
    slice_at 24 4 b @ slice_at 28 2 b @ slice_at 30 2 b @ slice_at 32 4 b @ slice_at 36 4 b @
    slice_at 40 4 b"
  using slice_append_adj [of 0 8 b 8] slice_append_adj [of 0 16 b 4] slice_append_adj [of 0 20 b 4]
    slice_append_adj [of 0 24 b 4] slice_append_adj [of 0 28 b 2] slice_append_adj [of 0 30 b 2]
    slice_append_adj [of 0 32 b 4] slice_append_adj [of 0 36 b 4] slice_append_adj [of 0 40 b 4]
  by (simp add: slice_zero_take flip: append_assoc)

interpretation vsock_codec: canonical_codec VsockHeader_to_bytes VsockHeader_from_bytes VSOCK_HDR_LEN
  "\<lambda>n. ShortHeader n VSOCK_HDR_LEN" "\<lambda>_. True"
proof (unfold_locales, goal_cases)
  case (1 x)
  show ?case by (simp add: VsockHeader_to_bytes_eq VSOCK_HDR_LEN_def)
next
  case (2 x rest)
  show ?case
    by (simp add: VsockHeader_to_bytes_eq VsockHeader_from_bytes_def VSOCK_HDR_LEN_def
        header_layout_def slice_at_def Let_def)
next
  case (3 b)
  then show ?case by (simp add: VsockHeader_from_bytes_def)
next
  case (5 b x)
  then have len: "44 \<le> length b"
    by (simp add: VsockHeader_from_bytes_def VSOCK_HDR_LEN_def split: if_splits)
  with 5 show ?case
    by (auto simp: VsockHeader_from_bytes_def VSOCK_HDR_LEN_def VsockHeader_to_bytes_eq
        header_layout_def header_slices [OF len] Let_def and_then_eqs le_roundtrip_bytes
        dest!: VsockOp_from_raw_Ok VsockType_from_raw_Ok)
qed simp

subsection \<open>Properties\<close>

text \<open>
  The vsock header codec is exact: a buffer parses to \<open>h\<close> exactly when its first 44
  bytes are the serialization of \<open>h\<close> (so parsing ignores the payload, loses no field, and no
  two byte strings mean the same header); both serializers agree, \<^verbatim>\<open>write_to\<close> touching the
  first 44 bytes only.
\<close>

theorem vsock_header_exact:
  "(VsockHeader_from_bytes buf = Ok h \<longleftrightarrow>
      VSOCK_HDR_LEN \<le> length buf \<and> take VSOCK_HDR_LEN buf = VsockHeader_to_bytes h) \<and>
   VsockHeader_write_to h buf =
     (if length buf < VSOCK_HDR_LEN then Err (ShortBuffer (length buf) VSOCK_HDR_LEN)
      else Ok (VSOCK_HDR_LEN, VsockHeader_to_bytes h @ drop VSOCK_HDR_LEN buf))"
  using VsockHeader_write_to_eq [of buf h]
  by (simp add: vsock_codec.dec_iff VsockHeader_write_to_def VsockHeader_to_bytes_eq)

text \<open>
  The header parser rejects exactly the inputs the specification reserves: short
  buffers first, then a type other than stream, then an operation above 7, each reported with
  the offending value.
\<close>

theorem vsock_header_errors:
  "VsockHeader_from_bytes buf = Err e \<longleftrightarrow>
     (if length buf < 44 then e = ShortHeader (length buf) 44
      else let t = from_le (slice_at 28 2 buf); op = from_le (slice_at 30 2 buf) in
        if t \<noteq> 1 then e = UnknownType t
        else op > 7 \<and> e = UnknownOp op)"
proof -
  have op: "VsockOp_from_raw raw = Err e' \<longleftrightarrow> raw > 7 \<and> e' = UnknownOp raw" for raw e'
  proof -
    have "raw > 7 \<longleftrightarrow> raw \<notin> {0, 1, 2, 3, 4, 5, 6, 7}"
    proof -
      have "raw \<in> {0, 1, 2, 3, 4, 5, 6, 7}" if "raw \<le> 7"
      proof -
        have "unat raw \<le> 7" using that by (simp add: word_le_nat_alt)
        then have "unat raw \<in> {0, 1, 2, 3, 4, 5, 6, 7}" by auto
        then show ?thesis by (auto simp: word_unat_eq_iff)
      qed
      then show ?thesis by (auto simp: not_le [symmetric] simp del: insert_iff)
    qed
    then show ?thesis by (auto simp: VsockOp_from_raw_def)
  qed
  show ?thesis
    by (auto simp: VsockHeader_from_bytes_def VSOCK_HDR_LEN_def Let_def and_then_eqs op
        VsockType_from_raw_def)
qed

end
