(* ===== verification/Vsock_Connection.thy ===== *)
theory Vsock_Connection
  imports Vsock_Packet
begin

text \<open>
  The per-connection state machine of \<^verbatim>\<open>crates/virtio-vsock/src/lib.rs\<close> (\<^verbatim>\<open>Connection\<close>).
  An operation with a \<^verbatim>\<open>&mut self\<close> receiver returns the updated connection next to its
  result: \<open>recv_header\<close> updates the credit counters even when it then fails, so the state
  after an error matters.

  The abstract side is the transition diagram of the \<^verbatim>\<open>ConnectionState\<close> documentation as an
  inductive relation; the operations are shown to follow it, data to flow only after a
  handshake, and the wrapping credit counters to compute the exact credit.
\<close>

record endpoint =
  ep_cid :: u64
  ep_port :: u32

definition Endpoint_new :: "u64 \<Rightarrow> u32 \<Rightarrow> endpoint" where
  "Endpoint_new cid port = \<lparr>ep_cid = cid, ep_port = port\<rparr>"

record connection_id =
  ci_local :: endpoint
  ci_remote :: endpoint

definition ConnectionId_new :: "endpoint \<Rightarrow> endpoint \<Rightarrow> connection_id" where
  "ConnectionId_new local remote = \<lparr>ci_local = local, ci_remote = remote\<rparr>"

datatype connection_state =
    Closed
  | Listen
  | SynSent
  | Established
  | FinWait
  | CloseWait

datatype connection_error =
    InvalidOp vsock_op connection_state
  | InvalidStateTransition connection_state
  | EndpointMismatch connection_id connection_id
  | NotWritable connection_state

record connection =
  cn_id :: connection_id
  cn_state :: connection_state
  cn_local_buf_alloc :: u32
  cn_fwd_cnt :: u32
  cn_peer_buf_alloc :: u32
  cn_peer_fwd_cnt :: u32
  cn_tx_cnt :: u32

type_synonym conn_result = "(connection_error, unit) result"

definition Connection_new :: "connection_id \<Rightarrow> u32 \<Rightarrow> connection" where
  "Connection_new i buf_alloc =
     \<lparr>cn_id = i, cn_state = Closed, cn_local_buf_alloc = buf_alloc, cn_fwd_cnt = 0,
      cn_peer_buf_alloc = 0, cn_peer_fwd_cnt = 0, cn_tx_cnt = 0\<rparr>"

definition Connection_listen :: "connection \<Rightarrow> connection \<times> conn_result" where
  "Connection_listen c =
     (if cn_state c \<noteq> Closed then (c, Err (InvalidStateTransition (cn_state c)))
      else (c\<lparr>cn_state := Listen\<rparr>, Ok ()))"

definition Connection_connect :: "connection \<Rightarrow> connection \<times> conn_result" where
  "Connection_connect c =
     (if cn_state c \<noteq> Closed then (c, Err (InvalidStateTransition (cn_state c)))
      else (c\<lparr>cn_state := SynSent\<rparr>, Ok ()))"

text \<open>The identity a packet carries, seen from the receiver: its destination is local.\<close>

definition incoming_id :: "vsock_header \<Rightarrow> connection_id" where
  "incoming_id hdr =
     \<lparr>ci_local = Endpoint_new (vh_dst_cid hdr) (vh_dst_port hdr),
      ci_remote = Endpoint_new (vh_src_cid hdr) (vh_src_port hdr)\<rparr>"

definition recv_header :: "connection \<Rightarrow> vsock_header \<Rightarrow> connection \<times> conn_result" where
  "recv_header c hdr =
     (let incoming = incoming_id hdr in
      if incoming \<noteq> cn_id c then (c, Err (EndpointMismatch (cn_id c) incoming))
      else
        let c = c\<lparr>cn_peer_buf_alloc := vh_buf_alloc hdr, cn_peer_fwd_cnt := vh_fwd_cnt hdr\<rparr>
        in case (cn_state c, vh_op hdr) of
             (Listen, Request) \<Rightarrow> (c\<lparr>cn_state := Established\<rparr>, Ok ())
           | (SynSent, Response) \<Rightarrow> (c\<lparr>cn_state := Established\<rparr>, Ok ())
           | (Established, Rw) \<Rightarrow> (c, Ok ())
           | (Established, CreditUpdate) \<Rightarrow> (c, Ok ())
           | (Established, CreditRequest) \<Rightarrow> (c, Ok ())
           | (CloseWait, CreditUpdate) \<Rightarrow> (c, Ok ())
           | (CloseWait, CreditRequest) \<Rightarrow> (c, Ok ())
           | (FinWait, CreditUpdate) \<Rightarrow> (c, Ok ())
           | (FinWait, CreditRequest) \<Rightarrow> (c, Ok ())
           | (Established, Shutdown) \<Rightarrow> (c\<lparr>cn_state := CloseWait\<rparr>, Ok ())
           | (FinWait, Shutdown) \<Rightarrow> (c\<lparr>cn_state := Closed\<rparr>, Ok ())
           | (FinWait, Rst) \<Rightarrow> (c\<lparr>cn_state := Closed\<rparr>, Ok ())
           | (CloseWait, Rst) \<Rightarrow> (c\<lparr>cn_state := Closed\<rparr>, Ok ())
           | (_, Rst) \<Rightarrow> (c\<lparr>cn_state := Closed\<rparr>, Ok ())
           | (state, op) \<Rightarrow> (c, Err (InvalidOp op state)))"

definition record_send :: "connection \<Rightarrow> u32 \<Rightarrow> connection \<times> conn_result" where
  "record_send c n =
     (if cn_state c \<noteq> Established then (c, Err (NotWritable (cn_state c)))
      else (c\<lparr>cn_tx_cnt := cn_tx_cnt c + n\<rparr>, Ok ()))"

definition record_recv :: "connection \<Rightarrow> u32 \<Rightarrow> connection" where
  "record_recv c n = c\<lparr>cn_fwd_cnt := cn_fwd_cnt c + n\<rparr>"

definition send_credit :: "connection \<Rightarrow> u32" where
  "send_credit c = cn_peer_buf_alloc c - (cn_tx_cnt c - cn_peer_fwd_cnt c)"

definition Connection_shutdown :: "connection \<Rightarrow> connection \<times> conn_result" where
  "Connection_shutdown c =
     (if cn_state c \<noteq> Established then (c, Err (InvalidStateTransition (cn_state c)))
      else (c\<lparr>cn_state := FinWait\<rparr>, Ok ()))"

definition Connection_rst :: "connection \<Rightarrow> connection" where
  "Connection_rst c = c\<lparr>cn_state := Closed\<rparr>"

lemmas connection_ops = Connection_listen_def Connection_connect_def record_send_def record_recv_def
  Connection_shutdown_def Connection_rst_def

subsection \<open>Actions and runs\<close>

text \<open>Everything that can happen to a connection, and the effect of a sequence of events.\<close>

datatype conn_action =
    DoListen
  | DoConnect
  | Peer vsock_header
  | Send u32
  | Consume u32
  | DoShutdown
  | DoRst

fun conn_exec :: "conn_action \<Rightarrow> connection \<Rightarrow> connection \<times> conn_result" where
  "conn_exec DoListen c = Connection_listen c"
| "conn_exec DoConnect c = Connection_connect c"
| "conn_exec (Peer hdr) c = recv_header c hdr"
| "conn_exec (Send n) c = record_send c n"
| "conn_exec (Consume n) c = (record_recv c n, Ok ())"
| "conn_exec DoShutdown c = Connection_shutdown c"
| "conn_exec DoRst c = (Connection_rst c, Ok ())"

definition conn_run :: "conn_action list \<Rightarrow> connection \<Rightarrow> connection" where
  "conn_run acts c = fold (\<lambda>a c. fst (conn_exec a c)) acts c"

lemma conn_run_simps [simp]:
  "conn_run [] c = c"
  "conn_run (a # acts) c = conn_run acts (fst (conn_exec a c))"
  "conn_run (acts @ acts') c = conn_run acts' (conn_run acts c)"
  by (simp_all add: conn_run_def)

text \<open>
  The documented diagram. The edge \<open>CloseWait\<close> to \<open>Closed\<close> by a local shutdown is drawn in the
  documentation, but no operation implements it.
\<close>

inductive lifecycle :: "connection_state \<Rightarrow> conn_action \<Rightarrow> connection_state \<Rightarrow> bool" where
  listen: "lifecycle Closed DoListen Listen"
| connect: "lifecycle Closed DoConnect SynSent"
| accept: "vh_op h = Request \<Longrightarrow> lifecycle Listen (Peer h) Established"
| accepted: "vh_op h = Response \<Longrightarrow> lifecycle SynSent (Peer h) Established"
| fin: "lifecycle Established DoShutdown FinWait"
| fin_ack: "vh_op h = Shutdown \<Longrightarrow> lifecycle FinWait (Peer h) Closed"
| peer_fin: "vh_op h = Shutdown \<Longrightarrow> lifecycle Established (Peer h) CloseWait"
| peer_rst: "vh_op h = Rst \<Longrightarrow> lifecycle s (Peer h) Closed"
| rst: "lifecycle s DoRst Closed"

inductive_simps lifecycle_simps:
  "lifecycle s DoListen s'" "lifecycle s DoConnect s'" "lifecycle s (Peer h) s'"
  "lifecycle s (Send n) s'" "lifecycle s (Consume n) s'" "lifecycle s DoShutdown s'" "lifecycle s DoRst s'"

lemma recv_header_mismatch:
  "incoming_id h \<noteq> cn_id c \<Longrightarrow> recv_header c h = (c, Inl (EndpointMismatch (cn_id c) (incoming_id h)))"
  by (simp add: recv_header_def Let_def)

lemma recv_header_match:
  assumes "incoming_id h = cn_id c"
  shows "fst (recv_header c h) =
      c\<lparr>cn_peer_buf_alloc := vh_buf_alloc h, cn_peer_fwd_cnt := vh_fwd_cnt h,
        cn_state := cn_state (fst (recv_header c h))\<rparr>"
    and "snd (recv_header c h) =
      (if vh_op h = Rst \<or> (cn_state c, vh_op h) \<in> {(Listen, Request), (SynSent, Response),
            (Established, Rw), (Established, Shutdown), (FinWait, Shutdown)} \<or>
          cn_state c \<in> {Established, CloseWait, FinWait} \<and> vh_op h \<in> {CreditUpdate, CreditRequest}
       then Ok () else Err (InvalidOp (vh_op h) (cn_state c)))"
    and "cn_state (fst (recv_header c h)) =
      (if vh_op h = Rst then Closed
       else case (cn_state c, vh_op h) of
         (Listen, Request) \<Rightarrow> Established | (SynSent, Response) \<Rightarrow> Established
       | (Established, Shutdown) \<Rightarrow> CloseWait | (FinWait, Shutdown) \<Rightarrow> Closed
       | (s, _) \<Rightarrow> s)"
  using assms
  by (cases "cn_state c"; cases "vh_op h"; simp add: recv_header_def Let_def)+

lemma recv_header_fields [simp]:
  "cn_id (fst (recv_header c h)) = cn_id c"
  "cn_local_buf_alloc (fst (recv_header c h)) = cn_local_buf_alloc c"
  "cn_fwd_cnt (fst (recv_header c h)) = cn_fwd_cnt c"
  "cn_tx_cnt (fst (recv_header c h)) = cn_tx_cnt c"
  by (cases "incoming_id h = cn_id c"; cases "cn_state c"; cases "vh_op h";
      simp add: recv_header_def Let_def)+

lemmas recv_header_outcome = recv_header_match(2,3)

lemma conn_exec_id [simp]: "cn_id (fst (conn_exec a c)) = cn_id c"
  by (cases a) (simp_all add: connection_ops)

lemma conn_run_id [simp]: "cn_id (conn_run acts c) = cn_id c"
  by (induction acts arbitrary: c) simp_all

lemma conn_exec_lifecycle:
  "cn_state (fst (conn_exec a c)) \<noteq> cn_state c \<Longrightarrow>
    lifecycle (cn_state c) a (cn_state (fst (conn_exec a c))) \<and> snd (conn_exec a c) = Inr ()"
proof (cases a)
  case (Peer h)
  assume ne: "cn_state (fst (conn_exec a c)) \<noteq> cn_state c"
  with Peer have m: "incoming_id h = cn_id c"
    using recv_header_mismatch [of h c] by fastforce
  with ne Peer show ?thesis
    by (cases "cn_state c"; cases "vh_op h"; simp add: recv_header_outcome lifecycle_simps)
qed (auto simp: connection_ops lifecycle_simps split: if_splits)

lemma lifecycle_complete:
  assumes "lifecycle (cn_state c) a s'"
    and "\<And>h. a = Peer h \<Longrightarrow> incoming_id h = cn_id c"
  shows "cn_state (fst (conn_exec a c)) = s' \<and> snd (conn_exec a c) = Inr ()"
  using assms
  by (cases rule: lifecycle.cases) (auto simp: connection_ops recv_header_outcome)

subsection \<open>The handshake\<close>

text \<open>What ends an established connection, and what a run must contain to have established one.\<close>

fun ends_stream :: "connection_id \<Rightarrow> conn_action \<Rightarrow> bool" where
  "ends_stream i (Peer h) = (incoming_id h = i \<and> vh_op h \<in> {Rst, Shutdown})"
| "ends_stream i DoRst = True"
| "ends_stream i DoShutdown = True"
| "ends_stream i _ = False"

fun completes_open :: "connection_id \<Rightarrow> conn_action \<Rightarrow> conn_action \<Rightarrow> bool" where
  "completes_open i DoListen (Peer h) = (incoming_id h = i \<and> vh_op h = Request)"
| "completes_open i DoConnect (Peer h) = (incoming_id h = i \<and> vh_op h = Response)"
| "completes_open i _ _ = False"

definition handshaken :: "connection_id \<Rightarrow> conn_action list \<Rightarrow> bool" where
  "handshaken i acts \<longleftrightarrow> (\<exists>pre a mid b post. acts = pre @ a # mid @ b # post \<and>
     completes_open i a b \<and> \<not> list_ex (ends_stream i) post)"

lemma handshaken_snoc: "handshaken i acts \<Longrightarrow> \<not> ends_stream i x \<Longrightarrow> handshaken i (acts @ [x])"
  unfolding handshaken_def
  by (elim exE conjE, rule_tac x = pre in exI, rule_tac x = a in exI, rule_tac x = mid in exI,
      rule_tac x = b in exI, rule_tac x = "post @ [x]" in exI) simp

lemma completes_open_handshaken:
  assumes "a \<in> set acts" and "completes_open i a b"
  shows "handshaken i (acts @ [b])"
proof -
  from assms(1) obtain pre mid where "acts = pre @ a # mid" by (meson split_list)
  then have "acts @ [b] = pre @ a # mid @ b # []" by simp
  with assms(2) show ?thesis unfolding handshaken_def by fastforce
qed

inductive_cases lifecycle_to_openE: "lifecycle s a Listen" "lifecycle s a SynSent"

lemma conn_exec_to:
  "cn_state (fst (conn_exec a c)) = Listen \<Longrightarrow> cn_state c = Listen \<or> a = DoListen"
  "cn_state (fst (conn_exec a c)) = SynSent \<Longrightarrow> cn_state c = SynSent \<or> a = DoConnect"
  using conn_exec_lifecycle [of a c] by (metis lifecycle_to_openE)+

lemma conn_exec_to_Established:
  assumes "cn_state (fst (conn_exec a c)) = Established"
  shows "cn_state c = Established \<and> \<not> ends_stream (cn_id c) a \<or>
    cn_state c = Listen \<and> completes_open (cn_id c) DoListen a \<or>
    cn_state c = SynSent \<and> completes_open (cn_id c) DoConnect a"
proof (cases a)
  case (Peer h)
  then show ?thesis
    using assms
    by (cases "incoming_id h = cn_id c"; cases "cn_state c"; cases "vh_op h";
        simp add: recv_header_outcome recv_header_mismatch)
qed (use assms in \<open>auto simp: connection_ops split: if_splits\<close>)

lemma conn_run_history:
  assumes "cn_state c = Closed" and "cn_id c = i"
  shows "(cn_state (conn_run acts c) = Listen \<longrightarrow> DoListen \<in> set acts) \<and>
    (cn_state (conn_run acts c) = SynSent \<longrightarrow> DoConnect \<in> set acts) \<and>
    (cn_state (conn_run acts c) = Established \<longrightarrow> handshaken i acts)"
proof (induction acts rule: rev_induct)
  case Nil
  then show ?case using assms by simp
next
  case (snoc a acts)
  let ?c = "conn_run acts c"
  have "handshaken i (acts @ [a])" if "cn_state (fst (conn_exec a ?c)) = Established"
    using conn_exec_to_Established [OF that] snoc.IH assms(2)
    by (auto intro: handshaken_snoc completes_open_handshaken)
  then show ?case using snoc.IH conn_exec_to [of a ?c] by auto
qed

subsection \<open>Credit\<close>

lemma run_sends:
  assumes "cn_state c = Established"
  shows "conn_run (map Send ns) c = c\<lparr>cn_tx_cnt := cn_tx_cnt c + sum_list ns\<rparr>"
  using assms by (induction ns arbitrary: c) (simp_all add: record_send_def add.assoc)

lemma unat_sub_wrap:
  fixes a b :: "'a::len word"
  shows "unat (a - b) = (if b \<le> a then unat a - unat b else unat a + 2 ^ LENGTH('a) - unat b)"
  by (simp add: unat_sub_if' word_le_nat_alt)

lemma unat_add_sum_list:
  fixes a :: "'a::len word"
  assumes "unat a + sum_list (map unat ns) < 2 ^ LENGTH('a)"
  shows "unat (a + sum_list ns) = unat a + sum_list (map unat ns)"
  using assms
proof (induction ns arbitrary: a)
  case (Cons n ns)
  then have "unat (a + n) = unat a + unat n" by (simp add: unat_word_ariths)
  with Cons.prems Cons.IH [of "a + n"] show ?case by (simp add: add.assoc)
qed simp

subsection \<open>Properties\<close>



text \<open>
  Data flows only after a handshake. If, after any sequence of local calls and packets on a
  fresh connection, a send is accepted, then the sequence contains a \<^verbatim>\<open>listen\<close> followed by the
  peer's \<^verbatim>\<open>Request\<close>, or a \<^verbatim>\<open>connect\<close> followed by the peer's \<^verbatim>\<open>Response\<close>, addressed to this
  connection, and since then neither side has reset or shut down the stream.
\<close>

theorem send_needs_handshake:
  assumes "snd (record_send (conn_run acts (Connection_new i buf)) n) = Ok ()"
  shows "\<exists>pre a mid b post. acts = pre @ a # mid @ b # post \<and>
    completes_open i a b \<and> \<not> list_ex (ends_stream i) post"
proof -
  have "cn_state (conn_run acts (Connection_new i buf)) = Established"
    using assms by (simp add: record_send_def split: if_splits)
  then show ?thesis
    using conn_run_history [of "Connection_new i buf" i acts]
    by (simp add: Connection_new_def handshaken_def)
qed

theorem send_needs_handshake_witness:
  "let i = ConnectionId_new (Endpoint_new 2 5000) (Endpoint_new 3 1024);
       h = \<lparr>vh_src_cid = 3, vh_dst_cid = 2, vh_src_port = 1024, vh_dst_port = 5000, vh_len = 0,
            vh_vtype = Stream, vh_op = Request, vh_flags = 0, vh_buf_alloc = 65536, vh_fwd_cnt = 0\<rparr>;
       acts = [DoListen, Peer h]
   in snd (record_send (conn_run acts (Connection_new i 4096)) 10) = Ok () \<and>
      (\<exists>pre a mid b post. acts = pre @ a # mid @ b # post \<and>
         completes_open i a b \<and> \<not> list_ex (ends_stream i) post)"
proof -
  let ?i = "ConnectionId_new (Endpoint_new 2 5000) (Endpoint_new 3 1024)"
  let ?h = "\<lparr>vh_src_cid = 3, vh_dst_cid = 2, vh_src_port = 1024, vh_dst_port = 5000, vh_len = 0,
            vh_vtype = Stream, vh_op = Request, vh_flags = 0, vh_buf_alloc = 65536, vh_fwd_cnt = 0\<rparr>"
  have s: "snd (record_send (conn_run [DoListen, Peer ?h] (Connection_new ?i 4096)) 10) = Ok ()"
    by (simp add: connection_ops recv_header_def incoming_id_def ConnectionId_new_def
        Connection_new_def Let_def)
  show ?thesis unfolding Let_def using s send_needs_handshake [OF s] by blast
qed

text \<open>
  The credit computed from the wrapping 32-bit counters is exact while the peer's buffer is
  not over-committed: after any accepted sends it is the advertised buffer less every byte in
  flight, whatever the counter values. Once more bytes are in flight than the peer advertised,
  the subtraction wraps and the credit exceeds the peer's whole buffer.
\<close>

theorem send_credit_exact:
  assumes "cn_state c = Established"
    and flight: "flight = unat (cn_tx_cnt c - cn_peer_fwd_cnt c) + sum_list (map unat ns)"
    and "flight < 2 ^ 32"
  shows "unat (send_credit (conn_run (map Send ns) c)) =
    (if flight \<le> unat (cn_peer_buf_alloc c) then unat (cn_peer_buf_alloc c) - flight
     else unat (cn_peer_buf_alloc c) + 2 ^ 32 - flight)"
proof -
  let ?f = "cn_tx_cnt c - cn_peer_fwd_cnt c + sum_list ns"
  have f: "unat ?f = flight"
    using unat_add_sum_list [of "cn_tx_cnt c - cn_peer_fwd_cnt c" ns] assms(2,3) by simp
  have "send_credit (conn_run (map Send ns) c) = cn_peer_buf_alloc c - ?f"
    by (simp add: run_sends [OF assms(1)] send_credit_def algebra_simps)
  then show ?thesis by (simp add: unat_sub_wrap f word_le_nat_alt)
qed

theorem send_credit_exact_witness:
  "let c = (Connection_new (ConnectionId_new (Endpoint_new 2 5000) (Endpoint_new 3 1024)) 4096)
         \<lparr>cn_state := Established, cn_peer_buf_alloc := 1000, cn_tx_cnt := 0xfffffff0,
          cn_peer_fwd_cnt := 0xffffffe0\<rparr>
   in unat (send_credit (conn_run (map Send [100, 200]) c)) = 684"
  using send_credit_exact [of "(Connection_new (ConnectionId_new (Endpoint_new 2 5000) (Endpoint_new 3 1024)) 4096)
         \<lparr>cn_state := Established, cn_peer_buf_alloc := 1000, cn_tx_cnt := 0xfffffff0,
          cn_peer_fwd_cnt := 0xffffffe0\<rparr>" 316 "[100, 200]"]
  unfolding Let_def by simp

end
