(* ===== verification/Vsock_Table.thy ===== *)
theory Vsock_Table
  imports Vsock_Connection
begin

text \<open>
  The host-side connection table (\<^verbatim>\<open>crates/virtio-vsock/src/conn_table.rs\<close>): the listening
  ports, the map from connection ids to connections, the dispatcher of incoming headers with its
  handlers, and \<open>prepare_data\<close> for outbound data.

  The locale \<open>keyed_dispatch\<close> is the contract of a dispatcher that routes every packet by a
  key: one packet touches its own entry only, and what it does there depends on that entry and
  the shared configuration only. Its clients get isolation of connections: the traffic of one
  connection behaves as if the others did not exist. The table is also shown to refine a
  specification with two states per connection.
\<close>

datatype reply =
    SendReply vsock_header
  | DeliverPayload connection_id u32
  | NoReply

record table_config =
  tc_local_cid :: u64
  tc_default_buf_alloc :: u32

definition TableConfig_default :: table_config where
  "TableConfig_default = \<lparr>tc_local_cid = HYPERVISOR_CID, tc_default_buf_alloc = 64 * 1024\<rparr>"

record connection_table =
  ct_cfg :: table_config
  ct_listening :: "u32 set"
  ct_connections :: "connection_id \<rightharpoonup> connection"

definition ConnectionTable_new :: "table_config \<Rightarrow> connection_table" where
  "ConnectionTable_new cfg = \<lparr>ct_cfg = cfg, ct_listening = {}, ct_connections = Map.empty\<rparr>"

definition is_listening :: "connection_table \<Rightarrow> u32 \<Rightarrow> bool" where
  "is_listening t port = (port \<in> ct_listening t)"

definition ConnectionTable_len :: "connection_table \<Rightarrow> nat" where
  "ConnectionTable_len t = card (dom (ct_connections t))"

definition ConnectionTable_is_empty :: "connection_table \<Rightarrow> bool" where
  "ConnectionTable_is_empty t = (dom (ct_connections t) = {})"

definition ConnectionTable_get :: "connection_table \<Rightarrow> connection_id \<Rightarrow> connection option" where
  "ConnectionTable_get t i = ct_connections t i"

text \<open>
  \<^verbatim>\<open>first_established\<close> walks the hash map in its iteration order, which the standard library
  leaves unspecified: the order is an argument.
\<close>

definition first_established :: "connection_id list \<Rightarrow> connection_table \<Rightarrow> connection_id option" where
  "first_established order t =
     find (\<lambda>i. case ct_connections t i of None \<Rightarrow> False | Some c \<Rightarrow> cn_state c = Established) order"

definition ConnectionTable_listen :: "connection_table \<Rightarrow> u32 \<Rightarrow> connection_table \<times> bool" where
  "ConnectionTable_listen t port =
     (t\<lparr>ct_listening := insert port (ct_listening t)\<rparr>, port \<notin> ct_listening t)"

definition ConnectionTable_unlisten :: "connection_table \<Rightarrow> u32 \<Rightarrow> connection_table \<times> bool" where
  "ConnectionTable_unlisten t port =
     (t\<lparr>ct_listening := ct_listening t - {port}\<rparr>, port \<in> ct_listening t)"

definition drop_connection :: "connection_table \<Rightarrow> connection_id \<Rightarrow> connection_table \<times> bool" where
  "drop_connection t i =
     (t\<lparr>ct_connections := (ct_connections t)(i := None)\<rparr>, ct_connections t i \<noteq> None)"

definition rst_static :: "u64 \<Rightarrow> connection_id \<Rightarrow> u32 \<Rightarrow> vsock_header" where
  "rst_static local_cid i flags =
     \<lparr>vh_src_cid = ep_cid (ci_local i), vh_dst_cid = ep_cid (ci_remote i),
      vh_src_port = ep_port (ci_local i), vh_dst_port = ep_port (ci_remote i), vh_len = 0,
      vh_vtype = Stream, vh_op = Rst, vh_flags = flags, vh_buf_alloc = 0, vh_fwd_cnt = 0\<rparr>"

definition rst_for :: "connection_table \<Rightarrow> connection_id \<Rightarrow> vsock_header \<Rightarrow> vsock_header" where
  "rst_for t i src_hdr = rst_static (tc_local_cid (ct_cfg t)) i (vh_flags src_hdr)"

definition reply_header :: "connection_table \<Rightarrow> connection_id \<Rightarrow> vsock_op \<Rightarrow> vsock_header" where
  "reply_header t i op =
     (let (buf_alloc, fwd_cnt) =
            (case ct_connections t i of
               Some c \<Rightarrow> (cn_local_buf_alloc c, cn_fwd_cnt c)
             | None \<Rightarrow> (tc_default_buf_alloc (ct_cfg t), 0))
      in \<lparr>vh_src_cid = ep_cid (ci_local i), vh_dst_cid = ep_cid (ci_remote i),
          vh_src_port = ep_port (ci_local i), vh_dst_port = ep_port (ci_remote i), vh_len = 0,
          vh_vtype = Stream, vh_op = op, vh_flags = 0, vh_buf_alloc = buf_alloc,
          vh_fwd_cnt = fwd_cnt\<rparr>)"

definition set_conn :: "connection_table \<Rightarrow> connection_id \<Rightarrow> connection option \<Rightarrow> connection_table" where
  "set_conn t i v = t\<lparr>ct_connections := (ct_connections t)(i := v)\<rparr>"

definition handle_request ::
    "connection_table \<Rightarrow> connection_id \<Rightarrow> vsock_header \<Rightarrow> connection_table \<times> reply" where
  "handle_request t i hdr =
     (if vh_dst_port hdr \<notin> ct_listening t then (t, SendReply (rst_for t i hdr))
      else if ct_connections t i \<noteq> None then (t, SendReply (rst_for t i hdr))
      else
        let conn = Connection_new i (tc_default_buf_alloc (ct_cfg t));
            (conn, r) = Connection_listen conn
        in if \<not> is_ok r then (t, SendReply (rst_for t i hdr))
           else let (conn, r) = recv_header conn hdr
           in if \<not> is_ok r then (t, SendReply (rst_for t i hdr))
              else let t = set_conn t i (Some conn)
              in (t, SendReply (reply_header t i Response)))"

definition handle_data ::
    "connection_table \<Rightarrow> connection_id \<Rightarrow> vsock_header \<Rightarrow> connection_table \<times> reply" where
  "handle_data t i hdr =
     (case ct_connections t i of
        None \<Rightarrow> (t, SendReply (rst_for t i hdr))
      | Some conn \<Rightarrow>
          if cn_state conn \<noteq> Established then (t, SendReply (rst_for t i hdr))
          else let (conn, r) = recv_header conn hdr
          in if \<not> is_ok r
             then (set_conn t i None, SendReply (rst_static (tc_local_cid (ct_cfg t)) i (vh_flags hdr)))
             else (set_conn t i (Some conn),
                   if vh_len hdr = 0 then NoReply else DeliverPayload i (vh_len hdr)))"

definition handle_rst ::
    "connection_table \<Rightarrow> connection_id \<Rightarrow> vsock_header \<Rightarrow> connection_table \<times> reply" where
  "handle_rst t i hdr =
     (case ct_connections t i of
        None \<Rightarrow> (t, NoReply)
      | Some conn \<Rightarrow>
          let (conn, _) = recv_header conn hdr;
              t = set_conn t i (Some conn)
          in (set_conn t i None, NoReply))"

definition handle_shutdown ::
    "connection_table \<Rightarrow> connection_id \<Rightarrow> vsock_header \<Rightarrow> connection_table \<times> reply" where
  "handle_shutdown t i hdr =
     (case ct_connections t i of
        None \<Rightarrow> (t, SendReply (rst_for t i hdr))
      | Some conn \<Rightarrow>
          let (conn, r) = recv_header conn hdr
          in if \<not> is_ok r
             then (set_conn t i None, SendReply (rst_static (tc_local_cid (ct_cfg t)) i (vh_flags hdr)))
             else (set_conn t i (Some conn), NoReply))"

definition handle_response ::
    "connection_table \<Rightarrow> connection_id \<Rightarrow> vsock_header \<Rightarrow> connection_table \<times> reply" where
  "handle_response t i hdr =
     (case ct_connections t i of
        None \<Rightarrow> (t, SendReply (rst_for t i hdr))
      | Some conn \<Rightarrow>
          let (conn, r) = recv_header conn hdr
          in if \<not> is_ok r
             then (set_conn t i None, SendReply (rst_static (tc_local_cid (ct_cfg t)) i (vh_flags hdr)))
             else (set_conn t i (Some conn), NoReply))"

definition handle_credit ::
    "connection_table \<Rightarrow> connection_id \<Rightarrow> vsock_header \<Rightarrow> connection_table \<times> reply" where
  "handle_credit t i hdr =
     (case ct_connections t i of
        None \<Rightarrow> (t, SendReply (rst_for t i hdr))
      | Some conn \<Rightarrow>
          let (conn, _) = recv_header conn hdr
          in (set_conn t i (Some conn), NoReply))"

definition dispatch :: "connection_table \<Rightarrow> vsock_header \<Rightarrow> connection_table \<times> reply" where
  "dispatch t hdr =
     (let i = incoming_id hdr in
      case vh_op hdr of
        Request \<Rightarrow> handle_request t i hdr
      | Rw \<Rightarrow> handle_data t i hdr
      | Rst \<Rightarrow> handle_rst t i hdr
      | Shutdown \<Rightarrow> handle_shutdown t i hdr
      | Response \<Rightarrow> handle_response t i hdr
      | CreditUpdate \<Rightarrow> handle_credit t i hdr
      | CreditRequest \<Rightarrow> handle_credit t i hdr
      | Invalid \<Rightarrow> (t, SendReply (rst_for t i hdr)))"

definition prepare_data ::
    "connection_table \<Rightarrow> connection_id \<Rightarrow> u32 \<Rightarrow> connection_table \<times> vsock_header option" where
  "prepare_data t i len =
     (case ct_connections t i of
        None \<Rightarrow> (t, None)
      | Some conn \<Rightarrow>
          let (conn, r) = record_send conn len;
              t = set_conn t i (Some conn)
          in if \<not> is_ok r then (t, None)
             else (t, Some \<lparr>vh_src_cid = ep_cid (ci_local i), vh_dst_cid = ep_cid (ci_remote i),
               vh_src_port = ep_port (ci_local i), vh_dst_port = ep_port (ci_remote i), vh_len = len,
               vh_vtype = Stream, vh_op = Rw, vh_flags = 0, vh_buf_alloc = cn_local_buf_alloc conn,
               vh_fwd_cnt = cn_fwd_cnt conn\<rparr>))"

lemmas table_handlers = handle_request_def handle_data_def handle_rst_def handle_shutdown_def
  handle_response_def handle_credit_def

subsection \<open>Isolation of keyed dispatchers\<close>

text \<open>A run of packets: the final table and the replies, each with the packet it answers.\<close>

primrec disp_run :: "('t \<Rightarrow> 'h \<Rightarrow> 't \<times> 'r) \<Rightarrow> 't \<Rightarrow> 'h list \<Rightarrow> 't \<times> ('h \<times> 'r) list" where
  "disp_run disp t [] = (t, [])"
| "disp_run disp t (h # hs) =
     (let (t', r) = disp t h; (t'', rs) = disp_run disp t' hs in (t'', (h, r) # rs))"

locale keyed_dispatch =
  fixes disp :: "'t \<Rightarrow> 'h \<Rightarrow> 't \<times> 'r"
    and key :: "'h \<Rightarrow> 'k"
    and look :: "'t \<Rightarrow> 'k \<Rightarrow> 'v option"
    and env :: "'t \<Rightarrow> 'c"
  assumes disp_frame: "key h \<noteq> k \<Longrightarrow> look (fst (disp t h)) k = look t k"
    and disp_env: "env (fst (disp t h)) = env t"
    and disp_local: "env t = env u \<Longrightarrow> look t (key h) = look u (key h) \<Longrightarrow>
      snd (disp t h) = snd (disp u h) \<and> look (fst (disp t h)) (key h) = look (fst (disp u h)) (key h)"
begin

lemma disp_run_env: "env (fst (disp_run disp t hs)) = env t"
  by (induction hs arbitrary: t) (auto simp: disp_env split_beta)

lemma run_isolated:
  assumes "env t = env u" and "look t k = look u k"
  shows "look (fst (disp_run disp t hs)) k = look (fst (disp_run disp u (filter (\<lambda>h. key h = k) hs))) k \<and>
    filter (\<lambda>(h, r). key h = k) (snd (disp_run disp t hs)) = snd (disp_run disp u (filter (\<lambda>h. key h = k) hs))"
  using assms
proof (induction hs arbitrary: t u)
  case Nil
  then show ?case by simp
next
  case (Cons h hs)
  show ?case
  proof (cases "key h = k")
    case True
    then have "snd (disp t h) = snd (disp u h)" and "look (fst (disp t h)) k = look (fst (disp u h)) k"
      using disp_local [of t u h] Cons.prems by auto
    with Cons.IH [of "fst (disp t h)" "fst (disp u h)"] Cons.prems True show ?thesis
      by (simp add: split_beta disp_env)
  next
    case False
    with Cons.IH [of "fst (disp t h)" u] Cons.prems show ?thesis
      by (simp add: split_beta disp_env disp_frame)
  qed
qed

end

subsection \<open>Invariant\<close>

text \<open>
  Connections in the table are filed under their own id, advertise the configured buffer, and
  are established or half-closed: \<open>Closed\<close>, \<open>Listen\<close>, \<open>SynSent\<close> and \<open>FinWait\<close> never occur. No
  operation of the table advances \<open>fwd_cnt\<close>.
\<close>

definition conn_ok :: "table_config \<Rightarrow> connection_id \<Rightarrow> connection \<Rightarrow> bool" where
  "conn_ok cfg i c \<longleftrightarrow> cn_id c = i \<and> cn_state c \<in> {Established, CloseWait} \<and>
     cn_local_buf_alloc c = tc_default_buf_alloc cfg \<and> cn_fwd_cnt c = 0"

definition table_inv :: "connection_table \<Rightarrow> bool" where
  "table_inv t \<longleftrightarrow> finite (dom (ct_connections t)) \<and>
     (\<forall>i c. ct_connections t i = Some c \<longrightarrow> conn_ok (ct_cfg t) i c)"

lemma table_inv_conn: "table_inv t \<Longrightarrow> ct_connections t i = Some c \<Longrightarrow> conn_ok (ct_cfg t) i c"
  by (simp add: table_inv_def)

lemma set_conn_simps [simp]:
  "ct_cfg (set_conn t i v) = ct_cfg t"
  "ct_listening (set_conn t i v) = ct_listening t"
  "ct_connections (set_conn t i v) = (ct_connections t)(i := v)"
  by (simp_all add: set_conn_def)

lemma set_conn_set_conn [simp]: "set_conn (set_conn t i v) i w = set_conn t i w"
  by (simp add: set_conn_def)

lemma set_conn_same: "ct_connections t i = v \<Longrightarrow> set_conn t i v = t"
  by (auto simp: set_conn_def fun_upd_idem)

lemma table_inv_set_conn:
  assumes "table_inv t" and "\<And>c. v = Some c \<Longrightarrow> conn_ok (ct_cfg t) i c"
  shows "table_inv (set_conn t i v)"
  using assms by (cases v) (auto simp: table_inv_def)

text \<open>A fresh connection accepts the request that names it.\<close>

definition accepted_conn :: "table_config \<Rightarrow> vsock_header \<Rightarrow> connection" where
  "accepted_conn cfg h =
     (Connection_new (incoming_id h) (tc_default_buf_alloc cfg))\<lparr>cn_state := Established,
       cn_peer_buf_alloc := vh_buf_alloc h, cn_peer_fwd_cnt := vh_fwd_cnt h\<rparr>"

lemma accepted_conn_ok: "conn_ok cfg (incoming_id h) (accepted_conn cfg h)"
  by (simp add: accepted_conn_def conn_ok_def Connection_new_def)

lemma handle_request_eq:
  assumes "vh_op h = Request"
  shows "handle_request t (incoming_id h) h =
    (if vh_dst_port h \<notin> ct_listening t \<or> ct_connections t (incoming_id h) \<noteq> None
     then (t, SendReply (rst_for t (incoming_id h) h))
     else (set_conn t (incoming_id h) (Some (accepted_conn (ct_cfg t) h)),
           SendReply (reply_header (set_conn t (incoming_id h) (Some (accepted_conn (ct_cfg t) h)))
             (incoming_id h) Response)))"
proof -
  have "recv_header ((Connection_new (incoming_id h) (tc_default_buf_alloc (ct_cfg t)))\<lparr>cn_state := Listen\<rparr>) h =
      (accepted_conn (ct_cfg t) h, Inr ())"
    using assms by (simp add: recv_header_def accepted_conn_def Connection_new_def Let_def)
  then show ?thesis
    by (simp add: handle_request_def Connection_listen_def Connection_new_def Let_def)
qed

lemma conn_ok_recv:
  assumes "conn_ok cfg (incoming_id h) c"
  shows "cn_state (fst (recv_header c h)) =
      (if vh_op h = Rst then Closed else if vh_op h = Shutdown then CloseWait else cn_state c)"
    and "snd (recv_header c h) =
      (if vh_op h \<in> {Rst, CreditUpdate, CreditRequest} \<or>
          cn_state c = Established \<and> vh_op h \<in> {Rw, Shutdown}
       then Ok () else Err (InvalidOp (vh_op h) (cn_state c)))"
    and "vh_op h \<noteq> Rst \<Longrightarrow> conn_ok cfg (incoming_id h) (fst (recv_header c h))"
proof -
  from assms have m: "incoming_id h = cn_id c" and st: "cn_state c = Established \<or> cn_state c = CloseWait"
    by (auto simp: conn_ok_def)
  from st show state: "cn_state (fst (recv_header c h)) =
      (if vh_op h = Rst then Closed else if vh_op h = Shutdown then CloseWait else cn_state c)"
    by (cases "vh_op h") (auto simp: recv_header_outcome [OF m])
  from st show "snd (recv_header c h) =
      (if vh_op h \<in> {Rst, CreditUpdate, CreditRequest} \<or>
          cn_state c = Established \<and> vh_op h \<in> {Rw, Shutdown}
       then Ok () else Err (InvalidOp (vh_op h) (cn_state c)))"
    by (cases "vh_op h") (auto simp: recv_header_outcome [OF m])
  assume "vh_op h \<noteq> Rst"
  with assms state show "conn_ok cfg (incoming_id h) (fst (recv_header c h))"
    by (simp add: conn_ok_def)
qed

lemma dispatch_cases:
  "dispatch t h = (t, snd (dispatch t h)) \<or>
   (\<exists>v. fst (dispatch t h) = set_conn t (incoming_id h) v)"
  by (cases "vh_op h")
    (auto simp: dispatch_def table_handlers Let_def split_beta set_conn_def split: option.splits)

lemma dispatch_env:
  "ct_cfg (fst (dispatch t h)) = ct_cfg t" "ct_listening (fst (dispatch t h)) = ct_listening t"
  using dispatch_cases [of t h] by (metis fst_conv set_conn_simps)+

lemma dispatch_frame: "incoming_id h \<noteq> i \<Longrightarrow> ct_connections (fst (dispatch t h)) i = ct_connections t i"
  using dispatch_cases [of t h] by (metis fst_conv fun_upd_other set_conn_simps(3))

lemma dispatch_inv:
  assumes "table_inv t"
  shows "table_inv (fst (dispatch t h))"
proof (cases "ct_connections t (incoming_id h)")
  case None
  then show ?thesis
    using assms accepted_conn_ok [of "ct_cfg t" h]
    by (cases "vh_op h")
      (auto simp: dispatch_def handle_request_eq handle_data_def handle_rst_def handle_shutdown_def
        handle_response_def handle_credit_def intro!: table_inv_set_conn)
next
  case (Some c)
  then have ok: "conn_ok (ct_cfg t) (incoming_id h) c" by (rule table_inv_conn [OF assms])
  show ?thesis
    using assms Some conn_ok_recv(3) [OF ok]
    by (cases "vh_op h")
      (auto simp: dispatch_def table_handlers Let_def split_beta intro!: table_inv_set_conn)
qed

lemma prepare_data_eq:
  "prepare_data t i len =
     (case ct_connections t i of None \<Rightarrow> (t, None) | Some c \<Rightarrow>
        if cn_state c \<noteq> Established then (t, None)
        else (set_conn t i (Some (c\<lparr>cn_tx_cnt := cn_tx_cnt c + len\<rparr>)),
          Some \<lparr>vh_src_cid = ep_cid (ci_local i), vh_dst_cid = ep_cid (ci_remote i),
               vh_src_port = ep_port (ci_local i), vh_dst_port = ep_port (ci_remote i), vh_len = len,
               vh_vtype = Stream, vh_op = Rw, vh_flags = 0, vh_buf_alloc = cn_local_buf_alloc c,
               vh_fwd_cnt = cn_fwd_cnt c\<rparr>))"
  by (cases "ct_connections t i")
    (auto simp: prepare_data_def record_send_def set_conn_same Let_def)

lemma prepare_data_inv: "table_inv t \<Longrightarrow> table_inv (fst (prepare_data t i len))"
  using table_inv_conn [of t i]
  by (auto simp: prepare_data_eq conn_ok_def intro!: table_inv_set_conn split: option.splits)

lemma drop_connection_inv: "table_inv t \<Longrightarrow> table_inv (fst (drop_connection t i))"
  using table_inv_set_conn [of t None i] by (simp add: drop_connection_def set_conn_def)

text \<open>The tables the public operations can produce.\<close>

inductive table_reachable :: "table_config \<Rightarrow> connection_table \<Rightarrow> bool" for cfg where
  new: "table_reachable cfg (ConnectionTable_new cfg)"
| listen: "table_reachable cfg t \<Longrightarrow> table_reachable cfg (fst (ConnectionTable_listen t p))"
| unlisten: "table_reachable cfg t \<Longrightarrow> table_reachable cfg (fst (ConnectionTable_unlisten t p))"
| drop: "table_reachable cfg t \<Longrightarrow> table_reachable cfg (fst (drop_connection t i))"
| dispatch: "table_reachable cfg t \<Longrightarrow> table_reachable cfg (fst (dispatch t h))"
| prepare: "table_reachable cfg t \<Longrightarrow> table_reachable cfg (fst (prepare_data t i len))"

lemma table_reachable_inv: "table_reachable cfg t \<Longrightarrow> table_inv t \<and> ct_cfg t = cfg"
proof (induction rule: table_reachable.induct)
  case (prepare t i len)
  then show ?case
    by (auto simp: prepare_data_inv) (auto simp: prepare_data_eq split: option.splits)
qed (auto simp: drop_connection_inv dispatch_inv dispatch_env,
     auto simp: table_inv_def ConnectionTable_new_def ConnectionTable_listen_def
      ConnectionTable_unlisten_def drop_connection_def)

subsection \<open>Specification\<close>

text \<open>
  A stream is open or half-closed by the peer. What a packet does to it depends on its operation
  and on whether somebody listens on its destination port.
\<close>

datatype stream = Open | HalfClosed

datatype verdict = Accept | Reject | Deliver | Quiet

fun spec_step :: "bool \<Rightarrow> stream option \<Rightarrow> vsock_op \<Rightarrow> stream option \<times> verdict" where
  "spec_step l s Rst = (None, Quiet)"
| "spec_step l s Invalid = (s, Reject)"
| "spec_step l None Request = (if l then (Some Open, Accept) else (None, Reject))"
| "spec_step l (Some s) Request = (Some s, Reject)"
| "spec_step l None _ = (None, Reject)"
| "spec_step l (Some Open) Rw = (Some Open, Deliver)"
| "spec_step l (Some HalfClosed) Rw = (Some HalfClosed, Reject)"
| "spec_step l (Some Open) Shutdown = (Some HalfClosed, Quiet)"
| "spec_step l (Some HalfClosed) Shutdown = (None, Reject)"
| "spec_step l (Some s) Response = (None, Reject)"
| "spec_step l (Some s) CreditUpdate = (Some s, Quiet)"
| "spec_step l (Some s) CreditRequest = (Some s, Quiet)"

definition stream_of :: "connection \<Rightarrow> stream" where
  "stream_of c = (if cn_state c = Established then Open else HalfClosed)"

definition streams :: "connection_table \<Rightarrow> connection_id \<Rightarrow> stream option" where
  "streams t i = map_option stream_of (ct_connections t i)"

text \<open>The packet that goes back to the sender of \<open>h\<close>.\<close>

definition answer :: "vsock_header \<Rightarrow> vsock_op \<Rightarrow> u32 \<Rightarrow> u32 \<Rightarrow> vsock_header" where
  "answer h op flags buf_alloc =
     \<lparr>vh_src_cid = vh_dst_cid h, vh_dst_cid = vh_src_cid h, vh_src_port = vh_dst_port h,
      vh_dst_port = vh_src_port h, vh_len = 0, vh_vtype = Stream, vh_op = op, vh_flags = flags,
      vh_buf_alloc = buf_alloc, vh_fwd_cnt = 0\<rparr>"

fun spec_reply :: "table_config \<Rightarrow> vsock_header \<Rightarrow> verdict \<Rightarrow> reply" where
  "spec_reply cfg h Accept = SendReply (answer h Response 0 (tc_default_buf_alloc cfg))"
| "spec_reply cfg h Reject = SendReply (answer h Rst (vh_flags h) 0)"
| "spec_reply cfg h Deliver =
     (if vh_len h = 0 then NoReply else DeliverPayload (incoming_id h) (vh_len h))"
| "spec_reply cfg h Quiet = NoReply"

lemma rst_answer:
  "rst_for t (incoming_id h) h = answer h Rst (vh_flags h) 0"
  "rst_static cid (incoming_id h) (vh_flags h) = answer h Rst (vh_flags h) 0"
  by (simp_all add: rst_for_def rst_static_def answer_def incoming_id_def Endpoint_new_def)

lemma reply_answer:
  "ct_connections t (incoming_id h) = Some c \<Longrightarrow> conn_ok cfg (incoming_id h) c \<Longrightarrow>
    reply_header t (incoming_id h) op = answer h op 0 (tc_default_buf_alloc cfg)"
  by (simp add: reply_header_def answer_def incoming_id_def Endpoint_new_def conn_ok_def)

lemma stream_of_accepted [simp]: "stream_of (accepted_conn cfg h) = Open"
  by (simp add: stream_of_def accepted_conn_def)

lemma dispatch_spec:
  assumes "table_inv t"
  shows "(streams (fst (dispatch t h)) (incoming_id h), snd (dispatch t h)) =
    map_prod id (spec_reply (ct_cfg t) h)
      (spec_step (vh_dst_port h \<in> ct_listening t) (streams t (incoming_id h)) (vh_op h))"
proof (cases "ct_connections t (incoming_id h)")
  case None
  then show ?thesis
    by (cases "vh_op h")
      (simp_all add: dispatch_def handle_request_eq handle_data_def handle_rst_def handle_shutdown_def
        handle_response_def handle_credit_def streams_def rst_answer
        reply_answer [OF _ accepted_conn_ok])
next
  case (Some c)
  then have ok: "conn_ok (ct_cfg t) (incoming_id h) c" by (rule table_inv_conn [OF assms])
  then have st: "cn_state c = Established \<or> cn_state c = CloseWait" by (auto simp: conn_ok_def)
  with Some conn_ok_recv(1,2) [OF ok] show ?thesis
    by (cases "vh_op h")
      (auto simp: dispatch_def handle_request_eq handle_data_def handle_rst_def handle_shutdown_def
        handle_response_def handle_credit_def streams_def stream_of_def rst_answer Let_def split_beta)
qed

interpretation vsock_table: keyed_dispatch dispatch incoming_id ct_connections
  "\<lambda>t. (ct_cfg t, ct_listening t)"
proof (unfold_locales, goal_cases)
  case (1 h k t)
  then show ?case by (rule dispatch_frame)
next
  case (2 t h)
  then show ?case by (simp add: dispatch_env)
next
  case (3 t u h)
  then show ?case
    by (cases "vh_op h")
      (auto simp: dispatch_def table_handlers rst_for_def reply_header_def Let_def split_beta
        split: option.splits)
qed

subsection \<open>Properties\<close>

text \<open>
  C23: In every table the public operations can produce, each connection is filed under its own
  id, is \<open>Established\<close> or \<open>CloseWait\<close> (closed connections are evicted, half-built ones never
  stored), advertises the configured buffer, and there are finitely many of them. The last part
  also shows that the table never advances \<^verbatim>\<open>fwd_cnt\<close>: no credit is ever returned to the peer.
\<close>

theorem table_invariant:
  assumes "table_reachable cfg t"
  shows "finite (dom (ct_connections t)) \<and> ct_cfg t = cfg \<and>
    (\<forall>i c. ct_connections t i = Some c \<longrightarrow> cn_id c = i \<and> cn_state c \<in> {Established, CloseWait} \<and>
       cn_local_buf_alloc c = tc_default_buf_alloc cfg \<and> cn_fwd_cnt c = 0)"
  using table_reachable_inv [OF assms] by (simp add: table_inv_def conn_ok_def)

text \<open>The table after one accepted connection, for the concrete instances below.\<close>

definition sample_request :: vsock_header where
  "sample_request = \<lparr>vh_src_cid = 3, vh_dst_cid = 2, vh_src_port = 1024, vh_dst_port = 5000, vh_len = 0,
            vh_vtype = Stream, vh_op = Request, vh_flags = 0, vh_buf_alloc = 65536, vh_fwd_cnt = 0\<rparr>"

definition sample_table :: connection_table where
  "sample_table = fst (dispatch (fst (ConnectionTable_listen (ConnectionTable_new TableConfig_default) 5000))
     sample_request)"

lemma sample_reachable: "table_reachable TableConfig_default sample_table"
  unfolding sample_table_def by (intro table_reachable.intros)

lemma sample_connection:
  "ct_connections sample_table (incoming_id sample_request) =
     Some (accepted_conn TableConfig_default sample_request)"
  "ct_listening sample_table = {5000}"
proof -
  have op: "vh_op sample_request = Request" and port: "vh_dst_port sample_request = 5000"
    by (simp_all add: sample_request_def)
  show "ct_connections sample_table (incoming_id sample_request) =
     Some (accepted_conn TableConfig_default sample_request)"
    by (simp add: sample_table_def dispatch_def op port handle_request_eq ConnectionTable_listen_def
        ConnectionTable_new_def)
  show "ct_listening sample_table = {5000}"
    by (simp add: sample_table_def dispatch_env ConnectionTable_listen_def ConnectionTable_new_def)
qed

theorem table_invariant_witness:
  "\<exists>c. ct_connections sample_table (incoming_id sample_request) = Some c \<and>
     cn_state c \<in> {Established, CloseWait} \<and> cn_fwd_cnt c = 0"
  using table_invariant [OF sample_reachable] sample_connection by blast



text \<open>
  C25: Connections are isolated from each other. In any sequence of packets, from any table, the
  final state of one connection and every reply to its packets are the same as if the packets
  of all other connections had never been sent.
\<close>

theorem connections_isolated:
  "ct_connections (fst (disp_run dispatch t hs)) i =
     ct_connections (fst (disp_run dispatch t (filter (\<lambda>h. incoming_id h = i) hs))) i \<and>
   filter (\<lambda>(h, r). incoming_id h = i) (snd (disp_run dispatch t hs)) =
     snd (disp_run dispatch t (filter (\<lambda>h. incoming_id h = i) hs))"
  using vsock_table.run_isolated [of t t i hs] by simp

text \<open>
  Outbound data. On a reachable table \<^verbatim>\<open>prepare_data\<close> yields a header exactly for the open
  streams; the header runs from the local to the remote endpoint, carries the length, the
  configured buffer and the count 0 of consumed bytes; the stream's sent count grows by the
  length modulo 2^32 (whatever the peer's credit), and nothing else in the table changes.
\<close>

theorem prepare_data_exact:
  assumes "table_reachable cfg t"
  shows "case prepare_data t i len of
      (t', None) \<Rightarrow> t' = t \<and> streams t i \<noteq> Some Open
    | (t', Some h) \<Rightarrow> streams t i = Some Open \<and>
        incoming_id (h\<lparr>vh_src_cid := vh_dst_cid h, vh_src_port := vh_dst_port h,
          vh_dst_cid := vh_src_cid h, vh_dst_port := vh_src_port h\<rparr>) = i \<and>
        vh_op h = Rw \<and> vh_len h = len \<and> vh_buf_alloc h = tc_default_buf_alloc cfg \<and> vh_fwd_cnt h = 0 \<and>
        t' = t\<lparr>ct_connections := (ct_connections t)(i :=
          map_option (\<lambda>c. c\<lparr>cn_tx_cnt := cn_tx_cnt c + len\<rparr>) (ct_connections t i))\<rparr>"
proof -
  have inv: "table_inv t" and cfg: "ct_cfg t = cfg"
    using table_reachable_inv [OF assms] by simp_all
  show ?thesis
  proof (cases "ct_connections t i")
    case None
    then show ?thesis by (simp add: prepare_data_eq streams_def)
  next
    case (Some c)
    then have "conn_ok cfg i c" using table_inv_conn [OF inv] cfg by simp
    with Some show ?thesis
      by (simp add: prepare_data_eq streams_def stream_of_def set_conn_def incoming_id_def
          Endpoint_new_def conn_ok_def)
  qed
qed

theorem prepare_data_exact_witness:
  "\<exists>t' h. prepare_data sample_table (incoming_id sample_request) 100000 = (t', Some h) \<and>
     vh_op h = Rw \<and> vh_len h = 100000"
proof -
  let ?p = "prepare_data sample_table (incoming_id sample_request) 100000"
  have "streams sample_table (incoming_id sample_request) = Some Open"
    by (simp add: streams_def sample_connection)
  then show ?thesis
    using prepare_data_exact [OF sample_reachable, of "incoming_id sample_request" 100000]
    by (cases ?p; cases "snd ?p") auto
qed

end
