(* ===== verification/Virtq_Desc.thy ===== *)
theory Virtq_Desc
  imports Nano_Prelude
begin

text \<open>
  Descriptors of the split and packed virtqueue (\<^verbatim>\<open>crates/virtio-queue/src/lib.rs\<close>):
  the error type of the crate, the 16-byte descriptor and packed descriptor with their
  parsers and serializers, whole-table parsing, and the cycle-safe chain walker
  \<^verbatim>\<open>DescriptorChain\<close> with its iterator state kept explicit. The walker is proved to
  yield exactly the terminating chains of the table, and to stop on every table.
\<close>

subsection \<open>Constants and errors\<close>

definition DESC_SIZE :: nat where "DESC_SIZE = 16"
definition PACKED_DESC_SIZE :: nat where "PACKED_DESC_SIZE = 16"

definition DESC_F_NEXT :: u16 where "DESC_F_NEXT = push_bit 0 1"
definition DESC_F_WRITE :: u16 where "DESC_F_WRITE = push_bit 1 1"
definition DESC_F_INDIRECT :: u16 where "DESC_F_INDIRECT = push_bit 2 1"

definition PACKED_DESC_F_NEXT :: u16 where "PACKED_DESC_F_NEXT = push_bit 0 1"
definition PACKED_DESC_F_WRITE :: u16 where "PACKED_DESC_F_WRITE = push_bit 1 1"
definition PACKED_DESC_F_INDIRECT :: u16 where "PACKED_DESC_F_INDIRECT = push_bit 2 1"
definition PACKED_DESC_F_AVAIL :: u16 where "PACKED_DESC_F_AVAIL = push_bit 7 1"
definition PACKED_DESC_F_USED :: u16 where "PACKED_DESC_F_USED = push_bit 15 1"

definition MAX_QUEUE_SIZE :: u16 where "MAX_QUEUE_SIZE = 32768"

lemmas desc_constants =
  DESC_SIZE_def PACKED_DESC_SIZE_def DESC_F_NEXT_def DESC_F_WRITE_def DESC_F_INDIRECT_def
  PACKED_DESC_F_NEXT_def PACKED_DESC_F_WRITE_def PACKED_DESC_F_INDIRECT_def
  PACKED_DESC_F_AVAIL_def PACKED_DESC_F_USED_def MAX_QUEUE_SIZE_def

datatype queue_error =
    ShortDescriptor nat nat
  | ShortBuffer nat nat
  | BadIndex u16 nat
  | ChainTooLong nat
  | ShortRing nat nat u16
  | ShortTable nat nat u16
  | BadQueueSize u16 u16
  | ShortPackedRing nat nat u16
  | AddressOverflow u64 u32
  | GuestMemoryOutOfBounds u64 u32 u64 u64
  | DescriptorNotWritable u64
  | DescriptorTooLarge u32 nat

subsection \<open>Split-ring descriptors\<close>

record descriptor =
  desc_addr :: u64
  desc_len :: u32
  desc_flags :: u16
  desc_next :: u16

definition Descriptor_from_bytes :: "bytes \<Rightarrow> (queue_error, descriptor) result" where
  "Descriptor_from_bytes buf =
     (if length buf < DESC_SIZE then Err (ShortDescriptor (length buf) DESC_SIZE)
      else Ok \<lparr>desc_addr = from_le (slice_at 0 8 buf),
               desc_len = from_le (slice_at 8 4 buf),
               desc_flags = from_le (slice_at 12 2 buf),
               desc_next = from_le (slice_at 14 2 buf)\<rparr>)"

definition Descriptor_write_to :: "descriptor \<Rightarrow> bytes \<Rightarrow> (queue_error, nat \<times> bytes) result" where
  "Descriptor_write_to d buf =
     (if length buf < DESC_SIZE then Err (ShortBuffer (length buf) DESC_SIZE)
      else let buf = copy_into 0 (to_le 8 (desc_addr d)) buf;
               buf = copy_into 8 (to_le 4 (desc_len d)) buf;
               buf = copy_into 12 (to_le 2 (desc_flags d)) buf;
               buf = copy_into 14 (to_le 2 (desc_next d)) buf
           in Ok (DESC_SIZE, buf))"

definition Descriptor_to_bytes :: "descriptor \<Rightarrow> bytes" where
  "Descriptor_to_bytes d =
     to_le 8 (desc_addr d) @ to_le 4 (desc_len d) @ to_le 2 (desc_flags d) @ to_le 2 (desc_next d)"

definition has_next :: "descriptor \<Rightarrow> bool" where
  "has_next d \<longleftrightarrow> desc_flags d AND DESC_F_NEXT \<noteq> 0"

definition is_writable :: "descriptor \<Rightarrow> bool" where
  "is_writable d \<longleftrightarrow> desc_flags d AND DESC_F_WRITE \<noteq> 0"

definition is_indirect :: "descriptor \<Rightarrow> bool" where
  "is_indirect d \<longleftrightarrow> desc_flags d AND DESC_F_INDIRECT \<noteq> 0"

definition end_addr :: "descriptor \<Rightarrow> (queue_error, u64) result" where
  "end_addr d = ok_or (AddressOverflow (desc_addr d) (desc_len d))
     (checked_add (desc_addr d) (ucast (desc_len d)))"

subsection \<open>Packed-ring descriptors\<close>

record packed_desc =
  pd_addr :: u64
  pd_len :: u32
  pd_id :: u16
  pd_flags :: u16

definition PackedDesc_from_bytes :: "bytes \<Rightarrow> (queue_error, packed_desc) result" where
  "PackedDesc_from_bytes buf =
     (if length buf < PACKED_DESC_SIZE then Err (ShortDescriptor (length buf) PACKED_DESC_SIZE)
      else Ok \<lparr>pd_addr = from_le (slice_at 0 8 buf),
               pd_len = from_le (slice_at 8 4 buf),
               pd_id = from_le (slice_at 12 2 buf),
               pd_flags = from_le (slice_at 14 2 buf)\<rparr>)"

definition PackedDesc_write_to :: "packed_desc \<Rightarrow> bytes \<Rightarrow> (queue_error, nat \<times> bytes) result" where
  "PackedDesc_write_to d buf =
     (if length buf < PACKED_DESC_SIZE then Err (ShortBuffer (length buf) PACKED_DESC_SIZE)
      else let buf = copy_into 0 (to_le 8 (pd_addr d)) buf;
               buf = copy_into 8 (to_le 4 (pd_len d)) buf;
               buf = copy_into 12 (to_le 2 (pd_id d)) buf;
               buf = copy_into 14 (to_le 2 (pd_flags d)) buf
           in Ok (PACKED_DESC_SIZE, buf))"

definition PackedDesc_to_bytes :: "packed_desc \<Rightarrow> bytes" where
  "PackedDesc_to_bytes d =
     to_le 8 (pd_addr d) @ to_le 4 (pd_len d) @ to_le 2 (pd_id d) @ to_le 2 (pd_flags d)"

definition PackedDesc_has_next :: "packed_desc \<Rightarrow> bool" where
  "PackedDesc_has_next d \<longleftrightarrow> pd_flags d AND PACKED_DESC_F_NEXT \<noteq> 0"

definition PackedDesc_is_writable :: "packed_desc \<Rightarrow> bool" where
  "PackedDesc_is_writable d \<longleftrightarrow> pd_flags d AND PACKED_DESC_F_WRITE \<noteq> 0"

definition PackedDesc_is_indirect :: "packed_desc \<Rightarrow> bool" where
  "PackedDesc_is_indirect d \<longleftrightarrow> pd_flags d AND PACKED_DESC_F_INDIRECT \<noteq> 0"

definition is_avail :: "packed_desc \<Rightarrow> bool" where
  "is_avail d \<longleftrightarrow> pd_flags d AND PACKED_DESC_F_AVAIL \<noteq> 0"

definition is_used :: "packed_desc \<Rightarrow> bool" where
  "is_used d \<longleftrightarrow> pd_flags d AND PACKED_DESC_F_USED \<noteq> 0"

subsection \<open>Tables\<close>

definition avail_ring_size :: "u16 \<Rightarrow> nat" where
  "avail_ring_size qsize = 6 + 2 * unat qsize"

definition used_ring_size :: "u16 \<Rightarrow> nat" where
  "used_ring_size qsize = 6 + 8 * unat qsize"

definition desc_table_size :: "u16 \<Rightarrow> nat" where
  "desc_table_size qsize = unat qsize * DESC_SIZE"

definition packed_ring_size :: "u16 \<Rightarrow> nat" where
  "packed_ring_size qsize = unat qsize * PACKED_DESC_SIZE"

definition validate_qsize :: "u16 \<Rightarrow> (queue_error, unit) result" where
  "validate_qsize qsize =
     (if qsize = 0 \<or> qsize > MAX_QUEUE_SIZE \<or> \<not> is_power_of_two qsize
      then Err (BadQueueSize qsize MAX_QUEUE_SIZE) else Ok ())"

definition parse_descriptor_table :: "bytes \<Rightarrow> u16 \<Rightarrow> (queue_error, descriptor list) result" where
  "parse_descriptor_table buf qsize =
     and_then (validate_qsize qsize) (\<lambda>_.
       let need = desc_table_size qsize in
       if length buf < need then Err (ShortTable (length buf) need qsize)
       else try_map (\<lambda>i. Descriptor_from_bytes (slice_at (i * DESC_SIZE) DESC_SIZE buf))
              [0..<unat qsize])"

definition parse_packed_ring :: "bytes \<Rightarrow> u16 \<Rightarrow> (queue_error, packed_desc list) result" where
  "parse_packed_ring buf qsize =
     and_then (validate_qsize qsize) (\<lambda>_.
       let need = packed_ring_size qsize in
       if length buf < need then Err (ShortPackedRing (length buf) need qsize)
       else try_map (\<lambda>i. PackedDesc_from_bytes (slice_at (i * PACKED_DESC_SIZE) PACKED_DESC_SIZE buf))
              [0..<unat qsize])"

lemma validate_qsize_Ok_iff:
  "validate_qsize q = Inr u \<longleftrightarrow> q \<noteq> 0 \<and> q \<le> MAX_QUEUE_SIZE \<and> is_power_of_two q"
  by (auto simp: validate_qsize_def)

lemma validate_qsize_pos: "validate_qsize q = Inr u \<Longrightarrow> 0 < unat q"
  by (simp add: validate_qsize_Ok_iff unat_gt_0)

subsection \<open>The codecs meet their contract\<close>

interpretation desc_codec: total_codec Descriptor_to_bytes Descriptor_from_bytes DESC_SIZE
  "\<lambda>n. ShortDescriptor n DESC_SIZE" "\<lambda>_. True"
proof (unfold_locales, goal_cases)
  case (1 x)
  show ?case by (simp add: Descriptor_to_bytes_def DESC_SIZE_def)
next
  case (2 x rest)
  show ?case
    by (simp add: Descriptor_to_bytes_def Descriptor_from_bytes_def DESC_SIZE_def slice_at_def)
next
  case (3 b)
  then show ?case by (simp add: Descriptor_from_bytes_def)
next
  case (5 b x)
  then have len: "16 \<le> length b"
    by (simp add: Descriptor_from_bytes_def DESC_SIZE_def split: if_splits)
  with 5 have "Descriptor_to_bytes x =
      slice_at 0 8 b @ slice_at 8 4 b @ slice_at 12 2 b @ slice_at 14 2 b"
    by (auto simp: Descriptor_from_bytes_def DESC_SIZE_def Descriptor_to_bytes_def
        le_roundtrip_bytes split: if_splits)
  then show ?case
    using slice_append_adj [of 0 8 b 4] slice_append_adj [of 0 12 b 2] slice_append_adj [of 0 14 b 2]
    by (simp add: DESC_SIZE_def slice_zero_take flip: append_assoc)
next
  case (6 b)
  then show ?case by (simp add: Descriptor_from_bytes_def)
qed simp

interpretation packed_codec: total_codec PackedDesc_to_bytes PackedDesc_from_bytes PACKED_DESC_SIZE
  "\<lambda>n. ShortDescriptor n PACKED_DESC_SIZE" "\<lambda>_. True"
proof (unfold_locales, goal_cases)
  case (1 x)
  show ?case by (simp add: PackedDesc_to_bytes_def PACKED_DESC_SIZE_def)
next
  case (2 x rest)
  show ?case
    by (simp add: PackedDesc_to_bytes_def PackedDesc_from_bytes_def PACKED_DESC_SIZE_def slice_at_def)
next
  case (3 b)
  then show ?case by (simp add: PackedDesc_from_bytes_def)
next
  case (5 b x)
  then have len: "16 \<le> length b"
    by (simp add: PackedDesc_from_bytes_def PACKED_DESC_SIZE_def split: if_splits)
  with 5 have "PackedDesc_to_bytes x =
      slice_at 0 8 b @ slice_at 8 4 b @ slice_at 12 2 b @ slice_at 14 2 b"
    by (auto simp: PackedDesc_from_bytes_def PACKED_DESC_SIZE_def PackedDesc_to_bytes_def
        le_roundtrip_bytes split: if_splits)
  then show ?case
    using slice_append_adj [of 0 8 b 4] slice_append_adj [of 0 12 b 2] slice_append_adj [of 0 14 b 2]
    by (simp add: PACKED_DESC_SIZE_def slice_zero_take flip: append_assoc)
next
  case (6 b)
  then show ?case by (simp add: PackedDesc_from_bytes_def)
qed simp

lemma Descriptor_write_to_eq:
  assumes "DESC_SIZE \<le> length buf"
  shows "Descriptor_write_to d buf = Inr (DESC_SIZE, Descriptor_to_bytes d @ drop DESC_SIZE buf)"
  using assms by (simp add: Descriptor_write_to_def Descriptor_to_bytes_def DESC_SIZE_def
      copy_into_def Let_def)

lemma PackedDesc_write_to_eq:
  assumes "PACKED_DESC_SIZE \<le> length buf"
  shows "PackedDesc_write_to d buf = Inr (PACKED_DESC_SIZE, PackedDesc_to_bytes d @ drop PACKED_DESC_SIZE buf)"
  using assms by (simp add: PackedDesc_write_to_def PackedDesc_to_bytes_def PACKED_DESC_SIZE_def
      copy_into_def Let_def)

lemma parse_descriptor_table_iff:
  "parse_descriptor_table buf q = Inr ds \<longleftrightarrow>
    validate_qsize q = Inr () \<and> desc_table_size q \<le> length buf \<and> length ds = unat q \<and>
    concat (map Descriptor_to_bytes ds) = take (desc_table_size q) buf"
  using desc_codec.dec_table_iff [of "unat q" buf ds]
  by (auto simp: parse_descriptor_table_def and_then_eqs desc_table_size_def Let_def not_less
      list_all_iff)

lemma parse_packed_ring_iff:
  "parse_packed_ring buf q = Inr ds \<longleftrightarrow>
    validate_qsize q = Inr () \<and> packed_ring_size q \<le> length buf \<and> length ds = unat q \<and>
    concat (map PackedDesc_to_bytes ds) = take (packed_ring_size q) buf"
  using packed_codec.dec_table_iff [of "unat q" buf ds]
  by (auto simp: parse_packed_ring_def and_then_eqs packed_ring_size_def Let_def not_less
      list_all_iff)

subsection \<open>The chain walker\<close>

record chain =
  ch_table :: "descriptor list"
  ch_next :: "u16 option"
  ch_visited :: nat
  ch_failed :: bool

definition DescriptorChain_new :: "descriptor list \<Rightarrow> u16 \<Rightarrow> chain" where
  "DescriptorChain_new table head =
     \<lparr>ch_table = table, ch_next = Some head, ch_visited = 0, ch_failed = False\<rparr>"

definition DescriptorChain_next :: "chain \<Rightarrow> (queue_error, descriptor) result option \<times> chain" where
  "DescriptorChain_next c =
     (if ch_failed c then (None, c)
      else case ch_next c of
        None \<Rightarrow> (None, c)
      | Some idx \<Rightarrow>
          let n = length (ch_table c) in
          if n \<le> unat idx then (Some (Err (BadIndex idx n)), c\<lparr>ch_failed := True\<rparr>)
          else
            let desc = ch_table c ! unat idx;
                c = c\<lparr>ch_visited := ch_visited c + 1\<rparr>
            in if ch_visited c > n then (Some (Err (ChainTooLong n)), c\<lparr>ch_failed := True\<rparr>)
               else (Some (Ok desc),
                     c\<lparr>ch_next := (if has_next desc then Some (desc_next desc) else None)\<rparr>))"

text \<open>What a \<^verbatim>\<open>for\<close> loop over the iterator sees: the items up to the first \<^verbatim>\<open>None\<close>.\<close>

function chain_items :: "chain \<Rightarrow> (queue_error, descriptor) result list" where
  "chain_items c =
     (case DescriptorChain_next c of
        (None, _) \<Rightarrow> []
      | (Some r, c') \<Rightarrow> r # chain_items c')"
  by pat_completeness auto
termination
  by (relation "measure (\<lambda>c. if ch_failed c then 0 else Suc (length (ch_table c) + 1 - ch_visited c))")
    (auto simp: DescriptorChain_next_def Let_def split: if_splits option.splits)

declare chain_items.simps [simp del]

definition walk :: "descriptor list \<Rightarrow> u16 \<Rightarrow> (queue_error, descriptor) result list" where
  "walk table head = chain_items (DescriptorChain_new table head)"

text \<open>
  The specification: \<open>chain_path t h ds\<close> holds when the \<open>next\<close> links from index \<open>h\<close> stay
  inside the table, end at a descriptor without \<^verbatim>\<open>DESC_F_NEXT\<close>, and pass through
  \<open>ds\<close>.
\<close>

inductive chain_path :: "descriptor list \<Rightarrow> u16 \<Rightarrow> descriptor list \<Rightarrow> bool" for t where
  path_last: "unat h < length t \<Longrightarrow> \<not> has_next (t ! unat h) \<Longrightarrow> chain_path t h [t ! unat h]"
| path_link: "unat h < length t \<Longrightarrow> has_next (t ! unat h) \<Longrightarrow>
    chain_path t (desc_next (t ! unat h)) ds \<Longrightarrow> chain_path t h (t ! unat h # ds)"

inductive_cases chain_path_NilE: "chain_path t h []"
inductive_simps chain_path_Cons: "chain_path t h (d # ds)"

lemma chain_path_not_Nil [simp]: "\<not> chain_path t h []"
  by (auto elim: chain_path_NilE)

lemma chain_path_head: "chain_path t h ds \<Longrightarrow> unat h < length t"
  by (auto elim: chain_path.cases)

lemma chain_path_unique: "chain_path t h ds \<Longrightarrow> chain_path t h es \<Longrightarrow> ds = es"
proof (induction arbitrary: es rule: chain_path.induct)
  case (path_last h)
  from path_last.prems path_last.hyps show ?case by (auto elim: chain_path.cases)
next
  case (path_link h ds)
  from path_link.prems path_link.hyps(2) obtain es' where
    "es = t ! unat h # es'" and "chain_path t (desc_next (t ! unat h)) es'"
    by (auto elim: chain_path.cases)
  with path_link.IH show ?case by simp
qed

text \<open>
  The indices a path visits are distinct: a repeated index would continue with the same
  descriptors both times, and so never end. A path is therefore at most as long as the table.
\<close>

fun path_indices :: "descriptor list \<Rightarrow> u16 \<Rightarrow> descriptor list \<Rightarrow> u16 list" where
  "path_indices t h [] = []"
| "path_indices t h (d # ds) = h # path_indices t (desc_next d) ds"

lemma length_path_indices [simp]: "length (path_indices t h ds) = length ds"
  by (induction ds arbitrary: h) simp_all

lemma path_indices_suffix:
  "chain_path t h ds \<Longrightarrow> i \<in> set (path_indices t h ds) \<Longrightarrow>
    \<exists>es. chain_path t i es \<and> length es \<le> length ds"
proof (induction rule: chain_path.induct)
  case (path_last h)
  then show ?case by (auto intro!: exI [of _ "[t ! unat h]"] chain_path.path_last)
next
  case (path_link h ds)
  show ?case
  proof (cases "i = h")
    case True
    with path_link.hyps show ?thesis
      by (intro exI [of _ "t ! unat h # ds"]) (simp add: chain_path.path_link)
  next
    case False
    with path_link show ?thesis by fastforce
  qed
qed

lemma distinct_path_indices: "chain_path t h ds \<Longrightarrow> distinct (path_indices t h ds)"
proof (induction rule: chain_path.induct)
  case (path_last h)
  show ?case by simp
next
  case (path_link h ds)
  have "h \<notin> set (path_indices t (desc_next (t ! unat h)) ds)"
  proof
    assume "h \<in> set (path_indices t (desc_next (t ! unat h)) ds)"
    then obtain es where "chain_path t h es" and "length es \<le> length ds"
      using path_indices_suffix path_link.hyps(3) by blast
    moreover have "chain_path t h (t ! unat h # ds)"
      using path_link.hyps by (rule chain_path.path_link)
    ultimately show False using chain_path_unique by fastforce
  qed
  with path_link.IH show ?case by simp
qed

lemma path_indices_bound: "chain_path t h ds \<Longrightarrow> i \<in> set (path_indices t h ds) \<Longrightarrow> unat i < length t"
  using path_indices_suffix chain_path_head by blast

lemma chain_path_length: "chain_path t h ds \<Longrightarrow> length ds \<le> length t"
proof -
  assume path: "chain_path t h ds"
  let ?is = "map unat (path_indices t h ds)"
  have "distinct ?is"
    using distinct_path_indices [OF path] by (simp add: distinct_map inj_on_def word_unat_eq_iff)
  moreover have "set ?is \<subseteq> {..<length t}"
    using path_indices_bound [OF path] by auto
  ultimately have "length ?is \<le> card {..<length t}"
    by (metis card_mono distinct_card finite_lessThan)
  then show ?thesis by simp
qed

text \<open>One step of the walker from a live state.\<close>

lemma chain_items_step:
  "chain_items \<lparr>ch_table = t, ch_next = Some h, ch_visited = v, ch_failed = False\<rparr> =
    (if length t \<le> unat h then [Err (BadIndex h (length t))]
     else if length t \<le> v then [Err (ChainTooLong (length t))]
     else Ok (t ! unat h) #
       (if has_next (t ! unat h)
        then chain_items \<lparr>ch_table = t, ch_next = Some (desc_next (t ! unat h)),
               ch_visited = Suc v, ch_failed = False\<rparr>
        else []))"
proof -
  have stop: "chain_items c = []" if "ch_failed c \<or> ch_next c = None" for c
    using that by (subst chain_items.simps) (auto simp: DescriptorChain_next_def)
  show ?thesis
    by (subst chain_items.simps) (auto simp: DescriptorChain_next_def Let_def stop)
qed

lemma chain_items_path:
  "chain_path t h ds \<Longrightarrow> v + length ds \<le> length t \<Longrightarrow>
    chain_items \<lparr>ch_table = t, ch_next = Some h, ch_visited = v, ch_failed = False\<rparr> = map Ok ds"
  by (induction arbitrary: v rule: chain_path.induct) (subst chain_items_step, simp)+

lemma chain_items_Ok_path:
  "chain_items \<lparr>ch_table = t, ch_next = Some h, ch_visited = v, ch_failed = False\<rparr> = map Ok ds \<Longrightarrow>
    chain_path t h ds"
proof (induction ds arbitrary: h v)
  case Nil
  then show ?case by (subst (asm) chain_items_step) (simp split: if_splits)
next
  case (Cons d ds)
  then have h: "unat h < length t" and d: "d = t ! unat h"
    and rest: "(if has_next d then chain_items \<lparr>ch_table = t, ch_next = Some (desc_next d),
               ch_visited = Suc v, ch_failed = False\<rparr> else []) = map Ok ds"
    by (subst (asm) (2) chain_items_step, auto split: if_splits)+
  show ?case
  proof (cases "has_next d")
    case True
    with rest have "chain_path t (desc_next d) ds" by (auto intro: Cons.IH)
    with h d True show ?thesis by (auto intro: chain_path.path_link)
  next
    case False
    with rest h d show ?thesis by (auto intro: chain_path.path_last)
  qed
qed

lemma chain_items_shape:
  assumes "v \<le> length t"
  shows "\<exists>ds es. chain_items \<lparr>ch_table = t, ch_next = Some h, ch_visited = v, ch_failed = False\<rparr> =
      map Ok ds @ es \<and> v + length ds \<le> length t \<and> set ds \<subseteq> set t \<and>
      (es = [] \<or> es = [Err (ChainTooLong (length t))] \<and> v + length ds = length t \<or>
       (\<exists>i. es = [Err (BadIndex i (length t))] \<and> length t \<le> unat i))"
  using assms
proof (induction "length t - v" arbitrary: v h)
  case 0
  then have "v = length t" by simp
  then show ?case
    by (subst chain_items_step) (auto intro!: exI [of _ "[]"])
next
  case (Suc k)
  let ?d = "t ! unat h"
  show ?case
  proof (cases "unat h < length t \<and> has_next ?d")
    case True
    from Suc.hyps(2) have "k = length t - Suc v" and "Suc v \<le> length t" by simp_all
    from Suc.hyps(1) [OF this, of "desc_next ?d"] obtain ds es where
      ih: "chain_items \<lparr>ch_table = t, ch_next = Some (desc_next ?d), ch_visited = Suc v,
             ch_failed = False\<rparr> = map Ok ds @ es" "Suc v + length ds \<le> length t" "set ds \<subseteq> set t"
        "es = [] \<or> es = [Err (ChainTooLong (length t))] \<and> Suc v + length ds = length t \<or>
         (\<exists>i. es = [Err (BadIndex i (length t))] \<and> length t \<le> unat i)"
      by blast
    have "chain_items \<lparr>ch_table = t, ch_next = Some h, ch_visited = v, ch_failed = False\<rparr> =
        map Ok (?d # ds) @ es"
      using True ih(1) \<open>Suc v \<le> length t\<close> by (subst chain_items_step) simp
    with True ih(2-4) show ?thesis
      by (intro exI [of _ "?d # ds"] exI [of _ es]) auto
  next
    case False
    have "v < length t" using Suc.hyps(2) by simp
    with False show ?thesis
      by (subst chain_items_step)
        (auto intro: exI [of _ "[]"] exI [of _ "[?d]"])
  qed
qed

lemma walk_step_form:
  "walk t h = chain_items \<lparr>ch_table = t, ch_next = Some h, ch_visited = 0, ch_failed = False\<rparr>"
  by (simp add: walk_def DescriptorChain_new_def)

lemma walk_Ok_path_iff: "walk t h = map Ok ds \<longleftrightarrow> chain_path t h ds"
  using chain_items_Ok_path [of t h 0 ds] chain_items_path [of t h ds 0] chain_path_length [of t h ds]
  by (auto simp: walk_step_form)

subsection \<open>Properties\<close>

text \<open>
  C20: The chain walker is sound and complete for guest-built chains: iterating
  \<^verbatim>\<open>DescriptorChain\<close> from \<open>h\<close> yields the descriptors \<open>ds\<close> and no error exactly when
  the \<open>next\<close> links from \<open>h\<close> form a terminating chain \<open>ds\<close> inside the table. No chain
  the driver may legally build is rejected by the cycle guard, because a terminating chain
  never visits an index twice.
\<close>

theorem walk_exact: "walk t h = map Ok ds \<longleftrightarrow> chain_path t h ds"
  by (rule walk_Ok_path_iff)

text \<open>
  The walker is cycle-safe on every table and head a guest can supply: it stops after
  at most \<open>length t\<close> descriptors, all of them entries of the table, followed by at most one
  error; that error is \<^verbatim>\<open>ChainTooLong\<close> only after exactly \<open>length t\<close> descriptors, and
  \<^verbatim>\<open>BadIndex\<close> only for an index outside the table.
\<close>

theorem walk_cycle_safe:
  "\<exists>ds es. walk t h = map Ok ds @ es \<and> length ds \<le> length t \<and> set ds \<subseteq> set t \<and>
     (es = [] \<or> es = [Err (ChainTooLong (length t))] \<and> length ds = length t \<or>
      (\<exists>i. es = [Err (BadIndex i (length t))] \<and> length t \<le> unat i))"
  using chain_items_shape [of 0 t h] by (simp add: walk_step_form)

text \<open>
  Parsing a descriptor table succeeds exactly when the queue size is a power of two in
  the legal range and the buffer holds the whole table, and then returns the one list of
  \<open>qsize\<close> descriptors whose serialization is the table's bytes; the only errors are a bad
  queue size and a short buffer.
\<close>

theorem parse_descriptor_table_exact:
  "(parse_descriptor_table buf q = Ok ds \<longleftrightarrow>
      validate_qsize q = Ok () \<and> desc_table_size q \<le> length buf \<and> length ds = unat q \<and>
      concat (map Descriptor_to_bytes ds) = take (desc_table_size q) buf) \<and>
   (parse_descriptor_table buf q = Err e \<longleftrightarrow>
      validate_qsize q = Err e \<or>
      validate_qsize q = Ok () \<and> length buf < desc_table_size q \<and>
      e = ShortTable (length buf) (desc_table_size q) q)"
proof
  show "parse_descriptor_table buf q = Err e \<longleftrightarrow>
      validate_qsize q = Err e \<or>
      validate_qsize q = Ok () \<and> length buf < desc_table_size q \<and>
      e = ShortTable (length buf) (desc_table_size q) q"
    using desc_codec.dec_table_total [of "unat q" buf]
    by (cases "validate_qsize q")
      (auto simp: parse_descriptor_table_def desc_table_size_def Let_def)
qed (rule parse_descriptor_table_iff)

text \<open>
  The wire codec of descriptors loses nothing: a buffer parses to \<open>d\<close> exactly when it
  is long enough and starts with the serialization of \<open>d\<close>, and serializing in place with
  \<^verbatim>\<open>write_to\<close> rewrites exactly the first 16 bytes, whatever follows them. The packed
  descriptors have the same law.
\<close>

theorem descriptor_codec_exact:
  "(Descriptor_from_bytes buf = Ok d \<longleftrightarrow>
      DESC_SIZE \<le> length buf \<and> take DESC_SIZE buf = Descriptor_to_bytes d) \<and>
   (Descriptor_write_to d buf =
      (if length buf < DESC_SIZE then Err (ShortBuffer (length buf) DESC_SIZE)
       else Ok (DESC_SIZE, Descriptor_to_bytes d @ drop DESC_SIZE buf))) \<and>
   (PackedDesc_from_bytes buf = Ok p \<longleftrightarrow>
      PACKED_DESC_SIZE \<le> length buf \<and> take PACKED_DESC_SIZE buf = PackedDesc_to_bytes p) \<and>
   (PackedDesc_write_to p buf =
      (if length buf < PACKED_DESC_SIZE then Err (ShortBuffer (length buf) PACKED_DESC_SIZE)
       else Ok (PACKED_DESC_SIZE, PackedDesc_to_bytes p @ drop PACKED_DESC_SIZE buf)))"
  using Descriptor_write_to_eq [of buf d] PackedDesc_write_to_eq [of buf p]
  by (simp add: desc_codec.dec_iff packed_codec.dec_iff Descriptor_write_to_def
      PackedDesc_write_to_def)

end
