(* ===== verification/Virtq_Rings.thy ===== *)
theory Virtq_Rings
  imports Virtq_Desc
begin

text \<open>
  The available and used rings of \<^verbatim>\<open>crates/virtio-queue/src/lib.rs\<close>: views over a byte
  buffer with a queue size. Reads on the driver's ring (\<^verbatim>\<open>AvailRing\<close>, \<^verbatim>\<open>AvailIter\<close>)
  and writes on the device's ring (\<^verbatim>\<open>UsedRing::push\<close>) index slots modulo the queue
  size by a counter that wraps at \<open>2 ^ 16\<close>; the ring lemmas show that this is a
  ring exactly because the queue size is a power of two.
\<close>

definition le16_at :: "nat \<Rightarrow> bytes \<Rightarrow> u16" where
  "le16_at off b = from_le (slice_at off 2 b)"

definition le32_at :: "nat \<Rightarrow> bytes \<Rightarrow> u32" where
  "le32_at off b = from_le (slice_at off 4 b)"

lemma le16_at_copy_same:
  "off + 2 \<le> length b \<Longrightarrow> le16_at off (copy_into off (to_le 2 v) b) = v"
  by (simp add: le16_at_def slice_copy_into_same)

lemma le32_at_copy_same:
  "off + 4 \<le> length b \<Longrightarrow> le32_at off (copy_into off (to_le 4 v) b) = v"
  by (simp add: le32_at_def slice_copy_into_same)

lemma le16_at_copy_disjoint:
  "off + length s \<le> length b \<Longrightarrow> o2 + 2 \<le> off \<or> off + length s \<le> o2 \<Longrightarrow>
    le16_at o2 (copy_into off s b) = le16_at o2 b"
  by (simp add: le16_at_def slice_copy_into_disjoint)

lemma le32_at_copy_disjoint:
  "off + length s \<le> length b \<Longrightarrow> o2 + 4 \<le> off \<or> off + length s \<le> o2 \<Longrightarrow>
    le32_at o2 (copy_into off s b) = le32_at o2 b"
  by (simp add: le32_at_def slice_copy_into_disjoint)

lemmas le_at_copy =
  le16_at_copy_same le32_at_copy_same le16_at_copy_disjoint le32_at_copy_disjoint

subsection \<open>Slots of a power-of-two ring\<close>

lemma valid_qsize_dvd: "validate_qsize q = Inr u \<Longrightarrow> unat q dvd 2 ^ 16"
proof -
  assume "validate_qsize q = Inr u"
  then obtain k where "k < 16" and "unat q = 2 ^ k"
    by (auto simp: validate_qsize_Ok_iff is_power_of_two_iff)
  then show ?thesis using le_imp_power_dvd [of k 16 "2::nat"] by simp
qed

lemma slot_less: "validate_qsize q = Inr u \<Longrightarrow> unat (s mod q) < unat q"
  by (simp add: unat_mod validate_qsize_pos)

lemma slot_of_offset:
  assumes "validate_qsize q = Inr u"
  shows "unat ((c + of_nat i) mod q) = (unat c + i) mod unat q"
proof -
  have "unat (c + of_nat i) = (unat c + i) mod 2 ^ 16"
    by (simp add: unat_word_ariths unat_of_nat mod_simps)
  then show ?thesis
    using valid_qsize_dvd [OF assms] by (simp add: unat_mod mod_mod_cancel)
qed

lemma slots_distinct:
  assumes q: "validate_qsize q = Inr u" and "i < j" and "j < unat q + i"
  shows "(c + of_nat i) mod q \<noteq> (c + of_nat j) mod q"
proof
  assume "(c + of_nat i) mod q = (c + of_nat j) mod q"
  then have "(unat c + j) mod unat q = (unat c + i) mod unat q"
    using slot_of_offset [OF q, of c] by metis
  then have "unat q dvd (unat c + j) - (unat c + i)"
    using assms(2) by (subst (asm) mod_eq_dvd_iff_nat) simp_all
  with assms(2,3) show False by (auto dest: dvd_imp_le)
qed

subsection \<open>The available ring\<close>

record avail_ring =
  ar_bytes :: bytes
  ar_qsize :: u16

definition AvailRing_new :: "bytes \<Rightarrow> u16 \<Rightarrow> (queue_error, avail_ring) result" where
  "AvailRing_new b q =
     and_then (validate_qsize q) (\<lambda>_.
       let need = avail_ring_size q in
       if length b < need then Err (ShortRing (length b) need q)
       else Ok \<lparr>ar_bytes = b, ar_qsize = q\<rparr>)"

definition AvailRing_flags :: "avail_ring \<Rightarrow> u16" where
  "AvailRing_flags r = le16_at 0 (ar_bytes r)"

definition AvailRing_idx :: "avail_ring \<Rightarrow> u16" where
  "AvailRing_idx r = le16_at 2 (ar_bytes r)"

definition AvailRing_head :: "avail_ring \<Rightarrow> u16 \<Rightarrow> u16" where
  "AvailRing_head r slot = le16_at (4 + 2 * unat (slot mod ar_qsize r)) (ar_bytes r)"

definition AvailRing_used_event :: "avail_ring \<Rightarrow> u16" where
  "AvailRing_used_event r = le16_at (4 + 2 * unat (ar_qsize r)) (ar_bytes r)"

record avail_iter =
  ai_ring :: avail_ring
  ai_next :: u16
  ai_end :: u16

definition AvailRing_iter_new :: "avail_ring \<Rightarrow> u16 \<Rightarrow> avail_iter" where
  "AvailRing_iter_new r last_seen =
     \<lparr>ai_ring = r, ai_next = last_seen, ai_end = AvailRing_idx r\<rparr>"

definition AvailIter_next :: "avail_iter \<Rightarrow> u16 option \<times> avail_iter" where
  "AvailIter_next it =
     (if ai_next it = ai_end it then (None, it)
      else (Some (AvailRing_head (ai_ring it) (ai_next it)), it\<lparr>ai_next := ai_next it + 1\<rparr>))"

lemma counter_step: "n \<noteq> e \<Longrightarrow> unat (e - n) = Suc (unat (e - (n + 1)))" for n e :: "'a::len word"
proof -
  assume "n \<noteq> e"
  then have "e - n \<noteq> 0" by simp
  then have "unat (e - n - 1) = unat (e - n) - 1" and "unat (e - n) > 0"
    by (simp_all add: unat_minus_one unat_gt_0)
  then show ?thesis by (simp add: algebra_simps)
qed

function avail_items :: "avail_iter \<Rightarrow> u16 list" where
  "avail_items it =
     (case AvailIter_next it of
        (None, _) \<Rightarrow> []
      | (Some h, it') \<Rightarrow> h # avail_items it')"
  by pat_completeness auto
termination
  by (relation "measure (\<lambda>it. unat (ai_end it - ai_next it))")
    (auto simp: AvailIter_next_def counter_step split: if_splits)

declare avail_items.simps [simp del]

lemma avail_items_eq:
  "avail_items it =
    map (\<lambda>i. AvailRing_head (ai_ring it) (ai_next it + of_nat i)) [0..<unat (ai_end it - ai_next it)]"
proof (induction it rule: avail_items.induct)
  case (1 it)
  show ?case
  proof (cases "ai_next it = ai_end it")
    case True
    then show ?thesis by (subst avail_items.simps) (simp add: AvailIter_next_def)
  next
    case False
    then have "avail_items it = AvailRing_head (ai_ring it) (ai_next it) #
        avail_items (it\<lparr>ai_next := ai_next it + 1\<rparr>)"
      by (subst avail_items.simps) (simp add: AvailIter_next_def)
    also have "\<dots> = AvailRing_head (ai_ring it) (ai_next it) #
        map (\<lambda>i. AvailRing_head (ai_ring it) (ai_next it + 1 + of_nat i))
          [0..<unat (ai_end it - (ai_next it + 1))]"
      using 1 [of "Some (AvailRing_head (ai_ring it) (ai_next it))" "it\<lparr>ai_next := ai_next it + 1\<rparr>"
          "AvailRing_head (ai_ring it) (ai_next it)"] False
      by (simp add: AvailIter_next_def)
    also have "\<dots> = map (\<lambda>i. AvailRing_head (ai_ring it) (ai_next it + of_nat i))
        [0..<unat (ai_end it - ai_next it)]"
      unfolding counter_step [OF False] upt_conv_Cons [OF zero_less_Suc] map_Suc_upt [symmetric]
      by (simp add: algebra_simps comp_def)
    finally show ?thesis .
  qed
qed

subsection \<open>The used ring\<close>

record used_ring =
  ur_bytes :: bytes
  ur_qsize :: u16

definition UsedRing_new :: "bytes \<Rightarrow> u16 \<Rightarrow> (queue_error, used_ring) result" where
  "UsedRing_new b q =
     and_then (validate_qsize q) (\<lambda>_.
       let need = used_ring_size q in
       if length b < need then Err (ShortRing (length b) need q)
       else Ok \<lparr>ur_bytes = b, ur_qsize = q\<rparr>)"

definition UsedRing_flags :: "used_ring \<Rightarrow> u16" where
  "UsedRing_flags r = le16_at 0 (ur_bytes r)"

definition UsedRing_set_flags :: "u16 \<Rightarrow> used_ring \<Rightarrow> used_ring" where
  "UsedRing_set_flags v r = r\<lparr>ur_bytes := copy_into 0 (to_le 2 v) (ur_bytes r)\<rparr>"

definition UsedRing_idx :: "used_ring \<Rightarrow> u16" where
  "UsedRing_idx r = le16_at 2 (ur_bytes r)"

definition UsedRing_set_idx :: "u16 \<Rightarrow> used_ring \<Rightarrow> used_ring" where
  "UsedRing_set_idx v r = r\<lparr>ur_bytes := copy_into 2 (to_le 2 v) (ur_bytes r)\<rparr>"

definition UsedRing_avail_event :: "used_ring \<Rightarrow> u16" where
  "UsedRing_avail_event r = le16_at (4 + 8 * unat (ur_qsize r)) (ur_bytes r)"

definition UsedRing_set_avail_event :: "u16 \<Rightarrow> used_ring \<Rightarrow> used_ring" where
  "UsedRing_set_avail_event v r =
     r\<lparr>ur_bytes := copy_into (4 + 8 * unat (ur_qsize r)) (to_le 2 v) (ur_bytes r)\<rparr>"

definition UsedRing_elem :: "used_ring \<Rightarrow> u16 \<Rightarrow> u32 \<times> u32" where
  "UsedRing_elem r slot =
     (let off = 4 + 8 * unat (slot mod ur_qsize r)
      in (le32_at off (ur_bytes r), le32_at (off + 4) (ur_bytes r)))"

definition UsedRing_push :: "u32 \<Rightarrow> u32 \<Rightarrow> used_ring \<Rightarrow> u16 \<times> used_ring" where
  "UsedRing_push head_idx written_len r =
     (let cur = UsedRing_idx r;
          off = 4 + 8 * unat (cur mod ur_qsize r);
          r = r\<lparr>ur_bytes := copy_into off (to_le 4 head_idx) (ur_bytes r)\<rparr>;
          r = r\<lparr>ur_bytes := copy_into (off + 4) (to_le 4 written_len) (ur_bytes r)\<rparr>
      in (cur, UsedRing_set_idx (cur + 1) r))"

text \<open>The invariant the constructor establishes and every operation keeps.\<close>

definition used_ring_ok :: "used_ring \<Rightarrow> bool" where
  "used_ring_ok r \<longleftrightarrow>
     validate_qsize (ur_qsize r) = Ok () \<and> used_ring_size (ur_qsize r) \<le> length (ur_bytes r)"

lemma UsedRing_new_Ok_iff:
  "UsedRing_new b q = Inr r \<longleftrightarrow> r = \<lparr>ur_bytes = b, ur_qsize = q\<rparr> \<and> used_ring_ok r"
  by (auto simp: UsedRing_new_def used_ring_ok_def and_then_eqs Let_def)

lemma used_slot_fits:
  assumes "used_ring_ok r"
  shows "4 + 8 * unat (s mod ur_qsize r) + 8 \<le> 4 + 8 * unat (ur_qsize r) \<and>
    6 + 8 * unat (ur_qsize r) \<le> length (ur_bytes r)"
  using assms slot_less [of "ur_qsize r" "()" s]
  by (auto simp: used_ring_ok_def used_ring_size_def)

lemma UsedRing_push_bytes:
  assumes "used_ring_ok r"
  shows "snd (UsedRing_push h l r) = r\<lparr>ur_bytes :=
    copy_into 2 (to_le 2 (UsedRing_idx r + 1))
      (copy_into (4 + 8 * unat (UsedRing_idx r mod ur_qsize r)) (to_le 4 h @ to_le 4 l) (ur_bytes r))\<rparr>"
  using used_slot_fits [OF assms, of "UsedRing_idx r"]
  by (simp add: UsedRing_push_def UsedRing_set_idx_def Let_def copy_into_def min_def add.commute)

lemma UsedRing_push_qsize [simp]: "ur_qsize (snd (UsedRing_push h l r)) = ur_qsize r"
  by (simp add: UsedRing_push_def UsedRing_set_idx_def Let_def)

lemma UsedRing_push_ok: "used_ring_ok r \<Longrightarrow> used_ring_ok (snd (UsedRing_push h l r))"
  using used_slot_fits [of r "UsedRing_idx r"]
  by (simp add: UsedRing_push_bytes) (simp add: used_ring_ok_def)

lemma UsedRing_push_idx: "used_ring_ok r \<Longrightarrow> UsedRing_idx (snd (UsedRing_push h l r)) = UsedRing_idx r + 1"
  using used_slot_fits [of r "UsedRing_idx r"]
  by (simp add: UsedRing_push_bytes) (simp add: UsedRing_idx_def le16_at_copy_same)

lemma UsedRing_push_frame:
  assumes "used_ring_ok r"
  shows "UsedRing_flags (snd (UsedRing_push h l r)) = UsedRing_flags r"
    and "UsedRing_avail_event (snd (UsedRing_push h l r)) = UsedRing_avail_event r"
  using used_slot_fits [OF assms, of "UsedRing_idx r"]
  by (simp_all add: UsedRing_push_bytes [OF assms] UsedRing_flags_def UsedRing_avail_event_def
      le_at_copy)

lemma UsedRing_push_elem:
  assumes "used_ring_ok r"
  shows "UsedRing_elem (snd (UsedRing_push h l r)) s =
    (if s mod ur_qsize r = UsedRing_idx r mod ur_qsize r then (h, l) else UsedRing_elem r s)"
proof -
  let ?q = "ur_qsize r" and ?c = "UsedRing_idx r"
  note fits = used_slot_fits [OF assms, of s] used_slot_fits [OF assms, of ?c]
  let ?b = "copy_into (4 + 8 * unat (?c mod ?q)) (to_le 4 h @ to_le 4 l) (ur_bytes r)"
  have pair: "UsedRing_elem (snd (UsedRing_push h l r)) s =
      (le32_at (4 + 8 * unat (s mod ?q)) ?b, le32_at (4 + 8 * unat (s mod ?q) + 4) ?b)"
    using fits by (simp add: UsedRing_push_bytes [OF assms] UsedRing_elem_def Let_def
        le32_at_copy_disjoint)
  show ?thesis
  proof (cases "s mod ?q = ?c mod ?q")
    case True
    have "slice_at (4 + 8 * unat (?c mod ?q)) 8 ?b = to_le 4 h @ to_le 4 l"
      using fits by (intro slice_copy_into_same) simp_all
    then have "slice_at (4 + 8 * unat (?c mod ?q)) 4 ?b = to_le 4 h"
      and "slice_at (4 + 8 * unat (?c mod ?q) + 4) 4 ?b = to_le 4 l"
      using slice_slice [of 0 4 8 "4 + 8 * unat (?c mod ?q)" ?b]
        slice_slice [of 4 4 8 "4 + 8 * unat (?c mod ?q)" ?b]
      by (simp_all add: slice_at_def)
    with True pair show ?thesis by (simp add: le32_at_def)
  next
    case False
    then have "unat (s mod ?q) \<noteq> unat (?c mod ?q)" by (simp add: word_unat_eq_iff)
    then have "le32_at (4 + 8 * unat (s mod ?q)) ?b = le32_at (4 + 8 * unat (s mod ?q)) (ur_bytes r)"
      and "le32_at (4 + 8 * unat (s mod ?q) + 4) ?b = le32_at (4 + 8 * unat (s mod ?q) + 4) (ur_bytes r)"
      using fits by (auto intro!: le32_at_copy_disjoint)
    with False pair show ?thesis by (simp add: UsedRing_elem_def Let_def)
  qed
qed

lemmas used_push_laws =
  UsedRing_push_ok UsedRing_push_idx UsedRing_push_frame UsedRing_push_elem

definition push_all :: "(u32 \<times> u32) list \<Rightarrow> used_ring \<Rightarrow> used_ring" where
  "push_all xs r = fold (\<lambda>(h, l) r. snd (UsedRing_push h l r)) xs r"

lemma push_all_simps [simp]:
  "push_all [] r = r"
  "push_all (x # xs) r = push_all xs (snd (UsedRing_push (fst x) (snd x) r))"
  by (simp_all add: push_all_def split_beta)

lemma push_all_keeps:
  "used_ring_ok r \<Longrightarrow> used_ring_ok (push_all xs r) \<and> ur_qsize (push_all xs r) = ur_qsize r \<and>
    UsedRing_idx (push_all xs r) = UsedRing_idx r + of_nat (length xs) \<and>
    UsedRing_flags (push_all xs r) = UsedRing_flags r"
  by (induction xs arbitrary: r) (auto simp: used_push_laws algebra_simps)

lemma push_all_other:
  "used_ring_ok r \<Longrightarrow>
    (\<And>i. i < length xs \<Longrightarrow> s mod ur_qsize r \<noteq> (UsedRing_idx r + of_nat i) mod ur_qsize r) \<Longrightarrow>
    UsedRing_elem (push_all xs r) s = UsedRing_elem r s"
proof (induction xs arbitrary: r)
  case Nil
  then show ?case by simp
next
  case (Cons x xs)
  let ?r = "snd (UsedRing_push (fst x) (snd x) r)"
  have "UsedRing_elem (push_all xs ?r) s = UsedRing_elem ?r s"
    using Cons.prems(1) Cons.prems(2) [of "Suc i" for i]
    by (intro Cons.IH) (auto simp: used_push_laws algebra_simps)
  also have "\<dots> = UsedRing_elem r s"
    using Cons.prems(1) Cons.prems(2) [of 0] by (simp add: UsedRing_push_elem)
  finally show ?case by simp
qed

lemma push_all_elems:
  "used_ring_ok r \<Longrightarrow> length xs \<le> unat (ur_qsize r) \<Longrightarrow> i < length xs \<Longrightarrow>
    UsedRing_elem (push_all xs r) (UsedRing_idx r + of_nat i) = xs ! i"
proof (induction xs arbitrary: r i)
  case Nil
  then show ?case by simp
next
  case (Cons x xs)
  let ?r = "snd (UsedRing_push (fst x) (snd x) r)"
  have ok: "used_ring_ok ?r" and idx: "UsedRing_idx ?r = UsedRing_idx r + 1"
    using Cons.prems(1) by (simp_all add: used_push_laws)
  show ?case
  proof (cases i)
    case 0
    have "UsedRing_elem (push_all xs ?r) (UsedRing_idx r) = UsedRing_elem ?r (UsedRing_idx r)"
    proof (rule push_all_other [OF ok])
      fix j assume "j < length xs"
      then show "UsedRing_idx r mod ur_qsize ?r \<noteq> (UsedRing_idx ?r + of_nat j) mod ur_qsize ?r"
        using slots_distinct [of "ur_qsize r" "()" 0 "Suc j" "UsedRing_idx r"] Cons.prems(1,2)
        by (simp add: idx used_ring_ok_def algebra_simps)
    qed
    with 0 Cons.prems(1) show ?thesis by (simp add: UsedRing_push_elem)
  next
    case (Suc j)
    with Cons.prems Cons.IH [OF ok, of j] show ?thesis by (simp add: idx algebra_simps)
  qed
qed

subsection \<open>Properties\<close>

text \<open>
  \<^verbatim>\<open>AvailRing::iter_new\<close> hands the device exactly the heads the driver published
  since \<open>last_seen\<close>, in production order, across any number of wrap-arounds of the 16-bit
  index: there are \<open>idx - last_seen\<close> (modulo \<open>2 ^ 16\<close>) of them and the \<open>i\<close>-th is the head
  in slot \<open>last_seen + i\<close>. In particular the iteration terminates.
\<close>

theorem avail_iter_new_exact:
  "avail_items (AvailRing_iter_new r last_seen) =
     map (\<lambda>i. AvailRing_head r (last_seen + of_nat i)) [0..<unat (AvailRing_idx r - last_seen)]"
  by (simp add: avail_items_eq AvailRing_iter_new_def)

text \<open>
  \<^verbatim>\<open>UsedRing::push\<close> on a ring built by \<^verbatim>\<open>UsedRing::new\<close> stays inside the buffer,
  keeps the ring well formed, stores the element in the slot of the current index, advances
  the index by one modulo \<open>2 ^ 16\<close>, and changes no other slot, nor the flags, nor
  \<^verbatim>\<open>avail_event\<close>.
\<close>

theorem used_push_correct:
  assumes "UsedRing_new b q = Ok r0" and "r = push_all xs r0"
    and "UsedRing_push h l r = (cur, r')"
  shows "used_ring_ok r' \<and> length (ur_bytes r') = length b \<and> cur = UsedRing_idx r \<and>
    UsedRing_idx r' = cur + 1 \<and> UsedRing_elem r' cur = (h, l) \<and>
    (\<forall>s. s mod q \<noteq> cur mod q \<longrightarrow> UsedRing_elem r' s = UsedRing_elem r s) \<and>
    UsedRing_flags r' = UsedRing_flags r \<and> UsedRing_avail_event r' = UsedRing_avail_event r"
proof -
  have len: "length (ur_bytes (push_all xs r)) = length (ur_bytes r)" if "used_ring_ok r" for xs r
    using that
  proof (induction xs arbitrary: r)
    case (Cons x xs)
    then show ?case
      using used_slot_fits [of r "UsedRing_idx r"]
      by (simp add: UsedRing_push_ok) (simp add: UsedRing_push_bytes)
  qed simp
  have r0: "used_ring_ok r0" "r0 = \<lparr>ur_bytes = b, ur_qsize = q\<rparr>"
    using assms(1) UsedRing_new_Ok_iff by blast+
  then have r: "used_ring_ok r" "ur_qsize r = q"
    using push_all_keeps [of r0 xs] assms(2) by simp_all
  have r': "r' = snd (UsedRing_push h l r)" and cur: "cur = UsedRing_idx r"
    using assms(3) by (auto simp: UsedRing_push_def Let_def)
  have "r' = push_all (xs @ [(h, l)]) r0"
    by (simp add: r' assms(2) push_all_def)
  then have "length (ur_bytes r') = length b"
    using len [OF r0(1)] r0(2) by simp
  then show ?thesis
    using r by (simp add: r' cur used_push_laws)
qed

text \<open>
  C21: The used ring is a faithful FIFO: after pushing up to \<open>qsize\<close> completions on a well
  formed ring, the driver reads back every one of them, in order, from the slots following
  the old index, even when the index wraps; the new index is the old one plus their number.
\<close>

theorem used_ring_fifo:
  assumes "used_ring_ok r" and "length xs \<le> unat (ur_qsize r)"
  shows "map (\<lambda>i. UsedRing_elem (push_all xs r) (UsedRing_idx r + of_nat i)) [0..<length xs] = xs \<and>
    UsedRing_idx (push_all xs r) = UsedRing_idx r + of_nat (length xs)"
proof
  show "map (\<lambda>i. UsedRing_elem (push_all xs r) (UsedRing_idx r + of_nat i)) [0..<length xs] = xs"
    using push_all_elems [OF assms] by (intro nth_equalityI) simp_all
qed (use push_all_keeps [OF assms(1)] in simp)

text \<open>A ring of two slots whose index is about to wrap, for the witnesses.\<close>

definition wrap_ring_bytes :: bytes where
  "wrap_ring_bytes = [0, 0, 255, 255] @ replicate 18 0"

lemma wrap_ring_new:
  "UsedRing_new wrap_ring_bytes 2 = Ok \<lparr>ur_bytes = wrap_ring_bytes, ur_qsize = 2\<rparr>"
  by (simp add: UsedRing_new_def validate_qsize_def is_power_of_two_def MAX_QUEUE_SIZE_def
      used_ring_size_def wrap_ring_bytes_def upt_rec)

lemma wrap_ring_idx: "UsedRing_idx \<lparr>ur_bytes = wrap_ring_bytes, ur_qsize = 2\<rparr> = 65535"
  by (simp add: UsedRing_idx_def le16_at_def slice_at_def wrap_ring_bytes_def)

theorem used_push_correct_witness:
  "\<exists>cur r'. UsedRing_push 7 44 \<lparr>ur_bytes = wrap_ring_bytes, ur_qsize = 2\<rparr> = (cur, r') \<and>
     UsedRing_idx r' = 0 \<and> UsedRing_elem r' 65535 = (7, 44)"
proof -
  obtain cur r' where p: "UsedRing_push 7 44 \<lparr>ur_bytes = wrap_ring_bytes, ur_qsize = 2\<rparr> = (cur, r')"
    by fastforce
  have "\<lparr>ur_bytes = wrap_ring_bytes, ur_qsize = 2\<rparr> =
      push_all [] \<lparr>ur_bytes = wrap_ring_bytes, ur_qsize = 2\<rparr>" by simp
  from used_push_correct [OF wrap_ring_new this p] show ?thesis
    using p by (auto simp: wrap_ring_idx)
qed

theorem used_ring_fifo_witness:
  "let r = push_all [(7, 44), (9, 0)] \<lparr>ur_bytes = wrap_ring_bytes, ur_qsize = 2\<rparr>
   in UsedRing_elem r 65535 = (7, 44) \<and> UsedRing_elem r 0 = (9, 0) \<and> UsedRing_idx r = 1"
proof -
  have ok: "used_ring_ok \<lparr>ur_bytes = wrap_ring_bytes, ur_qsize = 2\<rparr>"
    using wrap_ring_new by (simp only: UsedRing_new_Ok_iff)
  have wraps: "(65536 :: u16) = 0" "(65537 :: u16) = 1" by simp_all
  from used_ring_fifo [OF ok, of "[(7, 44), (9, 0)]"] show ?thesis
    by (simp add: wrap_ring_idx Let_def wraps)
qed

end
