(* ===== verification/Guest_Memory.thy ===== *)
theory Guest_Memory
  imports Virtq_Rings
begin

text \<open>
  Guest-physical memory as the virtqueue code sees it. The traits \<^verbatim>\<open>GuestMemory\<close>
  (\<^verbatim>\<open>crates/virtio-queue/src/lib.rs\<close>) and \<^verbatim>\<open>GuestRam\<close>
  (\<^verbatim>\<open>crates/virtio-vsock/src/queue.rs\<close>) are one dictionary of two operations, passed
  to the code that is generic in them; the locale \<open>guest_ram\<close> states what an
  implementation promises, and \<open>SliceGuestMemory\<close> is shown to keep the promise. The
  operations of \<^verbatim>\<open>Descriptor\<close> that touch guest memory are here too.
\<close>

subsection \<open>The interface\<close>

record ('e, 'm) mem_ops =
  mem_read :: "'m \<Rightarrow> u64 \<Rightarrow> nat \<Rightarrow> ('e, bytes) result"
  mem_write :: "'m \<Rightarrow> u64 \<Rightarrow> bytes \<Rightarrow> ('e, 'm) result"

text \<open>
  A read returns as many bytes as asked; what was written is read back; a write leaves every
  disjoint range alone; which ranges are accessible depends on neither the direction nor the
  contents; and a part of a readable range is readable, with the same bytes.
\<close>

locale guest_ram =
  fixes R :: "('e, 'm) mem_ops"
  assumes read_length: "mem_read R m a n = Inr b \<Longrightarrow> length b = n"
    and write_read: "mem_write R m a b = Inr m' \<Longrightarrow> mem_read R m' a (length b) = Inr b"
    and write_frame: "mem_write R m a b = Inr m' \<Longrightarrow>
      unat a2 + n \<le> unat a \<or> unat a + length b \<le> unat a2 \<Longrightarrow>
      mem_read R m' a2 n = mem_read R m a2 n"
    and write_ok_iff: "is_ok (mem_write R m a b) \<longleftrightarrow> is_ok (mem_read R m a (length b))"
    and write_domain: "mem_write R m a b = Inr m' \<Longrightarrow>
      is_ok (mem_read R m' a2 n) \<longleftrightarrow> is_ok (mem_read R m a2 n)"
    and read_part: "mem_read R m a n = Inr b \<Longrightarrow> 0 < k \<Longrightarrow> i + k \<le> n \<Longrightarrow>
      unat a + i < 2 ^ 64 \<and> mem_read R m (a + of_nat i) k = Inr (slice_at i k b)"
begin

lemma read_bound: "mem_read R m a n = Inr b \<Longrightarrow> 0 < n \<Longrightarrow> unat a + n \<le> 2 ^ 64"
  using read_part [of m a n b 1 "n - 1"] by (cases n) auto

lemma write_bound:
  assumes "mem_write R m a b = Inr m'" and "b \<noteq> []"
  shows "unat a + length b \<le> 2 ^ 64"
  using read_bound [OF write_read [OF assms(1)]] assms(2) by simp

lemma read_prefix_write:
  assumes r: "mem_read R m a n = Inr b" and w: "mem_write R m a v = Inr m'" and le: "length v \<le> n"
  shows "mem_read R m' a n = Inr (v @ drop (length v) b)"
proof -
  have "is_ok (mem_read R m' a n)" using write_domain [OF w] r by simp
  then obtain c where c: "mem_read R m' a n = Inr c" by (auto simp: is_ok_iff)
  have len: "length c = n" "length b = n" using read_length [OF c] read_length [OF r] .
  have "take (length v) c = v"
  proof (cases "v = []")
    case False
    then show ?thesis
      using read_part [OF c, of "length v" 0] write_read [OF w] le by (simp add: slice_at_def)
  qed simp
  moreover have "drop (length v) c = drop (length v) b"
  proof (cases "length v = n")
    case True
    then show ?thesis using len by simp
  next
    case False
    let ?k = "n - length v"
    have k: "0 < ?k" "length v + ?k \<le> n" using False le by simp_all
    from read_part [OF r k] have sum: "unat a + length v < 2 ^ 64"
      and rb: "mem_read R m (a + of_nat (length v)) ?k = Inr (slice_at (length v) ?k b)" by auto
    from read_part [OF c k] have rc: "mem_read R m' (a + of_nat (length v)) ?k = Inr (slice_at (length v) ?k c)"
      by auto
    have "unat (a + of_nat (length v)) = unat a + length v"
      using sum by (simp add: unat_word_ariths unat_of_nat mod_simps)
    then have "mem_read R m' (a + of_nat (length v)) ?k = mem_read R m (a + of_nat (length v)) ?k"
      by (intro write_frame [OF w]) simp
    with rb rc show ?thesis using len by (simp add: slice_at_def)
  qed
  ultimately have "c = v @ drop (length v) b" by (metis append_take_drop_id)
  with c show ?thesis by simp
qed

lemma read_prefix_ok:
  assumes "mem_read R m a n = Inr b" and "k \<le> n" and "0 < k \<or> n = 0"
  shows "is_ok (mem_read R m a k)"
  using assms read_part [OF assms(1), of k 0] by (cases "k = 0") auto

lemma write_total: "is_ok (mem_read R m a (length b)) \<Longrightarrow> \<exists>m'. mem_write R m a b = Inr m'"
  using write_ok_iff [of m a b] by (simp add: is_ok_iff)

end

subsection \<open>\<open>SliceGuestMemory\<close>\<close>

record slice_mem =
  sm_base :: u64
  sm_bytes :: bytes

text \<open>A length as the \<^verbatim>\<open>u32\<close> of an error message, and \<^verbatim>\<open>checked_add\<close> of a \<^verbatim>\<open>usize\<close> length.\<close>

definition clamp_u32 :: "nat \<Rightarrow> u32" where
  "clamp_u32 n = (if n < 2 ^ 32 then of_nat n else - 1)"

definition checked_add_len :: "u64 \<Rightarrow> nat \<Rightarrow> u64 option" where
  "checked_add_len a n = (if unat a + n < 2 ^ 64 then Some (a + of_nat n) else None)"

definition SliceGuestMemory_new :: "u64 \<Rightarrow> bytes \<Rightarrow> slice_mem" where
  "SliceGuestMemory_new base b = \<lparr>sm_base = base, sm_bytes = b\<rparr>"

definition checked_bounds :: "slice_mem \<Rightarrow> u64 \<Rightarrow> nat \<Rightarrow> (queue_error, nat \<times> nat) result" where
  "checked_bounds s addr n =
     (let len_u32 = clamp_u32 n in
      and_then (ok_or (AddressOverflow addr len_u32) (checked_add_len addr n)) (\<lambda>req_end.
      and_then (ok_or (AddressOverflow (sm_base s) (clamp_u32 (length (sm_bytes s))))
                 (checked_add_len (sm_base s) (length (sm_bytes s)))) (\<lambda>mem_end.
      if addr < sm_base s \<or> req_end > mem_end
      then Err (GuestMemoryOutOfBounds addr len_u32 (sm_base s) (of_nat (length (sm_bytes s))))
      else let start = unat (addr - sm_base s) in Ok (start, start + n))))"

definition SliceGuestMemory_read :: "slice_mem \<Rightarrow> u64 \<Rightarrow> nat \<Rightarrow> (queue_error, bytes) result" where
  "SliceGuestMemory_read s addr n =
     and_then (checked_bounds s addr n) (\<lambda>(start, stop). Ok (slice_at start (stop - start) (sm_bytes s)))"

definition SliceGuestMemory_write :: "slice_mem \<Rightarrow> u64 \<Rightarrow> bytes \<Rightarrow> (queue_error, slice_mem) result" where
  "SliceGuestMemory_write s addr src =
     and_then (checked_bounds s addr (length src)) (\<lambda>(start, stop).
       Ok (s\<lparr>sm_bytes := copy_into start src (sm_bytes s)\<rparr>))"

definition slice_ops :: "(queue_error, slice_mem) mem_ops" where
  "slice_ops = \<lparr>mem_read = SliceGuestMemory_read, mem_write = SliceGuestMemory_write\<rparr>"

text \<open>The window the bounds check accepts.\<close>

lemma unat_add_of_nat: "unat a + n < 2 ^ 64 \<Longrightarrow> unat (a + of_nat n) = unat a + n" for a :: u64
  by (simp add: unat_word_ariths unat_of_nat mod_simps)

lemma checked_bounds_Ok_iff:
  "checked_bounds s a n = Inr (i, j) \<longleftrightarrow>
    unat (sm_base s) + length (sm_bytes s) < 2 ^ 64 \<and> sm_base s \<le> a \<and>
    unat a + n \<le> unat (sm_base s) + length (sm_bytes s) \<and> i = unat a - unat (sm_base s) \<and> j = i + n"
proof -
  have "unat (a - sm_base s) = unat a - unat (sm_base s)" if "sm_base s \<le> a"
    using that by (rule unat_sub)
  moreover have "a + of_nat n \<le> sm_base s + of_nat (length (sm_bytes s)) \<longleftrightarrow>
      unat a + n \<le> unat (sm_base s) + length (sm_bytes s)"
    if "unat a + n < 2 ^ 64" and "unat (sm_base s) + length (sm_bytes s) < 2 ^ 64"
    using that by (simp add: word_le_nat_alt unat_add_of_nat)
  ultimately show ?thesis
    by (auto simp: checked_bounds_def Let_def and_then_eqs checked_add_len_def not_less)
qed

lemma SliceGuestMemory_read_Ok_iff:
  "SliceGuestMemory_read s a n = Inr b \<longleftrightarrow>
    unat (sm_base s) + length (sm_bytes s) < 2 ^ 64 \<and> sm_base s \<le> a \<and>
    unat a + n \<le> unat (sm_base s) + length (sm_bytes s) \<and>
    b = slice_at (unat a - unat (sm_base s)) n (sm_bytes s)"
  by (auto simp: SliceGuestMemory_read_def and_then_eqs checked_bounds_Ok_iff)

lemma SliceGuestMemory_write_Ok_iff:
  "SliceGuestMemory_write s a b = Inr s' \<longleftrightarrow>
    unat (sm_base s) + length (sm_bytes s) < 2 ^ 64 \<and> sm_base s \<le> a \<and>
    unat a + length b \<le> unat (sm_base s) + length (sm_bytes s) \<and>
    s' = s\<lparr>sm_bytes := copy_into (unat a - unat (sm_base s)) b (sm_bytes s)\<rparr>"
  by (auto simp: SliceGuestMemory_write_def and_then_eqs checked_bounds_Ok_iff)

lemma base_le_unat: "(b :: u64) \<le> a \<Longrightarrow> unat b \<le> unat a"
  by (simp add: word_le_nat_alt)

lemma SliceGuestMemory_ok_iff:
  "is_ok (SliceGuestMemory_read s a n) \<longleftrightarrow>
    unat (sm_base s) + length (sm_bytes s) < 2 ^ 64 \<and> sm_base s \<le> a \<and>
    unat a + n \<le> unat (sm_base s) + length (sm_bytes s)"
  "is_ok (SliceGuestMemory_write s a b) \<longleftrightarrow>
    unat (sm_base s) + length (sm_bytes s) < 2 ^ 64 \<and> sm_base s \<le> a \<and>
    unat a + length b \<le> unat (sm_base s) + length (sm_bytes s)"
  by (simp_all add: is_ok_iff SliceGuestMemory_read_Ok_iff SliceGuestMemory_write_Ok_iff)

lemma SliceGuestMemory_write_length:
  "SliceGuestMemory_write s a b = Inr s' \<Longrightarrow>
    sm_base s' = sm_base s \<and> length (sm_bytes s') = length (sm_bytes s)"
  using base_le_unat by (fastforce simp: SliceGuestMemory_write_Ok_iff)

lemma SliceGuestMemory_frame:
  assumes w: "SliceGuestMemory_write s a b = Inr s'"
    and apart: "unat a2 + n \<le> unat a \<or> unat a + length b \<le> unat a2"
  shows "SliceGuestMemory_read s' a2 n = SliceGuestMemory_read s a2 n"
proof -
  have bounds: "checked_bounds s' a2 n = checked_bounds s a2 n"
    using SliceGuestMemory_write_length [OF w]
    by (simp add: checked_bounds_def Let_def cong: if_cong)
  show ?thesis
  proof (cases "checked_bounds s a2 n")
    case (Inr p)
    then obtain i j where b: "checked_bounds s a2 n = Inr (i, j)" by (cases p) simp
    moreover from this have "j - i = n" by (simp add: checked_bounds_Ok_iff)
    moreover from b w apart have "slice_at i n (sm_bytes s') = slice_at i n (sm_bytes s)"
      using base_le_unat [of "sm_base s"]
      by (auto simp: checked_bounds_Ok_iff SliceGuestMemory_write_Ok_iff
          intro!: slice_copy_into_disjoint)
    ultimately show ?thesis
      by (simp add: SliceGuestMemory_read_def bounds)
  qed (simp add: SliceGuestMemory_read_def bounds)
qed

interpretation slice_ram: guest_ram slice_ops
proof (unfold_locales, goal_cases)
  case (1 m a n b)
  then show ?case
    using base_le_unat [of "sm_base m" a] by (auto simp: slice_ops_def SliceGuestMemory_read_Ok_iff)
next
  case (2 m a b m')
  then show ?case
    using base_le_unat [of "sm_base m" a] SliceGuestMemory_write_length [of m a b m']
    by (auto simp: slice_ops_def SliceGuestMemory_read_Ok_iff SliceGuestMemory_write_Ok_iff
        slice_copy_into_same)
next
  case (3 m a b m' a2 n)
  then show ?case by (simp add: slice_ops_def SliceGuestMemory_frame)
next
  case (4 m a b)
  show ?case by (simp add: slice_ops_def SliceGuestMemory_ok_iff)
next
  case (5 m a b m' a2 n)
  then show ?case
    using SliceGuestMemory_write_length [of m a b m'] by (simp add: slice_ops_def SliceGuestMemory_ok_iff)
next
  case (6 m a n b k i)
  then have le: "unat (sm_base m) \<le> unat a" and sum: "unat a + i < 2 ^ 64"
    using base_le_unat [of "sm_base m" a] by (auto simp: slice_ops_def SliceGuestMemory_read_Ok_iff)
  with 6 show ?case
    by (auto simp: slice_ops_def SliceGuestMemory_read_Ok_iff unat_add_of_nat word_le_nat_alt
        slice_slice)
qed

subsection \<open>Descriptors against guest memory\<close>

definition MAX_DESC_READ_BYTES :: nat where
  "MAX_DESC_READ_BYTES = 16 * 1024 * 1024"

definition read_from :: "(queue_error, 'm) mem_ops \<Rightarrow> descriptor \<Rightarrow> 'm \<Rightarrow> (queue_error, bytes) result" where
  "read_from R d mem =
     (let len = unat (desc_len d) in
      if len > MAX_DESC_READ_BYTES then Err (DescriptorTooLarge (desc_len d) MAX_DESC_READ_BYTES)
      else mem_read R mem (desc_addr d) len)"

definition write_to_guest ::
    "(queue_error, 'm) mem_ops \<Rightarrow> descriptor \<Rightarrow> 'm \<Rightarrow> bytes \<Rightarrow> (queue_error, nat \<times> 'm) result" where
  "write_to_guest R d mem data =
     (if \<not> is_writable d then Err (DescriptorNotWritable (desc_addr d))
      else let n = min (unat (desc_len d)) (length data) in
        and_then (mem_write R mem (desc_addr d) (take n data)) (\<lambda>mem. Ok (n, mem)))"

subsection \<open>Properties\<close>

text \<open>
  \<open>SliceGuestMemory\<close> never accesses bytes outside its window and is a memory: a write
  succeeds exactly when the range lies inside \<open>[base, base + len)\<close> and \<open>base + len\<close> fits in
  64 bits (no address arithmetic wraps around the check); after it the range holds the
  written bytes, every disjoint range reads as before, and the window keeps its size.
\<close>

theorem slice_memory_write_exact:
  "(case SliceGuestMemory_write s a b of
      Err e \<Rightarrow> \<not> (unat (sm_base s) + length (sm_bytes s) < 2 ^ 64 \<and> unat (sm_base s) \<le> unat a \<and>
                  unat a + length b \<le> unat (sm_base s) + length (sm_bytes s))
    | Ok s' \<Rightarrow> unat (sm_base s) + length (sm_bytes s) < 2 ^ 64 \<and> unat (sm_base s) \<le> unat a \<and>
              unat a + length b \<le> unat (sm_base s) + length (sm_bytes s) \<and>
              SliceGuestMemory_read s' a (length b) = Ok b \<and>
              (\<forall>a2 n. unat a2 + n \<le> unat a \<or> unat a + length b \<le> unat a2 \<longrightarrow>
                 SliceGuestMemory_read s' a2 n = SliceGuestMemory_read s a2 n) \<and>
              sm_base s' = sm_base s \<and> length (sm_bytes s') = length (sm_bytes s))"
proof (cases "SliceGuestMemory_write s a b")
  case (Inl e)
  then show ?thesis using SliceGuestMemory_ok_iff(2) [of s a b] by (simp add: word_le_nat_alt)
next
  case (Inr s')
  then have "SliceGuestMemory_read s' a (length b) = Ok b"
    using slice_ram.write_read [of s a b s'] by (simp add: slice_ops_def)
  moreover have "unat (sm_base s) + length (sm_bytes s) < 2 ^ 64 \<and> unat (sm_base s) \<le> unat a \<and>
      unat a + length b \<le> unat (sm_base s) + length (sm_bytes s)"
    using SliceGuestMemory_ok_iff(2) [of s a b] Inr by (simp add: word_le_nat_alt)
  ultimately show ?thesis
    using SliceGuestMemory_write_length [OF Inr] SliceGuestMemory_frame [OF Inr] by (simp add: Inr)
qed

theorem slice_memory_write_exact_witness:
  "SliceGuestMemory_write (SliceGuestMemory_new 4096 [1, 2, 3]) 4097 [9] =
     Ok (SliceGuestMemory_new 4096 [1, 9, 3]) \<and>
   SliceGuestMemory_read (SliceGuestMemory_new 4096 [1, 9, 3]) 4098 1 =
     SliceGuestMemory_read (SliceGuestMemory_new 4096 [1, 2, 3]) 4098 1"
proof -
  have w: "SliceGuestMemory_write (SliceGuestMemory_new 4096 [1, 2, 3]) 4097 [9] =
      Ok (SliceGuestMemory_new 4096 [1, 9, 3])"
    by (simp add: SliceGuestMemory_write_def checked_bounds_def checked_add_len_def
        SliceGuestMemory_new_def copy_into_def Let_def)
  have "\<forall>a2 n. unat a2 + n \<le> unat (4097 :: u64) \<or> unat (4097 :: u64) + length [9 :: u8] \<le> unat a2 \<longrightarrow>
      SliceGuestMemory_read (SliceGuestMemory_new 4096 [1, 9, 3]) a2 n =
      SliceGuestMemory_read (SliceGuestMemory_new 4096 [1, 2, 3]) a2 n"
    using slice_memory_write_exact [of "SliceGuestMemory_new 4096 [1, 2, 3]" 4097 "[9]"]
    unfolding w by simp
  then have "SliceGuestMemory_read (SliceGuestMemory_new 4096 [1, 9, 3]) 4098 1 =
      SliceGuestMemory_read (SliceGuestMemory_new 4096 [1, 2, 3]) 4098 1"
    by (elim allE [of _ 4098] allE [of _ 1]) simp
  with w show ?thesis by blast
qed

text \<open>
  Device writes through a descriptor respect the guest's permission and length: on any
  guest memory that keeps the contract, a successful \<^verbatim>\<open>write_to_guest\<close> needs the
  \<^verbatim>\<open>DESC_F_WRITE\<close> flag, writes exactly the first \<open>min len |data|\<close> bytes at the
  descriptor's address, and leaves all memory outside the descriptor's buffer unchanged.
\<close>

theorem write_to_guest_confined:
  assumes "guest_ram R" and "write_to_guest R d m data = Ok (n, m')"
  shows "is_writable d \<and> n = min (unat (desc_len d)) (length data) \<and>
    mem_read R m' (desc_addr d) n = Ok (take n data) \<and>
    (\<forall>a k. unat a + k \<le> unat (desc_addr d) \<or> unat (desc_addr d) + unat (desc_len d) \<le> unat a \<longrightarrow>
       mem_read R m' a k = mem_read R m a k)"
proof -
  from assms(2) have w: "is_writable d" and n: "n = min (unat (desc_len d)) (length data)"
    and m': "mem_write R m (desc_addr d) (take n data) = Inr m'"
    by (auto simp: write_to_guest_def Let_def and_then_eqs split: if_splits)
  have len: "length (take n data) = n" and "n \<le> unat (desc_len d)" using n by auto
  then have "mem_read R m' a k = mem_read R m a k"
    if "unat a + k \<le> unat (desc_addr d) \<or> unat (desc_addr d) + unat (desc_len d) \<le> unat a" for a k
    using that guest_ram.write_frame [OF assms(1) m', of a k] by auto
  moreover have "mem_read R m' (desc_addr d) n = Ok (take n data)"
    using guest_ram.write_read [OF assms(1) m'] len by simp
  ultimately show ?thesis using w n by blast
qed

theorem write_to_guest_confined_witness:
  "let d = \<lparr>desc_addr = 4098, desc_len = 2, desc_flags = 2, desc_next = 0\<rparr>;
       m = SliceGuestMemory_new 4096 [1, 2, 3, 4, 5, 6]
   in write_to_guest slice_ops d m [9, 8, 7] = Ok (2, m\<lparr>sm_bytes := [1, 2, 9, 8, 5, 6]\<rparr>) \<and>
      mem_read slice_ops (m\<lparr>sm_bytes := [1, 2, 9, 8, 5, 6]\<rparr>) 4098 2 = Ok [9, 8]"
proof -
  let ?d = "\<lparr>desc_addr = 4098, desc_len = 2, desc_flags = 2, desc_next = 0\<rparr>"
  let ?m = "SliceGuestMemory_new 4096 [1, 2, 3, 4, 5, 6]"
  have w: "write_to_guest slice_ops ?d ?m [9, 8, 7] = Ok (2, ?m\<lparr>sm_bytes := [1, 2, 9, 8, 5, 6]\<rparr>)"
    by (simp add: write_to_guest_def is_writable_def DESC_F_WRITE_def slice_ops_def
        SliceGuestMemory_write_def checked_bounds_def checked_add_len_def SliceGuestMemory_new_def
        copy_into_def Let_def)
  have "mem_read slice_ops (?m\<lparr>sm_bytes := [1, 2, 9, 8, 5, 6]\<rparr>) (desc_addr ?d) 2 = Ok (take 2 [9, 8, 7])"
    using write_to_guest_confined [OF slice_ram.guest_ram_axioms w] by blast
  with w show ?thesis unfolding Let_def by simp
qed

end
