(* ===== verification/Virtio_Mmio.thy ===== *)
theory Virtio_Mmio
  imports Nano_Prelude
begin

text \<open>
  The virtio-MMIO register block of the vsock device (\<^verbatim>\<open>crates/virtio-vsock/src/mmio.rs\<close>):
  every register a driver reads and writes, feature and queue selection, reset, interrupts and
  the byte-addressed configuration space.

  The locale \<open>queue_registers\<close> is the contract a driver relies on when it programs a
  virtqueue through \<^verbatim>\<open>QueueSel\<close> and the per-queue registers; the bring-up sequence is
  verified against the contract once and holds for every transport that keeps it.
\<close>

definition VIRTIO_MMIO_MAGIC :: u32 where "VIRTIO_MMIO_MAGIC = 0x74726976"
definition VIRTIO_MMIO_VERSION :: u32 where "VIRTIO_MMIO_VERSION = 2"
definition VIRTIO_ID_VSOCK :: u32 where "VIRTIO_ID_VSOCK = 19"
definition NANOVM_VENDOR_ID :: u32 where "NANOVM_VENDOR_ID = 0x4e414e4f"
definition VIRTIO_F_VERSION_1 :: u64 where "VIRTIO_F_VERSION_1 = push_bit 32 1"
definition VIRTIO_VSOCK_NUM_QUEUES :: nat where "VIRTIO_VSOCK_NUM_QUEUES = 3"
definition QUEUE_SIZE_MAX :: u32 where "QUEUE_SIZE_MAX = 256"
definition STATUS_DRIVER_OK :: u32 where "STATUS_DRIVER_OK = 4"
definition VIRTIO_MMIO_INT_VRING :: u32 where "VIRTIO_MMIO_INT_VRING = 1"

definition reg_MAGIC :: u64 where "reg_MAGIC = 0x000"
definition reg_VERSION :: u64 where "reg_VERSION = 0x004"
definition reg_DEVICE_ID :: u64 where "reg_DEVICE_ID = 0x008"
definition reg_VENDOR_ID :: u64 where "reg_VENDOR_ID = 0x00c"
definition reg_DEVICE_FEATURES :: u64 where "reg_DEVICE_FEATURES = 0x010"
definition reg_DEVICE_FEATURES_SEL :: u64 where "reg_DEVICE_FEATURES_SEL = 0x014"
definition reg_DRIVER_FEATURES :: u64 where "reg_DRIVER_FEATURES = 0x020"
definition reg_DRIVER_FEATURES_SEL :: u64 where "reg_DRIVER_FEATURES_SEL = 0x024"
definition reg_QUEUE_SEL :: u64 where "reg_QUEUE_SEL = 0x030"
definition reg_QUEUE_NUM_MAX :: u64 where "reg_QUEUE_NUM_MAX = 0x034"
definition reg_QUEUE_NUM :: u64 where "reg_QUEUE_NUM = 0x038"
definition reg_QUEUE_READY :: u64 where "reg_QUEUE_READY = 0x044"
definition reg_QUEUE_NOTIFY :: u64 where "reg_QUEUE_NOTIFY = 0x050"
definition reg_INTERRUPT_STATUS :: u64 where "reg_INTERRUPT_STATUS = 0x060"
definition reg_INTERRUPT_ACK :: u64 where "reg_INTERRUPT_ACK = 0x064"
definition reg_STATUS :: u64 where "reg_STATUS = 0x070"
definition reg_QUEUE_DESC_LOW :: u64 where "reg_QUEUE_DESC_LOW = 0x080"
definition reg_QUEUE_DESC_HIGH :: u64 where "reg_QUEUE_DESC_HIGH = 0x084"
definition reg_QUEUE_DRIVER_LOW :: u64 where "reg_QUEUE_DRIVER_LOW = 0x090"
definition reg_QUEUE_DRIVER_HIGH :: u64 where "reg_QUEUE_DRIVER_HIGH = 0x094"
definition reg_QUEUE_DEVICE_LOW :: u64 where "reg_QUEUE_DEVICE_LOW = 0x0a0"
definition reg_QUEUE_DEVICE_HIGH :: u64 where "reg_QUEUE_DEVICE_HIGH = 0x0a4"
definition reg_CONFIG_GENERATION :: u64 where "reg_CONFIG_GENERATION = 0x0fc"
definition reg_CONFIG_SPACE :: u64 where "reg_CONFIG_SPACE = 0x100"

lemmas reg_defs = reg_MAGIC_def reg_VERSION_def reg_DEVICE_ID_def reg_VENDOR_ID_def
  reg_DEVICE_FEATURES_def reg_DEVICE_FEATURES_SEL_def reg_DRIVER_FEATURES_def
  reg_DRIVER_FEATURES_SEL_def reg_QUEUE_SEL_def reg_QUEUE_NUM_MAX_def reg_QUEUE_NUM_def
  reg_QUEUE_READY_def reg_QUEUE_NOTIFY_def reg_INTERRUPT_STATUS_def reg_INTERRUPT_ACK_def
  reg_STATUS_def reg_QUEUE_DESC_LOW_def reg_QUEUE_DESC_HIGH_def reg_QUEUE_DRIVER_LOW_def
  reg_QUEUE_DRIVER_HIGH_def reg_QUEUE_DEVICE_LOW_def reg_QUEUE_DEVICE_HIGH_def
  reg_CONFIG_GENERATION_def reg_CONFIG_SPACE_def

record queue_config =
  qc_size :: u32
  qc_ready :: bool
  qc_desc :: u64
  qc_driver :: u64
  qc_device :: u64

definition QueueConfig_default :: queue_config where
  "QueueConfig_default = \<lparr>qc_size = 0, qc_ready = False, qc_desc = 0, qc_driver = 0, qc_device = 0\<rparr>"

record mmio_transport =
  mt_device_id :: u32
  mt_device_features :: u64
  mt_config :: bytes
  mt_device_features_sel :: u32
  mt_driver_features :: u64
  mt_driver_features_sel :: u32
  mt_status :: u32
  mt_queue_sel :: u32
  mt_queues :: "queue_config list"
  mt_interrupt_status :: u32
  mt_config_generation :: u32
  mt_pending_notify :: "u32 option"

definition new_vsock :: "u64 \<Rightarrow> mmio_transport" where
  "new_vsock guest_cid =
     \<lparr>mt_device_id = VIRTIO_ID_VSOCK, mt_device_features = VIRTIO_F_VERSION_1,
      mt_config = to_le 8 guest_cid, mt_device_features_sel = 0, mt_driver_features = 0,
      mt_driver_features_sel = 0, mt_status = 0, mt_queue_sel = 0,
      mt_queues = replicate VIRTIO_VSOCK_NUM_QUEUES QueueConfig_default,
      mt_interrupt_status = 0, mt_config_generation = 0, mt_pending_notify = None\<rparr>"

definition driver_ok :: "mmio_transport \<Rightarrow> bool" where
  "driver_ok t = (mt_status t AND STATUS_DRIVER_OK \<noteq> 0)"

definition negotiated_features :: "mmio_transport \<Rightarrow> u64" where
  "negotiated_features t = mt_driver_features t"

definition mmio_queue :: "mmio_transport \<Rightarrow> nat \<Rightarrow> queue_config option" where
  "mmio_queue t index = (if index < length (mt_queues t) then Some (mt_queues t ! index) else None)"

definition take_notify :: "mmio_transport \<Rightarrow> mmio_transport \<times> u32 option" where
  "take_notify t = (t\<lparr>mt_pending_notify := None\<rparr>, mt_pending_notify t)"

definition raise_interrupt :: "mmio_transport \<Rightarrow> mmio_transport" where
  "raise_interrupt t = t\<lparr>mt_interrupt_status := mt_interrupt_status t OR VIRTIO_MMIO_INT_VRING\<rparr>"

definition interrupt_asserted :: "mmio_transport \<Rightarrow> bool" where
  "interrupt_asserted t = (mt_interrupt_status t \<noteq> 0)"

definition set_low :: "u64 \<Rightarrow> u32 \<Rightarrow> u64" where
  "set_low addr low = (addr AND 0xffffffff00000000) OR ucast low"

definition set_high :: "u64 \<Rightarrow> u32 \<Rightarrow> u64" where
  "set_high addr high = (addr AND 0x00000000ffffffff) OR push_bit 32 (ucast high)"

definition read_device_features :: "mmio_transport \<Rightarrow> u32" where
  "read_device_features t =
     (if mt_device_features_sel t = 0 then ucast (mt_device_features t)
      else if mt_device_features_sel t = 1 then ucast (drop_bit 32 (mt_device_features t))
      else 0)"

definition write_driver_features :: "mmio_transport \<Rightarrow> u32 \<Rightarrow> mmio_transport" where
  "write_driver_features t v =
     (if mt_driver_features_sel t = 0
      then t\<lparr>mt_driver_features := (mt_driver_features t AND 0xffffffff00000000) OR ucast v\<rparr>
      else if mt_driver_features_sel t = 1
      then t\<lparr>mt_driver_features := (mt_driver_features t AND 0x00000000ffffffff) OR push_bit 32 (ucast v)\<rparr>
      else t)"

definition mmio_reset :: "mmio_transport \<Rightarrow> mmio_transport" where
  "mmio_reset t =
     t\<lparr>mt_status := 0, mt_driver_features := 0, mt_driver_features_sel := 0,
       mt_device_features_sel := 0, mt_queue_sel := 0, mt_interrupt_status := 0,
       mt_pending_notify := None, mt_queues := map (\<lambda>q. QueueConfig_default) (mt_queues t)\<rparr>"

definition write_status :: "mmio_transport \<Rightarrow> u32 \<Rightarrow> mmio_transport" where
  "write_status t v = (if v = 0 then mmio_reset t else t\<lparr>mt_status := v\<rparr>)"

definition current_queue :: "mmio_transport \<Rightarrow> queue_config option" where
  "current_queue t =
     (if unat (mt_queue_sel t) < length (mt_queues t)
      then Some (mt_queues t ! unat (mt_queue_sel t)) else None)"

definition with_current_queue :: "mmio_transport \<Rightarrow> (queue_config \<Rightarrow> queue_config) \<Rightarrow> mmio_transport" where
  "with_current_queue t f =
     (let i = unat (mt_queue_sel t) in
      if i < length (mt_queues t) then t\<lparr>mt_queues := (mt_queues t)[i := f (mt_queues t ! i)]\<rparr> else t)"

text \<open>
  Configuration space is addressed in bytes; bytes past its end read as zero and ignore
  writes. In the release profile index addition wraps and a shift amount is taken modulo 64.
\<close>

definition config_index :: "u64 \<Rightarrow> nat \<Rightarrow> nat" where
  "config_index off i = unat (off + of_nat i)"

definition read_config :: "mmio_transport \<Rightarrow> u64 \<Rightarrow> nat \<Rightarrow> u64" where
  "read_config t off sz =
     fold (\<lambda>i out.
        let k = config_index off i;
            byte = (if k < length (mt_config t) then mt_config t ! k else 0)
        in out OR push_bit (8 * i mod 64) (ucast byte)) [0..<sz] 0"

definition put_byte :: "u64 \<Rightarrow> (nat \<Rightarrow> u8) \<Rightarrow> nat \<Rightarrow> bytes \<times> bool \<Rightarrow> bytes \<times> bool" where
  "put_byte off f i p =
     (let (config, wrote) = p; k = config_index off i
      in if k < length config then (config[k := f i], True) else (config, wrote))"

definition write_config :: "mmio_transport \<Rightarrow> u64 \<Rightarrow> nat \<Rightarrow> u64 \<Rightarrow> mmio_transport" where
  "write_config t off sz value =
     (let (config, wrote) =
            fold (put_byte off (\<lambda>i. ucast (drop_bit (8 * i mod 64) value))) [0..<sz] (mt_config t, False);
          t = t\<lparr>mt_config := config\<rparr>
      in if wrote then t\<lparr>mt_config_generation := mt_config_generation t + 1\<rparr> else t)"

definition mmio_read :: "mmio_transport \<Rightarrow> u64 \<Rightarrow> nat \<Rightarrow> u64" where
  "mmio_read t offset sz =
     (if offset \<ge> reg_CONFIG_SPACE then read_config t (offset - reg_CONFIG_SPACE) sz
      else
        let val =
          (if offset = reg_MAGIC then VIRTIO_MMIO_MAGIC
           else if offset = reg_VERSION then VIRTIO_MMIO_VERSION
           else if offset = reg_DEVICE_ID then mt_device_id t
           else if offset = reg_VENDOR_ID then NANOVM_VENDOR_ID
           else if offset = reg_DEVICE_FEATURES then read_device_features t
           else if offset = reg_QUEUE_NUM_MAX then QUEUE_SIZE_MAX
           else if offset = reg_QUEUE_READY
             then (case current_queue t of Some q \<Rightarrow> of_bool (qc_ready q) | None \<Rightarrow> 0)
           else if offset = reg_INTERRUPT_STATUS then mt_interrupt_status t
           else if offset = reg_STATUS then mt_status t
           else if offset = reg_CONFIG_GENERATION then mt_config_generation t
           else 0)
        in ucast val)"

definition mmio_write :: "mmio_transport \<Rightarrow> u64 \<Rightarrow> nat \<Rightarrow> u64 \<Rightarrow> mmio_transport" where
  "mmio_write t offset sz value =
     (if offset \<ge> reg_CONFIG_SPACE then write_config t (offset - reg_CONFIG_SPACE) sz value
      else
        let v = ucast value in
        if offset = reg_DEVICE_FEATURES_SEL then t\<lparr>mt_device_features_sel := v\<rparr>
        else if offset = reg_DRIVER_FEATURES then write_driver_features t v
        else if offset = reg_DRIVER_FEATURES_SEL then t\<lparr>mt_driver_features_sel := v\<rparr>
        else if offset = reg_QUEUE_SEL then t\<lparr>mt_queue_sel := v\<rparr>
        else if offset = reg_QUEUE_NUM then with_current_queue t (\<lambda>q. q\<lparr>qc_size := v\<rparr>)
        else if offset = reg_QUEUE_READY then with_current_queue t (\<lambda>q. q\<lparr>qc_ready := (v AND 1 \<noteq> 0)\<rparr>)
        else if offset = reg_QUEUE_NOTIFY then t\<lparr>mt_pending_notify := Some v\<rparr>
        else if offset = reg_INTERRUPT_ACK
          then t\<lparr>mt_interrupt_status := mt_interrupt_status t AND NOT v\<rparr>
        else if offset = reg_STATUS then write_status t v
        else if offset = reg_QUEUE_DESC_LOW
          then with_current_queue t (\<lambda>q. q\<lparr>qc_desc := set_low (qc_desc q) v\<rparr>)
        else if offset = reg_QUEUE_DESC_HIGH
          then with_current_queue t (\<lambda>q. q\<lparr>qc_desc := set_high (qc_desc q) v\<rparr>)
        else if offset = reg_QUEUE_DRIVER_LOW
          then with_current_queue t (\<lambda>q. q\<lparr>qc_driver := set_low (qc_driver q) v\<rparr>)
        else if offset = reg_QUEUE_DRIVER_HIGH
          then with_current_queue t (\<lambda>q. q\<lparr>qc_driver := set_high (qc_driver q) v\<rparr>)
        else if offset = reg_QUEUE_DEVICE_LOW
          then with_current_queue t (\<lambda>q. q\<lparr>qc_device := set_low (qc_device q) v\<rparr>)
        else if offset = reg_QUEUE_DEVICE_HIGH
          then with_current_queue t (\<lambda>q. q\<lparr>qc_device := set_high (qc_device q) v\<rparr>)
        else t)"

subsection \<open>Address halves\<close>

lemma mask_halves:
  "(0x00000000ffffffff :: u64) = mask 32" "(0xffffffff00000000 :: u64) = NOT (mask 32)"
  by (simp_all add: mask_eq_exp_minus_1)

lemma bit_set_low: "bit (set_low a lo) n \<longleftrightarrow> (if n < 32 then bit lo n else bit a n)"
  unfolding set_low_def mask_halves by (auto simp: bit_simps dest: bit_imp_le_length)

lemma bit_set_high: "bit (set_high a hi) n \<longleftrightarrow> (if n < 32 then bit a n else bit hi (n - 32))"
  unfolding set_high_def mask_halves by (auto simp: bit_simps dest: bit_imp_le_length)

lemma set_halves:
  "set_high (set_low x (ucast a)) (ucast (drop_bit 32 a)) = a"
  "set_low (set_high x (ucast (drop_bit 32 a))) (ucast a) = a"
  by (rule bit_word_eqI; auto simp: bit_set_low bit_set_high bit_simps)+

lemma ucast_reg_value [simp]:
  "(ucast (a AND mask 32 :: u64) :: u32) = ucast a" "(ucast (ucast w :: u64) :: u32) = w" for w :: u32
  by (rule bit_word_eqI; simp add: bit_simps)+

lemma ucast_of_bool_AND_1 [simp]: "((ucast (of_bool b :: u64) :: u32) AND 1 \<noteq> 0) = b"
  by (cases b) simp_all

subsection \<open>The contract of the queue registers\<close>

text \<open>The effect of one per-queue register on the configuration it selects.\<close>

definition queue_reg :: "u64 \<Rightarrow> u32 \<Rightarrow> queue_config \<Rightarrow> queue_config" where
  "queue_reg r v q =
     (if r = reg_QUEUE_NUM then q\<lparr>qc_size := v\<rparr>
      else if r = reg_QUEUE_READY then q\<lparr>qc_ready := (v AND 1 \<noteq> 0)\<rparr>
      else if r = reg_QUEUE_DESC_LOW then q\<lparr>qc_desc := set_low (qc_desc q) v\<rparr>
      else if r = reg_QUEUE_DESC_HIGH then q\<lparr>qc_desc := set_high (qc_desc q) v\<rparr>
      else if r = reg_QUEUE_DRIVER_LOW then q\<lparr>qc_driver := set_low (qc_driver q) v\<rparr>
      else if r = reg_QUEUE_DRIVER_HIGH then q\<lparr>qc_driver := set_high (qc_driver q) v\<rparr>
      else if r = reg_QUEUE_DEVICE_LOW then q\<lparr>qc_device := set_low (qc_device q) v\<rparr>
      else q\<lparr>qc_device := set_high (qc_device q) v\<rparr>)"

definition queue_regs :: "u64 set" where
  "queue_regs = {reg_QUEUE_NUM, reg_QUEUE_READY, reg_QUEUE_DESC_LOW, reg_QUEUE_DESC_HIGH,
     reg_QUEUE_DRIVER_LOW, reg_QUEUE_DRIVER_HIGH, reg_QUEUE_DEVICE_LOW, reg_QUEUE_DEVICE_HIGH}"

text \<open>A driver's register writes that set up queue \<open>i\<close>, 32 bits at a time.\<close>

definition address_writes :: "u64 \<Rightarrow> u64 \<Rightarrow> u64 \<Rightarrow> (u64 \<times> u64) list" where
  "address_writes low high a = [(low, a AND mask 32), (high, drop_bit 32 a)]"

definition bring_up_writes :: "u32 \<Rightarrow> queue_config \<Rightarrow> (u64 \<times> u64) list" where
  "bring_up_writes i c =
     [(reg_QUEUE_SEL, ucast i), (reg_QUEUE_NUM, ucast (qc_size c))] @
     address_writes reg_QUEUE_DESC_LOW reg_QUEUE_DESC_HIGH (qc_desc c) @
     address_writes reg_QUEUE_DRIVER_LOW reg_QUEUE_DRIVER_HIGH (qc_driver c) @
     address_writes reg_QUEUE_DEVICE_LOW reg_QUEUE_DEVICE_HIGH (qc_device c) @
     [(reg_QUEUE_READY, of_bool (qc_ready c))]"

definition run_writes :: "('t \<Rightarrow> u64 \<Rightarrow> nat \<Rightarrow> u64 \<Rightarrow> 't) \<Rightarrow> (u64 \<times> u64) list \<Rightarrow> 't \<Rightarrow> 't" where
  "run_writes wr ws t = fold (\<lambda>(r, v) t. wr t r 4 v) ws t"

lemma run_writes_simps [simp]:
  "run_writes wr [] t = t"
  "run_writes wr ((r, v) # ws) t = run_writes wr ws (wr t r 4 v)"
  by (simp_all add: run_writes_def)

locale queue_registers =
  fixes wr :: "'t \<Rightarrow> u64 \<Rightarrow> nat \<Rightarrow> u64 \<Rightarrow> 't"
    and que :: "'t \<Rightarrow> nat \<Rightarrow> queue_config option"
    and sel :: "'t \<Rightarrow> u32"
  assumes write_sel: "sel (wr t reg_QUEUE_SEL 4 v) = ucast v" "que (wr t reg_QUEUE_SEL 4 v) = que t"
    and write_field: "r \<in> queue_regs \<Longrightarrow> sel (wr t r 4 v) = sel t"
      "r \<in> queue_regs \<Longrightarrow> que (wr t r 4 v) =
        (que t)(unat (sel t) := map_option (queue_reg r (ucast v)) (que t (unat (sel t))))"
begin

lemma run_fields:
  assumes "\<forall>(r, v) \<in> set ws. r \<in> queue_regs"
  shows "sel (run_writes wr ws t) = sel t \<and>
    que (run_writes wr ws t) = (que t)(unat (sel t) :=
      map_option (fold (\<lambda>(r, v). queue_reg r (ucast v)) ws) (que t (unat (sel t))))"
  using assms
proof (induction ws arbitrary: t)
  case Nil
  then show ?case by (simp add: option.map_id0 [unfolded id_def])
next
  case (Cons w ws)
  obtain r v where w: "w = (r, v)" by (cases w)
  with Cons.prems have r: "r \<in> queue_regs" and ws: "\<forall>(r, v) \<in> set ws. r \<in> queue_regs" by simp_all
  show ?case
    using Cons.IH [OF ws, of "wr t r 4 v"]
    by (simp add: w write_field [OF r] option.map_comp comp_def cong: if_cong)
qed

lemma bring_up:
  assumes "que t (unat i) = Some old"
  shows "que (run_writes wr (bring_up_writes i c) t) = (que t)(unat i \<mapsto> c)"
proof -
  let ?ws = "tl (bring_up_writes i c)"
  have regs: "\<forall>(r, v) \<in> set ?ws. r \<in> queue_regs"
    by (simp add: bring_up_writes_def address_writes_def queue_regs_def)
  have "fold (\<lambda>(r, v). queue_reg r (ucast v)) ?ws old = c"
    by (simp add: bring_up_writes_def address_writes_def queue_reg_def reg_defs set_halves)
  with assms run_fields [OF regs, of "wr t reg_QUEUE_SEL 4 (ucast i)"] show ?thesis
    by (simp add: bring_up_writes_def write_sel)
qed

end

subsection \<open>The vsock transport\<close>

lemma mmio_queue_with_current:
  "mmio_queue (with_current_queue t f) =
     (mmio_queue t)(unat (mt_queue_sel t) := map_option f (mmio_queue t (unat (mt_queue_sel t))))"
  by (auto simp: mmio_queue_def with_current_queue_def Let_def fun_eq_iff)

lemma with_current_queue_frame [simp]:
  "mt_queue_sel (with_current_queue t f) = mt_queue_sel t"
  "mt_device_id (with_current_queue t f) = mt_device_id t"
  "mt_device_features (with_current_queue t f) = mt_device_features t"
  "length (mt_queues (with_current_queue t f)) = length (mt_queues t)"
  "mt_config (with_current_queue t f) = mt_config t"
  "mt_config_generation (with_current_queue t f) = mt_config_generation t"
  by (simp_all add: with_current_queue_def Let_def)

interpretation vsock_regs: queue_registers mmio_write mmio_queue mt_queue_sel
proof (unfold_locales, goal_cases)
  case (1 t v)
  show ?case by (simp add: mmio_write_def reg_defs)
next
  case (2 t v)
  show ?case by (simp add: mmio_write_def reg_defs mmio_queue_def fun_eq_iff)
next
  case (3 r t v)
  then show ?case by (auto simp: queue_regs_def mmio_write_def reg_defs)
next
  case (4 r t v)
  then show ?case
    by (auto simp: queue_regs_def mmio_write_def reg_defs queue_reg_def [abs_def] mmio_queue_with_current)
qed

text \<open>What no guest write changes.\<close>

definition same_device :: "mmio_transport \<Rightarrow> mmio_transport \<Rightarrow> bool" where
  "same_device t u \<longleftrightarrow> mt_device_id u = mt_device_id t \<and> mt_device_features u = mt_device_features t \<and>
     length (mt_queues u) = length (mt_queues t) \<and> length (mt_config u) = length (mt_config t)"

lemma same_device_trans: "same_device t u \<Longrightarrow> same_device u v \<Longrightarrow> same_device t v"
  by (simp add: same_device_def)

lemma put_byte_length [simp]: "length (fst (put_byte off f i p)) = length (fst p)"
  by (simp add: put_byte_def Let_def split_beta)

lemma config_fold_length [simp]: "length (fst (fold (put_byte off f) is p)) = length (fst p)"
  by (induction "is" arbitrary: p) simp_all

lemma config_fold_wrote: "snd p \<Longrightarrow> snd (fold (put_byte off f) is p)"
  by (induction "is" arbitrary: p) (simp_all add: put_byte_def Let_def split_beta)

lemma write_config_same: "same_device t (write_config t off sz v)"
  by (simp add: same_device_def write_config_def Let_def split_beta)

lemma same_device_if:
  "(b \<Longrightarrow> same_device t u) \<Longrightarrow> (\<not> b \<Longrightarrow> same_device t v) \<Longrightarrow> same_device t (if b then u else v)"
  by simp

lemma mmio_write_same: "same_device t (mmio_write t off sz v)"
  unfolding mmio_write_def Let_def write_driver_features_def write_status_def
  by (intro same_device_if write_config_same) (simp_all add: same_device_def mmio_reset_def)

definition guest_writes :: "(u64 \<times> nat \<times> u64) list \<Rightarrow> mmio_transport \<Rightarrow> mmio_transport" where
  "guest_writes ws t = fold (\<lambda>(off, sz, v) t. mmio_write t off sz v) ws t"

lemma guest_writes_same: "same_device t (guest_writes ws t)"
  unfolding guest_writes_def
proof (induction ws arbitrary: t)
  case Nil
  then show ?case by (simp add: same_device_def)
next
  case (Cons w ws)
  then show ?case by (auto simp: split_beta intro: same_device_trans [OF mmio_write_same])
qed

subsection \<open>Configuration space\<close>

lemma bit_read_fold:
  fixes f :: "nat \<Rightarrow> u8"
  assumes "n \<le> 8"
  shows "bit (fold (\<lambda>i out. out OR push_bit (8 * i mod 64) (ucast (f i))) [0..<n] (0 :: u64)) k \<longleftrightarrow>
    k div 8 < n \<and> bit (f (k div 8)) (k mod 8)"
  using assms
proof (induction n)
  case 0
  then show ?case by simp
next
  case (Suc n)
  have "8 * n mod 64 = 8 * n" using Suc.prems by simp
  moreover have "bit (push_bit (8 * n) (ucast (f n) :: u64)) k \<longleftrightarrow>
      k div 8 = n \<and> bit (f (k div 8)) (k mod 8)"
  proof (cases "k div 8 = n")
    case True
    then have "k - 8 * n = k mod 8" and "8 * n \<le> k" and "k mod 8 < 8" by (auto simp: minus_mult_div_eq_mod)
    moreover have "k < 64" using True Suc.prems by linarith
    ultimately show ?thesis using True by (auto simp: bit_simps)
  next
    case False
    then have "k < 8 * n \<or> 8 * n + 8 \<le> k" by linarith
    then show ?thesis using False by (auto simp: bit_simps dest: bit_imp_le_length)
  qed
  ultimately show ?case
    using Suc by (auto simp: bit_simps less_Suc_eq)
qed

lemma config_index_eq: "unat off + i < 2 ^ 64 \<Longrightarrow> config_index off i = unat off + i"
  by (simp add: config_index_def unat_word_ariths unat_of_nat mod_simps)

lemma read_config_from_le:
  assumes "sz \<le> 8" and "unat off + sz \<le> length (mt_config t)" and "unat off + sz < 2 ^ 64"
  shows "read_config t off sz = from_le (slice_at (unat off) sz (mt_config t))"
proof -
  let ?f = "\<lambda>i. if config_index off i < length (mt_config t) then mt_config t ! config_index off i else 0"
  have "k div 8 < sz \<and> bit (?f (k div 8)) (k mod 8) \<longleftrightarrow>
      bit (from_le (slice_at (unat off) sz (mt_config t)) :: u64) k" for k
  proof (cases "k div 8 < sz")
    case True
    then have "k < 64" using assms(1) by linarith
    with True assms show ?thesis
      by (simp add: config_index_eq bit_from_le slice_at_nth)
  qed (simp add: bit_from_le)
  then show ?thesis
    using bit_read_fold [OF assms(1), of ?f]
    by (intro bit_eqI) (simp add: read_config_def Let_def)
qed

lemma put_byte_nth:
  "fst (put_byte off f i p) ! k =
    (if k = config_index off i \<and> k < length (fst p) then f i else fst p ! k)"
  by (simp add: put_byte_def Let_def split_beta nth_list_update)

lemma write_fold_nth:
  assumes "unat off + n < 2 ^ 64"
  shows "fst (fold (put_byte off f) [0..<n] p) ! k =
    (if unat off \<le> k \<and> k < unat off + n \<and> k < length (fst p) then f (k - unat off) else fst p ! k)"
  using assms
proof (induction n)
  case 0
  then show ?case by auto
next
  case (Suc n)
  have "config_index off n = unat off + n" using Suc.prems by (intro config_index_eq) simp
  then show ?case
    using Suc by (auto simp: put_byte_nth)
qed

lemma write_config_copy:
  assumes "sz \<le> 8" and "unat off + sz \<le> length (mt_config t)" and "unat off + sz < 2 ^ 64"
  shows "mt_config (write_config t off sz v) = copy_into (unat off) (to_le sz v) (mt_config t)"
proof (rule nth_equalityI)
  show len: "length (mt_config (write_config t off sz v)) =
      length (copy_into (unat off) (to_le sz v) (mt_config t))"
    using write_config_same [of t off sz v] assms by (simp add: same_device_def)
  fix k assume "k < length (mt_config (write_config t off sz v))"
  then have k: "k < length (mt_config t)" using write_config_same [of t off sz v] by (simp add: same_device_def)
  have "8 * (k - unat off) mod 64 = 8 * (k - unat off)" if "k < unat off + sz"
    using that assms(1) by simp
  with k assms show "mt_config (write_config t off sz v) ! k = copy_into (unat off) (to_le sz v) (mt_config t) ! k"
    using write_fold_nth [OF assms(3), of "\<lambda>i. ucast (drop_bit (8 * i mod 64) v)" "(mt_config t, False)" k]
    by (auto simp: write_config_def Let_def split_beta copy_into_nth to_le_def)
qed

lemma from_le_to_le_take: "sz \<le> 8 \<Longrightarrow> from_le (to_le sz v) = take_bit (8 * sz) (v :: u64)"
proof (rule bit_eqI)
  fix k assume "sz \<le> 8"
  moreover have "k div 8 < sz \<longleftrightarrow> k < 8 * sz" by (simp add: less_mult_imp_div_less div_less_iff_less_mult mult.commute)
  moreover have "8 * (k div 8) + k mod 8 = k" by simp
  ultimately show "bit (from_le (to_le sz v) :: u64) k = bit (take_bit (8 * sz) v) k"
    by (auto simp: bit_from_le to_le_def bit_simps)
qed

subsection \<open>Properties\<close>

text \<open>
  A driver that runs the bring-up sequence (select a queue, write its size, the low and high
  halves of its three ring addresses, and its ready bit) leaves exactly that configuration in the
  queue it selected, whatever was there before, and every other queue as it was. A selector
  past the last queue has no effect on any queue.
\<close>

theorem vsock_queue_bring_up:
  "mmio_queue (run_writes mmio_write (bring_up_writes i c) t) =
     (if unat i < length (mt_queues t) then (mmio_queue t)(unat i \<mapsto> c) else mmio_queue t)"
proof (cases "mmio_queue t (unat i)")
  case None
  let ?ws = "tl (bring_up_writes i c)"
  have regs: "\<forall>(r, v) \<in> set ?ws. r \<in> queue_regs"
    by (simp add: bring_up_writes_def address_writes_def queue_regs_def)
  have "mmio_queue (run_writes mmio_write (bring_up_writes i c) t) = mmio_queue t"
    using None vsock_regs.run_fields [OF regs, of "mmio_write t reg_QUEUE_SEL 4 (ucast i)"]
    by (simp add: bring_up_writes_def vsock_regs.write_sel fun_upd_idem)
  with None show ?thesis by (simp add: mmio_queue_def split: if_splits)
next
  case (Some old)
  then show ?thesis
    using vsock_regs.bring_up [OF Some, of c] by (simp add: mmio_queue_def split: if_splits)
qed

text \<open>
  The guest cannot change what the device is. Whatever offsets, sizes and values it writes,
  in any order, the device id, the offered features, the number of queues and the size of the
  configuration space stay those of the constructor, so the identity registers keep reading the
  same values.
\<close>

theorem guest_writes_keep_identity:
  "let t = guest_writes ws (new_vsock cid) in
   mmio_read t reg_MAGIC sz = 0x74726976 \<and> mmio_read t reg_VERSION sz = 2 \<and>
   mmio_read t reg_DEVICE_ID sz = 19 \<and> mmio_read t reg_QUEUE_NUM_MAX sz = 256 \<and>
   mt_device_features t = VIRTIO_F_VERSION_1 \<and> length (mt_queues t) = 3 \<and> length (mt_config t) = 8"
  using guest_writes_same [of "new_vsock cid" ws]
  by (simp add: same_device_def new_vsock_def Let_def mmio_read_def reg_defs VIRTIO_ID_VSOCK_def
      VIRTIO_MMIO_MAGIC_def VIRTIO_MMIO_VERSION_def QUEUE_SIZE_MAX_def VIRTIO_VSOCK_NUM_QUEUES_def)

text \<open>
  Reset is complete. After any guest writes, writing zero to the status register puts the
  transport back in its power-on state, with no queue, feature, selector, interrupt or pending
  notification left over; the configuration space and its generation alone are kept.
\<close>

theorem reset_restores_power_on:
  "let t = guest_writes ws (new_vsock cid) in
   mmio_write t reg_STATUS 4 0 =
     (new_vsock cid)\<lparr>mt_config := mt_config t, mt_config_generation := mt_config_generation t\<rparr>"
proof -
  let ?t = "guest_writes ws (new_vsock cid)"
  have "map (\<lambda>q. QueueConfig_default) (mt_queues ?t) = replicate 3 QueueConfig_default"
    using guest_writes_same [of "new_vsock cid" ws]
    by (simp add: same_device_def new_vsock_def VIRTIO_VSOCK_NUM_QUEUES_def map_replicate_const)
  moreover have "mt_device_id ?t = VIRTIO_ID_VSOCK" and "mt_device_features ?t = VIRTIO_F_VERSION_1"
    using guest_writes_same [of "new_vsock cid" ws] by (simp_all add: same_device_def new_vsock_def)
  ultimately show ?thesis
    by (simp add: mmio_write_def reg_defs write_status_def mmio_reset_def new_vsock_def Let_def
        VIRTIO_VSOCK_NUM_QUEUES_def)
qed

text \<open>
  Configuration space is memory: a write of at most eight bytes inside it changes exactly
  those bytes, is read back, and bumps the generation so that a driver can detect it.
\<close>

theorem config_space_roundtrip:
  assumes "reg_CONFIG_SPACE \<le> off" and "0 < sz" and "sz \<le> 8"
    and "unat (off - reg_CONFIG_SPACE) + sz \<le> length (mt_config t)" and "length (mt_config t) < 2 ^ 64"
  shows "mmio_read (mmio_write t off sz v) off sz = take_bit (8 * sz) v \<and>
    mmio_write t off sz v =
      t\<lparr>mt_config := copy_into (unat (off - reg_CONFIG_SPACE)) (to_le sz v) (mt_config t),
        mt_config_generation := mt_config_generation t + 1\<rparr>"
proof -
  let ?o = "off - reg_CONFIG_SPACE"
  have b: "unat ?o + sz < 2 ^ 64" using assms(4,5) by linarith
  have copy: "mt_config (write_config t ?o sz v) = copy_into (unat ?o) (to_le sz v) (mt_config t)"
    by (rule write_config_copy [OF assms(3,4) b])
  have idx: "config_index ?o 0 < length (mt_config t)"
    using assms(2,4) by (simp add: config_index_def)
  have "snd (put_byte ?o f 0 (mt_config t, b))" for f b
    using idx by (simp add: put_byte_def)
  then have w: "write_config t ?o sz v =
      t\<lparr>mt_config := mt_config (write_config t ?o sz v), mt_config_generation := mt_config_generation t + 1\<rparr>"
    using assms(2) by (simp add: write_config_def Let_def split_beta upt_conv_Cons config_fold_wrote)
  have r: "read_config (write_config t ?o sz v) ?o sz = take_bit (8 * sz) v"
    using assms(3,4) b
    by (simp add: read_config_from_le copy slice_copy_into_same from_le_to_le_take)
  from assms(1) r w copy show ?thesis by (simp add: mmio_read_def mmio_write_def)
qed

theorem config_space_roundtrip_witness:
  "mmio_read (mmio_write (new_vsock 3) 0x102 2 0xabcdef) 0x102 2 = 0xcdef"
proof -
  have "length (mt_config (new_vsock 3)) = 8" by (simp add: new_vsock_def)
  then have "mmio_read (mmio_write (new_vsock 3) 0x102 2 0xabcdef) 0x102 2 = take_bit (8 * 2) 0xabcdef"
    by (intro conjunct1 [OF config_space_roundtrip]) (simp_all add: reg_CONFIG_SPACE_def)
  then show ?thesis by (simp add: take_bit_eq_mod)
qed

text \<open>
  The interrupt line follows the status register: after the device raises the used-buffer
  interrupt the line is asserted, and it is deasserted exactly when the driver acknowledges every
  pending bit; acknowledging what it reads from \<^verbatim>\<open>InterruptStatus\<close> changes nothing else.
\<close>

theorem interrupt_ack_exact:
  "interrupt_asserted (raise_interrupt t) \<and>
   (interrupt_asserted (mmio_write t reg_INTERRUPT_ACK sz v) \<longleftrightarrow>
      mt_interrupt_status t AND NOT (ucast v) \<noteq> 0) \<and>
   mmio_write t reg_INTERRUPT_ACK sz (mmio_read t reg_INTERRUPT_STATUS sz) = t\<lparr>mt_interrupt_status := 0\<rparr>"
proof -
  have "mt_interrupt_status t OR 1 \<noteq> 0"
  proof
    assume "mt_interrupt_status t OR 1 = 0"
    then have "bit (mt_interrupt_status t OR 1) 0 = bit (0 :: u32) 0" by simp
    then show False by (simp add: bit_or_iff)
  qed
  then show ?thesis
    by (simp add: interrupt_asserted_def raise_interrupt_def VIRTIO_MMIO_INT_VRING_def mmio_write_def
        mmio_read_def reg_defs Let_def)
qed

end
