(* ===== verification/Vsock_Queue.thy ===== *)
theory Vsock_Queue
  imports Guest_Memory Virtio_Mmio
begin

text \<open>
  Split-virtqueue traversal of the vsock device (\<^verbatim>\<open>crates/virtio-vsock/src/queue.rs\<close>):
  \<open>SplitQueue\<close> with its two cursors, popping available chains, collecting a chain from guest
  memory, completing chains on the used ring, and gathering and scattering the bytes of a chain.
  Guest memory is any dictionary \<open>mem_ops\<close>; the results hold for every memory that keeps the
  contract \<open>guest_ram\<close>. The adapter of \<^verbatim>\<open>crates/vm-kvm/src/lib.rs\<close> from the
  memory library's slices to this trait is \<open>GuestRamMem\<close>, with that library as its argument.

  An operation that writes guest memory returns the memory next to its result, since memory
  written before an error stays written.
\<close>

subsection \<open>Model\<close>

definition VIRTQ_DESC_F_NEXT :: u16 where "VIRTQ_DESC_F_NEXT = 1"
definition VIRTQ_DESC_F_WRITE :: u16 where "VIRTQ_DESC_F_WRITE = 2"
definition VIRTQ_DESC_F_INDIRECT :: u16 where "VIRTQ_DESC_F_INDIRECT = 4"
definition DESC_ENTRY_LEN :: u64 where "DESC_ENTRY_LEN = 16"
definition USED_ENTRY_LEN :: u64 where "USED_ENTRY_LEN = 8"
definition MAX_QUEUE_SIZE_u32 :: u32 where "MAX_QUEUE_SIZE_u32 = push_bit 15 1"

datatype vq_error =
    OutOfBounds u64 nat
  | BadDescriptor u16
  | ChainTooLong
  | IndirectUnsupported

record vq_descriptor =
  vd_addr :: u64
  vd_len :: u32
  vd_writable :: bool

record desc_chain =
  dc_head :: u16
  dc_descriptors :: "vq_descriptor list"

type_synonym 'm vq_mem = "(vq_error, 'm) mem_ops"

definition readable_len :: "desc_chain \<Rightarrow> nat" where
  "readable_len c = sum_list (map (\<lambda>d. unat (vd_len d)) (filter (\<lambda>d. \<not> vd_writable d) (dc_descriptors c)))"

definition writable_len :: "desc_chain \<Rightarrow> nat" where
  "writable_len c = sum_list (map (\<lambda>d. unat (vd_len d)) (filter vd_writable (dc_descriptors c)))"

primrec gather :: "('e, 'm) mem_ops \<Rightarrow> 'm \<Rightarrow> vq_descriptor list \<Rightarrow> ('e, bytes) result" where
  "gather R mem [] = Ok []"
| "gather R mem (d # ds) =
     and_then (mem_read R mem (vd_addr d) (unat (vd_len d))) (\<lambda>scratch.
     and_then (gather R mem ds) (\<lambda>rest. Ok (scratch @ rest)))"

definition read_readable :: "'m vq_mem \<Rightarrow> desc_chain \<Rightarrow> 'm \<Rightarrow> (vq_error, bytes) result" where
  "read_readable R c mem = gather R mem (filter (\<lambda>d. \<not> vd_writable d) (dc_descriptors c))"

primrec scatter ::
    "('e, 'm) mem_ops \<Rightarrow> bytes \<Rightarrow> vq_descriptor list \<Rightarrow> 'm \<Rightarrow> nat \<Rightarrow> 'm \<times> ('e, nat) result" where
  "scatter R src [] mem off = (mem, Ok off)"
| "scatter R src (d # ds) mem off =
     (if off \<ge> length src then (mem, Ok off)
      else let take = min (unat (vd_len d)) (length src - off)
      in case mem_write R mem (vd_addr d) (slice_at off take src) of
           Err e \<Rightarrow> (mem, Err e)
         | Ok mem \<Rightarrow> scatter R src ds mem (off + take))"

definition write_writable ::
    "'m vq_mem \<Rightarrow> desc_chain \<Rightarrow> 'm \<Rightarrow> bytes \<Rightarrow> 'm \<times> (vq_error, nat) result" where
  "write_writable R c mem src = scatter R src (filter vd_writable (dc_descriptors c)) mem 0"

record split_queue =
  sq_size :: u16
  sq_desc :: u64
  sq_avail :: u64
  sq_used :: u64
  sq_next_avail :: u16
  sq_next_used :: u16

definition SplitQueue_new :: "queue_config \<Rightarrow> split_queue option" where
  "SplitQueue_new cfg =
     (if \<not> qc_ready cfg \<or> qc_size cfg = 0 \<or> qc_size cfg > MAX_QUEUE_SIZE_u32 \<or>
         \<not> is_power_of_two (qc_size cfg)
      then None
      else Some \<lparr>sq_size = ucast (qc_size cfg), sq_desc = qc_desc cfg, sq_avail = qc_driver cfg,
                 sq_used = qc_device cfg, sq_next_avail = 0, sq_next_used = 0\<rparr>)"

definition read_u16 :: "'m vq_mem \<Rightarrow> 'm \<Rightarrow> u64 \<Rightarrow> (vq_error, u16) result" where
  "read_u16 R mem gpa = and_then (mem_read R mem gpa 2) (\<lambda>b. Ok (from_le b))"

definition read_u32 :: "'m vq_mem \<Rightarrow> 'm \<Rightarrow> u64 \<Rightarrow> (vq_error, u32) result" where
  "read_u32 R mem gpa = and_then (mem_read R mem gpa 4) (\<lambda>b. Ok (from_le b))"

definition read_u64 :: "'m vq_mem \<Rightarrow> 'm \<Rightarrow> u64 \<Rightarrow> (vq_error, u64) result" where
  "read_u64 R mem gpa = and_then (mem_read R mem gpa 8) (\<lambda>b. Ok (from_le b))"

definition write_u16 :: "'m vq_mem \<Rightarrow> 'm \<Rightarrow> u64 \<Rightarrow> u16 \<Rightarrow> (vq_error, 'm) result" where
  "write_u16 R mem gpa v = mem_write R mem gpa (to_le 2 v)"

definition write_u32 :: "'m vq_mem \<Rightarrow> 'm \<Rightarrow> u64 \<Rightarrow> u32 \<Rightarrow> (vq_error, 'm) result" where
  "write_u32 R mem gpa v = mem_write R mem gpa (to_le 4 v)"

text \<open>The loop \<^verbatim>\<open>for _ in 0..self.size\<close> of \<^verbatim>\<open>collect_chain\<close>, with the iterations left.\<close>

primrec collect_loop ::
    "'m vq_mem \<Rightarrow> split_queue \<Rightarrow> 'm \<Rightarrow> nat \<Rightarrow> u16 \<Rightarrow> (vq_error, vq_descriptor list) result" where
  "collect_loop R q mem 0 idx = Err ChainTooLong"
| "collect_loop R q mem (Suc n) idx =
     (if idx \<ge> sq_size q then Err (BadDescriptor idx)
      else
        let entry = sq_desc q + DESC_ENTRY_LEN * ucast idx in
        and_then (read_u64 R mem entry) (\<lambda>addr.
        and_then (read_u32 R mem (entry + 8)) (\<lambda>len.
        and_then (read_u16 R mem (entry + 12)) (\<lambda>flags.
        and_then (read_u16 R mem (entry + 14)) (\<lambda>next.
          if flags AND VIRTQ_DESC_F_INDIRECT \<noteq> 0 then Err IndirectUnsupported
          else
            let d = \<lparr>vd_addr = addr, vd_len = len, vd_writable = (flags AND VIRTQ_DESC_F_WRITE \<noteq> 0)\<rparr> in
            if flags AND VIRTQ_DESC_F_NEXT = 0 then Ok [d]
            else and_then (collect_loop R q mem n next) (\<lambda>ds. Ok (d # ds)))))))"

definition collect_chain ::
    "'m vq_mem \<Rightarrow> split_queue \<Rightarrow> 'm \<Rightarrow> u16 \<Rightarrow> (vq_error, vq_descriptor list) result" where
  "collect_chain R q mem head = collect_loop R q mem (unat (sq_size q)) head"

definition pop_avail ::
    "'m vq_mem \<Rightarrow> split_queue \<Rightarrow> 'm \<Rightarrow> split_queue \<times> (vq_error, desc_chain option) result" where
  "pop_avail R q mem =
     (case read_u16 R mem (sq_avail q + 2) of
        Err e \<Rightarrow> (q, Err e)
      | Ok avail_idx \<Rightarrow>
          if sq_next_avail q = avail_idx then (q, Ok None)
          else let slot = ucast (sq_next_avail q mod sq_size q) in
          case read_u16 R mem (sq_avail q + 4 + 2 * slot) of
            Err e \<Rightarrow> (q, Err e)
          | Ok head \<Rightarrow>
              if head \<ge> sq_size q then (q, Err (BadDescriptor head))
              else case collect_chain R q mem head of
                Err e \<Rightarrow> (q, Err e)
              | Ok ds \<Rightarrow>
                  (q\<lparr>sq_next_avail := sq_next_avail q + 1\<rparr>,
                   Ok (Some \<lparr>dc_head = head, dc_descriptors = ds\<rparr>)))"

definition push_used ::
    "'m vq_mem \<Rightarrow> split_queue \<Rightarrow> 'm \<Rightarrow> u16 \<Rightarrow> u32 \<Rightarrow> split_queue \<times> 'm \<times> (vq_error, unit) result" where
  "push_used R q mem head len =
     (let slot = ucast (sq_next_used q mod sq_size q);
          elem = sq_used q + 4 + USED_ENTRY_LEN * slot
      in case write_u32 R mem elem (ucast head) of
           Err e \<Rightarrow> (q, mem, Err e)
         | Ok mem \<Rightarrow>
             case write_u32 R mem (elem + 4) len of
               Err e \<Rightarrow> (q, mem, Err e)
             | Ok mem \<Rightarrow>
                 let q = q\<lparr>sq_next_used := sq_next_used q + 1\<rparr> in
                 case write_u16 R mem (sq_used q + 2) (sq_next_used q) of
                   Err e \<Rightarrow> (q, mem, Err e)
                 | Ok mem \<Rightarrow> (q, mem, Ok ()))"

text \<open>
  \<^verbatim>\<open>GuestRamMem\<close> of \<^verbatim>\<open>vm-kvm\<close>: the slices of the memory library with every error turned
  into \<^verbatim>\<open>OutOfBounds\<close>.
\<close>

definition GuestRamMem :: "('x, 'm) mem_ops \<Rightarrow> 'm vq_mem" where
  "GuestRamMem L =
     \<lparr>mem_read = (\<lambda>m gpa n. map_err (\<lambda>_. OutOfBounds gpa n) (mem_read L m gpa n)),
      mem_write = (\<lambda>m gpa b. map_err (\<lambda>_. OutOfBounds gpa (length b)) (mem_write L m gpa b))\<rparr>"

lemma map_err_iff [simp]:
  "map_err f r = Inr x \<longleftrightarrow> r = Inr x"
  "is_ok (map_err f r) \<longleftrightarrow> is_ok r"
  by (cases r; simp)+

context guest_ram
begin

lemma adapted: "guest_ram (GuestRamMem R)"
proof (unfold_locales, goal_cases)
  case (1 m a n b)
  then show ?case by (simp add: GuestRamMem_def read_length)
next
  case (2 m a b m')
  then show ?case by (simp add: GuestRamMem_def write_read)
next
  case (3 m a b m' a2 n)
  then show ?case using write_frame [of m a b m' a2 n] by (simp add: GuestRamMem_def)
next
  case (4 m a b)
  then show ?case by (simp add: GuestRamMem_def write_ok_iff)
next
  case (5 m a b m' a2 n)
  then show ?case using write_domain [of m a b m' a2 n] by (simp add: GuestRamMem_def)
next
  case (6 m a n b k i)
  then show ?case using read_part [of m a n b k i] by (simp add: GuestRamMem_def)
qed

end

subsection \<open>Queues over a guest memory\<close>

text \<open>The guest's descriptor table as the virtqueue crate parses it.\<close>

definition table_at :: "'m vq_mem \<Rightarrow> 'm \<Rightarrow> split_queue \<Rightarrow> descriptor list \<Rightarrow> bool" where
  "table_at R m q tbl \<longleftrightarrow> (\<exists>buf. mem_read R m (sq_desc q) (desc_table_size (sq_size q)) = Ok buf \<and>
     parse_descriptor_table buf (sq_size q) = Ok tbl)"

definition vq_of :: "descriptor \<Rightarrow> vq_descriptor" where
  "vq_of d = \<lparr>vd_addr = desc_addr d, vd_len = desc_len d, vd_writable = is_writable d\<rparr>"

lemma unat_scaled: "unat (c * ucast (i :: u16) :: u64) = unat c * unat i" if "unat c \<le> 16"
proof -
  have "unat i < 2 ^ LENGTH(16)" by (rule unsigned_less)
  then have "unat i \<le> 2 ^ 16" by simp
  then have "unat c * unat i \<le> 16 * 2 ^ 16" using that by (intro mult_le_mono) simp_all
  moreover have "unat (ucast i :: u64) = unat i"
    using \<open>unat i \<le> 2 ^ 16\<close> by (simp add: unsigned_ucast_eq take_bit_nat_eq_self)
  ultimately show ?thesis by (simp add: unat_word_ariths)
qed

text \<open>Two buffers of guest memory that do not overlap.\<close>

definition apart :: "vq_descriptor \<Rightarrow> vq_descriptor \<Rightarrow> bool" where
  "apart d e \<longleftrightarrow> unat (vd_addr d) + unat (vd_len d) \<le> unat (vd_addr e) \<or>
     unat (vd_addr e) + unat (vd_len e) \<le> unat (vd_addr d)"

abbreviation capacity :: "vq_descriptor list \<Rightarrow> nat" where
  "capacity ds \<equiv> sum_list (map (\<lambda>d. unat (vd_len d)) ds)"

text \<open>Scattering bytes over disjoint buffers.\<close>

context guest_ram
begin

lemma gather_cong:
  "(\<And>d. d \<in> set ds \<Longrightarrow>
      mem_read R m' (vd_addr d) (unat (vd_len d)) = mem_read R m (vd_addr d) (unat (vd_len d))) \<Longrightarrow>
    gather R m' ds = gather R m ds"
  by (induction ds) auto

lemma gather_length: "gather R m ds = Inr b \<Longrightarrow> length b = capacity ds"
  by (induction ds arbitrary: b) (auto simp: and_then_eqs read_length)

lemma scatter_done: "length src \<le> off \<Longrightarrow> scatter R src ds m off = (m, Inr off)"
  by (cases ds) simp_all

lemma scatter_gather:
  assumes "gather R m ds = Inr old" and "sorted_wrt apart ds" and "off \<le> length src"
  defines "n \<equiv> min (off + capacity ds) (length src)"
  shows "\<exists>m'. scatter R src ds m off = (m', Inr n) \<and>
    gather R m' ds = Inr (slice_at off (n - off) src @ drop (n - off) old) \<and>
    (\<forall>a k. (\<forall>d \<in> set ds. unat a + k \<le> unat (vd_addr d) \<or> unat (vd_addr d) + unat (vd_len d) \<le> unat a) \<longrightarrow>
       mem_read R m' a k = mem_read R m a k)"
  using assms(1-3) unfolding n_def
proof (induction ds arbitrary: m old off)
  case Nil
  then show ?case by (simp add: slice_at_def)
next
  case (Cons d ds)
  let ?len = "unat (vd_len d)"
  from Cons.prems(1) obtain b rest where b: "mem_read R m (vd_addr d) ?len = Inr b"
    and rest: "gather R m ds = Inr rest" and old: "old = b @ rest"
    by (auto simp: and_then_eqs)
  have lb: "length b = ?len" by (rule read_length [OF b])
  show ?case
  proof (cases "off = length src")
    case True
    then show ?thesis using Cons.prems(1) by (auto simp: scatter_done slice_at_def)
  next
    case False
    define k where "k = min ?len (length src - off)"
    define v where "v = slice_at off k src"
    have v: "length v = k" "k \<le> ?len" "off + k \<le> length src"
      using Cons.prems(3) by (auto simp: v_def k_def)
    have "0 < k \<or> ?len = 0" using False Cons.prems(3) by (auto simp: k_def)
    then have "is_ok (mem_read R m (vd_addr d) (length v))"
      using read_prefix_ok [OF b, of k] v by auto
    then obtain m1 where m1: "mem_write R m (vd_addr d) v = Inr m1"
      using write_total by blast
    have frame: "mem_read R m1 a j = mem_read R m a j"
      if "unat a + j \<le> unat (vd_addr d) \<or> unat (vd_addr d) + ?len \<le> unat a" for a j
      using write_frame [OF m1, of a j] that v by auto
    from Cons.prems(2) have ap: "\<forall>e \<in> set ds. apart d e" and sorted: "sorted_wrt apart ds" by simp_all
    have "gather R m1 ds = Inr rest"
      using rest gather_cong [of ds m1 m] frame ap unfolding apart_def by fastforce
    then obtain m' where sc: "scatter R src ds m1 (off + k) = (m', Inr (min (off + k + capacity ds) (length src)))"
      and g: "gather R m' ds = Inr (slice_at (off + k) (min (off + k + capacity ds) (length src) - (off + k)) src @
        drop (min (off + k + capacity ds) (length src) - (off + k)) rest)"
      and fr: "\<And>a j. \<forall>d \<in> set ds. unat a + j \<le> unat (vd_addr d) \<or> unat (vd_addr d) + unat (vd_len d) \<le> unat a \<Longrightarrow>
        mem_read R m' a j = mem_read R m1 a j"
      using Cons.IH [OF _ sorted v(3)] by blast
    have rd: "mem_read R m' (vd_addr d) ?len = Inr (v @ drop k b)"
      using fr [of "vd_addr d" ?len] ap read_prefix_write [OF b m1] v unfolding apart_def by auto
    let ?n = "min (off + capacity (d # ds)) (length src)"
    have n: "min (off + k + capacity ds) (length src) = ?n" by (auto simp: k_def)
    have bytes: "v @ drop k b @ slice_at (off + k) (?n - (off + k)) src @ drop (?n - (off + k)) rest =
        slice_at off (?n - off) src @ drop (?n - off) old"
    proof (cases "k = ?len")
      case True
      then have "?n - off = k + (?n - (off + k))" using v(3) by auto
      then show ?thesis
        using True lb slice_append_adj [of off k src "?n - (off + k)"] by (simp add: old v_def)
    next
      case False
      then have "?n - off = k" and "?n - (off + k) = 0" using v(3) by (auto simp: k_def)
      then show ?thesis using lb v(2) by (simp add: old v_def slice_at_def)
    qed
    have "scatter R src (d # ds) m off = (m', Inr ?n)"
      using False Cons.prems(3) m1 sc n by (simp add: k_def v_def Let_def)
    moreover have "gather R m' (d # ds) = Inr (slice_at off (?n - off) src @ drop (?n - off) old)"
      using rd g bytes unfolding n by simp
    ultimately show ?thesis using frame fr by (intro exI [of _ m']) auto
  qed
qed

end

locale vq_ram = guest_ram R for R :: "'m vq_mem"
begin

lemma read_u16_part:
  "mem_read R m a n = Inr b \<Longrightarrow> i + 2 \<le> n \<Longrightarrow> read_u16 R m (a + of_nat i) = Inr (from_le (slice_at i 2 b))"
  using read_part [of m a n b 2 i] by (simp add: read_u16_def)

lemma read_u32_part:
  "mem_read R m a n = Inr b \<Longrightarrow> i + 4 \<le> n \<Longrightarrow> read_u32 R m (a + of_nat i) = Inr (from_le (slice_at i 4 b))"
  using read_part [of m a n b 4 i] by (simp add: read_u32_def)

lemma read_u64_part:
  "mem_read R m a n = Inr b \<Longrightarrow> i + 8 \<le> n \<Longrightarrow> read_u64 R m (a + of_nat i) = Inr (from_le (slice_at i 8 b))"
  using read_part [of m a n b 8 i] by (simp add: read_u64_def)

lemma read_entry:
  assumes "table_at R m q tbl" and "idx < sq_size q"
  defines "entry \<equiv> sq_desc q + DESC_ENTRY_LEN * ucast idx"
  shows "length tbl = unat (sq_size q)"
    and "read_u64 R m entry = Inr (desc_addr (tbl ! unat idx))"
    and "read_u32 R m (entry + 8) = Inr (desc_len (tbl ! unat idx))"
    and "read_u16 R m (entry + 12) = Inr (desc_flags (tbl ! unat idx))"
    and "read_u16 R m (entry + 14) = Inr (desc_next (tbl ! unat idx))"
proof -
  obtain buf where r: "mem_read R m (sq_desc q) (16 * unat (sq_size q)) = Inr buf"
    and p: "parse_descriptor_table buf (sq_size q) = Inr tbl"
    using assms(1) by (auto simp: table_at_def desc_table_size_def DESC_SIZE_def mult.commute)
  from p show len: "length tbl = unat (sq_size q)" by (simp add: parse_descriptor_table_iff)
  have buf: "concat (map Descriptor_to_bytes tbl) = buf"
    using p read_length [OF r]
    by (simp add: parse_descriptor_table_iff desc_table_size_def DESC_SIZE_def mult.commute)
  have i: "unat idx < unat (sq_size q)" using assms(2) by (simp add: word_less_nat_alt)
  have fit: "16 * unat idx + 16 \<le> 16 * unat (sq_size q)" using i by linarith
  have enc: "slice_at (16 * unat idx) 16 buf = Descriptor_to_bytes (tbl ! unat idx)"
    using desc_codec.slice_concat_enc [of "unat idx" tbl "[]"] i len
    by (simp add: buf DESC_SIZE_def mult.commute list_all_iff)
  have sub: "slice_at (16 * unat idx + k) n buf = slice_at k n (Descriptor_to_bytes (tbl ! unat idx))"
    if "k + n \<le> 16" for k n
    using slice_slice [OF that, of "16 * unat idx" buf] by (simp add: enc)
  have "DESC_ENTRY_LEN * ucast idx = of_nat (16 * unat idx)"
    by (simp add: DESC_ENTRY_LEN_def)
  then have addr: "entry + of_nat k = sq_desc q + of_nat (16 * unat idx + k)" for k
    by (simp add: entry_def add.assoc)
  show "read_u64 R m entry = Inr (desc_addr (tbl ! unat idx))"
    using read_u64_part [OF r, of "16 * unat idx + 0"] fit addr [of 0] sub [of 0 8]
    by (simp add: Descriptor_to_bytes_def slice_at_def add.assoc)
  show "read_u32 R m (entry + 8) = Inr (desc_len (tbl ! unat idx))"
    using read_u32_part [OF r, of "16 * unat idx + 8"] fit addr [of 8] sub [of 8 4]
    by (simp add: Descriptor_to_bytes_def slice_at_def add.assoc)
  show "read_u16 R m (entry + 12) = Inr (desc_flags (tbl ! unat idx))"
    using read_u16_part [OF r, of "16 * unat idx + 12"] fit addr [of 12] sub [of 12 2]
    by (simp add: Descriptor_to_bytes_def slice_at_def add.assoc)
  show "read_u16 R m (entry + 14) = Inr (desc_next (tbl ! unat idx))"
    using read_u16_part [OF r, of "16 * unat idx + 14"] fit addr [of 14] sub [of 14 2]
    by (simp add: Descriptor_to_bytes_def slice_at_def add.assoc)
qed

lemma collect_loop_step:
  assumes "table_at R m q tbl" and "idx < sq_size q" and "d = tbl ! unat idx"
  shows "collect_loop R q m (Suc n) idx =
    (if is_indirect d then Err IndirectUnsupported
     else if has_next d then and_then (collect_loop R q m n (desc_next d)) (\<lambda>ds. Ok (vq_of d # ds))
     else Ok [vq_of d])"
  using read_entry [OF assms(1,2)] assms(3) linorder_not_le [THEN iffD2, OF assms(2)]
  by (simp add: Let_def is_indirect_def has_next_def is_writable_def vq_of_def VIRTQ_DESC_F_INDIRECT_def
      VIRTQ_DESC_F_NEXT_def VIRTQ_DESC_F_WRITE_def DESC_F_INDIRECT_def DESC_F_NEXT_def DESC_F_WRITE_def)

lemma collect_loop_Ok_iff:
  assumes t: "table_at R m q tbl"
  shows "collect_loop R q m n idx = Inr ds \<longleftrightarrow>
    (\<exists>p. chain_path tbl idx p \<and> length p \<le> n \<and> list_all (\<lambda>d. \<not> is_indirect d) p \<and> ds = map vq_of p)"
proof (induction n arbitrary: idx ds)
  case 0
  show ?case by (auto elim: chain_path.cases)
next
  case (Suc n)
  show ?case
  proof (cases "idx < sq_size q")
    case False
    have "length tbl = unat (sq_size q)"
      using t by (auto simp: table_at_def parse_descriptor_table_iff)
    with False have "\<not> chain_path tbl idx p" for p
      by (auto dest: chain_path_head simp: word_less_nat_alt)
    with False show ?thesis by (simp add: not_less)
  next
    case True
    let ?d = "tbl ! unat idx"
    have b: "unat idx < length tbl"
      using read_entry(1) [OF t True] True by (simp add: word_less_nat_alt)
    have path: "chain_path tbl idx p \<longleftrightarrow>
        (if has_next ?d then \<exists>p'. p = ?d # p' \<and> chain_path tbl (desc_next ?d) p' else p = [?d])" for p
      using b by (auto intro: chain_path.intros elim: chain_path.cases)
    show ?thesis
      using Suc.IH
      by (auto simp: collect_loop_step [OF t True refl] path and_then_eqs simp del: collect_loop.simps)
  qed
qed

lemma collect_chain_Ok_iff:
  assumes "table_at R m q tbl"
  shows "collect_chain R q m head = Inr ds \<longleftrightarrow>
    (\<exists>p. chain_path tbl head p \<and> list_all (\<lambda>d. \<not> is_indirect d) p \<and> ds = map vq_of p)"
proof -
  have "length tbl = unat (sq_size q)"
    using assms by (auto simp: table_at_def parse_descriptor_table_iff)
  then show ?thesis
    using chain_path_length [of tbl head]
    by (auto simp: collect_chain_def collect_loop_Ok_iff [OF assms])
qed

text \<open>Completing a chain: the element is written first, the index the guest polls last.\<close>

lemma push_used_addresses:
  assumes "unat (sq_used q) + 4 + 8 * unat (sq_size q) \<le> 2 ^ 64" and "sq_size q \<noteq> 0"
  defines "slot \<equiv> unat (sq_next_used q) mod unat (sq_size q)"
    and "elem \<equiv> sq_used q + 4 + USED_ENTRY_LEN * ucast (sq_next_used q mod sq_size q)"
  shows "unat elem = unat (sq_used q) + 4 + 8 * slot"
    and "unat (elem + 4) = unat (sq_used q) + 4 + 8 * slot + 4"
    and "unat (sq_used q + 2) = unat (sq_used q) + 2"
    and "slot < unat (sq_size q)"
proof -
  have s: "unat (sq_next_used q mod sq_size q) = slot" by (simp add: slot_def unat_mod)
  show lt: "slot < unat (sq_size q)" using assms(2) by (simp add: slot_def unat_gt_0)
  have "unat (USED_ENTRY_LEN * ucast (sq_next_used q mod sq_size q)) = 8 * slot"
    by (simp add: unat_scaled USED_ENTRY_LEN_def s)
  moreover have "unat (sq_used q + 4) = unat (sq_used q) + 4"
    using assms(1) lt by (simp add: unat_word_ariths)
  ultimately show "unat elem = unat (sq_used q) + 4 + 8 * slot"
    using assms(1) lt by (simp add: elem_def unat_word_ariths(1) [of "sq_used q + 4"])
  then show "unat (elem + 4) = unat (sq_used q) + 4 + 8 * slot + 4"
    using assms(1) lt by (simp add: unat_word_ariths)
  show "unat (sq_used q + 2) = unat (sq_used q) + 2"
    using assms(1) lt by (simp add: unat_word_ariths)
qed

lemma push_used_Ok:
  assumes "push_used R q m head len = (q', m', Inr ())"
  obtains m1 m2 elem where
    "elem = sq_used q + 4 + USED_ENTRY_LEN * ucast (sq_next_used q mod sq_size q)"
    "mem_write R m elem (to_le 4 (ucast head :: u32)) = Inr m1"
    "mem_write R m1 (elem + 4) (to_le 4 len) = Inr m2"
    "mem_write R m2 (sq_used q + 2) (to_le 2 (sq_next_used q + 1)) = Inr m'"
    "q' = q\<lparr>sq_next_used := sq_next_used q + 1\<rparr>"
  using assms by (auto simp: push_used_def write_u32_def write_u16_def Let_def split: sum.splits)

lemma push_used_effect:
  assumes p: "push_used R q m head len = (q', m', Inr ())"
    and fit: "unat (sq_used q) + 4 + 8 * unat (sq_size q) \<le> 2 ^ 64" and "sq_size q \<noteq> 0"
  defines "slot \<equiv> unat (sq_next_used q) mod unat (sq_size q)"
  shows "q' = q\<lparr>sq_next_used := sq_next_used q + 1\<rparr>"
    and "mem_read R m' (sq_used q + of_nat (4 + 8 * slot)) 4 = Inr (to_le 4 (ucast head :: u32))"
    and "mem_read R m' (sq_used q + of_nat (8 + 8 * slot)) 4 = Inr (to_le 4 len)"
    and "mem_read R m' (sq_used q + 2) 2 = Inr (to_le 2 (sq_next_used q + 1))"
    and "\<And>a n. (unat a + n \<le> unat (sq_used q) + 2 \<or> unat (sq_used q) + 4 \<le> unat a) \<Longrightarrow>
      (unat a + n \<le> unat (sq_used q) + 4 + 8 * slot \<or> unat (sq_used q) + 12 + 8 * slot \<le> unat a) \<Longrightarrow>
      mem_read R m' a n = mem_read R m a n"
proof -
  from p obtain m1 m2 elem where
      e: "elem = sq_used q + 4 + USED_ENTRY_LEN * ucast (sq_next_used q mod sq_size q)"
    and w1: "mem_write R m elem (to_le 4 (ucast head :: u32)) = Inr m1"
    and w2: "mem_write R m1 (elem + 4) (to_le 4 len) = Inr m2"
    and w3: "mem_write R m2 (sq_used q + 2) (to_le 2 (sq_next_used q + 1)) = Inr m'"
    and q': "q' = q\<lparr>sq_next_used := sq_next_used q + 1\<rparr>"
    by (rule push_used_Ok)
  note addr = push_used_addresses [OF fit assms(3), folded e slot_def]
  have el: "sq_used q + of_nat (4 + 8 * slot) = elem" "sq_used q + of_nat (8 + 8 * slot) = elem + 4"
    using addr(1,2) fit addr(4) by (simp_all add: word_unat_eq_iff unat_add_of_nat del: of_nat_add of_nat_mult)
  show "q' = q\<lparr>sq_next_used := sq_next_used q + 1\<rparr>" by (rule q')
  show "mem_read R m' (sq_used q + 2) 2 = Inr (to_le 2 (sq_next_used q + 1))"
    using write_read [OF w3] by simp
  show "mem_read R m' (sq_used q + of_nat (8 + 8 * slot)) 4 = Inr (to_le 4 len)"
    using write_frame [OF w3, of "elem + 4" 4] write_read [OF w2] addr unfolding el by simp
  show "mem_read R m' (sq_used q + of_nat (4 + 8 * slot)) 4 = Inr (to_le 4 (ucast head :: u32))"
    using write_frame [OF w3, of elem 4] write_frame [OF w2, of elem 4] write_read [OF w1] addr
    unfolding el by simp
  fix a :: u64 and n
  assume "unat a + n \<le> unat (sq_used q) + 2 \<or> unat (sq_used q) + 4 \<le> unat a"
    and "unat a + n \<le> unat (sq_used q) + 4 + 8 * slot \<or> unat (sq_used q) + 12 + 8 * slot \<le> unat a"
  then show "mem_read R m' a n = mem_read R m a n"
    using write_frame [OF w3, of a n] write_frame [OF w2, of a n] write_frame [OF w1, of a n] addr by auto
qed

lemma push_used_fail:
  assumes p: "push_used R q m head len = (q', m', Inl e)"
    and fit: "unat (sq_used q) + 4 + 8 * unat (sq_size q) \<le> 2 ^ 64" and "sq_size q \<noteq> 0"
  shows "mem_read R m' (sq_used q + 2) 2 = mem_read R m (sq_used q + 2) 2"
proof -
  define elem where "elem = sq_used q + 4 + USED_ENTRY_LEN * ucast (sq_next_used q mod sq_size q)"
  note addr = push_used_addresses [OF fit assms(3), folded elem_def]
  have f1: "mem_read R m1 (sq_used q + 2) 2 = mem_read R m (sq_used q + 2) 2"
    if "mem_write R m elem b = Inr m1" for b m1
    using write_frame [OF that, of "sq_used q + 2" 2] addr by simp
  have f2: "mem_read R m2 (sq_used q + 2) 2 = mem_read R m1 (sq_used q + 2) 2"
    if "mem_write R m1 (elem + 4) b = Inr m2" for b m1 m2
    using write_frame [OF that, of "sq_used q + 2" 2] addr by simp
  from p have "snd (snd (push_used R q m head len)) = Inl e" and m': "m' = fst (snd (push_used R q m head len))"
    by simp_all
  then have "mem_read R (fst (snd (push_used R q m head len))) (sq_used q + 2) 2 = mem_read R m (sq_used q + 2) 2"
    by (auto simp: push_used_def write_u32_def write_u16_def Let_def f1 f2
        simp flip: elem_def split: sum.splits)
  then show ?thesis unfolding m' .
qed

text \<open>Popping follows the available ring of the virtqueue crate.\<close>

lemma pop_avail_ring:
  assumes rb: "mem_read R m (sq_avail q) (avail_ring_size (sq_size q)) = Inr rb"
    and r: "AvailRing_new rb (sq_size q) = Inr r"
  shows "read_u16 R m (sq_avail q + 2) = Inr (AvailRing_idx r)"
    and "read_u16 R m (sq_avail q + 4 + 2 * ucast (i mod sq_size q)) = Inr (AvailRing_head r i)"
proof -
  from r have r': "r = \<lparr>ar_bytes = rb, ar_qsize = sq_size q\<rparr>" and pos: "0 < unat (sq_size q)"
    by (auto simp: AvailRing_new_def and_then_eqs Let_def dest: validate_qsize_pos split: if_splits)
  show "read_u16 R m (sq_avail q + 2) = Inr (AvailRing_idx r)"
    using read_u16_part [OF rb, of 2] by (simp add: r' AvailRing_idx_def le16_at_def avail_ring_size_def)
  have "unat (i mod sq_size q) < unat (sq_size q)" using pos by (simp add: unat_mod)
  moreover have "sq_avail q + 4 + 2 * ucast (i mod sq_size q) =
      sq_avail q + of_nat (4 + 2 * unat (i mod sq_size q))"
    by (simp add: add.assoc)
  ultimately show "read_u16 R m (sq_avail q + 4 + 2 * ucast (i mod sq_size q)) = Inr (AvailRing_head r i)"
    using read_u16_part [OF rb, of "4 + 2 * unat (i mod sq_size q)"]
    by (simp only: r' AvailRing_head_def le16_at_def avail_ring_size_def avail_ring.simps)
qed

lemma pop_avail_form:
  assumes "mem_read R m (sq_avail q) (avail_ring_size (sq_size q)) = Inr rb"
    and "AvailRing_new rb (sq_size q) = Inr r"
  shows "pop_avail R q m =
    (case fst (AvailIter_next (AvailRing_iter_new r (sq_next_avail q))) of
       None \<Rightarrow> (q, Inr None)
     | Some h \<Rightarrow> if sq_size q \<le> h then (q, Inl (BadDescriptor h))
         else case collect_chain R q m h of
           Inl e \<Rightarrow> (q, Inl e)
         | Inr ds \<Rightarrow> (q\<lparr>sq_next_avail := sq_next_avail q + 1\<rparr>,
             Inr (Some \<lparr>dc_head = h, dc_descriptors = ds\<rparr>)))"
  using pop_avail_ring [OF assms]
  by (simp add: pop_avail_def AvailIter_next_def AvailRing_iter_new_def Let_def)

lemma pop_avail_Some_iff:
  assumes rb: "mem_read R m (sq_avail q) (avail_ring_size (sq_size q)) = Inr rb"
    and r: "AvailRing_new rb (sq_size q) = Inr r" and t: "table_at R m q tbl"
  shows "pop_avail R q m = (q', Inr (Some c)) \<longleftrightarrow>
    fst (AvailIter_next (AvailRing_iter_new r (sq_next_avail q))) = Some (dc_head c) \<and>
    (\<exists>p. chain_path tbl (dc_head c) p \<and> list_all (\<lambda>d. \<not> is_indirect d) p \<and>
       dc_descriptors c = map vq_of p) \<and> q' = q\<lparr>sq_next_avail := sq_next_avail q + 1\<rparr>"
proof (cases "fst (AvailIter_next (AvailRing_iter_new r (sq_next_avail q)))")
  case None
  then show ?thesis by (simp add: pop_avail_form [OF rb r])
next
  case (Some h)
  have len: "length tbl = unat (sq_size q)"
    using t by (auto simp: table_at_def parse_descriptor_table_iff)
  have bad: "\<not> chain_path tbl h p" if "sq_size q \<le> h" for p
    using that len by (auto dest: chain_path_head simp: word_le_nat_alt)
  show ?thesis
  proof (cases "collect_chain R q m h")
    case (Inl e)
    then have "\<not> (chain_path tbl h p \<and> list_all (\<lambda>d. \<not> is_indirect d) p)" for p
      using collect_chain_Ok_iff [OF t, of h "map vq_of p"] by auto
    with Inl Some bad show ?thesis
      by (auto simp: pop_avail_form [OF rb r])
  next
    case (Inr ds)
    then obtain p0 where p0: "chain_path tbl h p0" "list_all (\<lambda>d. \<not> is_indirect d) p0" "ds = map vq_of p0"
      by (auto simp: collect_chain_Ok_iff [OF t])
    then have "chain_path tbl h p \<longleftrightarrow> p = p0" for p by (auto dest: chain_path_unique)
    then have ex: "(\<exists>p. chain_path tbl h p \<and> list_all (\<lambda>d. \<not> is_indirect d) p \<and> es = map vq_of p) \<longleftrightarrow>
        es = ds" for es
      using p0 by auto
    have "\<not> sq_size q \<le> h" using bad p0(1) by blast
    then have pop: "pop_avail R q m = (q\<lparr>sq_next_avail := sq_next_avail q + 1\<rparr>,
        Inr (Some \<lparr>dc_head = h, dc_descriptors = ds\<rparr>))"
      using Inr Some by (simp add: pop_avail_form [OF rb r])
    show ?thesis
    proof (cases "dc_head c = h")
      case True
      show ?thesis unfolding pop Some True ex using True by (cases c) auto
    next
      case False
      then show ?thesis unfolding pop Some by (cases c) auto
    qed
  qed
qed

end

interpretation vsock_ram: vq_ram "GuestRamMem slice_ops"
  using slice_ram.adapted by (simp add: vq_ram_def)

lemma pop_avail_fail: "pop_avail R q m = (q', Inl e) \<Longrightarrow> q' = q"
  by (auto simp: pop_avail_def Let_def split: sum.splits if_splits)

lemma SplitQueue_new_legal:
  assumes "SplitQueue_new cfg = Some q"
  shows "validate_qsize (sq_size q) = Inr ()" "sq_size q \<noteq> 0" "unat (sq_size q) = unat (qc_size cfg)"
proof -
  from assms have pw: "is_power_of_two (qc_size cfg)" and le: "unat (qc_size cfg) \<le> 2 ^ 15"
    and nz: "qc_size cfg \<noteq> 0" and q: "sq_size q = ucast (qc_size cfg)"
    by (auto simp: SplitQueue_new_def MAX_QUEUE_SIZE_u32_def word_less_nat_alt split: if_splits)
  show u: "unat (sq_size q) = unat (qc_size cfg)"
    using le by (simp add: q unsigned_ucast_eq take_bit_nat_eq_self)
  then show "sq_size q \<noteq> 0" using nz by (metis unat_eq_zero)
  from pw obtain k where k: "unat (qc_size cfg) = 2 ^ k" by (auto simp: is_power_of_two_iff)
  with le have "(2 :: nat) ^ k \<le> 2 ^ 15" by simp
  then have "k < 16" using power_increasing_iff [of "2 :: nat" k 15] by simp
  with k u have "is_power_of_two (sq_size q)" by (auto simp: is_power_of_two_iff)
  with u le \<open>sq_size q \<noteq> 0\<close> show "validate_qsize (sq_size q) = Inr ()"
    by (simp add: validate_qsize_Ok_iff MAX_QUEUE_SIZE_def word_le_nat_alt)
qed

subsection \<open>Properties\<close>

text \<open>
  C26: The vsock device pops exactly what the virtqueue crate's ring and chain walker describe.
  When the available ring and descriptor table lie in guest memory, \<^verbatim>\<open>pop_avail\<close> returns a
  chain exactly when \<^verbatim>\<open>AvailRing::iter_new\<close> from the queue's cursor yields its head next, the
  descriptors from that head form a terminating chain of the table without indirect entries, and
  these are its buffers; the cursor then moves by one. It returns nothing exactly when the
  iterator is exhausted, and on any error the queue is unchanged (so the same chain is popped
  again).
\<close>

theorem pop_avail_exact:
  assumes "guest_ram R" and "table_at R m q tbl"
    and "mem_read R m (sq_avail q) (avail_ring_size (sq_size q)) = Ok rb"
    and "AvailRing_new rb (sq_size q) = Ok r"
  shows "(pop_avail R q m = (q', Ok (Some c)) \<longleftrightarrow>
      fst (AvailIter_next (AvailRing_iter_new r (sq_next_avail q))) = Some (dc_head c) \<and>
      (\<exists>p. walk tbl (dc_head c) = map Ok p \<and> list_all (\<lambda>d. \<not> is_indirect d) p \<and>
         dc_descriptors c = map vq_of p) \<and> q' = q\<lparr>sq_next_avail := sq_next_avail q + 1\<rparr>) \<and>
    (pop_avail R q m = (q, Ok None) \<longleftrightarrow>
      fst (AvailIter_next (AvailRing_iter_new r (sq_next_avail q))) = None) \<and>
    (pop_avail R q m = (q', Err e) \<longrightarrow> q' = q)"
proof -
  have vr: "vq_ram R" using assms(1) by (simp add: vq_ram_def)
  have form: "pop_avail R q m = (q, Ok None) \<longleftrightarrow>
      fst (AvailIter_next (AvailRing_iter_new r (sq_next_avail q))) = None"
    unfolding vq_ram.pop_avail_form [OF vr assms(3,4)] by (auto split: option.splits sum.splits)
  show ?thesis
    unfolding vq_ram.pop_avail_Some_iff [OF vr assms(3,4,2)] walk_Ok_path_iff form
    using pop_avail_fail [of R q m q' e] by blast
qed

text \<open>
  A queue of size one at address 0 for the concrete instances: the descriptor table (one buffer
  of four bytes at 40), the available ring at 16 with one entry published, the used ring at 24,
  and the buffer.
\<close>

definition sample_queue :: split_queue where
  "sample_queue = \<lparr>sq_size = 1, sq_desc = 0, sq_avail = 16, sq_used = 24, sq_next_avail = 0, sq_next_used = 0\<rparr>"

definition sample_desc :: "u16 \<Rightarrow> descriptor" where
  "sample_desc flags = \<lparr>desc_addr = 40, desc_len = 4, desc_flags = flags, desc_next = 0\<rparr>"

definition sample_avail :: bytes where
  "sample_avail = [0, 0, 1, 0, 0, 0, 0, 0]"

definition sample_ram :: "u16 \<Rightarrow> slice_mem" where
  "sample_ram flags = SliceGuestMemory_new 0
     (Descriptor_to_bytes (sample_desc flags) @ sample_avail @ replicate 16 0 @ [10, 20, 30, 40])"

abbreviation sample_ops :: "slice_mem vq_mem" where
  "sample_ops \<equiv> GuestRamMem slice_ops"

lemma sample_read:
  "a < 2 ^ 32 \<Longrightarrow> a + n \<le> 44 \<Longrightarrow>
    mem_read sample_ops (sample_ram flags) (of_nat a) n = Inr (slice_at a n (sm_bytes (sample_ram flags)))"
proof -
  assume a: "a < 2 ^ 32" "a + n \<le> 44"
  then have "unat (of_nat a :: u64) = a" by (simp add: unat_of_nat)
  with a have "SliceGuestMemory_read (sample_ram flags) (of_nat a) n =
      Inr (slice_at a n (sm_bytes (sample_ram flags)))"
    by (simp add: SliceGuestMemory_read_Ok_iff sample_ram_def SliceGuestMemory_new_def
        Descriptor_to_bytes_def sample_avail_def)
  then show ?thesis by (simp add: GuestRamMem_def slice_ops_def)
qed

lemma sample_ram_window [simp]: "sm_base (sample_ram f) = 0" "length (sm_bytes (sample_ram f)) = 44"
  by (simp_all add: sample_ram_def SliceGuestMemory_new_def Descriptor_to_bytes_def sample_avail_def)

lemma sample_write:
  "sm_base m = 0 \<Longrightarrow> length (sm_bytes m) = 44 \<Longrightarrow> unat a + length b \<le> 44 \<Longrightarrow>
    mem_write sample_ops m a b = Inr (m\<lparr>sm_bytes := copy_into (unat a) b (sm_bytes m)\<rparr>)"
  by (simp add: GuestRamMem_def slice_ops_def SliceGuestMemory_write_Ok_iff)

lemma sample_layout:
  "table_at sample_ops (sample_ram flags) sample_queue [sample_desc flags]"
  "mem_read sample_ops (sample_ram flags) (sq_avail sample_queue) (avail_ring_size (sq_size sample_queue)) =
     Inr sample_avail"
  "AvailRing_new sample_avail (sq_size sample_queue) = Inr \<lparr>ar_bytes = sample_avail, ar_qsize = 1\<rparr>"
proof -
  have q: "validate_qsize 1 = Inr ()"
    by (auto simp: validate_qsize_Ok_iff MAX_QUEUE_SIZE_def is_power_of_two_iff intro: exI [of _ 0])
  have "mem_read sample_ops (sample_ram flags) 0 16 = Inr (Descriptor_to_bytes (sample_desc flags))"
    using sample_read [of 0 16 flags]
    by (simp add: sample_ram_def SliceGuestMemory_new_def slice_at_def Descriptor_to_bytes_def)
  moreover have "parse_descriptor_table (Descriptor_to_bytes (sample_desc flags)) 1 = Inr [sample_desc flags]"
    by (simp add: parse_descriptor_table_iff q desc_table_size_def DESC_SIZE_def Descriptor_to_bytes_def)
  ultimately show "table_at sample_ops (sample_ram flags) sample_queue [sample_desc flags]"
    by (simp add: table_at_def sample_queue_def desc_table_size_def DESC_SIZE_def)
  show "mem_read sample_ops (sample_ram flags) (sq_avail sample_queue) (avail_ring_size (sq_size sample_queue)) =
     Inr sample_avail"
    using sample_read [of 16 8 flags]
    by (simp add: sample_ram_def SliceGuestMemory_new_def slice_at_def Descriptor_to_bytes_def
        sample_queue_def avail_ring_size_def sample_avail_def)
  show "AvailRing_new sample_avail (sq_size sample_queue) = Inr \<lparr>ar_bytes = sample_avail, ar_qsize = 1\<rparr>"
    by (simp add: AvailRing_new_def sample_queue_def q avail_ring_size_def sample_avail_def)
qed

lemma sample_pop:
  "pop_avail sample_ops sample_queue (sample_ram 2) =
     (sample_queue\<lparr>sq_next_avail := 1\<rparr>,
      Inr (Some \<lparr>dc_head = 0, dc_descriptors = [\<lparr>vd_addr = 40, vd_len = 4, vd_writable = True\<rparr>]\<rparr>))"
proof -
  let ?r = "\<lparr>ar_bytes = sample_avail, ar_qsize = 1\<rparr>"
  have h: "fst (AvailIter_next (AvailRing_iter_new ?r 0)) = Some 0"
    by (simp add: AvailIter_next_def AvailRing_iter_new_def AvailRing_idx_def AvailRing_head_def
        le16_at_def sample_avail_def slice_at_def)
  have "chain_path [sample_desc 2] 0 [sample_desc 2]"
    using chain_path.path_last [of 0 "[sample_desc 2]"] by (simp add: has_next_def sample_desc_def DESC_F_NEXT_def)
  then have "collect_chain sample_ops sample_queue (sample_ram 2) 0 = Inr [vq_of (sample_desc 2)]"
    unfolding vsock_ram.collect_chain_Ok_iff [OF sample_layout(1)]
    by (intro exI [of _ "[sample_desc 2]"]) (simp add: is_indirect_def sample_desc_def DESC_F_INDIRECT_def)
  then show ?thesis
    unfolding vsock_ram.pop_avail_form [OF sample_layout(2,3)]
    using h by (simp add: sample_queue_def vq_of_def sample_desc_def is_writable_def DESC_F_WRITE_def)
qed

theorem pop_avail_exact_witness:
  "pop_avail sample_ops sample_queue (sample_ram 0) =
     (sample_queue\<lparr>sq_next_avail := 1\<rparr>,
      Ok (Some \<lparr>dc_head = 0, dc_descriptors = [\<lparr>vd_addr = 40, vd_len = 4, vd_writable = False\<rparr>]\<rparr>))"
proof -
  let ?r = "\<lparr>ar_bytes = sample_avail, ar_qsize = 1\<rparr>"
  let ?c = "\<lparr>dc_head = 0, dc_descriptors = [\<lparr>vd_addr = 40, vd_len = 4, vd_writable = False\<rparr>]\<rparr>"
  have "fst (AvailIter_next (AvailRing_iter_new ?r 0)) = Some 0"
    by (simp add: AvailIter_next_def AvailRing_iter_new_def AvailRing_idx_def AvailRing_head_def
        le16_at_def sample_avail_def slice_at_def)
  moreover have "chain_path [sample_desc 0] 0 [sample_desc 0]"
    using chain_path.path_last [of 0 "[sample_desc 0]"] by (simp add: has_next_def sample_desc_def)
  then have "walk [sample_desc 0] 0 = map Ok [sample_desc 0]" by (simp only: walk_Ok_path_iff)
  moreover have "list_all (\<lambda>d. \<not> is_indirect d) [sample_desc 0]" by (simp add: is_indirect_def sample_desc_def)
  moreover have "dc_descriptors ?c = map vq_of [sample_desc 0]"
    by (simp add: vq_of_def sample_desc_def is_writable_def)
  ultimately have "\<exists>p. walk [sample_desc 0] 0 = map Ok p \<and> list_all (\<lambda>d. \<not> is_indirect d) p \<and>
      dc_descriptors ?c = map vq_of p" and "fst (AvailIter_next (AvailRing_iter_new ?r 0)) = Some 0"
    by blast+
  then show ?thesis
    using pop_avail_exact [OF vsock_ram.guest_ram_axioms sample_layout, of 0 "sample_queue\<lparr>sq_next_avail := 1\<rparr>" ?c]
    by (auto simp: sample_queue_def)
qed

text \<open>
  Completing a chain. When \<^verbatim>\<open>push_used\<close> succeeds, the slot of the producer cursor holds the
  head and the length, the published index is the advanced cursor, and no byte of guest memory
  outside that slot and the index has changed. When it fails, the published index is still the
  old one, so the guest never sees a half-written entry.
\<close>

theorem push_used_correct:
  assumes "guest_ram R" and "unat (sq_used q) + 4 + 8 * unat (sq_size q) \<le> 2 ^ 64" and "sq_size q \<noteq> 0"
  shows "case push_used R q m head len of
      (q', m', Ok _) \<Rightarrow>
        let slot = unat (sq_next_used q) mod unat (sq_size q) in
        q' = q\<lparr>sq_next_used := sq_next_used q + 1\<rparr> \<and>
        mem_read R m' (sq_used q + of_nat (4 + 8 * slot)) 4 = Ok (to_le 4 (ucast head :: u32)) \<and>
        mem_read R m' (sq_used q + of_nat (8 + 8 * slot)) 4 = Ok (to_le 4 len) \<and>
        mem_read R m' (sq_used q + 2) 2 = Ok (to_le 2 (sq_next_used q + 1)) \<and>
        (\<forall>a n. (unat a + n \<le> unat (sq_used q) + 2 \<or> unat (sq_used q) + 4 \<le> unat a) \<and>
           (unat a + n \<le> unat (sq_used q) + 4 + 8 * slot \<or> unat (sq_used q) + 12 + 8 * slot \<le> unat a) \<longrightarrow>
           mem_read R m' a n = mem_read R m a n)
    | (q', m', Err e) \<Rightarrow> mem_read R m' (sq_used q + 2) 2 = mem_read R m (sq_used q + 2) 2"
proof -
  have vr: "vq_ram R" using assms(1) by (simp add: vq_ram_def)
  obtain q' m' x where p: "push_used R q m head len = (q', m', x)" by (cases "push_used R q m head len")
  show ?thesis
  proof (cases x)
    case (Inl e)
    with p show ?thesis using vq_ram.push_used_fail [OF vr _ assms(2,3)] by simp
  next
    case (Inr u)
    with p have ok: "push_used R q m head len = (q', m', Inr ())" by simp
    show ?thesis
      unfolding ok using vq_ram.push_used_effect [OF vr ok assms(2,3)] by (simp add: Let_def)
  qed
qed

theorem push_used_correct_witness:
  "\<exists>q' m'. push_used sample_ops sample_queue (sample_ram 2) 0 4 = (q', m', Ok ()) \<and>
     mem_read sample_ops m' 26 2 = Ok [1, 0] \<and> mem_read sample_ops m' 32 4 = Ok [4, 0, 0, 0]"
proof -
  let ?p = "push_used sample_ops sample_queue (sample_ram 2) 0 4"
  have "snd (snd ?p) = Ok ()"
    by (simp add: push_used_def write_u32_def write_u16_def GuestRamMem_def slice_ops_def sample_queue_def
        SliceGuestMemory_write_def checked_bounds_def checked_add_len_def sample_ram_def
        SliceGuestMemory_new_def USED_ENTRY_LEN_def Descriptor_to_bytes_def sample_avail_def Let_def)
  then obtain q' m' where p: "?p = (q', m', Ok ())" by (cases ?p) auto
  have "case ?p of (q', m', Ok _) \<Rightarrow> mem_read sample_ops m' 26 2 = Ok (to_le 2 (1 :: u16)) \<and>
      mem_read sample_ops m' 32 4 = Ok (to_le 4 (4 :: u32)) | _ \<Rightarrow> True"
    using push_used_correct [OF vsock_ram.guest_ram_axioms, of sample_queue "sample_ram 2" 0 4]
    unfolding p by (simp add: sample_queue_def Let_def)
  then show ?thesis using p by (auto simp: to_le_def upt_conv_Cons)
qed

text \<open>
  Delivering bytes to the guest. When the writable buffers of a chain are accessible and do
  not overlap, \<^verbatim>\<open>write_writable\<close> succeeds, writes the first \<open>min capacity |src|\<close> bytes of
  \<open>src\<close> across them in order (so gathering the buffers again gives those bytes followed by the
  old contents), and leaves the rest of guest memory alone.
\<close>

theorem write_writable_scatters:
  assumes "guest_ram R" and "gather R m (filter vd_writable (dc_descriptors c)) = Ok old"
    and "sorted_wrt apart (filter vd_writable (dc_descriptors c))"
  shows "\<exists>m'. write_writable R c m src = (m', Ok (min (writable_len c) (length src))) \<and>
    gather R m' (filter vd_writable (dc_descriptors c)) =
      Ok (take (writable_len c) src @ drop (length src) old) \<and>
    (\<forall>a k. (\<forall>d \<in> set (filter vd_writable (dc_descriptors c)).
        unat a + k \<le> unat (vd_addr d) \<or> unat (vd_addr d) + unat (vd_len d) \<le> unat a) \<longrightarrow>
       mem_read R m' a k = mem_read R m a k)"
proof -
  have len: "length old = writable_len c"
    using guest_ram.gather_length [OF assms(1,2)] by (simp add: writable_len_def)
  have bytes: "take (min (writable_len c) (length src)) src @ drop (min (writable_len c) (length src)) old =
      take (writable_len c) src @ drop (length src) old"
    using len by (auto simp: min_def)
  show ?thesis
    using guest_ram.scatter_gather [OF assms(1-3), of 0 src] bytes
    by (simp add: write_writable_def slice_zero_take flip: writable_len_def)
qed

theorem write_writable_scatters_witness:
  "let c = \<lparr>dc_head = 0, dc_descriptors = [\<lparr>vd_addr = 40, vd_len = 4, vd_writable = True\<rparr>]\<rparr>
   in \<exists>m'. write_writable sample_ops c (sample_ram 2) [7, 8] = (m', Ok 2) \<and>
        gather sample_ops m' (filter vd_writable (dc_descriptors c)) = Ok [7, 8, 30, 40]"
proof -
  let ?c = "\<lparr>dc_head = 0, dc_descriptors = [\<lparr>vd_addr = 40, vd_len = 4, vd_writable = True\<rparr>]\<rparr>"
  have g: "gather sample_ops (sample_ram 2) (filter vd_writable (dc_descriptors ?c)) = Ok [10, 20, 30, 40]"
    using sample_read [of 40 4 2]
    by (simp add: sample_ram_def SliceGuestMemory_new_def slice_at_def Descriptor_to_bytes_def sample_avail_def)
  have "\<exists>m'. write_writable sample_ops ?c (sample_ram 2) [7, 8] = (m', Ok (min (writable_len ?c) (length [7, 8 :: u8]))) \<and>
      gather sample_ops m' (filter vd_writable (dc_descriptors ?c)) =
        Ok (take (writable_len ?c) [7, 8] @ drop (length [7, 8 :: u8]) [10, 20, 30, 40])"
    using write_writable_scatters [OF vsock_ram.guest_ram_axioms g, of "[7, 8]"] by fastforce
  moreover have "min (writable_len ?c) (length [7, 8 :: u8]) = 2" and
      "take (writable_len ?c) [7, 8] @ drop (length [7, 8 :: u8]) [10, 20, 30, 40] = [7, 8, 30, 40 :: u8]"
    by (simp_all add: writable_len_def)
  ultimately show ?thesis unfolding Let_def by (simp only:)
qed

end
