(* ===== verification/Vsock_Device.thy ===== *)
theory Vsock_Device
  imports Vsock_Table Vsock_Queue
begin

text \<open>
  The assembled vsock device (\<^verbatim>\<open>crates/virtio-vsock/src/device.rs\<close>): the MMIO transport,
  the connection table, the two cached split queues and the packet queues in both directions,
  with one device cycle \<open>process\<close> that drains the transmit queue through the table and
  flushes outbound packets onto the receive queue.

  The transmit loop re-reads the guest's index in every round, so its termination depends on
  guest memory: it is a \<open>partial_function\<close> whose value \<open>None\<close> is divergence, and it is
  proved total when the ring the device writes does not overlap the index it polls. The
  receive loop ends because every round takes a packet off the outbound queue.
\<close>

subsection \<open>Model\<close>

definition RX_QUEUE :: nat where "RX_QUEUE = 0"
definition TX_QUEUE :: nat where "TX_QUEUE = 1"

record out_packet =
  op_header :: vsock_header
  op_payload :: bytes

record vsock_device =
  dv_transport :: mmio_transport
  dv_table :: connection_table
  dv_rx :: "split_queue option"
  dv_tx :: "split_queue option"
  dv_outbound :: "out_packet list"
  dv_inbound :: "(connection_id \<times> bytes) list"
  dv_guest_cid :: u64

definition VsockDevice_new :: "u64 \<Rightarrow> table_config \<Rightarrow> vsock_device" where
  "VsockDevice_new guest_cid cfg =
     \<lparr>dv_transport = new_vsock guest_cid, dv_table = ConnectionTable_new cfg, dv_rx = None,
      dv_tx = None, dv_outbound = [], dv_inbound = [], dv_guest_cid = guest_cid\<rparr>"

definition VsockDevice_mmio_read :: "vsock_device \<Rightarrow> u64 \<Rightarrow> nat \<Rightarrow> u64" where
  "VsockDevice_mmio_read d offset sz = mmio_read (dv_transport d) offset sz"

definition VsockDevice_mmio_write :: "vsock_device \<Rightarrow> u64 \<Rightarrow> nat \<Rightarrow> u64 \<Rightarrow> vsock_device \<times> u32 option" where
  "VsockDevice_mmio_write d offset sz value =
     (let t = mmio_write (dv_transport d) offset sz value;
          (t, notify) = take_notify t
      in (d\<lparr>dv_transport := t\<rparr>, notify))"

definition VsockDevice_interrupt_asserted :: "vsock_device \<Rightarrow> bool" where
  "VsockDevice_interrupt_asserted d = interrupt_asserted (dv_transport d)"

definition VsockDevice_listen :: "vsock_device \<Rightarrow> u32 \<Rightarrow> vsock_device \<times> bool" where
  "VsockDevice_listen d port =
     (let (t, b) = ConnectionTable_listen (dv_table d) port in (d\<lparr>dv_table := t\<rparr>, b))"

definition VsockDevice_unlisten :: "vsock_device \<Rightarrow> u32 \<Rightarrow> vsock_device \<times> bool" where
  "VsockDevice_unlisten d port =
     (let (t, b) = ConnectionTable_unlisten (dv_table d) port in (d\<lparr>dv_table := t\<rparr>, b))"

definition VsockDevice_send :: "vsock_device \<Rightarrow> connection_id \<Rightarrow> bytes \<Rightarrow> vsock_device \<times> bool" where
  "VsockDevice_send d i data =
     (if length data \<ge> 2 ^ 32 then (d, False)
      else let (t, h) = prepare_data (dv_table d) i (of_nat (length data));
               d = d\<lparr>dv_table := t\<rparr>
      in case h of
           Some header \<Rightarrow>
             (d\<lparr>dv_outbound := dv_outbound d @ [\<lparr>op_header = header, op_payload = data\<rparr>]\<rparr>, True)
         | None \<Rightarrow> (d, False))"

definition VsockDevice_recv :: "vsock_device \<Rightarrow> vsock_device \<times> (connection_id \<times> bytes) option" where
  "VsockDevice_recv d =
     (case dv_inbound d of
        [] \<Rightarrow> (d, None)
      | p # ps \<Rightarrow> (d\<lparr>dv_inbound := ps\<rparr>, Some p))"

definition established_connection :: "connection_id list \<Rightarrow> vsock_device \<Rightarrow> connection_id option" where
  "established_connection order d = first_established order (dv_table d)"

definition pending_outbound :: "vsock_device \<Rightarrow> nat" where
  "pending_outbound d = length (dv_outbound d)"

definition sync_queues :: "vsock_device \<Rightarrow> vsock_device" where
  "sync_queues d =
     (if mt_status (dv_transport d) = 0
      then d\<lparr>dv_rx := None, dv_tx := None, dv_outbound := [], dv_inbound := []\<rparr>
      else
        let d = (if dv_rx d = None then
                   (case mmio_queue (dv_transport d) RX_QUEUE of
                      Some cfg \<Rightarrow> d\<lparr>dv_rx := SplitQueue_new cfg\<rparr> | None \<Rightarrow> d)
                 else d)
        in if dv_tx d = None then
             (case mmio_queue (dv_transport d) TX_QUEUE of
                Some cfg \<Rightarrow> d\<lparr>dv_tx := SplitQueue_new cfg\<rparr> | None \<Rightarrow> d)
           else d)"

definition handle_guest_packet :: "vsock_device \<Rightarrow> bytes \<Rightarrow> vsock_device" where
  "handle_guest_packet d raw =
     (case VsockHeader_from_bytes raw of
        Err _ \<Rightarrow> d
      | Ok hdr \<Rightarrow>
          let (t, r) = dispatch (dv_table d) hdr;
              d = d\<lparr>dv_table := t\<rparr>
          in case r of
               SendReply header \<Rightarrow>
                 d\<lparr>dv_outbound := dv_outbound d @ [\<lparr>op_header = header, op_payload = []\<rparr>]\<rparr>
             | DeliverPayload conn_id n \<Rightarrow>
                 let start = VSOCK_HDR_LEN;
                     stop = start + unat n;
                     payload = (if stop \<le> length raw then slice_at start (stop - start) raw else [])
                 in d\<lparr>dv_inbound := dv_inbound d @ [(conn_id, payload)]\<rparr>
             | NoReply \<Rightarrow> d)"

type_synonym 'm drain_state = "split_queue \<times> vsock_device \<times> 'm \<times> bool \<times> (vq_error, unit) result"

partial_function (option) drain_loop ::
    "'m vq_mem \<Rightarrow> split_queue \<Rightarrow> vsock_device \<Rightarrow> 'm \<Rightarrow> bool \<Rightarrow> 'm drain_state option" where
  "drain_loop R tx d mem completed =
     (case pop_avail R tx mem of
        (tx, Inr (Some chain)) \<Rightarrow>
          (case read_readable R chain mem of
             Inr raw \<Rightarrow>
               (let d = handle_guest_packet d raw in
                case push_used R tx mem (dc_head chain) 0 of
                  (tx, mem, Inl e) \<Rightarrow> Some (tx, d, mem, completed, Inl e)
                | (tx, mem, Inr _) \<Rightarrow> drain_loop R tx d mem True)
           | Inl e \<Rightarrow> Some (tx, d, mem, completed, Inl e))
      | (tx, Inr None) \<Rightarrow> Some (tx, d, mem, completed, Inr ())
      | (tx, Inl e) \<Rightarrow> Some (tx, d, mem, completed, Inl e))"

definition drain_tx ::
    "'m vq_mem \<Rightarrow> vsock_device \<Rightarrow> 'm \<Rightarrow> (vsock_device \<times> 'm \<times> (vq_error, bool) result) option" where
  "drain_tx R d mem =
     (case dv_tx d of
        None \<Rightarrow> Some (d, mem, Ok False)
      | Some tx \<Rightarrow>
          (case drain_loop R tx (d\<lparr>dv_tx := None\<rparr>) mem False of
             None \<Rightarrow> None
           | Some (tx, d, mem, completed, outcome) \<Rightarrow>
               Some (d\<lparr>dv_tx := Some tx\<rparr>, mem, and_then outcome (\<lambda>_. Ok completed))))"

fun flush_loop ::
    "'m vq_mem \<Rightarrow> split_queue \<Rightarrow> 'm \<Rightarrow> bool \<Rightarrow> out_packet list \<Rightarrow>
     split_queue \<times> 'm \<times> bool \<times> out_packet list \<times> (vq_error, unit) result" where
  "flush_loop R rx mem completed [] = (rx, mem, completed, [], Ok ())"
| "flush_loop R rx mem completed (pkt # outbound) =
     (case pop_avail R rx mem of
        (rx, Inr (Some chain)) \<Rightarrow>
          let buf = VsockHeader_to_bytes (op_header pkt) @ op_payload pkt in
          (case write_writable R chain mem buf of
             (mem, Inr written) \<Rightarrow>
               (case push_used R rx mem (dc_head chain) (of_nat written) of
                  (rx, mem, Inl e) \<Rightarrow> (rx, mem, completed, outbound, Err e)
                | (rx, mem, Inr _) \<Rightarrow> flush_loop R rx mem True outbound)
           | (mem, Inl e) \<Rightarrow> (rx, mem, completed, outbound, Err e))
      | (rx, Inr None) \<Rightarrow> (rx, mem, completed, pkt # outbound, Ok ())
      | (rx, Inl e) \<Rightarrow> (rx, mem, completed, pkt # outbound, Err e))"

definition flush_rx ::
    "'m vq_mem \<Rightarrow> vsock_device \<Rightarrow> 'm \<Rightarrow> vsock_device \<times> 'm \<times> (vq_error, bool) result" where
  "flush_rx R d mem =
     (case dv_rx d of
        None \<Rightarrow> (d, mem, Ok False)
      | Some rx \<Rightarrow>
          let (rx, mem, completed, outbound, outcome) = flush_loop R rx mem False (dv_outbound d)
          in (d\<lparr>dv_rx := Some rx, dv_outbound := outbound\<rparr>, mem, and_then outcome (\<lambda>_. Ok completed)))"

definition process ::
    "'m vq_mem \<Rightarrow> vsock_device \<Rightarrow> 'm \<Rightarrow> (vsock_device \<times> 'm \<times> (vq_error, bool) result) option" where
  "process R d mem =
     (case drain_tx R (sync_queues d) mem of
        None \<Rightarrow> None
      | Some (d, mem, Err e) \<Rightarrow> Some (d, mem, Err e)
      | Some (d, mem, Ok c1) \<Rightarrow>
          (case flush_rx R d mem of
             (d, mem, Err e) \<Rightarrow> Some (d, mem, Err e)
           | (d, mem, Ok c2) \<Rightarrow>
               let completed = (c1 \<or> c2);
                   d = (if completed then d\<lparr>dv_transport := raise_interrupt (dv_transport d)\<rparr> else d)
               in Some (d, mem, Ok completed)))"

subsection \<open>Guest packets\<close>

lemma handle_guest_packet_malformed:
  "VsockHeader_from_bytes raw = Inl e \<Longrightarrow> handle_guest_packet d raw = d"
  by (simp add: handle_guest_packet_def)

lemma handle_guest_packet_frame [simp]:
  "dv_transport (handle_guest_packet d raw) = dv_transport d"
  "dv_rx (handle_guest_packet d raw) = dv_rx d"
  "dv_tx (handle_guest_packet d raw) = dv_tx d"
  "dv_guest_cid (handle_guest_packet d raw) = dv_guest_cid d"
  by (simp_all add: handle_guest_packet_def Let_def split_beta split: sum.split reply.split)

lemma handle_guest_packet_table:
  "dv_table (handle_guest_packet d raw) =
     (case VsockHeader_from_bytes raw of Inl _ \<Rightarrow> dv_table d | Inr h \<Rightarrow> fst (dispatch (dv_table d) h))"
  by (simp add: handle_guest_packet_def Let_def split_beta split: sum.split reply.split)

lemma handle_guest_packet_reachable:
  "table_reachable cfg (dv_table d) \<Longrightarrow> table_reachable cfg (dv_table (handle_guest_packet d raw))"
  by (auto simp: handle_guest_packet_table intro: table_reachable.dispatch split: sum.split)

subsection \<open>The transmit loop\<close>

text \<open>The bytes the device writes on the used ring keep away from the index it polls.\<close>

definition rings_apart :: "split_queue \<Rightarrow> bool" where
  "rings_apart q \<longleftrightarrow> sq_size q \<noteq> 0 \<and> unat (sq_avail q) + 4 \<le> 2 ^ 64 \<and>
     unat (sq_used q) + 4 + 8 * unat (sq_size q) \<le> 2 ^ 64 \<and>
     (unat (sq_avail q) + 4 \<le> unat (sq_used q) + 2 \<or>
      unat (sq_used q) + 4 + 8 * unat (sq_size q) \<le> unat (sq_avail q) + 2)"

lemma pop_avail_SomeD:
  assumes "pop_avail R q m = (q', Inr (Some c))"
  shows "q' = q\<lparr>sq_next_avail := sq_next_avail q + 1\<rparr>"
    and "\<exists>idx. read_u16 R m (sq_avail q + 2) = Inr idx \<and> idx \<noteq> sq_next_avail q"
  using assms by (auto simp: pop_avail_def Let_def split: sum.splits if_splits)

lemma pop_avail_NoneD: "pop_avail R q m = (q', Inr None) \<Longrightarrow> q' = q"
  by (auto simp: pop_avail_def Let_def split: sum.splits if_splits)

context vq_ram
begin

lemma push_used_keeps_index:
  assumes "push_used R q m head len = (q', m', Inr ())" and "rings_apart q"
  shows "q' = q\<lparr>sq_next_used := sq_next_used q + 1\<rparr>"
    and "mem_read R m' (sq_avail q + 2) 2 = mem_read R m (sq_avail q + 2) 2"
proof -
  from assms(2) have fit: "unat (sq_used q) + 4 + 8 * unat (sq_size q) \<le> 2 ^ 64" and nz: "sq_size q \<noteq> 0"
    and av: "unat (sq_avail q + 2) = unat (sq_avail q) + 2"
    by (auto simp: rings_apart_def unat_word_ariths)
  note eff = push_used_effect [OF assms(1) fit nz]
  show "q' = q\<lparr>sq_next_used := sq_next_used q + 1\<rparr>" by (rule eff(1))
  have "unat (sq_next_used q) mod unat (sq_size q) < unat (sq_size q)"
    using nz by (simp add: unat_gt_0)
  then show "mem_read R m' (sq_avail q + 2) 2 = mem_read R m (sq_avail q + 2) 2"
    using assms(2) unfolding rings_apart_def by (intro eff(5)) (auto simp: av)
qed

lemma drain_loop_total:
  assumes "rings_apart tx" and "\<And>idx. read_u16 R m (sq_avail tx + 2) = Inr idx \<Longrightarrow> unat (idx - sq_next_avail tx) \<le> n"
  shows "\<exists>r. drain_loop R tx d m c = Some r"
  using assms
proof (induction n arbitrary: tx d m c)
  case 0
  have none: "pop_avail R tx m \<noteq> (tx', Inr (Some chain))" for tx' chain
    using pop_avail_SomeD(2) [of R tx m tx' chain] 0(2) by (auto simp: unat_eq_0)
  show ?case
    by (subst drain_loop.simps) (use none in \<open>auto split: prod.split sum.split option.split\<close>)
next
  case (Suc n)
  show ?case
  proof (cases "\<exists>tx1 chain raw tx2 m2. pop_avail R tx m = (tx1, Inr (Some chain)) \<and>
      read_readable R chain m = Inr raw \<and> push_used R tx1 m (dc_head chain) 0 = (tx2, m2, Inr ())")
    case False
    then show ?thesis
      by (subst drain_loop.simps) (auto simp: Let_def split: prod.split sum.split option.split)
  next
    case True
    then obtain tx1 chain raw tx2 m2 where pop: "pop_avail R tx m = (tx1, Inr (Some chain))"
      and rd: "read_readable R chain m = Inr raw"
      and push: "push_used R tx1 m (dc_head chain) 0 = (tx2, m2, Inr ())" by blast
    from pop_avail_SomeD [OF pop] obtain idx where tx1: "tx1 = tx\<lparr>sq_next_avail := sq_next_avail tx + 1\<rparr>"
      and idx: "read_u16 R m (sq_avail tx + 2) = Inr idx" "idx \<noteq> sq_next_avail tx" by auto
    have apart1: "rings_apart tx1" using Suc.prems(1) by (simp add: tx1 rings_apart_def)
    note keep = push_used_keeps_index [OF push apart1]
    have "rings_apart tx2" using apart1 by (simp add: keep(1) rings_apart_def)
    moreover have "read_u16 R m2 (sq_avail tx2 + 2) = Inr idx"
      using idx(1) keep by (simp add: read_u16_def tx1)
    moreover have "unat (idx - sq_next_avail tx2) \<le> n"
      using counter_step [of "sq_next_avail tx" idx] idx Suc.prems(2) [OF idx(1)]
      by (simp add: keep(1) tx1)
    ultimately have "\<exists>r. drain_loop R tx2 (handle_guest_packet d raw) m2 True = Some r"
      by (intro Suc.IH) auto
    then show ?thesis
      by (subst drain_loop.simps) (simp add: pop rd push Let_def)
  qed
qed

end

text \<open>What every outcome of the loop satisfies.\<close>

lemma drain_loop_induct:
  assumes "drain_loop R tx d m c = Some (tx', d', m', c', r)"
    and refl: "\<And>d. P d d" and step: "\<And>d raw d'. P (handle_guest_packet d raw) d' \<Longrightarrow> P d d'"
  shows "P d d'"
proof -
  have "P d (fst (snd (tx', d', m', c', r)))"
  proof (rule drain_loop.raw_induct [OF _ assms(1), where P = "\<lambda>R tx d m c x. P d (fst (snd x))"], goal_cases)
    case (1 loop R tx d m c x)
    note rules = refl step [OF refl] step
    from 1(2) show ?case
      by (auto simp: Let_def split: prod.splits sum.splits option.splits dest!: 1(1) intro: rules)
  qed
  then show ?thesis by simp
qed

lemma drain_loop_frame:
  assumes "drain_loop R tx d m c = Some (tx', d', m', c', r)"
  shows "dv_transport d' = dv_transport d" and "dv_rx d' = dv_rx d"
    and "table_reachable cfg (dv_table d) \<Longrightarrow> table_reachable cfg (dv_table d')"
proof -
  show "dv_transport d' = dv_transport d"
    by (rule drain_loop_induct [OF assms]) simp_all
  show "dv_rx d' = dv_rx d"
    by (rule drain_loop_induct [OF assms]) simp_all
  have "table_reachable cfg (dv_table d) \<longrightarrow> table_reachable cfg (dv_table d')"
    by (rule drain_loop_induct [OF assms]) (simp_all add: handle_guest_packet_reachable)
  then show "table_reachable cfg (dv_table d) \<Longrightarrow> table_reachable cfg (dv_table d')" ..
qed

lemma drain_tx_frame:
  assumes "drain_tx R d m = Some (d', m', r)"
  shows "dv_transport d' = dv_transport d" and "dv_rx d' = dv_rx d"
    and "table_reachable cfg (dv_table d) \<Longrightarrow> table_reachable cfg (dv_table d')"
  using assms drain_loop_frame [of R _ "d\<lparr>dv_tx := None\<rparr>" m False]
  by (fastforce simp: drain_tx_def split: option.splits)+

subsection \<open>The receive loop\<close>

lemma write_push_cursor:
  "push_used R q m h n = (q', m', r) \<Longrightarrow> sq_next_avail q' = sq_next_avail q \<and>
    (r = Inr () \<longrightarrow> sq_next_used q' = sq_next_used q + 1)"
  by (auto simp: push_used_def Let_def split: sum.splits)

text \<open>Every packet taken off the queue used one buffer and completed it, in order.\<close>

lemma flush_loop_Ok:
  "flush_loop R rx m c out = (rx', m', c', out', Inr ()) \<Longrightarrow>
    \<exists>k \<le> length out. out' = drop k out \<and> sq_next_avail rx' = sq_next_avail rx + of_nat k \<and>
      sq_next_used rx' = sq_next_used rx + of_nat k \<and> (c' \<longleftrightarrow> c \<or> 0 < k) \<and>
      (out' = [] \<or> pop_avail R rx' m' = (rx', Inr None))"
proof (induction R rx m c out rule: flush_loop.induct)
  case (1 R rx m c)
  then show ?case by auto
next
  case (2 R rx m c pkt out)
  show ?case
  proof (cases "snd (pop_avail R rx m) = Inr None")
    case True
    then obtain q where pop: "pop_avail R rx m = (q, Inr None)" by (metis prod.collapse)
    with 2(2) pop_avail_NoneD [OF pop] show ?thesis by (intro exI [of _ 0]) auto
  next
    case False
    with 2(2) obtain rx1 chain m1 n rx2 m2 where pop: "pop_avail R rx m = (rx1, Inr (Some chain))"
      and wr: "write_writable R chain m (VsockHeader_to_bytes (op_header pkt) @ op_payload pkt) = (m1, Inr n)"
      and push: "push_used R rx1 m1 (dc_head chain) (of_nat n) = (rx2, m2, Inr ())"
      and rest: "flush_loop R rx2 m2 True out = (rx', m', c', out', Inr ())"
      by (auto simp: Let_def split: prod.splits sum.splits option.splits)
    from 2(1) [OF pop [symmetric] refl refl refl wr [symmetric] refl push [symmetric] refl refl rest]
    obtain k where k: "k \<le> length out" "out' = drop k out" "sq_next_avail rx' = sq_next_avail rx2 + of_nat k"
      "sq_next_used rx' = sq_next_used rx2 + of_nat k" "c'"
      "out' = [] \<or> pop_avail R rx' m' = (rx', Inr None)" by auto
    have "sq_next_avail rx2 = sq_next_avail rx + 1" and "sq_next_used rx2 = sq_next_used rx + 1"
      using write_push_cursor [OF push] pop_avail_SomeD(1) [OF pop] by simp_all
    with k show ?thesis by (intro exI [of _ "Suc k"]) auto
  qed
qed

subsection \<open>Properties\<close>

text \<open>
  The cached queues are rebuilt only after a cycle has seen status 0: once both exist, a reset
  and a new bring-up between two cycles leave the old ring addresses and cursors in use.
\<close>

lemma sync_keeps_cached_queues:
  assumes "dv_rx d = Some rx" and "dv_tx d = Some tx" and "mt_status t \<noteq> 0"
  shows "sync_queues (d\<lparr>dv_transport := t\<rparr>) = d\<lparr>dv_transport := t\<rparr>"
  using assms by (simp add: sync_queues_def)

lemma sync_keeps_tx: "dv_tx d = Some q \<Longrightarrow> mt_status (dv_transport d) \<noteq> 0 \<Longrightarrow> dv_tx (sync_queues d) = Some q"
  by (auto simp: sync_queues_def Let_def split: option.split)

text \<open>
  C27: A device cycle returns. On any guest memory that keeps the contract, whatever the guest
  put into its rings, descriptors and packets, \<^verbatim>\<open>process\<close> terminates, provided the used ring of
  the transmit queue does not overlap the available index the loop polls.
\<close>

theorem process_total:
  assumes "guest_ram R" and "\<And>tx. dv_tx (sync_queues d) = Some tx \<Longrightarrow> rings_apart tx"
  shows "\<exists>d' m' r. process R d m = Some (d', m', r)"
proof -
  have vr: "vq_ram R" using assms(1) by (simp add: vq_ram_def)
  have "\<exists>x. drain_tx R (sync_queues d) m = Some x"
  proof (cases "dv_tx (sync_queues d)")
    case None
    then show ?thesis by (simp add: drain_tx_def)
  next
    case (Some tx)
    have "unat (idx - sq_next_avail tx) \<le> 2 ^ LENGTH(16)" for idx
      by (rule less_imp_le [OF unsigned_less])
    then obtain r where "drain_loop R tx ((sync_queues d)\<lparr>dv_tx := None\<rparr>) m False = Some r"
      using vq_ram.drain_loop_total [OF vr assms(2) [OF Some]] by blast
    with Some show ?thesis by (cases r) (simp add: drain_tx_def)
  qed
  then obtain d1 m1 r1 where "drain_tx R (sync_queues d) m = Some (d1, m1, r1)" by auto
  then show ?thesis by (auto simp: process_def Let_def split: sum.split prod.split)
qed

text \<open>A live device on the sample queue and memory.\<close>

definition sample_device :: vsock_device where
  "sample_device = (VsockDevice_new 3 TableConfig_default)
     \<lparr>dv_transport := (new_vsock 3)\<lparr>mt_status := 15\<rparr>, dv_table := sample_table\<rparr>"

theorem process_total_witness:
  "\<exists>d' m' r. process sample_ops (sample_device\<lparr>dv_tx := Some sample_queue\<rparr>) (sample_ram 0) = Some (d', m', r)"
proof (rule process_total [OF vsock_ram.guest_ram_axioms])
  fix tx assume "dv_tx (sync_queues (sample_device\<lparr>dv_tx := Some sample_queue\<rparr>)) = Some tx"
  moreover have "mt_status (dv_transport (sample_device\<lparr>dv_tx := Some sample_queue\<rparr>)) \<noteq> 0"
    by (simp add: sample_device_def)
  ultimately have "tx = sample_queue"
    using sync_keeps_tx [of "sample_device\<lparr>dv_tx := Some sample_queue\<rparr>" sample_queue] by simp
  then show "rings_apart tx" by (simp add: rings_apart_def sample_queue_def)
qed

text \<open>
  A packet from the guest, end to end. A well-formed packet acts on the streams as the stream
  specification says; its payload, exactly the \<open>len\<close> bytes after the header, is delivered to
  the application when its stream is open; the answer of the specification is queued for the
  guest; nothing else is delivered or queued. A packet whose header does not parse changes
  nothing.
\<close>

theorem guest_packet_handled:
  assumes "table_reachable cfg (dv_table d)"
  shows "case VsockHeader_from_bytes raw of
      Err e \<Rightarrow> handle_guest_packet d raw = d
    | Ok h \<Rightarrow>
        let d' = handle_guest_packet d raw;
            s = streams (dv_table d) (incoming_id h);
            (s', v) = spec_step (vh_dst_port h \<in> ct_listening (dv_table d)) s (vh_op h)
        in streams (dv_table d') = (streams (dv_table d))(incoming_id h := s') \<and>
           (44 + unat (vh_len h) \<le> length raw \<longrightarrow> dv_inbound d' = dv_inbound d @
             (if v = Deliver \<and> vh_len h \<noteq> 0 then [(incoming_id h, slice_at 44 (unat (vh_len h)) raw)] else [])) \<and>
           dv_outbound d' = dv_outbound d @
             (case spec_reply cfg h v of SendReply a \<Rightarrow> [\<lparr>op_header = a, op_payload = []\<rparr>] | _ \<Rightarrow> [])"
proof (cases "VsockHeader_from_bytes raw")
  case (Inl e)
  then show ?thesis by (simp add: handle_guest_packet_malformed)
next
  case (Inr h)
  let ?sv = "spec_step (vh_dst_port h \<in> ct_listening (dv_table d)) (streams (dv_table d) (incoming_id h)) (vh_op h)"
  have inv: "table_inv (dv_table d)" and cfg: "ct_cfg (dv_table d) = cfg"
    using table_reachable_inv [OF assms] by simp_all
  have own: "streams (fst (dispatch (dv_table d) h)) (incoming_id h) = fst ?sv"
    and reply: "snd (dispatch (dv_table d) h) = spec_reply cfg h (snd ?sv)"
    using dispatch_spec [OF inv, of h] by (simp_all add: map_prod_def split_beta cfg)
  have "streams (fst (dispatch (dv_table d) h)) = (streams (dv_table d))(incoming_id h := fst ?sv)"
    using own by (auto simp: fun_eq_iff streams_def dispatch_frame)
  moreover have "dv_inbound (handle_guest_packet d raw) = dv_inbound d @
      (if snd ?sv = Deliver \<and> vh_len h \<noteq> 0 then [(incoming_id h, slice_at 44 (unat (vh_len h)) raw)] else [])"
    if "44 + unat (vh_len h) \<le> length raw"
    using that by (cases "snd ?sv")
      (simp_all add: handle_guest_packet_def Inr Let_def split_beta reply VSOCK_HDR_LEN_def)
  moreover have "dv_outbound (handle_guest_packet d raw) = dv_outbound d @
      (case spec_reply cfg h (snd ?sv) of SendReply a \<Rightarrow> [\<lparr>op_header = a, op_payload = []\<rparr>] | _ \<Rightarrow> [])"
    by (cases "snd ?sv") (simp_all add: handle_guest_packet_def Inr Let_def split_beta reply)
  ultimately show ?thesis
    by (simp add: Inr Let_def split_beta handle_guest_packet_table)
qed

theorem guest_packet_handled_witness:
  "let h = sample_request\<lparr>vh_op := Rw, vh_len := 2\<rparr> in
   dv_inbound (handle_guest_packet sample_device (VsockHeader_to_bytes h @ [65, 66])) =
     [(incoming_id sample_request, [65, 66])]"
proof -
  let ?h = "sample_request\<lparr>vh_op := Rw, vh_len := 2\<rparr>"
  let ?raw = "VsockHeader_to_bytes ?h @ [65, 66]"
  have p: "VsockHeader_from_bytes ?raw = Ok ?h" using vsock_codec.dec_enc [of ?h] by simp
  have i: "incoming_id ?h = incoming_id sample_request" by (simp add: incoming_id_def)
  have len: "length (VsockHeader_to_bytes ?h) = 44"
    using vsock_codec.enc_length [of ?h] by (simp add: VSOCK_HDR_LEN_def)
  then have bytes: "slice_at 44 2 ?raw = [65, 66]" by (simp add: slice_at_def)
  have t: "dv_table sample_device = sample_table" "dv_inbound sample_device = []"
    by (simp_all add: sample_device_def VsockDevice_new_def)
  have "table_reachable TableConfig_default (dv_table sample_device)"
    unfolding t by (rule sample_reachable)
  from guest_packet_handled [OF this, of ?raw] show ?thesis
    using bytes len by (simp add: p t i streams_def sample_connection Let_def)
qed

text \<open>
  Outbound packets reach the guest in order and are completed exactly once. A successful
  \<^verbatim>\<open>flush_rx\<close> removes a prefix of the outbound queue, consuming one available buffer and
  completing one used element per packet, reports completion exactly when it delivered
  something, and stops early only when the guest has no buffer left.
\<close>

theorem flush_rx_in_order:
  assumes "dv_rx d = Some rx" and "flush_rx R d m = (d', m', Ok c)"
  shows "\<exists>k rx'. dv_rx d' = Some rx' \<and> k \<le> length (dv_outbound d) \<and>
    dv_outbound d' = drop k (dv_outbound d) \<and> (c \<longleftrightarrow> 0 < k) \<and>
    sq_next_avail rx' = sq_next_avail rx + of_nat k \<and> sq_next_used rx' = sq_next_used rx + of_nat k \<and>
    (dv_outbound d' = [] \<or> pop_avail R rx' m' = (rx', Ok None))"
proof -
  obtain rx' m2 c2 out r where f: "flush_loop R rx m False (dv_outbound d) = (rx', m2, c2, out, r)"
    by (cases "flush_loop R rx m False (dv_outbound d)")
  with assms have "d' = d\<lparr>dv_rx := Some rx', dv_outbound := out\<rparr>" "m2 = m'" "r = Inr ()" "c2 = c"
    by (auto simp: flush_rx_def and_then_eqs)
  with flush_loop_Ok [of R rx m False "dv_outbound d" rx' m2 c2 out] f show ?thesis by auto
qed

theorem flush_rx_in_order_witness:
  "let d = sample_device\<lparr>dv_rx := Some sample_queue,
         dv_outbound := [\<lparr>op_header = sample_request, op_payload = []\<rparr>]\<rparr>
   in \<exists>d' m' c. flush_rx sample_ops d (sample_ram 2) = (d', m', Ok c) \<and> dv_outbound d' = [] \<and> c"
proof -
  let ?d = "sample_device\<lparr>dv_rx := Some sample_queue,
         dv_outbound := [\<lparr>op_header = sample_request, op_payload = []\<rparr>]\<rparr>"
  have len: "length (VsockHeader_to_bytes sample_request) = 44"
    using vsock_codec.enc_length [of sample_request] by (simp add: VSOCK_HDR_LEN_def)
  have "\<exists>q m'. flush_loop sample_ops sample_queue (sample_ram 2) False (dv_outbound ?d) = (q, m', True, [], Ok ())"
    by (simp add: sample_pop write_writable_def len sample_write push_used_def write_u32_def write_u16_def
        USED_ENTRY_LEN_def Let_def) (simp add: sample_queue_def sample_write write_u32_def write_u16_def Let_def)
  then obtain d' m' where f: "flush_rx sample_ops ?d (sample_ram 2) = (d', m', Ok True)"
    by (auto simp: flush_rx_def)
  have "dv_rx ?d = Some sample_queue" by simp
  from flush_rx_in_order [OF this f] have "dv_outbound d' = []"
    by (auto simp: Suc_le_eq)
  with f show ?thesis unfolding Let_def by blast
qed

text \<open>
  The interrupt is raised exactly when a cycle succeeds and completed a buffer; a cycle
  that fails leaves the transport untouched, even when buffers were completed before the
  error. The table stays one that the public operations produce.
\<close>

theorem process_interrupt_exact:
  assumes "process R d m = Some (d', m', r)" and "table_reachable cfg (dv_table d)"
  shows "dv_transport d' =
      (if r = Ok True then raise_interrupt (dv_transport d) else dv_transport d) \<and>
    table_reachable cfg (dv_table d')"
proof -
  have sync: "dv_transport (sync_queues d) = dv_transport d" "dv_table (sync_queues d) = dv_table d"
    by (simp_all add: sync_queues_def Let_def split: option.split)
  from assms(1) obtain d1 m1 r1 where dr: "drain_tx R (sync_queues d) m = Some (d1, m1, r1)"
    by (auto simp: process_def split: option.splits)
  have t1: "dv_transport d1 = dv_transport d" "table_reachable cfg (dv_table d1)"
    using drain_tx_frame [OF dr] assms(2) by (simp_all add: sync)
  have fl: "dv_transport (fst (flush_rx R d1 m1)) = dv_transport d1"
    "dv_table (fst (flush_rx R d1 m1)) = dv_table d1"
    by (simp_all add: flush_rx_def split_beta split: option.split)
  show ?thesis
    using assms(1) t1 fl by (auto simp: process_def dr Let_def split: sum.splits prod.splits if_splits)
qed

theorem process_interrupt_exact_witness:
  "\<exists>d' m'. process sample_ops sample_device (sample_ram 0) = Some (d', m', Ok False) \<and>
     dv_transport d' = dv_transport sample_device"
proof -
  have "sync_queues sample_device = sample_device"
    by (simp add: sync_queues_def sample_device_def VsockDevice_new_def mmio_queue_def new_vsock_def
        RX_QUEUE_def TX_QUEUE_def VIRTIO_VSOCK_NUM_QUEUES_def SplitQueue_new_def QueueConfig_default_def Let_def)
  then have p: "process sample_ops sample_device (sample_ram 0) = Some (sample_device, sample_ram 0, Ok False)"
    by (simp add: process_def drain_tx_def flush_rx_def sample_device_def VsockDevice_new_def Let_def)
  have "table_reachable TableConfig_default (dv_table sample_device)"
    using sample_reachable by (simp add: sample_device_def)
  from process_interrupt_exact [OF p this] p show ?thesis by auto
qed

end
