(* ===== verification/Snapshot_Format.thy ===== *)
theory Snapshot_Format
  imports Nano_Prelude
begin

text \<open>
  The snapshot file formats of \<^verbatim>\<open>crates/snapshot/src/lib.rs\<close>: the 64-byte header of the memory
  backing file with its validation, parser and serializers, and the version check of the
  manifest (JSON parsing and printing are arguments). The header parser is proved to accept
  exactly the headers its validation accepts, ignoring the reserved tail, and the writer to
  produce only files the parser reads back.
\<close>

definition FORMAT_VERSION :: u32 where "FORMAT_VERSION = 1"
definition MEMORY_DATA_OFFSET :: u64 where "MEMORY_DATA_OFFSET = 4096"
definition BACKING_HDR_LEN :: nat where "BACKING_HDR_LEN = 64"

text \<open>The magic \<^verbatim>\<open>NANOVMS1\<close> in ASCII.\<close>

definition BACKING_MAGIC :: bytes where
  "BACKING_MAGIC = [0x4e, 0x41, 0x4e, 0x4f, 0x56, 0x4d, 0x53, 0x31]"

datatype ('j, 'io) snapshot_error =
    ShortHeader nat nat
  | ShortBuffer nat nat
  | BadMagic bytes
  | VersionMismatch u32 u32
  | Inconsistent u32 u64 u64
  | Json 'j
  | Io 'io
  | InvalidGeometry u32 u64

subsection \<open>Host files\<close>

text \<open>
  A host path is its list of components. The operations of \<^verbatim>\<open>std::fs\<close> the crates call act on a
  file system state and may fail with an I/O error.
\<close>

type_synonym path = "string list"

record ('io, 'f) fs_ops =
  fs_create_dir_all :: "'f \<Rightarrow> path \<Rightarrow> 'f \<times> ('io, unit) result"
  fs_write :: "'f \<Rightarrow> path \<Rightarrow> bytes \<Rightarrow> 'f \<times> ('io, unit) result"
  fs_read :: "'f \<Rightarrow> path \<Rightarrow> ('io, bytes) result"
  fs_set_permissions :: "'f \<Rightarrow> path \<Rightarrow> u32 \<Rightarrow> 'f \<times> ('io, unit) result"
  fs_remove_dir_all :: "'f \<Rightarrow> path \<Rightarrow> 'f \<times> ('io, unit) result"

subsection \<open>Manifest\<close>

record manifest =
  mf_format_version :: u32
  mf_snapshot_id :: u64
  mf_created_at_unix_ms :: u64
  mf_memory_bytes :: u64
  mf_page_size :: u32
  mf_vcpu_count :: u32
  mf_kernel_cmdline :: string
  mf_backing_file :: string
  mf_labels :: "string \<rightharpoonup> string"

definition default_backing_file :: string where
  "default_backing_file = ''memory.cow''"

definition Manifest_new :: "u64 \<Rightarrow> u64 \<Rightarrow> u32 \<Rightarrow> u32 \<Rightarrow> manifest" where
  "Manifest_new snapshot_id memory_bytes page_size vcpu_count =
     \<lparr>mf_format_version = FORMAT_VERSION, mf_snapshot_id = snapshot_id, mf_created_at_unix_ms = 0,
      mf_memory_bytes = memory_bytes, mf_page_size = page_size, mf_vcpu_count = vcpu_count,
      mf_kernel_cmdline = [], mf_backing_file = default_backing_file, mf_labels = Map.empty\<rparr>"

definition Manifest_from_json ::
    "(bytes \<Rightarrow> ('j, manifest) result) \<Rightarrow> bytes \<Rightarrow> (('j, 'io) snapshot_error, manifest) result" where
  "Manifest_from_json from_slice b =
     and_then (map_err Json (from_slice b)) (\<lambda>parsed.
       if mf_format_version parsed \<noteq> FORMAT_VERSION
       then Err (VersionMismatch (mf_format_version parsed) FORMAT_VERSION)
       else Ok parsed)"

definition to_json_pretty ::
    "(manifest \<Rightarrow> ('j, bytes) result) \<Rightarrow> manifest \<Rightarrow> (('j, 'io) snapshot_error, bytes) result" where
  "to_json_pretty to_vec_pretty m = map_err Json (to_vec_pretty m)"

definition FILE_NAME :: string where "FILE_NAME = ''manifest.json''"

definition Manifest_write_to_dir ::
    "('io, 'f) fs_ops \<Rightarrow> (manifest \<Rightarrow> ('j, bytes) result) \<Rightarrow> manifest \<Rightarrow> path \<Rightarrow> 'f \<Rightarrow>
     'f \<times> (('j, 'io) snapshot_error, unit) result" where
  "Manifest_write_to_dir F to_vec_pretty m dir fs =
     (case fs_create_dir_all F fs dir of
        (fs, Inl e) \<Rightarrow> (fs, Err (Io e))
      | (fs, Inr _) \<Rightarrow>
          (case to_json_pretty to_vec_pretty m of
             Inl e \<Rightarrow> (fs, Err e)
           | Inr b \<Rightarrow>
               (case fs_write F fs (dir @ [FILE_NAME]) b of
                  (fs, Inl e) \<Rightarrow> (fs, Err (Io e))
                | (fs, Inr _) \<Rightarrow> (fs, Ok ()))))"

definition Manifest_read_from_dir ::
    "('io, 'f) fs_ops \<Rightarrow> (bytes \<Rightarrow> ('j, manifest) result) \<Rightarrow> path \<Rightarrow> 'f \<Rightarrow>
     (('j, 'io) snapshot_error, manifest) result" where
  "Manifest_read_from_dir F from_slice dir fs =
     and_then (map_err Io (fs_read F fs (dir @ [FILE_NAME]))) (\<lambda>b. Manifest_from_json from_slice b)"

subsection \<open>Backing-file header\<close>

record backing_header =
  bh_format_version :: u32
  bh_page_size :: u32
  bh_page_count :: u64
  bh_memory_bytes :: u64
  bh_flags :: u32

definition checked_geometry :: "u32 \<Rightarrow> u64 \<Rightarrow> (('j, 'io) snapshot_error, u64) result" where
  "checked_geometry page_size page_count =
     (if page_size = 0 then Err (InvalidGeometry page_size page_count)
      else ok_or (InvalidGeometry page_size page_count) (checked_mul (ucast page_size) page_count))"

definition BackingFileHeader_new :: "u32 \<Rightarrow> u64 \<Rightarrow> (('j, 'io) snapshot_error, backing_header) result" where
  "BackingFileHeader_new page_size page_count =
     and_then (checked_geometry page_size page_count) (\<lambda>memory_bytes.
       Ok \<lparr>bh_format_version = FORMAT_VERSION, bh_page_size = page_size, bh_page_count = page_count,
           bh_memory_bytes = memory_bytes, bh_flags = 0\<rparr>)"

definition BackingFileHeader_validate :: "backing_header \<Rightarrow> (('j, 'io) snapshot_error, unit) result" where
  "BackingFileHeader_validate h =
     (if bh_format_version h \<noteq> FORMAT_VERSION
      then Err (VersionMismatch (bh_format_version h) FORMAT_VERSION)
      else and_then (checked_geometry (bh_page_size h) (bh_page_count h)) (\<lambda>derived.
        if derived \<noteq> bh_memory_bytes h
        then Err (Inconsistent (bh_page_size h) (bh_page_count h) (bh_memory_bytes h))
        else Ok ()))"

definition BackingFileHeader_from_bytes :: "bytes \<Rightarrow> (('j, 'io) snapshot_error, backing_header) result" where
  "BackingFileHeader_from_bytes buf =
     (if length buf < BACKING_HDR_LEN then Err (ShortHeader (length buf) BACKING_HDR_LEN)
      else
        let magic = slice_at 0 8 buf in
        if magic \<noteq> BACKING_MAGIC then Err (BadMagic magic)
        else
          let format_version = from_le (slice_at 8 4 buf) in
          if format_version \<noteq> FORMAT_VERSION then Err (VersionMismatch format_version FORMAT_VERSION)
          else
            let page_size = from_le (slice_at 12 4 buf);
                page_count = from_le (slice_at 16 8 buf);
                memory_bytes = from_le (slice_at 24 8 buf);
                flags = from_le (slice_at 32 4 buf)
            in and_then (checked_geometry page_size page_count) (\<lambda>derived.
                 if derived \<noteq> memory_bytes then Err (Inconsistent page_size page_count memory_bytes)
                 else Ok \<lparr>bh_format_version = format_version, bh_page_size = page_size,
                          bh_page_count = page_count, bh_memory_bytes = memory_bytes,
                          bh_flags = flags\<rparr>))"

definition BackingFileHeader_write_to ::
    "backing_header \<Rightarrow> bytes \<Rightarrow> (('j, 'io) snapshot_error, nat \<times> bytes) result" where
  "BackingFileHeader_write_to h buf =
     and_then (BackingFileHeader_validate h) (\<lambda>_.
       if length buf < BACKING_HDR_LEN then Err (ShortBuffer (length buf) BACKING_HDR_LEN)
       else
         let buf = copy_into 0 BACKING_MAGIC buf;
             buf = copy_into 8 (to_le 4 (bh_format_version h)) buf;
             buf = copy_into 12 (to_le 4 (bh_page_size h)) buf;
             buf = copy_into 16 (to_le 8 (bh_page_count h)) buf;
             buf = copy_into 24 (to_le 8 (bh_memory_bytes h)) buf;
             buf = copy_into 32 (to_le 4 (bh_flags h)) buf;
             buf = copy_into 36 (replicate (BACKING_HDR_LEN - 36) 0) buf
         in Ok (BACKING_HDR_LEN, buf))"

definition BackingFileHeader_to_bytes :: "backing_header \<Rightarrow> bytes" where
  "BackingFileHeader_to_bytes h =
     (let out = replicate BACKING_HDR_LEN 0;
          out = copy_into 0 BACKING_MAGIC out;
          out = copy_into 8 (to_le 4 (bh_format_version h)) out;
          out = copy_into 12 (to_le 4 (bh_page_size h)) out;
          out = copy_into 16 (to_le 8 (bh_page_count h)) out;
          out = copy_into 24 (to_le 8 (bh_memory_bytes h)) out;
          out = copy_into 32 (to_le 4 (bh_flags h)) out
      in out)"

subsection \<open>Layout\<close>

definition backing_layout :: "backing_header \<Rightarrow> bytes" where
  "backing_layout h =
     BACKING_MAGIC @ to_le 4 (bh_format_version h) @ to_le 4 (bh_page_size h) @
     to_le 8 (bh_page_count h) @ to_le 8 (bh_memory_bytes h) @ to_le 4 (bh_flags h)"

lemma length_backing_layout [simp]: "length (backing_layout h) = 36"
  by (simp add: backing_layout_def BACKING_MAGIC_def)

lemma length_BACKING_MAGIC [simp]: "length BACKING_MAGIC = 8"
  by (simp add: BACKING_MAGIC_def)

lemma BackingFileHeader_to_bytes_eq:
  "BackingFileHeader_to_bytes h = backing_layout h @ replicate 28 0"
  by (simp add: BackingFileHeader_to_bytes_def backing_layout_def BACKING_HDR_LEN_def Let_def
      copy_into_first copy_into_next del: append_assoc)

lemma BackingFileHeader_write_to_eq:
  "64 \<le> length buf \<Longrightarrow> BackingFileHeader_validate h = (Inr () :: (('j, 'io) snapshot_error, unit) result) \<Longrightarrow>
    BackingFileHeader_write_to h buf =
      (Inr (64, backing_layout h @ replicate 28 0 @ drop 64 buf) :: (('j, 'io) snapshot_error, nat \<times> bytes) result)"
  by (simp add: BackingFileHeader_write_to_def backing_layout_def BACKING_HDR_LEN_def Let_def
      copy_into_first copy_into_next flip: append_assoc)

text \<open>What the validation accepts: no zero page, no overflow, and a consistent size.\<close>

lemma checked_geometry_Ok_iff:
  "checked_geometry ps pc = Inr m \<longleftrightarrow> ps \<noteq> 0 \<and> unat ps * unat pc < 2 ^ 64 \<and> unat m = unat ps * unat pc"
  by (auto simp: checked_geometry_def checked_mul_Some_iff unat_ucast_widen)

lemma BackingFileHeader_validate_iff:
  "BackingFileHeader_validate h = Inr () \<longleftrightarrow> bh_format_version h = 1 \<and> bh_page_size h \<noteq> 0 \<and>
     unat (bh_memory_bytes h) = unat (bh_page_size h) * unat (bh_page_count h)"
proof -
  have "unat (bh_memory_bytes h) < 2 ^ LENGTH(64)" by (rule unsigned_less)
  then have "unat (bh_memory_bytes h) < 2 ^ 64" by simp
  then show ?thesis
    by (auto simp: BackingFileHeader_validate_def and_then_eqs checked_geometry_Ok_iff FORMAT_VERSION_def
        word_unat_eq_iff)
qed

definition header_ok :: "backing_header \<Rightarrow> bool" where
  "header_ok h \<longleftrightarrow> bh_format_version h = 1 \<and> bh_page_size h \<noteq> 0 \<and>
     unat (bh_memory_bytes h) = unat (bh_page_size h) * unat (bh_page_count h)"

lemma backing_slices:
  assumes "64 \<le> length b"
  shows "take 36 b = slice_at 0 8 b @ slice_at 8 4 b @ slice_at 12 4 b @ slice_at 16 8 b @
    slice_at 24 8 b @ slice_at 32 4 b"
  using slice_append_adj [of 0 8 b 4] slice_append_adj [of 0 12 b 4] slice_append_adj [of 0 16 b 8]
    slice_append_adj [of 0 24 b 8] slice_append_adj [of 0 32 b 4]
  by (simp add: slice_zero_take flip: append_assoc)

lemma geometry_eq:
  "checked_geometry ps pc = Inr m \<longleftrightarrow> ps \<noteq> 0 \<and> unat m = unat ps * unat pc"
proof -
  have "unat m < 2 ^ LENGTH(64)" by (rule unsigned_less)
  then show ?thesis by (auto simp: checked_geometry_Ok_iff)
qed

lemma BackingFileHeader_from_bytes_iff:
  "BackingFileHeader_from_bytes b = Inr h \<longleftrightarrow>
    64 \<le> length b \<and> take 36 b = backing_layout h \<and> header_ok h"
proof (cases "64 \<le> length b")
  case True
  have parts: "take 36 b = backing_layout h \<longleftrightarrow> slice_at 0 8 b = BACKING_MAGIC \<and>
      slice_at 8 4 b = to_le 4 (bh_format_version h) \<and> slice_at 12 4 b = to_le 4 (bh_page_size h) \<and>
      slice_at 16 8 b = to_le 8 (bh_page_count h) \<and> slice_at 24 8 b = to_le 8 (bh_memory_bytes h) \<and>
      slice_at 32 4 b = to_le 4 (bh_flags h)"
    using True by (simp add: backing_slices backing_layout_def append_eq_append_conv)
  have field: "slice_at o4 4 b = to_le 4 w \<longleftrightarrow> from_le (slice_at o4 4 b) = w" if "o4 + 4 \<le> 64" for o4 and w :: u32
    using that True le_roundtrip_bytes(2) [of "slice_at o4 4 b"] by auto
  have field8: "slice_at o8 8 b = to_le 8 w \<longleftrightarrow> from_le (slice_at o8 8 b) = w" if "o8 + 8 \<le> 64" for o8 and w :: u64
    using that True le_roundtrip_bytes(3) [of "slice_at o8 8 b"] by auto
  let ?h = "\<lparr>bh_format_version = from_le (slice_at 8 4 b), bh_page_size = from_le (slice_at 12 4 b),
    bh_page_count = from_le (slice_at 16 8 b), bh_memory_bytes = from_le (slice_at 24 8 b),
    bh_flags = from_le (slice_at 32 4 b)\<rparr>"
  have "BackingFileHeader_from_bytes b = Inr h \<longleftrightarrow> slice_at 0 8 b = BACKING_MAGIC \<and> h = ?h \<and> header_ok h"
    using True
    by (auto simp: BackingFileHeader_from_bytes_def BACKING_HDR_LEN_def Let_def and_then_eqs header_ok_def
        FORMAT_VERSION_def geometry_eq)
  moreover have "h = ?h \<longleftrightarrow> from_le (slice_at 8 4 b) = bh_format_version h \<and>
      from_le (slice_at 12 4 b) = bh_page_size h \<and> from_le (slice_at 16 8 b) = bh_page_count h \<and>
      from_le (slice_at 24 8 b) = bh_memory_bytes h \<and> from_le (slice_at 32 4 b) = bh_flags h"
    by (cases h) auto
  ultimately show ?thesis
    unfolding parts using True by (auto simp: field field8)
qed (simp add: BackingFileHeader_from_bytes_def BACKING_HDR_LEN_def)

interpretation backing_codec: wire_codec BackingFileHeader_to_bytes BackingFileHeader_from_bytes
  BACKING_HDR_LEN "\<lambda>n. ShortHeader n BACKING_HDR_LEN" header_ok
proof (unfold_locales, goal_cases)
  case (1 x)
  show ?case by (simp add: BackingFileHeader_to_bytes_eq BACKING_HDR_LEN_def)
next
  case (2 x rest)
  then show ?case by (simp add: BackingFileHeader_from_bytes_iff BackingFileHeader_to_bytes_eq)
next
  case (3 b)
  then show ?case by (simp add: BackingFileHeader_from_bytes_def)
next
  case (4 b x)
  then show ?case by (simp add: BackingFileHeader_from_bytes_iff)
qed

subsection \<open>Properties\<close>

text \<open>
  The backing-file header codec. A file parses to \<open>h\<close> exactly when it has 64 bytes, its
  first 36 are those of the serialization of \<open>h\<close> (the reserved tail is ignored), and \<open>h\<close> has
  the current version, a non-zero page size and a memory size equal to pages times page size as
  natural numbers, so no geometry that overflows 64 bits is accepted. The constructor builds
  only such headers, and what \<^verbatim>\<open>write_to\<close> writes is read back; it refuses every header the
  parser would refuse.
\<close>

theorem backing_header_exact:
  "(BackingFileHeader_from_bytes b = (Ok h :: (('j, 'io) snapshot_error, backing_header) result) \<longleftrightarrow>
      64 \<le> length b \<and> take 36 b = take 36 (BackingFileHeader_to_bytes h) \<and>
      bh_format_version h = 1 \<and> bh_page_size h \<noteq> 0 \<and>
      unat (bh_memory_bytes h) = unat (bh_page_size h) * unat (bh_page_count h)) \<and>
   (case (BackingFileHeader_write_to h b :: (('j, 'io) snapshot_error, nat \<times> bytes) result) of
      Ok (n, b') \<Rightarrow> n = 64 \<and> length b' = length b \<and> drop 64 b' = drop 64 b \<and>
        BackingFileHeader_from_bytes b' = (Ok h :: (('j, 'io) snapshot_error, backing_header) result)
    | Err _ \<Rightarrow> length b < 64 \<or>
        \<not> is_ok (BackingFileHeader_from_bytes (BackingFileHeader_to_bytes h) :: (('j, 'io) snapshot_error, backing_header) result)) \<and>
   (case (BackingFileHeader_new ps pc :: (('j, 'io) snapshot_error, backing_header) result) of
      Ok h' \<Rightarrow> bh_page_size h' = ps \<and> bh_page_count h' = pc \<and> unat (bh_memory_bytes h') = unat ps * unat pc
    | Err e \<Rightarrow> e = InvalidGeometry ps pc \<and> (ps = 0 \<or> 2 ^ 64 \<le> unat ps * unat pc))"
proof (intro conjI)
  show "BackingFileHeader_from_bytes b = (Ok h :: (('j, 'io) snapshot_error, backing_header) result) \<longleftrightarrow>
      64 \<le> length b \<and> take 36 b = take 36 (BackingFileHeader_to_bytes h) \<and>
      bh_format_version h = 1 \<and> bh_page_size h \<noteq> 0 \<and>
      unat (bh_memory_bytes h) = unat (bh_page_size h) * unat (bh_page_count h)"
    by (simp add: BackingFileHeader_from_bytes_iff BackingFileHeader_to_bytes_eq header_ok_def)
next
  have ok: "BackingFileHeader_validate h = (Ok () :: (('j, 'io) snapshot_error, unit) result) \<longleftrightarrow> header_ok h"
    by (simp add: BackingFileHeader_validate_iff header_ok_def)
  show "case (BackingFileHeader_write_to h b :: (('j, 'io) snapshot_error, nat \<times> bytes) result) of
      Ok (n, b') \<Rightarrow> n = 64 \<and> length b' = length b \<and> drop 64 b' = drop 64 b \<and>
        BackingFileHeader_from_bytes b' = (Ok h :: (('j, 'io) snapshot_error, backing_header) result)
    | Err _ \<Rightarrow> length b < 64 \<or>
        \<not> is_ok (BackingFileHeader_from_bytes (BackingFileHeader_to_bytes h) :: (('j, 'io) snapshot_error, backing_header) result)"
  proof (cases "64 \<le> length b \<and> header_ok h")
    case True
    with ok show ?thesis
      by (simp add: BackingFileHeader_write_to_eq BackingFileHeader_from_bytes_iff)
  next
    case False
    then obtain e where "BackingFileHeader_write_to h b = (Inl e :: (('j, 'io) snapshot_error, nat \<times> bytes) result)"
      using ok by (cases "BackingFileHeader_validate h :: (('j, 'io) snapshot_error, unit) result")
        (auto simp: BackingFileHeader_write_to_def BACKING_HDR_LEN_def)
    with False show ?thesis
      by (auto simp: is_ok_iff BackingFileHeader_from_bytes_iff BackingFileHeader_to_bytes_eq header_ok_def
          backing_layout_def append_eq_append_conv to_le_inject)
  qed
next
  show "case (BackingFileHeader_new ps pc :: (('j, 'io) snapshot_error, backing_header) result) of
      Ok h' \<Rightarrow> bh_page_size h' = ps \<and> bh_page_count h' = pc \<and> unat (bh_memory_bytes h') = unat ps * unat pc
    | Err e \<Rightarrow> e = InvalidGeometry ps pc \<and> (ps = 0 \<or> 2 ^ 64 \<le> unat ps * unat pc)"
  proof (cases "checked_geometry ps pc :: (('j, 'io) snapshot_error, u64) result")
    case (Inl e)
    then show ?thesis
      by (auto simp: BackingFileHeader_new_def checked_geometry_def checked_mul_def unat_ucast_widen
          split: if_splits)
  next
    case (Inr m)
    then have "unat m = unat ps * unat pc" by (simp add: checked_geometry_Ok_iff)
    with Inr show ?thesis by (simp add: BackingFileHeader_new_def)
  qed
qed

text \<open>A file whose page count times page size overflows 64 bits is refused.\<close>

theorem backing_header_exact_witness:
  "\<not> is_ok (BackingFileHeader_from_bytes (BackingFileHeader_to_bytes
       \<lparr>bh_format_version = 1, bh_page_size = 4096, bh_page_count = 2 ^ 52, bh_memory_bytes = 0, bh_flags = 0\<rparr>)
     :: ((unit, unit) snapshot_error, backing_header) result)"
proof -
  let ?h = "\<lparr>bh_format_version = 1, bh_page_size = 4096, bh_page_count = 2 ^ 52, bh_memory_bytes = 0, bh_flags = 0\<rparr>"
  have "BackingFileHeader_write_to ?h (replicate 64 0) =
      (Err (InvalidGeometry 4096 (2 ^ 52)) :: ((unit, unit) snapshot_error, nat \<times> bytes) result)"
    by (simp add: BackingFileHeader_write_to_def BackingFileHeader_validate_def checked_geometry_def
        checked_mul_def BACKING_HDR_LEN_def FORMAT_VERSION_def)
  with backing_header_exact [where ?'j = unit and ?'io = unit and h = ?h and b = "replicate 64 0"] show ?thesis
    by simp
qed

end
