(* ===== verification/Cow_Pager.thy ===== *)
theory Cow_Pager
  imports Snapshot_Format
begin

text \<open>
  The copy-on-write fault resolver of \<^verbatim>\<open>crates/snapshot/src/runtime.rs\<close>. A pager keeps one
  resident bit per page; a fault inside guest memory either asks for the page to be copied from
  the backing file or reports it mapped. The abstract state is the set of resident pages: over
  any sequence of faults each page is populated at most once, and exactly when first touched.
\<close>

definition UFFD_API :: u64 where "UFFD_API = 0xAA"
definition UFFDIO_REGISTER_MODE_MISSING :: u64 where "UFFDIO_REGISTER_MODE_MISSING = push_bit 0 1"
definition UFFD_PAGEFAULT_FLAG_WRITE :: u64 where "UFFD_PAGEFAULT_FLAG_WRITE = push_bit 0 1"

record uffd_event =
  ue_address :: u64
  ue_flags :: u64

definition UffdPagefaultEvent_new :: "u64 \<Rightarrow> u64 \<Rightarrow> uffd_event" where
  "UffdPagefaultEvent_new address flags = \<lparr>ue_address = address, ue_flags = flags\<rparr>"

definition is_write :: "uffd_event \<Rightarrow> bool" where
  "is_write e = (ue_flags e AND UFFD_PAGEFAULT_FLAG_WRITE \<noteq> 0)"

datatype cow_fault_action =
    PopulateFromBacking u64 u64 u64 u32
  | AlreadyMapped u64 u64

datatype runtime_error =
    MisalignedBase u64 u32
  | FaultOutOfRange u64 u64 u64
  | PageCountTooLarge u64
  | ArithmeticOverflow

record cow_pager =
  cp_base_addr :: u64
  cp_page_size :: u32
  cp_page_count :: u64
  cp_resident :: "bool list"

text \<open>
  \<^verbatim>\<open>is_multiple_of\<close> of zero holds for zero only; the conversion of a \<^verbatim>\<open>u64\<close> to \<^verbatim>\<open>usize\<close> never
  fails on the 64-bit hosts the crate runs on.
\<close>

definition CowPager_new :: "u64 \<Rightarrow> backing_header \<Rightarrow> (runtime_error, cow_pager) result" where
  "CowPager_new base_addr backing =
     (let ps = ucast (bh_page_size backing) :: u64 in
      if \<not> (if ps = 0 then base_addr = 0 else base_addr mod ps = 0)
      then Err (MisalignedBase base_addr (bh_page_size backing))
      else Ok \<lparr>cp_base_addr = base_addr, cp_page_size = bh_page_size backing,
               cp_page_count = bh_page_count backing,
               cp_resident = replicate (unat (bh_page_count backing)) False\<rparr>)"

definition handle_fault :: "cow_pager \<Rightarrow> u64 \<Rightarrow> cow_pager \<times> (runtime_error, cow_fault_action) result" where
  "handle_fault p fault_addr =
     (case checked_mul (cp_page_count p) (ucast (cp_page_size p)) of
        None \<Rightarrow> (p, Err ArithmeticOverflow)
      | Some tot \<Rightarrow>
     (case checked_add (cp_base_addr p) tot of
        None \<Rightarrow> (p, Err ArithmeticOverflow)
      | Some end_addr \<Rightarrow>
          if fault_addr < cp_base_addr p \<or> fault_addr \<ge> end_addr
          then (p, Err (FaultOutOfRange fault_addr (cp_base_addr p) end_addr))
          else
     (case checked_sub fault_addr (cp_base_addr p) of
        None \<Rightarrow> (p, Err ArithmeticOverflow)
      | Some rel \<Rightarrow>
          let page_size_u64 = ucast (cp_page_size p) :: u64;
              page_index = rel div page_size_u64 in
     (case checked_add (cp_base_addr p) (page_index * page_size_u64) of
        None \<Rightarrow> (p, Err ArithmeticOverflow)
      | Some guest_page_addr \<Rightarrow>
          let idx = unat page_index in
          if cp_resident p ! idx then (p, Ok (AlreadyMapped page_index guest_page_addr))
          else
            let p = p\<lparr>cp_resident := (cp_resident p)[idx := True]\<rparr> in
     (case checked_mul page_index page_size_u64 of
        None \<Rightarrow> (p, Err ArithmeticOverflow)
      | Some data_offset \<Rightarrow>
     (case checked_add (of_nat BACKING_HDR_LEN) data_offset of
        None \<Rightarrow> (p, Err ArithmeticOverflow)
      | Some backing_offset \<Rightarrow>
          (p, Ok (PopulateFromBacking page_index guest_page_addr backing_offset (cp_page_size p)))))))))"

definition handle_event :: "cow_pager \<Rightarrow> uffd_event \<Rightarrow> cow_pager \<times> (runtime_error, cow_fault_action) result" where
  "handle_event p e = handle_fault p (ue_address e)"

definition resident_pages :: "cow_pager \<Rightarrow> nat" where
  "resident_pages p = length (filter id (cp_resident p))"

subsection \<open>Faults in terms of page numbers\<close>

text \<open>
  The pagers the constructor builds from an accepted header, and that faults keep: one bit per
  page, and guest memory ends (with room for the file header) below the top of the address
  space, so that no offset overflows.
\<close>

definition pager_ok :: "cow_pager \<Rightarrow> bool" where
  "pager_ok p \<longleftrightarrow> length (cp_resident p) = unat (cp_page_count p) \<and> cp_page_size p \<noteq> 0 \<and>
     unat (cp_base_addr p) + unat (cp_page_count p) * unat (cp_page_size p) + 64 \<le> 2 ^ 64"

definition page_of :: "cow_pager \<Rightarrow> u64 \<Rightarrow> nat" where
  "page_of p a = (unat a - unat (cp_base_addr p)) div unat (cp_page_size p)"

definition in_range :: "cow_pager \<Rightarrow> u64 \<Rightarrow> bool" where
  "in_range p a \<longleftrightarrow> unat (cp_base_addr p) \<le> unat a \<and>
     unat a < unat (cp_base_addr p) + unat (cp_page_count p) * unat (cp_page_size p)"

lemma page_of_bounds:
  assumes "pager_ok p" and "in_range p a"
  shows "page_of p a < unat (cp_page_count p)"
    and "unat (cp_base_addr p) + page_of p a * unat (cp_page_size p) \<le> unat a"
    and "unat a < unat (cp_base_addr p) + page_of p a * unat (cp_page_size p) + unat (cp_page_size p)"
proof -
  let ?ps = "unat (cp_page_size p)" and ?r = "unat a - unat (cp_base_addr p)"
  have ps: "0 < ?ps" using assms(1) by (simp add: pager_ok_def unat_gt_0)
  have r: "unat a = unat (cp_base_addr p) + ?r" "?r < unat (cp_page_count p) * ?ps"
    using assms(2) by (auto simp: in_range_def)
  show "page_of p a < unat (cp_page_count p)"
    using r ps by (simp add: page_of_def less_mult_imp_div_less)
  have "page_of p a * ?ps + ?r mod ?ps = ?r" by (simp add: page_of_def)
  moreover have "?r mod ?ps < ?ps" using ps by simp
  ultimately show "unat (cp_base_addr p) + page_of p a * ?ps \<le> unat a"
    and "unat a < unat (cp_base_addr p) + page_of p a * ?ps + ?ps" using r(1) by linarith+
qed

lemma handle_fault_out:
  assumes "pager_ok p" and "\<not> in_range p a"
  shows "\<exists>e. handle_fault p a = (p, Inl e)"
proof -
  let ?t = "unat (cp_page_count p) * unat (cp_page_size p)"
  have t: "?t < 2 ^ 64" "unat (cp_base_addr p) + ?t < 2 ^ 64" using assms(1) by (auto simp: pager_ok_def)
  then obtain tot where tot: "checked_mul (cp_page_count p) (ucast (cp_page_size p)) = Some tot"
    and ut: "unat tot = ?t"
    by (auto simp: checked_mul_def unat_ucast_widen unat_word_ariths)
  then obtain e where e: "checked_add (cp_base_addr p) tot = Some e" and ue: "unat e = unat (cp_base_addr p) + ?t"
    using t by (auto simp: checked_add_def unat_word_ariths)
  have "a < cp_base_addr p \<or> e \<le> a"
    using assms(2) by (auto simp: in_range_def word_less_nat_alt word_le_nat_alt ue)
  with tot e show ?thesis by (auto simp: handle_fault_def)
qed

lemma handle_fault_in:
  assumes ok: "pager_ok p" and r: "in_range p a"
  defines "i \<equiv> page_of p a"
  shows "handle_fault p a =
    (let addr = of_nat (unat (cp_base_addr p) + i * unat (cp_page_size p)) in
     if cp_resident p ! i then (p, Inr (AlreadyMapped (of_nat i) addr))
     else (p\<lparr>cp_resident := (cp_resident p)[i := True]\<rparr>,
           Inr (PopulateFromBacking (of_nat i) addr (of_nat (64 + i * unat (cp_page_size p))) (cp_page_size p))))"
proof -
  let ?ps = "unat (cp_page_size p)" and ?t = "unat (cp_page_count p) * unat (cp_page_size p)"
  note b = page_of_bounds [OF ok r, folded i_def]
  have t: "?t < 2 ^ 64" "unat (cp_base_addr p) + ?t < 2 ^ 64" "unat (cp_base_addr p) + ?t + 64 \<le> 2 ^ 64"
    using ok by (auto simp: pager_ok_def)
  have it: "i * ?ps + ?ps \<le> ?t" using mult_le_mono1 [of "Suc i" "unat (cp_page_count p)" ?ps] b(1) by simp
  have ps: "0 < ?ps" using ok by (simp add: pager_ok_def unat_gt_0)
  have lt: "i * ?ps < 2 ^ 64" "unat (cp_base_addr p) + i * ?ps < 2 ^ 64" "64 + i * ?ps < 2 ^ 64"
    using it ps t by linarith+
  from t obtain tot where tot: "checked_mul (cp_page_count p) (ucast (cp_page_size p)) = Some tot"
    and ut: "unat tot = ?t"
    by (auto simp: checked_mul_def unat_ucast_widen unat_word_ariths)
  then obtain e where e: "checked_add (cp_base_addr p) tot = Some e" and ue: "unat e = unat (cp_base_addr p) + ?t"
    using t by (auto simp: checked_add_def unat_word_ariths)
  have range: "\<not> (a < cp_base_addr p \<or> e \<le> a)"
    using r by (auto simp: in_range_def word_less_nat_alt word_le_nat_alt ue)
  then have rel: "checked_sub a (cp_base_addr p) = Some (a - cp_base_addr p)"
    and urel: "unat (a - cp_base_addr p) = unat a - unat (cp_base_addr p)"
    by (auto simp: checked_sub_def unat_sub not_less)
  have idx: "(a - cp_base_addr p) div ucast (cp_page_size p) = of_nat i"
    and ui: "unat (of_nat i :: u64) = i"
  proof -
    have "i < 2 ^ 64" using b(1) unsigned_less [of "cp_page_count p", where 'a = nat] by simp
    then show "unat (of_nat i :: u64) = i" by (simp add: unat_of_nat)
    then show "(a - cp_base_addr p) div ucast (cp_page_size p) = of_nat i"
      by (simp add: word_unat_eq_iff unat_div urel unat_ucast_widen i_def page_of_def)
  qed
  have um: "unat (of_nat i * ucast (cp_page_size p) :: u64) = i * ?ps"
    using lt(1) by (simp add: unat_word_ariths(2) ui unat_ucast_widen)
  have mul: "checked_mul (of_nat i) (ucast (cp_page_size p) :: u64) = Some (of_nat (i * ?ps))"
    and add: "checked_add (cp_base_addr p) (of_nat i * ucast (cp_page_size p)) =
      Some (of_nat (unat (cp_base_addr p) + i * ?ps))"
    and off: "checked_add (of_nat BACKING_HDR_LEN) (of_nat i * ucast (cp_page_size p) :: u64) =
      Some (64 + of_nat i * ucast (cp_page_size p))"
    using lt
    by (simp_all add: checked_mul_def checked_add_def um ui unat_ucast_widen BACKING_HDR_LEN_def)
  show ?thesis
    using range by (simp add: handle_fault_def tot e rel idx ui add mul off Let_def)
qed

subsection \<open>Runs\<close>

primrec fault_run :: "cow_pager \<Rightarrow> u64 list \<Rightarrow> cow_pager \<times> (runtime_error, cow_fault_action) result list" where
  "fault_run p [] = (p, [])"
| "fault_run p (a # as) =
     (let (p', r) = handle_fault p a; (p'', rs) = fault_run p' as in (p'', r # rs))"

fun populated :: "(runtime_error, cow_fault_action) result list \<Rightarrow> u64 list" where
  "populated [] = []"
| "populated (Inr (PopulateFromBacking i _ _ _) # rs) = i # populated rs"
| "populated (_ # rs) = populated rs"

text \<open>The abstract state: the resident pages.\<close>

definition resident_set :: "cow_pager \<Rightarrow> nat set" where
  "resident_set p = {i. i < length (cp_resident p) \<and> cp_resident p ! i}"

lemma resident_pages_card: "resident_pages p = card (resident_set p)"
  by (simp add: resident_pages_def resident_set_def length_filter_conv_card)

lemma handle_fault_keeps:
  assumes "pager_ok p" and "handle_fault p a = (p', r)"
  shows "pager_ok p' \<and> page_of p' = page_of p \<and> in_range p' = in_range p"
proof (cases "in_range p a")
  case True
  with assms show ?thesis
    by (auto simp: handle_fault_in Let_def pager_ok_def page_of_def [abs_def] in_range_def [abs_def] split: if_splits)
next
  case False
  with assms handle_fault_out [OF assms(1) False] show ?thesis by auto
qed

lemma handle_fault_set:
  assumes ok: "pager_ok p" and h: "handle_fault p a = (p', r)"
  shows "resident_set p' = resident_set p \<union> (if in_range p a then {page_of p a} else {})"
    and "populated (r # rs) =
      (if in_range p a \<and> page_of p a \<notin> resident_set p then of_nat (page_of p a) # populated rs else populated rs)"
proof -
  have len: "in_range p a \<Longrightarrow> page_of p a < length (cp_resident p)"
    using page_of_bounds(1) [OF ok] ok by (simp add: pager_ok_def)
  show "resident_set p' = resident_set p \<union> (if in_range p a then {page_of p a} else {})"
  proof (cases "in_range p a")
    case True
    with h len show ?thesis
      by (auto simp: handle_fault_in [OF ok True] resident_set_def nth_list_update Let_def split: if_splits)
  next
    case False
    with handle_fault_out [OF ok False] h show ?thesis by auto
  qed
  show "populated (r # rs) =
      (if in_range p a \<and> page_of p a \<notin> resident_set p then of_nat (page_of p a) # populated rs else populated rs)"
  proof (cases "in_range p a")
    case True
    with h len show ?thesis
      by (auto simp: handle_fault_in [OF ok True] resident_set_def Let_def split: if_splits)
  next
    case False
    with handle_fault_out [OF ok False] h show ?thesis by auto
  qed
qed

lemma fault_run_inv:
  assumes "pager_ok p" and "fault_run p as = (p', rs)"
  shows "distinct (map unat (populated rs)) \<and> unat ` set (populated rs) \<inter> resident_set p = {} \<and>
    resident_set p' = resident_set p \<union> unat ` set (populated rs) \<and>
    resident_set p' = resident_set p \<union> page_of p ` {a \<in> set as. in_range p a}"
  using assms
proof (induction as arbitrary: p rs)
  case Nil
  then show ?case by simp
next
  case (Cons a as)
  obtain q r where q: "handle_fault p a = (q, r)" by (cases "handle_fault p a")
  obtain rs' where run: "fault_run q as = (p', rs')" and rs: "rs = r # rs'"
    using Cons.prems(2) by (auto simp: q split: prod.splits)
  note keep = handle_fault_keeps [OF Cons.prems(1) q]
  note set = handle_fault_set [OF Cons.prems(1) q]
  have ih: "distinct (map unat (populated rs'))" "unat ` set (populated rs') \<inter> resident_set q = {}"
    "resident_set p' = resident_set q \<union> unat ` set (populated rs')"
    "resident_set p' = resident_set q \<union> page_of p ` {a \<in> set as. in_range p a}"
    using Cons.IH [OF _ run] keep by auto
  have u: "unat (of_nat (page_of p a) :: u64) = page_of p a" if "in_range p a"
  proof -
    have "unat (cp_page_count p) < 2 ^ LENGTH(64)" by (rule unsigned_less)
    with page_of_bounds(1) [OF Cons.prems(1) that] show ?thesis by (simp add: unat_of_nat)
  qed
  have cons: "{x \<in> set (a # as). in_range p x} =
      (if in_range p a then insert a {x \<in> set as. in_range p x} else {x \<in> set as. in_range p x})" by auto
  show ?case
  proof (cases "in_range p a \<and> page_of p a \<notin> resident_set p")
    case True
    with ih set(1) have "page_of p a \<notin> unat ` set (populated rs')" by auto
    with True ih set(1) show ?thesis unfolding rs set(2) cons by (auto simp: u)
  next
    case False
    then have "resident_set q = resident_set p" using set(1) by (auto split: if_splits)
    with False ih set(1) show ?thesis unfolding rs set(2) cons by auto
  qed
qed

subsection \<open>Properties\<close>



text \<open>
  Snapshot once, copy each page once. A pager built from an accepted header starts with no
  page resident; over any sequence of faults every page is populated at most once, the pages
  populated are exactly those that some fault inside guest memory touched, and the resident
  count is their number.
\<close>

theorem pages_populated_once:
  assumes "BackingFileHeader_from_bytes b = (Ok h :: (('j, 'io) snapshot_error, backing_header) result)"
    and "CowPager_new base h = Ok p"
    and "unat base + unat (bh_memory_bytes h) + 64 \<le> 2 ^ 64" and "fault_run p as = (p', rs)"
  shows "distinct (populated rs) \<and>
    unat ` set (populated rs) = {page_of p a | a. a \<in> set as \<and> unat base \<le> unat a \<and>
      unat a < unat base + unat (bh_memory_bytes h)} \<and>
    resident_pages p = 0 \<and> resident_pages p' = length (populated rs)"
proof -
  from assms(1) have h: "bh_page_size h \<noteq> 0"
    "unat (bh_memory_bytes h) = unat (bh_page_count h) * unat (bh_page_size h)"
    by (simp_all add: BackingFileHeader_from_bytes_iff header_ok_def mult.commute)
  from assms(2) have p: "p = \<lparr>cp_base_addr = base, cp_page_size = bh_page_size h,
      cp_page_count = bh_page_count h, cp_resident = replicate (unat (bh_page_count h)) False\<rparr>"
    by (auto simp: CowPager_new_def Let_def split: if_splits)
  have ok: "pager_ok p" using h assms(3) by (simp add: pager_ok_def p)
  have empty: "resident_set p = {}" by (auto simp: resident_set_def p)
  note inv = fault_run_inv [OF ok assms(4)]
  have d: "distinct (populated rs)" using inv by (simp add: distinct_map)
  have "resident_pages p' = card (unat ` set (populated rs))"
    using inv by (simp add: resident_pages_card empty)
  also have "\<dots> = length (populated rs)"
    using inv distinct_card [of "map unat (populated rs)"] by simp
  finally have "resident_pages p' = length (populated rs)" .
  moreover have "unat ` set (populated rs) = page_of p ` {a \<in> set as. in_range p a}"
    using inv unfolding empty Un_empty_left by blast
  then have "unat ` set (populated rs) = {page_of p a | a. a \<in> set as \<and> unat base \<le> unat a \<and>
      unat a < unat base + unat (bh_memory_bytes h)}"
    by (auto simp: in_range_def p h(2))
  ultimately show ?thesis using d by (simp add: resident_pages_card empty)
qed

theorem pages_populated_once_witness:
  "let h = \<lparr>bh_format_version = 1, bh_page_size = 4096, bh_page_count = 2, bh_memory_bytes = 8192, bh_flags = 0\<rparr>;
       p = \<lparr>cp_base_addr = 0x10000, cp_page_size = 4096, cp_page_count = 2, cp_resident = [False, False]\<rparr>
   in CowPager_new 0x10000 h = Ok p \<and>
      resident_pages (fst (fault_run p [0x10abc, 0x10def, 0x20])) =
      length (populated (snd (fault_run p [0x10abc, 0x10def, 0x20])))"
proof -
  let ?h = "\<lparr>bh_format_version = 1, bh_page_size = 4096, bh_page_count = 2, bh_memory_bytes = 8192, bh_flags = 0\<rparr>"
  let ?p = "\<lparr>cp_base_addr = 0x10000, cp_page_size = 4096, cp_page_count = 2, cp_resident = [False, False]\<rparr>"
  let ?r = "fault_run ?p [0x10abc, 0x10def, 0x20]"
  have "replicate 2 False = [False, False]" by (simp add: numeral_2_eq_2)
  then have new: "CowPager_new 0x10000 ?h = Ok ?p" by (simp add: CowPager_new_def Let_def)
  have parse: "BackingFileHeader_from_bytes (BackingFileHeader_to_bytes ?h) =
      (Ok ?h :: ((unit, unit) snapshot_error, backing_header) result)"
    by (rule backing_codec.roundtrip) (simp add: header_ok_def)
  have "unat (0x10000 :: u64) + unat (bh_memory_bytes ?h) + 64 \<le> 2 ^ 64" by simp
  from pages_populated_once [OF parse new this, of "[0x10abc, 0x10def, 0x20]" "fst ?r" "snd ?r"] new
  show ?thesis unfolding Let_def by simp
qed

end
