(* ===== verification/Frame_Codec.thy ===== *)
theory Frame_Codec
  imports Nano_Prelude
begin

text \<open>
  The two length-prefixed framings of the system: host to guest agent over vsock
  (\<^verbatim>\<open>crates/proto/src/frame.rs\<close>, little-endian, on byte buffers) and control plane to VM
  process (\<^verbatim>\<open>crates/vmm-ipc/src/framing.rs\<close>, big-endian, on byte streams). The JSON library
  and the asynchronous stream are arguments: \<open>to_writer\<close> returns the bytes it appended with its
  result (bytes already appended stay when it fails), \<open>from_slice\<close> parses a payload,
  \<open>write_all\<close>, \<open>flush\<close> and \<open>read_exact\<close> act on a stream state.

  Decoding is proved incremental: a verdict other than \<open>Incomplete\<close> does not change when more
  bytes arrive, and \<open>Incomplete\<close> names a number of bytes below which every extension is still
  incomplete. A buffer of encoded messages decodes to the messages in order.
\<close>

subsection \<open>Guest-agent frames\<close>

definition HEADER_BYTES :: nat where "HEADER_BYTES = 4"
definition MAX_FRAME_BYTES :: nat where "MAX_FRAME_BYTES = 16 * 1024 * 1024"

datatype 'j frame_error =
    Incomplete nat nat
  | InvalidLength u32
  | BadPayload 'j
  | PayloadTooLarge nat

fun is_incomplete :: "'j frame_error \<Rightarrow> bool" where
  "is_incomplete (Incomplete _ _) = True"
| "is_incomplete _ = False"

definition encode_value ::
    "('a \<Rightarrow> bytes \<times> ('j, unit) result) \<Rightarrow> 'a \<Rightarrow> bytes \<Rightarrow> bytes \<times> ('j frame_error, nat) result" where
  "encode_value to_writer v out =
     (let header_start = length out;
          out = out @ replicate HEADER_BYTES 0;
          payload_start = length out;
          (written, r) = to_writer v;
          out = out @ written
      in case r of
           Err e \<Rightarrow> (out, Err (BadPayload e))
         | Ok _ \<Rightarrow>
             let payload_len = length out - payload_start in
             if payload_len > MAX_FRAME_BYTES
             then (take header_start out, Err (PayloadTooLarge payload_len))
             else (copy_into header_start (to_le 4 (of_nat payload_len :: u32)) out,
                   Ok (HEADER_BYTES + payload_len)))"

definition decode_value ::
    "(bytes \<Rightarrow> ('j, 'a) result) \<Rightarrow> bytes \<Rightarrow> ('j frame_error, 'a \<times> nat) result" where
  "decode_value from_slice buf =
     (if length buf < HEADER_BYTES then Err (Incomplete (length buf) HEADER_BYTES)
      else
        let len = from_le (slice_at 0 4 buf) :: u32 in
        if unat len > MAX_FRAME_BYTES then Err (InvalidLength len)
        else
          let total_len = HEADER_BYTES + unat len in
          if length buf < total_len then Err (Incomplete (length buf) total_len)
          else
            let payload = slice_at HEADER_BYTES (total_len - HEADER_BYTES) buf in
            and_then (map_err BadPayload (from_slice payload)) (\<lambda>v. Ok (v, total_len)))"

subsection \<open>VM-process frames\<close>

definition DEFAULT_MAX_FRAME_BYTES :: nat where "DEFAULT_MAX_FRAME_BYTES = 4 * 1024 * 1024"

datatype ('io, 'j) ipc_error =
    Io 'io
  | FrameTooLarge nat nat
  | BadJson 'j

definition write_frame ::
    "('w \<Rightarrow> bytes \<Rightarrow> 'w \<times> ('io, unit) result) \<Rightarrow> ('w \<Rightarrow> 'w \<times> ('io, unit) result) \<Rightarrow>
     ('a \<Rightarrow> ('j, bytes) result) \<Rightarrow> 'w \<Rightarrow> 'a \<Rightarrow> 'w \<times> (('io, 'j) ipc_error, unit) result" where
  "write_frame write_all flush to_vec w value =
     (case to_vec value of
        Err e \<Rightarrow> (w, Err (BadJson e))
      | Ok payload \<Rightarrow>
          if length payload \<ge> 2 ^ 32 then (w, Err (FrameTooLarge (length payload) (2 ^ 32 - 1)))
          else let len = of_nat (length payload) :: u32
          in case write_all w (to_be 4 len) of
               (w, Inl e) \<Rightarrow> (w, Err (Io e))
             | (w, Inr _) \<Rightarrow>
                 (case write_all w payload of
                    (w, Inl e) \<Rightarrow> (w, Err (Io e))
                  | (w, Inr _) \<Rightarrow>
                      (case flush w of
                         (w, Inl e) \<Rightarrow> (w, Err (Io e))
                       | (w, Inr _) \<Rightarrow> (w, Ok ()))))"

definition read_frame_with_cap ::
    "('r \<Rightarrow> nat \<Rightarrow> 'r \<times> ('io, bytes) result) \<Rightarrow> (bytes \<Rightarrow> ('j, 'a) result) \<Rightarrow> 'r \<Rightarrow> nat \<Rightarrow>
     'r \<times> (('io, 'j) ipc_error, 'a) result" where
  "read_frame_with_cap read_exact from_slice r cap =
     (case read_exact r 4 of
        (r, Inl e) \<Rightarrow> (r, Err (Io e))
      | (r, Inr len_buf) \<Rightarrow>
          let announced = unat (from_be len_buf :: u32) in
          if announced > cap then (r, Err (FrameTooLarge announced cap))
          else case read_exact r announced of
            (r, Inl e) \<Rightarrow> (r, Err (Io e))
          | (r, Inr payload) \<Rightarrow> (r, map_err BadJson (from_slice payload)))"

definition read_frame ::
    "('r \<Rightarrow> nat \<Rightarrow> 'r \<times> ('io, bytes) result) \<Rightarrow> (bytes \<Rightarrow> ('j, 'a) result) \<Rightarrow> 'r \<Rightarrow>
     'r \<times> (('io, 'j) ipc_error, 'a) result" where
  "read_frame read_exact from_slice r = read_frame_with_cap read_exact from_slice r DEFAULT_MAX_FRAME_BYTES"

subsection \<open>Buffers of frames\<close>

definition frame :: "bytes \<Rightarrow> bytes" where
  "frame payload = to_le 4 (of_nat (length payload) :: u32) @ payload"

lemma length_frame [simp]: "length (frame p) = 4 + length p"
  by (simp add: frame_def)

lemma encode_value_Ok:
  assumes "to_writer v = (p, Inr ())" and "length p \<le> MAX_FRAME_BYTES"
  shows "encode_value to_writer v out = (out @ frame p, Inr (4 + length p))"
  using assms by (simp add: encode_value_def frame_def HEADER_BYTES_def copy_into_def Let_def)

lemma max_frame_u32: "n \<le> MAX_FRAME_BYTES \<Longrightarrow> unat (of_nat n :: u32) = n"
  by (simp add: MAX_FRAME_BYTES_def unat_of_nat)

lemma decode_value_frame:
  assumes "from_slice p = Inr v" and "length p \<le> MAX_FRAME_BYTES"
  shows "decode_value from_slice (frame p @ rest) = Inr (v, 4 + length p)"
  using assms by (simp add: decode_value_def frame_def HEADER_BYTES_def slice_at_def max_frame_u32 Let_def)

lemma decode_value_extend:
  assumes "decode_value from_slice buf = r" and "\<And>e. r = Inl e \<Longrightarrow> \<not> is_incomplete e"
  shows "decode_value from_slice (buf @ more) = r"
  using assms
  by (auto simp: decode_value_def HEADER_BYTES_def slice_at_def Let_def split: if_splits)

lemma decode_value_incomplete:
  assumes "decode_value from_slice buf = Inl (Incomplete have need)"
  shows "have = length buf \<and> length buf < need \<and> need \<le> 4 + MAX_FRAME_BYTES \<and>
    (length (buf @ more) < need \<longrightarrow>
      (\<exists>n \<ge> need. decode_value from_slice (buf @ more) = Inl (Incomplete (length (buf @ more)) n)))"
proof (cases "length buf < 4")
  case True
  with assms have *: "have = length buf" "need = 4"
    by (auto simp: decode_value_def HEADER_BYTES_def)
  then show ?thesis using True by (auto simp: decode_value_def HEADER_BYTES_def)
next
  case False
  let ?len = "unat (from_le (slice_at 0 4 buf) :: u32)"
  from assms False have "have = length buf" "need = 4 + ?len" "length buf < 4 + ?len" "?len \<le> MAX_FRAME_BYTES"
    by (auto simp: decode_value_def HEADER_BYTES_def Let_def and_then_eqs map_err_def split: if_splits sum.splits)
  moreover have "slice_at 0 4 (buf @ more) = slice_at 0 4 buf" using False by (simp add: slice_at_def)
  ultimately show ?thesis using False by (auto simp: decode_value_def HEADER_BYTES_def Let_def)
qed

text \<open>Encoding a list of messages into one buffer, and reading messages off a buffer.\<close>

fun encode_all ::
    "('a \<Rightarrow> bytes \<times> ('j, unit) result) \<Rightarrow> 'a list \<Rightarrow> bytes \<Rightarrow> bytes" where
  "encode_all to_writer vs out = fold (\<lambda>v out. fst (encode_value to_writer v out)) vs out"

function decode_all ::
    "(bytes \<Rightarrow> ('j, 'a) result) \<Rightarrow> bytes \<Rightarrow> 'a list \<times> bytes \<times> 'j frame_error" where
  "decode_all from_slice buf =
     (case decode_value from_slice buf of
        Inl e \<Rightarrow> ([], buf, e)
      | Inr (v, n) \<Rightarrow> (let (vs, rest, e) = decode_all from_slice (drop n buf) in (v # vs, rest, e)))"
  by pat_completeness auto
termination
  by (relation "measure (\<lambda>(_, buf). length buf)")
    (auto simp: decode_value_def HEADER_BYTES_def Let_def and_then_eqs split: if_splits)

declare decode_all.simps [simp del]

lemma encode_all_frames:
  assumes "\<forall>v \<in> set vs. to_writer v = (pay v, Inr ()) \<and> length (pay v) \<le> MAX_FRAME_BYTES"
  shows "encode_all to_writer vs out = out @ concat (map (\<lambda>v. frame (pay v)) vs)"
  using assms by (induction vs arbitrary: out) (simp_all add: encode_value_Ok)

lemma decode_all_frames:
  assumes "\<forall>v \<in> set vs. from_slice (pay v) = Inr v \<and> length (pay v) \<le> MAX_FRAME_BYTES"
    and "decode_value from_slice tail = Inl e"
  shows "decode_all from_slice (concat (map (\<lambda>v. frame (pay v)) vs) @ tail) = (vs, tail, e)"
  using assms(1)
proof (induction vs)
  case Nil
  then show ?case using assms(2) by (simp add: decode_all.simps [of from_slice tail])
next
  case (Cons v vs)
  then have d: "decode_value from_slice (frame (pay v) @ concat (map (\<lambda>v. frame (pay v)) vs) @ tail) =
      Inr (v, 4 + length (pay v))" by (simp add: decode_value_frame)
  from Cons show ?case
    by (simp add: decode_all.simps [of from_slice "frame (pay v) @ _"] d)
qed

subsection \<open>Properties\<close>

text \<open>
  Messages survive framing, in order. If the JSON library reads back what it writes and each
  payload fits the frame limit, then encoding any list of messages into one buffer and decoding
  it, followed by any bytes that do not yet hold a frame, yields exactly the messages and leaves
  exactly those bytes.
\<close>

theorem frames_decode_in_order:
  assumes "\<And>v. v \<in> set vs \<Longrightarrow> to_writer v = (pay v, Ok ())"
    and "\<And>v. v \<in> set vs \<Longrightarrow> from_slice (pay v) = Ok v"
    and "\<And>v. v \<in> set vs \<Longrightarrow> length (pay v) \<le> MAX_FRAME_BYTES"
    and "decode_value from_slice tail = Err e"
  shows "decode_all from_slice (encode_all to_writer vs [] @ tail) = (vs, tail, e)"
proof -
  have "encode_all to_writer vs [] = concat (map (\<lambda>v. frame (pay v)) vs)"
    using assms(1,3) by (subst encode_all_frames [of _ _ pay]) simp_all
  then show ?thesis using assms(2-4) by (simp add: decode_all_frames del: encode_all.simps)
qed

theorem frames_decode_in_order_witness:
  "decode_all (Ok :: bytes \<Rightarrow> (unit, bytes) result)
     (encode_all (\<lambda>v. (v, Ok ())) [[1, 2], [], [3]] [] @ [7]) = ([[1, 2], [], [3]], [7], Incomplete 1 4)"
  by (rule frames_decode_in_order [where pay = "\<lambda>v. v"])
    (auto simp: MAX_FRAME_BYTES_def decode_value_def HEADER_BYTES_def)

text \<open>
  Decoding is incremental and bounded. A verdict other than \<open>Incomplete\<close> is final: it does
  not change when more bytes arrive. \<open>Incomplete\<close> reports the bytes present and a larger number
  needed, never more than the limit plus the header, and as long as fewer bytes than that have
  arrived the decoder keeps asking.
\<close>

theorem decode_incremental:
  "case decode_value from_slice buf of
     Err (Incomplete h n) \<Rightarrow> h = length buf \<and> length buf < n \<and> n \<le> 4 + MAX_FRAME_BYTES \<and>
       (\<forall>more. length (buf @ more) < n \<longrightarrow>
          (\<exists>n' \<ge> n. decode_value from_slice (buf @ more) = Err (Incomplete (length (buf @ more)) n')))
   | r \<Rightarrow> (\<forall>more. decode_value from_slice (buf @ more) = r)"
proof (cases "decode_value from_slice buf")
  case (Inl e)
  show ?thesis
  proof (cases "is_incomplete e")
    case True
    then obtain h n where e: "e = Incomplete h n" by (cases e) auto
    show ?thesis using decode_value_incomplete [OF Inl [unfolded e]] by (simp add: Inl e)
  next
    case False
    then have "\<forall>more. decode_value from_slice (buf @ more) = Inl e"
      using decode_value_extend [OF Inl] by simp
    with False show ?thesis unfolding Inl by (cases e) simp_all
  qed
next
  case (Inr x)
  then show ?thesis using decode_value_extend [OF Inr] by simp
qed

theorem decode_incremental_witness:
  "\<exists>n' \<ge> 4. decode_value (Ok :: bytes \<Rightarrow> (unit, bytes) result) ([1] @ [0]) = Err (Incomplete 2 n')"
proof -
  have "decode_value (Ok :: bytes \<Rightarrow> (unit, bytes) result) [1] = Err (Incomplete 1 4)"
    by (simp add: decode_value_def HEADER_BYTES_def)
  then have "\<forall>more. length ([1] @ more) < 4 \<longrightarrow> (\<exists>n' \<ge> 4.
      decode_value (Ok :: bytes \<Rightarrow> (unit, bytes) result) ([1] @ more) = Err (Incomplete (length ([1] @ more)) n'))"
    using decode_incremental [where from_slice = "Ok :: bytes \<Rightarrow> (unit, bytes) result" and buf = "[1]"] by simp
  then show ?thesis by (elim allE [of _ "[0]"]) (simp add: numeral_2_eq_2)
qed

text \<open>
  VM-process frames. On a stream that appends what is written and hands out what it holds,
  and with a JSON library that reads back what it writes, a written frame is read back from
  the front of the stream, leaving the bytes behind it, exactly when its payload is at most 4
  MiB. A larger one (up to 4 GiB) is written without complaint and refused by the reader.
\<close>

theorem ipc_frame_roundtrip:
  assumes "\<And>s b. \<exists>s'. write_all s b = (s', Ok ()) \<and> content s' = content s @ b"
    and "\<And>s. \<exists>s'. flush s = (s', Ok ()) \<and> content s' = content s"
    and "\<And>s b rest. content s = b @ rest \<Longrightarrow> \<exists>s'. read_exact s (length b) = (s', Ok b) \<and> content s' = rest"
    and "to_vec v = Ok p" and "from_slice p = Ok v" and "length p < 2 ^ 32"
  shows "\<exists>w. write_frame write_all flush to_vec s v = (w, Ok ()) \<and>
    (\<exists>fr. content w = content s @ fr \<and>
      (\<forall>r rest. content r = fr @ rest \<longrightarrow>
        (\<exists>r'. read_frame read_exact from_slice r =
           (r', if length p \<le> 4194304 then Ok v else Err (FrameTooLarge (length p) 4194304)) \<and>
         (length p \<le> 4194304 \<longrightarrow> content r' = rest))))"
proof -
  let ?l = "of_nat (length p) :: u32" and ?h = "to_be 4 (of_nat (length p) :: u32)"
  have ul: "unat ?l = length p" using assms(6) by (simp add: unat_of_nat)
  obtain s1 where s1: "write_all s ?h = (s1, Ok ())" "content s1 = content s @ ?h" using assms(1) by blast
  obtain s2 where s2: "write_all s1 p = (s2, Ok ())" "content s2 = content s1 @ p" using assms(1) by blast
  obtain s3 where s3: "flush s2 = (s3, Ok ())" "content s3 = content s2" using assms(2) by blast
  have w: "write_frame write_all flush to_vec s v = (s3, Ok ())"
    using assms(4,6) s1 s2 s3 by (simp add: write_frame_def)
  have rd: "\<exists>r'. read_frame read_exact from_slice r =
           (r', if length p \<le> 4194304 then Ok v else Err (FrameTooLarge (length p) 4194304)) \<and>
         (length p \<le> 4194304 \<longrightarrow> content r' = rest)" if c: "content r = (?h @ p) @ rest" for r rest
  proof -
    obtain r1 where r1: "read_exact r 4 = (r1, Ok ?h)" "content r1 = p @ rest"
      using assms(3) [of r ?h "p @ rest"] c by auto
    obtain r2 where r2: "read_exact r1 (length p) = (r2, Ok p)" "content r2 = rest"
      using assms(3) [OF r1(2)] by blast
    show ?thesis
      using r1 r2 assms(5) ul
      by (simp add: read_frame_def read_frame_with_cap_def DEFAULT_MAX_FRAME_BYTES_def Let_def)
  qed
  show ?thesis using w rd s1 s2 s3 by (intro exI [of _ s3] conjI exI [of _ "?h @ p"]) auto
qed

theorem ipc_frame_roundtrip_witness:
  "\<exists>w. write_frame (\<lambda>s b. (s @ b, Ok () :: (unit, unit) result)) (\<lambda>s. (s, Ok ()))
     (Ok :: bytes \<Rightarrow> (unit, bytes) result) [] [7, 8] = (w, Ok ())"
proof -
  have read: "\<And>s b rest. s = b @ rest \<Longrightarrow>
      \<exists>s'. (\<lambda>s n. (drop n s, Ok (take n s) :: (unit, bytes) result)) s (length b) = (s', Ok b) \<and> s' = rest"
    by simp
  show ?thesis
    using ipc_frame_roundtrip [where write_all = "\<lambda>s b. (s @ b, Ok () :: (unit, unit) result)"
      and flush = "\<lambda>s. (s, Ok ())" and content = "\<lambda>s. s"
      and read_exact = "\<lambda>s n. (drop n s, Ok (take n s) :: (unit, bytes) result)"
      and to_vec = "Ok :: bytes \<Rightarrow> (unit, bytes) result" and from_slice = "Ok :: bytes \<Rightarrow> (unit, bytes) result"
      and v = "[7, 8]" and p = "[7, 8]" and s = "[]"]
    by auto
qed

end
