(* ===== verification/Std_Text.thy ===== *)
theory Std_Text
  imports Nano_Prelude "HOL-Library.Sublist"
begin

text \<open>
  What the crates use of the standard library's text types: decimal printing, UTF-8 and paths. A
  string is its bytes, one \<open>char\<close> each. A path is its raw string; two paths are equal, as keys of a map,
  when their components are.
\<close>

subsection \<open>Numbers\<close>

fun dec :: "nat \<Rightarrow> string" where
  "dec n = (if n < 10 then [char_of (48 + n)] else dec (n div 10) @ [char_of (48 + n mod 10)])"

declare dec.simps [simp del]

subsection \<open>UTF-8\<close>

text \<open>
  \<^verbatim>\<open>String::from_utf8_lossy\<close>: well-formed sequences are kept, each maximal ill-formed piece becomes
  the three bytes of U+FFFD. \<open>utf8_piece\<close> gives the length of the first piece and whether it is well formed.
\<close>

definition byte_in :: "nat \<Rightarrow> nat \<Rightarrow> bytes \<Rightarrow> nat \<Rightarrow> bool" where
  "byte_in lo hi bs n \<longleftrightarrow> n < length bs \<and> lo \<le> unat (bs ! n) \<and> unat (bs ! n) \<le> hi"

definition utf8_piece :: "bytes \<Rightarrow> nat \<times> bool" where
  "utf8_piece bs =
     (let b = unat (hd bs); cont = byte_in 0x80 0xBF bs in
      if b < 0x80 then (1, True)
      else if 0xC2 \<le> b \<and> b \<le> 0xDF then (if cont 1 then (2, True) else (1, False))
      else if 0xE0 \<le> b \<and> b \<le> 0xEF then
        (if byte_in (if b = 0xE0 then 0xA0 else 0x80) (if b = 0xED then 0x9F else 0xBF) bs 1
         then if cont 2 then (3, True) else (2, False)
         else (1, False))
      else if 0xF0 \<le> b \<and> b \<le> 0xF4 then
        (if byte_in (if b = 0xF0 then 0x90 else 0x80) (if b = 0xF4 then 0x8F else 0xBF) bs 1
         then if cont 2 then if cont 3 then (4, True) else (3, False) else (2, False)
         else (1, False))
      else (1, False))"

lemma utf8_piece_pos: "0 < fst (utf8_piece bs)"
  by (simp add: utf8_piece_def Let_def)

function utf8_lossy :: "bytes \<Rightarrow> bytes" where
  "utf8_lossy bs =
     (if bs = [] then []
      else let (n, ok) = utf8_piece bs in (if ok then take n bs else [0xEF, 0xBF, 0xBD]) @ utf8_lossy (drop n bs))"
  by pat_completeness auto
termination
  by (relation "measure length") (use utf8_piece_pos in \<open>auto simp: prod_eq_iff\<close>)

declare utf8_lossy.simps [simp del]

definition from_utf8_lossy :: "bytes \<Rightarrow> string" where
  "from_utf8_lossy bs = map (\<lambda>b. char_of (unat b)) (utf8_lossy bs)"

definition into_bytes :: "string \<Rightarrow> bytes" where
  "into_bytes s = map (\<lambda>c. of_nat (of_char c)) s"

function is_utf8 :: "bytes \<Rightarrow> bool" where
  "is_utf8 bs = (if bs = [] then True else let (n, ok) = utf8_piece bs in ok \<and> is_utf8 (drop n bs))"
  by pat_completeness auto
termination
  by (relation "measure length") (use utf8_piece_pos in \<open>auto simp: prod_eq_iff\<close>)

declare is_utf8.simps [simp del]

definition from_utf8 :: "bytes \<Rightarrow> string option" where
  "from_utf8 bs = (if is_utf8 bs then Some (map (\<lambda>b. char_of (unat b)) bs) else None)"

subsection \<open>Paths\<close>

text \<open>
  \<^verbatim>\<open>Path::components\<close> on Unix: empty and \<open>.\<close> components disappear (except a leading \<open>.\<close> of a
  relative path), \<open>..\<close> stays.
\<close>

datatype path_component = RootDir | CurDir | ParentDir | Normal string

fun split_slash :: "string \<Rightarrow> string list" where
  "split_slash [] = [[]]"
| "split_slash (c # cs) =
     (if c = CHR ''/'' then [] # split_slash cs
      else case split_slash cs of [] \<Rightarrow> [[c]] | w # ws \<Rightarrow> (c # w) # ws)"

definition is_absolute :: "string \<Rightarrow> bool" where
  "is_absolute p = (case p of [] \<Rightarrow> False | c # _ \<Rightarrow> c = CHR ''/'')"

definition classify :: "string \<Rightarrow> path_component" where
  "classify s = (if s = ''..'' then ParentDir else Normal s)"

definition components :: "string \<Rightarrow> path_component list" where
  "components p =
     (let parts = split_slash p
      in (if is_absolute p then [RootDir]
          else case parts of w # _ \<Rightarrow> if w = ''.'' then [CurDir] else [] | [] \<Rightarrow> []) @
         map classify (filter (\<lambda>s. s \<noteq> [] \<and> s \<noteq> ''.'') parts))"

lemma split_slash_nonempty [simp]: "split_slash p \<noteq> []"
  by (induction p) (auto split: list.splits)

text \<open>The components of a path without the marks of its beginning.\<close>

definition is_part :: "string \<Rightarrow> bool" where
  "is_part s \<longleftrightarrow> s \<noteq> [] \<and> s \<noteq> ''.''"

definition join_slash :: "string list \<Rightarrow> string" where
  "join_slash ws = (case ws of [] \<Rightarrow> [] | w # ws \<Rightarrow> w @ concat (map ((#) CHR ''/'') ws))"

text \<open>\<^verbatim>\<open>Path::join\<close>: a separator is added unless the base is empty or ends in one, also before an empty path.\<close>

definition path_join :: "string \<Rightarrow> string \<Rightarrow> string" where
  "path_join base rel =
     (if is_absolute rel then rel
      else if base \<noteq> [] \<and> last base \<noteq> CHR ''/'' then base @ ''/'' @ rel else base @ rel)"

definition path_starts_with :: "string \<Rightarrow> string \<Rightarrow> bool" where
  "path_starts_with p base = prefix (components base) (components p)"

text \<open>
  \<^verbatim>\<open>Path::strip_prefix\<close> gives the raw text from the first component after the prefix to the last one;
  \<^verbatim>\<open>Path::parent\<close> the raw text up to the last but one component, or nothing for a root.
\<close>

fun drop_parts :: "nat \<Rightarrow> string list \<Rightarrow> string list" where
  "drop_parts n [] = []"
| "drop_parts n (w # ws) =
     (if is_part w then (if n = 0 then w # ws else drop_parts (n - 1) ws) else drop_parts n ws)"

definition trim_parts :: "string list \<Rightarrow> string list" where
  "trim_parts ws = rev (dropWhile (\<lambda>w. \<not> is_part w) (rev ws))"

definition path_strip_prefix :: "string \<Rightarrow> string \<Rightarrow> string option" where
  "path_strip_prefix p base =
     (if path_starts_with p base
      then Some (join_slash (trim_parts (drop_parts (length (filter is_part (split_slash base))) (split_slash p))))
      else None)"

definition path_parent :: "string \<Rightarrow> string option" where
  "path_parent p =
     (case rev (components p) of
        [] \<Rightarrow> None
      | RootDir # _ \<Rightarrow> None
      | _ \<Rightarrow>
          let ws = trim_parts (butlast (trim_parts (split_slash p)))
          in Some (if is_absolute p then (if ws = [] then ''/'' else join_slash ws) else join_slash ws))"

lemma split_slash_append: "split_slash (a @ CHR ''/'' # b) = split_slash a @ split_slash b"
  by (induction a) (auto split: list.splits)

lemma split_slash_simple: "CHR ''/'' \<notin> set w \<Longrightarrow> split_slash w = [w]"
  by (induction w) auto

lemma hd_split_slash: "hd (split_slash (a @ CHR ''/'' # b)) = hd (split_slash a)"
  by (simp add: split_slash_append hd_append)

lemma components_alt:
  "components p = (if is_absolute p then [RootDir] else if hd (split_slash p) = ''.'' then [CurDir] else []) @
     map classify (filter is_part (split_slash p))"
  by (cases "split_slash p") (auto simp: components_def Let_def is_part_def [abs_def])

lemma is_absolute_append [simp]: "a \<noteq> [] \<Longrightarrow> is_absolute (a @ b) = is_absolute a"
  by (cases a) (simp_all add: is_absolute_def)

lemma components_join:
  assumes "base \<noteq> []" and "\<not> is_absolute rel"
  shows "components (path_join base rel) = components base @ map classify (filter is_part (split_slash rel))"
proof (cases "last base = CHR ''/''")
  case True
  then obtain b where b: "base = b @ ''/''" using assms(1) by (metis append_butlast_last_id)
  show ?thesis
  proof (cases "b = []")
    case True
    with b assms show ?thesis
      by (simp add: path_join_def components_alt is_absolute_def is_part_def)
  next
    case False
    then show ?thesis
      using assms b split_slash_append [of b rel] split_slash_append [of b "[]"]
      by (simp add: path_join_def components_alt hd_append is_part_def)
  qed
next
  case False
  then show ?thesis
    using assms by (simp add: path_join_def components_alt split_slash_append hd_append)
qed

subsection \<open>Parts of a path\<close>

definition parts :: "string \<Rightarrow> string list" where
  "parts p = filter is_part (split_slash p)"

lemma components_absolute: "is_absolute p \<Longrightarrow> components p = RootDir # map classify (parts p)"
  by (simp add: components_alt parts_def)

lemma classify_inject [simp]: "classify a = classify b \<longleftrightarrow> a = b"
  by (auto simp: classify_def)

lemma classify_Normal [simp]: "classify w = Normal v \<longleftrightarrow> w = v \<and> w \<noteq> ''..''"
  by (auto simp: classify_def)

lemma map_classify_inject [simp]: "map classify ws = map classify vs \<longleftrightarrow> ws = vs"
  by (rule inj_map_eq_map) (simp add: inj_on_def)

lemma map_classify_Normal: "map classify ws = map Normal vs \<longleftrightarrow> ws = vs \<and> ''..'' \<notin> set ws"
  by (induction ws arbitrary: vs) (auto simp: Cons_eq_map_conv)

lemma is_absolute_join [simp]: "is_absolute base \<Longrightarrow> is_absolute (path_join base rel)"
  by (cases "is_absolute rel") (auto simp: path_join_def is_absolute_def split: list.splits)

lemma absolute_nonempty: "is_absolute p \<Longrightarrow> p \<noteq> []"
  by (auto simp: is_absolute_def)

lemma parts_join:
  assumes "is_absolute base" and "\<not> is_absolute rel"
  shows "parts (path_join base rel) = parts base @ parts rel"
  using components_join [OF absolute_nonempty [OF assms(1)] assms(2)] assms
  by (simp add: components_absolute parts_def [symmetric] flip: map_append)

lemma split_slash_pieces: "w \<in> set (split_slash p) \<Longrightarrow> CHR ''/'' \<notin> set w"
  by (induction p arbitrary: w) (auto split: if_splits list.splits)

lemma parts_join_slash:
  assumes "\<forall>w \<in> set ws. CHR ''/'' \<notin> set w"
  shows "parts (join_slash ws) = filter is_part ws"
proof -
  have "split_slash (v @ concat (map ((#) CHR ''/'') us)) = v # us"
    if "\<forall>w \<in> set (v # us). CHR ''/'' \<notin> set w" for v us
    using that by (induction us arbitrary: v) (simp_all add: split_slash_simple split_slash_append)
  then show ?thesis using assms by (cases ws) (simp_all add: join_slash_def parts_def is_part_def)
qed

lemma filter_trim_parts: "filter is_part (trim_parts ws) = filter is_part ws"
proof -
  have "filter is_part (dropWhile (\<lambda>w. \<not> is_part w) vs) = filter is_part vs" for vs
    by (induction vs) auto
  from this [of "rev ws"] show ?thesis by (simp add: trim_parts_def rev_filter [symmetric])
qed

lemma set_trim_parts: "set (trim_parts ws) \<subseteq> set ws"
  by (auto simp: trim_parts_def dest: set_dropWhileD)

lemma filter_drop_parts: "filter is_part (drop_parts n ws) = drop n (filter is_part ws)"
  by (induction n ws rule: drop_parts.induct) (auto simp: drop_Cons')

lemma set_drop_parts: "set (drop_parts n ws) \<subseteq> set ws"
  by (induction n ws rule: drop_parts.induct) auto

lemma hd_drop_parts: "drop_parts n ws \<noteq> [] \<Longrightarrow> is_part (hd (drop_parts n ws))"
  by (induction n ws rule: drop_parts.induct) auto

lemma hd_trim_parts: "trim_parts ws \<noteq> [] \<Longrightarrow> hd (trim_parts ws) = hd ws"
proof -
  assume "trim_parts ws \<noteq> []"
  moreover have "rev ws = takeWhile (\<lambda>w. \<not> is_part w) (rev ws) @ dropWhile (\<lambda>w. \<not> is_part w) (rev ws)" by simp
  then have "ws = trim_parts ws @ rev (takeWhile (\<lambda>w. \<not> is_part w) (rev ws))"
    by (metis rev_append rev_rev_ident trim_parts_def)
  ultimately show ?thesis by (metis hd_append2)
qed

lemma strip_prefix_parts:
  assumes "path_strip_prefix p base = Some rest"
  shows "parts rest = drop (length (parts base)) (parts p) \<and> \<not> is_absolute rest"
proof -
  let ?ws = "trim_parts (drop_parts (length (parts base)) (split_slash p))"
  have rest: "rest = join_slash ?ws"
    using assms by (simp add: path_strip_prefix_def parts_def split: if_splits)
  have free: "\<forall>w \<in> set ?ws. CHR ''/'' \<notin> set w"
    using set_trim_parts set_drop_parts split_slash_pieces by blast
  have "\<not> is_absolute (join_slash ?ws)"
  proof (cases ?ws)
    case (Cons w ws)
    then have "is_part w"
      by (metis hd_drop_parts hd_trim_parts list.distinct(1) list.sel(1) list.size(3) rev.simps(1) dropWhile.simps(1) trim_parts_def)
    moreover have "CHR ''/'' \<notin> set w" using free Cons by simp
    ultimately show ?thesis using Cons by (cases w) (auto simp: join_slash_def is_absolute_def is_part_def)
  qed (simp add: join_slash_def is_absolute_def)
  then show ?thesis
    using parts_join_slash [OF free] by (simp add: rest filter_trim_parts filter_drop_parts parts_def)
qed

lemma parent_parts:
  assumes "path_parent p = Some q" and "is_absolute p"
  shows "parts q = butlast (parts p) \<and> parts p \<noteq> [] \<and> is_absolute q"
proof -
  have ne: "parts p \<noteq> []"
    using assms by (auto simp: path_parent_def components_absolute split: list.splits)
  let ?ws = "trim_parts (split_slash p)"
  have "filter is_part ?ws \<noteq> []" using ne by (simp add: filter_trim_parts parts_def)
  then have "?ws \<noteq> []" by auto
  moreover from this have "is_part (last ?ws)"
    using hd_dropWhile [of "\<lambda>w. \<not> is_part w" "rev (split_slash p)"] by (auto simp: trim_parts_def last_rev)
  ultimately have "filter is_part ?ws = filter is_part (butlast ?ws) @ [last ?ws]"
    by (metis append_butlast_last_id filter.simps(1) filter.simps(2) filter_append)
  then have bl: "filter is_part (butlast ?ws) = butlast (parts p)"
    by (simp add: filter_trim_parts parts_def)
  let ?vs = "trim_parts (butlast ?ws)"
  have free: "\<forall>w \<in> set ?vs. CHR ''/'' \<notin> set w"
    using set_trim_parts split_slash_pieces in_set_butlastD by (metis subsetD)
  have q: "q = (if ?vs = [] then ''/'' else join_slash ?vs)"
    using assms ne by (auto simp: path_parent_def Let_def split: list.splits path_component.splits)
  have "parts q = butlast (parts p)"
    using parts_join_slash [OF free] bl
    by (auto simp: q filter_trim_parts parts_def is_part_def join_slash_def)
  moreover have "is_absolute q"
  proof (cases "?vs = []")
    case False
    obtain cs where "p = CHR ''/'' # cs" using assms(2) by (auto simp: is_absolute_def split: list.splits)
    then have h: "hd (split_slash p) = []" by simp
    have "hd ?vs = hd (butlast ?ws)" using False by (rule hd_trim_parts)
    also have "butlast ?ws \<noteq> []" using False by (auto simp: trim_parts_def)
    then have "hd (butlast ?ws) = hd ?ws" by (cases ?ws) (auto split: if_splits)
    also have "\<dots> = []" using \<open>?ws \<noteq> []\<close> h hd_trim_parts by simp
    finally obtain vs where "?vs = [] # vs" using False by (cases ?vs) auto
    moreover have "vs \<noteq> []"
    proof
      assume "vs = []"
      then have "?vs = [[]]" using \<open>?vs = [] # vs\<close> by simp
      then have "dropWhile (\<lambda>w. \<not> is_part w) (rev (butlast ?ws)) = [[]]" by (simp add: trim_parts_def rev_eq_Cons_iff)
      then show False using hd_dropWhile [of "\<lambda>w. \<not> is_part w" "rev (butlast ?ws)"] by (simp add: is_part_def)
    qed
    ultimately show ?thesis by (cases vs) (simp_all add: q join_slash_def is_absolute_def)
  qed (simp add: q is_absolute_def)
  ultimately show ?thesis using ne by simp
qed

subsection \<open>Hexadecimal numbers\<close>

text \<open>The digits \<^verbatim>\<open>format!\<close> prints for \<^verbatim>\<open>{:x}\<close>, filled with zeros to a width.\<close>

definition hex_digit :: "nat \<Rightarrow> char" where
  "hex_digit n = ''0123456789abcdef'' ! n"

fun hex :: "nat \<Rightarrow> string" where
  "hex n = (if n < 16 then [hex_digit n] else hex (n div 16) @ [hex_digit (n mod 16)])"

declare hex.simps [simp del]

definition hex_pad :: "nat \<Rightarrow> nat \<Rightarrow> string" where
  "hex_pad w n = replicate (w - length (hex n)) CHR ''0'' @ hex n"

end
