(* ===== verification/Vm_Mock.thy ===== *)
theory Vm_Mock
  imports Snapshot_Format Std_Text
begin

text \<open>
  The VM data model of \<^verbatim>\<open>crates/vm-core/src/lib.rs\<close> and the in-memory hypervisor of
  \<^verbatim>\<open>crates/vm-mock/src/lib.rs\<close>. Every operation of the mock takes its mutex for its whole
  effect on the maps, so it is one function on the state; the process-wide id counters are part
  of the state. The host file system, the JSON library, the temporary directory, the process id
  and the execution of guest programs are arguments. A formatted backend message is a
  constructor with the values it prints.

  The locale \<open>fork_host\<close> is what the control plane relies on in a hypervisor: a snapshot can be
  restored any number of times, each time into a VM with a fresh id.
\<close>

subsection \<open>Data\<close>

type_synonym vm_id = u64
type_synonym snapshot_id = u64

definition VmId_display :: "vm_id \<Rightarrow> string" where
  "VmId_display i = ''vm-'' @ hex_pad 16 (unat i)"

definition SnapshotId_display :: "snapshot_id \<Rightarrow> string" where
  "SnapshotId_display k = ''snap-'' @ hex_pad 16 (unat k)"

datatype net_backend_choice = MockNet | Smoltcp

record vm_config =
  vc_vcpus :: u32
  vc_memory_mib :: u64
  vc_kernel :: "path option"
  vc_flat_binary :: "bytes option"
  vc_initrd :: "path option"
  vc_rootfs :: "path option"
  vc_cmdline :: string
  vc_vsock_cid :: "u32 option"
  vc_snapshot_dir :: "path option"
  vc_net_backend :: net_backend_choice

definition VmConfig_default :: vm_config where
  "VmConfig_default =
     \<lparr>vc_vcpus = 1, vc_memory_mib = 128, vc_kernel = None, vc_flat_binary = None, vc_initrd = None,
      vc_rootfs = None, vc_cmdline = [], vc_vsock_cid = None, vc_snapshot_dir = None,
      vc_net_backend = MockNet\<rparr>"

datatype vm_state = Created | Running | Stopped

record vm_handle =
  vm_h_id :: vm_id
  vm_h_state :: vm_state

datatype ('j, 'io) backend_error =
    SnapshotManifest "('j, 'io) snapshot_error"
  | SnapshotPersist "('j, 'io) snapshot_error"
  | ExportMkdir 'io
  | ExportWriteManifest "('j, 'io) snapshot_error"
  | AdoptReadManifest path "('j, 'io) snapshot_error"
  | ExecSpawn string 'io
  | ExecWait string 'io
  | ExecTimeout u64 u64
  | StreamExecTimeout u64
  | StreamExecWait 'io
  | StreamWithoutExit
  | CreateParent path 'io
  | WriteFileErr path 'io
  | Chmod path 'io
  | ReadFileErr path 'io
  | GuestPathNotAbsolute string
  | GuestPathEscapes string

datatype ('j, 'io) vm_error =
    Unsupported string
  | UnknownVm vm_id
  | UnknownSnapshot snapshot_id
  | InvalidTransition vm_id vm_state vm_state
  | Backend "('j, 'io) backend_error"

record vm_meta =
  vmm_id :: vm_id
  vmm_state :: vm_state
  vmm_vcpus :: u32
  vmm_memory_mib :: u64
  vmm_kernel_cmdline :: string
  vmm_snapshot_dir :: "path option"

record snapshot_meta =
  sme_id :: snapshot_id
  sme_vcpu_count :: u32
  sme_memory_bytes :: u64
  sme_page_size :: u32
  sme_kernel_cmdline :: string

record guest_exec_request =
  ger_program :: string
  ger_args :: "string list"
  ger_cwd :: "string option"
  ger_env :: "(string \<times> string) list"
  ger_timeout_ms :: "u64 option"

record guest_exec_result =
  gex_exit_code :: "int option"
  gex_signal :: "int option"
  gex_stdout :: bytes
  gex_stderr :: bytes
  gex_duration_ms :: u64

datatype exec_frame =
    Stdout bytes
  | Stderr bytes
  | Exit "int option" "int option" u64

subsection \<open>The mock's state\<close>

record mock_vm =
  mv_config :: vm_config
  mv_state :: vm_state
  mv_guest_root :: path

record mock_snapshot =
  ms_config :: vm_config
  ms_state :: vm_state

record mock_hv =
  mh_vms :: "vm_id \<rightharpoonup> mock_vm"
  mh_snapshots :: "snapshot_id \<rightharpoonup> mock_snapshot"
  mh_next_vm :: u64
  mh_next_snap :: u64

record host_env =
  he_temp_dir :: path
  he_pid :: nat

definition MockHypervisor_new :: mock_hv where
  "MockHypervisor_new = \<lparr>mh_vms = Map.empty, mh_snapshots = Map.empty, mh_next_vm = 1, mh_next_snap = 1\<rparr>"

definition VmId_next :: "mock_hv \<Rightarrow> mock_hv \<times> vm_id" where
  "VmId_next hv = (hv\<lparr>mh_next_vm := mh_next_vm hv + 1\<rparr>, mh_next_vm hv)"

definition SnapshotId_next :: "mock_hv \<Rightarrow> mock_hv \<times> snapshot_id" where
  "SnapshotId_next hv = (hv\<lparr>mh_next_snap := mh_next_snap hv + 1\<rparr>, mh_next_snap hv)"

text \<open>Decimal digits, as \<^verbatim>\<open>format!\<close> prints an integer.\<close>

definition guest_root_dir :: "host_env \<Rightarrow> vm_id \<Rightarrow> path" where
  "guest_root_dir env i =
     he_temp_dir env @ [''rust-nano-vm-mock-guest-'' @ dec (he_pid env) @ ''-'' @ dec (unat i)]"

fun resolve_loop :: "string \<Rightarrow> path_component list \<Rightarrow> path \<Rightarrow> (('j, 'io) vm_error, path) result" where
  "resolve_loop guest_path [] resolved = Ok resolved"
| "resolve_loop guest_path (RootDir # cs) resolved = resolve_loop guest_path cs resolved"
| "resolve_loop guest_path (Normal part # cs) resolved = resolve_loop guest_path cs (resolved @ [part])"
| "resolve_loop guest_path (CurDir # cs) resolved = Err (Backend (GuestPathEscapes guest_path))"
| "resolve_loop guest_path (ParentDir # cs) resolved = Err (Backend (GuestPathEscapes guest_path))"

definition resolve_guest_path :: "path \<Rightarrow> string \<Rightarrow> (('j, 'io) vm_error, path) result" where
  "resolve_guest_path root guest_path =
     (if \<not> is_absolute guest_path then Err (Backend (GuestPathNotAbsolute guest_path))
      else resolve_loop guest_path (components guest_path) root)"

subsection \<open>Operations\<close>

definition vm_count :: "mock_hv \<Rightarrow> nat" where
  "vm_count hv = card (dom (mh_vms hv))"

definition snapshot_count :: "mock_hv \<Rightarrow> nat" where
  "snapshot_count hv = card (dom (mh_snapshots hv))"

definition create_vm ::
    "('io, 'f) fs_ops \<Rightarrow> (bytes \<Rightarrow> ('j, manifest) result) \<Rightarrow> host_env \<Rightarrow> 'f \<Rightarrow> mock_hv \<Rightarrow> vm_config \<Rightarrow>
     mock_hv \<times> (('j, 'io) vm_error, vm_handle) result" where
  "create_vm F from_slice env fs hv cfg =
     (case (case vc_snapshot_dir cfg of
              None \<Rightarrow> Ok cfg
            | Some dir \<Rightarrow>
                and_then (map_err (\<lambda>e. Backend (SnapshotManifest e)) (Manifest_read_from_dir F from_slice dir fs))
                  (\<lambda>m. let mib = mf_memory_bytes m div (1024 * 1024)
                       in Ok (cfg\<lparr>vc_vcpus := mf_vcpu_count m, vc_memory_mib := mib,
                                  vc_cmdline := mf_kernel_cmdline m\<rparr>))) of
        Inl e \<Rightarrow> (hv, Err e)
      | Inr cfg \<Rightarrow>
          let (hv, i) = VmId_next hv;
              vm = \<lparr>mv_config = cfg, mv_state = Created, mv_guest_root = guest_root_dir env i\<rparr>
          in (hv\<lparr>mh_vms := (mh_vms hv)(i \<mapsto> vm)\<rparr>, Ok \<lparr>vm_h_id = i, vm_h_state = Created\<rparr>))"

definition start :: "mock_hv \<Rightarrow> vm_id \<Rightarrow> mock_hv \<times> (('j, 'io) vm_error, unit) result" where
  "start hv i =
     (case mh_vms hv i of
        None \<Rightarrow> (hv, Err (UnknownVm i))
      | Some vm \<Rightarrow>
          (case mv_state vm of
             Running \<Rightarrow> (hv, Err (InvalidTransition i Running Running))
           | _ \<Rightarrow> (hv\<lparr>mh_vms := (mh_vms hv)(i \<mapsto> vm\<lparr>mv_state := Running\<rparr>)\<rparr>, Ok ())))"

definition stop :: "mock_hv \<Rightarrow> vm_id \<Rightarrow> mock_hv \<times> (('j, 'io) vm_error, unit) result" where
  "stop hv i =
     (case mh_vms hv i of
        None \<Rightarrow> (hv, Err (UnknownVm i))
      | Some vm \<Rightarrow>
          (case mv_state vm of
             Running \<Rightarrow> (hv\<lparr>mh_vms := (mh_vms hv)(i \<mapsto> vm\<lparr>mv_state := Stopped\<rparr>)\<rparr>, Ok ())
           | other \<Rightarrow> (hv, Err (InvalidTransition i other Stopped))))"

definition state :: "mock_hv \<Rightarrow> vm_id \<Rightarrow> (('j, 'io) vm_error, vm_state) result" where
  "state hv i = ok_or (UnknownVm i) (map_option mv_state (mh_vms hv i))"

definition snapshot :: "mock_hv \<Rightarrow> vm_id \<Rightarrow> mock_hv \<times> (('j, 'io) vm_error, snapshot_id) result" where
  "snapshot hv i =
     (case mh_vms hv i of
        None \<Rightarrow> (hv, Err (UnknownVm i))
      | Some vm \<Rightarrow>
          let (hv, k) = SnapshotId_next hv
          in (hv\<lparr>mh_snapshots := (mh_snapshots hv)(k \<mapsto> \<lparr>ms_config = mv_config vm, ms_state = mv_state vm\<rparr>)\<rparr>, Ok k))"

definition restore ::
    "host_env \<Rightarrow> mock_hv \<Rightarrow> snapshot_id \<Rightarrow> mock_hv \<times> (('j, 'io) vm_error, vm_handle) result" where
  "restore env hv k =
     (case mh_snapshots hv k of
        None \<Rightarrow> (hv, Err (UnknownSnapshot k))
      | Some sn \<Rightarrow>
          let (hv, i) = VmId_next hv;
              vm = \<lparr>mv_config = ms_config sn, mv_state = ms_state sn, mv_guest_root = guest_root_dir env i\<rparr>
          in (hv\<lparr>mh_vms := (mh_vms hv)(i \<mapsto> vm)\<rparr>, Ok \<lparr>vm_h_id = i, vm_h_state = ms_state sn\<rparr>))"

definition destroy ::
    "('io, 'f) fs_ops \<Rightarrow> 'f \<Rightarrow> mock_hv \<Rightarrow> vm_id \<Rightarrow> 'f \<times> mock_hv \<times> (('j, 'io) vm_error, unit) result" where
  "destroy F fs hv i =
     (case mh_vms hv i of
        None \<Rightarrow> (fs, hv, Err (UnknownVm i))
      | Some vm \<Rightarrow>
          (fst (fs_remove_dir_all F fs (mv_guest_root vm)), hv\<lparr>mh_vms := (mh_vms hv)(i := None)\<rparr>, Ok ()))"

text \<open>The listings walk a hash map; its unspecified order is an argument.\<close>

definition list_vms :: "vm_id list \<Rightarrow> mock_hv \<Rightarrow> (('j, 'io) vm_error, vm_handle list) result" where
  "list_vms order hv =
     Ok (List.map_filter (\<lambda>i. map_option (\<lambda>vm. \<lparr>vm_h_id = i, vm_h_state = mv_state vm\<rparr>) (mh_vms hv i)) order)"

definition list_snapshots :: "snapshot_id list \<Rightarrow> mock_hv \<Rightarrow> (('j, 'io) vm_error, snapshot_id list) result" where
  "list_snapshots order hv = Ok (filter (\<lambda>k. mh_snapshots hv k \<noteq> None) order)"

definition delete_snapshot :: "mock_hv \<Rightarrow> snapshot_id \<Rightarrow> mock_hv \<times> (('j, 'io) vm_error, unit) result" where
  "delete_snapshot hv k =
     (let hv' = hv\<lparr>mh_snapshots := (mh_snapshots hv)(k := None)\<rparr>
      in if mh_snapshots hv k = None then (hv', Err (UnknownSnapshot k)) else (hv', Ok ()))"

definition vm_meta_of :: "mock_hv \<Rightarrow> vm_id \<Rightarrow> (('j, 'io) vm_error, vm_meta) result" where
  "vm_meta_of hv i =
     and_then (ok_or (UnknownVm i) (mh_vms hv i)) (\<lambda>vm.
       Ok \<lparr>vmm_id = i, vmm_state = mv_state vm, vmm_vcpus = vc_vcpus (mv_config vm),
           vmm_memory_mib = vc_memory_mib (mv_config vm), vmm_kernel_cmdline = vc_cmdline (mv_config vm),
           vmm_snapshot_dir = vc_snapshot_dir (mv_config vm)\<rparr>)"

definition snapshot_meta_of :: "mock_hv \<Rightarrow> snapshot_id \<Rightarrow> (('j, 'io) vm_error, snapshot_meta) result" where
  "snapshot_meta_of hv k =
     and_then (ok_or (UnknownSnapshot k) (mh_snapshots hv k)) (\<lambda>sn.
       Ok \<lparr>sme_id = k, sme_vcpu_count = vc_vcpus (ms_config sn),
           sme_memory_bytes = saturating_mul (vc_memory_mib (ms_config sn)) (1024 * 1024),
           sme_page_size = 4096, sme_kernel_cmdline = vc_cmdline (ms_config sn)\<rparr>)"

definition snapshot_export_dir ::
    "('io, 'f) fs_ops \<Rightarrow> (manifest \<Rightarrow> ('j, bytes) result) \<Rightarrow> host_env \<Rightarrow> 'f \<Rightarrow> mock_hv \<Rightarrow> snapshot_id \<Rightarrow>
     'f \<times> (('j, 'io) vm_error, path option) result" where
  "snapshot_export_dir F to_vec_pretty env fs hv k =
     (case snapshot_meta_of hv k of
        Inl e \<Rightarrow> (fs, Err e)
      | Inr meta \<Rightarrow>
          let dir = he_temp_dir env @ [''nanovm-mock-snapshots''] @ [dec (unat k)]
          in case fs_create_dir_all F fs dir of
               (fs, Inl e) \<Rightarrow> (fs, Err (Backend (ExportMkdir e)))
             | (fs, Inr _) \<Rightarrow>
                 let m = (Manifest_new (sme_id meta) (sme_memory_bytes meta) (sme_page_size meta)
                            (sme_vcpu_count meta))\<lparr>mf_kernel_cmdline := sme_kernel_cmdline meta\<rparr>
                 in case Manifest_write_to_dir F to_vec_pretty m dir fs of
                      (fs, Inl e) \<Rightarrow> (fs, Err (Backend (ExportWriteManifest e)))
                    | (fs, Inr _) \<Rightarrow> (fs, Ok (Some dir)))"

definition div_ceil :: "u64 \<Rightarrow> u64 \<Rightarrow> u64" where
  "div_ceil a b = (if a mod b = 0 then a div b else a div b + 1)"

definition snapshot_adopt ::
    "('io, 'f) fs_ops \<Rightarrow> (bytes \<Rightarrow> ('j, manifest) result) \<Rightarrow> 'f \<Rightarrow> mock_hv \<Rightarrow> path \<Rightarrow>
     mock_hv \<times> (('j, 'io) vm_error, snapshot_id) result" where
  "snapshot_adopt F from_slice fs hv dir =
     (case Manifest_read_from_dir F from_slice dir fs of
        Inl e \<Rightarrow> (hv, Err (Backend (AdoptReadManifest dir e)))
      | Inr m \<Rightarrow>
          let memory_mib = max (div_ceil (mf_memory_bytes m) (1024 * 1024)) 1;
              cfg = VmConfig_default\<lparr>vc_vcpus := mf_vcpu_count m, vc_memory_mib := memory_mib,
                      vc_cmdline := mf_kernel_cmdline m\<rparr>;
              (hv, k) = SnapshotId_next hv
          in (hv\<lparr>mh_snapshots := (mh_snapshots hv)(k \<mapsto> \<lparr>ms_config = cfg, ms_state = Running\<rparr>)\<rparr>, Ok k))"

text \<open>Guest operations need a running VM.\<close>

definition require_running :: "mock_hv \<Rightarrow> vm_id \<Rightarrow> (('j, 'io) vm_error, mock_vm) result" where
  "require_running hv i =
     and_then (ok_or (UnknownVm i) (mh_vms hv i)) (\<lambda>vm.
       if mv_state vm \<noteq> Running then Err (InvalidTransition i (mv_state vm) Running) else Ok vm)"

text \<open>
  \<^verbatim>\<open>exec_in_guest\<close> runs a host process. Spawning it, waiting for its output and reading the clock
  are the operations of \<open>exec_host\<close>; the elapsed time is in milliseconds, as the 128-bit value
  \<^verbatim>\<open>as_millis\<close> returns.
\<close>

record process_output =
  po_code :: "int option"
  po_signal :: "int option"
  po_stdout :: bytes
  po_stderr :: bytes

record ('io, 'c) exec_host =
  eh_spawn :: "guest_exec_request \<Rightarrow> ('io, 'c) result"
  eh_wait_with_output :: "'c \<Rightarrow> ('io, process_output) result"
  eh_elapsed_ms :: "'c \<Rightarrow> nat"

definition exec_in_guest ::
    "('io, 'c) exec_host \<Rightarrow> mock_hv \<Rightarrow> vm_id \<Rightarrow> guest_exec_request \<Rightarrow>
     (('j, 'io) vm_error, guest_exec_result) result" where
  "exec_in_guest H hv i req =
     and_then (require_running hv i) (\<lambda>_.
     and_then (map_err (\<lambda>e. Backend (ExecSpawn (ger_program req) e)) (eh_spawn H req)) (\<lambda>child.
     and_then (map_err (\<lambda>e. Backend (ExecWait (ger_program req) e)) (eh_wait_with_output H child)) (\<lambda>output.
       let duration_ms = of_nat (min (eh_elapsed_ms H child) (2 ^ 64 - 1));
           result = Ok \<lparr>gex_exit_code = po_code output, gex_signal = po_signal output,
             gex_stdout = po_stdout output, gex_stderr = po_stderr output, gex_duration_ms = duration_ms\<rparr>
       in case ger_timeout_ms req of
            None \<Rightarrow> result
          | Some limit \<Rightarrow>
              if duration_ms > limit then Err (Backend (ExecTimeout limit duration_ms)) else result)))"

definition write_file ::
    "('io, 'f) fs_ops \<Rightarrow> 'f \<Rightarrow> mock_hv \<Rightarrow> vm_id \<Rightarrow> string \<Rightarrow> bytes \<Rightarrow> u32 \<Rightarrow>
     'f \<times> (('j, 'io) vm_error, u64) result" where
  "write_file F fs hv i guest_path content mode =
     (case and_then (require_running hv i) (\<lambda>vm. resolve_guest_path (mv_guest_root vm) guest_path) of
        Inl e \<Rightarrow> (fs, Err e)
      | Inr p \<Rightarrow>
          (case (if p = [] then (fs, Ok ()) else fs_create_dir_all F fs (butlast p)) of
             (fs, Inl e) \<Rightarrow> (fs, Err (Backend (CreateParent (butlast p) e)))
           | (fs, Inr _) \<Rightarrow>
               (case fs_write F fs p content of
                  (fs, Inl e) \<Rightarrow> (fs, Err (Backend (WriteFileErr p e)))
                | (fs, Inr _) \<Rightarrow>
                    (case fs_set_permissions F fs p mode of
                       (fs, Inl e) \<Rightarrow> (fs, Err (Backend (Chmod p e)))
                     | (fs, Inr _) \<Rightarrow> (fs, Ok (of_nat (length content)))))))"

definition read_file ::
    "('io, 'f) fs_ops \<Rightarrow> 'f \<Rightarrow> mock_hv \<Rightarrow> vm_id \<Rightarrow> string \<Rightarrow> (('j, 'io) vm_error, bytes) result" where
  "read_file F fs hv i guest_path =
     and_then (and_then (require_running hv i) (\<lambda>vm. resolve_guest_path (mv_guest_root vm) guest_path)) (\<lambda>p.
       map_err (\<lambda>e. Backend (ReadFileErr p e)) (fs_read F fs p))"

subsection \<open>Forking\<close>

primrec forks :: "('s \<Rightarrow> snapshot_id \<Rightarrow> 's \<times> ('e, vm_id) result) \<Rightarrow> 's \<Rightarrow> snapshot_id \<Rightarrow> nat \<Rightarrow>
    's \<times> ('e, vm_id) result list" where
  "forks rest s k 0 = (s, [])"
| "forks rest s k (Suc n) =
     (let (s', r) = rest s k; (s'', rs) = forks rest s' k n in (s'', r # rs))"

locale fork_host =
  fixes vms :: "'s \<Rightarrow> vm_id \<rightharpoonup> 'v"
    and snaps :: "'s \<Rightarrow> snapshot_id \<rightharpoonup> 'v"
    and rest :: "'s \<Rightarrow> snapshot_id \<Rightarrow> 's \<times> ('e, vm_id) result"
    and inv :: "'s \<Rightarrow> bool"
    and room :: "'s \<Rightarrow> nat"
  assumes restore_known: "inv s \<Longrightarrow> snaps s k = Some v \<Longrightarrow> 0 < room s \<Longrightarrow>
      \<exists>s' i. rest s k = (s', Inr i) \<and> vms s i = None \<and> vms s' = (vms s)(i \<mapsto> v) \<and> snaps s' = snaps s \<and>
        inv s' \<and> Suc (room s') = room s"
    and restore_unknown: "snaps s k = None \<Longrightarrow> \<exists>e. rest s k = (s, Inl e)"
begin

lemma fork_many:
  assumes "inv s" and "snaps s k = Some v" and "n \<le> room s"
  shows "\<exists>s' ids. forks rest s k n = (s', map Inr ids) \<and> length ids = n \<and> distinct ids \<and>
    (\<forall>i \<in> set ids. vms s i = None \<and> vms s' i = Some v) \<and>
    (\<forall>i. i \<notin> set ids \<longrightarrow> vms s' i = vms s i) \<and> snaps s' = snaps s \<and> inv s'"
  using assms
proof (induction n arbitrary: s)
  case 0
  then show ?case by simp
next
  case (Suc n)
  then have "0 < room s" by simp
  from restore_known [OF Suc.prems(1,2) this] obtain s1 i where r: "rest s k = (s1, Inr i)"
    and i: "vms s i = None" "vms s1 = (vms s)(i \<mapsto> v)" and s1: "snaps s1 = snaps s" "inv s1" "Suc (room s1) = room s"
    by blast
  from Suc.prems s1 have "n \<le> room s1" and "snaps s1 k = Some v" by simp_all
  from Suc.IH [OF s1(2) this(2,1)] obtain s' ids where f: "forks rest s1 k n = (s', map Inr ids)"
    and ids: "length ids = n" "distinct ids" "\<forall>j \<in> set ids. vms s1 j = None \<and> vms s' j = Some v"
      "\<forall>j. j \<notin> set ids \<longrightarrow> vms s' j = vms s1 j" and s': "snaps s' = snaps s1" "inv s'" by blast
  have new: "i \<notin> set ids" using ids(3) i(2) by auto
  have "forks rest s k (Suc n) = (s', map Inr (i # ids))" by (simp add: r f)
  moreover have "\<forall>j \<in> set (i # ids). vms s j = None \<and> vms s' j = Some v"
    using ids(3,4) i new by (auto split: if_splits)
  moreover have "\<forall>j. j \<notin> set (i # ids) \<longrightarrow> vms s' j = vms s j" using ids(4) i by auto
  ultimately show ?case using ids(1,2) new s' s1(1) by (intro exI [of _ s'] exI [of _ "i # ids"]) simp
qed

end

text \<open>The mock as a fork host: the view of a VM or snapshot is its configuration and state.\<close>

definition vm_view :: "mock_hv \<Rightarrow> vm_id \<rightharpoonup> vm_config \<times> vm_state" where
  "vm_view hv i = map_option (\<lambda>vm. (mv_config vm, mv_state vm)) (mh_vms hv i)"

definition snap_view :: "mock_hv \<Rightarrow> snapshot_id \<rightharpoonup> vm_config \<times> vm_state" where
  "snap_view hv k = map_option (\<lambda>sn. (ms_config sn, ms_state sn)) (mh_snapshots hv k)"

definition restore_id :: "host_env \<Rightarrow> mock_hv \<Rightarrow> snapshot_id \<Rightarrow> mock_hv \<times> (('j, 'io) vm_error, vm_id) result" where
  "restore_id env hv k = map_prod id (map_sum id vm_h_id) (restore env hv k)"

definition ids_ok :: "host_env \<Rightarrow> mock_hv \<Rightarrow> bool" where
  "ids_ok env hv \<longleftrightarrow> (\<forall>i vm. mh_vms hv i = Some vm \<longrightarrow>
     unat i < unat (mh_next_vm hv) \<and> mv_guest_root vm = guest_root_dir env i)"

definition id_room :: "mock_hv \<Rightarrow> nat" where
  "id_room hv = 2 ^ 64 - 1 - unat (mh_next_vm hv)"

lemma unat_next: "0 < id_room hv \<Longrightarrow> unat (mh_next_vm hv + 1) = Suc (unat (mh_next_vm hv))"
  by (simp add: id_room_def unat_word_ariths)

interpretation mock_fork: fork_host vm_view snap_view "restore_id env" "ids_ok env" id_room for env
proof (unfold_locales, goal_cases)
  case (1 s k v)
  then obtain sn where sn: "mh_snapshots s k = Some sn" "v = (ms_config sn, ms_state sn)"
    by (auto simp: snap_view_def)
  let ?vm = "\<lparr>mv_config = ms_config sn, mv_state = ms_state sn, mv_guest_root = guest_root_dir env (mh_next_vm s)\<rparr>"
  let ?s = "s\<lparr>mh_next_vm := mh_next_vm s + 1, mh_vms := (mh_vms s)(mh_next_vm s \<mapsto> ?vm)\<rparr>"
  have r: "restore_id env s k = (?s, Inr (mh_next_vm s))"
    by (simp add: restore_id_def restore_def sn VmId_next_def)
  have fresh: "mh_vms s (mh_next_vm s) = None"
    using 1(1) by (cases "mh_vms s (mh_next_vm s)") (auto simp: ids_ok_def)
  have "ids_ok env ?s" using 1(1,3) by (auto simp: ids_ok_def unat_next less_Suc_eq)
  moreover have "Suc (id_room ?s) = id_room s" using 1(3) by (auto simp: id_room_def unat_word_ariths)
  moreover have "vm_view ?s = (vm_view s)(mh_next_vm s \<mapsto> v)" and "snap_view ?s = snap_view s"
    by (auto simp: vm_view_def snap_view_def sn(2) fun_eq_iff)
  ultimately show ?case
    using r fresh by (intro exI [of _ ?s] exI [of _ "mh_next_vm s"]) (simp add: vm_view_def)
next
  case (2 s k)
  then show ?case by (simp add: snap_view_def restore_id_def restore_def)
qed

subsection \<open>Guest paths\<close>

lemma resolve_loop_exact:
  "resolve_loop g cs root = Ok p \<longleftrightarrow> set cs \<subseteq> insert RootDir (range Normal) \<and>
     p = root @ List.map_filter (\<lambda>c. case c of Normal s \<Rightarrow> Some s | _ \<Rightarrow> None) cs"
  by (induction g cs root rule: resolve_loop.induct) (auto simp: List.map_filter_def)

lemma resolve_components:
  assumes "is_absolute p"
  shows "set (components p) \<subseteq> insert RootDir (range Normal) \<longleftrightarrow> ''..'' \<notin> set (split_slash p)"
    and "List.map_filter (\<lambda>c. case c of Normal s \<Rightarrow> Some s | _ \<Rightarrow> None) (components p) =
      filter (\<lambda>s. s \<noteq> [] \<and> s \<noteq> ''.'' \<and> s \<noteq> ''..'') (split_slash p)"
proof -
  show "set (components p) \<subseteq> insert RootDir (range Normal) \<longleftrightarrow> ''..'' \<notin> set (split_slash p)"
    using assms by (auto simp: components_def classify_def Let_def)
  have "List.map_filter (\<lambda>c. case c of Normal s \<Rightarrow> Some s | _ \<Rightarrow> None)
      (map classify (filter (\<lambda>s. s \<noteq> [] \<and> s \<noteq> ''.'') ws)) =
    filter (\<lambda>s. s \<noteq> [] \<and> s \<noteq> ''.'' \<and> s \<noteq> ''..'') ws" for ws
    by (induction ws) (auto simp: List.map_filter_def classify_def)
  then show "List.map_filter (\<lambda>c. case c of Normal s \<Rightarrow> Some s | _ \<Rightarrow> None) (components p) =
      filter (\<lambda>s. s \<noteq> [] \<and> s \<noteq> ''.'' \<and> s \<noteq> ''..'') (split_slash p)"
    using assms by (simp add: components_def Let_def List.map_filter_def)
qed

lemma resolve_guest_path_ok:
  "resolve_guest_path root gp = Ok p \<longleftrightarrow> is_absolute gp \<and> ''..'' \<notin> set (split_slash gp) \<and>
     p = root @ filter (\<lambda>s. s \<noteq> [] \<and> s \<noteq> ''.'' \<and> s \<noteq> ''..'') (split_slash gp)"
  by (auto simp: resolve_guest_path_def resolve_loop_exact resolve_components)

text \<open>Printed numbers read back, so two VM ids never share a directory name.\<close>

lemma decimal_value: "foldl (\<lambda>a c. 10 * a + (of_char c - 48)) 0 (dec n) = n"
proof (induction n rule: dec.induct)
  case (1 n)
  show ?case
  proof (cases "n < 10")
    case True
    then show ?thesis by (simp add: dec.simps [of n] of_char_of)
  next
    case False
    then show ?thesis using 1 [OF False] by (simp add: dec.simps [of n] of_char_of)
  qed
qed

lemma decimal_inject [simp]: "dec m = dec n \<longleftrightarrow> m = n"
  by (metis decimal_value)

lemma guest_root_dir_inject [simp]: "guest_root_dir env i = guest_root_dir env j \<longleftrightarrow> i = j"
  by (simp add: guest_root_dir_def word_unat_eq_iff)

text \<open>
  C39: A guest path is accepted exactly when it is absolute and has no \<open>..\<close> component, and then
  resolves below the VM's own root directory (empty and \<open>.\<close> components skipped), with no component
  that leads out of it; paths of two different VMs never resolve to the same or nested host paths.
\<close>
theorem guest_paths_confined:
  "(resolve_guest_path root gp = Ok p \<longleftrightarrow>
      is_absolute gp \<and> ''..'' \<notin> set (split_slash gp) \<and>
      p = root @ filter (\<lambda>s. s \<noteq> [] \<and> s \<noteq> ''.'') (split_slash gp)) \<and>
   (i \<noteq> j \<longrightarrow> resolve_guest_path (guest_root_dir env i) gp1 = Ok p1 \<longrightarrow>
      resolve_guest_path (guest_root_dir env j) gp2 = Ok p2 \<longrightarrow> \<not> prefix p1 p2)"
proof -
  have below: "resolve_guest_path r g = Ok q \<longleftrightarrow>
      is_absolute g \<and> ''..'' \<notin> set (split_slash g) \<and>
      q = r @ filter (\<lambda>s. s \<noteq> [] \<and> s \<noteq> ''.'') (split_slash g)" for r g q
    unfolding resolve_guest_path_ok
    by (intro conj_cong refl arg_cong [where f = "\<lambda>x. q = r @ x"] filter_cong) auto
  have "prefix (guest_root_dir env i @ xs) (guest_root_dir env j @ ys) \<Longrightarrow> i = j" for xs ys
    by (auto simp: guest_root_dir_def prefix_def word_unat_eq_iff)
  then show ?thesis by (auto simp: below)
qed

theorem guest_paths_confined_witness:
  "\<not> prefix (guest_root_dir \<lparr>he_temp_dir = [''tmp''], he_pid = 7\<rparr> 1 @ [''etc'', ''passwd''])
       (guest_root_dir \<lparr>he_temp_dir = [''tmp''], he_pid = 7\<rparr> 2 @ [''x''])"
proof -
  let ?env = "\<lparr>he_temp_dir = [''tmp''], he_pid = 7\<rparr>"
  have one: "resolve_guest_path (guest_root_dir ?env 1) ''/etc/./passwd'' =
      Ok (guest_root_dir ?env 1 @ [''etc'', ''passwd''])"
    and two: "resolve_guest_path (guest_root_dir ?env 2) ''/x'' = Ok (guest_root_dir ?env 2 @ [''x''])"
    by (simp_all add: resolve_guest_path_def is_absolute_def components_def classify_def)
  show ?thesis by (rule guest_paths_confined [THEN conjunct2, rule_format, OF _ one two]) simp
qed

subsection \<open>Identifiers\<close>

text \<open>Every operation that changes the maps, as one step with its outcome.\<close>

datatype hv_op =
    OpCreate vm_config
  | OpStart vm_id
  | OpStop vm_id
  | OpSnapshot vm_id
  | OpRestore snapshot_id
  | OpDestroy vm_id
  | OpDeleteSnapshot snapshot_id
  | OpAdopt path

datatype hv_reply = RVm vm_id | RSnap snapshot_id | RDestroyed vm_id | RDeleted snapshot_id | RDone

fun hv_step ::
    "('io, 'f) fs_ops \<Rightarrow> (bytes \<Rightarrow> ('j, manifest) result) \<Rightarrow> host_env \<Rightarrow> hv_op \<Rightarrow> 'f \<times> mock_hv \<Rightarrow>
     ('f \<times> mock_hv) \<times> (('j, 'io) vm_error, hv_reply) result" where
  "hv_step F J env (OpCreate cfg) (fs, hv) =
     (let (hv', r) = create_vm F J env fs hv cfg in ((fs, hv'), map_sum id (\<lambda>h. RVm (vm_h_id h)) r))"
| "hv_step F J env (OpStart i) (fs, hv) = (let (hv', r) = start hv i in ((fs, hv'), map_sum id (\<lambda>_. RDone) r))"
| "hv_step F J env (OpStop i) (fs, hv) = (let (hv', r) = stop hv i in ((fs, hv'), map_sum id (\<lambda>_. RDone) r))"
| "hv_step F J env (OpSnapshot i) (fs, hv) = (let (hv', r) = snapshot hv i in ((fs, hv'), map_sum id RSnap r))"
| "hv_step F J env (OpRestore k) (fs, hv) =
     (let (hv', r) = restore env hv k in ((fs, hv'), map_sum id (\<lambda>h. RVm (vm_h_id h)) r))"
| "hv_step F J env (OpDestroy i) (fs, hv) =
     (let (fs', hv', r) = destroy F fs hv i in ((fs', hv'), map_sum id (\<lambda>_. RDestroyed i) r))"
| "hv_step F J env (OpDeleteSnapshot k) (fs, hv) =
     (let (hv', r) = delete_snapshot hv k in ((fs, hv'), map_sum id (\<lambda>_. RDeleted k) r))"
| "hv_step F J env (OpAdopt dir) (fs, hv) =
     (let (hv', r) = snapshot_adopt F J fs hv dir in ((fs, hv'), map_sum id RSnap r))"

definition hv_run ::
    "('io, 'f) fs_ops \<Rightarrow> (bytes \<Rightarrow> ('j, manifest) result) \<Rightarrow> host_env \<Rightarrow> 'f \<Rightarrow> hv_op list \<Rightarrow>
     ('f \<times> mock_hv) \<times> (('j, 'io) vm_error, hv_reply) result list" where
  "hv_run F J env fs ops =
     foldl (\<lambda>(st, log) op. let (st', r) = hv_step F J env op st in (st', log @ [r]))
       ((fs, MockHypervisor_new), []) ops"

definition replies :: "(hv_reply \<Rightarrow> 'a option) \<Rightarrow> ('e, hv_reply) result list \<Rightarrow> 'a list" where
  "replies f log = List.map_filter (case_sum (\<lambda>_. None) f) log"

definition created :: "('e, hv_reply) result list \<Rightarrow> vm_id list" where
  "created = replies (\<lambda>r. case r of RVm i \<Rightarrow> Some i | _ \<Rightarrow> None)"

definition captured :: "('e, hv_reply) result list \<Rightarrow> snapshot_id list" where
  "captured = replies (\<lambda>r. case r of RSnap k \<Rightarrow> Some k | _ \<Rightarrow> None)"

definition destroyed :: "('e, hv_reply) result list \<Rightarrow> vm_id list" where
  "destroyed = replies (\<lambda>r. case r of RDestroyed i \<Rightarrow> Some i | _ \<Rightarrow> None)"

definition deleted :: "('e, hv_reply) result list \<Rightarrow> snapshot_id list" where
  "deleted = replies (\<lambda>r. case r of RDeleted k \<Rightarrow> Some k | _ \<Rightarrow> None)"

lemma replies_snoc [simp]:
  "replies f [] = []"
  "replies f (log @ [Inl e]) = replies f log"
  "replies f (log @ [Inr r]) = replies f log @ (case f r of None \<Rightarrow> [] | Some x \<Rightarrow> [x])"
  by (auto simp: replies_def List.map_filter_def split: option.splits)

text \<open>
  One counter with its table: the ids handed out are 1, 2, 3, ..., the counter is the next one,
  and the keys of the table are the ids handed out and not removed since.
\<close>

definition id_log :: "u64 \<Rightarrow> u64 set \<Rightarrow> u64 list \<Rightarrow> u64 list \<Rightarrow> bool" where
  "id_log nxt keys given gone \<longleftrightarrow>
     nxt = of_nat (Suc (length given)) \<and> given = map of_nat [1..<Suc (length given)] \<and>
     keys \<subseteq> set given \<and> set gone \<subseteq> set given \<and> (length given < 2 ^ 64 \<longrightarrow> keys = set given - set gone)"

lemma of_nat_u64_inj: "inj_on (of_nat :: nat \<Rightarrow> u64) {..<2 ^ 64}"
proof (rule inj_onI)
  fix x y :: nat
  assume range: "x \<in> {..<2 ^ 64}" "y \<in> {..<2 ^ 64}" and eq: "(of_nat x :: u64) = of_nat y"
  from range have "x < 2 ^ 64" "y < 2 ^ 64" unfolding lessThan_iff .
  then have "unat (of_nat x :: u64) = x" "unat (of_nat y :: u64) = y" by (simp_all add: unat_of_nat)
  with eq show "x = y" by metis
qed

lemma id_log_start: "id_log 1 {} [] []"
  by (simp add: id_log_def)

lemma id_log_fresh:
  assumes "id_log nxt keys given gone" and "length given < 2 ^ 64 - 1"
  shows "nxt \<notin> set given"
proof
  assume "nxt \<in> set given"
  moreover have "set given = of_nat ` {1..<Suc (length given)}"
    using assms(1) unfolding id_log_def by (metis image_set set_upt)
  ultimately obtain m where "m < Suc (length given)" and "of_nat m = (of_nat (Suc (length given)) :: u64)"
    using assms(1) by (auto simp: id_log_def)
  with inj_onD [OF of_nat_u64_inj this(2)] assms(2) show False by simp
qed

lemma id_log_add:
  assumes "id_log nxt keys given gone"
  shows "id_log (nxt + 1) (insert nxt keys) (given @ [nxt]) gone"
proof -
  from assms have n: "nxt = of_nat (Suc (length given))" and g: "given = map of_nat [1..<Suc (length given)]"
    and s: "set gone \<subseteq> set given" "keys \<subseteq> set given" by (auto simp: id_log_def)
  have "given @ [nxt] = map of_nat [1..<Suc (length (given @ [nxt]))]"
    using g n by (metis length_append_singleton list.simps(8,9) map_append upt_Suc_append le_SucI One_nat_def Suc_leI zero_less_Suc)
  moreover have "insert nxt keys = set (given @ [nxt]) - set gone" if "length (given @ [nxt]) < 2 ^ 64"
  proof -
    from that have l: "length given < 2 ^ 64 - 1" by simp
    with id_log_fresh [OF assms] s have "nxt \<notin> set gone" by blast
    with assms l show ?thesis by (auto simp: id_log_def)
  qed
  ultimately show ?thesis using n s by (auto simp: id_log_def)
qed

lemma id_log_distinct:
  assumes "id_log nxt keys given gone" and "length given < 2 ^ 64"
  shows "distinct given"
proof -
  have "inj_on (of_nat :: nat \<Rightarrow> u64) {1..<Suc (length given)}"
    by (rule inj_on_subset [OF of_nat_u64_inj]) (use assms(2) in auto)
  then have "distinct (map of_nat [1..<Suc (length given)] :: u64 list)"
    by (simp only: distinct_map distinct_upt set_upt conj_absorb simp_thms)
  with assms(1) show ?thesis unfolding id_log_def by metis
qed

lemma id_log_remove:
  assumes "id_log nxt keys given gone" and "i \<in> keys"
  shows "id_log nxt (keys - {i}) given (gone @ [i])"
  using assms by (auto simp: id_log_def)

definition ids_log :: "host_env \<Rightarrow> mock_hv \<Rightarrow> ('e, hv_reply) result list \<Rightarrow> bool" where
  "ids_log env hv log \<longleftrightarrow>
     id_log (mh_next_vm hv) (dom (mh_vms hv)) (created log) (destroyed log) \<and>
     id_log (mh_next_snap hv) (dom (mh_snapshots hv)) (captured log) (deleted log) \<and>
     (\<forall>i vm. mh_vms hv i = Some vm \<longrightarrow> mv_guest_root vm = guest_root_dir env i)"

lemmas log_projections = created_def captured_def destroyed_def deleted_def

lemmas hv_ops = create_vm_def start_def stop_def snapshot_def restore_def destroy_def delete_snapshot_def
  snapshot_adopt_def VmId_next_def SnapshotId_next_def

lemma hv_step_error:
  assumes "hv_step F J env op (fs, hv) = (st', Inl e)"
  shows "st' = (fs, hv)"
  using assms
  by (cases op)
    (auto simp: hv_ops Let_def fun_upd_idem
      split: prod.splits option.splits vm_state.splits sum.splits if_splits)

text \<open>A successful operation either changes no id or hands out or removes exactly one.\<close>

lemma hv_step_ok:
  assumes "hv_step F J env op (fs, hv) = ((fs', hv'), Inr v)"
  shows "case v of
      RVm i \<Rightarrow> i = mh_next_vm hv \<and> mh_next_vm hv' = i + 1 \<and> dom (mh_vms hv') = insert i (dom (mh_vms hv))
    | RDestroyed i \<Rightarrow> i \<in> dom (mh_vms hv) \<and> mh_next_vm hv' = mh_next_vm hv \<and> dom (mh_vms hv') = dom (mh_vms hv) - {i}
    | _ \<Rightarrow> mh_next_vm hv' = mh_next_vm hv \<and> dom (mh_vms hv') = dom (mh_vms hv)"
    and "case v of
      RSnap k \<Rightarrow> k = mh_next_snap hv \<and> mh_next_snap hv' = k + 1 \<and>
        dom (mh_snapshots hv') = insert k (dom (mh_snapshots hv))
    | RDeleted k \<Rightarrow> k \<in> dom (mh_snapshots hv) \<and> mh_next_snap hv' = mh_next_snap hv \<and>
        dom (mh_snapshots hv') = dom (mh_snapshots hv) - {k}
    | _ \<Rightarrow> mh_next_snap hv' = mh_next_snap hv \<and> dom (mh_snapshots hv') = dom (mh_snapshots hv)"
  using assms
  by (cases op; force simp: hv_ops Let_def insert_absorb
      split: prod.splits option.splits vm_state.splits sum.splits if_splits)+

lemma hv_step_roots:
  assumes "\<And>i vm. mh_vms hv i = Some vm \<Longrightarrow> mv_guest_root vm = guest_root_dir env i"
    and "hv_step F J env op (fs, hv) = ((fs', hv'), r)" and "mh_vms hv' i = Some vm"
  shows "mv_guest_root vm = guest_root_dir env i"
  using assms(2,3) assms(1)
  by (cases op) (auto simp: hv_ops Let_def split: prod.splits option.splits vm_state.splits sum.splits if_splits)

lemma hv_step_ids:
  assumes "ids_log env hv log" and step: "hv_step F J env op (fs, hv) = ((fs', hv'), r)"
  shows "ids_log env hv' (log @ [r])"
proof (cases r)
  case (Inl e)
  with step hv_step_error [of F J env op fs hv _ e] have "hv' = hv" by blast
  with assms(1) Inl show ?thesis by (simp add: ids_log_def log_projections)
next
  case (Inr v)
  from assms(1) have v: "id_log (mh_next_vm hv) (dom (mh_vms hv)) (created log) (destroyed log)"
    and s: "id_log (mh_next_snap hv) (dom (mh_snapshots hv)) (captured log) (deleted log)"
    and root: "\<And>i vm. mh_vms hv i = Some vm \<Longrightarrow> mv_guest_root vm = guest_root_dir env i"
    by (auto simp: ids_log_def)
  note ok = hv_step_ok [OF step [unfolded Inr]]
  have "id_log (mh_next_vm hv') (dom (mh_vms hv')) (created (log @ [r])) (destroyed (log @ [r]))"
    using ok(1) v unfolding Inr
    by (cases v) (auto simp: log_projections simp del: insert_dom intro: id_log_add id_log_remove)
  moreover have "id_log (mh_next_snap hv') (dom (mh_snapshots hv')) (captured (log @ [r])) (deleted (log @ [r]))"
    using ok(2) s unfolding Inr
    by (cases v) (auto simp: log_projections simp del: insert_dom intro: id_log_add id_log_remove)
  ultimately show ?thesis using hv_step_roots [OF root step] by (auto simp: ids_log_def)
qed

lemma hv_run_ids:
  "hv_run F J env fs ops = ((fs', hv), log) \<Longrightarrow> ids_log env hv log"
proof (induction ops arbitrary: fs' hv log rule: rev_induct)
  case Nil
  then show ?case
    by (auto simp: hv_run_def MockHypervisor_new_def ids_log_def log_projections id_log_start)
next
  case (snoc op ops)
  obtain fs1 hv1 log1 where run: "hv_run F J env fs ops = ((fs1, hv1), log1)" by (metis prod.exhaust)
  with snoc.prems have "log = log1 @ [snd (hv_step F J env op (fs1, hv1))]"
    and "hv_step F J env op (fs1, hv1) = ((fs', hv), snd (hv_step F J env op (fs1, hv1)))"
    by (auto simp: hv_run_def split: prod.splits)
  with hv_step_ids [OF snoc.IH [OF run]] show ?case by metis
qed

text \<open>
  Over any sequence of operations the VM ids handed out are 1, 2, 3, ... in order, and so are
  the snapshot ids. Until 2^64 of them have been handed out no id is reused, and the live VMs
  (snapshots) are exactly those handed out and not destroyed (deleted) since. Every live VM has the
  guest directory of its own id.
\<close>
theorem mock_ids_never_reused:
  "case hv_run F J env fs ops of ((fs', hv), log) \<Rightarrow>
     created log = map of_nat [1..<Suc (length (created log))] \<and>
     captured log = map of_nat [1..<Suc (length (captured log))] \<and>
     (length (created log) < 2 ^ 64 \<longrightarrow>
        distinct (created log) \<and> dom (mh_vms hv) = set (created log) - set (destroyed log)) \<and>
     (length (captured log) < 2 ^ 64 \<longrightarrow>
        distinct (captured log) \<and> dom (mh_snapshots hv) = set (captured log) - set (deleted log)) \<and>
     (\<forall>i vm. mh_vms hv i = Some vm \<longrightarrow> mv_guest_root vm = guest_root_dir env i)"
proof -
  obtain fs' hv log where run: "hv_run F J env fs ops = ((fs', hv), log)" by (metis prod.exhaust)
  note inv = hv_run_ids [OF run, unfolded ids_log_def]
  show ?thesis unfolding run prod.case
    by (intro conjI impI id_log_distinct [OF inv [THEN conjunct1]] id_log_distinct [OF inv [THEN conjunct2, THEN conjunct1]])
      (use inv in \<open>auto simp only: id_log_def\<close>)
qed

text \<open>An in-memory file system and a request sequence, for concrete instances.\<close>

definition mem_fs :: "(unit, path \<rightharpoonup> bytes) fs_ops" where
  "mem_fs = \<lparr>fs_create_dir_all = (\<lambda>fs p. (fs, Ok ())), fs_write = (\<lambda>fs p b. (fs(p \<mapsto> b), Ok ())),
     fs_read = (\<lambda>fs p. ok_or () (fs p)), fs_set_permissions = (\<lambda>fs p m. (fs, Ok ())),
     fs_remove_dir_all = (\<lambda>fs p. (\<lambda>q. if prefix p q then None else fs q, Ok ()))\<rparr>"

definition sample_env :: host_env where
  "sample_env = \<lparr>he_temp_dir = [''tmp''], he_pid = 7\<rparr>"

definition sample_ops_hv :: "hv_op list" where
  "sample_ops_hv = [OpCreate VmConfig_default, OpStart 1, OpSnapshot 1, OpRestore 1, OpRestore 1, OpStart 2, OpDestroy 1]"

definition sample_hv :: mock_hv where
  "sample_hv = snd (fst (hv_run mem_fs (\<lambda>_. Err ()) sample_env Map.empty sample_ops_hv))"

lemma sample_hv_eq:
  "sample_hv = \<lparr>mh_vms = Map.empty(2 \<mapsto> \<lparr>mv_config = VmConfig_default, mv_state = Running,
       mv_guest_root = guest_root_dir sample_env 2\<rparr>, 3 \<mapsto> \<lparr>mv_config = VmConfig_default, mv_state = Running,
       mv_guest_root = guest_root_dir sample_env 3\<rparr>),
     mh_snapshots = [1 \<mapsto> \<lparr>ms_config = VmConfig_default, ms_state = Running\<rparr>], mh_next_vm = 4, mh_next_snap = 2\<rparr>"
  by (simp add: sample_hv_def sample_ops_hv_def hv_run_def hv_ops MockHypervisor_new_def VmConfig_default_def fun_eq_iff)

theorem mock_ids_never_reused_witness:
  "dom (mh_vms sample_hv) = {2, 3} \<and>
   created (snd (hv_run mem_fs (\<lambda>_. Err ()) sample_env Map.empty sample_ops_hv)) = [1, 2, 3]"
proof -
  let ?log = "snd (hv_run mem_fs (\<lambda>_. Err ()) sample_env Map.empty sample_ops_hv)"
  have log: "created ?log = [1, 2, 3]" "destroyed ?log = [1]"
    by (simp_all add: sample_ops_hv_def hv_run_def hv_ops MockHypervisor_new_def VmConfig_default_def
        created_def destroyed_def replies_def List.map_filter_def mem_fs_def)
  from mock_ids_never_reused [where F = mem_fs and J = "\<lambda>_. Err ()" and env = sample_env and fs = Map.empty
      and ops = sample_ops_hv]
  have "dom (mh_vms sample_hv) = set (created ?log) - set (destroyed ?log)"
    by (simp add: sample_hv_def log case_prod_beta)
  then show ?thesis by (auto simp: log)
qed

text \<open>
  C38: A snapshot can be forked any number of times: as long as ids remain, \<open>n\<close> restores all
  succeed, with \<open>n\<close> distinct ids that were not in use, each new VM having the configuration and state
  of the snapshot, and they change no other VM and no snapshot.
\<close>
theorem snapshot_forks:
  assumes "ids_ok env hv" and "mh_snapshots hv k = Some sn" and "n \<le> id_room hv"
  shows "\<exists>hv' ids. forks (restore_id env) hv k n = (hv', map Inr ids) \<and> length ids = n \<and> distinct ids \<and>
    (\<forall>i \<in> set ids. vm_view hv i = None \<and> vm_view hv' i = Some (ms_config sn, ms_state sn)) \<and>
    (\<forall>i. i \<notin> set ids \<longrightarrow> vm_view hv' i = vm_view hv i) \<and> snap_view hv' = snap_view hv \<and> ids_ok env hv'"
  using mock_fork.fork_many [of env hv k "(ms_config sn, ms_state sn)" n] assms by (simp add: snap_view_def)

theorem snapshot_forks_witness:
  "\<exists>hv' ids. forks (restore_id sample_env :: _ \<Rightarrow> _ \<Rightarrow> _ \<times> ((unit, unit) vm_error, _) result) sample_hv 1 1000 =
     (hv', map Inr ids) \<and> length ids = 1000 \<and> distinct ids \<and> 2 \<notin> set ids"
proof -
  have "ids_ok sample_env sample_hv" by (auto simp: sample_hv_eq ids_ok_def split: if_splits)
  from snapshot_forks [OF this, of 1 "\<lparr>ms_config = VmConfig_default, ms_state = Running\<rparr>" 1000]
  show ?thesis by (fastforce simp: sample_hv_eq id_room_def vm_view_def)
qed

subsection \<open>Shipping snapshots\<close>

text \<open>
  What \<^verbatim>\<open>std::fs\<close> documents, for a directory without links: a completed write is read back and
  changes no other file, and creating a directory changes no file.
\<close>

definition fs_laws :: "('io, 'f) fs_ops \<Rightarrow> bool" where
  "fs_laws F \<longleftrightarrow>
     (\<forall>fs p b fs'. fs_write F fs p b = (fs', Ok ()) \<longrightarrow>
        fs_read F fs' p = Ok b \<and> (\<forall>q. q \<noteq> p \<longrightarrow> fs_read F fs' q = fs_read F fs q)) \<and>
     (\<forall>fs d q. fs_read F (fst (fs_create_dir_all F fs d)) q = fs_read F fs q)"

lemma unat_div_ceil_mib: "unat (div_ceil a 1048576) = (unat a + 1048575) div 1048576"
proof -
  have a: "unat a < 2 ^ 64" using unsigned_less [of a] by simp
  have d: "unat (a div 1048576) = unat a div 1048576" and m: "unat (a mod 1048576) = unat a mod 1048576"
    by (simp_all add: unat_div_distrib unat_mod_distrib)
  have z: "a mod 1048576 = 0 \<longleftrightarrow> unat a mod 1048576 = 0" by (simp add: word_unat_eq_iff m)
  have "unat a div 1048576 < 2 ^ 44" using a by simp
  then have "unat (a div 1048576 + 1) = unat a div 1048576 + 1" by (simp add: unat_word_ariths d)
  moreover have "(n + 1048575) div 1048576 = (if n mod 1048576 = 0 then n div 1048576 else n div 1048576 + 1)" for n :: nat
  proof -
    have n: "n = n div 1048576 * 1048576 + n mod 1048576" by simp
    have "(q * 1048576 + r + 1048575) div 1048576 = (if r = 0 then q else q + 1)" if "r < 1048576" for q r :: nat
      using that by auto
    from this [of "n mod 1048576" "n div 1048576"] n show ?thesis by simp
  qed
  ultimately show ?thesis using d z by (simp only: div_ceil_def split: if_splits) simp
qed

lemma adopted_memory:
  "max (div_ceil (saturating_mul mib 1048576) 1048576) 1 = max 1 (min mib 17592186044416)"
proof -
  have "unat (saturating_mul mib 1048576) = min (unat mib * 1048576) (2 ^ 64 - 1)"
    by (auto simp: saturating_mul_def unat_word_ariths unsigned_minus_1_eq_mask mask_eq_exp_minus_1)
  then have "unat (div_ceil (saturating_mul mib 1048576) 1048576) = min (unat mib) 17592186044416"
    unfolding unat_div_ceil_mib by (auto simp: min_def)
  then have "div_ceil (saturating_mul mib 1048576) 1048576 = min mib 17592186044416"
    by (simp add: word_unat_eq_iff min_def word_le_nat_alt)
  then show ?thesis by (simp add: max.commute)
qed

text \<open>
  A snapshot exported to a directory and adopted from it, by this or another hypervisor, under a
  file system that keeps what is written and a JSON library that reads what it prints, becomes a new
  snapshot with the vCPU count and the kernel command line of the old one; its memory is the old
  one's, at least 1 MiB and saturated at 2^44 MiB, and its state is Running whatever it was.
\<close>
theorem snapshot_export_adopt:
  assumes "fs_laws F" and "\<forall>m b. to_vec_pretty m = Ok b \<longrightarrow> from_slice b = Ok m"
    and "snapshot_export_dir F to_vec_pretty env fs hv k = (fs', Ok (Some dir))"
  shows "\<exists>sn. mh_snapshots hv k = Some sn \<and>
    snapshot_adopt F from_slice fs' hv2 dir =
      (hv2\<lparr>mh_next_snap := mh_next_snap hv2 + 1,
           mh_snapshots := (mh_snapshots hv2)(mh_next_snap hv2 \<mapsto>
             \<lparr>ms_config = VmConfig_default\<lparr>vc_vcpus := vc_vcpus (ms_config sn),
                 vc_memory_mib := max 1 (min (vc_memory_mib (ms_config sn)) (2 ^ 44)),
                 vc_cmdline := vc_cmdline (ms_config sn)\<rparr>,
              ms_state = Running\<rparr>)\<rparr>,
       Ok (mh_next_snap hv2))"
proof -
  from assms(3) obtain sn where sn: "mh_snapshots hv k = Some sn"
    by (cases "mh_snapshots hv k") (auto simp: snapshot_export_dir_def snapshot_meta_of_def)
  let ?m = "(Manifest_new k (saturating_mul (vc_memory_mib (ms_config sn)) (1024 * 1024)) 4096
     (vc_vcpus (ms_config sn)))\<lparr>mf_kernel_cmdline := vc_cmdline (ms_config sn)\<rparr>"
  from assms(3) obtain b fs1 where b: "to_vec_pretty ?m = Ok b"
    and w: "fs_write F fs1 (dir @ [FILE_NAME]) b = (fs', Ok ())"
    by (auto simp: snapshot_export_dir_def snapshot_meta_of_def sn Manifest_write_to_dir_def to_json_pretty_def
        map_err_def Let_def split: prod.splits sum.splits)
  from assms(1) w have "fs_read F fs' (dir @ [FILE_NAME]) = Ok b" by (simp add: fs_laws_def)
  with assms(2) b have "Manifest_read_from_dir F from_slice dir fs' = Ok ?m"
    by (simp add: Manifest_read_from_dir_def Manifest_from_json_def Manifest_new_def)
  then show ?thesis
    by (simp add: snapshot_adopt_def sn SnapshotId_next_def Manifest_new_def adopted_memory)
qed

theorem snapshot_export_adopt_witness:
  "\<exists>fs'. snapshot_export_dir mem_fs (\<lambda>m. if m = Manifest_new 1 (128 * 1024 * 1024) 4096 1 then Ok [] else Err ())
       sample_env Map.empty sample_hv 1 = (fs', Ok (Some [''tmp'', ''nanovm-mock-snapshots'', ''1''])) \<and>
     snd (snapshot_adopt mem_fs (\<lambda>_. Ok (Manifest_new 1 (128 * 1024 * 1024) 4096 1) :: (unit, _) result) fs' MockHypervisor_new
       [''tmp'', ''nanovm-mock-snapshots'', ''1'']) = Ok 1"
proof -
  let ?to = "\<lambda>m. if m = Manifest_new 1 (128 * 1024 * 1024) 4096 1 then Ok [] else Err ()"
  let ?from = "\<lambda>_. Ok (Manifest_new 1 (128 * 1024 * 1024) 4096 1) :: (unit, _) result"
  let ?dir = "[''tmp'', ''nanovm-mock-snapshots'', ''1'']"
  have laws: "fs_laws mem_fs" by (auto simp: fs_laws_def mem_fs_def)
  have json: "\<forall>m b. ?to m = Ok b \<longrightarrow> ?from b = Ok m" by (auto split: if_splits)
  have digit: "dec 1 = ''1''" by code_simp
  have e: "snapshot_export_dir mem_fs ?to sample_env Map.empty sample_hv 1 =
      (Map.empty(?dir @ [FILE_NAME] \<mapsto> []), Ok (Some ?dir))"
    by (simp add: snapshot_export_dir_def snapshot_meta_of_def sample_hv_eq VmConfig_default_def sample_env_def mem_fs_def
        saturating_mul_def Manifest_new_def Manifest_write_to_dir_def to_json_pretty_def digit [simplified] FILE_NAME_def)
  from snapshot_export_adopt [where ?hv2.0 = MockHypervisor_new, OF laws json e] e show ?thesis
    by (auto simp: MockHypervisor_new_def)
qed

end
