(* ===== verification/Exec_Stream.thy ===== *)
theory Exec_Stream
  imports Vm_Mock
begin

text \<open>
  The streaming exec of \<^verbatim>\<open>MockHypervisor::exec_in_guest_stream\<close> (\<^verbatim>\<open>crates/vm-mock/src/lib.rs\<close>): two
  reader threads and a waiter thread send into one channel, and \<^verbatim>\<open>MockStream::next_frame\<close> receives.
  The threads are a step relation in which any of them may move next. What the reads of a pipe
  return and what a poll of the child returns come from the operating system: the reads are data of
  the state, the outcome of a poll is chosen by the rule. Threads do not panic. It is proved that in
  every interleaving the client sees all output of both pipes, in order, before the Exit frame.
\<close>

subsection \<open>Threads\<close>

type_synonym ('j, 'io) stream_msg = "(('j, 'io) vm_error, exec_frame) result"
type_synonym 'io pipe_reads = "('io, bytes) result list"

text \<open>The successive results of \<^verbatim>\<open>read\<close> on a pipe; an empty read is end of file, as is the end of the list.\<close>

fun reader_step ::
    "bool \<Rightarrow> (bytes \<Rightarrow> exec_frame) \<Rightarrow> 'io pipe_reads \<Rightarrow> 'io pipe_reads option \<times> ('j, 'io) stream_msg list" where
  "reader_step rx_open frame [] = (None, [])"
| "reader_step rx_open frame (Inl e # rs) = (None, [])"
| "reader_step rx_open frame (Inr c # rs) =
     (if c = [] then (None, [])
      else if rx_open then (Some rs, [Ok (frame c)])
      else (None, []))"

datatype 'io poll =
    Exited "int option" "int option" nat
  | StillRunning bool
  | PollFailed 'io nat

datatype 'io waiter =
    Polling bool
  | Joining "('io, int option \<times> int option) result" u64
  | WaiterDone

text \<open>
  One turn of the waiter's loop. \<^verbatim>\<open>StillRunning\<close> says whether the deadline has passed; \<^verbatim>\<open>Exited\<close> and
  \<^verbatim>\<open>PollFailed\<close> carry the elapsed milliseconds.
\<close>

fun poll_step ::
    "u64 option \<Rightarrow> bool \<Rightarrow> 'io poll \<Rightarrow> 'io waiter \<times> ('j, 'io) stream_msg list" where
  "poll_step timeout_ms killed (StillRunning passed) = (Polling (killed \<or> timeout_ms \<noteq> None \<and> passed), [])"
| "poll_step timeout_ms killed (Exited code signal ms) =
     (if killed then (WaiterDone, [Err (Backend (StreamExecTimeout (case timeout_ms of None \<Rightarrow> 0 | Some l \<Rightarrow> l)))])
      else (Joining (Ok (code, signal)) (of_nat (min ms (2 ^ 64 - 1))), []))"
| "poll_step timeout_ms killed (PollFailed e ms) =
     (if killed then (WaiterDone, [Err (Backend (StreamExecTimeout (case timeout_ms of None \<Rightarrow> 0 | Some l \<Rightarrow> l)))])
      else (Joining (Err e) (of_nat (min ms (2 ^ 64 - 1))), []))"

definition final_msg :: "('io, int option \<times> int option) result \<Rightarrow> u64 \<Rightarrow> ('j, 'io) stream_msg" where
  "final_msg st duration_ms =
     (case st of Inr (code, signal) \<Rightarrow> Ok (Exit code signal duration_ms) | Inl e \<Rightarrow> Err (Backend (StreamExecWait e)))"

subsection \<open>The receiving end\<close>

record ('j, 'io) mock_stream =
  str_rx :: "('j, 'io) stream_msg list"
  str_done :: bool

text \<open>\<^verbatim>\<open>recv\<close> blocks (no result here) on an empty channel while a sender is alive.\<close>

definition next_frame ::
    "bool \<Rightarrow> ('j, 'io) mock_stream \<Rightarrow>
     (('j, 'io) mock_stream \<times> (('j, 'io) vm_error, exec_frame option) result) option" where
  "next_frame senders st =
     (if str_done st then Some (st, Ok None)
      else case str_rx st of
        Inr f # ms \<Rightarrow>
          Some (st\<lparr>str_rx := ms, str_done := (case f of Exit _ _ _ \<Rightarrow> True | _ \<Rightarrow> False)\<rparr>, Ok (Some f))
      | Inl e # ms \<Rightarrow> Some (st\<lparr>str_rx := ms, str_done := True\<rparr>, Err e)
      | [] \<Rightarrow> if senders then None else Some (st\<lparr>str_done := True\<rparr>, Err (Backend StreamWithoutExit)))"

record ('j, 'io) exec_run =
  xr_out :: "'io pipe_reads option"
  xr_err :: "'io pipe_reads option"
  xr_waiter :: "'io waiter"
  xr_stream :: "('j, 'io) mock_stream"
  xr_open :: bool
  xr_seen :: "(('j, 'io) vm_error, exec_frame option) result list"

definition exec_in_guest_stream ::
    "('io, 'c) exec_host \<Rightarrow> ('c \<Rightarrow> 'io pipe_reads \<times> 'io pipe_reads) \<Rightarrow> mock_hv \<Rightarrow> vm_id \<Rightarrow> guest_exec_request \<Rightarrow>
     (('j, 'io) vm_error, ('j, 'io) exec_run) result" where
  "exec_in_guest_stream H pipes hv i req =
     and_then (require_running hv i) (\<lambda>_.
     and_then (map_err (\<lambda>e. Backend (ExecSpawn (ger_program req) e)) (eh_spawn H req)) (\<lambda>child.
       Ok \<lparr>xr_out = Some (fst (pipes child)), xr_err = Some (snd (pipes child)), xr_waiter = Polling False,
           xr_stream = \<lparr>str_rx = [], str_done = False\<rparr>, xr_open = True, xr_seen = []\<rparr>))"

definition senders_alive :: "('j, 'io) exec_run \<Rightarrow> bool" where
  "senders_alive s \<longleftrightarrow> xr_out s \<noteq> None \<or> xr_err s \<noteq> None \<or> xr_waiter s \<noteq> WaiterDone"

text \<open>Sending fails without effect once the receiver is dropped.\<close>

definition send_msgs :: "('j, 'io) exec_run \<Rightarrow> ('j, 'io) stream_msg list \<Rightarrow> ('j, 'io) exec_run" where
  "send_msgs s ms = (if xr_open s then s\<lparr>xr_stream := (xr_stream s)\<lparr>str_rx := str_rx (xr_stream s) @ ms\<rparr>\<rparr> else s)"

inductive exec_step :: "u64 option \<Rightarrow> ('j, 'io) exec_run \<Rightarrow> ('j, 'io) exec_run \<Rightarrow> bool" for timeout_ms where
  read_stdout: "xr_out s = Some rs \<Longrightarrow> reader_step (xr_open s) Stdout rs = (rs', ms) \<Longrightarrow>
    exec_step timeout_ms s (send_msgs (s\<lparr>xr_out := rs'\<rparr>) ms)"
| read_stderr: "xr_err s = Some rs \<Longrightarrow> reader_step (xr_open s) Stderr rs = (rs', ms) \<Longrightarrow>
    exec_step timeout_ms s (send_msgs (s\<lparr>xr_err := rs'\<rparr>) ms)"
| try_wait: "xr_waiter s = Polling killed \<Longrightarrow> poll_step timeout_ms killed p = (w, ms) \<Longrightarrow>
    exec_step timeout_ms s (send_msgs (s\<lparr>xr_waiter := w\<rparr>) ms)"
| joined: "xr_waiter s = Joining st d \<Longrightarrow> xr_out s = None \<Longrightarrow> xr_err s = None \<Longrightarrow>
    exec_step timeout_ms s (send_msgs (s\<lparr>xr_waiter := WaiterDone\<rparr>) [final_msg st d])"
| client: "xr_open s \<Longrightarrow> next_frame (senders_alive s) (xr_stream s) = Some (st', r) \<Longrightarrow>
    exec_step timeout_ms s (s\<lparr>xr_stream := st', xr_seen := xr_seen s @ [r]\<rparr>)"
| drop_stream: "xr_open s \<Longrightarrow> exec_step timeout_ms s (s\<lparr>xr_open := False\<rparr>)"

inductive_cases exec_stepE: "exec_step timeout_ms s s'"

subsection \<open>What the client sees\<close>

text \<open>The chunks a pipe delivers before end of file or a read error.\<close>

fun chunks :: "'io pipe_reads \<Rightarrow> bytes list" where
  "chunks (Inr c # rs) = (if c = [] then [] else c # chunks rs)"
| "chunks _ = []"

definition outs :: "('j, 'io) stream_msg list \<Rightarrow> bytes list" where
  "outs ms = List.map_filter (\<lambda>m. case m of Inr (Stdout c) \<Rightarrow> Some c | _ \<Rightarrow> None) ms"

definition errs :: "('j, 'io) stream_msg list \<Rightarrow> bytes list" where
  "errs ms = List.map_filter (\<lambda>m. case m of Inr (Stderr c) \<Rightarrow> Some c | _ \<Rightarrow> None) ms"

fun is_exit :: "('j, 'io) stream_msg \<Rightarrow> bool" where
  "is_exit (Inr (Exit _ _ _)) = True"
| "is_exit _ = False"

fun is_data :: "('j, 'io) stream_msg \<Rightarrow> bool" where
  "is_data (Inr (Stdout _)) = True"
| "is_data (Inr (Stderr _)) = True"
| "is_data _ = False"

definition shown :: "('j, 'io) stream_msg \<Rightarrow> (('j, 'io) vm_error, exec_frame option) result" where
  "shown = map_sum id Some"

text \<open>
  The messages the client has taken: data, then at most one that ends the stream, and an Exit only
  after all output.
\<close>

definition view_ok :: "'io pipe_reads \<Rightarrow> 'io pipe_reads \<Rightarrow> ('j, 'io) stream_msg list \<Rightarrow> nat \<Rightarrow> bool" where
  "view_ok ro re used n \<longleftrightarrow>
     prefix (outs used) (chunks ro) \<and> prefix (errs used) (chunks re) \<and>
     list_all is_data (butlast used) \<and>
     (used = [] \<or> is_data (last used) \<longrightarrow> n = 0) \<and>
     (used \<noteq> [] \<and> is_exit (last used) \<longrightarrow> outs used = chunks ro \<and> errs used = chunks re) \<and>
     Err (Backend StreamWithoutExit) \<notin> set used"

text \<open>The state of the channel while the receiver is open.\<close>

definition rest :: "'io pipe_reads option \<Rightarrow> bytes list" where
  "rest r = (case r of None \<Rightarrow> [] | Some rs \<Rightarrow> chunks rs)"

definition sent_ok :: "'io waiter \<Rightarrow> bool \<Rightarrow> ('j, 'io) stream_msg list \<Rightarrow> bool" where
  "sent_ok w reading sent \<longleftrightarrow> Err (Backend StreamWithoutExit) \<notin> set sent \<and>
     (if w = WaiterDone
      then \<exists>d m d'. sent = d @ m # d' \<and> list_all is_data d \<and> list_all is_data d' \<and> \<not> is_data m \<and>
        (is_exit m \<longrightarrow> d' = [] \<and> \<not> reading)
      else list_all is_data sent)"

definition reading :: "('j, 'io) exec_run \<Rightarrow> bool" where
  "reading s \<longleftrightarrow> xr_out s \<noteq> None \<or> xr_err s \<noteq> None"

definition run_ok :: "'io pipe_reads \<Rightarrow> 'io pipe_reads \<Rightarrow> ('j, 'io) exec_run \<Rightarrow> ('j, 'io) stream_msg list \<Rightarrow> nat \<Rightarrow> bool" where
  "run_ok ro re s used n \<longleftrightarrow>
     xr_seen s = map shown used @ replicate n (Ok None) \<and>
     outs (used @ str_rx (xr_stream s)) @ rest (xr_out s) = chunks ro \<and>
     errs (used @ str_rx (xr_stream s)) @ rest (xr_err s) = chunks re \<and>
     sent_ok (xr_waiter s) (reading s) (used @ str_rx (xr_stream s)) \<and>
     (str_done (xr_stream s) \<longleftrightarrow> \<not> list_all is_data used) \<and> list_all is_data (butlast used) \<and>
     (\<not> str_done (xr_stream s) \<longrightarrow> n = 0)"

lemma shown_Inl: "Inl e = shown m \<longleftrightarrow> m = Inl e"
  by (cases m) (auto simp: shown_def)

lemma msgs_append [simp]:
  "outs (a @ b) = outs a @ outs b" "errs (a @ b) = errs a @ errs b" "outs [] = []" "errs [] = []"
  by (simp_all add: outs_def errs_def List.map_filter_def)


lemma msgs_single [simp]:
  "outs [Inr (Stdout c)] = [c]" "outs [Inr (Stderr c)] = []" "outs [Inr (Exit a b d)] = []" "outs [Inl e] = []"
  "errs [Inr (Stdout c)] = []" "errs [Inr (Stderr c)] = [c]" "errs [Inr (Exit a b d)] = []" "errs [Inl e] = []"
  by (simp_all add: outs_def errs_def List.map_filter_def)

lemma msgs_final [simp]: "outs [final_msg st d] = []" "errs [final_msg st d] = []" "\<not> is_data (final_msg st d)"
  "final_msg st d \<noteq> Err (Backend StreamWithoutExit)"
  by (auto simp: final_msg_def split: sum.splits prod.splits)

text \<open>What each kind of step does to the sequence of messages sent.\<close>

lemma sent_ok_data: "sent_ok w True sent \<Longrightarrow> is_data m \<Longrightarrow> sent_ok w r (sent @ [m])"
  unfolding sent_ok_def by (auto split: if_splits) (metis append_Cons append.assoc list_all_append list.pred_inject)

lemma sent_ok_stop: "sent_ok w r sent \<Longrightarrow> r' \<longrightarrow> r \<Longrightarrow> sent_ok w r' sent"
  unfolding sent_ok_def by (auto split: if_splits)

lemma sent_ok_wait: "sent_ok w r sent \<Longrightarrow> w \<noteq> WaiterDone \<Longrightarrow> w' \<noteq> WaiterDone \<Longrightarrow> sent_ok w' r sent"
  by (simp add: sent_ok_def)

lemma sent_ok_end:
  assumes "sent_ok w r sent" and "w \<noteq> WaiterDone" and "\<not> is_data m" and "is_exit m \<longrightarrow> \<not> r"
    and "m \<noteq> Err (Backend StreamWithoutExit)"
  shows "sent_ok WaiterDone r (sent @ [m])"
  using assms
  by (simp add: sent_ok_def) (rule exI [of _ sent], rule exI [of _ m], rule exI [of _ "[]"], simp)

lemma sent_ok_exit:
  assumes "sent_ok w r (u @ m # rx)" and "is_exit m"
  shows "rx = [] \<and> \<not> r"
proof -
  from assms(2) have nd: "\<not> is_data m" by (cases m rule: is_exit.cases) auto
  with assms obtain d m1 d' where eq: "u @ m # rx = d @ m1 # d'" and data: "list_all is_data d" "list_all is_data d'"
    and m1: "is_exit m1 \<longrightarrow> d' = [] \<and> \<not> r"
    by (auto simp: sent_ok_def split: if_splits)
  from eq nd data have "u = d \<and> m = m1 \<and> rx = d'"
    by (auto simp: append_eq_append_conv2 Cons_eq_append_conv append_eq_Cons_conv)
  with assms(2) m1 show ?thesis by auto
qed

lemma view_of_run:
  assumes "run_ok ro re s used n"
  shows "view_ok ro re used n"
proof -
  let ?rx = "str_rx (xr_stream s)"
  from assms have o: "chunks ro = outs used @ (outs ?rx @ rest (xr_out s))"
    and e: "chunks re = errs used @ (errs ?rx @ rest (xr_err s))"
    and sent: "sent_ok (xr_waiter s) (reading s) (used @ ?rx)" and data: "list_all is_data (butlast used)"
    by (simp_all add: run_ok_def)
  have "outs used = chunks ro \<and> errs used = chunks re" if "used \<noteq> []" "is_exit (last used)"
  proof -
    from that(1) obtain u where u: "used = u @ [last used]" by (metis append_butlast_last_id)
    with sent have "sent_ok (xr_waiter s) (reading s) (u @ last used # ?rx)" by (metis append.assoc append_Cons append_Nil)
    from sent_ok_exit [OF this that(2)] o e show ?thesis by (simp add: reading_def rest_def)
  qed
  moreover have "n = 0" if "used = [] \<or> is_data (last used)"
    using assms that unfolding run_ok_def by (cases used rule: rev_cases) auto
  moreover have "prefix (outs used) (chunks ro)" "prefix (errs used) (chunks re)"
    unfolding o e by (rule prefixI, rule refl)+
  ultimately show ?thesis using sent data by (auto simp: view_ok_def sent_ok_def)
qed

lemma reader_sends:
  assumes "reader_step True frame rs = (rs', ms)"
  shows "(ms = [] \<and> chunks rs = [] \<and> rs' = None) \<or> (\<exists>c rs1. rs' = Some rs1 \<and> ms = [Inr (frame c)] \<and> chunks rs = c # chunks rs1)"
  using assms by (induction True frame rs rule: reader_step.induct) (auto split: if_splits)

lemma poll_sends:
  assumes "poll_step t killed p = (w, ms)"
  shows "(w \<noteq> WaiterDone \<and> ms = []) \<or> (w = WaiterDone \<and> (\<exists>l. ms = [Inl (Backend (StreamExecTimeout l))]))"
  using assms by (cases p) (auto split: if_splits)

text \<open>A step of a worker thread appends \<open>ms\<close> to the channel and keeps what the client has seen.\<close>

lemma run_ok_send:
  assumes "run_ok ro re s used n" and "xr_open s'"
    and "xr_stream s' = xr_stream s" "xr_seen s' = xr_seen s"
    and "outs ms @ rest (xr_out s') = rest (xr_out s)" "errs ms @ rest (xr_err s') = rest (xr_err s)"
    and "\<And>sent. sent_ok (xr_waiter s) (reading s) sent \<Longrightarrow> sent_ok (xr_waiter s') (reading s') (sent @ ms)"
  shows "run_ok ro re (send_msgs s' ms) used n"
proof -
  let ?rx = "str_rx (xr_stream s)"
  from assms(1) have "sent_ok (xr_waiter s) (reading s) (used @ ?rx)" by (simp add: run_ok_def)
  from assms(7) [OF this] have "sent_ok (xr_waiter s') (reading s') (used @ ?rx @ ms)" by simp
  with assms(1-6) show ?thesis by (simp add: run_ok_def send_msgs_def reading_def)
qed

lemma worker_step_ok:
  assumes ok: "run_ok ro re s used n" and op: "xr_open s" and step: "exec_step t s s'"
    and still: "xr_seen s' = xr_seen s" "xr_open s'"
  shows "run_ok ro re s' used n"
  using step
proof cases
  case (read_stdout rs rs' ms)
  from reader_sends [of Stdout rs rs' ms] read_stdout(3) op
  consider "ms = []" "chunks rs = []" "rs' = None"
    | c rs1 where "rs' = Some rs1" "ms = [Inr (Stdout c)]" "chunks rs = c # chunks rs1" by auto
  then show ?thesis unfolding read_stdout(1)
    by cases (rule run_ok_send [OF ok]; use op read_stdout(2) in
      \<open>auto simp: rest_def reading_def intro: sent_ok_data elim: sent_ok_stop\<close>)+
next
  case (read_stderr rs rs' ms)
  from reader_sends [of Stderr rs rs' ms] read_stderr(3) op
  consider "ms = []" "chunks rs = []" "rs' = None"
    | c rs1 where "rs' = Some rs1" "ms = [Inr (Stderr c)]" "chunks rs = c # chunks rs1" by auto
  then show ?thesis unfolding read_stderr(1)
    by cases (rule run_ok_send [OF ok]; use op read_stderr(2) in
      \<open>auto simp: rest_def reading_def intro: sent_ok_data elim: sent_ok_stop\<close>)+
next
  case (try_wait killed p w ms)
  from poll_sends [OF try_wait(3)]
  consider "w \<noteq> WaiterDone" "ms = []" | l where "w = WaiterDone" "ms = [Inl (Backend (StreamExecTimeout l))]" by auto
  then show ?thesis unfolding try_wait(1)
    by cases (rule run_ok_send [OF ok]; use op try_wait(2) in
      \<open>auto simp: rest_def reading_def intro: sent_ok_end elim: sent_ok_wait\<close>)+
next
  case (joined st d)
  show ?thesis unfolding joined(1)
    by (rule run_ok_send [OF ok])
      (use op joined(2-) in \<open>auto simp: rest_def reading_def intro: sent_ok_end\<close>)
qed (use still in auto)

lemma client_step_ok:
  assumes ok: "run_ok ro re s used n" and nf: "next_frame (senders_alive s) (xr_stream s) = Some (st', r)"
  shows "\<exists>used n. run_ok ro re (s\<lparr>xr_stream := st', xr_seen := xr_seen s @ [r]\<rparr>) used n"
proof (cases "str_done (xr_stream s)")
  case True
  with nf ok have "run_ok ro re (s\<lparr>xr_stream := st', xr_seen := xr_seen s @ [r]\<rparr>) used (Suc n)"
    by (auto simp: next_frame_def run_ok_def reading_def replicate_append_same)
  then show ?thesis by blast
next
  case False
  with ok have n: "n = 0" and data: "list_all is_data used" by (auto simp: run_ok_def)
  show ?thesis
  proof (cases "str_rx (xr_stream s)")
    case Nil
    with ok data have "xr_waiter s \<noteq> WaiterDone" by (auto simp: run_ok_def sent_ok_def)
    with False nf Nil show ?thesis by (simp add: next_frame_def senders_alive_def)
  next
    case (Cons m ms)
    have "st' = (xr_stream s)\<lparr>str_rx := ms, str_done := \<not> is_data m\<rparr> \<and> r = shown m"
      using nf False Cons
      by (cases m rule: is_data.cases) (auto simp: next_frame_def shown_def)
    with ok n data Cons False have "run_ok ro re (s\<lparr>xr_stream := st', xr_seen := xr_seen s @ [r]\<rparr>) (used @ [m]) 0"
      by (simp add: run_ok_def reading_def)
    then show ?thesis by blast
  qed
qed

definition seen_ok :: "'io pipe_reads \<Rightarrow> 'io pipe_reads \<Rightarrow> ('j, 'io) exec_run \<Rightarrow> bool" where
  "seen_ok ro re s \<longleftrightarrow> (\<exists>used n. xr_seen s = map shown used @ replicate n (Ok None) \<and> view_ok ro re used n)"

lemma exec_step_inv:
  assumes "exec_step t s s'" and "seen_ok ro re s" and "xr_open s \<longrightarrow> (\<exists>used n. run_ok ro re s used n)"
  shows "seen_ok ro re s' \<and> (xr_open s' \<longrightarrow> (\<exists>used n. run_ok ro re s' used n))"
proof -
  have view: "seen_ok ro re x" if "run_ok ro re x used n" for x used n
    using view_of_run [OF that] that unfolding seen_ok_def by (auto simp: run_ok_def)
  have worker: ?thesis if "xr_seen s' = xr_seen s" "xr_open s' = xr_open s"
    using worker_step_ok [OF _ _ assms(1)] assms(2,3) that by (metis seen_ok_def)
  from assms(1) show ?thesis
  proof cases
    case (client st' r)
    with assms(3) client_step_ok show ?thesis by (metis view)
  next
    case drop_stream
    with assms(2) show ?thesis by (simp add: seen_ok_def)
  qed (use worker in \<open>simp_all add: send_msgs_def\<close>)
qed

text \<open>
  C40: However the reader threads, the waiter and the client interleave, what the calls to
  \<^verbatim>\<open>next_frame\<close> return is a sequence of output chunks, then at most one Exit or error, then only end of
  stream. The chunks of each pipe come in order and none is lost or repeated; when the Exit frame is
  seen, all output of both pipes has been seen. The error for a stream without an Exit never occurs.
\<close>
theorem exec_stream_complete:
  assumes "exec_in_guest_stream H pipes hv i req = Ok s0" and "(exec_step (ger_timeout_ms req))\<^sup>*\<^sup>* s0 s"
  shows "\<exists>child used n. eh_spawn H req = Ok child \<and>
    xr_seen s = map shown used @ replicate n (Ok None) \<and>
    list_all is_data (butlast used) \<and> (used = [] \<or> is_data (last used) \<longrightarrow> n = 0) \<and>
    prefix (outs used) (chunks (fst (pipes child))) \<and> prefix (errs used) (chunks (snd (pipes child))) \<and>
    (used \<noteq> [] \<and> is_exit (last used) \<longrightarrow>
       outs used = chunks (fst (pipes child)) \<and> errs used = chunks (snd (pipes child))) \<and>
    Err (Backend StreamWithoutExit) \<notin> set (xr_seen s)"
proof -
  from assms(1) obtain child where c: "eh_spawn H req = Ok child"
    and s0: "s0 = \<lparr>xr_out = Some (fst (pipes child)), xr_err = Some (snd (pipes child)), xr_waiter = Polling False,
      xr_stream = \<lparr>str_rx = [], str_done = False\<rparr>, xr_open = True, xr_seen = []\<rparr>"
    by (auto simp: exec_in_guest_stream_def and_then_eqs map_err_def split: sum.splits)
  let ?inv = "\<lambda>x. seen_ok (fst (pipes child)) (snd (pipes child)) x \<and>
    (xr_open x \<longrightarrow> (\<exists>used n. run_ok (fst (pipes child)) (snd (pipes child)) x used n))"
  have "run_ok (fst (pipes child)) (snd (pipes child)) s0 [] 0"
    by (simp add: run_ok_def s0 rest_def sent_ok_def)
  then have "?inv s0" using view_of_run by (fastforce simp: seen_ok_def s0)
  with assms(2) have "?inv s"
    by (induction rule: rtranclp_induct) (use exec_step_inv in blast)+
  then obtain used n where seen: "xr_seen s = map shown used @ replicate n (Ok None)"
    and v: "view_ok (fst (pipes child)) (snd (pipes child)) used n" by (auto simp: seen_ok_def)
  have "Err (Backend StreamWithoutExit) \<notin> set (xr_seen s)"
    using v unfolding seen view_ok_def shown_def by (auto simp: shown_Inl [unfolded shown_def])
  with c seen v show ?thesis unfolding view_ok_def by blast
qed

text \<open>A process that writes one chunk and exits with status 0, and one way its stream can go.\<close>

definition sample_host :: "(unit, unit) exec_host" where
  "sample_host = \<lparr>eh_spawn = (\<lambda>_. Ok ()), eh_wait_with_output = (\<lambda>_. Err ()), eh_elapsed_ms = (\<lambda>_. 5)\<rparr>"

definition sample_request_exec :: guest_exec_request where
  "sample_request_exec = \<lparr>ger_program = ''echo'', ger_args = [], ger_cwd = None, ger_env = [], ger_timeout_ms = None\<rparr>"

definition sample_run ::
    "unit pipe_reads option \<Rightarrow> unit pipe_reads option \<Rightarrow> unit waiter \<Rightarrow> (unit, unit) stream_msg list \<Rightarrow> bool \<Rightarrow>
     (unit, unit) stream_msg list \<Rightarrow> (unit, unit) exec_run" where
  "sample_run ro re w rx dn used = \<lparr>xr_out = ro, xr_err = re, xr_waiter = w, xr_stream = \<lparr>str_rx = rx, str_done = dn\<rparr>,
     xr_open = True, xr_seen = map shown used\<rparr>"

lemmas sample_run_eqs = sample_run_def send_msgs_def final_msg_def next_frame_def senders_alive_def shown_def

lemma sample_run_steps:
  defines "x \<equiv> Exit (Some 0) None 5"
  shows "exec_step None (sample_run (Some [Inr [1]]) (Some []) (Polling False) [] False [])
      (sample_run (Some []) (Some []) (Polling False) [Inr (Stdout [1])] False [])"
    and "exec_step None (sample_run (Some []) (Some []) (Polling False) [Inr (Stdout [1])] False [])
      (sample_run None (Some []) (Polling False) [Inr (Stdout [1])] False [])"
    and "exec_step None (sample_run None (Some []) (Polling False) [Inr (Stdout [1])] False [])
      (sample_run None None (Polling False) [Inr (Stdout [1])] False [])"
    and "exec_step None (sample_run None None (Polling False) [Inr (Stdout [1])] False [])
      (sample_run None None (Joining (Ok (Some 0, None)) 5) [Inr (Stdout [1])] False [])"
    and "exec_step None (sample_run None None (Joining (Ok (Some 0, None)) 5) [Inr (Stdout [1])] False [])
      (sample_run None None WaiterDone [Inr (Stdout [1]), Inr x] False [])"
    and "exec_step None (sample_run None None WaiterDone [Inr (Stdout [1]), Inr x] False [])
      (sample_run None None WaiterDone [Inr x] False [Inr (Stdout [1])])"
    and "exec_step None (sample_run None None WaiterDone [Inr x] False [Inr (Stdout [1])])
      (sample_run None None WaiterDone [] True [Inr (Stdout [1]), Inr x])"
  using exec_step.read_stdout [of "sample_run (Some [Inr [1]]) (Some []) (Polling False) [] False []" _ _ _ None]
    exec_step.read_stdout [of "sample_run (Some []) (Some []) (Polling False) [Inr (Stdout [1])] False []" _ _ _ None]
    exec_step.read_stderr [of "sample_run None (Some []) (Polling False) [Inr (Stdout [1])] False []" _ _ _ None]
    exec_step.try_wait [of "sample_run None None (Polling False) [Inr (Stdout [1])] False []" False None "Exited (Some 0) None 5"]
    exec_step.joined [of "sample_run None None (Joining (Ok (Some 0, None)) 5) [Inr (Stdout [1])] False []" _ _ None]
    exec_step.client [of "sample_run None None WaiterDone [Inr (Stdout [1]), Inr x] False []" _ _ None]
    exec_step.client [of "sample_run None None WaiterDone [Inr x] False [Inr (Stdout [1])]" _ _ None]
  by (simp_all add: sample_run_eqs x_def)

theorem exec_stream_complete_witness:
  "\<exists>s. (exec_step None)\<^sup>*\<^sup>* (sample_run (Some [Inr [1]]) (Some []) (Polling False) [] False []) s \<and>
     xr_seen s = [Ok (Some (Stdout [1])), Ok (Some (Exit (Some 0) None 5))] \<and>
     Err (Backend StreamWithoutExit) \<notin> set (xr_seen s)"
proof -
  let ?init = "sample_run (Some [Inr [1]]) (Some []) (Polling False) [] False []"
  let ?s = "sample_run None None WaiterDone [] True [Inr (Stdout [1]), Inr (Exit (Some 0) None 5)]"
  have start: "exec_in_guest_stream sample_host (\<lambda>_. ([Inr [1]], [])) sample_hv 2 sample_request_exec = Ok ?init"
    by (simp add: exec_in_guest_stream_def require_running_def sample_hv_eq sample_host_def sample_run_def)
  have none: "ger_timeout_ms sample_request_exec = None" by (simp add: sample_request_exec_def)
  have run: "(exec_step (ger_timeout_ms sample_request_exec))\<^sup>*\<^sup>* ?init ?s"
    unfolding none using sample_run_steps by (meson converse_rtranclp_into_rtranclp rtranclp.rtrancl_refl)
  from exec_stream_complete [OF start run] have "Err (Backend StreamWithoutExit) \<notin> set (xr_seen ?s)" by blast
  with run show ?thesis
    by (intro exI [of _ ?s]) (simp add: none sample_run_def [of None None WaiterDone] shown_def)
qed

end
