(* ===== verification/Auth.thy ===== *)
theory Auth
  imports Vm_Mock "HOL-Library.Char_ord" "HOL-Library.List_Lexorder"
begin

text \<open>
  Authentication of the control plane: \<^verbatim>\<open>crates/control-plane/src/auth.rs\<close>, the key handlers of
  \<^verbatim>\<open>keys.rs\<close> and the error type of \<^verbatim>\<open>error.rs\<close>. A bearer token maps to one org and one role.
  Env tokens are parsed from a comma-separated list; runtime tokens are issued and revoked, and
  saved to a file after each change. Random tokens and ids, the clock, the iteration order of a hash
  map and the success of a file write are arguments; a formatted message is a constructor with the
  values it prints. Strings are byte strings, and trimming removes the ASCII white space.
\<close>

subsection \<open>Strings\<close>

definition is_ws :: "char \<Rightarrow> bool" where
  "is_ws c \<longleftrightarrow> c \<in> {CHR 0x09, CHR 0x0A, CHR 0x0B, CHR 0x0C, CHR 0x0D, CHR '' ''}"

definition is_ascii_ws :: "char \<Rightarrow> bool" where
  "is_ascii_ws c \<longleftrightarrow> c \<in> {CHR 0x09, CHR 0x0A, CHR 0x0C, CHR 0x0D, CHR '' ''}"

definition trim_start :: "string \<Rightarrow> string" where
  "trim_start s = dropWhile is_ws s"

definition trim :: "string \<Rightarrow> string" where
  "trim s = rev (dropWhile is_ws (rev (dropWhile is_ws s)))"

definition ascii_lower :: "char \<Rightarrow> char" where
  "ascii_lower c = (let n = of_char c :: nat in if 65 \<le> n \<and> n \<le> 90 then char_of (n + 32) else c)"

definition to_ascii_lowercase :: "string \<Rightarrow> string" where
  "to_ascii_lowercase s = map ascii_lower s"

text \<open>\<^verbatim>\<open>split_once\<close> at the first character that satisfies the pattern, \<^verbatim>\<open>rsplit_once\<close> at the last.\<close>

fun split_once :: "(char \<Rightarrow> bool) \<Rightarrow> string \<Rightarrow> (string \<times> string) option" where
  "split_once p [] = None"
| "split_once p (c # cs) =
     (if p c then Some ([], cs) else map_option (\<lambda>(a, b). (c # a, b)) (split_once p cs))"

definition rsplit_once :: "(char \<Rightarrow> bool) \<Rightarrow> string \<Rightarrow> (string \<times> string) option" where
  "rsplit_once p s = map_option (\<lambda>(a, b). (rev b, rev a)) (split_once p (rev s))"

fun split_at_char :: "char \<Rightarrow> string \<Rightarrow> string list" where
  "split_at_char d [] = [[]]"
| "split_at_char d (c # cs) =
     (if c = d then [] # split_at_char d cs
      else case split_at_char d cs of [] \<Rightarrow> [[c]] | w # ws \<Rightarrow> (c # w) # ws)"

subsection \<open>Orgs and roles\<close>

type_synonym org_id = string
type_synonym token_id = string

definition DEFAULT_ORG :: string where "DEFAULT_ORG = ''default''"

definition default_org :: org_id where "default_org = DEFAULT_ORG"

datatype role = Viewer | Developer | Admin

fun role_rank :: "role \<Rightarrow> nat" where
  "role_rank Viewer = 0"
| "role_rank Developer = 1"
| "role_rank Admin = 2"

lemma role_rank_inject: "role_rank a = role_rank b \<Longrightarrow> a = b"
  by (cases a; cases b) simp_all

instantiation role :: linorder
begin

definition less_eq_role :: "role \<Rightarrow> role \<Rightarrow> bool" where
  "less_eq_role a b \<longleftrightarrow> role_rank a \<le> role_rank b"

definition less_role :: "role \<Rightarrow> role \<Rightarrow> bool" where
  "less_role a b \<longleftrightarrow> role_rank a < role_rank b"

instance
  by standard (auto simp: less_eq_role_def less_role_def intro: role_rank_inject)

end

definition default_for_legacy :: role where "default_for_legacy = Admin"

definition Role_parse :: "string \<Rightarrow> role option" where
  "Role_parse s =
     (let w = to_ascii_lowercase (trim s) in
      if w = ''admin'' then Some Admin
      else if w = ''developer'' \<or> w = ''dev'' then Some Developer
      else if w = ''viewer'' \<or> w = ''readonly'' \<or> w = ''read-only'' then Some Viewer
      else None)"

fun Role_as_str :: "role \<Rightarrow> string" where
  "Role_as_str Admin = ''admin''"
| "Role_as_str Developer = ''developer''"
| "Role_as_str Viewer = ''viewer''"

subsection \<open>Errors\<close>

datatype forbidden = CrossOrgVm vm_id | CrossOrgSnapshot snapshot_id | RoleRequired role role

datatype unauthorized = MissingAuthorization | InvalidToken | MissingBearerForUsage

datatype bad_request =
    LimitZero
  | LimitTooLarge u32
  | BadSnapshotEnv string
  | NoSnapshotId
  | SnapshotBody string
  | BadQuery string

datatype ('j, 'io, 'r) api_error =
    Vm "('j, 'io) vm_error"
  | BadJson 'r
  | BadPath 'r
  | Unauthorized unauthorized
  | Forbidden forbidden
  | Internal string
  | Bad bad_request
  | TooManyRequests bool u64
  | NotFound string string

text \<open>The HTTP status and the stable code of an error; \<open>rej\<close> is the status of an extractor rejection.\<close>

definition into_response :: "('r \<Rightarrow> nat) \<Rightarrow> ('j, 'io, 'r) api_error \<Rightarrow> nat \<times> string" where
  "into_response rej e =
     (case e of
        TooManyRequests _ _ \<Rightarrow> (429, ''fork_quota_exceeded'')
      | Vm e \<Rightarrow>
          (case e of
             UnknownVm _ \<Rightarrow> (404, ''unknown_vm'')
           | UnknownSnapshot _ \<Rightarrow> (404, ''unknown_snapshot'')
           | InvalidTransition _ _ _ \<Rightarrow> (409, ''invalid_transition'')
           | vm_error.Unsupported _ \<Rightarrow> (501, ''unsupported'')
           | Backend _ \<Rightarrow> (500, ''backend''))
      | BadJson r \<Rightarrow> (rej r, ''bad_request'')
      | BadPath r \<Rightarrow> (rej r, ''bad_request'')
      | Unauthorized _ \<Rightarrow> (401, ''unauthorized'')
      | Forbidden (RoleRequired _ _) \<Rightarrow> (403, ''role_required'')
      | Forbidden _ \<Rightarrow> (403, ''cross_org'')
      | Internal _ \<Rightarrow> (500, ''internal'')
      | Bad _ \<Rightarrow> (400, ''bad_request'')
      | NotFound code _ \<Rightarrow> (404, code))"

subsection \<open>The token store\<close>

datatype token_source = Env | Runtime token_id string

record token_entry =
  te_org :: org_id
  te_role :: role
  te_source :: token_source

record persisted_token =
  pt_token :: string
  pt_id :: string
  pt_org :: string
  pt_created_at :: string

record api_tokens =
  at_by_token :: "string \<rightharpoonup> token_entry"
  at_id_to_token :: "token_id \<rightharpoonup> string"
  at_persist :: bool
  at_file :: "persisted_token list"

text \<open>
  \<open>at_file\<close> is the content of the persistence file, \<open>at_persist\<close> whether one is configured. The file
  is replaced by writing a temporary file and renaming it, so a failed write leaves the old content.
\<close>

record issued_token =
  it_token :: string
  it_id :: token_id
  it_org :: org_id
  it_created_at :: string

record runtime_token_info =
  rt_id :: token_id
  rt_org :: org_id
  rt_created_at :: string

definition normalize_org :: "string \<Rightarrow> org_id" where
  "normalize_org org_str = (let s = trim org_str in if s = [] then default_org else s)"

definition split_role_suffix :: "string \<Rightarrow> string \<times> role" where
  "split_role_suffix entry =
     (case rsplit_once (\<lambda>c. c = CHR ''@'') entry of
        Some (body, tail) \<Rightarrow>
          (case Role_parse tail of Some role \<Rightarrow> (body, role) | None \<Rightarrow> (entry, default_for_legacy))
      | None \<Rightarrow> (entry, default_for_legacy))"

definition parse_env_entry :: "string \<Rightarrow> org_id \<times> string \<times> role" where
  "parse_env_entry entry =
     (let entry = trim entry;
          (body, role) = split_role_suffix entry;
          (org, token) =
            (case split_once (\<lambda>c. c = CHR '':'') body of
               Some (org, tok) \<Rightarrow> (normalize_org org, trim tok)
             | None \<Rightarrow> (default_org, trim body))
      in (org, token, role))"

definition ApiTokens_from_csv :: "string \<Rightarrow> api_tokens" where
  "ApiTokens_from_csv s =
     \<lparr>at_by_token =
        fold (\<lambda>entry m.
          let trimmed = trim entry in
          if trimmed = [] then m
          else let (org, token, role) = parse_env_entry trimmed in
            if token = [] then m
            else m(token \<mapsto> \<lparr>te_org = org, te_role = role, te_source = Env\<rparr>))
          (split_at_char CHR '','' s) Map.empty,
      at_id_to_token = Map.empty, at_persist = False, at_file = []\<rparr>"

definition load_persisted :: "persisted_token list \<Rightarrow> api_tokens \<Rightarrow> api_tokens" where
  "load_persisted entries tokens =
     fold (\<lambda>p t.
       if pt_token p = [] \<or> pt_id p = [] then t
       else t\<lparr>at_by_token := (at_by_token t)(pt_token p \<mapsto>
                \<lparr>te_org = pt_org p, te_role = default_for_legacy,
                 te_source = Runtime (pt_id p) (pt_created_at p)\<rparr>),
              at_id_to_token := (at_id_to_token t)(pt_id p \<mapsto> pt_token p)\<rparr>)
       entries tokens"

definition with_persistence :: "persisted_token list \<Rightarrow> api_tokens \<Rightarrow> api_tokens" where
  "with_persistence entries tokens = load_persisted entries (tokens\<lparr>at_persist := True, at_file := entries\<rparr>)"

definition persisted_entries :: "string list \<Rightarrow> api_tokens \<Rightarrow> persisted_token list" where
  "persisted_entries order tokens =
     List.map_filter (\<lambda>token.
       case at_by_token tokens token of
         Some e \<Rightarrow>
           (case te_source e of
              Runtime i created_at \<Rightarrow>
                Some \<lparr>pt_token = token, pt_id = i, pt_org = te_org e, pt_created_at = created_at\<rparr>
            | Env \<Rightarrow> None)
       | None \<Rightarrow> None) order"

definition persist :: "string list \<Rightarrow> bool \<Rightarrow> api_tokens \<Rightarrow> api_tokens" where
  "persist order write_ok tokens =
     (if \<not> at_persist tokens then tokens
      else if write_ok then tokens\<lparr>at_file := persisted_entries order tokens\<rparr>
      else tokens)"

definition ApiTokens_is_empty :: "api_tokens \<Rightarrow> bool" where
  "ApiTokens_is_empty tokens \<longleftrightarrow> at_by_token tokens = Map.empty"

definition accepts :: "api_tokens \<Rightarrow> string \<Rightarrow> bool" where
  "accepts tokens presented \<longleftrightarrow> at_by_token tokens presented \<noteq> None"

definition org_for :: "api_tokens \<Rightarrow> string \<Rightarrow> org_id option" where
  "org_for tokens presented = map_option te_org (at_by_token tokens presented)"

definition token_resolve :: "api_tokens \<Rightarrow> string \<Rightarrow> (org_id \<times> role) option" where
  "token_resolve tokens presented = map_option (\<lambda>e. (te_org e, te_role e)) (at_by_token tokens presented)"

text \<open>\<open>token\<close> and \<open>i\<close> are the strings generated from \<^verbatim>\<open>/dev/urandom\<close>.\<close>

definition issue ::
    "string list \<Rightarrow> bool \<Rightarrow> string \<Rightarrow> token_id \<Rightarrow> string \<Rightarrow> api_tokens \<Rightarrow> org_id \<Rightarrow> api_tokens \<times> issued_token" where
  "issue order write_ok token i created_at tokens org =
     (let tokens = tokens\<lparr>at_by_token := (at_by_token tokens)(token \<mapsto>
              \<lparr>te_org = org, te_role = default_for_legacy, te_source = Runtime i created_at\<rparr>),
            at_id_to_token := (at_id_to_token tokens)(i \<mapsto> token)\<rparr>
      in (persist order write_ok tokens,
          \<lparr>it_token = token, it_id = i, it_org = org, it_created_at = created_at\<rparr>))"

definition revoke :: "string list \<Rightarrow> bool \<Rightarrow> api_tokens \<Rightarrow> token_id \<Rightarrow> org_id \<Rightarrow> api_tokens \<times> bool" where
  "revoke order write_ok tokens i org =
     (case at_id_to_token tokens i of
        None \<Rightarrow> (tokens, False)
      | Some token \<Rightarrow>
          (case at_by_token tokens token of
             None \<Rightarrow> (tokens\<lparr>at_id_to_token := (at_id_to_token tokens)(i := None)\<rparr>, False)
           | Some e \<Rightarrow>
               if te_org e \<noteq> org then (tokens, False)
               else (case te_source e of
                 Env \<Rightarrow> (tokens, False)
               | Runtime _ _ \<Rightarrow>
                   let tokens = tokens\<lparr>at_by_token := (at_by_token tokens)(token := None),
                          at_id_to_token := (at_id_to_token tokens)(i := None)\<rparr>
                   in (persist order write_ok tokens, True))))"

definition list_runtime :: "string list \<Rightarrow> api_tokens \<Rightarrow> org_id \<Rightarrow> runtime_token_info list" where
  "list_runtime order tokens org =
     List.map_filter (\<lambda>token.
       case at_by_token tokens token of
         None \<Rightarrow> None
       | Some e \<Rightarrow>
           if te_org e \<noteq> org then None
           else (case te_source e of
             Env \<Rightarrow> None
           | Runtime i created_at \<Rightarrow> Some \<lparr>rt_id = i, rt_org = te_org e, rt_created_at = created_at\<rparr>)) order"

subsection \<open>Middleware and key handlers\<close>

definition parse_bearer_scheme :: "string \<Rightarrow> string option" where
  "parse_bearer_scheme header =
     (case split_once is_ascii_ws (trim_start header) of
        None \<Rightarrow> None
      | Some (scheme, rest) \<Rightarrow>
          if to_ascii_lowercase scheme \<noteq> ''bearer'' then None
          else let token = trim_start rest in if token = [] then None else Some token)"

text \<open>A header value is readable as text when all its bytes are visible ASCII, a space or a tab.\<close>

definition header_to_str :: "string \<Rightarrow> string option" where
  "header_to_str h =
     (if list_all (\<lambda>c. c = CHR 0x09 \<or> (32 \<le> (of_char c :: nat) \<and> (of_char c :: nat) < 127)) h then Some h else None)"

definition require_token ::
    "api_tokens option \<Rightarrow> string option \<Rightarrow> (('j, 'io, 'r) api_error, org_id \<times> role) result" where
  "require_token ext authorization =
     (case ext of
        None \<Rightarrow> Err (Internal ''ApiTokens extension is missing'')
      | Some tokens \<Rightarrow>
          if ApiTokens_is_empty tokens then Ok (default_org, default_for_legacy)
          else and_then
            (ok_or (Unauthorized MissingAuthorization)
              (Option.bind (Option.bind authorization header_to_str) parse_bearer_scheme))
            (\<lambda>bearer. ok_or (Unauthorized InvalidToken) (token_resolve tokens bearer)))"

definition require_role :: "role \<Rightarrow> role \<Rightarrow> (('j, 'io, 'r) api_error, unit) result" where
  "require_role caller min_role =
     (if caller \<ge> min_role then Ok () else Err (Forbidden (RoleRequired min_role caller)))"

definition issue_key ::
    "string list \<Rightarrow> bool \<Rightarrow> string \<Rightarrow> token_id \<Rightarrow> string \<Rightarrow> api_tokens \<Rightarrow> org_id \<Rightarrow> role \<Rightarrow>
     api_tokens \<times> (('j, 'io, 'r) api_error, issued_token) result" where
  "issue_key order write_ok token i created_at tokens org role =
     (case require_role role Admin of
        Inl e \<Rightarrow> (tokens, Err e)
      | Inr _ \<Rightarrow>
          let (tokens, issued) = issue order write_ok token i created_at tokens org in (tokens, Ok issued))"

definition list_keys :: "string list \<Rightarrow> api_tokens \<Rightarrow> org_id \<Rightarrow> runtime_token_info list" where
  "list_keys order tokens org = sort_key rt_id (list_runtime order tokens org)"

definition revoke_key ::
    "string list \<Rightarrow> bool \<Rightarrow> api_tokens \<Rightarrow> org_id \<Rightarrow> role \<Rightarrow> ('r, token_id) result \<Rightarrow>
     api_tokens \<times> (('j, 'io, 'r) api_error, unit) result" where
  "revoke_key order write_ok tokens org role i =
     (case and_then (require_role role Admin) (\<lambda>_. map_err BadPath i) of
        Inl e \<Rightarrow> (tokens, Err e)
      | Inr i \<Rightarrow>
          let (tokens, found) = revoke order write_ok tokens i org
          in (tokens, if found then Ok () else Err (NotFound ''unknown_key'' i)))"

subsection \<open>Key life cycle\<close>

text \<open>The two maps of the store describe the same runtime tokens, all with the Admin role.\<close>

definition tokens_ok :: "api_tokens \<Rightarrow> bool" where
  "tokens_ok t \<longleftrightarrow>
     (\<forall>i tok. at_id_to_token t i = Some tok \<longrightarrow>
        (\<exists>e c. at_by_token t tok = Some e \<and> te_source e = Runtime i c)) \<and>
     (\<forall>tok e i c. at_by_token t tok = Some e \<longrightarrow> te_source e = Runtime i c \<longrightarrow>
        at_id_to_token t i = Some tok \<and> te_role e = Admin)"

lemma persist_fields [simp]:
  "at_by_token (persist order w t) = at_by_token t"
  "at_id_to_token (persist order w t) = at_id_to_token t"
  "at_persist (persist order w t) = at_persist t"
  by (simp_all add: persist_def)

lemma tokens_ok_persist [simp]: "tokens_ok (persist order w t) = tokens_ok t"
  by (simp add: tokens_ok_def)

lemma tokens_okI:
  assumes "\<And>i tok. at_id_to_token t i = Some tok \<Longrightarrow> \<exists>e c. at_by_token t tok = Some e \<and> te_source e = Runtime i c"
    and "\<And>tok e i c. at_by_token t tok = Some e \<Longrightarrow> te_source e = Runtime i c \<Longrightarrow>
      at_id_to_token t i = Some tok \<and> te_role e = Admin"
  shows "tokens_ok t"
  using assms unfolding tokens_ok_def by blast

lemma tokens_ok_id:
  "tokens_ok t \<Longrightarrow> at_id_to_token t i = Some tok \<Longrightarrow> \<exists>e c. at_by_token t tok = Some e \<and> te_source e = Runtime i c"
  unfolding tokens_ok_def by blast

lemma tokens_ok_tok:
  "tokens_ok t \<Longrightarrow> at_by_token t tok = Some e \<Longrightarrow> te_source e = Runtime i c \<Longrightarrow>
    at_id_to_token t i = Some tok \<and> te_role e = Admin"
  unfolding tokens_ok_def by blast

lemma tokens_ok_issue:
  assumes ok: "tokens_ok t" and fresh: "at_by_token t token = None" "at_id_to_token t i = None"
  shows "tokens_ok (fst (issue order w token i c t org))"
proof (rule tokens_okI)
  fix j tok
  assume "at_id_to_token (fst (issue order w token i c t org)) j = Some tok"
  then consider "j = i" "tok = token" | "j \<noteq> i" "at_id_to_token t j = Some tok"
    by (auto simp: issue_def split: if_splits)
  then show "\<exists>e c'. at_by_token (fst (issue order w token i c t org)) tok = Some e \<and> te_source e = Runtime j c'"
  proof cases
    case 2
    with tokens_ok_id [OF ok] fresh show ?thesis by (fastforce simp: issue_def)
  qed (simp add: issue_def)
next
  fix tok e j c'
  assume "at_by_token (fst (issue order w token i c t org)) tok = Some e" and "te_source e = Runtime j c'"
  then consider "tok = token" "j = i" "te_role e = Admin"
    | "tok \<noteq> token" "at_by_token t tok = Some e" "te_source e = Runtime j c'"
    by (auto simp: issue_def default_for_legacy_def split: if_splits)
  then show "at_id_to_token (fst (issue order w token i c t org)) j = Some tok \<and> te_role e = Admin"
  proof cases
    case 2
    with tokens_ok_tok [OF ok] fresh show ?thesis by (fastforce simp: issue_def)
  qed (simp add: issue_def)
qed

lemma revoke_cases:
  assumes "tokens_ok t"
  obtains (found) tok e c where "at_id_to_token t i = Some tok" "at_by_token t tok = Some e" "te_source e = Runtime i c"
      "te_org e = org"
      "revoke order w t i org = (persist order w
         (t\<lparr>at_by_token := (at_by_token t)(tok := None), at_id_to_token := (at_id_to_token t)(i := None)\<rparr>), True)"
    | (missing) "revoke order w t i org = (t, False)"
      "\<nexists>tok e c. at_by_token t tok = Some e \<and> te_source e = Runtime i c \<and> te_org e = org"
proof (cases "at_id_to_token t i")
  case None
  with assms that(2) show ?thesis by (force simp: revoke_def tokens_ok_def)
next
  case (Some tok)
  with assms obtain e c where e: "at_by_token t tok = Some e" "te_source e = Runtime i c"
    unfolding tokens_ok_def by blast
  have only: "tok' = tok" if "at_by_token t tok' = Some e'" "te_source e' = Runtime i c'" for tok' e' c'
    using assms that Some unfolding tokens_ok_def by (metis option.inject)
  show ?thesis
  proof (cases "te_org e = org")
    case True
    with Some e that(1) show ?thesis by (simp add: revoke_def)
  next
    case False
    have "revoke order w t i org = (t, False)" using Some e False by (simp add: revoke_def)
    moreover have "\<nexists>tok e c. at_by_token t tok = Some e \<and> te_source e = Runtime i c \<and> te_org e = org"
      using only e False by (metis option.inject)
    ultimately show ?thesis by (rule that(2))
  qed
qed

lemma tokens_ok_revoke:
  assumes "tokens_ok t"
  shows "tokens_ok (fst (revoke order w t i org))"
proof (rule revoke_cases [OF assms, of i org order w])
  fix tok e c
  assume tok: "at_id_to_token t i = Some tok" and r: "revoke order w t i org = (persist order w
    (t\<lparr>at_by_token := (at_by_token t)(tok := None), at_id_to_token := (at_id_to_token t)(i := None)\<rparr>), True)"
  show ?thesis unfolding r fst_conv tokens_ok_persist
  proof (rule tokens_okI, goal_cases)
    case (1 j tok')
    then have "j \<noteq> i" "at_id_to_token t j = Some tok'" by (auto split: if_splits)
    from tokens_ok_id [OF assms this(2)] obtain e c where e: "at_by_token t tok' = Some e" "te_source e = Runtime j c" by blast
    have "tok' \<noteq> tok" using tokens_ok_id [OF assms tok] e \<open>j \<noteq> i\<close> by auto
    with e show ?case by simp
  next
    case (2 tok' e' j c')
    then have "tok' \<noteq> tok" "at_by_token t tok' = Some e'" by (auto split: if_splits)
    with tokens_ok_tok [OF assms this(2) 2(2)] tok show ?case by auto
  qed
qed (use assms in simp)

inductive key_step :: "api_tokens \<Rightarrow> api_tokens \<Rightarrow> bool" where
  key_issue: "at_by_token t token = None \<Longrightarrow> at_id_to_token t i = None \<Longrightarrow> token \<noteq> [] \<Longrightarrow> i \<noteq> [] \<Longrightarrow>
    dom (at_by_token (fst (issue order True token i c t org))) \<subseteq> set order \<Longrightarrow>
    key_step t (fst (issue order True token i c t org))"
| key_revoke: "dom (at_by_token (fst (revoke order True t i org))) \<subseteq> set order \<Longrightarrow>
    key_step t (fst (revoke order True t i org))"

text \<open>The persistence file lists exactly the runtime tokens.\<close>

definition file_ok :: "api_tokens \<Rightarrow> bool" where
  "file_ok t \<longleftrightarrow> at_persist t \<and> (\<forall>p. p \<in> set (at_file t) \<longleftrightarrow>
     at_by_token t (pt_token p) =
       Some \<lparr>te_org = pt_org p, te_role = Admin, te_source = Runtime (pt_id p) (pt_created_at p)\<rparr>)"

definition env_ok :: "(string \<rightharpoonup> token_entry) \<Rightarrow> api_tokens \<Rightarrow> bool" where
  "env_ok env t \<longleftrightarrow>
     (\<forall>tok e. env tok = Some e \<longrightarrow> at_by_token t tok = Some e \<and> te_source e = Env) \<and>
     (\<forall>tok e. at_by_token t tok = Some e \<longrightarrow> te_source e = Env \<longrightarrow> env tok = Some e) \<and>
     (\<forall>tok e i c. at_by_token t tok = Some e \<longrightarrow> te_source e = Runtime i c \<longrightarrow> tok \<noteq> [] \<and> i \<noteq> [])"

lemma file_ok_persist:
  assumes "tokens_ok t" and "at_persist t" and "dom (at_by_token t) \<subseteq> set order"
  shows "file_ok (persist order True t)"
proof -
  have "p \<in> set (persisted_entries order t) \<longleftrightarrow> at_by_token t (pt_token p) =
      Some \<lparr>te_org = pt_org p, te_role = Admin, te_source = Runtime (pt_id p) (pt_created_at p)\<rparr>" for p
  proof
    assume "p \<in> set (persisted_entries order t)"
    then obtain tok e i c where e: "at_by_token t tok = Some e" "te_source e = Runtime i c"
      and p: "p = \<lparr>pt_token = tok, pt_id = i, pt_org = te_org e, pt_created_at = c\<rparr>"
      by (auto simp: persisted_entries_def List.map_filter_def split: option.splits token_source.splits)
    with tokens_ok_tok [OF assms(1) e]
    show "at_by_token t (pt_token p) =
        Some \<lparr>te_org = pt_org p, te_role = Admin, te_source = Runtime (pt_id p) (pt_created_at p)\<rparr>"
      by simp
  next
    assume a: "at_by_token t (pt_token p) =
        Some \<lparr>te_org = pt_org p, te_role = Admin, te_source = Runtime (pt_id p) (pt_created_at p)\<rparr>"
    with assms(3) have "pt_token p \<in> set order" by blast
    with a show "p \<in> set (persisted_entries order t)"
      by (force simp: persisted_entries_def List.map_filter_def intro: image_eqI [of _ _ "pt_token p"])
  qed
  with assms(2) show ?thesis by (simp add: file_ok_def persist_def)
qed

lemma env_okI:
  assumes "\<And>tok e. env tok = Some e \<Longrightarrow> at_by_token t tok = Some e \<and> te_source e = Env"
    and "\<And>tok e. at_by_token t tok = Some e \<Longrightarrow> te_source e = Env \<Longrightarrow> env tok = Some e"
    and "\<And>tok e i c. at_by_token t tok = Some e \<Longrightarrow> te_source e = Runtime i c \<Longrightarrow> tok \<noteq> [] \<and> i \<noteq> []"
  shows "env_ok env t"
  using assms unfolding env_ok_def by blast

lemma env_okD:
  assumes "env_ok env t"
  shows "env tok = Some e \<Longrightarrow> at_by_token t tok = Some e \<and> te_source e = Env"
    and "at_by_token t tok = Some e \<Longrightarrow> te_source e = Env \<Longrightarrow> env tok = Some e"
    and "at_by_token t tok = Some e \<Longrightarrow> te_source e = Runtime i c \<Longrightarrow> tok \<noteq> [] \<and> i \<noteq> []"
  using assms unfolding env_ok_def by blast+

lemma env_ok_upd:
  assumes "env_ok env t" and "env tok = None" and "at_by_token t' = (at_by_token t)(tok := x)"
    and "\<And>e. x = Some e \<Longrightarrow> \<exists>i c. te_source e = Runtime i c \<and> tok \<noteq> [] \<and> i \<noteq> []"
  shows "env_ok env t'"
proof (rule env_okI, goal_cases)
  case (1 tok' e)
  then show ?case using env_okD(1) [OF assms(1)] assms(2,3) by fastforce
next
  case (2 tok' e)
  then show ?case using env_okD(2) [OF assms(1)] assms(3,4) by (fastforce split: if_splits)
next
  case (3 tok' e i c)
  then show ?case using env_okD(3) [OF assms(1)] assms(3,4) by (fastforce split: if_splits)
qed

lemma env_none:
  assumes "env_ok env t" and "at_by_token t tok = None \<or> at_by_token t tok = Some e \<and> te_source e = Runtime i c"
  shows "env tok = None"
  using env_okD(1) [OF assms(1), of tok] assms(2) by (cases "env tok") auto

lemma env_lookup:
  assumes "env_ok env t" and "\<And>e. at_by_token t tok = Some e \<Longrightarrow> te_source e = Env"
  shows "at_by_token t tok = env tok"
proof (cases "at_by_token t tok")
  case None
  with env_none [OF assms(1)] show ?thesis by simp
next
  case (Some e)
  with env_okD(2) [OF assms(1) Some] assms(2) show ?thesis by simp
qed

lemma key_step_inv:
  assumes "key_step t t'" and ok: "tokens_ok t" and "file_ok t" and "env_ok env t"
  shows "tokens_ok t' \<and> file_ok t' \<and> env_ok env t'"
  using assms(1)
proof cases
  case (key_issue token i order c org)
  let ?t = "t\<lparr>at_by_token := (at_by_token t)(token \<mapsto>
      \<lparr>te_org = org, te_role = default_for_legacy, te_source = Runtime i c\<rparr>), at_id_to_token := (at_id_to_token t)(i \<mapsto> token)\<rparr>"
  have t': "t' = persist order True ?t" by (simp add: key_issue(1) issue_def)
  have ok': "tokens_ok ?t" using tokens_ok_issue [OF ok key_issue(2,3), of order True c org] by (simp add: issue_def)
  have "dom (at_by_token ?t) \<subseteq> set order" using key_issue(6) by (simp add: issue_def)
  with file_ok_persist [OF ok', of order] assms(3) have "file_ok t'" unfolding t' by (simp add: file_ok_def)
  moreover have "env_ok env t'" unfolding t' 
    by (rule env_ok_upd [OF assms(4) env_none [OF assms(4)]]) (use key_issue(2,4,5) in auto)
  ultimately show ?thesis using ok' by (simp add: t')
next
  case (key_revoke order i org)
  show ?thesis
  proof (rule revoke_cases [OF ok, of i org order True])
    fix tok e c
    let ?t = "t\<lparr>at_by_token := (at_by_token t)(tok := None), at_id_to_token := (at_id_to_token t)(i := None)\<rparr>"
    assume e: "at_by_token t tok = Some e" "te_source e = Runtime i c"
      and r: "revoke order True t i org = (persist order True ?t, True)"
    have t': "t' = persist order True ?t" by (simp add: key_revoke(1) r)
    have ok': "tokens_ok ?t" using tokens_ok_revoke [OF ok, of order True i org] by (simp add: r)
    have "dom (at_by_token ?t) \<subseteq> set order" using key_revoke(2) by (simp add: r)
    with file_ok_persist [OF ok', of order] assms(3) have "file_ok t'" unfolding t' by (simp add: file_ok_def)
    moreover have "env_ok env t'" unfolding t' 
      by (rule env_ok_upd [OF assms(4) env_none [OF assms(4)]]) (use e in auto)
    ultimately show ?thesis using ok' by (simp add: t')
  qed (use assms key_revoke(1) in simp)
qed

text \<open>Replaying a file in which no token occurs twice.\<close>

definition persisted_entry :: "persisted_token \<Rightarrow> token_entry" where
  "persisted_entry p = \<lparr>te_org = pt_org p, te_role = Admin, te_source = Runtime (pt_id p) (pt_created_at p)\<rparr>"

lemma load_persisted_snoc:
  "load_persisted (ps @ [p]) t =
     (let t' = load_persisted ps t in
      if pt_token p = [] \<or> pt_id p = [] then t'
      else t'\<lparr>at_by_token := (at_by_token t')(pt_token p \<mapsto> persisted_entry p),
              at_id_to_token := (at_id_to_token t')(pt_id p \<mapsto> pt_token p)\<rparr>)"
  by (simp add: load_persisted_def persisted_entry_def default_for_legacy_def Let_def)

lemma find_member: "find P (rev xs) = Some x \<Longrightarrow> x \<in> set xs \<and> P x"
  by (auto simp: find_Some_iff) (metis nth_mem length_rev set_rev)

lemma load_persisted_lookup:
  assumes "list_all (\<lambda>p. pt_token p \<noteq> [] \<and> pt_id p \<noteq> []) ps"
  shows "at_by_token (load_persisted ps t) tok =
      (case find (\<lambda>p. pt_token p = tok) (rev ps) of None \<Rightarrow> at_by_token t tok | Some p \<Rightarrow> Some (persisted_entry p))"
    and "at_id_to_token (load_persisted ps t) i =
      (case find (\<lambda>p. pt_id p = i) (rev ps) of None \<Rightarrow> at_id_to_token t i | Some p \<Rightarrow> Some (pt_token p))"
  using assms
  by (induction ps rule: rev_induct) (auto simp: load_persisted_snoc Let_def load_persisted_def [of "[]"])

lemma from_csv_env: "at_by_token (ApiTokens_from_csv s) tok = Some e \<Longrightarrow> te_source e = Env"
proof -
  have "\<forall>tok e. at_by_token (ApiTokens_from_csv s) tok = Some e \<longrightarrow> te_source e = Env"
    unfolding ApiTokens_from_csv_def api_tokens.select_convs
    by (rule fold_invariant [where Q = "\<lambda>_. True" and P = "\<lambda>m. \<forall>tok e. m tok = Some e \<longrightarrow> te_source e = Env"]) (auto simp: Let_def split: prod.splits if_splits)
  then show "at_by_token (ApiTokens_from_csv s) tok = Some e \<Longrightarrow> te_source e = Env" by blast
qed

lemma from_csv_ids [simp]: "at_id_to_token (ApiTokens_from_csv s) = Map.empty"
  by (simp add: ApiTokens_from_csv_def)

lemma start_inv:
  fixes s :: string
  defines "t \<equiv> with_persistence [] (ApiTokens_from_csv s)"
  shows "tokens_ok t" and "file_ok t" and "env_ok (at_by_token (ApiTokens_from_csv s)) t"
proof -
  have by_token: "at_by_token t = at_by_token (ApiTokens_from_csv s)" and ids: "at_id_to_token t = Map.empty"
    and listed: "at_persist t" "at_file t = []"
    by (simp_all add: t_def with_persistence_def load_persisted_def)
  have env: "te_source e = Env" if "at_by_token t tok = Some e" for tok e
    using from_csv_env that unfolding by_token by blast
  show "tokens_ok t" by (rule tokens_okI) (use env ids in \<open>fastforce+\<close>)
  show "file_ok t" using env listed unfolding file_ok_def by fastforce
  show "env_ok (at_by_token (ApiTokens_from_csv s)) t"
    by (rule env_okI) (use env by_token in \<open>fastforce+\<close>)
qed

text \<open>
  C7: Runtime keys survive a restart. Start from the env tokens with an empty file and issue and
  revoke keys in any order, each issued token and id being fresh and each file write succeeding; then
  a new process that reads the same env tokens and replays the file resolves every bearer token to
  the same org and role, and can revoke the same keys.
\<close>
theorem keys_survive_restart:
  assumes "key_step\<^sup>*\<^sup>* (with_persistence [] (ApiTokens_from_csv s)) t"
  shows "token_resolve (with_persistence (at_file t) (ApiTokens_from_csv s)) = token_resolve t \<and>
    at_id_to_token (with_persistence (at_file t) (ApiTokens_from_csv s)) = at_id_to_token t"
proof -
  let ?env = "at_by_token (ApiTokens_from_csv s)" and ?r = "with_persistence (at_file t) (ApiTokens_from_csv s)"
  have inv: "tokens_ok t \<and> file_ok t \<and> env_ok ?env t"
    using assms by (induction rule: rtranclp_induct) (use start_inv key_step_inv in blast)+
  then have ok: "tokens_ok t" and env: "env_ok ?env t"
    and listed: "\<And>p. p \<in> set (at_file t) \<longleftrightarrow> at_by_token t (pt_token p) = Some (persisted_entry p)"
    by (simp_all add: file_ok_def persisted_entry_def)
  have full: "list_all (\<lambda>p. pt_token p \<noteq> [] \<and> pt_id p \<noteq> []) (at_file t)"
    unfolding list_all_iff
  proof
    fix p
    assume "p \<in> set (at_file t)"
    then have "at_by_token t (pt_token p) = Some (persisted_entry p)" unfolding listed .
    from env_okD(3) [OF env this] show "pt_token p \<noteq> [] \<and> pt_id p \<noteq> []" by (simp add: persisted_entry_def)
  qed
  have "at_by_token ?r tok = at_by_token t tok" for tok
  proof (cases "find (\<lambda>p. pt_token p = tok) (rev (at_file t))")
    case None
    then have none: "\<And>p. p \<in> set (at_file t) \<Longrightarrow> pt_token p \<noteq> tok" by (auto simp: find_None_iff)
    have "te_source e = Env" if "at_by_token t tok = Some e" for e
    proof (cases "te_source e")
      case (Runtime i c)
      with that tokens_ok_tok [OF ok that] none [of "\<lparr>pt_token = tok, pt_id = i, pt_org = te_org e, pt_created_at = c\<rparr>"]
      show ?thesis unfolding listed by (simp add: persisted_entry_def)
    qed
    then have "at_by_token t tok = ?env tok" by (rule env_lookup [OF env])
    with None full show ?thesis by (simp add: with_persistence_def load_persisted_lookup)
  next
    case (Some p)
    then have "p \<in> set (at_file t)" "pt_token p = tok" by (auto dest: find_member)
    with Some full show ?thesis unfolding listed by (simp add: with_persistence_def load_persisted_lookup)
  qed
  moreover have "at_id_to_token ?r i = at_id_to_token t i" for i
  proof (cases "find (\<lambda>p. pt_id p = i) (rev (at_file t))")
    case None
    then have none: "\<And>p. p \<in> set (at_file t) \<Longrightarrow> pt_id p \<noteq> i" by (auto simp: find_None_iff)
    have "at_id_to_token t i = None"
    proof (rule ccontr)
      assume "at_id_to_token t i \<noteq> None"
      then obtain tok where "at_id_to_token t i = Some tok" by blast
      from tokens_ok_id [OF ok this] obtain e c where e: "at_by_token t tok = Some e" "te_source e = Runtime i c" by blast
      from e tokens_ok_tok [OF ok e] none [of "\<lparr>pt_token = tok, pt_id = i, pt_org = te_org e, pt_created_at = c\<rparr>"]
      show False unfolding listed by (simp add: persisted_entry_def)
    qed
    with None full show ?thesis by (simp add: with_persistence_def load_persisted_lookup)
  next
    case (Some p)
    then have "p \<in> set (at_file t)" "pt_id p = i" by (auto dest: find_member)
    then have "at_by_token t (pt_token p) = Some (persisted_entry p)" unfolding listed by blast
    with \<open>pt_id p = i\<close> have "at_id_to_token t i = Some (pt_token p)"
      using tokens_ok_tok [OF ok, of "pt_token p" "persisted_entry p"] by (simp add: persisted_entry_def)
    with Some full show ?thesis by (simp add: with_persistence_def load_persisted_lookup)
  qed
  ultimately show ?thesis by (simp add: token_resolve_def fun_eq_iff)
qed

definition sample_tokens :: api_tokens where
  "sample_tokens = fst (issue [''k1'', ''nv_x''] True ''nv_x'' ''nvk_y'' ''now''
     (with_persistence [] (ApiTokens_from_csv ''k1'')) ''acme'')"

lemma sample_env_tokens: "at_by_token (ApiTokens_from_csv ''k1'') = [''k1'' \<mapsto> \<lparr>te_org = default_org, te_role = Admin, te_source = Env\<rparr>]"
  by (simp add: ApiTokens_from_csv_def trim_def is_ws_def parse_env_entry_def split_role_suffix_def rsplit_once_def
      default_for_legacy_def)

theorem keys_survive_restart_witness:
  "token_resolve (with_persistence (at_file sample_tokens) (ApiTokens_from_csv ''k1'')) ''nv_x'' = Some (''acme'', Admin) \<and>
   token_resolve (with_persistence (at_file sample_tokens) (ApiTokens_from_csv ''k1'')) ''k1'' = Some (default_org, Admin)"
proof -
  let ?t = "with_persistence [] (ApiTokens_from_csv ''k1'')"
  have t: "at_by_token ?t = [''k1'' \<mapsto> \<lparr>te_org = default_org, te_role = Admin, te_source = Env\<rparr>]"
    "at_id_to_token ?t = Map.empty"
    by (simp_all add: with_persistence_def load_persisted_def sample_env_tokens)
  have "key_step ?t sample_tokens" unfolding sample_tokens_def
    by (rule key_issue) (simp_all add: t issue_def)
  from keys_survive_restart [OF r_into_rtranclp [of key_step, OF this]]
  show ?thesis by (simp add: sample_tokens_def issue_def token_resolve_def t default_for_legacy_def)
qed

text \<open>
  Revocation is exact and stays inside the org. It succeeds exactly when the id is that of a
  runtime key of the caller's org; then that key alone stops resolving. Otherwise nothing changes:
  keys of other orgs and env tokens cannot be revoked. Issuing makes exactly the new token resolve, to
  the caller's org with the Admin role.
\<close>
theorem key_changes_exact:
  assumes "tokens_ok t" and "at_by_token t token = None" and "at_id_to_token t j = None"
  shows "token_resolve (fst (issue order w token j c t org)) = (token_resolve t)(token \<mapsto> (org, Admin)) \<and>
    tokens_ok (fst (issue order w token j c t org)) \<and> tokens_ok (fst (revoke order w t i org)) \<and>
    (if \<exists>tok e c. at_by_token t tok = Some e \<and> te_source e = Runtime i c \<and> te_org e = org
     then snd (revoke order w t i org) \<and>
       (\<exists>tok e c. at_by_token t tok = Some e \<and> te_source e = Runtime i c \<and> te_org e = org \<and>
          token_resolve (fst (revoke order w t i org)) = (token_resolve t)(tok := None))
     else revoke order w t i org = (t, False))"
proof (intro conjI)
  show "token_resolve (fst (issue order w token j c t org)) = (token_resolve t)(token \<mapsto> (org, Admin))"
    by (auto simp: issue_def token_resolve_def default_for_legacy_def)
  show "tokens_ok (fst (issue order w token j c t org))" by (rule tokens_ok_issue [OF assms])
  show "tokens_ok (fst (revoke order w t i org))" by (rule tokens_ok_revoke [OF assms(1)])
  show "if \<exists>tok e c. at_by_token t tok = Some e \<and> te_source e = Runtime i c \<and> te_org e = org
     then snd (revoke order w t i org) \<and>
       (\<exists>tok e c. at_by_token t tok = Some e \<and> te_source e = Runtime i c \<and> te_org e = org \<and>
          token_resolve (fst (revoke order w t i org)) = (token_resolve t)(tok := None))
     else revoke order w t i org = (t, False)"
  proof (rule revoke_cases [OF assms(1), of i org order w], goal_cases)
    case (1 tok e c)
    then have "token_resolve (fst (revoke order w t i org)) = (token_resolve t)(tok := None)"
      by (auto simp: token_resolve_def)
    with 1 show ?thesis by auto
  next
    case 2
    then show ?thesis by simp
  qed
qed

theorem key_changes_exact_witness:
  "revoke [] True sample_tokens ''nvk_y'' ''other'' = (sample_tokens, False)"
proof -
  have b: "at_by_token sample_tokens = [''k1'' \<mapsto> \<lparr>te_org = default_org, te_role = Admin, te_source = Env\<rparr>,
      ''nv_x'' \<mapsto> \<lparr>te_org = ''acme'', te_role = Admin, te_source = Runtime ''nvk_y'' ''now''\<rparr>]"
    "at_id_to_token sample_tokens = [''nvk_y'' \<mapsto> ''nv_x'']"
    by (simp_all add: sample_tokens_def issue_def with_persistence_def load_persisted_def sample_env_tokens default_for_legacy_def)
  have ok: "tokens_ok sample_tokens" by (rule tokens_okI) (auto simp: b split: if_splits)
  have "at_by_token sample_tokens ''new'' = None" "at_id_to_token sample_tokens ''id'' = None" by (simp_all add: b)
  from key_changes_exact [OF ok this, where order = "[]" and w = True and i = "''nvk_y''" and org = "''other''" and c = "[]"]
  show ?thesis by (simp add: b split: if_splits)
qed

text \<open>Revoking the only token of the store disables authentication: an empty store lets everyone in as Admin.\<close>

lemma revoke_last_disables_auth:
  assumes "at_by_token t = [tok \<mapsto> e]" and "te_source e = Runtime i c" and "at_id_to_token t i = Some tok"
  shows "require_token (Some (fst (revoke order w t i (te_org e)))) None = Ok (default_org, Admin)"
  using assms by (simp add: revoke_def require_token_def ApiTokens_is_empty_def default_for_legacy_def)

end
