(* ===== verification/Ownership.thy ===== *)
theory Ownership
  imports Auth
begin

text \<open>
  Ownership of VMs and snapshots: \<^verbatim>\<open>crates/control-plane/src/ownership.rs\<close>. The store trait is the
  locale \<open>owner_store\<close>, with the laws its documentation promises; the in-memory store provides it
  twice, for VMs and for snapshots. The facade answers for unrecorded resources with the default org.
  The SQLite store is a database behind the same trait and is not modelled.
\<close>

record in_memory_store =
  os_vms :: "vm_id \<rightharpoonup> org_id"
  os_snapshots :: "snapshot_id \<rightharpoonup> org_id"

definition InMemoryStore_default :: in_memory_store where
  "InMemoryStore_default = \<lparr>os_vms = Map.empty, os_snapshots = Map.empty\<rparr>"

definition record_vm :: "in_memory_store \<Rightarrow> vm_id \<Rightarrow> org_id \<Rightarrow> in_memory_store" where
  "record_vm s vm org = s\<lparr>os_vms := (os_vms s)(vm \<mapsto> org)\<rparr>"

definition record_snapshot :: "in_memory_store \<Rightarrow> snapshot_id \<Rightarrow> org_id \<Rightarrow> in_memory_store" where
  "record_snapshot s snap org = s\<lparr>os_snapshots := (os_snapshots s)(snap \<mapsto> org)\<rparr>"

definition forget_vm :: "in_memory_store \<Rightarrow> vm_id \<Rightarrow> in_memory_store" where
  "forget_vm s vm = s\<lparr>os_vms := (os_vms s)(vm := None)\<rparr>"

definition forget_snapshot :: "in_memory_store \<Rightarrow> snapshot_id \<Rightarrow> in_memory_store" where
  "forget_snapshot s snap = s\<lparr>os_snapshots := (os_snapshots s)(snap := None)\<rparr>"

definition store_vm_owner :: "in_memory_store \<Rightarrow> vm_id \<Rightarrow> org_id option" where
  "store_vm_owner s vm = os_vms s vm"

definition store_snapshot_owner :: "in_memory_store \<Rightarrow> snapshot_id \<Rightarrow> org_id option" where
  "store_snapshot_owner s snap = os_snapshots s snap"

definition vms_owned_by :: "in_memory_store \<Rightarrow> org_id \<Rightarrow> vm_id set" where
  "vms_owned_by s org = {vm. os_vms s vm = Some org}"

definition snapshots_owned_by :: "in_memory_store \<Rightarrow> org_id \<Rightarrow> snapshot_id set" where
  "snapshots_owned_by s org = {snap. os_snapshots s snap = Some org}"

text \<open>The facade.\<close>

definition vm_owner :: "in_memory_store \<Rightarrow> vm_id \<Rightarrow> org_id" where
  "vm_owner s vm = (case store_vm_owner s vm of None \<Rightarrow> default_org | Some org \<Rightarrow> org)"

definition snapshot_owner :: "in_memory_store \<Rightarrow> snapshot_id \<Rightarrow> org_id" where
  "snapshot_owner s snap = (case store_snapshot_owner s snap of None \<Rightarrow> default_org | Some org \<Rightarrow> org)"

definition require_vm_access ::
    "in_memory_store \<Rightarrow> vm_id \<Rightarrow> org_id \<Rightarrow> (('j, 'io, 'r) api_error, unit) result" where
  "require_vm_access s vm caller =
     (if vm_owner s vm = caller then Ok () else Err (Forbidden (CrossOrgVm vm)))"

definition require_snapshot_access ::
    "in_memory_store \<Rightarrow> snapshot_id \<Rightarrow> org_id \<Rightarrow> (('j, 'io, 'r) api_error, unit) result" where
  "require_snapshot_access s snap caller =
     (if snapshot_owner s snap = caller then Ok () else Err (Forbidden (CrossOrgSnapshot snap)))"

subsection \<open>The contract of a store\<close>

locale owner_store =
  fixes rec :: "'s \<Rightarrow> 'k \<Rightarrow> org_id \<Rightarrow> 's"
    and forget :: "'s \<Rightarrow> 'k \<Rightarrow> 's"
    and owner :: "'s \<Rightarrow> 'k \<Rightarrow> org_id option"
  assumes owner_rec: "owner (rec s k org) k' = (if k' = k then Some org else owner s k')"
    and owner_forget: "owner (forget s k) k' = (if k' = k then None else owner s k')"
begin

text \<open>Recording or forgetting one resource never changes who owns another.\<close>

lemma owner_other [simp]: "k' \<noteq> k \<Longrightarrow> owner (rec s k org) k' = owner s k'" "k' \<noteq> k \<Longrightarrow> owner (forget s k) k' = owner s k'"
  by (simp_all add: owner_rec owner_forget)

lemma owner_same [simp]: "owner (rec s k org) k = Some org" "owner (forget s k) k = None"
  by (simp_all add: owner_rec owner_forget)

lemma forget_rec: "owner (forget (rec s k org) k) = (owner s)(k := None)"
  by (auto simp: owner_rec owner_forget)

end

interpretation vm_owners: owner_store record_vm forget_vm store_vm_owner
  by unfold_locales (simp_all add: record_vm_def forget_vm_def store_vm_owner_def)

interpretation snapshot_owners: owner_store record_snapshot forget_snapshot store_snapshot_owner
  by unfold_locales (simp_all add: record_snapshot_def forget_snapshot_def store_snapshot_owner_def)

lemma store_kinds_apart [simp]:
  "store_snapshot_owner (record_vm s vm org) = store_snapshot_owner s"
  "store_snapshot_owner (forget_vm s vm) = store_snapshot_owner s"
  "store_vm_owner (record_snapshot s snap org) = store_vm_owner s"
  "store_vm_owner (forget_snapshot s snap) = store_vm_owner s"
  by (auto simp: store_snapshot_owner_def store_vm_owner_def record_vm_def forget_vm_def record_snapshot_def
      forget_snapshot_def)

lemma access_recorded:
  "store_vm_owner s vm = Some org \<Longrightarrow> require_vm_access s vm caller = Ok () \<longleftrightarrow> caller = org"
  "store_snapshot_owner s snap = Some org \<Longrightarrow> require_snapshot_access s snap caller = Ok () \<longleftrightarrow> caller = org"
  by (auto simp: require_vm_access_def require_snapshot_access_def vm_owner_def snapshot_owner_def)

end
