(* ===== verification/Fork_Quota.thy ===== *)
theory Fork_Quota
  imports Complex_Main Nano_Prelude
begin

text \<open>
  The fork rate limiter: \<^verbatim>\<open>crates/control-plane/src/fork_quota.rs\<close>. A bucket refills at \<open>rps\<close> tokens
  per second up to \<open>burst\<close> and a fork takes one. The floating-point numbers of the code are real
  numbers here (rates are finite), the monotonic clock counts nanoseconds, and each call of
  \<^verbatim>\<open>Instant::now\<close> is an argument. It is proved that no interval admits more forks than
  the burst plus the rate times its length, and that the advertised retry time suffices.
\<close>

record bucket =
  bk_tokens :: real
  bk_last_refill :: nat

definition Bucket_new :: "nat \<Rightarrow> real \<Rightarrow> bucket" where
  "Bucket_new now burst = \<lparr>bk_tokens = burst, bk_last_refill = now\<rparr>"

record fork_quota =
  fq_rps :: real
  fq_burst :: real
  fq_buckets :: "string \<rightharpoonup> bucket"
  fq_org_buckets :: "string \<rightharpoonup> bucket"

definition DEFAULT_FORK_RPS :: real where "DEFAULT_FORK_RPS = 10"

definition ForkQuota_new :: "real \<Rightarrow> u32 \<Rightarrow> fork_quota" where
  "ForkQuota_new rps burst =
     \<lparr>fq_rps = rps, fq_burst = real (unat burst), fq_buckets = Map.empty, fq_org_buckets = Map.empty\<rparr>"

text \<open>The environment variables as parsed, if they are set and parse.\<close>

definition ForkQuota_from_env :: "real option \<Rightarrow> u32 option \<Rightarrow> fork_quota" where
  "ForkQuota_from_env rps_var burst_var =
     (let rps = (case rps_var of Some v \<Rightarrow> if v \<ge> 0 then v else DEFAULT_FORK_RPS | None \<Rightarrow> DEFAULT_FORK_RPS);
          burst = (case burst_var of Some b \<Rightarrow> b
                   | None \<Rightarrow> of_int (min (max \<lceil>rps\<rceil> 1) (2 ^ 32 - 1)))
      in ForkQuota_new rps burst)"

definition is_disabled :: "fork_quota \<Rightarrow> bool" where
  "is_disabled q \<longleftrightarrow> fq_rps q \<le> 0"

text \<open>\<open>created\<close> is the clock when a missing bucket is made, \<open>now\<close> the clock read after it.\<close>

definition take_one ::
    "nat \<Rightarrow> nat \<Rightarrow> (string \<rightharpoonup> bucket) \<Rightarrow> string \<Rightarrow> real \<Rightarrow> real \<Rightarrow> (string \<rightharpoonup> bucket) \<times> (u64, unit) result" where
  "take_one created now buckets key rps burst =
     (let b = (case buckets key of None \<Rightarrow> Bucket_new created burst | Some b \<Rightarrow> b);
          elapsed = real (now - bk_last_refill b) / 10 ^ 9;
          tokens = min (bk_tokens b + elapsed * rps) burst
      in if tokens \<ge> 1
         then (buckets(key \<mapsto> \<lparr>bk_tokens = tokens - 1, bk_last_refill = now\<rparr>), Ok ())
         else (let deficit = 1 - tokens;
                   secs = of_int (min (max \<lceil>deficit / rps\<rceil> 1) (2 ^ 64 - 1))
               in (buckets(key \<mapsto> \<lparr>bk_tokens = tokens, bk_last_refill = now\<rparr>), Err secs)))"

definition try_acquire :: "nat \<Rightarrow> nat \<Rightarrow> fork_quota \<Rightarrow> string option \<Rightarrow> fork_quota \<times> (u64, unit) result" where
  "try_acquire created now q bearer =
     (if is_disabled q then (q, Ok ())
      else case bearer of
        None \<Rightarrow> (q, Ok ())
      | Some token \<Rightarrow>
          let (m, r) = take_one created now (fq_buckets q) token (fq_rps q) (fq_burst q)
          in (q\<lparr>fq_buckets := m\<rparr>, r))"

definition try_acquire_org ::
    "nat \<Rightarrow> nat \<Rightarrow> fork_quota \<Rightarrow> string \<Rightarrow> real option \<Rightarrow> u32 option \<Rightarrow> fork_quota \<times> (u64, unit) result" where
  "try_acquire_org created now q org rps_override burst_override =
     (if is_disabled q then (q, Ok ())
      else
        let rps = (case rps_override of Some v \<Rightarrow> if v > 0 then v else fq_rps q | None \<Rightarrow> fq_rps q);
            burst = (case burst_override of Some b \<Rightarrow> if b > 0 then real (unat b) else fq_burst q | None \<Rightarrow> fq_burst q);
            (m, r) = take_one created now (fq_org_buckets q) org rps burst
        in (q\<lparr>fq_org_buckets := m\<rparr>, r))"

subsection \<open>Rate bound\<close>

text \<open>A sequence of requests, each with its key and the clock.\<close>

fun take_all :: "real \<Rightarrow> real \<Rightarrow> (string \<times> nat) list \<Rightarrow> (string \<rightharpoonup> bucket) \<Rightarrow> (string \<rightharpoonup> bucket) \<times> string list" where
  "take_all rps burst [] m = (m, [])"
| "take_all rps burst ((key, now) # es) m =
     (let (m, r) = take_one now now m key rps burst; (m, ks) = take_all rps burst es m
      in (m, if is_ok r then key # ks else ks))"

definition granted :: "string \<Rightarrow> string list \<Rightarrow> nat" where
  "granted key ks = length (filter (\<lambda>k. k = key) ks)"

definition buckets_ok :: "(string \<rightharpoonup> bucket) \<Rightarrow> bool" where
  "buckets_ok m \<longleftrightarrow> (\<forall>k b. m k = Some b \<longrightarrow> 0 \<le> bk_tokens b)"

lemma take_one_frame: "k \<noteq> key \<Longrightarrow> fst (take_one c now m key rps burst) k = m k"
  by (simp add: take_one_def Let_def)

text \<open>One request: what is left plus what is taken is at most what was there plus the refill.\<close>

lemma take_one_step:
  assumes "0 \<le> burst" "0 \<le> rps" and "buckets_ok m"
  shows "\<exists>b. fst (take_one c now m key rps burst) key = Some b \<and> bk_last_refill b = now \<and> 0 \<le> bk_tokens b \<and>
    bk_tokens b + (if is_ok (snd (take_one c now m key rps burst)) then 1 else 0) \<le> burst \<and>
    (\<forall>b0. m key = Some b0 \<longrightarrow>
       bk_tokens b + (if is_ok (snd (take_one c now m key rps burst)) then 1 else 0) \<le>
         bk_tokens b0 + rps * real (now - bk_last_refill b0) / 10 ^ 9)"
proof -
  define b0 where "b0 = (case m key of None \<Rightarrow> Bucket_new c burst | Some b \<Rightarrow> b)"
  define x where "x = min (bk_tokens b0 + real (now - bk_last_refill b0) / 10 ^ 9 * rps) burst"
  have "0 \<le> bk_tokens b0"
    using assms by (auto simp: b0_def buckets_ok_def Bucket_new_def split: option.splits)
  then have "0 \<le> x" using assms(1,2) by (simp add: x_def)
  have x0: "x \<le> bk_tokens b0 + rps * real (now - bk_last_refill b0) / 10 ^ 9"
    by (simp add: x_def mult.commute min_le_iff_disj)
  have t: "take_one c now m key rps burst =
      (if x \<ge> 1 then (m(key \<mapsto> \<lparr>bk_tokens = x - 1, bk_last_refill = now\<rparr>), Ok ())
       else (m(key \<mapsto> \<lparr>bk_tokens = x, bk_last_refill = now\<rparr>),
         Err (of_int (min (max \<lceil>(1 - x) / rps\<rceil> 1) (2 ^ 64 - 1)))))"
    by (simp add: take_one_def Let_def b0_def x_def)
  show ?thesis using \<open>0 \<le> x\<close> x0 unfolding t by (auto simp: b0_def x_def)
qed

lemma buckets_ok_take_one:
  assumes "0 \<le> burst" "0 \<le> rps" and "buckets_ok m"
  shows "buckets_ok (fst (take_one c now m key rps burst))"
  unfolding buckets_ok_def
proof (intro allI impI)
  fix k b
  assume b: "fst (take_one c now m key rps burst) k = Some b"
  show "0 \<le> bk_tokens b"
  proof (cases "k = key")
    case True
    with take_one_step [OF assms, of c now key] b show ?thesis by auto
  next
    case False
    with b assms(3) show ?thesis by (auto simp: take_one_frame buckets_ok_def)
  qed
qed

text \<open>Once a bucket exists, its grants are paid by its tokens and the refill since.\<close>

lemma take_all_bound:
  assumes "0 \<le> burst" "0 \<le> rps" and "buckets_ok m" and "sorted (bk_last_refill b # map snd es)" and "m key = Some b"
  shows "real (granted key (snd (take_all rps burst es m))) \<le>
    bk_tokens b + rps * real (last (bk_last_refill b # map snd es) - bk_last_refill b) / 10 ^ 9"
  using assms(3-)
proof (induction es arbitrary: m b)
  case Nil
  then show ?case by (auto simp: granted_def buckets_ok_def)
next
  case (Cons e es)
  obtain k now where e: "e = (k, now)" by (cases e)
  let ?m = "fst (take_one now now m k rps burst)" and ?r = "snd (take_one now now m k rps burst)"
  have ok: "buckets_ok ?m" by (rule buckets_ok_take_one [OF assms(1,2) Cons.prems(1)])
  have now: "bk_last_refill b \<le> now" and es: "sorted (now # map snd es)" using Cons.prems(2) by (auto simp: e)
  have last: "now \<le> last (now # map snd es)"
    using es by (metis last_in_set list.distinct(1) set_ConsD sorted_simps(2) order_refl)
  have g: "real (granted key (snd (take_all rps burst (e # es) m))) =
      (if is_ok ?r \<and> k = key then 1 else 0) + real (granted key (snd (take_all rps burst es ?m)))"
    by (auto simp: e granted_def Let_def split: prod.splits)
  show ?case
  proof (cases "k = key")
    case True
    from take_one_step [OF assms(1,2) Cons.prems(1), of now now key] Cons.prems(3) True
    obtain b' where b': "?m key = Some b'" "bk_last_refill b' = now"
      and pay: "bk_tokens b' + (if is_ok ?r then 1 else 0) \<le> bk_tokens b + rps * real (now - bk_last_refill b) / 10 ^ 9"
      by blast
    have ih: "real (granted key (snd (take_all rps burst es ?m))) \<le>
        bk_tokens b' + rps * real (last (now # map snd es) - now) / 10 ^ 9"
      using Cons.IH [OF ok, of b'] es b' by simp
    have "rps * real (now - bk_last_refill b) / 10 ^ 9 + rps * real (last (now # map snd es) - now) / 10 ^ 9 =
        rps * real (last (now # map snd es) - bk_last_refill b) / 10 ^ 9"
      using now last by (simp add: of_nat_diff field_simps)
    with g pay ih True show ?thesis by (simp add: e)
  next
    case False
    have s: "sorted (bk_last_refill b # map snd es)" using now es by auto
    have "real (granted key (snd (take_all rps burst es ?m))) \<le>
        bk_tokens b + rps * real (last (bk_last_refill b # map snd es) - bk_last_refill b) / 10 ^ 9"
      using Cons.IH [OF ok s] Cons.prems(3) False by (simp add: take_one_frame)
    moreover have "last (bk_last_refill b # map snd es) \<le> last (now # map snd es)" using now by simp
    ultimately show ?thesis using g False assms(2)
      by (smt (verit) e divide_right_mono last_ConsR list.simps(9) mult_left_mono of_nat_mono diff_le_mono snd_conv zero_le_power list.distinct(1))
  qed
qed

text \<open>
  C8: Whatever the order of requests and keys, the forks granted to one key between the first and the
  last request number at most the burst plus the rate times the time between them, from any state of
  the buckets: no interval admits more.
\<close>
theorem quota_rate_bound:
  assumes "0 \<le> burst" "0 \<le> rps" and "buckets_ok m" and "es \<noteq> []" and "sorted (map snd es)"
  shows "real (granted key (snd (take_all rps burst es m))) \<le>
    burst + rps * real (snd (last es) - snd (hd es)) / 10 ^ 9"
  using assms(3-)
proof (induction es arbitrary: m)
  case (Cons e es)
  obtain k now where e: "e = (k, now)" by (cases e)
  let ?m = "fst (take_one now now m k rps burst)" and ?r = "snd (take_one now now m k rps burst)"
  have ok: "buckets_ok ?m" by (rule buckets_ok_take_one [OF assms(1,2) Cons.prems(1)])
  have g: "real (granted key (snd (take_all rps burst (e # es) m))) =
      (if is_ok ?r \<and> k = key then 1 else 0) + real (granted key (snd (take_all rps burst es ?m)))"
    by (auto simp: e granted_def Let_def split: prod.splits)
  have last: "last (now # map snd es) = snd (last (e # es))" by (simp add: e last_map)
  show ?case
  proof (cases "k = key")
    case True
    from take_one_step [OF assms(1,2) Cons.prems(1), of now now key] True
    obtain b where b: "?m key = Some b" "bk_last_refill b = now" "bk_tokens b + (if is_ok ?r then 1 else 0) \<le> burst"
      by blast
    have "sorted (bk_last_refill b # map snd es)" using Cons.prems(3) b(2) by (simp add: e)
    from take_all_bound [OF assms(1,2) ok this b(1)] g True b last show ?thesis by (simp add: e)
  next
    case False
    show ?thesis
    proof (cases "es = []")
      case True
      with g False assms(1) show ?thesis by (simp add: granted_def)
    next
      case es: False
      have "now \<le> snd (hd es)" using Cons.prems(3) es by (cases es) (auto simp: e)
      then have "rps * real (snd (last es) - snd (hd es)) / 10 ^ 9 \<le> rps * real (snd (last es) - now) / 10 ^ 9"
        using assms(2) by (intro divide_right_mono mult_left_mono of_nat_mono diff_le_mono2) simp_all
      with Cons.IH [OF ok es] Cons.prems(3) g False es show ?thesis by (simp add: e)
    qed
  qed
qed simp

theorem quota_rate_bound_witness:
  "real (granted ''k'' (snd (take_all 1 2 [(''k'', 0), (''k'', 0), (''k'', 0), (''k'', 10 ^ 9)] Map.empty))) \<le> 3"
  using quota_rate_bound [of 2 1 Map.empty "[(''k'', 0), (''k'', 0), (''k'', 0), (''k'', 10 ^ 9)]" "''k''"]
  by (simp add: buckets_ok_def)

text \<open>
  The retry time of a refusal suffices. When the burst is at least one and a token takes less than
  2^64 seconds, a request of the same key that comes the advertised number of seconds later, with no
  request of it in between, is granted.
\<close>
theorem quota_retry_suffices:
  assumes "1 \<le> burst" "0 < rps" "1 / rps \<le> 2 ^ 64 - 1" and "buckets_ok m"
    and "take_one c now m key rps burst = (m', Err secs)"
    and "m2 key = m' key" and "now + unat secs * 10 ^ 9 \<le> later"
  shows "snd (take_one c2 later m2 key rps burst) = Ok ()"
proof -
  define b0 where "b0 = (case m key of None \<Rightarrow> Bucket_new c burst | Some b \<Rightarrow> b)"
  define x where "x = min (bk_tokens b0 + real (now - bk_last_refill b0) / 10 ^ 9 * rps) burst"
  have "0 \<le> bk_tokens b0"
    using assms(1,4) by (auto simp: b0_def buckets_ok_def Bucket_new_def split: option.splits)
  then have x: "0 \<le> x" "x \<le> burst" using assms(1,2) by (simp_all add: x_def)
  from assms(5) have refused: "x < 1" and m': "m' key = Some \<lparr>bk_tokens = x, bk_last_refill = now\<rparr>"
    and secs: "secs = of_int (min (max \<lceil>(1 - x) / rps\<rceil> 1) (2 ^ 64 - 1))"
    by (auto simp: take_one_def Let_def b0_def x_def split: if_splits)
  define n where "n = max \<lceil>(1 - x) / rps\<rceil> 1"
  have "(1 - x) / rps \<le> 1 / rps" using x assms(2) by (simp add: divide_right_mono)
  with assms(3) have "\<lceil>(1 - x) / rps\<rceil> \<le> 2 ^ 64 - 1" by (simp add: ceiling_le_iff)
  then have n: "1 \<le> n" "n \<le> 2 ^ 64 - 1" by (simp_all add: n_def)
  have "int (unat secs) = n"
    using n unfolding secs n_def [symmetric] by (simp add: of_nat_unat take_bit_eq_mod min_def unsigned_of_int)
  then have "(1 - x) / rps \<le> real (unat secs)" unfolding n_def
    by (metis ceiling_le_iff max.cobounded1 of_int_of_nat_eq)
  then have "1 - x \<le> real (unat secs) * rps" using assms(2) by (simp add: pos_divide_le_eq)
  also have "real (unat secs) \<le> real (later - now) / 10 ^ 9"
  proof -
    have "real (unat secs) * 10 ^ 9 \<le> real (later - now)"
      using assms(7) by (metis le_diff_conv2 add.commute add_leD1 of_nat_le_iff of_nat_mult of_nat_power of_nat_numeral)
    then show ?thesis by simp
  qed
  then have "real (unat secs) * rps \<le> real (later - now) / 10 ^ 9 * rps" using assms(2) by (simp add: mult_right_mono)
  finally have "1 \<le> min (x + real (later - now) / 10 ^ 9 * rps) burst" using assms(1) by simp
  then show ?thesis by (simp add: take_one_def Let_def assms(6) m')
qed

theorem quota_retry_suffices_witness:
  "snd (take_one 0 (10 ^ 9) (fst (take_one 0 0 [''k'' \<mapsto> \<lparr>bk_tokens = 0, bk_last_refill = 0\<rparr>] ''k'' 1 1)) ''k'' 1 1) = Ok ()"
proof -
  let ?m = "[''k'' \<mapsto> \<lparr>bk_tokens = 0, bk_last_refill = 0\<rparr>]"
  have r: "take_one 0 0 ?m ''k'' 1 1 = (?m, Err 1)" by (auto simp: take_one_def)
  show ?thesis unfolding r fst_conv
    by (rule quota_retry_suffices [OF _ _ _ _ r]) (simp_all add: buckets_ok_def)
qed

text \<open>With a burst of zero, which the environment variable admits, every request is refused.\<close>

lemma zero_burst_refuses: "\<not> is_ok (snd (take_one c now m key rps 0))"
  by (simp add: take_one_def Let_def)

end
