(* ===== verification/Warm_Pool.thy ===== *)
theory Warm_Pool
  imports Vm_Mock
begin

text \<open>
  The pool of pre-restored VMs: \<^verbatim>\<open>crates/control-plane/src/warm_pool.rs\<close>, over the mock hypervisor. A
  refill is a background task with three steps that other threads can run between: the blocking
  restore, the update of the in-flight counter under the lock, and the push under the lock again. The
  tasks are part of the pool's state and any of them may move next. Errors of a refill or of a
  destroy are only logged, so they have no value here.
\<close>

subsection \<open>State and operations\<close>

datatype refill_task =
    Restoring snapshot_id
  | Restored snapshot_id "vm_handle option"
  | Publishing snapshot_id vm_handle

record warm_pool =
  wp_per_snapshot :: nat
  wp_queues :: "snapshot_id \<rightharpoonup> vm_handle list"
  wp_in_flight :: "snapshot_id \<rightharpoonup> nat"
  wp_tasks :: "refill_task list"

definition DEFAULT_WARM_PER_SNAPSHOT :: nat where "DEFAULT_WARM_PER_SNAPSHOT = 0"

definition WarmPool_new :: "nat \<Rightarrow> warm_pool" where
  "WarmPool_new per_snapshot =
     \<lparr>wp_per_snapshot = per_snapshot, wp_queues = Map.empty, wp_in_flight = Map.empty, wp_tasks = []\<rparr>"

definition WarmPool_disabled :: warm_pool where "WarmPool_disabled = WarmPool_new 0"

text \<open>The argument is the environment variable as parsed.\<close>

definition WarmPool_from_env :: "nat option \<Rightarrow> warm_pool" where
  "WarmPool_from_env n = WarmPool_new (case n of None \<Rightarrow> DEFAULT_WARM_PER_SNAPSHOT | Some n \<Rightarrow> n)"

definition pool_is_disabled :: "warm_pool \<Rightarrow> bool" where
  "pool_is_disabled p \<longleftrightarrow> wp_per_snapshot p = 0"

definition depth :: "warm_pool \<Rightarrow> snapshot_id \<Rightarrow> nat" where
  "depth p k = (case wp_queues p k of None \<Rightarrow> 0 | Some q \<Rightarrow> length q)"

definition in_flight :: "warm_pool \<Rightarrow> snapshot_id \<Rightarrow> nat" where
  "in_flight p k = (case wp_in_flight p k of None \<Rightarrow> 0 | Some n \<Rightarrow> n)"

definition kick_refill :: "warm_pool \<Rightarrow> snapshot_id \<Rightarrow> warm_pool" where
  "kick_refill p k =
     (if pool_is_disabled p then p
      else
        let need = wp_per_snapshot p - (depth p k + in_flight p k);
            p = (if need > 0 then p\<lparr>wp_in_flight := (wp_in_flight p)(k \<mapsto> in_flight p k + need)\<rparr> else p)
        in p\<lparr>wp_tasks := wp_tasks p @ replicate need (Restoring k)\<rparr>)"

definition take_warm :: "warm_pool \<Rightarrow> snapshot_id \<Rightarrow> warm_pool \<times> vm_handle option" where
  "take_warm p k =
     (if pool_is_disabled p then (p, None)
      else
        let (p, handle) =
          (case wp_queues p k of
             Some (h # q) \<Rightarrow> (p\<lparr>wp_queues := (wp_queues p)(k \<mapsto> q)\<rparr>, Some h)
           | _ \<Rightarrow> (p, None))
        in (kick_refill p k, handle))"

definition drain ::
    "('io, 'f) fs_ops \<Rightarrow> 'f \<Rightarrow> mock_hv \<Rightarrow> warm_pool \<Rightarrow> snapshot_id \<Rightarrow> 'f \<times> mock_hv \<times> warm_pool" where
  "drain F fs hv p k =
     (let queue = (case wp_queues p k of None \<Rightarrow> [] | Some q \<Rightarrow> q);
          p = p\<lparr>wp_in_flight := (wp_in_flight p)(k := None), wp_queues := (wp_queues p)(k := None)\<rparr>;
          (fs, hv) = fold (\<lambda>h (fs, hv). 
            let (fs, hv, _) = (destroy F fs hv (vm_h_id h) :: _ \<times> _ \<times> ((unit, _) vm_error, unit) result)
            in (fs, hv)) queue (fs, hv)
      in (fs, hv, p))"

text \<open>One step of one refill task: the new state and what becomes of the task.\<close>

definition task_step ::
    "host_env \<Rightarrow> mock_hv \<Rightarrow> warm_pool \<Rightarrow> refill_task \<Rightarrow> mock_hv \<times> warm_pool \<times> refill_task list" where
  "task_step env hv p t =
     (case t of
        Restoring k \<Rightarrow>
          let (hv, r) = (restore env hv k :: _ \<times> ((unit, unit) vm_error, _) result)
          in (hv, p, [Restored k (case r of Inr h \<Rightarrow> Some h | Inl _ \<Rightarrow> None)])
      | Restored k result \<Rightarrow>
          let count = in_flight p k - 1;
              p = p\<lparr>wp_in_flight := (wp_in_flight p)(k := (if count = 0 then None else Some count))\<rparr>
          in (hv, p, (case result of Some h \<Rightarrow> [Publishing k h] | None \<Rightarrow> []))
      | Publishing k h \<Rightarrow>
          (hv, p\<lparr>wp_queues := (wp_queues p)(k \<mapsto> (case wp_queues p k of None \<Rightarrow> [] | Some q \<Rightarrow> q) @ [h])\<rparr>, []))"

definition run_task :: "host_env \<Rightarrow> nat \<Rightarrow> mock_hv \<Rightarrow> warm_pool \<Rightarrow> mock_hv \<times> warm_pool" where
  "run_task env n hv p =
     (if n < length (wp_tasks p)
      then let (hv, p', ts) = task_step env hv p (wp_tasks p ! n)
           in (hv, p'\<lparr>wp_tasks := take n (wp_tasks p) @ ts @ drop (Suc n) (wp_tasks p)\<rparr>)
      else (hv, p))"

subsection \<open>Handing out\<close>

text \<open>
  All that can happen to the pool: takes, task steps, drains, and operations on the hypervisor by
  anyone else. The history records which VM was handed out for which snapshot and which snapshot each
  VM of the pool was restored from. No step starts when the 2^64 ids are used up.
\<close>

record 'f pool_sys =
  ps_fs :: 'f
  ps_hv :: mock_hv
  ps_pool :: warm_pool
  ps_given :: "(snapshot_id \<times> vm_id) list"
  ps_origin :: "vm_id \<rightharpoonup> snapshot_id"

inductive pool_step :: "('io, 'f) fs_ops \<Rightarrow> (bytes \<Rightarrow> ('j, manifest) result) \<Rightarrow> host_env \<Rightarrow> 'f pool_sys \<Rightarrow> 'f pool_sys \<Rightarrow> bool"
  for F J env where
  take_hit: "take_warm (ps_pool s) k = (p, Some h) \<Longrightarrow>
    pool_step F J env s (s\<lparr>ps_pool := p, ps_given := ps_given s @ [(k, vm_h_id h)]\<rparr>)"
| take_miss: "take_warm (ps_pool s) k = (p, None) \<Longrightarrow> pool_step F J env s (s\<lparr>ps_pool := p\<rparr>)"
| run_refill: "0 < id_room (ps_hv s) \<Longrightarrow> n < length (wp_tasks (ps_pool s)) \<Longrightarrow>
    run_task env n (ps_hv s) (ps_pool s) = (hv, p) \<Longrightarrow>
    pool_step F J env s (s\<lparr>ps_hv := hv, ps_pool := p,
      ps_origin := (case wp_tasks (ps_pool s) ! n of Restoring k \<Rightarrow> (ps_origin s)(mh_next_vm (ps_hv s) \<mapsto> k) | _ \<Rightarrow> ps_origin s)\<rparr>)"
| drained: "drain F (ps_fs s) (ps_hv s) (ps_pool s) k = (fs, hv, p) \<Longrightarrow>
    pool_step F J env s (s\<lparr>ps_fs := fs, ps_hv := hv, ps_pool := p\<rparr>)"
| other_op: "0 < id_room (ps_hv s) \<Longrightarrow> hv_step F J env op (ps_fs s, ps_hv s) = ((fs, hv), r) \<Longrightarrow>
    pool_step F J env s (s\<lparr>ps_fs := fs, ps_hv := hv\<rparr>)"

definition queue_ids :: "warm_pool \<Rightarrow> snapshot_id \<Rightarrow> vm_id list" where
  "queue_ids p k = (case wp_queues p k of None \<Rightarrow> [] | Some q \<Rightarrow> map vm_h_id q)"

fun task_vm :: "refill_task \<Rightarrow> (snapshot_id \<times> vm_id) option" where
  "task_vm (Restoring k) = None"
| "task_vm (Restored k r) = map_option (\<lambda>h. (k, vm_h_id h)) r"
| "task_vm (Publishing k h) = Some (k, vm_h_id h)"

definition task_ids :: "warm_pool \<Rightarrow> (snapshot_id \<times> vm_id) list" where
  "task_ids p = List.map_filter task_vm (wp_tasks p)"

text \<open>The VMs the pool holds, with the snapshot each is kept for.\<close>

definition held :: "warm_pool \<Rightarrow> (snapshot_id \<times> vm_id) set" where
  "held p = set (task_ids p) \<union> {(k, i). i \<in> set (queue_ids p k)}"

text \<open>
  The invariant, on the queues \<open>q\<close>, the VMs \<open>ts\<close> of the tasks, those handed out, their origin and the
  next id: nothing occurs twice, and every VM is kept for the snapshot it came from.
\<close>

definition hand_ok ::
    "(snapshot_id \<Rightarrow> vm_id list) \<Rightarrow> (snapshot_id \<times> vm_id) list \<Rightarrow> (snapshot_id \<times> vm_id) list \<Rightarrow>
     (vm_id \<rightharpoonup> snapshot_id) \<Rightarrow> nat \<Rightarrow> bool" where
  "hand_ok q ts given orig nxt \<longleftrightarrow>
     (\<forall>k. distinct (q k)) \<and> distinct ts \<and> distinct given \<and>
     (\<forall>k i. (k, i) \<in> set ts \<longrightarrow> i \<notin> set (q k)) \<and>
     (\<forall>k i. (k, i) \<in> set given \<longrightarrow> (k, i) \<notin> set ts \<and> i \<notin> set (q k)) \<and>
     (\<forall>k i. (k, i) \<in> set ts \<or> i \<in> set (q k) \<or> (k, i) \<in> set given \<longrightarrow> orig i = Some k \<and> unat i < nxt)"

definition pool_inv :: "'f pool_sys \<Rightarrow> bool" where
  "pool_inv s \<longleftrightarrow> hand_ok (queue_ids (ps_pool s)) (task_ids (ps_pool s)) (ps_given s) (ps_origin s)
     (unat (mh_next_vm (ps_hv s)))"

lemma hand_ok_give:
  assumes "hand_ok q ts given orig nxt" and "q k = i # rest"
  shows "hand_ok (q(k := rest)) ts (given @ [(k, i)]) orig nxt"
proof -
  have "distinct (i # rest)" using assms unfolding hand_ok_def by metis
  moreover have "(k, i) \<notin> set given" "(k, i) \<notin> set ts" "orig i = Some k" "unat i < nxt"
    using assms unfolding hand_ok_def by (metis list.set_intros(1))+
  moreover have "set rest \<subseteq> set (q k)" using assms(2) by auto
  ultimately show ?thesis using assms(1) unfolding hand_ok_def by (auto; blast)
qed

lemma hand_ok_more: "hand_ok q ts given orig n \<Longrightarrow> n \<le> m \<Longrightarrow> hand_ok q ts given orig m"
  unfolding hand_ok_def by fastforce

lemma hand_ok_origin: "hand_ok q ts given orig (unat i) \<Longrightarrow> hand_ok q ts given (orig(i \<mapsto> k)) (unat i)"
  unfolding hand_ok_def by auto

lemma hand_ok_restored:
  assumes "hand_ok q (A @ B) given orig (unat i)"
  shows "hand_ok q (A @ [(k, i)] @ B) given (orig(i \<mapsto> k)) (Suc (unat i))"
proof -
  have "j \<noteq> i" if "(k', j) \<in> set (A @ B) \<or> j \<in> set (q k') \<or> (k', j) \<in> set given" for k' j
    using assms that unfolding hand_ok_def by (metis less_irrefl)
  then show ?thesis using assms unfolding hand_ok_def by (auto simp: less_Suc_eq)
qed

lemma hand_ok_publish:
  assumes "hand_ok q (A @ [(k, i)] @ B) given orig nxt"
  shows "hand_ok (q(k := q k @ [i])) (A @ B) given orig nxt"
  using assms unfolding hand_ok_def by auto

lemma hand_ok_drop:
  assumes "hand_ok q ts given orig nxt"
  shows "hand_ok (q(k := [])) ts given orig nxt"
  using assms unfolding hand_ok_def by auto

lemma kick_refill_ids [simp]:
  "queue_ids (kick_refill p k) = queue_ids p" "task_ids (kick_refill p k) = task_ids p"
  by (auto simp: kick_refill_def queue_ids_def task_ids_def Let_def List.map_filter_def)

lemma held_kick [simp]: "held (kick_refill p k) = held p"
  by (simp add: held_def)

lemma take_warm_hit:
  assumes "take_warm p k = (p', Some h)"
  shows "queue_ids p k = vm_h_id h # queue_ids p' k" "k' \<noteq> k \<Longrightarrow> queue_ids p' k' = queue_ids p k'"
    "task_ids p' = task_ids p"
  using assms
  by (auto simp: take_warm_def Let_def split: if_splits option.splits list.splits)
    (auto simp: queue_ids_def task_ids_def)

lemma take_warm_miss:
  assumes "take_warm p k = (p', None)"
  shows "queue_ids p' = queue_ids p" "task_ids p' = task_ids p"
  using assms by (auto simp: take_warm_def Let_def split: if_splits option.splits list.splits)

lemma fold_destroy_next:
  "mh_next_vm (snd (fold (\<lambda>h (fs, hv). let (fs, hv, _) =
      (destroy F fs hv (vm_h_id h) :: _ \<times> _ \<times> ((unit, _) vm_error, unit) result) in (fs, hv)) q (fs, hv))) = mh_next_vm hv"
  by (induction q arbitrary: fs hv) (auto simp: destroy_def split: option.splits)

lemma drain_next: "drain F fs hv p k = (fs', hv', p') \<Longrightarrow> mh_next_vm hv' = mh_next_vm hv"
  using fold_destroy_next [of F "case wp_queues p k of None \<Rightarrow> [] | Some q \<Rightarrow> q" fs hv]
  by (auto simp: drain_def Let_def split: prod.splits)

lemma drain_ids:
  assumes "drain F fs hv p k = (fs', hv', p')"
  shows "queue_ids p' k' = (if k' = k then [] else queue_ids p k')" "task_ids p' = task_ids p"
  using assms by (auto simp: drain_def Let_def queue_ids_def task_ids_def split: prod.splits)

lemma hv_step_next:
  assumes "hv_step F J env op (fs, hv) = ((fs', hv'), r)" and "0 < id_room hv"
  shows "unat (mh_next_vm hv) \<le> unat (mh_next_vm hv')"
proof (cases r)
  case (Inl e)
  with hv_step_error assms(1) show ?thesis by fastforce
next
  case (Inr v)
  with hv_step_ok(1) [OF assms(1) [unfolded Inr]] unat_next [OF assms(2)] show ?thesis by (cases v) auto
qed

text \<open>A task step takes one task out of the list and may put it back in its next stage.\<close>

abbreviation vms_of :: "refill_task list \<Rightarrow> (snapshot_id \<times> vm_id) list" where
  "vms_of ts \<equiv> List.map_filter task_vm ts"

lemma vms_of_append: "vms_of (xs @ ys) = vms_of xs @ vms_of ys"
  by (simp add: List.map_filter_def)

lemma task_ids_split:
  assumes "n < length (wp_tasks p)"
  shows "task_ids p = vms_of (take n (wp_tasks p)) @ vms_of [wp_tasks p ! n] @ vms_of (drop (Suc n) (wp_tasks p))"
proof -
  have "wp_tasks p = take n (wp_tasks p) @ [wp_tasks p ! n] @ drop (Suc n) (wp_tasks p)"
    using assms by (simp add: id_take_nth_drop)
  then show ?thesis unfolding task_ids_def by (metis vms_of_append)
qed

lemma run_task_ids:
  assumes n: "n < length (wp_tasks p)" and run: "run_task env n hv p = (hv', p')" and room: "0 < id_room hv"
  obtains (restoring) k A B where "wp_tasks p ! n = Restoring k" "task_ids p = A @ B" "queue_ids p' = queue_ids p"
      "task_ids p' = A @ B \<and> hv' = hv \<or>
       task_ids p' = A @ [(k, mh_next_vm hv)] @ B \<and> mh_next_vm hv' = mh_next_vm hv + 1"
    | (restored) k r where "wp_tasks p ! n = Restored k r" "task_ids p' = task_ids p" "queue_ids p' = queue_ids p" "hv' = hv"
    | (publishing) k h A B where "wp_tasks p ! n = Publishing k h" "task_ids p = A @ [(k, vm_h_id h)] @ B" "task_ids p' = A @ B"
      "queue_ids p' = (queue_ids p)(k := queue_ids p k @ [vm_h_id h])" "hv' = hv"
proof -
  let ?A = "vms_of (take n (wp_tasks p))" and ?B = "vms_of (drop (Suc n) (wp_tasks p))"
  obtain p1 ts where step: "task_step env hv p (wp_tasks p ! n) = (hv', p1, ts)"
    and p': "p' = p1\<lparr>wp_tasks := take n (wp_tasks p) @ ts @ drop (Suc n) (wp_tasks p)\<rparr>"
    using run n by (auto simp: run_task_def split: prod.splits)
  have ids': "task_ids p' = ?A @ vms_of ts @ ?B" by (simp add: p' task_ids_def vms_of_append)
  have q': "queue_ids p' = queue_ids p1" by (simp add: p' queue_ids_def fun_eq_iff)
  note ids = task_ids_split [OF n]
  show ?thesis
  proof (cases "wp_tasks p ! n")
    case (Restoring k)
    then have "p1 = p" and "hv' = hv \<and> ts = [Restored k None] \<or>
        mh_next_vm hv' = mh_next_vm hv + 1 \<and> (\<exists>h. ts = [Restored k (Some h)] \<and> vm_h_id h = mh_next_vm hv)"
      using step by (auto simp: task_step_def restore_def VmId_next_def Let_def split: option.splits prod.splits)
    with ids ids' q' Restoring that(1) [of k ?A ?B] show ?thesis by auto
  next
    case (Restored k r)
    then have "hv' = hv" "queue_ids p1 = queue_ids p" "vms_of ts = vms_of [wp_tasks p ! n]"
      using step by (auto simp: task_step_def Let_def queue_ids_def fun_eq_iff split: option.splits)
    with ids ids' q' Restored that(2) [of k r] show ?thesis by simp
  next
    case (Publishing k h)
    then have "hv' = hv" "ts = []" "queue_ids p1 = (queue_ids p)(k := queue_ids p k @ [vm_h_id h])"
      using step by (auto simp: task_step_def queue_ids_def fun_eq_iff split: option.splits)
    with ids ids' q' Publishing that(3) [of k h ?A ?B] show ?thesis by simp
  qed
qed

lemma pool_inv_step:
  assumes "pool_step F J env s s'" and inv: "pool_inv s"
  shows "pool_inv s'"
  using assms(1)
proof cases
  case (take_hit k p h)
  note ids = take_warm_hit [OF take_hit(2)]
  have "queue_ids p = (queue_ids (ps_pool s))(k := queue_ids p k)" using ids(2) by auto
  with hand_ok_give [OF inv [unfolded pool_inv_def] ids(1)] ids(3) show ?thesis
    by (simp add: take_hit(1) pool_inv_def)
next
  case (take_miss k p)
  with take_warm_miss [OF take_miss(2)] inv show ?thesis by (simp add: pool_inv_def)
next
  case (run_refill n hv p)
  note run = run_refill(3,4,2)
  note core = inv [unfolded pool_inv_def]
  from run show ?thesis
  proof (cases rule: run_task_ids)
    case (restoring k A B)
    from restoring(4) show ?thesis
    proof
      assume "task_ids p = A @ B \<and> hv = ps_hv s"
      with hand_ok_origin [OF core, of k] restoring show ?thesis by (simp add: run_refill(1) pool_inv_def)
    next
      assume new: "task_ids p = A @ [(k, mh_next_vm (ps_hv s))] @ B \<and> mh_next_vm hv = mh_next_vm (ps_hv s) + 1"
      show ?thesis
        using hand_ok_restored [of "queue_ids (ps_pool s)" A B "ps_given s" "ps_origin s" "mh_next_vm (ps_hv s)" k]
          core restoring new unat_next [OF run_refill(2)] by (simp add: run_refill(1) pool_inv_def)
    qed
  next
    case (restored k r)
    with core show ?thesis by (simp add: run_refill(1) pool_inv_def)
  next
    case (publishing k h A B)
    with hand_ok_publish [of "queue_ids (ps_pool s)" A k "vm_h_id h" B] core show ?thesis
      by (simp add: run_refill(1) pool_inv_def)
  qed
next
  case (drained k fs hv p)
  have "queue_ids p = (queue_ids (ps_pool s))(k := [])" using drain_ids(1) [OF drained(2)] by auto
  with hand_ok_drop [OF inv [unfolded pool_inv_def], of k] drain_ids(2) [OF drained(2)] drain_next [OF drained(2)]
  show ?thesis by (simp add: drained(1) pool_inv_def)
next
  case (other_op op fs hv r)
  with hand_ok_more [OF inv [unfolded pool_inv_def] hv_step_next [OF other_op(3,2)]] show ?thesis
    by (simp add: pool_inv_def)
qed

text \<open>
  C5: However takes, refill tasks, drains and other uses of the hypervisor interleave, no VM is handed
  out twice, each is handed out only for the snapshot it was restored from, and none that was handed
  out is still in the pool or in a refill task.
\<close>
theorem warm_vm_handed_out_once:
  assumes "(pool_step F J env)\<^sup>*\<^sup>* s s'" and "ps_pool s = WarmPool_new n" and "ps_given s = []"
  shows "distinct (map snd (ps_given s')) \<and>
    (\<forall>(k, i) \<in> set (ps_given s'). ps_origin s' i = Some k) \<and>
    snd ` held (ps_pool s') \<inter> snd ` set (ps_given s') = {}"
proof -
  have "pool_inv s"
    using assms(2,3) by (simp add: pool_inv_def hand_ok_def WarmPool_new_def queue_ids_def task_ids_def)
  with assms(1) have inv: "pool_inv s'"
    by (induction rule: rtranclp_induct) (use pool_inv_step in blast)+
  let ?g = "ps_given s'"
  have orig: "\<And>k i. (k, i) \<in> set ?g \<or> (k, i) \<in> held (ps_pool s') \<Longrightarrow> ps_origin s' i = Some k"
    using inv unfolding pool_inv_def hand_ok_def held_def by blast
  then have "inj_on snd (set ?g)" by (intro inj_onI) (metis option.inject prod.collapse)
  moreover have "distinct ?g" using inv by (simp add: pool_inv_def hand_ok_def)
  ultimately have "distinct (map snd ?g)" by (simp add: distinct_map)
  moreover have "snd ` held (ps_pool s') \<inter> snd ` set ?g = {}"
  proof (rule ccontr)
    assume "snd ` held (ps_pool s') \<inter> snd ` set ?g \<noteq> {}"
    then obtain i k k' where i: "(k, i) \<in> held (ps_pool s')" "(k', i) \<in> set ?g" by auto
    with orig have "k' = k" by (metis option.inject)
    with i inv show False unfolding pool_inv_def hand_ok_def held_def by blast
  qed
  ultimately show ?thesis using orig by blast
qed

subsection \<open>Refilling\<close>

text \<open>Tasks that have not yet released the counter, and tasks that will still deliver a VM.\<close>

fun unreleased :: "snapshot_id \<Rightarrow> refill_task \<Rightarrow> bool" where
  "unreleased k (Restoring k') \<longleftrightarrow> k' = k"
| "unreleased k (Restored k' _) \<longleftrightarrow> k' = k"
| "unreleased k (Publishing _ _) \<longleftrightarrow> False"

fun delivering :: "snapshot_id \<Rightarrow> refill_task \<Rightarrow> bool" where
  "delivering k (Restoring k') \<longleftrightarrow> k' = k"
| "delivering k (Restored k' r) \<longleftrightarrow> k' = k \<and> r \<noteq> None"
| "delivering k (Publishing k' _) \<longleftrightarrow> k' = k"

fun task_weight :: "refill_task \<Rightarrow> nat" where
  "task_weight (Restoring _) = 3"
| "task_weight (Restored _ _) = 2"
| "task_weight (Publishing _ _) = 1"

definition flight_ok :: "warm_pool \<Rightarrow> bool" where
  "flight_ok p \<longleftrightarrow> (\<forall>k. in_flight p k \<le> length (filter (unreleased k) (wp_tasks p)))"

text \<open>Task steps only, in any order.\<close>

inductive refill_step :: "host_env \<Rightarrow> mock_hv \<times> warm_pool \<Rightarrow> mock_hv \<times> warm_pool \<Rightarrow> bool" for env where
  "n < length (wp_tasks p) \<Longrightarrow> refill_step env (hv, p) (run_task env n hv p)"

lemma run_task_split:
  assumes "n < length (wp_tasks p)" and "task_step env hv p (wp_tasks p ! n) = (hv', p1, ts)"
  shows "run_task env n hv p = (hv', p1\<lparr>wp_tasks := take n (wp_tasks p) @ ts @ drop (Suc n) (wp_tasks p)\<rparr>)"
    and "wp_tasks p = take n (wp_tasks p) @ [wp_tasks p ! n] @ drop (Suc n) (wp_tasks p)"
  using assms by (auto simp: run_task_def id_take_nth_drop)

lemma task_step_counts:
  assumes "task_step env hv p t = (hv', p1, ts)"
  shows "sum_list (map task_weight ts) < task_weight t"
    and "mh_snapshots hv' = mh_snapshots hv" and "wp_per_snapshot p1 = wp_per_snapshot p"
    and "in_flight p1 k \<le> in_flight p k - (if unreleased k t \<and> \<not> list_ex (unreleased k) ts then 1 else 0)"
    and "list_ex (unreleased k) ts \<Longrightarrow> unreleased k t" and "length (filter (unreleased k) ts) \<le> 1"
    and "mh_snapshots hv k \<noteq> None \<Longrightarrow> delivering k t \<Longrightarrow>
      depth p1 k + length (filter (delivering k) ts) = Suc (depth p k)"
    and "\<not> delivering k t \<Longrightarrow> depth p1 k = depth p k \<and> filter (delivering k) ts = []"
    and "mh_snapshots hv k \<noteq> None \<Longrightarrow> Restored k None \<notin> set ts"
  using assms
  by (cases t; force simp: task_step_def Let_def restore_def VmId_next_def in_flight_def depth_def
      split: option.splits prod.splits if_splits)+

lemma refill_step_weight:
  assumes "refill_step env (hv, p) (hv', p')"
  shows "sum_list (map task_weight (wp_tasks p')) < sum_list (map task_weight (wp_tasks p))"
  using assms
proof cases
  case (1 n)
  obtain h p1 ts where step: "task_step env hv p (wp_tasks p ! n) = (h, p1, ts)" by (metis prod_cases3)
  note split = run_task_split [OF 1(2) step]
  have "wp_tasks p' = take n (wp_tasks p) @ ts @ drop (Suc n) (wp_tasks p)" using 1(1) split(1) by simp
  moreover have "sum_list (map task_weight (wp_tasks p)) = sum_list (map task_weight (take n (wp_tasks p))) +
      task_weight (wp_tasks p ! n) + sum_list (map task_weight (drop (Suc n) (wp_tasks p)))"
    by (subst split(2)) simp
  ultimately show ?thesis using task_step_counts(1) [OF step] by simp
qed

lemma refill_step_delivers:
  assumes "refill_step env (hv, p) (hv', p')" and snap: "mh_snapshots hv k \<noteq> None"
    and good: "Restored k None \<notin> set (wp_tasks p)"
  shows "mh_snapshots hv' = mh_snapshots hv" and "Restored k None \<notin> set (wp_tasks p')"
    and "depth p' k + length (filter (delivering k) (wp_tasks p')) = depth p k + length (filter (delivering k) (wp_tasks p))"
  using assms(1)
proof (atomize (full), cases)
  case (1 n)
  obtain h p1 ts where step: "task_step env hv p (wp_tasks p ! n) = (h, p1, ts)" by (metis prod_cases3)
  note split = run_task_split [OF 1(2) step] and counts = task_step_counts [OF step]
  have p': "hv' = h" "p' = p1\<lparr>wp_tasks := take n (wp_tasks p) @ ts @ drop (Suc n) (wp_tasks p)\<rparr>"
    using 1(1) split(1) by simp_all
  have "set (take n (wp_tasks p)) \<subseteq> set (wp_tasks p)" "set (drop (Suc n) (wp_tasks p)) \<subseteq> set (wp_tasks p)"
    by (auto dest: in_set_takeD in_set_dropD)
  then have "Restored k None \<notin> set (wp_tasks p')" using good counts(9) [OF snap] by (auto simp: p')
  moreover have "depth p' k = depth p1 k" by (simp add: p' depth_def)
  moreover have "length (filter (delivering k) (wp_tasks p)) = length (filter (delivering k) (take n (wp_tasks p))) +
      (if delivering k (wp_tasks p ! n) then 1 else 0) + length (filter (delivering k) (drop (Suc n) (wp_tasks p)))"
    by (subst split(2)) simp
  moreover have "depth p1 k + length (filter (delivering k) ts) = depth p k + (if delivering k (wp_tasks p ! n) then 1 else 0)"
    using counts(7) [of k] counts(8) [of k] snap by auto
  ultimately show "mh_snapshots hv' = mh_snapshots hv \<and> Restored k None \<notin> set (wp_tasks p') \<and>
      depth p' k + length (filter (delivering k) (wp_tasks p')) = depth p k + length (filter (delivering k) (wp_tasks p))"
    using counts(2) by (simp add: p')
qed

text \<open>The counter never exceeds the tasks that will release it.\<close>

lemma flight_ok_run_task:
  assumes "flight_ok p" and n: "n < length (wp_tasks p)" and "run_task env n hv p = (hv', p')"
  shows "flight_ok p'"
  unfolding flight_ok_def
proof
  fix k
  obtain h p1 ts where step: "task_step env hv p (wp_tasks p ! n) = (h, p1, ts)" by (metis prod_cases3)
  note split = run_task_split [OF n step] and counts = task_step_counts [OF step]
  have p': "p' = p1\<lparr>wp_tasks := take n (wp_tasks p) @ ts @ drop (Suc n) (wp_tasks p)\<rparr>"
    using assms(3) split(1) by simp
  have "length (filter (unreleased k) (wp_tasks p)) = length (filter (unreleased k) (take n (wp_tasks p))) +
      (if unreleased k (wp_tasks p ! n) then 1 else 0) + length (filter (unreleased k) (drop (Suc n) (wp_tasks p)))"
    by (subst split(2)) simp
  moreover have "list_ex (unreleased k) ts \<Longrightarrow> 1 \<le> length (filter (unreleased k) ts)"
    by (auto simp: list_ex_iff Suc_le_eq filter_empty_conv)
  moreover have "in_flight p' k = in_flight p1 k" by (simp add: p' in_flight_def)
  moreover have "in_flight p k \<le> length (filter (unreleased k) (wp_tasks p))" using assms(1) by (simp add: flight_ok_def)
  ultimately show "in_flight p' k \<le> length (filter (unreleased k) (wp_tasks p'))"
    using counts(4,5) [of k] by (auto simp: p' split: if_splits)
qed

lemma flight_ok_kick:
  assumes "flight_ok p"
  shows "flight_ok (kick_refill p k)"
proof (cases "pool_is_disabled p")
  case False
  let ?need = "wp_per_snapshot p - (depth p k + in_flight p k)"
  have "in_flight (kick_refill p k) j = in_flight p j + (if j = k then ?need else 0)" for j
    using False by (simp add: kick_refill_def Let_def in_flight_def)
  moreover have "filter (unreleased j) (wp_tasks (kick_refill p k)) =
      filter (unreleased j) (wp_tasks p) @ (if j = k then replicate ?need (Restoring k) else [])" for j
    using False by (simp add: kick_refill_def Let_def)
  ultimately show ?thesis using assms by (simp add: flight_ok_def)
qed (use assms in \<open>simp add: kick_refill_def\<close>)

lemma flight_ok_take: "flight_ok p \<Longrightarrow> take_warm p k = (p', r) \<Longrightarrow> flight_ok p'"
  by (auto simp: take_warm_def Let_def split: if_splits option.splits list.splits
      intro!: flight_ok_kick) (auto simp: flight_ok_def in_flight_def)

lemma flight_ok_drain: "flight_ok p \<Longrightarrow> drain F fs hv p k = (fs', hv', p') \<Longrightarrow> flight_ok p'"
  by (auto simp: drain_def Let_def flight_ok_def in_flight_def split: prod.splits)

lemma flight_ok_step: "pool_step F J env s s' \<Longrightarrow> flight_ok (ps_pool s) \<Longrightarrow> flight_ok (ps_pool s')"
  by (induction rule: pool_step.induct)
    (auto intro: flight_ok_take flight_ok_drain flight_ok_run_task)

lemma target_kept:
  "take_warm p k = (p', r) \<Longrightarrow> wp_per_snapshot p' = wp_per_snapshot p"
  "drain F fs hv p k = (fs', hv', p') \<Longrightarrow> wp_per_snapshot p' = wp_per_snapshot p"
  "n < length (wp_tasks p) \<Longrightarrow> run_task env n hv p = (hv', p') \<Longrightarrow> wp_per_snapshot p' = wp_per_snapshot p"
proof -
  have kick: "wp_per_snapshot (kick_refill p k) = wp_per_snapshot p" for p by (simp add: kick_refill_def Let_def)
  show "take_warm p k = (p', r) \<Longrightarrow> wp_per_snapshot p' = wp_per_snapshot p"
    by (auto simp: take_warm_def Let_def kick split: if_splits option.splits list.splits)
  show "drain F fs hv p k = (fs', hv', p') \<Longrightarrow> wp_per_snapshot p' = wp_per_snapshot p"
    by (auto simp: drain_def Let_def split: prod.splits)
  assume n: "n < length (wp_tasks p)" and run: "run_task env n hv p = (hv', p')"
  obtain h p1 ts where step: "task_step env hv p (wp_tasks p ! n) = (h, p1, ts)" by (metis prod_cases3)
  from run_task_split(1) [OF n step] task_step_counts(3) [OF step] run
  show "wp_per_snapshot p' = wp_per_snapshot p" by simp
qed

lemma pool_step_target:
  assumes "pool_step F J env s s'"
  shows "wp_per_snapshot (ps_pool s') = wp_per_snapshot (ps_pool s)"
  using assms
proof cases
  case (take_hit k p h)
  with target_kept(1) [OF take_hit(2)] show ?thesis by simp
next
  case (take_miss k p)
  with target_kept(1) [OF take_miss(2)] show ?thesis by simp
next
  case (run_refill n hv p)
  with target_kept(3) [OF run_refill(3,4)] show ?thesis by simp
next
  case (drained k fs hv p)
  with target_kept(2) [OF drained(2)] show ?thesis by simp
qed simp

lemma take_warm_covers:
  assumes "flight_ok p" and "take_warm p k = (p', r)" and "\<not> pool_is_disabled p"
    and "Restored k None \<notin> set (wp_tasks p)"
  shows "wp_per_snapshot p \<le> depth p' k + length (filter (delivering k) (wp_tasks p'))"
    and "Restored k None \<notin> set (wp_tasks p')"
proof -
  obtain p1 where p': "p' = kick_refill p1 k" and p1: "wp_tasks p1 = wp_tasks p" "wp_in_flight p1 = wp_in_flight p"
      "wp_per_snapshot p1 = wp_per_snapshot p"
    using assms(2,3) by (auto simp: take_warm_def Let_def split: option.splits list.splits)
  have on: "\<not> pool_is_disabled p1" using assms(3) p1 by (simp add: pool_is_disabled_def)
  let ?need = "wp_per_snapshot p1 - (depth p1 k + in_flight p1 k)"
  have tasks: "wp_tasks p' = wp_tasks p @ replicate ?need (Restoring k)" and "depth p' k = depth p1 k"
    using on by (simp_all add: p' kick_refill_def Let_def p1 depth_def)
  moreover have "length (filter (unreleased k) (wp_tasks p)) \<le> length (filter (delivering k) (wp_tasks p))"
  proof -
    have "length (filter (unreleased k) ts) \<le> length (filter (delivering k) ts)" if "Restored k None \<notin> set ts" for ts
      using that by (induction ts) (auto elim: unreleased.elims)
    then show ?thesis using assms(4) by blast
  qed
  moreover have "in_flight p1 k \<le> length (filter (unreleased k) (wp_tasks p))"
    using assms(1) p1 by (simp add: flight_ok_def in_flight_def)
  ultimately show "wp_per_snapshot p \<le> depth p' k + length (filter (delivering k) (wp_tasks p'))"
    using p1 by simp
  show "Restored k None \<notin> set (wp_tasks p')" using assms(4) by (simp add: tasks)
qed

lemma refill_steps_delivers:
  assumes "(refill_step env)\<^sup>*\<^sup>* (hv, p) (hv', p')" and "mh_snapshots hv k \<noteq> None" and "Restored k None \<notin> set (wp_tasks p)"
  shows "depth p' k + length (filter (delivering k) (wp_tasks p')) = depth p k + length (filter (delivering k) (wp_tasks p))"
proof -
  have "mh_snapshots (fst x) = mh_snapshots hv \<and> Restored k None \<notin> set (wp_tasks (snd x)) \<and>
      depth (snd x) k + length (filter (delivering k) (wp_tasks (snd x))) = depth p k + length (filter (delivering k) (wp_tasks p))"
    if "(refill_step env)\<^sup>*\<^sup>* (hv, p) x" for x
    using that
  proof (induction rule: rtranclp_induct)
    case (step x y)
    obtain h1 p1 h2 p2 where xy: "x = (h1, p1)" "y = (h2, p2)" by (metis prod.exhaust)
    from refill_step_delivers [of env h1 p1 h2 p2 k] step assms(2) show ?case by (simp add: xy)
  qed (use assms(3) in simp)
  from this [OF assms(1)] show ?thesis by simp
qed

lemma refill_finishes: "\<exists>hv' p'. (refill_step env)\<^sup>*\<^sup>* (hv, p) (hv', p') \<and> wp_tasks p' = []"
proof (induction "sum_list (map task_weight (wp_tasks p))" arbitrary: hv p rule: less_induct)
  case less
  show ?case
  proof (cases "wp_tasks p = []")
    case False
    obtain h1 p1 where run: "run_task env 0 hv p = (h1, p1)" by (metis prod.exhaust)
    have step: "refill_step env (hv, p) (h1, p1)"
      using refill_step.intros [of 0 p env hv] False run by simp
    from less [OF refill_step_weight [OF step]] step show ?thesis
      by (meson converse_rtranclp_into_rtranclp)
  qed blast
qed

text \<open>
  C6: Refilling works. In every reachable state of an enabled pool, after a take for a snapshot that
  exists and has no failed refill outstanding, the refill tasks run to their end, in any order, and
  whenever those of the snapshot are done at least the target number of VMs is ready.
\<close>
theorem refill_reaches_target:
  assumes "(pool_step F J env)\<^sup>*\<^sup>* s s'" and "ps_pool s = WarmPool_new n" and "0 < n"
    and "mh_snapshots (ps_hv s') k \<noteq> None" and "Restored k None \<notin> set (wp_tasks (ps_pool s'))"
    and "take_warm (ps_pool s') k = (p, r)"
  shows "(\<exists>hv' p'. (refill_step env)\<^sup>*\<^sup>* (ps_hv s', p) (hv', p') \<and> wp_tasks p' = []) \<and>
    (\<forall>hv' p'. (refill_step env)\<^sup>*\<^sup>* (ps_hv s', p) (hv', p') \<longrightarrow> filter (delivering k) (wp_tasks p') = [] \<longrightarrow>
       n \<le> depth p' k)"
proof -
  have "flight_ok (ps_pool s) \<and> wp_per_snapshot (ps_pool s) = n"
    using assms(2) by (simp add: WarmPool_new_def flight_ok_def in_flight_def)
  with assms(1) have pool: "flight_ok (ps_pool s') \<and> wp_per_snapshot (ps_pool s') = n"
    by (induction rule: rtranclp_induct) (auto dest: flight_ok_step pool_step_target)
  then have "\<not> pool_is_disabled (ps_pool s')" using assms(3) by (simp add: pool_is_disabled_def)
  note take = take_warm_covers [OF _ assms(6) this assms(5)]
  show ?thesis
    using refill_finishes refill_steps_delivers [OF _ assms(4) take(2)] take(1) pool by fastforce
qed

subsection \<open>Concrete runs\<close>

datatype pool_event = ETake snapshot_id | ERun nat | EDrain snapshot_id | EDelete snapshot_id

text \<open>One event on the in-memory file system.\<close>

fun pool_exec :: "pool_event \<Rightarrow> (path \<rightharpoonup> bytes) pool_sys \<Rightarrow> (path \<rightharpoonup> bytes) pool_sys" where
  "pool_exec (ETake k) s =
     (let (p, r) = take_warm (ps_pool s) k
      in s\<lparr>ps_pool := p, ps_given := ps_given s @ (case r of None \<Rightarrow> [] | Some h \<Rightarrow> [(k, vm_h_id h)])\<rparr>)"
| "pool_exec (ERun n) s =
     (if n < length (wp_tasks (ps_pool s)) \<and> 0 < id_room (ps_hv s)
      then let (hv, p) = run_task sample_env n (ps_hv s) (ps_pool s)
           in s\<lparr>ps_hv := hv, ps_pool := p, ps_origin := (case wp_tasks (ps_pool s) ! n of
                  Restoring k \<Rightarrow> (ps_origin s)(mh_next_vm (ps_hv s) \<mapsto> k) | _ \<Rightarrow> ps_origin s)\<rparr>
      else s)"
| "pool_exec (EDrain k) s =
     (let (fs, hv, p) = drain mem_fs (ps_fs s) (ps_hv s) (ps_pool s) k in s\<lparr>ps_fs := fs, ps_hv := hv, ps_pool := p\<rparr>)"
| "pool_exec (EDelete k) s =
     (if 0 < id_room (ps_hv s)
      then let ((fs, hv), _) = hv_step mem_fs (\<lambda>_. Err ()) sample_env (OpDeleteSnapshot k) (ps_fs s, ps_hv s)
           in s\<lparr>ps_fs := fs, ps_hv := hv\<rparr>
      else s)"

lemma pool_exec_step: "(pool_step mem_fs (\<lambda>_. Err ()) sample_env)\<^sup>*\<^sup>* s (pool_exec e s)"
proof (cases e)
  case (ETake k)
  obtain p r where t: "take_warm (ps_pool s) k = (p, r)" by (metis prod.exhaust)
  show ?thesis
  proof (cases r)
    case None
    with take_miss [of s k p mem_fs "\<lambda>_. Err ()" sample_env] t show ?thesis by (simp add: ETake r_into_rtranclp)
  next
    case (Some h)
    with take_hit [of s k p h mem_fs "\<lambda>_. Err ()" sample_env] t show ?thesis by (simp add: ETake r_into_rtranclp)
  qed
next
  case (ERun n)
  obtain hv p where t: "run_task sample_env n (ps_hv s) (ps_pool s) = (hv, p)" by (metis prod.exhaust)
  with run_refill [of s n sample_env hv p mem_fs "\<lambda>_. Err ()"] show ?thesis by (simp add: ERun r_into_rtranclp)
next
  case (EDrain k)
  obtain fs hv p where t: "drain mem_fs (ps_fs s) (ps_hv s) (ps_pool s) k = (fs, hv, p)" by (metis prod_cases3)
  with drained [of mem_fs s k fs hv p "\<lambda>_. Err ()" sample_env] show ?thesis by (simp add: EDrain r_into_rtranclp)
next
  case (EDelete k)
  obtain fs hv and r :: "((unit, unit) vm_error, hv_reply) result"
    where t: "hv_step mem_fs (\<lambda>_. Err ()) sample_env (OpDeleteSnapshot k) (ps_fs s, ps_hv s) = ((fs, hv), r)"
    by (metis prod.exhaust)
  show ?thesis
  proof (cases "0 < id_room (ps_hv s)")
    case True
    from other_op [OF this t] True show ?thesis by (simp add: EDelete t r_into_rtranclp del: hv_step.simps)
  qed (simp add: EDelete)
qed

lemma pool_exec_steps: "(pool_step mem_fs (\<lambda>_. Err ()) sample_env)\<^sup>*\<^sup>* s (fold pool_exec es s)"
  by (induction es arbitrary: s) (auto intro: rtranclp_trans [OF pool_exec_step])

definition sample_pool :: "(path \<rightharpoonup> bytes) pool_sys" where
  "sample_pool = \<lparr>ps_fs = Map.empty, ps_hv = sample_hv, ps_pool = WarmPool_new 1, ps_given = [], ps_origin = Map.empty\<rparr>"

text \<open>The hypervisor after one and after two more restores of the sample snapshot, and their handles.\<close>

definition sample_hv4 :: mock_hv where
  "sample_hv4 = fst (restore sample_env sample_hv 1 :: _ \<times> ((unit, unit) vm_error, _) result)"

definition sample_hv5 :: mock_hv where
  "sample_hv5 = fst (restore sample_env sample_hv4 1 :: _ \<times> ((unit, unit) vm_error, _) result)"

lemma sample_restore:
  "restore sample_env sample_hv 1 = (sample_hv4, Ok \<lparr>vm_h_id = 4, vm_h_state = Running\<rparr>)"
  "0 < id_room sample_hv" "0 < id_room sample_hv4" "mh_next_vm sample_hv = 4" "mh_snapshots sample_hv 1 \<noteq> None"
  by (simp_all add: sample_hv4_def restore_def sample_hv_eq VmId_next_def id_room_def)

lemma sample_restore4:
  "restore sample_env sample_hv4 1 = (sample_hv5, Ok \<lparr>vm_h_id = 5, vm_h_state = Running\<rparr>)" "mh_next_vm sample_hv4 = 5"
  by (simp_all add: sample_hv5_def sample_hv4_def restore_def sample_hv_eq VmId_next_def)

lemmas pool_eval = sample_pool_def WarmPool_new_def take_warm_def pool_is_disabled_def kick_refill_def
  depth_def in_flight_def run_task_def task_step_def sample_restore sample_restore4

text \<open>A state of the sample pool, with target 1, by its parts.\<close>

definition at_pool ::
    "mock_hv \<Rightarrow> (snapshot_id \<rightharpoonup> vm_handle list) \<Rightarrow> (snapshot_id \<rightharpoonup> nat) \<Rightarrow> refill_task list \<Rightarrow>
     (snapshot_id \<times> vm_id) list \<Rightarrow> (vm_id \<rightharpoonup> snapshot_id) \<Rightarrow> (path \<rightharpoonup> bytes) pool_sys" where
  "at_pool hv q fl ts g og = \<lparr>ps_fs = Map.empty, ps_hv = hv,
     ps_pool = \<lparr>wp_per_snapshot = 1, wp_queues = q, wp_in_flight = fl, wp_tasks = ts\<rparr>, ps_given = g, ps_origin = og\<rparr>"

abbreviation handle_of :: "vm_id \<Rightarrow> vm_handle" where
  "handle_of v \<equiv> \<lparr>vm_h_id = v, vm_h_state = Running\<rparr>"

lemma at_pool_first_take: "pool_exec (ETake 1) sample_pool =
    at_pool sample_hv Map.empty [1 \<mapsto> 1] [Restoring 1] [] Map.empty"
  by (simp add: pool_eval at_pool_def)

lemma at_pool_take:
  "q 1 \<in> {None, Some []} \<Longrightarrow> fl 1 = None \<Longrightarrow>
     pool_exec (ETake 1) (at_pool hv q fl ts g og) = at_pool hv q (fl(1 \<mapsto> 1)) (ts @ [Restoring 1]) g og"
  "q 1 = Some [h] \<Longrightarrow> fl 1 = None \<Longrightarrow>
     pool_exec (ETake 1) (at_pool hv q fl ts g og)
       = at_pool hv (q(1 \<mapsto> [])) (fl(1 \<mapsto> 1)) (ts @ [Restoring 1]) (g @ [(1, vm_h_id h)]) og"
  by (auto simp: at_pool_def pool_eval)

lemma at_pool_restoring:
  "restore sample_env hv 1 = (hv', (Ok h :: ((unit, unit) vm_error, _) result)) \<Longrightarrow> 0 < id_room hv \<Longrightarrow>
     pool_exec (ERun 0) (at_pool hv q fl (Restoring 1 # ts) g og)
       = at_pool hv' q fl (Restored 1 (Some h) # ts) g (og(mh_next_vm hv \<mapsto> 1))"
  by (simp add: at_pool_def run_task_def task_step_def)

lemma at_pool_restored:
  "fl 1 = Some 1 \<Longrightarrow> 0 < id_room hv \<Longrightarrow>
     pool_exec (ERun 0) (at_pool hv q fl (Restored 1 (Some h) # ts) g og)
       = at_pool hv q (fl(1 := None)) (Publishing 1 h # ts) g og"
  "fl 1 = None \<Longrightarrow> 0 < id_room hv \<Longrightarrow>
     pool_exec (ERun 0) (at_pool hv q fl (Restored 1 (Some h) # ts) g og)
       = at_pool hv q (fl(1 := None)) (Publishing 1 h # ts) g og"
  by (simp_all add: at_pool_def run_task_def task_step_def in_flight_def)

lemma at_pool_publishing:
  "0 < id_room hv \<Longrightarrow>
     pool_exec (ERun 0) (at_pool hv q fl (Publishing 1 h # ts) g og)
       = at_pool hv (q(1 \<mapsto> (case q 1 of None \<Rightarrow> [] | Some hs \<Rightarrow> hs) @ [h])) fl ts g og"
  by (simp add: at_pool_def run_task_def task_step_def)

lemmas at_pool_exec = at_pool_first_take at_pool_take at_pool_restoring [OF sample_restore(1)]
  at_pool_restoring [OF sample_restore4(1)] at_pool_restored at_pool_publishing sample_restore sample_restore4

theorem warm_vm_handed_out_once_witness:
  "ps_given (fold pool_exec [ETake 1, ERun 0, ERun 0, ERun 0, ETake 1] sample_pool) = [(1, 4)] \<and>
   ps_origin (fold pool_exec [ETake 1, ERun 0, ERun 0, ERun 0, ETake 1] sample_pool) 4 = Some 1"
proof -
  let ?es = "[ETake 1, ERun 0, ERun 0, ERun 0, ETake 1]"
  have given: "ps_given (fold pool_exec ?es sample_pool) = [(1, 4)]"
    by (simp add: at_pool_exec del: pool_exec.simps) (simp add: at_pool_def)
  with warm_vm_handed_out_once [OF pool_exec_steps [of sample_pool ?es], of 1]
  show ?thesis by (simp add: sample_pool_def del: pool_exec.simps fold_simps)
qed

theorem refill_reaches_target_witness:
  "\<exists>hv p. (refill_step sample_env)\<^sup>*\<^sup>* (sample_hv, fst (take_warm (WarmPool_new 1) 1)) (hv, p) \<and> 1 \<le> depth p 1"
proof -
  have "(pool_step mem_fs (\<lambda>_. Err () :: (unit, _) result) sample_env)\<^sup>*\<^sup>* sample_pool sample_pool" by simp
  moreover have "mh_snapshots (ps_hv sample_pool) 1 \<noteq> None" "Restored 1 None \<notin> set (wp_tasks (ps_pool sample_pool))"
    "ps_pool sample_pool = WarmPool_new 1" "(0 :: nat) < 1"
    by (simp_all add: pool_eval)
  moreover have "take_warm (ps_pool sample_pool) 1 = (fst (take_warm (WarmPool_new 1) 1), snd (take_warm (WarmPool_new 1) 1))"
    by (simp add: sample_pool_def)
  ultimately have "(\<exists>hv p. (refill_step sample_env)\<^sup>*\<^sup>* (ps_hv sample_pool, fst (take_warm (WarmPool_new 1) 1)) (hv, p) \<and> wp_tasks p = []) \<and>
    (\<forall>hv p. (refill_step sample_env)\<^sup>*\<^sup>* (ps_hv sample_pool, fst (take_warm (WarmPool_new 1) 1)) (hv, p) \<longrightarrow>
       filter (delivering 1) (wp_tasks p) = [] \<longrightarrow> 1 \<le> depth p 1)"
    by (intro refill_reaches_target)
  then show ?thesis by (metis filter.simps(1) pool_sys.select_convs(2) sample_pool_def)
qed

subsection \<open>Two interleavings the comments do not allow for\<close>

text \<open>
  The counter goes down and the VM is pushed under two separate locks. A take between the two sees
  neither, starts another refill, and the pool ends up with two VMs where its target is one.
\<close>
lemma pool_overshoots:
  "depth (ps_pool (fold pool_exec [ETake 1, ERun 0, ERun 0, ETake 1, ERun 0, ERun 0, ERun 0, ERun 0] sample_pool)) 1 = 2"
proof -
  have "0 < id_room sample_hv5"
    by (simp add: sample_hv5_def sample_hv4_def restore_def sample_hv_eq VmId_next_def id_room_def)
  then show ?thesis by (simp add: at_pool_exec del: pool_exec.simps) (simp add: at_pool_def depth_def)
qed

lemma at_pool_drain_empty:
  "q 1 = None \<Longrightarrow> pool_exec (EDrain 1) (at_pool hv q fl ts g og) = at_pool hv (q(1 := None)) (fl(1 := None)) ts g og"
  by (simp add: at_pool_def drain_def)

lemma at_pool_delete:
  "0 < id_room hv \<Longrightarrow> pool_exec (EDelete 1) (at_pool hv q fl ts g og)
     = at_pool (hv\<lparr>mh_snapshots := (mh_snapshots hv)(1 := None)\<rparr>) q fl ts g og"
  by (cases "mh_snapshots hv 1 = None") (simp_all add: at_pool_def delete_snapshot_def Let_def)

text \<open>
  A refill that was restoring when its snapshot was drained and deleted still publishes its VM, so the
  pool keeps a VM of a snapshot that is gone, and a fork of that snapshot can be served with it.
\<close>
lemma refill_after_delete:
  fixes es defines "es \<equiv> [ETake 1, ERun 0, EDrain 1, EDelete 1, ERun 0, ERun 0]"
  shows "depth (ps_pool (fold pool_exec es sample_pool)) 1 = 1"
    and "mh_snapshots (ps_hv (fold pool_exec es sample_pool)) 1 = None"
proof -
  have "0 < id_room (sample_hv4\<lparr>mh_snapshots := (mh_snapshots sample_hv4)(1 := None)\<rparr>)"
    using sample_restore(3) by (simp add: id_room_def)
  note this [simp] and at_pool_drain_empty [simp] and at_pool_delete [simp]
  show "depth (ps_pool (fold pool_exec es sample_pool)) 1 = 1"
    unfolding es_def by (simp add: at_pool_exec del: pool_exec.simps) (simp add: at_pool_def depth_def)
  show "mh_snapshots (ps_hv (fold pool_exec es sample_pool)) 1 = None"
    unfolding es_def by (simp add: at_pool_exec del: pool_exec.simps) (simp add: at_pool_def)
qed

end
