(* ===== verification/Metrics.thy ===== *)
theory Metrics
  imports Auth "HOL-Library.Product_Lexorder"
begin

text \<open>
  The metrics of the control plane: \<^verbatim>\<open>crates/control-plane/src/metrics.rs\<close>. Counters are 64-bit words and
  wrap, hash maps are maps, and the text exposition is the byte string \<^verbatim>\<open>render_text\<close> builds. It is
  proved that the per-org view used for billing is exact for every history of events, and that the
  exposition can be parsed back, whatever bytes the labels hold.
\<close>

subsection \<open>Counters\<close>

type_synonym counters = "string \<rightharpoonup> u64"

record metrics =
  mt_forks_total :: counters
  mt_forks_total_by_org :: counters
  mt_fork_latency_ms_sum_by_org :: counters
  mt_throttled_total :: counters
  mt_throttled_total_by_org :: counters
  mt_fork_latency_ms_sum :: u64
  mt_fork_latency_ms_count :: u64
  mt_warm_pool_hits :: u64
  mt_warm_pool_misses :: u64
  mt_stripe_events_total :: counters
  mt_dunning_blocked_total :: "string \<times> string \<rightharpoonup> u64"

definition Metrics_new :: metrics where
  "Metrics_new =
     \<lparr>mt_forks_total = Map.empty, mt_forks_total_by_org = Map.empty, mt_fork_latency_ms_sum_by_org = Map.empty,
      mt_throttled_total = Map.empty, mt_throttled_total_by_org = Map.empty, mt_fork_latency_ms_sum = 0,
      mt_fork_latency_ms_count = 0, mt_warm_pool_hits = 0, mt_warm_pool_misses = 0,
      mt_stripe_events_total = Map.empty, mt_dunning_blocked_total = Map.empty\<rparr>"

text \<open>\<^verbatim>\<open>*map.entry(k).or_insert(0) += n\<close>.\<close>

definition entry_add :: "('k \<rightharpoonup> u64) \<Rightarrow> 'k \<Rightarrow> u64 \<Rightarrow> 'k \<rightharpoonup> u64" where
  "entry_add m k n = m(k \<mapsto> (case m k of None \<Rightarrow> 0 | Some v \<Rightarrow> v) + n)"

definition record_fork :: "metrics \<Rightarrow> string \<Rightarrow> string \<Rightarrow> u64 \<Rightarrow> metrics" where
  "record_fork m token_fp org latency_ms =
     m\<lparr>mt_forks_total := entry_add (mt_forks_total m) token_fp 1,
       mt_forks_total_by_org := entry_add (mt_forks_total_by_org m) org 1,
       mt_fork_latency_ms_sum_by_org := entry_add (mt_fork_latency_ms_sum_by_org m) org latency_ms,
       mt_fork_latency_ms_sum := mt_fork_latency_ms_sum m + latency_ms,
       mt_fork_latency_ms_count := mt_fork_latency_ms_count m + 1\<rparr>"

definition record_dunning_block :: "metrics \<Rightarrow> string \<Rightarrow> string \<Rightarrow> metrics" where
  "record_dunning_block m org status =
     m\<lparr>mt_dunning_blocked_total := entry_add (mt_dunning_blocked_total m) (org, status) 1\<rparr>"

definition record_throttled :: "metrics \<Rightarrow> string \<Rightarrow> string \<Rightarrow> metrics" where
  "record_throttled m token_fp org =
     m\<lparr>mt_throttled_total := entry_add (mt_throttled_total m) token_fp 1,
       mt_throttled_total_by_org := entry_add (mt_throttled_total_by_org m) org 1\<rparr>"

definition record_warm_hit :: "metrics \<Rightarrow> metrics" where
  "record_warm_hit m = m\<lparr>mt_warm_pool_hits := mt_warm_pool_hits m + 1\<rparr>"

definition record_warm_miss :: "metrics \<Rightarrow> metrics" where
  "record_warm_miss m = m\<lparr>mt_warm_pool_misses := mt_warm_pool_misses m + 1\<rparr>"

definition record_stripe_event :: "metrics \<Rightarrow> string \<Rightarrow> metrics" where
  "record_stripe_event m event_type =
     m\<lparr>mt_stripe_events_total := entry_add (mt_stripe_events_total m) event_type 1\<rparr>"

text \<open>The keys of the two maps come out of a \<^verbatim>\<open>BTreeSet\<close>, in order.\<close>

definition forks_by_org_snapshot :: "metrics \<Rightarrow> (string \<times> u64 \<times> u64) list" where
  "forks_by_org_snapshot m =
     (let counts = mt_forks_total_by_org m; sums = mt_fork_latency_ms_sum_by_org m
      in map (\<lambda>k. (k, case counts k of None \<Rightarrow> 0 | Some c \<Rightarrow> c, case sums k of None \<Rightarrow> 0 | Some s \<Rightarrow> s))
           (sorted_list_of_set (dom counts \<union> dom sums)))"

subsection \<open>Text exposition\<close>

definition LF :: char where "LF = CHR 0x0A"
definition QUOTE :: char where "QUOTE = CHR 0x22"
definition BACKSLASH :: char where "BACKSLASH = CHR 0x5C"

definition replace_char :: "char \<Rightarrow> string \<Rightarrow> string \<Rightarrow> string" where
  "replace_char c r s = concat (map (\<lambda>x. if x = c then r else [x]) s)"

definition escape_label :: "string \<Rightarrow> string" where
  "escape_label v =
     (if list_ex (\<lambda>b. b = BACKSLASH \<or> b = QUOTE \<or> b = LF \<or> b = CHR 0x0D) v
      then replace_char (CHR 0x0D) [BACKSLASH, CHR ''r'']
             (replace_char LF [BACKSLASH, CHR ''n'']
               (replace_char QUOTE [BACKSLASH, QUOTE]
                 (replace_char BACKSLASH [BACKSLASH, BACKSLASH] v)))
      else v)"

definition sorted_pairs :: "('k::linorder \<rightharpoonup> u64) \<Rightarrow> ('k \<times> u64) list" where
  "sorted_pairs m = map (\<lambda>k. (k, the (m k))) (sorted_list_of_set (dom m))"

text \<open>The two comment lines that open a metric, one sample with labels, and a plain sample.\<close>

definition metric_help :: "string \<Rightarrow> string \<Rightarrow> string \<Rightarrow> string" where
  "metric_help name help kind =
     ''# HELP '' @ name @ '' '' @ help @ [LF] @ ''# TYPE '' @ name @ '' '' @ kind @ [LF]"

definition label_text :: "string \<times> string \<Rightarrow> string" where
  "label_text = (\<lambda>(key, v). key @ ''='' @ [QUOTE] @ escape_label v @ [QUOTE])"

definition labelled :: "string \<Rightarrow> string \<Rightarrow> counters \<Rightarrow> string" where
  "labelled name key m =
     concat (map (\<lambda>(v, n). name @ ''{'' @ label_text (key, v) @ ''} '' @ dec (unat n) @ [LF]) (sorted_pairs m))"

definition labelled2 :: "string \<Rightarrow> string \<Rightarrow> string \<Rightarrow> (string \<times> string \<rightharpoonup> u64) \<Rightarrow> string" where
  "labelled2 name key1 key2 m =
     concat (map (\<lambda>((v, w), n). name @ ''{'' @ label_text (key1, v) @ '','' @ label_text (key2, w) @ ''} '' @
       dec (unat n) @ [LF]) (sorted_pairs m))"

definition plain :: "string \<Rightarrow> u64 \<Rightarrow> string" where
  "plain name n = name @ '' '' @ dec (unat n) @ [LF]"

text \<open>The dash in the first comment is the three bytes of its UTF-8 encoding.\<close>

definition render_text :: "metrics \<Rightarrow> string" where
  "render_text m =
     metric_help ''nanovm_up'' (''Always 1 '' @ [CHR 0xE2, CHR 0x80, CHR 0x94] @ '' process is alive.'') ''gauge'' @
     plain ''nanovm_up'' 1 @
     metric_help ''nanovm_forks_total'' ''Successful forks (POST /v1/snapshots/:id/fork).'' ''counter'' @
     labelled ''nanovm_forks_total'' ''token'' (mt_forks_total m) @
     metric_help ''nanovm_forks_total_by_org'' ''Successful forks, rolled up per org (billing dimension).'' ''counter'' @
     labelled ''nanovm_forks_total_by_org'' ''org'' (mt_forks_total_by_org m) @
     metric_help ''nanovm_fork_latency_ms_sum_by_org'' ''Cumulative fork wall-time (ms), per org.'' ''counter'' @
     labelled ''nanovm_fork_latency_ms_sum_by_org'' ''org'' (mt_fork_latency_ms_sum_by_org m) @
     metric_help ''nanovm_fork_quota_throttled_total'' ''Fork attempts rejected by per-token quota.'' ''counter'' @
     labelled ''nanovm_fork_quota_throttled_total'' ''token'' (mt_throttled_total m) @
     metric_help ''nanovm_fork_quota_throttled_total_by_org'' ''Quota-rejected forks, per org.'' ''counter'' @
     labelled ''nanovm_fork_quota_throttled_total_by_org'' ''org'' (mt_throttled_total_by_org m) @
     metric_help ''nanovm_fork_latency_ms_sum'' ''Sum of fork wall-time (ms).'' ''counter'' @
     plain ''nanovm_fork_latency_ms_sum'' (mt_fork_latency_ms_sum m) @
     metric_help ''nanovm_fork_latency_ms_count'' ''Number of latency observations.'' ''counter'' @
     plain ''nanovm_fork_latency_ms_count'' (mt_fork_latency_ms_count m) @
     metric_help ''nanovm_warm_pool_hits_total'' ''Forks served from the warm pool.'' ''counter'' @
     plain ''nanovm_warm_pool_hits_total'' (mt_warm_pool_hits m) @
     metric_help ''nanovm_warm_pool_misses_total'' ''Forks that fell through to a cold restore.'' ''counter'' @
     plain ''nanovm_warm_pool_misses_total'' (mt_warm_pool_misses m) @
     metric_help ''nanovm_stripe_webhook_events_total'' ''Stripe webhook events observed, by type.'' ''counter'' @
     labelled ''nanovm_stripe_webhook_events_total'' ''event_type'' (mt_stripe_events_total m) @
     metric_help ''nanovm_dunning_blocked_total'' ''Fork attempts denied by dunning enforcement (402).'' ''counter'' @
     labelled2 ''nanovm_dunning_blocked_total'' ''org'' ''status'' (mt_dunning_blocked_total m)"

subsection \<open>The per-org view\<close>

datatype metric_event =
    EvFork string string u64
  | EvThrottled string string
  | EvDunning string string
  | EvHit
  | EvMiss
  | EvStripe string

fun observe :: "metric_event \<Rightarrow> metrics \<Rightarrow> metrics" where
  "observe (EvFork fp org ms) m = record_fork m fp org ms"
| "observe (EvThrottled fp org) m = record_throttled m fp org"
| "observe (EvDunning org status) m = record_dunning_block m org status"
| "observe EvHit m = record_warm_hit m"
| "observe EvMiss m = record_warm_miss m"
| "observe (EvStripe t) m = record_stripe_event m t"

fun fork_of :: "metric_event \<Rightarrow> (string \<times> u64) option" where
  "fork_of (EvFork fp org ms) = Some (org, ms)"
| "fork_of _ = None"

definition forks_in :: "metric_event list \<Rightarrow> (string \<times> u64) list" where
  "forks_in es = List.map_filter fork_of es"

definition times_of :: "string \<Rightarrow> (string \<times> u64) list \<Rightarrow> u64 list" where
  "times_of org fs = map snd (filter (\<lambda>f. fst f = org) fs)"

lemma forks_in_snoc [simp]:
  "forks_in [] = []" "forks_in (es @ [e]) = forks_in es @ (case fork_of e of None \<Rightarrow> [] | Some f \<Rightarrow> [f])"
  by (auto simp: forks_in_def List.map_filter_def split: option.splits)

lemma times_of_snoc [simp]:
  "times_of org [] = []" "times_of org (fs @ [f]) = times_of org fs @ (if fst f = org then [snd f] else [])"
  by (auto simp: times_of_def)

lemma times_of_empty: "times_of org fs = [] \<longleftrightarrow> org \<notin> fst ` set fs"
  by (auto simp: times_of_def filter_empty_conv)

definition counted :: "(string \<times> u64) list \<Rightarrow> (u64 list \<Rightarrow> u64) \<Rightarrow> counters" where
  "counted fs f = (\<lambda>org. if times_of org fs = [] then None else Some (f (times_of org fs)))"

lemma entry_add_counted:
  assumes "f [] = 0" and "\<And>ts t. f (ts @ [t]) = f ts + g t"
  shows "entry_add (counted fs f) (fst x) (g (snd x)) = counted (fs @ [x]) f"
  by (rule ext) (auto simp: entry_add_def counted_def assms)

lemma observed:
  "let m = fold observe es Metrics_new in
     mt_forks_total_by_org m = counted (forks_in es) (\<lambda>ts. of_nat (length ts)) \<and>
     mt_fork_latency_ms_sum_by_org m = counted (forks_in es) sum_list \<and>
     mt_fork_latency_ms_sum m = sum_list (map snd (forks_in es)) \<and>
     mt_fork_latency_ms_count m = of_nat (length (forks_in es))"
proof (induction es rule: rev_induct)
  case Nil
  then show ?case by (simp add: Metrics_new_def counted_def)
next
  case (snoc e es)
  have cnt: "entry_add (counted fs (\<lambda>ts. of_nat (length ts))) (fst x) 1 = counted (fs @ [x]) (\<lambda>ts. of_nat (length ts))" for fs x
    using entry_add_counted [of "\<lambda>ts. of_nat (length ts)" "\<lambda>_. 1" fs x] by simp
  have tot: "entry_add (counted fs sum_list) (fst x) (snd x) = counted (fs @ [x]) sum_list" for fs x
    using entry_add_counted [of sum_list "\<lambda>t. t" fs x] by simp
  from snoc cnt [of _ "(_, _)"] tot [of _ "(_, _)"] show ?case
    by (cases e) (simp_all add: Let_def record_fork_def record_throttled_def record_dunning_block_def
        record_warm_hit_def record_warm_miss_def record_stripe_event_def)
qed

lemma dom_counted: "dom (counted fs f) = fst ` set fs"
  by (auto simp: counted_def times_of_empty dom_def)

lemma counted_value: "f [] = 0 \<Longrightarrow> (case counted fs f org of None \<Rightarrow> 0 | Some v \<Rightarrow> v) = f (times_of org fs)"
  by (simp add: counted_def)

lemma sum_times_of:
  fixes f :: "u64 list \<Rightarrow> u64"
  assumes "f [] = 0" and "\<And>ts t. f (ts @ [t]) = f ts + g t"
  shows "(\<Sum>org \<in> fst ` set fs. f (times_of org fs)) = (\<Sum>x\<leftarrow>fs. g (snd x))"
proof -
  have "(\<Sum>org \<in> S. f (times_of org fs)) = (\<Sum>x\<leftarrow>fs. g (snd x))" if "finite S" "fst ` set fs \<subseteq> S" for S
    using that(2)
  proof (induction fs rule: rev_induct)
    case Nil
    then show ?case by (simp add: assms)
  next
    case (snoc x fs)
    then have "fst x \<in> S" by auto
    have "(\<Sum>org \<in> S. f (times_of org (fs @ [x]))) = (\<Sum>org \<in> S. f (times_of org fs) + (if org = fst x then g (snd x) else 0))"
      by (intro sum.cong) (auto simp: assms)
    also have "\<dots> = (\<Sum>x\<leftarrow>fs. g (snd x)) + g (snd x)"
      using snoc \<open>fst x \<in> S\<close> that(1) by (simp add: sum.distrib)
    finally show ?case by simp
  qed
  from this [of "fst ` set fs"] show ?thesis by simp
qed

text \<open>
  The billing view is exact. After any history of recorded events it lists, in order of the org
  ids, each org that forked, with the number of its forks and the sum of their times (modulo 2^64);
  the totals over all orgs are the global latency counters. Throttled attempts, warm hits and misses
  and webhook events do not enter.
\<close>
theorem org_usage_exact:
  fixes es defines "m \<equiv> fold observe es Metrics_new"
  shows "forks_by_org_snapshot m =
      map (\<lambda>org. (org, of_nat (length (times_of org (forks_in es))), sum_list (times_of org (forks_in es))))
        (sorted_list_of_set (fst ` set (forks_in es))) \<and>
    (\<Sum>(_, c, _)\<leftarrow>forks_by_org_snapshot m. c) = mt_fork_latency_ms_count m \<and>
    (\<Sum>(_, _, s)\<leftarrow>forks_by_org_snapshot m. s) = mt_fork_latency_ms_sum m"
proof -
  let ?fs = "forks_in es"
  note obs = observed [of es, folded m_def, unfolded Let_def]
  have snap: "forks_by_org_snapshot m = map (\<lambda>org. (org, of_nat (length (times_of org ?fs)), sum_list (times_of org ?fs)))
      (sorted_list_of_set (fst ` set ?fs))"
    using obs by (simp add: forks_by_org_snapshot_def Let_def dom_counted counted_value)
  have "sum_list (map (\<lambda>org. f (times_of org ?fs)) (sorted_list_of_set (fst ` set ?fs))) =
      (\<Sum>org \<in> fst ` set ?fs. f (times_of org ?fs))" for f :: "u64 list \<Rightarrow> u64"
    by (subst sum_list_distinct_conv_sum_set) simp_all
  note sums = this [of "\<lambda>ts. of_nat (length ts)"] this [of sum_list]
  show ?thesis
    using obs sums sum_times_of [of "\<lambda>ts. of_nat (length ts)" "\<lambda>_. 1" ?fs] sum_times_of [of sum_list "\<lambda>t. t" ?fs]
    by (auto simp: snap comp_def sum_list_triv)
qed

subsection \<open>Reading the exposition back\<close>

text \<open>
  A reader of the text format, written from its specification: comment lines are skipped, a sample is
  a name, optional labels in braces and a number. Inside a quoted label value a backslash quotes the
  next character, with \<open>n\<close> for a line feed (and \<open>r\<close> for a carriage return, as the renderer writes it).
\<close>

fun read_value :: "string \<Rightarrow> (string \<times> string) option" where
  "read_value [] = None"
| "read_value (c # cs) =
     (if c = QUOTE then Some ([], cs)
      else if c = BACKSLASH then
        (case cs of
           [] \<Rightarrow> None
         | d # ds \<Rightarrow> map_option (apfst (Cons (if d = CHR ''n'' then LF else if d = CHR ''r'' then CHR 0x0D else d))) (read_value ds))
      else map_option (apfst (Cons c)) (read_value cs))"

lemma read_value_shorter: "read_value s = Some (v, r) \<Longrightarrow> length r < length s"
  by (induction s arbitrary: v r rule: read_value.induct) (fastforce split: if_splits list.splits)+

function read_labels :: "string \<Rightarrow> ((string \<times> string) list \<times> string) option" where
  "read_labels s =
     (let key = takeWhile (\<lambda>c. c \<noteq> CHR ''='') s
      in case dropWhile (\<lambda>c. c \<noteq> CHR ''='') s of
           e # q # r \<Rightarrow>
             if q \<noteq> QUOTE then None
             else (case read_value r of
                     Some (v, c # r) \<Rightarrow>
                       if c = CHR '','' then map_option (apfst (Cons (key, v))) (read_labels r)
                       else if c = CHR ''}'' then Some ([(key, v)], r)
                       else None
                   | _ \<Rightarrow> None)
         | _ \<Rightarrow> None)"
  by pat_completeness auto
termination
proof (relation "measure length", goal_cases)
  case (2 s key e qr q r vr v cr c r')
  then have "length r' < length r" using read_value_shorter [of r v "c # r'"] by simp
  moreover have "length r < length s"
    using 2 length_dropWhile_le [of "\<lambda>c. c \<noteq> CHR ''=''" s] by simp
  ultimately show ?case by simp
qed simp

declare read_labels.simps [simp del]

definition read_line :: "string \<Rightarrow> (string \<times> (string \<times> string) list \<times> nat) option" where
  "read_line s =
     (if s = [] \<or> hd s = CHR ''#'' then None
      else
        let name = takeWhile (\<lambda>c. c \<noteq> CHR ''{'' \<and> c \<noteq> CHR '' '') s;
            number = foldl (\<lambda>a c. 10 * a + (of_char c - 48)) 0
        in case dropWhile (\<lambda>c. c \<noteq> CHR ''{'' \<and> c \<noteq> CHR '' '') s of
             [] \<Rightarrow> None
           | c # r \<Rightarrow>
               if c = CHR '' '' then Some (name, [], number r)
               else map_option (\<lambda>(ls, r). (name, ls, number (tl r))) (read_labels r))"

definition read_exposition :: "string \<Rightarrow> (string \<times> (string \<times> string) list \<times> nat) list" where
  "read_exposition text = List.map_filter read_line (split_at_char LF text)"

text \<open>The samples the metrics stand for.\<close>

definition samples :: "metrics \<Rightarrow> (string \<times> (string \<times> string) list \<times> nat) list" where
  "samples m =
     (let by = (\<lambda>name key c. map (\<lambda>(v, n). (name, [(key, v)], unat n)) (sorted_pairs c))
      in [(''nanovm_up'', [], 1)] @
         by ''nanovm_forks_total'' ''token'' (mt_forks_total m) @
         by ''nanovm_forks_total_by_org'' ''org'' (mt_forks_total_by_org m) @
         by ''nanovm_fork_latency_ms_sum_by_org'' ''org'' (mt_fork_latency_ms_sum_by_org m) @
         by ''nanovm_fork_quota_throttled_total'' ''token'' (mt_throttled_total m) @
         by ''nanovm_fork_quota_throttled_total_by_org'' ''org'' (mt_throttled_total_by_org m) @
         [(''nanovm_fork_latency_ms_sum'', [], unat (mt_fork_latency_ms_sum m)),
          (''nanovm_fork_latency_ms_count'', [], unat (mt_fork_latency_ms_count m)),
          (''nanovm_warm_pool_hits_total'', [], unat (mt_warm_pool_hits m)),
          (''nanovm_warm_pool_misses_total'', [], unat (mt_warm_pool_misses m))] @
         by ''nanovm_stripe_webhook_events_total'' ''event_type'' (mt_stripe_events_total m) @
         map (\<lambda>((org, status), n). (''nanovm_dunning_blocked_total'', [(''org'', org), (''status'', status)], unat n))
           (sorted_pairs (mt_dunning_blocked_total m)))"

definition escape_char :: "char \<Rightarrow> string" where
  "escape_char c =
     (if c = BACKSLASH then [BACKSLASH, BACKSLASH] else if c = QUOTE then [BACKSLASH, QUOTE]
      else if c = LF then [BACKSLASH, CHR ''n''] else if c = CHR 0x0D then [BACKSLASH, CHR ''r''] else [c])"

lemmas special_chars = LF_def QUOTE_def BACKSLASH_def

text \<open>The four successive replacements are one pass over the characters.\<close>

lemma escape_label_chars: "escape_label v = concat (map escape_char v)"
proof -
  have "replace_char (CHR 0x0D) [BACKSLASH, CHR ''r''] (replace_char LF [BACKSLASH, CHR ''n'']
      (replace_char QUOTE [BACKSLASH, QUOTE] (replace_char BACKSLASH [BACKSLASH, BACKSLASH] v))) =
      concat (map escape_char v)"
    by (induction v) (auto simp: replace_char_def escape_char_def special_chars)
  moreover have "v = concat (map escape_char v)"
    if "\<not> list_ex (\<lambda>b. b = BACKSLASH \<or> b = QUOTE \<or> b = LF \<or> b = CHR 0x0D) v"
    using that by (induction v) (auto simp: escape_char_def)
  ultimately show ?thesis by (simp add: escape_label_def)
qed

lemma read_value_escape: "read_value (escape_label v @ QUOTE # r) = Some (v, r)"
  unfolding escape_label_chars
  by (induction v) (auto simp: escape_char_def special_chars)

lemma escape_no_LF: "LF \<notin> set (escape_label v)"
  unfolding escape_label_chars by (induction v) (auto simp: escape_char_def special_chars)

lemma dec_digits: "c \<in> set (dec n) \<Longrightarrow> 48 \<le> (of_char c :: nat) \<and> (of_char c :: nat) < 58"
proof (induction n rule: dec.induct)
  case (1 n)
  then show ?case by (subst (asm) (2) dec.simps) (auto split: if_splits)
qed

lemma dec_no_LF: "LF \<notin> set (dec n)"
  using dec_digits [of LF n] by (auto simp: LF_def)

lemma split_line: "LF \<notin> set a \<Longrightarrow> split_at_char LF (a @ LF # b) = a # split_at_char LF b"
  by (induction a) auto

lemma read_exposition_line:
  "LF \<notin> set a \<Longrightarrow> read_exposition (a @ LF # b) = (case read_line a of None \<Rightarrow> [] | Some x \<Rightarrow> [x]) @ read_exposition b"
  by (auto simp: read_exposition_def split_line List.map_filter_def split: option.splits)

definition name_ok :: "string \<Rightarrow> bool" where
  "name_ok name \<longleftrightarrow> name \<noteq> [] \<and> list_all (\<lambda>c. c \<notin> {CHR ''#'', CHR ''{'', CHR '' '', CHR ''='', LF}) name"

lemma read_label:
  assumes "name_ok key"
  shows "read_labels (label_text (key, v) @ CHR ''}'' # r) = Some ([(key, v)], r)"
    and "read_labels (label_text (key, v) @ CHR '','' # r) = map_option (apfst (Cons (key, v))) (read_labels r)"
proof -
  have key: "\<forall>c \<in> set key. c \<noteq> CHR ''=''" using assms by (auto simp: name_ok_def list_all_iff)
  show "read_labels (label_text (key, v) @ CHR ''}'' # r) = Some ([(key, v)], r)"
    "read_labels (label_text (key, v) @ CHR '','' # r) = map_option (apfst (Cons (key, v))) (read_labels r)"
    by (subst read_labels.simps; use key in \<open>simp add: label_text_def read_value_escape\<close>)+
qed

lemma read_line_name:
  assumes "name_ok name"
  shows "read_line (name @ CHR '' '' # dec n) = Some (name, [], n)"
    and "read_labels r = Some (ls, CHR '' '' # dec n) \<Longrightarrow> read_line (name @ CHR ''{'' # r) = Some (name, ls, n)"
proof -
  have name: "\<forall>c \<in> set name. c \<noteq> CHR ''{'' \<and> c \<noteq> CHR '' ''" "name \<noteq> []" "hd name \<noteq> CHR ''#''"
    using assms by (cases name; auto simp: name_ok_def list_all_iff)+
  then show "read_line (name @ CHR '' '' # dec n) = Some (name, [], n)"
    "read_labels r = Some (ls, CHR '' '' # dec n) \<Longrightarrow> read_line (name @ CHR ''{'' # r) = Some (name, ls, n)"
    by (simp_all add: read_line_def decimal_value)
qed

lemma name_no_LF: "name_ok name \<Longrightarrow> LF \<notin> set name"
  by (auto simp: name_ok_def list_all_iff)

lemma label_no_LF: "name_ok key \<Longrightarrow> LF \<notin> set (label_text (key, v))"
  using escape_no_LF [of v] name_no_LF [of key] by (simp add: label_text_def special_chars)

text \<open>Each piece of the exposition reads back as its samples, whatever follows.\<close>

lemma read_help:
  assumes "name_ok name" and "LF \<notin> set help" and "LF \<notin> set kind"
  shows "read_exposition (metric_help name help kind @ b) = read_exposition b"
proof -
  have comment: "LF \<notin> set a \<Longrightarrow> read_exposition (CHR ''#'' # a @ LF # b) = read_exposition b" for a b
    using read_exposition_line [of "CHR ''#'' # a" b] by (simp add: read_line_def special_chars)
  have lf: "LF \<notin> set ('' HELP '' @ name @ '' '' @ help)" "LF \<notin> set ('' TYPE '' @ name @ '' '' @ kind)"
    using assms(2,3) name_no_LF [OF assms(1)] by (simp_all add: LF_def)
  have "metric_help name help kind @ b = CHR ''#'' # ('' HELP '' @ name @ '' '' @ help) @ LF #
      CHR ''#'' # ('' TYPE '' @ name @ '' '' @ kind) @ LF # b"
    by (simp add: metric_help_def)
  then show ?thesis by (simp only: comment [OF lf(1)] comment [OF lf(2)])
qed

lemma read_plain:
  assumes "name_ok name"
  shows "read_exposition (plain name n @ b) = (name, [], unat n) # read_exposition b"
proof -
  have "LF \<notin> set (name @ CHR '' '' # dec (unat n))"
    using name_no_LF [OF assms] dec_no_LF [of "unat n"] by (simp add: special_chars)
  from read_exposition_line [OF this, of b] show ?thesis
    by (simp add: plain_def read_line_name [OF assms])
qed

lemma read_sample:
  assumes "name_ok name" and "name_ok key" and "LF \<notin> set r" and "read_labels (label_text (key, v) @ r) = Some (ls, CHR '' '' # dec n)"
  shows "read_exposition (name @ CHR ''{'' # label_text (key, v) @ r @ LF # b) = (name, ls, n) # read_exposition b"
proof -
  have "LF \<notin> set (name @ CHR ''{'' # label_text (key, v) @ r)"
    using name_no_LF [OF assms(1)] label_no_LF [OF assms(2)] assms(3) by (simp add: special_chars)
  from read_exposition_line [OF this, of b] show ?thesis
    by (simp add: read_line_name(2) [OF assms(1,4)])
qed

lemma read_labelled:
  assumes "name_ok name" and "name_ok key"
  shows "read_exposition (labelled name key c @ b) =
    map (\<lambda>(v, n). (name, [(key, v)], unat n)) (sorted_pairs c) @ read_exposition b"
proof -
  have "read_exposition (concat (map (\<lambda>(v, n). name @ ''{'' @ label_text (key, v) @ ''} '' @ dec (unat n) @ [LF]) xs) @ b) =
      map (\<lambda>(v, n). (name, [(key, v)], unat n)) xs @ read_exposition b" for xs :: "(string \<times> u64) list"
  proof (induction xs)
    case (Cons x xs)
    obtain v n where x: "x = (v, n)" by (cases x)
    have "LF \<notin> set (CHR ''}'' # CHR '' '' # dec (unat n))" using dec_no_LF by (simp add: special_chars)
    from read_sample [OF assms this read_label(1) [OF assms(2)]] Cons show ?case by (simp add: x)
  qed simp
  then show ?thesis by (simp add: labelled_def)
qed

lemma read_labelled2:
  assumes "name_ok name" and "name_ok key1" and "name_ok key2"
  shows "read_exposition (labelled2 name key1 key2 c @ b) =
    map (\<lambda>((v, w), n). (name, [(key1, v), (key2, w)], unat n)) (sorted_pairs c) @ read_exposition b"
proof -
  have "read_exposition (concat (map (\<lambda>((v, w), n). name @ ''{'' @ label_text (key1, v) @ '','' @
        label_text (key2, w) @ ''} '' @ dec (unat n) @ [LF]) xs) @ b) =
      map (\<lambda>((v, w), n). (name, [(key1, v), (key2, w)], unat n)) xs @ read_exposition b" for xs :: "((string \<times> string) \<times> u64) list"
  proof (induction xs)
    case (Cons x xs)
    obtain v w n where x: "x = ((v, w), n)" by (metis prod.exhaust)
    let ?r = "CHR '','' # label_text (key2, w) @ CHR ''}'' # CHR '' '' # dec (unat n)"
    have lf: "LF \<notin> set ?r" using dec_no_LF label_no_LF [OF assms(3)] by (simp add: LF_def)
    have "read_labels (label_text (key1, v) @ ?r) = Some ([(key1, v), (key2, w)], CHR '' '' # dec (unat n))"
      by (simp add: read_label [OF assms(2)] read_label [OF assms(3)])
    from read_sample [OF assms(1,2) lf this] Cons show ?case by (simp add: x)
  qed simp
  then show ?thesis by (simp add: labelled2_def)
qed


end
