(* ===== verification/Control_Plane.thy ===== *)
theory Control_Plane
  imports Ownership Fork_Quota Warm_Pool Metrics
begin

text \<open>
  The REST handlers of the control plane: \<^verbatim>\<open>crates/control-plane/src/routes.rs\<close>, the sandbox endpoint of
  \<^verbatim>\<open>sandbox.rs\<close> and the wire types of \<^verbatim>\<open>api.rs\<close>, over the mock hypervisor, the ownership map, the fork
  quota, the warm pool and the metrics. A handler takes the state, the org and role that the token
  middleware found and the extracted request, and returns the new state with the response or the
  error. Rejections of the extractors are values of the type \<open>'r\<close>; the JSON parsers, the host's file
  system and processes are the fields of \<open>platform\<close>; clocks, hash-map orders and random strings of
  one call are its \<open>call_ctx\<close>. Handlers run as one step; the refill tasks of the pool run between them.
  The build is the default one, without the \<^verbatim>\<open>billing\<close> feature.
\<close>

subsection \<open>Wire types\<close>

datatype net_backend_request = ReqMock | ReqSmoltcp

record create_vm_request =
  cr_vcpus :: u32
  cr_memory_mib :: u64
  cr_kernel :: "path option"
  cr_rootfs :: "path option"
  cr_cmdline :: string
  cr_vsock_cid :: "u32 option"
  cr_snapshot_dir :: "path option"
  cr_net_backend :: "net_backend_request option"

definition NetBackendChoice_from :: "net_backend_request \<Rightarrow> net_backend_choice" where
  "NetBackendChoice_from r = (case r of ReqMock \<Rightarrow> MockNet | ReqSmoltcp \<Rightarrow> Smoltcp)"

definition VmConfig_from :: "create_vm_request \<Rightarrow> vm_config" where
  "VmConfig_from r =
     \<lparr>vc_vcpus = cr_vcpus r, vc_memory_mib = cr_memory_mib r, vc_kernel = cr_kernel r, vc_flat_binary = None,
      vc_initrd = None, vc_rootfs = cr_rootfs r, vc_cmdline = cr_cmdline r, vc_vsock_cid = cr_vsock_cid r,
      vc_snapshot_dir = cr_snapshot_dir r,
      vc_net_backend = (case cr_net_backend r of None \<Rightarrow> MockNet | Some b \<Rightarrow> NetBackendChoice_from b)\<rparr>"

record vm_config_defaults =
  vd_kernel :: "path option"
  vd_rootfs :: "path option"
  vd_cmdline :: "string option"

definition apply_to :: "vm_config_defaults \<Rightarrow> vm_config \<Rightarrow> vm_config" where
  "apply_to d cfg =
     (let cfg = (if vc_kernel cfg = None then cfg\<lparr>vc_kernel := vd_kernel d\<rparr> else cfg);
          cfg = (if vc_rootfs cfg = None then cfg\<lparr>vc_rootfs := vd_rootfs d\<rparr> else cfg)
      in if vc_cmdline cfg = []
         then (case vd_cmdline d of Some c \<Rightarrow> cfg\<lparr>vc_cmdline := c\<rparr> | None \<Rightarrow> cfg)
         else cfg)"

record vm_handle_dto =
  hd_id :: u64
  hd_display :: string
  hd_state :: vm_state

definition VmHandleDto_from :: "vm_handle \<Rightarrow> vm_handle_dto" where
  "VmHandleDto_from h = \<lparr>hd_id = vm_h_id h, hd_display = VmId_display (vm_h_id h), hd_state = vm_h_state h\<rparr>"

record fork_response_dto =
  fr_vm :: vm_handle_dto
  fr_fork_ms :: u64
  fr_fork_count :: u64
  fr_fork_total_ms :: u64

record usage_response_dto =
  ur_token :: string
  ur_fork_count :: u64
  ur_fork_total_ms :: u64

record vm_list_entry =
  ve_id :: u64
  ve_display :: string
  ve_state :: vm_state
  ve_vcpus :: "u32 option"
  ve_memory_mib :: "u64 option"
  ve_kernel_cmdline :: "string option"
  ve_snapshot_dir :: "path option"

record vm_list_response =
  vl_vms :: "vm_list_entry list"
  vl_next :: "u64 option"

definition VmListEntry_id_only :: "vm_handle \<Rightarrow> vm_list_entry" where
  "VmListEntry_id_only h =
     \<lparr>ve_id = vm_h_id h, ve_display = VmId_display (vm_h_id h), ve_state = vm_h_state h, ve_vcpus = None,
      ve_memory_mib = None, ve_kernel_cmdline = None, ve_snapshot_dir = None\<rparr>"

definition VmListEntry_from_meta :: "vm_meta \<Rightarrow> vm_list_entry" where
  "VmListEntry_from_meta m =
     \<lparr>ve_id = vmm_id m, ve_display = VmId_display (vmm_id m), ve_state = vmm_state m, ve_vcpus = Some (vmm_vcpus m),
      ve_memory_mib = Some (vmm_memory_mib m), ve_kernel_cmdline = Some (vmm_kernel_cmdline m),
      ve_snapshot_dir = vmm_snapshot_dir m\<rparr>"

definition VmStateResponse_new :: "vm_id \<Rightarrow> vm_state \<Rightarrow> vm_handle_dto" where
  "VmStateResponse_new i st = \<lparr>hd_id = i, hd_display = VmId_display i, hd_state = st\<rparr>"

definition DEFAULT_LIST_LIMIT :: u32 where "DEFAULT_LIST_LIMIT = 100"
definition MAX_LIST_LIMIT :: u32 where "MAX_LIST_LIMIT = 1000"

record list_query =
  lq_limit :: "u32 option"
  lq_after :: "u64 option"

definition validated_limit :: "list_query \<Rightarrow> (('j, 'io, 'r) api_error, u32) result" where
  "validated_limit q =
     (case lq_limit q of
        None \<Rightarrow> Ok DEFAULT_LIST_LIMIT
      | Some n \<Rightarrow> if n = 0 then Err (Bad LimitZero)
                 else if n > MAX_LIST_LIMIT then Err (Bad (LimitTooLarge MAX_LIST_LIMIT)) else Ok n)"

record snapshot_dto =
  sd_id :: u64
  sd_display :: string
  sd_dir :: "path option"

definition SnapshotDto_from :: "snapshot_id \<Rightarrow> snapshot_dto" where
  "SnapshotDto_from k = \<lparr>sd_id = k, sd_display = SnapshotId_display k, sd_dir = None\<rparr>"

record snapshot_list_entry =
  se_id :: u64
  se_display :: string
  se_vcpu_count :: "u32 option"
  se_memory_bytes :: "u64 option"
  se_page_size :: "u32 option"
  se_kernel_cmdline :: "string option"

record snapshot_list_response =
  sl_snapshots :: "snapshot_list_entry list"
  sl_next :: "u64 option"

definition SnapshotListEntry_id_only :: "snapshot_id \<Rightarrow> snapshot_list_entry" where
  "SnapshotListEntry_id_only k =
     \<lparr>se_id = k, se_display = SnapshotId_display k, se_vcpu_count = None, se_memory_bytes = None,
      se_page_size = None, se_kernel_cmdline = None\<rparr>"

definition SnapshotListEntry_from_meta :: "snapshot_meta \<Rightarrow> snapshot_list_entry" where
  "SnapshotListEntry_from_meta m =
     \<lparr>se_id = sme_id m, se_display = SnapshotId_display (sme_id m), se_vcpu_count = Some (sme_vcpu_count m),
      se_memory_bytes = Some (sme_memory_bytes m), se_page_size = Some (sme_page_size m),
      se_kernel_cmdline = Some (sme_kernel_cmdline m)\<rparr>"

record exec_response =
  er_exit_code :: "int option"
  er_signal :: "int option"
  er_stdout :: string
  er_stderr :: string
  er_duration_ms :: u64

definition ExecResponse_from :: "guest_exec_result \<Rightarrow> exec_response" where
  "ExecResponse_from r =
     \<lparr>er_exit_code = gex_exit_code r, er_signal = gex_signal r, er_stdout = from_utf8_lossy (gex_stdout r),
      er_stderr = from_utf8_lossy (gex_stderr r), er_duration_ms = gex_duration_ms r\<rparr>"

record file_write_request =
  fw_path :: string
  fw_content :: bytes
  fw_mode :: u32

subsection \<open>State\<close>

record fork_usage =
  fu_count :: u64
  fu_total_ms :: u64

definition ForkUsage_default :: fork_usage where "ForkUsage_default = \<lparr>fu_count = 0, fu_total_ms = 0\<rparr>"

text \<open>The shared state, with the file system of the host beside it.\<close>

record 'f app_state =
  as_fs :: 'f
  as_hv :: mock_hv
  as_fork_usage :: "string \<rightharpoonup> fork_usage"
  as_fork_quota :: fork_quota
  as_metrics :: metrics
  as_warm_pool :: warm_pool
  as_ownership :: in_memory_store
  as_vm_defaults :: vm_config_defaults

definition VmConfigDefaults_default :: vm_config_defaults where
  "VmConfigDefaults_default = \<lparr>vd_kernel = None, vd_rootfs = None, vd_cmdline = None\<rparr>"

definition with_fork_quota :: "'f \<Rightarrow> mock_hv \<Rightarrow> fork_quota \<Rightarrow> 'f app_state" where
  "with_fork_quota fs hv q =
     \<lparr>as_fs = fs, as_hv = hv, as_fork_usage = Map.empty, as_fork_quota = q, as_metrics = Metrics_new,
      as_warm_pool = WarmPool_disabled, as_ownership = InMemoryStore_default,
      as_vm_defaults = VmConfigDefaults_default\<rparr>"

definition with_vm_defaults :: "vm_config_defaults \<Rightarrow> 'f app_state \<Rightarrow> 'f app_state" where
  "with_vm_defaults d s = s\<lparr>as_vm_defaults := d\<rparr>"

definition with_warm_pool_size :: "nat \<Rightarrow> 'f app_state \<Rightarrow> 'f app_state" where
  "with_warm_pool_size per_snapshot s =
     (if per_snapshot > 0 then s\<lparr>as_warm_pool := WarmPool_new per_snapshot\<rparr> else s)"

record ('j, 'io, 'f, 'c) platform =
  pf_fs :: "('io, 'f) fs_ops"
  pf_from_slice :: "bytes \<Rightarrow> ('j, manifest) result"
  pf_to_vec :: "manifest \<Rightarrow> ('j, bytes) result"
  pf_env :: host_env
  pf_exec :: "('io, 'c) exec_host"
  pf_snapshot_request :: "bytes \<Rightarrow> (string, path option) result"
  pf_sandbox_snapshot_id :: "string option"

text \<open>What one call reads from the outside: clocks (in nanoseconds, the elapsed time in
  milliseconds), hash-map orders, the outcome of the token file write, random strings.\<close>

record call_ctx =
  cc_token_created :: nat
  cc_token_now :: nat
  cc_org_created :: nat
  cc_org_now :: nat
  cc_elapsed_ms :: nat
  cc_vm_order :: "vm_id list"
  cc_snapshot_order :: "snapshot_id list"
  cc_token_order :: "string list"
  cc_write_ok :: bool
  cc_new_token :: string
  cc_new_token_id :: token_id
  cc_created_at :: string

subsection \<open>VM handlers\<close>

type_synonym ('j, 'io, 'r, 'f, 'a) handler = "'f app_state \<Rightarrow> 'f app_state \<times> (('j, 'io, 'r) api_error, 'a) result"

definition create_vm_handler ::
    "('j, 'io, 'f, 'c) platform \<Rightarrow> org_id \<Rightarrow> ('r, create_vm_request) result \<Rightarrow>
     ('j, 'io, 'r, 'f, vm_handle_dto) handler" where
  "create_vm_handler P org body s =
     (case body of
        Inl r \<Rightarrow> (s, Err (BadJson r))
      | Inr req \<Rightarrow>
          let cfg = apply_to (as_vm_defaults s) (VmConfig_from req)
          in case create_vm (pf_fs P) (pf_from_slice P) (pf_env P) (as_fs s) (as_hv s) cfg of
               (hv, Inl e) \<Rightarrow> (s\<lparr>as_hv := hv\<rparr>, Err (Vm e))
             | (hv, Inr h) \<Rightarrow>
                 (s\<lparr>as_hv := hv, as_ownership := record_vm (as_ownership s) (vm_h_id h) org\<rparr>, Ok (VmHandleDto_from h)))"

text \<open>Sort by id, drop everything up to \<open>after\<close>, cut at the limit; and whether more is left.\<close>

definition page :: "('a \<Rightarrow> u64) \<Rightarrow> u64 \<Rightarrow> u32 \<Rightarrow> 'a list \<Rightarrow> 'a list \<times> bool" where
  "page ident after limit xs =
     (let filtered = filter (\<lambda>x. ident x > after) (sort_key ident xs)
      in (take (unat limit) filtered, length filtered > unat limit))"

definition list_vms_handler ::
    "call_ctx \<Rightarrow> org_id \<Rightarrow> list_query \<Rightarrow> 'f app_state \<Rightarrow> (('j, 'io, 'r) api_error, vm_list_response) result" where
  "list_vms_handler C org query s =
     and_then (validated_limit query) (\<lambda>limit.
       let after = (case lq_after query of None \<Rightarrow> 0 | Some a \<Rightarrow> a)
       in and_then (map_err Vm (list_vms (cc_vm_order C) (as_hv s))) (\<lambda>handles.
            let handles = filter (\<lambda>h. vm_owner (as_ownership s) (vm_h_id h) = org) handles;
                (filtered, has_more) = page vm_h_id after limit handles
            in and_then
                 (try_map (\<lambda>h.
                    case vm_meta_of (as_hv s) (vm_h_id h) of
                      Inr meta \<Rightarrow> Ok (VmListEntry_from_meta meta)
                    | Inl (Unsupported _) \<Rightarrow> Ok (VmListEntry_id_only h)
                    | Inl (UnknownVm _) \<Rightarrow> Ok (VmListEntry_id_only h)
                    | Inl e \<Rightarrow> Err (Vm e)) filtered)
                 (\<lambda>vms. Ok \<lparr>vl_vms = vms,
                    vl_next = (if has_more \<and> vms \<noteq> [] then Some (ve_id (last vms)) else None)\<rparr>)))"

text \<open>The path, then the access check: the start of every handler of one VM or snapshot.\<close>

definition checked_vm ::
    "org_id \<Rightarrow> ('r, u64) result \<Rightarrow> 'f app_state \<Rightarrow> (('j, 'io, 'r) api_error, vm_id) result" where
  "checked_vm org i s =
     and_then (map_err BadPath i) (\<lambda>vm. and_then (require_vm_access (as_ownership s) vm org) (\<lambda>_. Ok vm))"

definition checked_snapshot ::
    "org_id \<Rightarrow> ('r, u64) result \<Rightarrow> 'f app_state \<Rightarrow> (('j, 'io, 'r) api_error, snapshot_id) result" where
  "checked_snapshot org i s =
     and_then (map_err BadPath i) (\<lambda>k. and_then (require_snapshot_access (as_ownership s) k org) (\<lambda>_. Ok k))"

definition get_vm ::
    "org_id \<Rightarrow> ('r, u64) result \<Rightarrow> 'f app_state \<Rightarrow> (('j, 'io, 'r) api_error, vm_handle_dto) result" where
  "get_vm org i s =
     and_then (checked_vm org i s) (\<lambda>vm.
     and_then (map_err Vm (state (as_hv s) vm)) (\<lambda>st. Ok (VmStateResponse_new vm st)))"

definition start_vm :: "org_id \<Rightarrow> ('r, u64) result \<Rightarrow> ('j, 'io, 'r, 'f, unit) handler" where
  "start_vm org i s =
     (case checked_vm org i s of
        Inl e \<Rightarrow> (s, Err e)
      | Inr vm \<Rightarrow> let (hv, r) = start (as_hv s) vm in (s\<lparr>as_hv := hv\<rparr>, map_err Vm r))"

definition stop_vm :: "org_id \<Rightarrow> ('r, u64) result \<Rightarrow> ('j, 'io, 'r, 'f, unit) handler" where
  "stop_vm org i s =
     (case checked_vm org i s of
        Inl e \<Rightarrow> (s, Err e)
      | Inr vm \<Rightarrow> let (hv, r) = stop (as_hv s) vm in (s\<lparr>as_hv := hv\<rparr>, map_err Vm r))"

definition destroy_vm ::
    "('j, 'io, 'f, 'c) platform \<Rightarrow> org_id \<Rightarrow> role \<Rightarrow> ('r, u64) result \<Rightarrow> ('j, 'io, 'r, 'f, unit) handler" where
  "destroy_vm P org role i s =
     (case and_then (require_role role Developer) (\<lambda>_. checked_vm org i s) of
        Inl e \<Rightarrow> (s, Err e)
      | Inr vm \<Rightarrow>
          (case destroy (pf_fs P) (as_fs s) (as_hv s) vm of
             (fs, hv, Inl e) \<Rightarrow> (s\<lparr>as_fs := fs, as_hv := hv\<rparr>, Err (Vm e))
           | (fs, hv, Inr _) \<Rightarrow>
               (s\<lparr>as_fs := fs, as_hv := hv, as_ownership := forget_vm (as_ownership s) vm\<rparr>, Ok ())))"

definition snapshot_vm ::
    "('j, 'io, 'f, 'c) platform \<Rightarrow> org_id \<Rightarrow> ('r, u64) result \<Rightarrow> bytes \<Rightarrow> ('j, 'io, 'r, 'f, snapshot_dto) handler" where
  "snapshot_vm P org i body s =
     (case checked_vm org i s of
        Inl e \<Rightarrow> (s, Err e)
      | Inr vm \<Rightarrow>
          (case (if body = [] then Ok None else map_err (\<lambda>m. Bad (SnapshotBody m)) (pf_snapshot_request P body)) of
             Inl e \<Rightarrow> (s, Err e)
           | Inr to_dir \<Rightarrow>
               (case snapshot (as_hv s) vm of
                  (hv, Inl e) \<Rightarrow> (s\<lparr>as_hv := hv\<rparr>, Err (Vm e))
                | (hv, Inr snap) \<Rightarrow>
                    let s = s\<lparr>as_hv := hv, as_ownership := record_snapshot (as_ownership s) snap org\<rparr>;
                        dto = SnapshotDto_from snap
                    in case to_dir of
                         None \<Rightarrow> (s, Ok dto)
                       | Some dir \<Rightarrow>
                           (case snapshot_meta_of (as_hv s) snap of
                              Inl e \<Rightarrow> (s, Err (Vm e))
                            | Inr meta \<Rightarrow>
                                let manifest = (Manifest_new (sme_id meta) (sme_memory_bytes meta) (sme_page_size meta)
                                      (sme_vcpu_count meta))\<lparr>mf_kernel_cmdline := sme_kernel_cmdline meta\<rparr>
                                in case Manifest_write_to_dir (pf_fs P) (pf_to_vec P) manifest dir (as_fs s) of
                                     (fs, Inl e) \<Rightarrow> (s\<lparr>as_fs := fs\<rparr>, Err (Vm (Backend (SnapshotPersist e))))
                                   | (fs, Inr _) \<Rightarrow> (s\<lparr>as_fs := fs\<rparr>, Ok (dto\<lparr>sd_dir := Some dir\<rparr>))))))"

definition exec_vm ::
    "('j, 'io, 'f, 'c) platform \<Rightarrow> org_id \<Rightarrow> ('r, u64) result \<Rightarrow> ('r, guest_exec_request) result \<Rightarrow>
     'f app_state \<Rightarrow> (('j, 'io, 'r) api_error, exec_response) result" where
  "exec_vm P org i body s =
     and_then (checked_vm org i s) (\<lambda>vm.
     and_then (map_err BadJson body) (\<lambda>req.
     and_then (map_err Vm (exec_in_guest (pf_exec P) (as_hv s) vm req)) (\<lambda>r. Ok (ExecResponse_from r))))"

definition write_file_handler ::
    "('j, 'io, 'f, 'c) platform \<Rightarrow> org_id \<Rightarrow> ('r, u64) result \<Rightarrow> ('r, file_write_request) result \<Rightarrow>
     ('j, 'io, 'r, 'f, u64) handler" where
  "write_file_handler P org i body s =
     (case and_then (checked_vm org i s) (\<lambda>vm. and_then (map_err BadJson body) (\<lambda>req. Ok (vm, req))) of
        Inl e \<Rightarrow> (s, Err e)
      | Inr (vm, req) \<Rightarrow>
          let (fs, r) = write_file (pf_fs P) (as_fs s) (as_hv s) vm (fw_path req) (fw_content req) (fw_mode req)
          in (s\<lparr>as_fs := fs\<rparr>, map_err Vm r))"

definition read_file_handler ::
    "('j, 'io, 'f, 'c) platform \<Rightarrow> org_id \<Rightarrow> ('r, u64) result \<Rightarrow> (string, string) result \<Rightarrow>
     'f app_state \<Rightarrow> (('j, 'io, 'r) api_error, bytes) result" where
  "read_file_handler P org i query s =
     and_then (checked_vm org i s) (\<lambda>vm.
     and_then (map_err (\<lambda>e. Bad (BadQuery e)) query) (\<lambda>q.
       map_err Vm (read_file (pf_fs P) (as_fs s) (as_hv s) vm q)))"

subsection \<open>Snapshot handlers\<close>

definition list_snapshots_handler ::
    "call_ctx \<Rightarrow> org_id \<Rightarrow> list_query \<Rightarrow> 'f app_state \<Rightarrow> (('j, 'io, 'r) api_error, snapshot_list_response) result" where
  "list_snapshots_handler C org query s =
     and_then (validated_limit query) (\<lambda>limit.
       let after = (case lq_after query of None \<Rightarrow> 0 | Some a \<Rightarrow> a)
       in and_then (map_err Vm (list_snapshots (cc_snapshot_order C) (as_hv s))) (\<lambda>ids.
            let ids = filter (\<lambda>k. snapshot_owner (as_ownership s) k = org) ids;
                (filtered, has_more) = page id after limit ids
            in and_then
                 (try_map (\<lambda>k.
                    case snapshot_meta_of (as_hv s) k of
                      Inr meta \<Rightarrow> Ok (SnapshotListEntry_from_meta meta)
                    | Inl (Unsupported _) \<Rightarrow> Ok (SnapshotListEntry_id_only k)
                    | Inl (UnknownSnapshot _) \<Rightarrow> Ok (SnapshotListEntry_id_only k)
                    | Inl e \<Rightarrow> Err (Vm e)) filtered)
                 (\<lambda>snapshots. Ok \<lparr>sl_snapshots = snapshots,
                    sl_next = (if has_more \<and> snapshots \<noteq> [] then Some (se_id (last snapshots)) else None)\<rparr>)))"

definition restore_snapshot ::
    "('j, 'io, 'f, 'c) platform \<Rightarrow> org_id \<Rightarrow> ('r, u64) result \<Rightarrow> ('j, 'io, 'r, 'f, vm_handle_dto) handler" where
  "restore_snapshot P org i s =
     (case checked_snapshot org i s of
        Inl e \<Rightarrow> (s, Err e)
      | Inr k \<Rightarrow>
          (case restore (pf_env P) (as_hv s) k of
             (hv, Inl e) \<Rightarrow> (s\<lparr>as_hv := hv\<rparr>, Err (Vm e))
           | (hv, Inr h) \<Rightarrow>
               (s\<lparr>as_hv := hv, as_ownership := record_vm (as_ownership s) (vm_h_id h) org\<rparr>, Ok (VmHandleDto_from h))))"

definition delete_snapshot_handler ::
    "('j, 'io, 'f, 'c) platform \<Rightarrow> org_id \<Rightarrow> role \<Rightarrow> ('r, u64) result \<Rightarrow> ('j, 'io, 'r, 'f, unit) handler" where
  "delete_snapshot_handler P org role i s =
     (case and_then (require_role role Developer) (\<lambda>_. checked_snapshot org i s) of
        Inl e \<Rightarrow> (s, Err e)
      | Inr k \<Rightarrow>
          let (fs, hv, p) = drain (pf_fs P) (as_fs s) (as_hv s) (as_warm_pool s) k;
              s = s\<lparr>as_fs := fs, as_hv := hv, as_warm_pool := p\<rparr>
          in case delete_snapshot (as_hv s) k of
               (hv, Inl e) \<Rightarrow> (s\<lparr>as_hv := hv\<rparr>, Err (Vm e))
             | (hv, Inr _) \<Rightarrow>
                 (s\<lparr>as_hv := hv, as_ownership := forget_snapshot (as_ownership s) k\<rparr>, Ok ()))"

definition strip_prefix :: "string \<Rightarrow> string \<Rightarrow> string option" where
  "strip_prefix p s = (if take (length p) s = p then Some (drop (length p) s) else None)"

definition extract_bearer :: "string option \<Rightarrow> string option" where
  "extract_bearer authorization =
     Option.bind (Option.bind authorization header_to_str) (strip_prefix ''Bearer '')"

text \<open>A readable header is ASCII, so its characters are its bytes.\<close>

definition token_fingerprint :: "string \<Rightarrow> string" where
  "token_fingerprint token = ''tok-'' @ take 4 token @ ''-'' @ dec (length token)"

definition bearer_fingerprint :: "string option \<Rightarrow> string" where
  "bearer_fingerprint bearer = (case bearer of None \<Rightarrow> ''anonymous'' | Some t \<Rightarrow> token_fingerprint t)"

definition saturating_add :: "'a::len word \<Rightarrow> 'a word \<Rightarrow> 'a word" where
  "saturating_add a b = (case checked_add a b of Some c \<Rightarrow> c | None \<Rightarrow> -1)"

text \<open>The warm pool first, the hypervisor when it has nothing; \<open>True\<close> for a cold restore.\<close>

definition acquire_vm ::
    "('j, 'io, 'f, 'c) platform \<Rightarrow> snapshot_id \<Rightarrow> ('j, 'io, 'r, 'f, vm_handle \<times> bool) handler" where
  "acquire_vm P k s =
     (case take_warm (as_warm_pool s) k of
        (p, Some h) \<Rightarrow> (s\<lparr>as_warm_pool := p, as_metrics := record_warm_hit (as_metrics s)\<rparr>, Ok (h, False))
      | (p, None) \<Rightarrow>
          let s = s\<lparr>as_warm_pool := p, as_metrics := record_warm_miss (as_metrics s)\<rparr>
          in case restore (pf_env P) (as_hv s) k of
               (hv, Inl e) \<Rightarrow> (s\<lparr>as_hv := hv\<rparr>, Err (Vm e))
             | (hv, Inr h) \<Rightarrow> (s\<lparr>as_hv := hv\<rparr>, Ok (h, True)))"

definition charge_fork :: "string option \<Rightarrow> org_id \<Rightarrow> u64 \<Rightarrow> 'f app_state \<Rightarrow> 'f app_state \<times> fork_usage" where
  "charge_fork bearer org fork_ms s =
     (let s = s\<lparr>as_metrics := record_fork (as_metrics s) (bearer_fingerprint bearer) org fork_ms\<rparr>
      in case bearer of
           None \<Rightarrow> (s, \<lparr>fu_count = 1, fu_total_ms = fork_ms\<rparr>)
         | Some token \<Rightarrow>
             let entry = (case as_fork_usage s token of None \<Rightarrow> ForkUsage_default | Some u \<Rightarrow> u);
                 entry = \<lparr>fu_count = saturating_add (fu_count entry) 1, fu_total_ms = saturating_add (fu_total_ms entry) fork_ms\<rparr>
             in (s\<lparr>as_fork_usage := (as_fork_usage s)(token \<mapsto> entry)\<rparr>, entry))"

definition fork_snapshot ::
    "('j, 'io, 'f, 'c) platform \<Rightarrow> call_ctx \<Rightarrow> org_id \<Rightarrow> ('r, u64) result \<Rightarrow> string option \<Rightarrow>
     ('j, 'io, 'r, 'f, fork_response_dto) handler" where
  "fork_snapshot P C org i authorization s =
     (case checked_snapshot org i s of
        Inl e \<Rightarrow> (s, Err e)
      | Inr k \<Rightarrow>
          let bearer = extract_bearer authorization in
          (case try_acquire (cc_token_created C) (cc_token_now C) (as_fork_quota s) bearer of
             (q, Inl retry) \<Rightarrow>
               (s\<lparr>as_fork_quota := q, as_metrics := record_throttled (as_metrics s) (bearer_fingerprint bearer) org\<rparr>,
                Err (TooManyRequests False retry))
           | (q, Inr _) \<Rightarrow>
               let s = s\<lparr>as_fork_quota := q\<rparr> in
               (case try_acquire_org (cc_org_created C) (cc_org_now C) (as_fork_quota s) org None None of
                  (q, Inl retry) \<Rightarrow>
                    (s\<lparr>as_fork_quota := q, as_metrics := record_throttled (as_metrics s) (bearer_fingerprint bearer) org\<rparr>,
                     Err (TooManyRequests True retry))
                | (q, Inr _) \<Rightarrow>
                    let s = s\<lparr>as_fork_quota := q\<rparr> in
                    (case acquire_vm P k s of
                       (s, Inl e) \<Rightarrow> (s, Err e)
                     | (s, Inr (h, cold)) \<Rightarrow>
                         let s = s\<lparr>as_ownership := record_vm (as_ownership s) (vm_h_id h) org\<rparr>;
                             fork_ms = of_nat (cc_elapsed_ms C);
                             (s, u) = charge_fork bearer org fork_ms s
                         in (s, Ok \<lparr>fr_vm = VmHandleDto_from h, fr_fork_ms = fork_ms, fr_fork_count = fu_count u,
                                    fr_fork_total_ms = fu_total_ms u\<rparr>)))))"

definition usage :: "string option \<Rightarrow> 'f app_state \<Rightarrow> (('j, 'io, 'r) api_error, usage_response_dto) result" where
  "usage authorization s =
     and_then (ok_or (Unauthorized MissingBearerForUsage) (extract_bearer authorization)) (\<lambda>token.
       let entry = (case as_fork_usage s token of None \<Rightarrow> ForkUsage_default | Some u \<Rightarrow> u)
       in Ok \<lparr>ur_token = token_fingerprint token, ur_fork_count = fu_count entry, ur_fork_total_ms = fu_total_ms entry\<rparr>)"

definition usage_by_org :: "org_id \<Rightarrow> bool option \<Rightarrow> 'f app_state \<Rightarrow> (string \<times> u64 \<times> u64) list" where
  "usage_by_org org all s =
     (let want_all = (case all of None \<Rightarrow> False | Some b \<Rightarrow> b); is_operator = (org = default_org)
      in filter (\<lambda>(org_id, _, _). want_all \<and> is_operator \<or> org_id = org) (forks_by_org_snapshot (as_metrics s)))"

subsection \<open>Sandbox\<close>

datatype sandbox_action =
    ExecutePython string "u64 option"
  | ExecuteShell string "u64 option"
  | ReadFileAction string
  | WriteFileAction string string "u32 option"
  | ListFiles string

record sandbox_invoke_request =
  si_snapshot :: "u64 option"
  si_action :: sandbox_action

record dispatch_outcome =
  do_stdout :: string
  do_stderr :: string
  do_exit_code :: int

record sandbox_result =
  sr_outcome :: dispatch_outcome
  sr_duration_ms :: u64
  sr_cold_start :: bool

text \<open>\<^verbatim>\<open>str::parse::<u64>\<close>: an optional plus sign, then digits only, within range.\<close>

definition parse_u64 :: "string \<Rightarrow> u64 option" where
  "parse_u64 s =
     (let ds = (case s of c # cs \<Rightarrow> if c = CHR ''+'' then cs else s | [] \<Rightarrow> []);
          n = foldl (\<lambda>a c. 10 * a + (of_char c - 48)) 0 ds :: nat
      in if ds \<noteq> [] \<and> list_all (\<lambda>c. 48 \<le> (of_char c :: nat) \<and> (of_char c :: nat) < 58) ds \<and> n < 2 ^ 64
         then Some (of_nat n) else None)"

definition resolve_snapshot_with ::
    "u64 option \<Rightarrow> string option \<Rightarrow> (('j, 'io, 'r) api_error, snapshot_id) result" where
  "resolve_snapshot_with req_snapshot env_value =
     (case req_snapshot of
        Some k \<Rightarrow> Ok k
      | None \<Rightarrow>
          (case env_value of
             Some v \<Rightarrow> ok_or (Bad (BadSnapshotEnv v)) (parse_u64 v)
           | None \<Rightarrow> Err (Bad NoSnapshotId)))"

definition DispatchOutcome_from_exec :: "guest_exec_result \<Rightarrow> dispatch_outcome" where
  "DispatchOutcome_from_exec r =
     \<lparr>do_stdout = from_utf8_lossy (gex_stdout r), do_stderr = from_utf8_lossy (gex_stderr r),
      do_exit_code = (case (gex_exit_code r, gex_signal r) of
          (Some code, _) \<Rightarrow> code
        | (None, Some sig) \<Rightarrow> signed_take_bit 31 (128 + sig)
        | (None, None) \<Rightarrow> -1)\<rparr>"

definition sandbox_exec ::
    "('j, 'io, 'f, 'c) platform \<Rightarrow> vm_id \<Rightarrow> string \<Rightarrow> string list \<Rightarrow> u64 option \<Rightarrow>
     ('j, 'io, 'r, 'f, dispatch_outcome) handler" where
  "sandbox_exec P vm program args timeout_ms s =
     (s, map_sum Vm DispatchOutcome_from_exec (exec_in_guest (pf_exec P) (as_hv s) vm
        \<lparr>ger_program = program, ger_args = args, ger_cwd = None, ger_env = [], ger_timeout_ms = timeout_ms\<rparr>))"

definition sandbox_dispatch ::
    "('j, 'io, 'f, 'c) platform \<Rightarrow> vm_id \<Rightarrow> sandbox_action \<Rightarrow> ('j, 'io, 'r, 'f, dispatch_outcome) handler" where
  "sandbox_dispatch P vm action s =
     (case action of
        ExecutePython code timeout_ms \<Rightarrow> sandbox_exec P vm ''python3'' [''-c'', code] timeout_ms s
      | ExecuteShell command timeout_ms \<Rightarrow> sandbox_exec P vm ''sh'' [''-c'', command] timeout_ms s
      | ReadFileAction p \<Rightarrow>
          (s, map_sum Vm (\<lambda>bytes. \<lparr>do_stdout = from_utf8_lossy bytes, do_stderr = [], do_exit_code = 0\<rparr>)
             (read_file (pf_fs P) (as_fs s) (as_hv s) vm p))
      | WriteFileAction p content mode \<Rightarrow>
          let mode = (case mode of None \<Rightarrow> 420 | Some m \<Rightarrow> m);
              (fs, r) = write_file (pf_fs P) (as_fs s) (as_hv s) vm p (into_bytes content) mode
          in (s\<lparr>as_fs := fs\<rparr>,
              map_sum Vm (\<lambda>bytes. \<lparr>do_stdout = ''bytes_written='' @ dec (unat bytes), do_stderr = [], do_exit_code = 0\<rparr>) r)
      | ListFiles p \<Rightarrow> sandbox_exec P vm ''ls'' [''-1'', ''--'', p] None s)"

definition sandbox_invoke ::
    "('j, 'io, 'f, 'c) platform \<Rightarrow> call_ctx \<Rightarrow> org_id \<Rightarrow> ('r, sandbox_invoke_request) result \<Rightarrow>
     ('j, 'io, 'r, 'f, sandbox_result) handler" where
  "sandbox_invoke P C org body s =
     (case and_then (map_err BadJson body) (\<lambda>req.
             and_then (resolve_snapshot_with (si_snapshot req) (pf_sandbox_snapshot_id P)) (\<lambda>k.
             and_then (require_snapshot_access (as_ownership s) k org) (\<lambda>_. Ok (req, k)))) of
        Inl e \<Rightarrow> (s, Err e)
      | Inr (req, k) \<Rightarrow>
          (case acquire_vm P k s of
             (s, Inl e) \<Rightarrow> (s, Err e)
           | (s, Inr (h, cold_start)) \<Rightarrow>
               let vm = vm_h_id h;
                   s = s\<lparr>as_ownership := record_vm (as_ownership s) vm org\<rparr>;
                   (s, outcome) = sandbox_dispatch P vm (si_action req) s;
                   (fs, hv, _) = (destroy (pf_fs P) (as_fs s) (as_hv s) vm :: _ \<times> _ \<times> (('j, 'io) vm_error, unit) result);
                   s = s\<lparr>as_fs := fs, as_hv := hv, as_ownership := forget_vm (as_ownership s) vm\<rparr>
               in (s, map_sum id (\<lambda>d. \<lparr>sr_outcome = d, sr_duration_ms = of_nat (cc_elapsed_ms C), sr_cold_start = cold_start\<rparr>)
                        outcome)))"

subsection \<open>The router\<close>

datatype 'r request =
    CreateVm "('r, create_vm_request) result"
  | ListVms list_query
  | GetVm "('r, u64) result"
  | StartVm "('r, u64) result"
  | StopVm "('r, u64) result"
  | DestroyVm "('r, u64) result"
  | SnapshotVm "('r, u64) result" bytes
  | ExecVm "('r, u64) result" "('r, guest_exec_request) result"
  | WriteFile "('r, u64) result" "('r, file_write_request) result"
  | ReadFile "('r, u64) result" "(string, string) result"
  | SandboxInvoke "('r, sandbox_invoke_request) result"
  | ListSnapshots list_query
  | DeleteSnapshot "('r, u64) result"
  | RestoreSnapshot "('r, u64) result"
  | ForkSnapshot "('r, u64) result"
  | Usage
  | UsageByOrg "bool option"
  | ListKeys
  | IssueKey
  | RevokeKey "('r, token_id) result"

datatype response =
    VmHandleBody vm_handle_dto
  | VmListBody vm_list_response
  | NoContent
  | SnapshotBody snapshot_dto
  | ExecBody exec_response
  | FileWritten u64
  | FileRead bytes
  | SandboxBody sandbox_result
  | SnapshotListBody snapshot_list_response
  | ForkBody fork_response_dto
  | UsageBody usage_response_dto
  | UsageByOrgBody "(string \<times> u64 \<times> u64) list"
  | KeyListBody "runtime_token_info list"
  | KeyBody issued_token

text \<open>The server: the token store beside the state of the handlers.\<close>

record 'f server =
  sv_tokens :: api_tokens
  sv_app :: "'f app_state"

definition on_app :: "('j, 'io, 'r, 'f, 'a) handler \<Rightarrow> ('a \<Rightarrow> response) \<Rightarrow> 'f server \<Rightarrow>
    'f server \<times> (('j, 'io, 'r) api_error, response) result" where
  "on_app h f s = (let (a, r) = h (sv_app s) in (s\<lparr>sv_app := a\<rparr>, map_sum id f r))"

definition query_app :: "('f app_state \<Rightarrow> (('j, 'io, 'r) api_error, 'a) result) \<Rightarrow> ('a \<Rightarrow> response) \<Rightarrow> 'f server \<Rightarrow>
    'f server \<times> (('j, 'io, 'r) api_error, response) result" where
  "query_app h f s = (s, map_sum id f (h (sv_app s)))"

fun route ::
    "('j, 'io, 'f, 'c) platform \<Rightarrow> call_ctx \<Rightarrow> org_id \<Rightarrow> role \<Rightarrow> string option \<Rightarrow> 'r request \<Rightarrow> 'f server \<Rightarrow>
     'f server \<times> (('j, 'io, 'r) api_error, response) result" where
  "route P C org role auth (CreateVm body) s = on_app (create_vm_handler P org body) VmHandleBody s"
| "route P C org role auth (ListVms q) s = query_app (list_vms_handler C org q) VmListBody s"
| "route P C org role auth (GetVm i) s = query_app (get_vm org i) VmHandleBody s"
| "route P C org role auth (StartVm i) s = on_app (start_vm org i) (\<lambda>_. NoContent) s"
| "route P C org role auth (StopVm i) s = on_app (stop_vm org i) (\<lambda>_. NoContent) s"
| "route P C org role auth (DestroyVm i) s = on_app (destroy_vm P org role i) (\<lambda>_. NoContent) s"
| "route P C org role auth (SnapshotVm i body) s = on_app (snapshot_vm P org i body) SnapshotBody s"
| "route P C org role auth (ExecVm i body) s = query_app (exec_vm P org i body) ExecBody s"
| "route P C org role auth (WriteFile i body) s = on_app (write_file_handler P org i body) FileWritten s"
| "route P C org role auth (ReadFile i q) s = query_app (read_file_handler P org i q) FileRead s"
| "route P C org role auth (SandboxInvoke body) s = on_app (sandbox_invoke P C org body) SandboxBody s"
| "route P C org role auth (ListSnapshots q) s = query_app (list_snapshots_handler C org q) SnapshotListBody s"
| "route P C org role auth (DeleteSnapshot i) s = on_app (delete_snapshot_handler P org role i) (\<lambda>_. NoContent) s"
| "route P C org role auth (RestoreSnapshot i) s = on_app (restore_snapshot P org i) VmHandleBody s"
| "route P C org role auth (ForkSnapshot i) s = on_app (fork_snapshot P C org i auth) ForkBody s"
| "route P C org role auth Usage s = query_app (usage auth) UsageBody s"
| "route P C org role auth (UsageByOrg all) s = query_app (\<lambda>a. Ok (usage_by_org org all a)) UsageByOrgBody s"
| "route P C org role auth ListKeys s = (s, Ok (KeyListBody (list_keys (cc_token_order C) (sv_tokens s) org)))"
| "route P C org role auth IssueKey s =
     (let (t, r) = issue_key (cc_token_order C) (cc_write_ok C) (cc_new_token C) (cc_new_token_id C) (cc_created_at C)
            (sv_tokens s) org role
      in (s\<lparr>sv_tokens := t\<rparr>, map_sum id KeyBody r))"
| "route P C org role auth (RevokeKey i) s =
     (let (t, r) = revoke_key (cc_token_order C) (cc_write_ok C) (sv_tokens s) org role i
      in (s\<lparr>sv_tokens := t\<rparr>, map_sum id (\<lambda>_. NoContent) r))"

text \<open>A call under \<^verbatim>\<open>/v1\<close>: the token middleware, then the handler.\<close>

definition v1_call ::
    "('j, 'io, 'f, 'c) platform \<Rightarrow> call_ctx \<Rightarrow> string option \<Rightarrow> 'r request \<Rightarrow> 'f server \<Rightarrow>
     'f server \<times> (('j, 'io, 'r) api_error, response) result" where
  "v1_call P C auth req s =
     (case require_token (Some (sv_tokens s)) auth of
        Inl e \<Rightarrow> (s, Err e)
      | Inr (org, role) \<Rightarrow> route P C org role auth req s)"

end
