(* ===== verification/Tenants.thy ===== *)
theory Tenants
  imports Control_Plane
begin

text \<open>
  Isolation of the orgs that share one control plane. What a caller may do to the shared state is an
  abstract relation, \<open>org_action\<close>: every step of it is guarded by the ownership map. Every handler
  is proved to be a sequence of such steps, and no sequence of them, however the refill tasks of the
  warm pool run in between, touches a VM or snapshot recorded to another org.
\<close>

subsection \<open>What a caller may do\<close>

text \<open>Ids are left: no counter is at its last value.\<close>

definition room :: "'f app_state \<Rightarrow> bool" where
  "room s \<longleftrightarrow> 0 < id_room (as_hv s) \<and> unat (mh_next_snap (as_hv s)) < 2 ^ 64 - 1"

inductive org_action :: "('j, 'io, 'f, 'c) platform \<Rightarrow> org_id \<Rightarrow> 'f app_state \<Rightarrow> 'f app_state \<Rightarrow> bool"
  for P A where
  quiet: "as_hv s' = as_hv s \<Longrightarrow> as_warm_pool s' = as_warm_pool s \<Longrightarrow> as_ownership s' = as_ownership s \<Longrightarrow>
    org_action P A s s'"
| may_create: "room s \<Longrightarrow> create_vm (pf_fs P) (pf_from_slice P) (pf_env P) (as_fs s) (as_hv s) cfg = (hv, Inr h) \<Longrightarrow>
    org_action P A s (s\<lparr>as_hv := hv, as_ownership := record_vm (as_ownership s) (vm_h_id h) A\<rparr>)"
| may_start: "vm_owner (as_ownership s) i = A \<Longrightarrow> start (as_hv s) i = (hv, r :: (('j, 'io) vm_error, unit) result) \<Longrightarrow>
    org_action P A s (s\<lparr>as_hv := hv\<rparr>)"
| may_stop: "vm_owner (as_ownership s) i = A \<Longrightarrow> stop (as_hv s) i = (hv, r :: (('j, 'io) vm_error, unit) result) \<Longrightarrow>
    org_action P A s (s\<lparr>as_hv := hv\<rparr>)"
| may_destroy: "vm_owner (as_ownership s) i = A \<Longrightarrow>
    destroy (pf_fs P) (as_fs s) (as_hv s) i = (fs, hv, r :: (('j, 'io) vm_error, unit) result) \<Longrightarrow>
    org_action P A s (s\<lparr>as_fs := fs, as_hv := hv\<rparr>)"
| may_forget_vm: "vm_owner (as_ownership s) i = A \<Longrightarrow>
    org_action P A s (s\<lparr>as_ownership := forget_vm (as_ownership s) i\<rparr>)"
| may_snapshot: "vm_owner (as_ownership s) i = A \<Longrightarrow> room s \<Longrightarrow>
    snapshot (as_hv s) i = (hv, Inr k :: (('j, 'io) vm_error, snapshot_id) result) \<Longrightarrow>
    org_action P A s (s\<lparr>as_hv := hv, as_ownership := record_snapshot (as_ownership s) k A\<rparr>)"
| may_restore: "snapshot_owner (as_ownership s) k = A \<Longrightarrow> room s \<Longrightarrow>
    restore (pf_env P) (as_hv s) k = (hv, Inr h :: (('j, 'io) vm_error, vm_handle) result) \<Longrightarrow>
    org_action P A s (s\<lparr>as_hv := hv, as_ownership := record_vm (as_ownership s) (vm_h_id h) A\<rparr>)"
| may_take: "snapshot_owner (as_ownership s) k = A \<Longrightarrow> take_warm (as_warm_pool s) k = (p, Some h) \<Longrightarrow>
    org_action P A s (s\<lparr>as_warm_pool := p, as_ownership := record_vm (as_ownership s) (vm_h_id h) A\<rparr>)"
| may_miss: "snapshot_owner (as_ownership s) k = A \<Longrightarrow> take_warm (as_warm_pool s) k = (p, None) \<Longrightarrow>
    org_action P A s (s\<lparr>as_warm_pool := p\<rparr>)"
| may_drain: "snapshot_owner (as_ownership s) k = A \<Longrightarrow>
    drain (pf_fs P) (as_fs s) (as_hv s) (as_warm_pool s) k = (fs, hv, p) \<Longrightarrow>
    org_action P A s (s\<lparr>as_fs := fs, as_hv := hv, as_warm_pool := p\<rparr>)"
| may_delete: "snapshot_owner (as_ownership s) k = A \<Longrightarrow>
    delete_snapshot (as_hv s) k = (hv, Inr () :: (('j, 'io) vm_error, unit) result) \<Longrightarrow>
    org_action P A s (s\<lparr>as_hv := hv, as_ownership := forget_snapshot (as_ownership s) k\<rparr>)"

subsection \<open>The hypervisor's part\<close>

lemma create_vm_effect:
  "create_vm F J env fs hv cfg = (hv', Inl e) \<Longrightarrow> hv' = hv"
  "create_vm F J env fs hv cfg = (hv', Inr h) \<Longrightarrow>
     vm_h_id h = mh_next_vm hv \<and> mh_next_vm hv' = mh_next_vm hv + 1 \<and> (\<forall>v. v \<noteq> mh_next_vm hv \<longrightarrow> mh_vms hv' v = mh_vms hv v) \<and>
     mh_snapshots hv' = mh_snapshots hv \<and> mh_next_snap hv' = mh_next_snap hv"
  by (auto simp: create_vm_def VmId_next_def Let_def split: option.splits sum.splits)

lemma restore_effect:
  "restore env hv k = (hv', Inl e) \<Longrightarrow> hv' = hv"
  "restore env hv k = (hv', Inr h) \<Longrightarrow>
     vm_h_id h = mh_next_vm hv \<and> mh_next_vm hv' = mh_next_vm hv + 1 \<and> (\<forall>v. v \<noteq> mh_next_vm hv \<longrightarrow> mh_vms hv' v = mh_vms hv v) \<and>
     mh_snapshots hv' = mh_snapshots hv \<and> mh_next_snap hv' = mh_next_snap hv"
  by (auto simp: restore_def VmId_next_def Let_def split: option.splits)

definition only_vm :: "vm_id set \<Rightarrow> mock_hv \<Rightarrow> mock_hv \<Rightarrow> bool" where
  "only_vm I hv hv' \<longleftrightarrow> dom (mh_vms hv') \<subseteq> dom (mh_vms hv) \<and> (\<forall>v. v \<notin> I \<longrightarrow> mh_vms hv' v = mh_vms hv v) \<and> mh_next_vm hv' = mh_next_vm hv \<and>
     mh_snapshots hv' = mh_snapshots hv \<and> mh_next_snap hv' = mh_next_snap hv"

lemma start_effect: "start hv i = (hv', r) \<Longrightarrow> only_vm {i} hv hv'"
  by (auto simp: start_def only_vm_def split: option.splits vm_state.splits if_splits)

lemma stop_effect: "stop hv i = (hv', r) \<Longrightarrow> only_vm {i} hv hv'"
  by (auto simp: stop_def only_vm_def split: option.splits vm_state.splits if_splits)

lemma destroy_effect: "destroy F fs hv i = (fs', hv', r) \<Longrightarrow> only_vm {i} hv hv'"
  by (auto simp: destroy_def only_vm_def split: option.splits if_splits)

lemma snapshot_effect:
  "snapshot hv i = (hv', Inl e) \<Longrightarrow> hv' = hv"
  "snapshot hv i = (hv', Inr k) \<Longrightarrow>
     k = mh_next_snap hv \<and> mh_next_snap hv' = k + 1 \<and> (\<forall>j. j \<noteq> k \<longrightarrow> mh_snapshots hv' j = mh_snapshots hv j) \<and>
     mh_vms hv' = mh_vms hv \<and> mh_next_vm hv' = mh_next_vm hv"
  by (auto simp: snapshot_def SnapshotId_next_def Let_def split: option.splits)

lemma delete_effect:
  "delete_snapshot hv k = (hv', Inl e) \<Longrightarrow> hv' = hv"
  "delete_snapshot hv k = (hv', r) \<Longrightarrow> hv' = hv\<lparr>mh_snapshots := (mh_snapshots hv)(k := None)\<rparr>"
  by (auto simp: delete_snapshot_def Let_def fun_upd_idem split: if_splits)

lemma only_vm_trans: "only_vm I a b \<Longrightarrow> only_vm J b c \<Longrightarrow> only_vm (I \<union> J) a c"
  unfolding only_vm_def by (elim conjE, intro conjI) (blast, simp_all)

lemma drain_effect:
  assumes "drain F fs hv p k = (fs', hv', p')"
  shows "only_vm (set (queue_ids p k)) hv hv'"
proof -
  have "only_vm (vm_h_id ` set q) hv (snd (fold (\<lambda>h (fs, hv). let (fs, hv, _) =
      (destroy F fs hv (vm_h_id h) :: _ \<times> _ \<times> ((unit, _) vm_error, unit) result) in (fs, hv)) q (fs, hv)))" for q fs hv
  proof (induction q arbitrary: fs hv)
    case (Cons h q)
    obtain fs1 hv1 and r :: "((unit, _) vm_error, unit) result" where d: "destroy F fs hv (vm_h_id h) = (fs1, hv1, r)" by (metis prod.exhaust)
    from only_vm_trans [OF destroy_effect [OF d] Cons.IH [of hv1 fs1]] show ?case by (simp add: d)
  qed (simp add: only_vm_def)
  from this [of "case wp_queues p k of None \<Rightarrow> [] | Some q \<Rightarrow> q" hv fs] assms show ?thesis
    by (auto simp: drain_def queue_ids_def Let_def split: prod.splits option.splits)
qed

subsection \<open>The invariant\<close>

text \<open>
  The pool's VMs are distinct and not recorded to anyone; recorded ids have been handed out. The
  last two arguments are the next VM id and the next snapshot id.
\<close>

definition cp_core :: "warm_pool \<Rightarrow> in_memory_store \<Rightarrow> nat \<Rightarrow> nat \<Rightarrow> bool" where
  "cp_core p own n m \<longleftrightarrow>
     (\<exists>orig. hand_ok (queue_ids p) (task_ids p) [] orig n) \<and>
     (\<forall>k i. (k, i) \<in> held p \<longrightarrow> store_vm_owner own i = None) \<and>
     (\<forall>i. store_vm_owner own i \<noteq> None \<longrightarrow> unat i < n) \<and>
     (\<forall>k. store_snapshot_owner own k \<noteq> None \<longrightarrow> unat k < m)"

definition cp_ok :: "'f app_state \<Rightarrow> bool" where
  "cp_ok s \<longleftrightarrow> cp_core (as_warm_pool s) (as_ownership s) (unat (mh_next_vm (as_hv s))) (unat (mh_next_snap (as_hv s))) \<and>
     (\<forall>v. mh_vms (as_hv s) v \<noteq> None \<longrightarrow> unat v < unat (mh_next_vm (as_hv s)))"

lemma cp_ok_core:
  "cp_ok s \<Longrightarrow> cp_core (as_warm_pool s) (as_ownership s) (unat (mh_next_vm (as_hv s))) (unat (mh_next_snap (as_hv s)))"
  by (simp add: cp_ok_def)

lemma cp_core_more: "cp_core p own n m \<Longrightarrow> n \<le> n' \<Longrightarrow> m \<le> m' \<Longrightarrow> cp_core p own n' m'"
  unfolding cp_core_def by (meson hand_ok_more order_less_le_trans)

lemma held_below: "cp_core p own n m \<Longrightarrow> (k, i) \<in> held p \<Longrightarrow> unat i < n"
  unfolding cp_core_def hand_ok_def held_def by blast

lemma cp_core_record_vm:
  "cp_core p own n m \<Longrightarrow> unat i < n \<Longrightarrow> \<forall>k. (k, i) \<notin> held p \<Longrightarrow> cp_core p (record_vm own i A) n m"
  by (auto simp: cp_core_def vm_owners.owner_rec)

lemma cp_core_forget_vm: "cp_core p own n m \<Longrightarrow> cp_core p (forget_vm own i) n m"
  by (auto simp: cp_core_def vm_owners.owner_forget)

lemma cp_core_record_snapshot: "cp_core p own n m \<Longrightarrow> unat k < m \<Longrightarrow> cp_core p (record_snapshot own k A) n m"
  by (auto simp: cp_core_def snapshot_owners.owner_rec)

lemma cp_core_forget_snapshot: "cp_core p own n m \<Longrightarrow> cp_core p (forget_snapshot own k) n m"
  by (auto simp: cp_core_def snapshot_owners.owner_forget)

lemma held_ids: "(k, i) \<in> held p \<longleftrightarrow> (k, i) \<in> set (task_ids p) \<or> i \<in> set (queue_ids p k)"
  by (auto simp: held_def)

lemma cp_core_take_hit:
  assumes "cp_core p own n m" and "take_warm p k = (p', Some h)"
  shows "cp_core p' own n m" "(k, vm_h_id h) \<in> held p" "(j, vm_h_id h) \<notin> held p'"
proof -
  note ids = take_warm_hit [OF assms(2)]
  have q: "queue_ids p' = (queue_ids p)(k := queue_ids p' k)" using ids(2) by auto
  obtain orig where orig: "hand_ok (queue_ids p) (task_ids p) [] orig n" using assms(1) by (auto simp: cp_core_def)
  have give: "hand_ok (queue_ids p') (task_ids p') [(k, vm_h_id h)] orig n"
    using hand_ok_give [OF orig ids(1)] q ids(3) by simp
  then have "hand_ok (queue_ids p') (task_ids p') [] orig n" by (simp add: hand_ok_def)
  moreover have "held p' \<subseteq> held p" using ids by (auto simp: held_ids) (metis list.set_intros(2))
  ultimately show "cp_core p' own n m" using assms(1) unfolding cp_core_def by blast
  show "(k, vm_h_id h) \<in> held p" using ids(1) by (simp add: held_ids)
  show "(j, vm_h_id h) \<notin> held p'" using give unfolding hand_ok_def held_ids by (metis list.set_intros(1) option.inject)
qed

lemma cp_core_take_miss:
  assumes "cp_core p own n m" and "take_warm p k = (p', None)"
  shows "cp_core p' own n m"
  using assms take_warm_miss [OF assms(2)] by (simp add: cp_core_def held_def)

lemma cp_core_drain:
  assumes "cp_core p own n m" and "drain F fs hv p k = (fs', hv', p')"
  shows "cp_core p' own n m"
proof -
  note ids = drain_ids [OF assms(2)]
  have q: "queue_ids p' = (queue_ids p)(k := [])" using ids(1) by auto
  obtain orig where "hand_ok (queue_ids p) (task_ids p) [] orig n" using assms(1) by (auto simp: cp_core_def)
  from hand_ok_drop [OF this, of k] have "hand_ok (queue_ids p') (task_ids p') [] orig n" by (simp add: q ids(2))
  moreover have "held p' \<subseteq> held p" using ids by (auto simp: held_ids split: if_splits)
  ultimately show ?thesis using assms(1) unfolding cp_core_def by blast
qed

subsection \<open>Isolation of one action\<close>

text \<open>Nothing recorded to another org than \<open>A\<close> differs between the two states.\<close>

definition untouched :: "org_id option \<Rightarrow> 'f app_state \<Rightarrow> 'f app_state \<Rightarrow> bool" where
  "untouched A s s' \<longleftrightarrow>
     (\<forall>v B. store_vm_owner (as_ownership s) v = Some B \<longrightarrow> A \<noteq> Some B \<longrightarrow>
        store_vm_owner (as_ownership s') v = Some B \<and> mh_vms (as_hv s') v = mh_vms (as_hv s) v) \<and>
     (\<forall>k B. store_snapshot_owner (as_ownership s) k = Some B \<longrightarrow> A \<noteq> Some B \<longrightarrow>
        store_snapshot_owner (as_ownership s') k = Some B \<and> mh_snapshots (as_hv s') k = mh_snapshots (as_hv s) k)"

lemma untouchedI:
  assumes "\<And>v B. store_vm_owner (as_ownership s) v = Some B \<Longrightarrow> A \<noteq> Some B \<Longrightarrow>
      store_vm_owner (as_ownership s') v = Some B \<and> mh_vms (as_hv s') v = mh_vms (as_hv s) v"
    and "\<And>k B. store_snapshot_owner (as_ownership s) k = Some B \<Longrightarrow> A \<noteq> Some B \<Longrightarrow>
      store_snapshot_owner (as_ownership s') k = Some B \<and> mh_snapshots (as_hv s') k = mh_snapshots (as_hv s) k"
  shows "untouched A s s'"
  using assms by (simp add: untouched_def)

lemma untouched_trans: "untouched A s t \<Longrightarrow> untouched A t u \<Longrightarrow> untouched A s u"
  unfolding untouched_def by metis

lemma room_next:
  assumes room: "room s"
  shows "unat (mh_next_vm (as_hv s) + 1) = Suc (unat (mh_next_vm (as_hv s)))"
    and "unat (mh_next_snap (as_hv s) + 1) = Suc (unat (mh_next_snap (as_hv s)))"
proof -
  from room show "unat (mh_next_vm (as_hv s) + 1) = Suc (unat (mh_next_vm (as_hv s)))" by (simp add: room_def unat_next)
  show "unat (mh_next_snap (as_hv s) + 1) = Suc (unat (mh_next_snap (as_hv s)))"
    using room by (simp add: room_def unat_word_ariths)
qed

lemma fresh_vm:
  assumes "cp_ok s"
  shows "store_vm_owner (as_ownership s) (mh_next_vm (as_hv s)) = None" "(k, mh_next_vm (as_hv s)) \<notin> held (as_warm_pool s)"
proof -
  show "store_vm_owner (as_ownership s) (mh_next_vm (as_hv s)) = None"
    using assms unfolding cp_ok_def cp_core_def by (metis less_irrefl)
  show "(k, mh_next_vm (as_hv s)) \<notin> held (as_warm_pool s)"
    using held_below [OF cp_ok_core [OF assms]] by blast
qed

lemma fresh_snapshot: "cp_ok s \<Longrightarrow> store_snapshot_owner (as_ownership s) (mh_next_snap (as_hv s)) = None"
  unfolding cp_ok_def cp_core_def by (metis less_irrefl)

lemma vm_owner_other: "vm_owner own i = A \<Longrightarrow> store_vm_owner own v = Some B \<Longrightarrow> A \<noteq> B \<Longrightarrow> v \<noteq> i"
  by (auto simp: vm_owner_def)

lemma snapshot_owner_other: "snapshot_owner own i = A \<Longrightarrow> store_snapshot_owner own v = Some B \<Longrightarrow> A \<noteq> B \<Longrightarrow> v \<noteq> i"
  by (auto simp: snapshot_owner_def)

text \<open>A new VM, recorded to the caller.\<close>

lemma new_vm_ok:
  assumes "cp_ok s" and "room s" and "i = mh_next_vm (as_hv s)" and "mh_next_vm hv = i + 1"
    and "\<forall>v. v \<noteq> i \<longrightarrow> mh_vms hv v = mh_vms (as_hv s) v" and "mh_snapshots hv = mh_snapshots (as_hv s)"
    and "mh_next_snap hv = mh_next_snap (as_hv s)"
  shows "cp_ok (s\<lparr>as_hv := hv, as_ownership := record_vm (as_ownership s) i A\<rparr>)"
    "untouched X s (s\<lparr>as_hv := hv, as_ownership := record_vm (as_ownership s) i A\<rparr>)"
proof -
  have "cp_core (as_warm_pool s) (as_ownership s) (Suc (unat i)) (unat (mh_next_snap hv))"
    using assms(1,3,7) by (auto simp: cp_ok_def intro: cp_core_more)
  from cp_core_record_vm [OF this] have "cp_core (as_warm_pool s) (record_vm (as_ownership s) i A) (unat (mh_next_vm hv)) (unat (mh_next_snap hv))"
    using assms fresh_vm(2) [OF assms(1)] room_next(1) [OF assms(2)] by simp
  moreover have "unat v < unat (mh_next_vm hv)" if "mh_vms hv v \<noteq> None" for v
    using that assms room_next(1) [OF assms(2)] by (cases "v = i") (auto simp: cp_ok_def less_Suc_eq)
  ultimately show "cp_ok (s\<lparr>as_hv := hv, as_ownership := record_vm (as_ownership s) i A\<rparr>)" by (simp add: cp_ok_def)
  show "untouched X s (s\<lparr>as_hv := hv, as_ownership := record_vm (as_ownership s) i A\<rparr>)"
    using assms(3,5,6) fresh_vm(1) [OF assms(1)] by (intro untouchedI) (auto simp: vm_owners.owner_rec)
qed

lemma only_vm_ok:
  assumes "cp_ok s" and "only_vm I (as_hv s) hv" and "\<And>i. i \<in> I \<Longrightarrow> store_vm_owner (as_ownership s) i \<in> {None, Some A}"
  shows "cp_ok (s\<lparr>as_fs := fs, as_hv := hv\<rparr>)" "untouched (Some A) s (s\<lparr>as_fs := fs, as_hv := hv\<rparr>)"
proof -
  show "cp_ok (s\<lparr>as_fs := fs, as_hv := hv\<rparr>)"
    using assms(1,2) by (simp add: cp_ok_def only_vm_def) (metis domI domIff subsetD option.exhaust)
  show "untouched (Some A) s (s\<lparr>as_fs := fs, as_hv := hv\<rparr>)"
    using assms(2,3) by (intro untouchedI) (fastforce simp: only_vm_def)+
qed

lemma accessible: "vm_owner own i = A \<Longrightarrow> store_vm_owner own i \<in> {None, Some A}"
  by (auto simp: vm_owner_def split: option.splits)

lemma org_action_ok:
  assumes "org_action P A s s'" and "cp_ok s"
  shows "cp_ok s' \<and> untouched (Some A) s s'"
  using assms(1)
proof cases
  case quiet
  then show ?thesis using assms(2) by (auto simp: cp_ok_def untouched_def)
next
  case (may_create cfg hv h)
  from new_vm_ok [OF assms(2) may_create(2), of "vm_h_id h" hv] create_vm_effect(2) [OF may_create(3)]
  show ?thesis by (auto simp: may_create(1))
next
  case (may_start i hv r)
  have "s' = s\<lparr>as_fs := as_fs s, as_hv := hv\<rparr>" by (simp add: may_start(1))
  with only_vm_ok [OF assms(2) start_effect [OF may_start(3)], of A "as_fs s"] accessible [OF may_start(2)]
  show ?thesis by simp
next
  case (may_stop i hv r)
  have "s' = s\<lparr>as_fs := as_fs s, as_hv := hv\<rparr>" by (simp add: may_stop(1))
  with only_vm_ok [OF assms(2) stop_effect [OF may_stop(3)], of A "as_fs s"] accessible [OF may_stop(2)]
  show ?thesis by simp
next
  case (may_destroy i fs hv r)
  with only_vm_ok [OF assms(2) destroy_effect [OF may_destroy(3)], of A fs] accessible [OF may_destroy(2)]
  show ?thesis by simp
next
  case (may_forget_vm i)
  then show ?thesis
    using assms(2) vm_owner_other [OF may_forget_vm(2)] by (auto simp: cp_ok_def untouched_def cp_core_forget_vm)
next
  case (may_snapshot i hv k)
  note eff = snapshot_effect(2) [OF may_snapshot(4)]
  have "cp_core (as_warm_pool s) (as_ownership s) (unat (mh_next_vm hv)) (Suc (unat k))"
    using assms(2) eff by (auto simp: cp_ok_def intro: cp_core_more)
  from cp_core_record_snapshot [OF this, of k A] have "cp_ok s'"
    using eff room_next(2) [OF may_snapshot(3)] assms(2) by (simp add: may_snapshot(1) cp_ok_def)
  moreover have "untouched (Some A) s s'"
    unfolding may_snapshot(1) using eff fresh_snapshot [OF assms(2)] by (intro untouchedI) (auto simp: snapshot_owners.owner_rec)
  ultimately show ?thesis by simp
next
  case (may_restore k hv h)
  from new_vm_ok [OF assms(2) may_restore(3), of "vm_h_id h" hv] restore_effect(2) [OF may_restore(4)]
  show ?thesis by (auto simp: may_restore(1))
next
  case (may_take k p h)
  let ?core = "\<lambda>p own. cp_core p own (unat (mh_next_vm (as_hv s))) (unat (mh_next_snap (as_hv s)))"
  note core = cp_ok_core [OF assms(2)]
  note hit = cp_core_take_hit [OF core may_take(3)]
  have "cp_ok s'"
    using cp_core_record_vm [OF hit(1) held_below [OF core hit(2)]] hit(3) assms(2) by (simp add: may_take(1) cp_ok_def)
  moreover have "store_vm_owner (as_ownership s) (vm_h_id h) = None" using core hit(2) by (auto simp: cp_core_def)
  ultimately show ?thesis unfolding may_take(1) by (auto simp: untouched_def vm_owners.owner_rec)
next
  case (may_miss k p)
  with assms(2) cp_core_take_miss [OF _ may_miss(3)] show ?thesis by (simp add: cp_ok_def untouched_def)
next
  case (may_drain k fs hv p)
  have pool: "\<forall>i \<in> set (queue_ids (as_warm_pool s) k). store_vm_owner (as_ownership s) i = None"
    using assms(2) by (auto simp: cp_ok_def cp_core_def held_ids)
  note eff = drain_effect [OF may_drain(3)]
  from only_vm_ok [OF assms(2) eff, of A fs] pool
  have "cp_ok (s\<lparr>as_fs := fs, as_hv := hv\<rparr>) \<and> untouched (Some A) s (s\<lparr>as_fs := fs, as_hv := hv\<rparr>)" by simp
  then show ?thesis unfolding may_drain(1) using cp_core_drain [OF _ may_drain(3)] by (auto simp: cp_ok_def untouched_def)
next
  case (may_delete k hv)
  then show ?thesis
    using assms(2) delete_effect(2) [OF may_delete(3)] snapshot_owner_other [OF may_delete(2)]
    by (auto simp: cp_ok_def untouched_def cp_core_forget_snapshot)
qed

lemma org_actions_ok:
  assumes "(org_action P A)\<^sup>*\<^sup>* s s'" and "cp_ok s"
  shows "cp_ok s' \<and> untouched (Some A) s s'"
  using assms
proof (induction rule: rtranclp_induct)
  case base
  then show ?case by (simp add: untouched_def)
next
  case (step t u)
  with org_action_ok [OF step(2)] untouched_trans [of "Some A" s t u] show ?case by blast
qed

subsection \<open>Every handler is a sequence of actions\<close>

abbreviation acts :: "('j, 'io, 'f, 'c) platform \<Rightarrow> org_id \<Rightarrow> 'f app_state \<Rightarrow> 'f app_state \<Rightarrow> bool" where
  "acts P A \<equiv> (org_action P A)\<^sup>*\<^sup>*"

lemma acts_quiet:
  "as_hv s' = as_hv s \<Longrightarrow> as_warm_pool s' = as_warm_pool s \<Longrightarrow> as_ownership s' = as_ownership s \<Longrightarrow> acts P A s s'"
  by (blast intro: quiet)

lemma checked_vmD: "checked_vm A i s = Inr vm \<Longrightarrow> vm_owner (as_ownership s) vm = A"
  by (auto simp: checked_vm_def require_vm_access_def and_then_def split: sum.splits if_splits)

lemma checked_snapshotD: "checked_snapshot A i s = Inr k \<Longrightarrow> snapshot_owner (as_ownership s) k = A"
  by (auto simp: checked_snapshot_def require_snapshot_access_def and_then_def split: sum.splits if_splits)

lemma create_vm_refines:
  fixes P :: "('j, 'io, 'f, 'c) platform" and r :: "(('j, 'io, 'r) api_error, vm_handle_dto) result"
  assumes "create_vm_handler P A body s = (s', r)" and "room s"
  shows "acts P A s s'"
proof (cases body)
  case (Inr req)
  obtain hv and x :: "(('j, 'io) vm_error, _) result" where c: "create_vm (pf_fs P) (pf_from_slice P) (pf_env P) (as_fs s) (as_hv s)
      (apply_to (as_vm_defaults s) (VmConfig_from req)) = (hv, x)" by (metis prod.exhaust)
  show ?thesis
  proof (cases x)
    case Inl
    with assms(1) c create_vm_effect(1) [of _ _ _ _ _ _ hv] show ?thesis
      by (auto simp: create_vm_handler_def \<open>body = _\<close> intro!: acts_quiet)
  next
    case (Inr h)
    with may_create [OF assms(2) c [unfolded Inr], of A] assms(1) c show ?thesis
      by (auto simp: create_vm_handler_def \<open>body = _\<close>)
  qed
qed (use assms(1) in \<open>auto simp: create_vm_handler_def\<close>)

lemma start_vm_refines: "start_vm A i s = (s', r :: (('j, 'io, 'r) api_error, unit) result) \<Longrightarrow> acts (P :: ('j, 'io, 'f, 'c) platform) A s s'"
  by (auto simp: start_vm_def split: sum.splits prod.splits dest!: checked_vmD intro!: r_into_rtranclp may_start)

lemma stop_vm_refines: "stop_vm A i s = (s', r :: (('j, 'io, 'r) api_error, unit) result) \<Longrightarrow> acts (P :: ('j, 'io, 'f, 'c) platform) A s s'"
  by (auto simp: stop_vm_def split: sum.splits prod.splits dest!: checked_vmD intro!: r_into_rtranclp may_stop)

lemma destroy_vm_refines:
  fixes P :: "('j, 'io, 'f, 'c) platform" and r :: "(('j, 'io, 'r) api_error, unit) result"
  assumes "destroy_vm P A role i s = (s', r)"
  shows "acts P A s s'"
proof (cases "and_then (require_role role Developer) (\<lambda>_. checked_vm A i s) :: (('j, 'io, 'r) api_error, _) result")
  case (Inr vm)
  then have own: "vm_owner (as_ownership s) vm = A" by (auto simp: and_then_def split: sum.splits dest: checked_vmD)
  obtain fs hv and x :: "(('j, 'io) vm_error, unit) result" where d: "destroy (pf_fs P) (as_fs s) (as_hv s) vm = (fs, hv, x)" by (metis prod.exhaust)
  let ?s = "s\<lparr>as_fs := fs, as_hv := hv\<rparr>"
  have "org_action P A s ?s" by (rule may_destroy [OF own d])
  moreover have "org_action P A ?s (?s\<lparr>as_ownership := forget_vm (as_ownership s) vm\<rparr>)"
    using may_forget_vm [of ?s vm A P] own by simp
  ultimately show ?thesis using assms d Inr by (auto simp: destroy_vm_def split: sum.splits)
qed (use assms in \<open>auto simp: destroy_vm_def\<close>)

lemma snapshot_vm_refines:
  fixes P :: "('j, 'io, 'f, 'c) platform" and r :: "(('j, 'io, 'r) api_error, snapshot_dto) result"
  assumes "snapshot_vm P A i body s = (s', r)" and "room s"
  shows "acts P A s s'"
proof (cases "checked_vm A i s :: (('j, 'io, 'r) api_error, _) result")
  case (Inr vm)
  obtain hv and x :: "(('j, 'io) vm_error, _) result" where d: "snapshot (as_hv s) vm = (hv, x)" by (metis prod.exhaust)
  show ?thesis
  proof (cases x)
    case (Inl e)
    with assms(1) d \<open>checked_vm A i s = _\<close> snapshot_effect(1) [of _ _ hv] show ?thesis
      by (auto simp: snapshot_vm_def split: sum.splits intro!: acts_quiet)
  next
    case x: (Inr k)
    let ?s = "s\<lparr>as_hv := hv, as_ownership := record_snapshot (as_ownership s) k A\<rparr>"
    have step: "acts P A s ?s"
      using may_snapshot [OF checked_vmD [OF Inr] assms(2) d [unfolded x]] by (rule r_into_rtranclp)
    have "s' = s \<or> (as_hv s' = as_hv ?s \<and> as_warm_pool s' = as_warm_pool ?s \<and> as_ownership s' = as_ownership ?s)"
      using assms(1) d x Inr by (auto simp: snapshot_vm_def Let_def split: sum.splits option.splits prod.splits)
    then show ?thesis
    proof (elim disjE conjE)
      assume "as_hv s' = as_hv ?s" "as_warm_pool s' = as_warm_pool ?s" "as_ownership s' = as_ownership ?s"
      then show ?thesis by (rule rtranclp_trans [OF step acts_quiet])
    qed simp
  qed
qed (use assms(1) in \<open>auto simp: snapshot_vm_def\<close>)

lemma restore_snapshot_refines:
  fixes P :: "('j, 'io, 'f, 'c) platform" and r :: "(('j, 'io, 'r) api_error, vm_handle_dto) result"
  assumes "restore_snapshot P A i s = (s', r)" and "room s"
  shows "acts P A s s'"
proof (cases "checked_snapshot A i s :: (('j, 'io, 'r) api_error, _) result")
  case (Inr k)
  obtain hv and x :: "(('j, 'io) vm_error, _) result" where d: "restore (pf_env P) (as_hv s) k = (hv, x)" by (metis prod.exhaust)
  show ?thesis
  proof (cases x)
    case (Inl e)
    with assms(1) d \<open>checked_snapshot A i s = _\<close> restore_effect(1) [of _ _ _ hv] show ?thesis
      by (auto simp: restore_snapshot_def intro!: acts_quiet)
  next
    case x: (Inr h)
    from may_restore [OF checked_snapshotD [OF Inr] assms(2) d [unfolded x]] assms(1) d x Inr show ?thesis
      by (auto simp: restore_snapshot_def)
  qed
qed (use assms(1) in \<open>auto simp: restore_snapshot_def\<close>)

lemma delete_snapshot_refines:
  fixes P :: "('j, 'io, 'f, 'c) platform" and r :: "(('j, 'io, 'r) api_error, unit) result"
  assumes "delete_snapshot_handler P A role i s = (s', r)"
  shows "acts P A s s'"
proof (cases "and_then (require_role role Developer) (\<lambda>_. checked_snapshot A i s) :: (('j, 'io, 'r) api_error, _) result")
  case (Inr k)
  then have own: "snapshot_owner (as_ownership s) k = A" by (auto simp: and_then_def split: sum.splits dest: checked_snapshotD)
  obtain fs hv p where d: "drain (pf_fs P) (as_fs s) (as_hv s) (as_warm_pool s) k = (fs, hv, p)" by (metis prod.exhaust)
  let ?s = "s\<lparr>as_fs := fs, as_hv := hv, as_warm_pool := p\<rparr>"
  have step: "acts P A s ?s" using may_drain [OF own d] by (rule r_into_rtranclp)
  obtain hv' and x :: "(('j, 'io) vm_error, unit) result" where x: "delete_snapshot hv k = (hv', x)" by (metis prod.exhaust)
  show ?thesis
  proof (cases x)
    case (Inl e)
    with assms d x \<open>and_then _ _ = _\<close> delete_effect(1) [of hv k hv'] have "as_hv s' = as_hv ?s" "as_warm_pool s' = as_warm_pool ?s"
      "as_ownership s' = as_ownership ?s" by (auto simp: delete_snapshot_handler_def)
    then show ?thesis by (rule rtranclp_trans [OF step acts_quiet])
  next
    case (Inr u)
    with may_delete [of ?s k A hv' P] own x have "org_action P A ?s (?s\<lparr>as_hv := hv', as_ownership := forget_snapshot (as_ownership s) k\<rparr>)"
      by simp
    with step assms d x Inr \<open>and_then _ _ = _\<close> show ?thesis by (auto simp: delete_snapshot_handler_def)
  qed
qed (use assms in \<open>auto simp: delete_snapshot_handler_def\<close>)

text \<open>Getting a VM of a snapshot, warm or cold, and recording it.\<close>

lemma acquire_vm_refines:
  fixes P :: "('j, 'io, 'f, 'c) platform" and e :: "('j, 'io, 'r) api_error"
  assumes "snapshot_owner (as_ownership s) k = A" and "room s"
  shows "acquire_vm P k s = (s1, Inl e) \<Longrightarrow> acts P A s s1"
    and "acquire_vm P k s = (s1, (Inr (h, cold) :: (('j, 'io, 'r) api_error, _) result)) \<Longrightarrow>
      acts P A s (s1\<lparr>as_ownership := record_vm (as_ownership s1) (vm_h_id h) A\<rparr>)"
proof -
  obtain p x where t: "take_warm (as_warm_pool s) k = (p, x)" by (metis prod.exhaust)
  obtain hv and y :: "(('j, 'io) vm_error, _) result" where d: "restore (pf_env P) (as_hv s) k = (hv, y)" by (metis prod.exhaust)
  let ?s = "s\<lparr>as_warm_pool := p, as_metrics := record_warm_miss (as_metrics s)\<rparr>"
  have miss: "acts P A s ?s" if "x = None"
    using may_miss [OF assms(1) t [unfolded that], of P]
    by (rule converse_rtranclp_into_rtranclp) (rule acts_quiet, simp_all)
  have room: "room ?s" and own: "snapshot_owner (as_ownership ?s) k = A" using assms by (simp_all add: room_def)
  show "acts P A s s1" if a: "acquire_vm P k s = (s1, Inl e)"
  proof -
    from a t d have "x = None" and "as_hv s1 = as_hv ?s" "as_warm_pool s1 = as_warm_pool ?s" "as_ownership s1 = as_ownership ?s"
      by (auto simp: acquire_vm_def Let_def split: option.splits sum.splits prod.splits dest: restore_effect(1))
    then show ?thesis using rtranclp_trans [OF miss acts_quiet] by blast
  qed
  show "acts P A s (s1\<lparr>as_ownership := record_vm (as_ownership s1) (vm_h_id h) A\<rparr>)" if a: "acquire_vm P k s = (s1, (Inr (h, cold) :: (('j, 'io, 'r) api_error, _) result))"
  proof (cases x)
    case None
    with a t d have y: "y = Inr h" and s1: "s1 = ?s\<lparr>as_hv := hv\<rparr>"
      by (auto simp: acquire_vm_def Let_def split: sum.splits)
    from may_restore [OF own room] d y have "org_action P A ?s (s1\<lparr>as_ownership := record_vm (as_ownership s1) (vm_h_id h) A\<rparr>)"
      by (simp add: s1)
    with miss [OF None] show ?thesis by (rule rtranclp.rtrancl_into_rtrancl)
  next
    case (Some h')
    with a t have "h' = h" and s1: "s1 = s\<lparr>as_warm_pool := p, as_metrics := record_warm_hit (as_metrics s)\<rparr>"
      by (auto simp: acquire_vm_def)
    with may_take [OF assms(1) t [unfolded Some], of P] show ?thesis
      by (elim converse_rtranclp_into_rtranclp) (auto simp: s1 intro: acts_quiet)
  qed
qed

lemma charge_fork_quiet:
  "charge_fork b A ms s = (s', u) \<Longrightarrow> as_hv s' = as_hv s \<and> as_warm_pool s' = as_warm_pool s \<and> as_ownership s' = as_ownership s"
  by (auto simp: charge_fork_def Let_def split: option.splits)

lemma fork_snapshot_refines:
  fixes P :: "('j, 'io, 'f, 'c) platform" and r :: "(('j, 'io, 'r) api_error, fork_response_dto) result"
  assumes "fork_snapshot P C A i auth s = (s', r)" and "room s"
  shows "acts P A s s'"
proof (cases "checked_snapshot A i s :: (('j, 'io, 'r) api_error, _) result")
  case k: (Inr k)
  let ?b = "extract_bearer auth"
  obtain q x where q: "try_acquire (cc_token_created C) (cc_token_now C) (as_fork_quota s) ?b = (q, x)" by (metis prod.exhaust)
  obtain q' x' where q': "try_acquire_org (cc_org_created C) (cc_org_now C) q A None None = (q', x')" by (metis prod.exhaust)
  let ?s = "s\<lparr>as_fork_quota := q'\<rparr>"
  have start: "acts P A s ?s" by (rule acts_quiet) simp_all
  have own: "snapshot_owner (as_ownership ?s) k = A" "room ?s" using checked_snapshotD [OF k] assms(2) by (simp_all add: room_def)
  show ?thesis
  proof (cases "is_ok x \<and> is_ok x'")
    case False
    then have "as_hv s' = as_hv s" "as_warm_pool s' = as_warm_pool s" "as_ownership s' = as_ownership s"
      using assms(1) k q q' by (auto simp: fork_snapshot_def Let_def is_ok_def split: sum.splits)
    then show ?thesis by (rule acts_quiet)
  next
    case True
    obtain s1 y where a: "acquire_vm P k ?s = (s1, y :: (('j, 'io, 'r) api_error, _) result)" by (metis prod.exhaust)
    show ?thesis
    proof (cases y)
      case (Inl e)
      with True assms(1) k q q' a have "s' = s1"
        by (auto simp: fork_snapshot_def Let_def is_ok_def split: sum.splits)
      with acquire_vm_refines(1) [OF own a [unfolded Inl]] start show ?thesis by simp
    next
      case (Inr hc)
      obtain h c where hc: "hc = (h, c)" by (cases hc)
      let ?t = "s1\<lparr>as_ownership := record_vm (as_ownership s1) (vm_h_id h) A\<rparr>"
      obtain u where "charge_fork ?b A (of_nat (cc_elapsed_ms C)) ?t = (s', u)"
        using True assms(1) k q q' a Inr hc by (auto simp: fork_snapshot_def Let_def is_ok_def split: sum.splits prod.splits)
      from charge_fork_quiet [OF this] have "acts P A ?t s'" by (intro acts_quiet) simp_all
      with acquire_vm_refines(2) [OF own a [unfolded Inr hc]] start show ?thesis by (meson rtranclp_trans)
    qed
  qed
qed (use assms(1) in \<open>auto simp: fork_snapshot_def\<close>)

lemma sandbox_dispatch_quiet:
  "sandbox_dispatch P vm action s = (s', r) \<Longrightarrow>
     as_hv s' = as_hv s \<and> as_warm_pool s' = as_warm_pool s \<and> as_ownership s' = as_ownership s"
  by (auto simp: sandbox_dispatch_def sandbox_exec_def Let_def split: sandbox_action.splits prod.splits)

definition sandbox_target :: "('j, 'io, 'f, 'c) platform \<Rightarrow> org_id \<Rightarrow> ('r, sandbox_invoke_request) result \<Rightarrow> 'f app_state \<Rightarrow>
    (('j, 'io, 'r) api_error, sandbox_invoke_request \<times> snapshot_id) result" where
  "sandbox_target P A body s = and_then (map_err BadJson body) (\<lambda>req.
     and_then (resolve_snapshot_with (si_snapshot req) (pf_sandbox_snapshot_id P)) (\<lambda>k.
     and_then (require_snapshot_access (as_ownership s) k A) (\<lambda>_. Ok (req, k))))"

lemma sandbox_invoke_cases:
  fixes P :: "('j, 'io, 'f, 'c) platform" and body :: "('r, sandbox_invoke_request) result"
  assumes "sandbox_invoke P C A body s = (s', r)"
  obtains (refused) e where "sandbox_target P A body s = Inl e" "s' = s" "r = Inl e"
    | (no_vm) req k e where "sandbox_target P A body s = Inr (req, k)" "acquire_vm P k s = (s', Inl e)" "r = Inl e"
    | (ran) req k s1 h cold s2 out fs hv x where "sandbox_target P A body s = Inr (req, k)"
      "acquire_vm P k s = (s1, (Inr (h, cold) :: (('j, 'io, 'r) api_error, _) result))"
      "sandbox_dispatch P (vm_h_id h) (si_action req) (s1\<lparr>as_ownership := record_vm (as_ownership s1) (vm_h_id h) A\<rparr>) =
         (s2, out :: (('j, 'io, 'r) api_error, _) result)"
      "destroy (pf_fs P) (as_fs s2) (as_hv s2) (vm_h_id h) = (fs, hv, x :: (('j, 'io) vm_error, unit) result)"
      "s' = s2\<lparr>as_fs := fs, as_hv := hv, as_ownership := forget_vm (as_ownership s2) (vm_h_id h)\<rparr>"
      "r = map_sum id (\<lambda>d. \<lparr>sr_outcome = d, sr_duration_ms = of_nat (cc_elapsed_ms C), sr_cold_start = cold\<rparr>) out"
proof (cases "sandbox_target P A body s")
  case (Inl e)
  moreover have "s' = s" "r = Inl e" using assms Inl by (simp_all add: sandbox_invoke_def sandbox_target_def)
  ultimately show ?thesis by (rule refused)
next
  case (Inr rk)
  obtain req k where rk: "rk = (req, k)" by (cases rk)
  obtain s1 y where a: "acquire_vm P k s = (s1, y :: (('j, 'io, 'r) api_error, _) result)" by (metis prod.exhaust)
  show ?thesis
  proof (cases y)
    case (Inl e)
    have "acquire_vm P k s = (s', Inl e)" "r = Inl e"
      using assms a Inl \<open>sandbox_target P A body s = _\<close> by (simp_all add: sandbox_invoke_def sandbox_target_def rk)
    then show ?thesis by (rule no_vm [OF \<open>sandbox_target P A body s = _\<close> [unfolded rk]])
  next
    case y: (Inr hc)
    obtain h c where hc: "hc = (h, c)" by (cases hc)
    obtain s2 out where o: "sandbox_dispatch P (vm_h_id h) (si_action req) (s1\<lparr>as_ownership := record_vm (as_ownership s1) (vm_h_id h) A\<rparr>) =
      (s2, out :: (('j, 'io, 'r) api_error, _) result)" by (metis prod.exhaust)
    obtain fs hv x where d: "destroy (pf_fs P) (as_fs s2) (as_hv s2) (vm_h_id h) = (fs, hv, x :: (('j, 'io) vm_error, unit) result)"
      by (metis prod.exhaust)
    from assms Inr [unfolded sandbox_target_def rk] a [unfolded y hc] o d have
      "s' = s2\<lparr>as_fs := fs, as_hv := hv, as_ownership := forget_vm (as_ownership s2) (vm_h_id h)\<rparr>"
      "r = map_sum id (\<lambda>d. \<lparr>sr_outcome = d, sr_duration_ms = of_nat (cc_elapsed_ms C), sr_cold_start = c\<rparr>) out"
      by (simp_all add: sandbox_invoke_def Let_def)
    then show ?thesis by (rule ran [OF Inr [unfolded rk] a [unfolded y hc] o d])
  qed
qed

lemma sandbox_targetD: "sandbox_target P A body s = Inr (req, k) \<Longrightarrow> snapshot_owner (as_ownership s) k = A"
  by (auto simp: sandbox_target_def require_snapshot_access_def and_then_def split: sum.splits if_splits)

lemma sandbox_invoke_refines:
  fixes P :: "('j, 'io, 'f, 'c) platform" and r :: "(('j, 'io, 'r) api_error, sandbox_result) result"
  assumes "sandbox_invoke P C A body s = (s', r)" and "room s"
  shows "acts P A s s'"
  using assms(1)
proof (cases rule: sandbox_invoke_cases)
  case (no_vm req k e)
  with acquire_vm_refines(1) [OF sandbox_targetD assms(2)] show ?thesis by blast
next
  case (ran req k s1 h cold s2 out fs hv x)
  let ?t = "s1\<lparr>as_ownership := record_vm (as_ownership s1) (vm_h_id h) A\<rparr>" and ?u = "s2\<lparr>as_fs := fs, as_hv := hv\<rparr>"
  note q = sandbox_dispatch_quiet [OF ran(3)]
  have own: "vm_owner (as_ownership s2) (vm_h_id h) = A" using q by (simp add: vm_owner_def)
  have "acts P A s ?t" by (rule acquire_vm_refines(2) [OF sandbox_targetD [OF ran(1)] assms(2) ran(2)])
  moreover have "acts P A ?t s2" using q by (intro acts_quiet) simp_all
  moreover have "org_action P A s2 ?u" by (rule may_destroy [OF own ran(4)])
  moreover have "org_action P A ?u s'" using may_forget_vm [of ?u "vm_h_id h" A P] own by (simp add: ran(5))
  ultimately show ?thesis by (meson rtranclp.rtrancl_into_rtrancl rtranclp_trans)
qed simp

lemmas handlers_refine = create_vm_refines start_vm_refines stop_vm_refines destroy_vm_refines snapshot_vm_refines
  restore_snapshot_refines delete_snapshot_refines fork_snapshot_refines sandbox_invoke_refines

lemma write_file_refines: "write_file_handler P A i body s = (s', r) \<Longrightarrow> acts P A s s'"
  by (auto simp: write_file_handler_def split: sum.splits prod.splits intro!: acts_quiet)

lemma on_appD: "on_app h f s = (s', r) \<Longrightarrow> \<exists>x. h (sv_app s) = (sv_app s', x) \<and> sv_tokens s' = sv_tokens s"
  by (auto simp: on_app_def split: prod.splits)

lemma route_refines:
  assumes "route P C A role auth req s = (s', r)" and "room (sv_app s)"
  shows "acts P A (sv_app s) (sv_app s')"
  using assms
  by (cases req) (auto simp: query_app_def split: prod.splits dest!: on_appD intro: handlers_refine write_file_refines)

subsection \<open>Runs of the server\<close>

text \<open>The org a request acts for, if the token middleware lets it in.\<close>

definition caller_of :: "api_tokens \<Rightarrow> string option \<Rightarrow> org_id option" where
  "caller_of tokens auth =
     (case require_token (Some tokens) auth :: ((unit, unit, unit) api_error, _) result of
        Inl _ \<Rightarrow> None | Inr (org, _) \<Rightarrow> Some org)"

text \<open>A request from anyone with any header, or one step of one refill task.\<close>

inductive server_step ::
    "('j, 'io, 'f, 'c) platform \<Rightarrow> org_id option \<Rightarrow> 'f server \<Rightarrow> 'f server \<Rightarrow> bool" for P where
  call: "room (sv_app s) \<Longrightarrow>
    v1_call P C auth (req :: string request) s = (s', r :: (('j, 'io, string) api_error, response) result) \<Longrightarrow>
    server_step P (caller_of (sv_tokens s) auth) s s'"
| refill: "room (sv_app s) \<Longrightarrow> n < length (wp_tasks (as_warm_pool (sv_app s))) \<Longrightarrow>
    run_task (pf_env P) n (as_hv (sv_app s)) (as_warm_pool (sv_app s)) = (hv, p) \<Longrightarrow>
    server_step P None s (s\<lparr>sv_app := (sv_app s)\<lparr>as_hv := hv, as_warm_pool := p\<rparr>\<rparr>)"

definition runs :: "('j, 'io, 'f, 'c) platform \<Rightarrow> 'f server \<Rightarrow> 'f server \<Rightarrow> bool" where
  "runs P = (\<lambda>s s'. \<exists>who. server_step P who s s')\<^sup>*\<^sup>*"

text \<open>The server at start: any tokens, quota, pool size and defaults, nothing created yet.\<close>

definition boots :: "'f server \<Rightarrow> bool" where
  "boots s \<longleftrightarrow> (\<exists>fs q n d. sv_app s = with_vm_defaults d (with_warm_pool_size n (with_fork_quota fs MockHypervisor_new q)))"

lemma cp_core_empty: "cp_core (WarmPool_new n) InMemoryStore_default a b"
  by (auto simp: cp_core_def hand_ok_def held_ids WarmPool_new_def queue_ids_def task_ids_def List.map_filter_def
      InMemoryStore_default_def store_vm_owner_def store_snapshot_owner_def)

lemma cp_ok_boots: "boots s \<Longrightarrow> cp_ok (sv_app s)"
  by (auto simp: boots_def with_vm_defaults_def with_warm_pool_size_def with_fork_quota_def cp_ok_def cp_core_empty
      WarmPool_disabled_def MockHypervisor_new_def)

lemma require_token_caller:
  "require_token (Some tokens) auth = Inr (org, role) \<Longrightarrow> caller_of tokens auth = Some org"
  by (auto simp: caller_of_def require_token_def and_then_def ok_or_def split: if_splits sum.splits option.splits)

lemma v1_call_ok:
  fixes P :: "('j, 'io, 'f, 'c) platform" and r :: "(('j, 'io, 'r) api_error, response) result"
  assumes "v1_call P C auth req s = (s', r)" and "room (sv_app s)" and "cp_ok (sv_app s)"
  shows "cp_ok (sv_app s') \<and> untouched (caller_of (sv_tokens s) auth) (sv_app s) (sv_app s')"
proof (cases "require_token (Some (sv_tokens s)) auth :: (('j, 'io, 'r) api_error, _) result")
  case (Inl e)
  with assms show ?thesis by (simp add: v1_call_def untouched_def)
next
  case (Inr x)
  obtain org role where x: "x = (org, role)" by (cases x)
  have "route P C org role auth req s = (s', r)" using assms(1) Inr by (simp add: v1_call_def x)
  from org_actions_ok [OF route_refines [OF this assms(2)] assms(3)] require_token_caller [OF Inr [unfolded x]]
  show ?thesis by simp
qed

lemma run_task_effect:
  assumes "run_task env n hv p = (hv', p')"
  shows "(\<forall>v. v \<noteq> mh_next_vm hv \<longrightarrow> mh_vms hv' v = mh_vms hv v) \<and> mh_snapshots hv' = mh_snapshots hv \<and>
    mh_next_snap hv' = mh_next_snap hv \<and> (hv' = hv \<or> mh_next_vm hv' = mh_next_vm hv + 1)"
proof -
  have "(\<forall>v. v \<noteq> mh_next_vm hv \<longrightarrow> mh_vms h v = mh_vms hv v) \<and> mh_snapshots h = mh_snapshots hv \<and> mh_next_snap h = mh_next_snap hv \<and>
      (h = hv \<or> mh_next_vm h = mh_next_vm hv + 1)"
    if "restore env hv k = (h, r :: ((unit, unit) vm_error, _) result)" for k h r
    using that by (auto simp: restore_def VmId_next_def split: option.splits)
  with assms show ?thesis
    by (cases "wp_tasks p ! n") (fastforce simp: run_task_def task_step_def Let_def split: if_splits prod.splits)+
qed

lemma refill_ok:
  assumes "run_task env n (as_hv s) (as_warm_pool s) = (hv, p)" and "n < length (wp_tasks (as_warm_pool s))"
    and "room s" and "cp_ok s"
  shows "cp_ok (s\<lparr>as_hv := hv, as_warm_pool := p\<rparr>) \<and> untouched None s (s\<lparr>as_hv := hv, as_warm_pool := p\<rparr>)"
proof -
  let ?i = "mh_next_vm (as_hv s)" and ?own = "as_ownership s" and ?m = "unat (mh_next_snap (as_hv s))"
  note core = cp_ok_core [OF assms(4)]
  obtain orig where orig: "hand_ok (queue_ids (as_warm_pool s)) (task_ids (as_warm_pool s)) [] orig (unat ?i)"
    using core by (auto simp: cp_core_def)
  have room: "0 < id_room (as_hv s)" using assms(3) by (simp add: room_def)
  from assms(2,1) room have "cp_core p ?own (unat (mh_next_vm hv)) ?m"
  proof (cases rule: run_task_ids)
    case (restoring k A B)
    from restoring(4) show ?thesis
    proof
      assume "task_ids p = A @ B \<and> hv = as_hv s"
      with core restoring show ?thesis by (simp add: cp_core_def held_def)
    next
      assume new: "task_ids p = A @ [(k, ?i)] @ B \<and> mh_next_vm hv = ?i + 1"
      then have n: "unat (mh_next_vm hv) = Suc (unat ?i)" using unat_next [OF room] by simp
      have "hand_ok (queue_ids p) (task_ids p) [] (orig(?i \<mapsto> k)) (Suc (unat ?i))"
        using hand_ok_restored [of "queue_ids (as_warm_pool s)" A B "[]" orig ?i k] orig restoring new by simp
      moreover have "held p = insert (k, ?i) (held (as_warm_pool s))"
        using restoring new by (auto simp: held_def)
      ultimately show ?thesis
        using core fresh_vm(1) [OF assms(4)] unfolding cp_core_def n by (auto simp: less_Suc_eq)
    qed
  next
    case (restored k r)
    with core show ?thesis by (simp add: cp_core_def held_def)
  next
    case (publishing k h A B)
    have "hand_ok (queue_ids p) (task_ids p) [] orig (unat (mh_next_vm hv))"
      using hand_ok_publish [of "queue_ids (as_warm_pool s)" A k "vm_h_id h" B "[]" orig] orig publishing by simp
    moreover have "held p = held (as_warm_pool s)" using publishing by (auto simp: held_ids split: if_splits)
    ultimately show ?thesis using core publishing(5) unfolding cp_core_def by blast
  qed
  moreover have "untouched None s (s\<lparr>as_hv := hv, as_warm_pool := p\<rparr>)"
    using run_task_effect [OF assms(1)] fresh_vm(1) [OF assms(4)] by (intro untouchedI) (auto, metis option.distinct(1))
  moreover have "unat v < unat (mh_next_vm hv)" if "mh_vms hv v \<noteq> None" for v
    using that assms(4) run_task_effect [OF assms(1)] unat_next [OF room]
    by (cases "v = ?i") (force simp: cp_ok_def)+
  ultimately show ?thesis using run_task_effect [OF assms(1)] by (simp add: cp_ok_def)
qed

lemma server_step_ok:
  assumes "server_step P who s s'" and "cp_ok (sv_app s)"
  shows "cp_ok (sv_app s') \<and> untouched who (sv_app s) (sv_app s')"
  using assms(1)
proof cases
  case (call C auth req r)
  with v1_call_ok [OF call(3,2) assms(2)] show ?thesis by simp
next
  case (refill n hv p)
  with refill_ok [OF refill(5,4,3) assms(2)] show ?thesis by simp
qed

lemma runs_ok: "runs P s0 s \<Longrightarrow> boots s0 \<Longrightarrow> cp_ok (sv_app s)"
  unfolding runs_def
  by (induction rule: rtranclp_induct) (auto simp: cp_ok_boots dest: server_step_ok)


subsection \<open>Sandboxes and forks\<close>

text \<open>What \<open>acquire_vm\<close> does: the VM is new or the pool's, and nobody's yet.\<close>

lemma acquire_vm_effect:
  fixes P :: "('j, 'io, 'f, 'c) platform"
  assumes "acquire_vm P k s = (s1, Inr (h, cold))" and "cp_ok s"
  shows "store_vm_owner (as_ownership s) (vm_h_id h) = None" and "as_ownership s1 = as_ownership s"
    and "mh_snapshots (as_hv s1) = mh_snapshots (as_hv s)"
    and "v \<noteq> vm_h_id h \<Longrightarrow> mh_vms (as_hv s1) v = mh_vms (as_hv s) v"
    and "if cold then vm_h_id h = mh_next_vm (as_hv s) else (k, vm_h_id h) \<in> held (as_warm_pool s) \<and> as_hv s1 = as_hv s"
    and "as_fork_usage s1 = as_fork_usage s"
proof -
  obtain p x where t: "take_warm (as_warm_pool s) k = (p, x)" by (metis prod.exhaust)
  have "store_vm_owner (as_ownership s) (vm_h_id h) = None \<and> as_ownership s1 = as_ownership s \<and>
      mh_snapshots (as_hv s1) = mh_snapshots (as_hv s) \<and>
      (v \<noteq> vm_h_id h \<longrightarrow> mh_vms (as_hv s1) v = mh_vms (as_hv s) v) \<and>
      (if cold then vm_h_id h = mh_next_vm (as_hv s) else (k, vm_h_id h) \<in> held (as_warm_pool s) \<and> as_hv s1 = as_hv s) \<and>
      as_fork_usage s1 = as_fork_usage s"
  proof (cases x)
    case None
    then obtain hv where "restore (pf_env P) (as_hv s) k = (hv, Inr h :: (('j, 'io) vm_error, _) result)" and "cold" and
      "s1 = s\<lparr>as_warm_pool := p, as_metrics := record_warm_miss (as_metrics s), as_hv := hv\<rparr>"
      using assms(1) t by (auto simp: acquire_vm_def Let_def split: prod.splits sum.splits)
    with restore_effect(2) [of "pf_env P" "as_hv s" k hv h] fresh_vm(1) [OF assms(2)] show ?thesis by auto
  next
    case (Some h')
    with assms(1) t have "h' = h" "\<not> cold" and s1: "s1 = s\<lparr>as_warm_pool := p, as_metrics := record_warm_hit (as_metrics s)\<rparr>"
      by (auto simp: acquire_vm_def)
    with cp_core_take_hit(2) [OF cp_ok_core [OF assms(2)] t [unfolded Some]] assms(2) show ?thesis
      by (auto simp: cp_ok_def cp_core_def)
  qed
  then show "store_vm_owner (as_ownership s) (vm_h_id h) = None" and "as_ownership s1 = as_ownership s"
    and "mh_snapshots (as_hv s1) = mh_snapshots (as_hv s)" and "v \<noteq> vm_h_id h \<Longrightarrow> mh_vms (as_hv s1) v = mh_vms (as_hv s) v"
    and "if cold then vm_h_id h = mh_next_vm (as_hv s) else (k, vm_h_id h) \<in> held (as_warm_pool s) \<and> as_hv s1 = as_hv s"
    and "as_fork_usage s1 = as_fork_usage s" by blast+
qed

lemma acquire_vm_error:
  "acquire_vm P k s = (s1, Inl e) \<Longrightarrow> as_hv s1 = as_hv s \<and> as_ownership s1 = as_ownership s"
  by (auto simp: acquire_vm_def Let_def split: prod.splits sum.splits option.splits dest: restore_effect(1))

lemma destroy_gone: "destroy F fs hv i = (fs', hv', r) \<Longrightarrow> mh_vms hv' i = None"
  by (auto simp: destroy_def split: option.splits)


lemma acquire_vm_usage: "acquire_vm P k s = (s1, r) \<Longrightarrow> as_fork_usage s1 = as_fork_usage s"
  by (auto simp: acquire_vm_def Let_def split: prod.splits sum.splits option.splits)

lemma acquire_vm_out:
  assumes "acquire_vm P k s = (s1, Inr (h, cold))" and "cp_ok s"
  shows "(j, vm_h_id h) \<notin> held (as_warm_pool s1)"
proof -
  obtain p x where t: "take_warm (as_warm_pool s) k = (p, x)" by (metis prod.exhaust)
  have p: "as_warm_pool s1 = p"
    using assms(1) t by (auto simp: acquire_vm_def Let_def split: prod.splits sum.splits option.splits)
  show ?thesis
  proof (cases x)
    case None
    then have "cold" using assms(1) t by (auto simp: acquire_vm_def Let_def split: prod.splits sum.splits)
    with acquire_vm_effect(5) [OF assms] fresh_vm(2) [OF assms(2)] take_warm_miss [OF t [unfolded None]] p show ?thesis
      by (simp add: held_def)
  next
    case (Some h')
    with assms(1) t have "h' = h" by (auto simp: acquire_vm_def)
    with cp_core_take_hit(3) [OF cp_ok_core [OF assms(2)] t [unfolded Some]] p show ?thesis by simp
  qed
qed

lemma fork_snapshot_cases:
  fixes P :: "('j, 'io, 'f, 'c) platform" and r :: "(('j, 'io, 'r) api_error, fork_response_dto) result"
  assumes "fork_snapshot P C A i auth s = (s', r)"
  obtains (refused) e where "checked_snapshot A i s = Inl e" "s' = s" "r = Inl e"
    | (throttled) org t where "r = Inl (TooManyRequests org t)" "as_hv s' = as_hv s" "as_warm_pool s' = as_warm_pool s"
      "as_ownership s' = as_ownership s" "as_fork_usage s' = as_fork_usage s"
    | (no_vm) q k e where "acquire_vm P k (s\<lparr>as_fork_quota := q\<rparr>) = (s', Inl e :: (('j, 'io, 'r) api_error, _) result)" "r = Inl e"
    | (forked) q k s1 h cold u where
      "acquire_vm P k (s\<lparr>as_fork_quota := q\<rparr>) = (s1, (Inr (h, cold) :: (('j, 'io, 'r) api_error, _) result))"
      "charge_fork (extract_bearer auth) A (of_nat (cc_elapsed_ms C)) (s1\<lparr>as_ownership := record_vm (as_ownership s1) (vm_h_id h) A\<rparr>) = (s', u)"
      "r = Inr \<lparr>fr_vm = VmHandleDto_from h, fr_fork_ms = of_nat (cc_elapsed_ms C), fr_fork_count = fu_count u, fr_fork_total_ms = fu_total_ms u\<rparr>"
proof (cases "checked_snapshot A i s :: (('j, 'io, 'r) api_error, _) result")
  case (Inl e)
  moreover have "s' = s" "r = Inl e" using assms Inl by (auto simp: fork_snapshot_def)
  ultimately show ?thesis by (rule refused)
next
  case k: (Inr k)
  let ?b = "extract_bearer auth"
  obtain q x where q: "try_acquire (cc_token_created C) (cc_token_now C) (as_fork_quota s) ?b = (q, x)" by (metis prod.exhaust)
  obtain q' x' where q': "try_acquire_org (cc_org_created C) (cc_org_now C) q A None None = (q', x')" by (metis prod.exhaust)
  show ?thesis
  proof (cases "is_ok x \<and> is_ok x'")
    case False
    then have "\<exists>org t. r = Inl (TooManyRequests org t) \<and> as_hv s' = as_hv s \<and> as_warm_pool s' = as_warm_pool s \<and>
        as_ownership s' = as_ownership s \<and> as_fork_usage s' = as_fork_usage s"
      using assms k q q' by (auto simp: fork_snapshot_def Let_def is_ok_def split: sum.splits)
    then show ?thesis using throttled by blast
  next
    case True
    obtain s1 y where a: "acquire_vm P k (s\<lparr>as_fork_quota := q'\<rparr>) = (s1, y :: (('j, 'io, 'r) api_error, _) result)" by (metis prod.exhaust)
    show ?thesis
    proof (cases y)
      case (Inl e)
      with True assms k q q' a have "s' = s1" "r = Inl e"
        by (auto simp: fork_snapshot_def Let_def is_ok_def split: sum.splits)
      with a Inl no_vm show ?thesis by metis
    next
      case (Inr hc)
      obtain h c where hc: "hc = (h, c)" by (cases hc)
      let ?t = "s1\<lparr>as_ownership := record_vm (as_ownership s1) (vm_h_id h) A\<rparr>"
      obtain u where u: "charge_fork ?b A (of_nat (cc_elapsed_ms C)) ?t = (s', u)" and
        "r = Inr \<lparr>fr_vm = VmHandleDto_from h, fr_fork_ms = of_nat (cc_elapsed_ms C), fr_fork_count = fu_count u, fr_fork_total_ms = fu_total_ms u\<rparr>"
        using True assms k q q' a Inr hc by (auto simp: fork_snapshot_def Let_def is_ok_def split: sum.splits prod.splits)
      then show ?thesis by (intro forked [OF a [unfolded Inr hc]])
    qed
  qed
qed


subsection \<open>A concrete server\<close>

definition sample_platform :: "(unit, unit, path \<rightharpoonup> bytes, unit) platform" where
  "sample_platform =
     \<lparr>pf_fs = mem_fs, pf_from_slice = (\<lambda>_. Err ()), pf_to_vec = (\<lambda>_. Err ()), pf_env = sample_env,
      pf_exec = \<lparr>eh_spawn = (\<lambda>_. Ok ()), eh_wait_with_output =
          (\<lambda>_. Ok \<lparr>po_code = Some 0, po_signal = None, po_stdout = [104, 105], po_stderr = []\<rparr>), eh_elapsed_ms = (\<lambda>_. 3)\<rparr>,
      pf_snapshot_request = (\<lambda>_. Ok None), pf_sandbox_snapshot_id = None\<rparr>"

definition sample_ctx :: call_ctx where
  "sample_ctx =
     \<lparr>cc_token_created = 0, cc_token_now = 0, cc_org_created = 0, cc_org_now = 0, cc_elapsed_ms = 7,
      cc_vm_order = [2, 1], cc_snapshot_order = [1], cc_token_order = [], cc_write_ok = True, cc_new_token = [],
      cc_new_token_id = [], cc_created_at = []\<rparr>"

definition two_tenants :: api_tokens where
  "two_tenants =
     \<lparr>at_by_token = [''k1'' \<mapsto> \<lparr>te_org = ''acme'', te_role = Admin, te_source = Env\<rparr>,
                     ''k2'' \<mapsto> \<lparr>te_org = ''globex'', te_role = Admin, te_source = Env\<rparr>],
      at_id_to_token = Map.empty, at_persist = False, at_file = []\<rparr>"

definition server0 :: "(path \<rightharpoonup> bytes) server" where
  "server0 = \<lparr>sv_tokens = two_tenants, sv_app =
     with_vm_defaults VmConfigDefaults_default
       (with_warm_pool_size 0 (with_fork_quota Map.empty MockHypervisor_new (ForkQuota_new 0 0)))\<rparr>"

definition req0 :: create_vm_request where
  "req0 = \<lparr>cr_vcpus = 1, cr_memory_mib = 128, cr_kernel = None, cr_rootfs = None, cr_cmdline = [], cr_vsock_cid = None,
     cr_snapshot_dir = None, cr_net_backend = None\<rparr>"

definition call0 :: "string \<Rightarrow> string request \<Rightarrow> (path \<rightharpoonup> bytes) server \<Rightarrow> (path \<rightharpoonup> bytes) server" where
  "call0 tok req s = fst (v1_call sample_platform sample_ctx (Some (''Bearer '' @ tok)) req s)"

lemma call0_step:
  "room (sv_app s) \<Longrightarrow> server_step sample_platform (caller_of (sv_tokens s) (Some (''Bearer '' @ tok))) s (call0 tok req s)"
  unfolding call0_def by (rule call) (simp_all add: prod_eq_iff)

lemma runs_call:
  assumes "room (sv_app s)" and "call0 tok req s = s'" and "runs sample_platform s' t"
  shows "runs sample_platform s t"
  using assms(3) call0_step [OF assms(1), of tok req] unfolding runs_def assms(2)
  by (intro converse_rtranclp_into_rtranclp [of _ s s' t]) auto

lemma two_tenants_tokens:
  "require_token (Some two_tenants) (Some (''Bearer '' @ ''k1'')) = Inr (''acme'', Admin)"
  "require_token (Some two_tenants) (Some (''Bearer '' @ ''k2'')) = Inr (''globex'', Admin)"
  by (simp_all add: require_token_def two_tenants_def ApiTokens_is_empty_def header_to_str_def parse_bearer_scheme_def
      trim_start_def is_ws_def is_ascii_ws_def to_ascii_lowercase_def ascii_lower_def char_of_def bit_Suc_0_iff token_resolve_def)

text \<open>One VM, made by acme, started, and its snapshot.\<close>

definition vm1 :: "vm_state \<Rightarrow> mock_vm" where
  "vm1 st = \<lparr>mv_config = VmConfig_default, mv_state = st, mv_guest_root = guest_root_dir sample_env 1\<rparr>"

definition acme_server :: "vm_state \<Rightarrow> bool \<Rightarrow> (path \<rightharpoonup> bytes) server" where
  "acme_server st snap = \<lparr>sv_tokens = two_tenants, sv_app = \<lparr>as_fs = Map.empty,
     as_hv = \<lparr>mh_vms = [1 \<mapsto> vm1 st], mh_snapshots =
         (if snap then [1 \<mapsto> \<lparr>ms_config = VmConfig_default, ms_state = Running\<rparr>] else Map.empty),
       mh_next_vm = 2, mh_next_snap = (if snap then 2 else 1)\<rparr>,
     as_fork_usage = Map.empty, as_fork_quota = ForkQuota_new 0 0, as_metrics = Metrics_new, as_warm_pool = WarmPool_disabled,
     as_ownership = \<lparr>os_vms = [1 \<mapsto> ''acme''], os_snapshots = (if snap then [1 \<mapsto> ''acme''] else Map.empty)\<rparr>,
     as_vm_defaults = VmConfigDefaults_default\<rparr>\<rparr>"

lemmas server_eval = v1_call_def call0_def two_tenants_tokens on_app_def query_app_def sample_platform_def

lemma server_create: "call0 ''k1'' (CreateVm (Ok req0)) server0 = acme_server Created False"
  by (simp add: server_eval server0_def acme_server_def vm1_def with_vm_defaults_def with_warm_pool_size_def with_fork_quota_def
      create_vm_handler_def req0_def VmConfig_from_def apply_to_def VmConfigDefaults_default_def create_vm_def
      MockHypervisor_new_def VmId_next_def InMemoryStore_default_def record_vm_def VmConfig_default_def del: append.simps)

lemma server_start: "call0 ''k1'' (StartVm (Ok 1)) (acme_server Created False) = acme_server Running False"
  by (simp add: server_eval acme_server_def start_vm_def checked_vm_def require_vm_access_def vm_owner_def store_vm_owner_def
      start_def vm1_def del: append.simps)

lemma server_snapshot: "call0 ''k1'' (SnapshotVm (Ok 1) []) (acme_server Running False) = acme_server Running True"
  by (simp add: server_eval acme_server_def snapshot_vm_def checked_vm_def require_vm_access_def vm_owner_def store_vm_owner_def
      snapshot_def SnapshotId_next_def record_snapshot_def vm1_def VmConfig_default_def del: append.simps)

lemma acme_server_runs: "boots server0" "runs sample_platform server0 (acme_server Running True)"
proof -
  show "boots server0" unfolding boots_def server0_def by auto
  have room: "room (sv_app server0)" "room (sv_app (acme_server st b))" for st b
    by (simp_all add: room_def id_room_def server0_def acme_server_def with_vm_defaults_def with_warm_pool_size_def
        with_fork_quota_def MockHypervisor_new_def)
  show "runs sample_platform server0 (acme_server Running True)"
    by (rule runs_call [OF room(1) server_create], rule runs_call [OF room(2) server_start],
        rule runs_call [OF room(2) server_snapshot]) (simp add: runs_def)
qed




subsection \<open>Who gets in\<close>

definition presented :: "string option \<Rightarrow> string option" where
  "presented auth = Option.bind (Option.bind auth header_to_str) parse_bearer_scheme"

text \<open>
  C4: Access is guarded before anything happens. With tokens configured, a call without a known token is
  answered 401 and changes nothing, keys included. A Viewer's attempt to destroy a VM or delete a
  snapshot, and anyone below Admin issuing or revoking a key, is answered 403 and changes nothing.
\<close>
theorem access_is_guarded:
  "(\<not> ApiTokens_is_empty (sv_tokens s) \<longrightarrow> (\<forall>tok. presented auth = Some tok \<longrightarrow> \<not> accepts (sv_tokens s) tok) \<longrightarrow>
      (\<exists>u. v1_call P C auth req s = (s, Err (Unauthorized u)))) \<and>
   (\<forall>org role. require_token (Some (sv_tokens s)) auth = (Inr (org, role) :: (('j, 'io, 'r) api_error, _) result) \<longrightarrow>
      (role < Developer \<longrightarrow> req \<in> {DestroyVm i, DeleteSnapshot i} \<longrightarrow>
         v1_call P C auth req s = (s, Err (Forbidden (RoleRequired Developer role)))) \<and>
      (role < Admin \<longrightarrow> req \<in> {IssueKey, RevokeKey j} \<longrightarrow>
         v1_call P C auth req s = (s, Err (Forbidden (RoleRequired Admin role)))))"
  for P :: "('j, 'io, 'f, 'c) platform" and req :: "'r request"
proof (intro conjI impI allI)
  assume "\<not> ApiTokens_is_empty (sv_tokens s)" and "\<forall>tok. presented auth = Some tok \<longrightarrow> \<not> accepts (sv_tokens s) tok"
  then show "\<exists>u. v1_call P C auth req s = (s, Err (Unauthorized u))"
    by (cases "presented auth") (auto simp: v1_call_def require_token_def presented_def accepts_def token_resolve_def)
next
  fix org role
  assume "require_token (Some (sv_tokens s)) auth = (Inr (org, role) :: (('j, 'io, 'r) api_error, _) result)"
    and "role < Developer" and "req \<in> {DestroyVm i, DeleteSnapshot i}"
  then show "v1_call P C auth req s = (s, Err (Forbidden (RoleRequired Developer role)))"
    by (auto simp: v1_call_def on_app_def destroy_vm_def delete_snapshot_handler_def require_role_def)
next
  fix org role
  assume "require_token (Some (sv_tokens s)) auth = (Inr (org, role) :: (('j, 'io, 'r) api_error, _) result)"
    and "role < Admin" and "req \<in> {IssueKey, RevokeKey j}"
  then show "v1_call P C auth req s = (s, Err (Forbidden (RoleRequired Admin role)))"
    by (auto simp: v1_call_def issue_key_def revoke_key_def require_role_def)
qed

theorem access_is_guarded_witness:
  "\<exists>u. v1_call sample_platform sample_ctx (Some ''Bearer k3'') (CreateVm (Ok req0) :: string request) server0 = (server0, Err (Unauthorized u))"
proof -
  have "\<not> ApiTokens_is_empty (sv_tokens server0)" by (simp add: server0_def two_tenants_def ApiTokens_is_empty_def)
  moreover have "presented (Some ''Bearer k3'') = Some ''k3''"
    by (simp add: presented_def header_to_str_def parse_bearer_scheme_def trim_start_def is_ws_def is_ascii_ws_def
        to_ascii_lowercase_def ascii_lower_def char_of_def bit_Suc_0_iff)
  moreover have "\<not> accepts (sv_tokens server0) ''k3''" by (simp add: server0_def two_tenants_def accepts_def)
  ultimately show ?thesis
    using access_is_guarded [of server0 "Some ''Bearer k3''" sample_platform sample_ctx "CreateVm (Ok req0)"] by auto
qed

subsection \<open>Deviations\<close>

text \<open>
  The metered endpoints read the header more strictly than the middleware: the scheme in lower case
  authenticates, but the fork quota and the usage counters then see no token.
\<close>
lemma lower_case_scheme_unmetered:
  "require_token (Some two_tenants) (Some ''bearer k1'') = Inr (''acme'', Admin)" "extract_bearer (Some ''bearer k1'') = None"
  by (simp_all add: require_token_def two_tenants_def ApiTokens_is_empty_def header_to_str_def parse_bearer_scheme_def
      trim_start_def is_ws_def is_ascii_ws_def to_ascii_lowercase_def ascii_lower_def token_resolve_def extract_bearer_def
      strip_prefix_def)

text \<open>
  VMs of the pool are recorded to nobody, so they belong to the default org, which can destroy them; the
  pool keeps the handle, and the next fork of that snapshot succeeds with a VM that does not exist.
\<close>
lemma fork_of_destroyed_vm:
  fixes P :: "('j, 'io, 'f, 'c) platform" and s :: "'f app_state"
  assumes "wp_queues (as_warm_pool s) k = Some (h # q)" and "wp_per_snapshot (as_warm_pool s) \<noteq> 0"
    and "store_vm_owner (as_ownership s) (vm_h_id h) = None" and "store_snapshot_owner (as_ownership s) k = None"
    and "mh_vms (as_hv s) (vm_h_id h) \<noteq> None" and "is_disabled (as_fork_quota s)"
    and "destroy_vm P default_org Developer (Ok (vm_h_id h)) s = (s1, r1 :: (('j, 'io, 'r) api_error, unit) result)"
    and "fork_snapshot P C default_org (Ok k) auth s1 = (s2, r2 :: (('j, 'io, 'r) api_error, fork_response_dto) result)"
  shows "\<exists>f. r2 = Inr f \<and> hd_id (fr_vm f) = vm_h_id h \<and> mh_vms (as_hv s2) (vm_h_id h) = None"
proof -
  obtain fs hv where d: "destroy (pf_fs P) (as_fs s) (as_hv s) (vm_h_id h) = (fs, hv, Inr () :: (('j, 'io) vm_error, unit) result)"
    using assms(5) by (auto simp: destroy_def)
  then have s1: "s1 = s\<lparr>as_fs := fs, as_hv := hv, as_ownership := forget_vm (as_ownership s) (vm_h_id h)\<rparr>"
    using assms(3,7) by (auto simp: destroy_vm_def require_role_def checked_vm_def require_vm_access_def vm_owner_def)
  have own: "snapshot_owner (as_ownership s1) k = default_org" using assms(4) by (simp add: s1 snapshot_owner_def)
  have take: "take_warm (as_warm_pool s1) k = (fst (take_warm (as_warm_pool s1) k), Some h)"
    using assms(1,2) by (simp add: s1 take_warm_def pool_is_disabled_def)
  have gone: "mh_vms hv (vm_h_id h) = None" by (rule destroy_gone [OF d])
  from assms(8) show ?thesis
    using own take assms(6) gone
    by (auto simp: fork_snapshot_def checked_snapshot_def require_snapshot_access_def try_acquire_def try_acquire_org_def
        acquire_vm_def s1 is_disabled_def Let_def VmHandleDto_from_def split: prod.splits dest!: charge_fork_quiet)
qed

end
