(* ===== verification/Listing.thy ===== *)
theory Listing
  imports Control_Plane
begin

text \<open>
  Pagination of \<^verbatim>\<open>GET /v1/vms\<close> and \<^verbatim>\<open>GET /v1/snapshots\<close>. A client asks for the first page and then passes
  each page's \<open>next\<close> as \<open>after\<close> until there is none. It is proved that this visits exactly the resources
  of the caller's org, each once, by ascending id, whatever the order in which the hash maps are walked.
\<close>

subsection \<open>A client that follows the pages\<close>

text \<open>The fuel is the number of requests the client is willing to make; \<open>None\<close> when it runs out.\<close>

fun follow ::
    "(nat \<Rightarrow> u64 option \<Rightarrow> ('err, 'e list \<times> u64 option) result) \<Rightarrow> nat \<Rightarrow> u64 option \<Rightarrow> ('err, 'e list) result option" where
  "follow fetch 0 after = None"
| "follow fetch (Suc n) after =
     (case fetch n after of
        Inl e \<Rightarrow> Some (Inl e)
      | Inr (es, None) \<Rightarrow> Some (Inr es)
      | Inr (es, Some i) \<Rightarrow> map_option (map_sum id ((@) es)) (follow fetch n (Some i)))"

text \<open>A page holds the first \<open>l\<close> items above \<open>after\<close>, and \<open>next\<close> is the last of them if more are left.\<close>

definition paged ::
    "(nat \<Rightarrow> u64 option \<Rightarrow> ('err, 'e list \<times> u64 option) result) \<Rightarrow> u64 list \<Rightarrow> (u64 \<Rightarrow> 'e) \<Rightarrow> nat \<Rightarrow> bool" where
  "paged fetch items entry l \<longleftrightarrow>
     (\<forall>n after. let rest = filter (\<lambda>i. i > (case after of None \<Rightarrow> 0 | Some a \<Rightarrow> a)) items in
        fetch n after = Inr (map entry (take l rest), if length rest > l then Some (last (take l rest)) else None))"

lemma rest_after_page:
  assumes "sorted items" "distinct items" and "rest = filter (\<lambda>i. i > a) items" and "0 < l" "l < length rest"
  shows "filter (\<lambda>i. i > last (take l rest)) items = drop l rest"
proof -
  let ?b = "last (take l rest)"
  have sd: "sorted_wrt (<) rest" using assms(1-3) by (simp add: strict_sorted_iff sorted_wrt_filter)
  have "take l rest \<noteq> []" using assms(4,5) by auto
  then have b: "?b = rest ! (l - 1)" using assms(5) by (simp add: last_conv_nth)
  have "?b \<in> set rest" using assms(4,5) by (simp add: b)
  then have "a < ?b" using assms(3) by auto
  then have "filter (\<lambda>i. i > ?b) items = filter (\<lambda>i. i > ?b) rest"
    unfolding assms(3) filter_filter by (intro filter_cong) auto
  also have "\<dots> = filter (\<lambda>i. i > ?b) (take l rest) @ filter (\<lambda>i. i > ?b) (drop l rest)"
    by (metis append_take_drop_id filter_append)
  also have "filter (\<lambda>i. i > ?b) (take l rest) = []"
  proof -
    have "rest ! i \<le> rest ! (l - 1)" if "i < l" for i
      using sd that assms(5) by (intro sorted_nth_mono) (auto simp: strict_sorted_iff)
    then show ?thesis by (auto simp: filter_empty_conv b in_set_conv_nth not_less)
  qed
  also have "filter (\<lambda>i. i > ?b) (drop l rest) = drop l rest"
  proof (rule filter_True, rule ballI)
    fix x assume "x \<in> set (drop l rest)"
    then obtain j where "x = rest ! (l + j)" "l + j < length rest" by (auto simp: in_set_conv_nth)
    moreover have "rest ! (l - 1) < rest ! (l + j)"
      using sorted_wrt_nth_less [OF sd _ calculation(2), of "l - 1"] assms(4) by simp
    ultimately show "?b < x" by (simp add: b)
  qed
  finally show ?thesis by simp
qed

lemma follow_pages:
  assumes "paged fetch items entry l" and "sorted items" "distinct items" and "0 < l"
    and "length (filter (\<lambda>i. i > (case after of None \<Rightarrow> 0 | Some a \<Rightarrow> a)) items) < n"
  shows "follow fetch n after = Some (Inr (map entry (filter (\<lambda>i. i > (case after of None \<Rightarrow> 0 | Some a \<Rightarrow> a)) items)))"
  using assms(5)
proof (induction n arbitrary: after)
  case (Suc n)
  define a where "a = (case after of None \<Rightarrow> 0 | Some a \<Rightarrow> a)"
  define rest where "rest = filter (\<lambda>i. i > a) items"
  have f: "fetch n after = Inr (map entry (take l rest), if length rest > l then Some (last (take l rest)) else None)"
    using assms(1) unfolding paged_def rest_def a_def Let_def by blast
  show ?case
  proof (cases "length rest > l")
    case True
    let ?b = "last (take l rest)"
    have drop: "filter (\<lambda>i. i > ?b) items = drop l rest"
      by (rule rest_after_page [OF assms(2,3) rest_def assms(4) True])
    have "length (drop l rest) < n" using Suc.prems True assms(4) by (simp add: rest_def a_def)
    with Suc.IH [of "Some ?b"] drop have "follow fetch n (Some ?b) = Some (Inr (map entry (drop l rest)))" by simp
    with f True have "follow fetch (Suc n) after = Some (Inr (map entry (take l rest) @ map entry (drop l rest)))" by simp
    also have "map entry (take l rest) @ map entry (drop l rest) = map entry rest" by (simp flip: map_append)
    finally show ?thesis by (simp add: rest_def a_def)
  qed (use f in \<open>simp add: rest_def a_def\<close>)
qed simp

lemma sort_key_map: "sort_key g (map f xs) = map f (sort_key (\<lambda>x. g (f x)) xs)"
proof -
  have "insort_key g (f x) (map f ys) = map f (insort_key (\<lambda>x. g (f x)) x ys)" for x ys
    by (induction ys) auto
  then show ?thesis by (induction xs) auto
qed

lemma page_ids:
  assumes "distinct ids" and "\<And>i. ident (f i) = i"
  shows "page ident after limit (map f ids) =
    (let rest = filter (\<lambda>i. i > after) (sorted_list_of_set (set ids))
     in (map f (take (unat limit) rest), length rest > unat limit))"
proof -
  have "sort_key ident (map f ids) = map f (sort ids)" by (simp add: sort_key_map assms(2))
  also have "sort ids = sorted_list_of_set (set ids)" by (simp add: sorted_list_of_set_sort_remdups assms(1) distinct_remdups_id)
  finally show ?thesis by (simp add: page_def Let_def filter_map comp_def assms(2) take_map)
qed

subsection \<open>The two listings\<close>

definition walk_ok :: "'a list \<Rightarrow> ('a \<rightharpoonup> 'b) \<Rightarrow> bool" where
  "walk_ok order m \<longleftrightarrow> distinct order \<and> set order = dom m"

definition vm_entry :: "'f app_state \<Rightarrow> vm_id \<Rightarrow> vm_list_entry" where
  "vm_entry s i = (case vm_meta_of (as_hv s) i :: ((unit, unit) vm_error, _) result of
     Inr m \<Rightarrow> VmListEntry_from_meta m | Inl _ \<Rightarrow> VmListEntry_id_only \<lparr>vm_h_id = i, vm_h_state = Created\<rparr>)"

definition snapshot_entry :: "'f app_state \<Rightarrow> snapshot_id \<Rightarrow> snapshot_list_entry" where
  "snapshot_entry s k = (case snapshot_meta_of (as_hv s) k :: ((unit, unit) vm_error, _) result of
     Inr m \<Rightarrow> SnapshotListEntry_from_meta m | Inl _ \<Rightarrow> SnapshotListEntry_id_only k)"

definition org_vms :: "org_id \<Rightarrow> 'f app_state \<Rightarrow> vm_id list" where
  "org_vms org s = sorted_list_of_set {i \<in> dom (mh_vms (as_hv s)). vm_owner (as_ownership s) i = org}"

definition org_snapshots :: "org_id \<Rightarrow> 'f app_state \<Rightarrow> snapshot_id list" where
  "org_snapshots org s = sorted_list_of_set {k \<in> dom (mh_snapshots (as_hv s)). snapshot_owner (as_ownership s) k = org}"

definition vm_page :: "(nat \<Rightarrow> call_ctx) \<Rightarrow> org_id \<Rightarrow> u32 option \<Rightarrow> 'f app_state \<Rightarrow> nat \<Rightarrow> u64 option \<Rightarrow>
    ((unit, unit, unit) api_error, vm_list_entry list \<times> u64 option) result" where
  "vm_page Cs org limit s n after =
     map_sum id (\<lambda>r. (vl_vms r, vl_next r)) (list_vms_handler (Cs n) org \<lparr>lq_limit = limit, lq_after = after\<rparr> s)"

definition snapshot_page :: "(nat \<Rightarrow> call_ctx) \<Rightarrow> org_id \<Rightarrow> u32 option \<Rightarrow> 'f app_state \<Rightarrow> nat \<Rightarrow> u64 option \<Rightarrow>
    ((unit, unit, unit) api_error, snapshot_list_entry list \<times> u64 option) result" where
  "snapshot_page Cs org limit s n after =
     map_sum id (\<lambda>r. (sl_snapshots r, sl_next r)) (list_snapshots_handler (Cs n) org \<lparr>lq_limit = limit, lq_after = after\<rparr> s)"

lemma limit_ok:
  assumes "limit \<noteq> Some 0" and "\<forall>n. limit = Some n \<longrightarrow> n \<le> 1000"
  shows "\<exists>l. validated_limit \<lparr>lq_limit = limit, lq_after = after\<rparr> = Inr l \<and> l = (case limit of None \<Rightarrow> 100 | Some n \<Rightarrow> n) \<and> 0 < unat l"
  using assms by (cases limit) (auto simp: validated_limit_def DEFAULT_LIST_LIMIT_def MAX_LIST_LIMIT_def unat_gt_0)

definition page_size :: "u32 option \<Rightarrow> nat" where
  "page_size limit = unat (case limit of None \<Rightarrow> 100 | Some n \<Rightarrow> n)"

lemma try_map_ok: "(\<And>x. x \<in> set xs \<Longrightarrow> f x = Inr (g x)) \<Longrightarrow> try_map f xs = Inr (map g xs)"
  by (induction xs) (auto simp: and_then_def)

lemma vm_entry_case:
  assumes "mh_vms (as_hv s) i \<noteq> None"
  shows "(case vm_meta_of (as_hv s) i of
      Inr meta \<Rightarrow> Ok (VmListEntry_from_meta meta)
    | Inl (Unsupported _) \<Rightarrow> Ok (VmListEntry_id_only h)
    | Inl (UnknownVm _) \<Rightarrow> Ok (VmListEntry_id_only h)
    | Inl e \<Rightarrow> Err (Vm e)) = (Inr (vm_entry s i) :: (('j, 'io, 'r) api_error, _) result)"
  using assms by (auto simp: vm_meta_of_def vm_entry_def)

lemma snapshot_entry_case:
  assumes "mh_snapshots (as_hv s) k \<noteq> None"
  shows "(case snapshot_meta_of (as_hv s) k of
      Inr meta \<Rightarrow> Ok (SnapshotListEntry_from_meta meta)
    | Inl (Unsupported _) \<Rightarrow> Ok (SnapshotListEntry_id_only k)
    | Inl (UnknownSnapshot _) \<Rightarrow> Ok (SnapshotListEntry_id_only k)
    | Inl e \<Rightarrow> Err (Vm e)) = (Inr (snapshot_entry s k) :: (('j, 'io, 'r) api_error, _) result)"
  using assms by (auto simp: snapshot_meta_of_def snapshot_entry_def)

lemma entry_ids: "ve_id (vm_entry s i) = i" "se_id (snapshot_entry s k) = k"
  by (cases "mh_vms (as_hv s) i"; cases "mh_snapshots (as_hv s) k";
      simp add: vm_entry_def VmListEntry_from_meta_def VmListEntry_id_only_def vm_meta_of_def snapshot_entry_def
        SnapshotListEntry_from_meta_def SnapshotListEntry_id_only_def snapshot_meta_of_def)+

text \<open>The handles the hypervisor lists, as a function of the ids.\<close>

definition listed_handle :: "mock_hv \<Rightarrow> vm_id \<Rightarrow> vm_handle" where
  "listed_handle hv i = \<lparr>vm_h_id = i, vm_h_state = (case mh_vms hv i of Some vm \<Rightarrow> mv_state vm | None \<Rightarrow> Created)\<rparr>"

lemma list_vms_handles: "set order \<subseteq> dom (mh_vms hv) \<Longrightarrow> list_vms order hv = Inr (map (listed_handle hv) order)"
  unfolding list_vms_def by (induction order) (auto simp: List.map_filter_def listed_handle_def)

lemma list_snapshots_ids: "set order \<subseteq> dom (mh_snapshots hv) \<Longrightarrow> list_snapshots order hv = Inr order"
  unfolding list_snapshots_def by (induction order) auto

lemma walk_finite: "walk_ok order m \<Longrightarrow> finite (dom m)"
  unfolding walk_ok_def by (metis List.finite_set)

lemma vm_page_paged:
  assumes "\<And>n. walk_ok (cc_vm_order (Cs n)) (mh_vms (as_hv s))" and "limit \<noteq> Some 0" and "\<forall>n. limit = Some n \<longrightarrow> n \<le> 1000"
  shows "paged (vm_page Cs org limit s) (org_vms org s) (vm_entry s) (page_size limit)"
  unfolding paged_def
proof (intro allI)
  fix n after
  define a where "a = (case after of None \<Rightarrow> 0 :: u64 | Some a \<Rightarrow> a)"
  define rest where "rest = filter (\<lambda>i. i > a) (org_vms org s)"
  let ?order = "cc_vm_order (Cs n)" and ?h = "listed_handle (as_hv s)"
  obtain l where l: "validated_limit \<lparr>lq_limit = limit, lq_after = after\<rparr> = (Inr l :: ((unit, unit, unit) api_error, _) result)"
      "unat l = page_size limit" "0 < unat l"
    using limit_ok [OF assms(2,3)] by (auto simp: page_size_def)
  have w: "distinct ?order" "set ?order = dom (mh_vms (as_hv s))" using assms(1) by (auto simp: walk_ok_def)
  let ?ids = "filter (\<lambda>i. vm_owner (as_ownership s) i = org) ?order"
  have "filter (\<lambda>x. vm_owner (as_ownership s) (vm_h_id x) = org) (map ?h ?order) = map ?h ?ids"
    by (simp add: filter_map comp_def listed_handle_def)
  moreover have "sorted_list_of_set (set ?ids) = org_vms org s"
    unfolding org_vms_def by (rule arg_cong [where f = sorted_list_of_set]) (use w(2) in auto)
  then have "page vm_h_id a l (map ?h ?ids) = (map ?h (take (unat l) rest), length rest > unat l)"
    using page_ids [of ?ids vm_h_id ?h a l] w(1) by (simp add: listed_handle_def rest_def Let_def)
  moreover have "\<forall>i \<in> set rest. mh_vms (as_hv s) i \<noteq> None"
    using walk_finite [OF assms(1)] by (auto simp: rest_def org_vms_def)
  then have "try_map (\<lambda>h. case vm_meta_of (as_hv s) (vm_h_id h) of
        Inr meta \<Rightarrow> Ok (VmListEntry_from_meta meta)
      | Inl (Unsupported _) \<Rightarrow> Ok (VmListEntry_id_only h)
      | Inl (UnknownVm _) \<Rightarrow> Ok (VmListEntry_id_only h)
      | Inl e \<Rightarrow> Err (Vm e)) (map ?h (take (unat l) rest))
      = (Inr (map (\<lambda>h. vm_entry s (vm_h_id h)) (map ?h (take (unat l) rest))) :: ((unit, unit, unit) api_error, _) result)"
    by (intro try_map_ok vm_entry_case) (auto simp: listed_handle_def dest: in_set_takeD)
  moreover have "list_vms ?order (as_hv s) = (Inr (map ?h ?order) :: ((unit, unit) vm_error, _) result)"
    by (rule list_vms_handles) (simp add: w(2))
  ultimately have "vm_page Cs org limit s n after =
      Inr (map (vm_entry s) (take (unat l) rest), if length rest > unat l then Some (last (take (unat l) rest)) else None)"
    using l(1,3) by (auto simp: vm_page_def list_vms_handler_def Let_def a_def listed_handle_def comp_def last_map entry_ids and_then_def map_err_def)
  then show "let rest = filter (\<lambda>i. i > (case after of None \<Rightarrow> 0 | Some a \<Rightarrow> a)) (org_vms org s) in
      vm_page Cs org limit s n after =
        Inr (map (vm_entry s) (take (page_size limit) rest), if length rest > page_size limit then Some (last (take (page_size limit) rest)) else None)"
    by (simp add: Let_def l(2) rest_def a_def)
qed

lemma snapshot_page_paged:
  assumes "\<And>n. walk_ok (cc_snapshot_order (Cs n)) (mh_snapshots (as_hv s))" and "limit \<noteq> Some 0" and "\<forall>n. limit = Some n \<longrightarrow> n \<le> 1000"
  shows "paged (snapshot_page Cs org limit s) (org_snapshots org s) (snapshot_entry s) (page_size limit)"
  unfolding paged_def
proof (intro allI)
  fix n after
  define a where "a = (case after of None \<Rightarrow> 0 :: u64 | Some a \<Rightarrow> a)"
  define rest where "rest = filter (\<lambda>i. i > a) (org_snapshots org s)"
  let ?order = "cc_snapshot_order (Cs n)"
  obtain l where l: "validated_limit \<lparr>lq_limit = limit, lq_after = after\<rparr> = (Inr l :: ((unit, unit, unit) api_error, _) result)"
      "unat l = page_size limit" "0 < unat l"
    using limit_ok [OF assms(2,3)] by (auto simp: page_size_def)
  have w: "distinct ?order" "set ?order = dom (mh_snapshots (as_hv s))" using assms(1) by (auto simp: walk_ok_def)
  let ?ids = "filter (\<lambda>i. snapshot_owner (as_ownership s) i = org) ?order"
  have "sorted_list_of_set (set ?ids) = org_snapshots org s"
    unfolding org_snapshots_def by (rule arg_cong [where f = sorted_list_of_set]) (use w(2) in auto)
  then have "page id a l ?ids = (take (unat l) rest, length rest > unat l)"
    using page_ids [of ?ids id id a l] w(1) by (simp add: rest_def Let_def)
  moreover have "\<forall>i \<in> set rest. mh_snapshots (as_hv s) i \<noteq> None"
    using walk_finite [OF assms(1)] by (auto simp: rest_def org_snapshots_def)
  then have "try_map (\<lambda>k. case snapshot_meta_of (as_hv s) k of
        Inr meta \<Rightarrow> Ok (SnapshotListEntry_from_meta meta)
      | Inl (Unsupported _) \<Rightarrow> Ok (SnapshotListEntry_id_only k)
      | Inl (UnknownSnapshot _) \<Rightarrow> Ok (SnapshotListEntry_id_only k)
      | Inl e \<Rightarrow> Err (Vm e)) (take (unat l) rest)
      = (Inr (map (snapshot_entry s) (take (unat l) rest)) :: ((unit, unit, unit) api_error, _) result)"
    by (intro try_map_ok snapshot_entry_case) (auto dest: in_set_takeD)
  moreover have "list_snapshots ?order (as_hv s) = (Inr ?order :: ((unit, unit) vm_error, _) result)"
    by (rule list_snapshots_ids) (simp add: w(2))
  ultimately have "snapshot_page Cs org limit s n after =
      Inr (map (snapshot_entry s) (take (unat l) rest), if length rest > unat l then Some (last (take (unat l) rest)) else None)"
    using l(1,3) by (auto simp: snapshot_page_def list_snapshots_handler_def Let_def a_def last_map entry_ids and_then_def map_err_def)
  then show "let rest = filter (\<lambda>i. i > (case after of None \<Rightarrow> 0 | Some a \<Rightarrow> a)) (org_snapshots org s) in
      snapshot_page Cs org limit s n after =
        Inr (map (snapshot_entry s) (take (page_size limit) rest), if length rest > page_size limit then Some (last (take (page_size limit) rest)) else None)"
    by (simp add: Let_def l(2) rest_def a_def)
qed

text \<open>
  C9: Listings are complete and confined. With any valid page size, a client that follows \<open>next\<close> gets,
  after at most one request more than there are resources, exactly the VMs (and snapshots) of its own
  org, each once, in ascending order of id, each row with the backend's current metadata, whatever
  order the hash maps are walked in from call to call.
\<close>
theorem listing_complete:
  assumes "\<And>n. walk_ok (cc_vm_order (Cs n)) (mh_vms (as_hv s))" and "\<And>n. walk_ok (cc_snapshot_order (Cs n)) (mh_snapshots (as_hv s))"
    and "0 \<notin> dom (mh_vms (as_hv s))" and "0 \<notin> dom (mh_snapshots (as_hv s))"
    and "limit \<noteq> Some 0" and "\<forall>n. limit = Some n \<longrightarrow> n \<le> 1000"
  shows "follow (vm_page Cs org limit s) (Suc (length (org_vms org s))) None = Some (Inr (map (vm_entry s) (org_vms org s))) \<and>
    follow (snapshot_page Cs org limit s) (Suc (length (org_snapshots org s))) None
      = Some (Inr (map (snapshot_entry s) (org_snapshots org s)))"
proof -
  have size: "0 < page_size limit" using assms(5) by (auto simp: page_size_def unat_gt_0 split: option.splits)
  have "filter (\<lambda>i. 0 < i) (org_vms org s) = org_vms org s"
    using assms(3) walk_finite [OF assms(1)] by (auto simp: filter_id_conv org_vms_def word_gt_0)
  moreover have "filter (\<lambda>i. 0 < i) (org_snapshots org s) = org_snapshots org s"
    using assms(4) walk_finite [OF assms(2)] by (auto simp: filter_id_conv org_snapshots_def word_gt_0)
  moreover have "sorted (org_vms org s)" "distinct (org_vms org s)" "sorted (org_snapshots org s)" "distinct (org_snapshots org s)"
    by (simp_all add: org_vms_def org_snapshots_def)
  moreover have "paged (vm_page Cs org limit s) (org_vms org s) (vm_entry s) (page_size limit)"
    "paged (snapshot_page Cs org limit s) (org_snapshots org s) (snapshot_entry s) (page_size limit)"
    by (rule vm_page_paged [OF assms(1,5,6)], rule snapshot_page_paged [OF assms(2,5,6)])
  ultimately show ?thesis
    using follow_pages [of "vm_page Cs org limit s", OF _ _ _ size, where after = None and n = "Suc (length (org_vms org s))"]
      follow_pages [of "snapshot_page Cs org limit s", OF _ _ _ size, where after = None and n = "Suc (length (org_snapshots org s))"]
    by (simp del: follow.simps)
qed

definition sample_listing :: "(path \<rightharpoonup> bytes) app_state" where
  "sample_listing = with_fork_quota Map.empty sample_hv (ForkQuota_new 0 0)"

definition listing_ctx :: "nat \<Rightarrow> call_ctx" where
  "listing_ctx n =
     \<lparr>cc_token_created = 0, cc_token_now = 0, cc_org_created = 0, cc_org_now = 0, cc_elapsed_ms = 0,
      cc_vm_order = [3, 2], cc_snapshot_order = [1], cc_token_order = [], cc_write_ok = True, cc_new_token = [],
      cc_new_token_id = [], cc_created_at = []\<rparr>"

theorem listing_complete_witness:
  "map_option (map_sum id (map ve_id)) (follow (vm_page listing_ctx default_org (Some 1) sample_listing) 3 None) = Some (Inr [2, 3])"
proof -
  have dom: "dom (mh_vms (as_hv sample_listing)) = {2, 3}" "dom (mh_snapshots (as_hv sample_listing)) = {1}"
    by (auto simp: sample_listing_def with_fork_quota_def sample_hv_eq)
  have "{i \<in> dom (mh_vms (as_hv sample_listing)). vm_owner (as_ownership sample_listing) i = default_org} = {2, 3}"
    unfolding dom by (auto simp: sample_listing_def with_fork_quota_def InMemoryStore_default_def vm_owner_def store_vm_owner_def)
  then have vms: "org_vms default_org sample_listing = [2, 3]" by (simp add: org_vms_def)
  have "walk_ok (cc_vm_order (listing_ctx n)) (mh_vms (as_hv sample_listing))"
    "walk_ok (cc_snapshot_order (listing_ctx n)) (mh_snapshots (as_hv sample_listing))" for n
    by (auto simp: walk_ok_def dom listing_ctx_def)
  moreover have "0 \<notin> dom (mh_vms (as_hv sample_listing))" "0 \<notin> dom (mh_snapshots (as_hv sample_listing))" by (simp_all add: dom)
  moreover have "\<forall>n :: u32. Some 1 = Some n \<longrightarrow> n \<le> 1000" "Some (1 :: u32) \<noteq> Some 0" by auto
  ultimately have "follow (vm_page listing_ctx default_org (Some 1) sample_listing) (Suc (length (org_vms default_org sample_listing))) None =
      Some (Inr (map (vm_entry sample_listing) (org_vms default_org sample_listing)))"
    using listing_complete [of listing_ctx sample_listing "Some 1" default_org] by blast
  then show ?thesis by (simp add: vms entry_ids numeral_3_eq_3 comp_def del: follow.simps)
qed

end
