(* ===== verification/Civil_Time.thy ===== *)
theory Civil_Time
  imports Auth "HOL-Library.Signed_Division"
begin

text \<open>
  Time stamps: \<^verbatim>\<open>crates/control-plane/src/time.rs\<close>. Days are turned into a civil date by integer arithmetic
  and printed with fixed widths. The arithmetic is on integers: no intermediate value leaves its
  machine type for the day counts of 64-bit seconds, and the one cast that can truncate, the year to
  32 bits, is written out. It is proved that the date is the Gregorian one, against a calendar that
  counts the days of years and months, and that the printed stamps compare as the instants do.
\<close>

subsection \<open>The code\<close>

definition civil_from_days :: "int \<Rightarrow> int \<times> int \<times> int" where
  "civil_from_days z =
     (let z = z + 719468;
          era = (if z \<ge> 0 then z else z - 146096) sdiv 146097;
          doe = z - era * 146097;
          yoe = (doe - doe div 1460 + doe div 36524 - doe div 146096) div 365;
          y = yoe + era * 400;
          doy = doe - (365 * yoe + yoe div 4 - yoe div 100);
          mp = (5 * doy + 2) div 153;
          d = doy - (153 * mp + 2) div 5 + 1;
          m = (if mp < 10 then mp + 3 else mp - 9);
          y = (if m \<le> 2 then y + 1 else y)
      in (signed_take_bit 31 y, m, d))"

definition pad :: "nat \<Rightarrow> nat \<Rightarrow> string" where
  "pad w n = replicate (w - length (dec n)) CHR ''0'' @ dec n"

text \<open>The clock is seconds and milliseconds since the epoch; the offset is a signed 64-bit number.\<close>

definition saturating_add_i64 :: "int \<Rightarrow> int \<Rightarrow> int" where
  "saturating_add_i64 a b = max (- (2 ^ 63)) (min (2 ^ 63 - 1) (a + b))"

definition rfc3339_offset :: "u64 \<Rightarrow> nat \<Rightarrow> int \<Rightarrow> string" where
  "rfc3339_offset now_secs now_millis offset_secs =
     (let signed_secs = saturating_add_i64 (sint now_secs) offset_secs;
          (secs, millis) = (if signed_secs < 0 then (0, 0) else (signed_secs, now_millis));
          (year, month, day) = civil_from_days (secs div 86400);
          s_of_day = secs mod 86400;
          h = s_of_day div 3600;
          m = (s_of_day mod 3600) div 60;
          s = s_of_day mod 60
      in (if year < 0 then ''-'' @ pad 3 (nat (- year)) else pad 4 (nat year)) @ ''-'' @ pad 2 (nat month) @ ''-'' @ pad 2 (nat day) @
         ''T'' @ pad 2 (nat h) @ '':'' @ pad 2 (nat m) @ '':'' @ pad 2 (nat s) @ ''.'' @ pad 3 millis @ ''Z'')"

definition rfc3339_now :: "u64 \<Rightarrow> nat \<Rightarrow> string" where
  "rfc3339_now now_secs now_millis = rfc3339_offset now_secs now_millis 0"

subsection \<open>The calendar\<close>

definition leap :: "int \<Rightarrow> bool" where
  "leap y \<longleftrightarrow> 4 dvd y \<and> (\<not> 100 dvd y \<or> 400 dvd y)"

definition month_days :: "int \<Rightarrow> int \<Rightarrow> int" where
  "month_days y m = (if m = 2 then if leap y then 29 else 28 else if m \<in> {4, 6, 9, 11} then 30 else 31)"

definition year_days :: "int \<Rightarrow> int" where
  "year_days y = (\<Sum>m \<in> {1..12}. month_days y m)"

definition valid_date :: "int \<times> int \<times> int \<Rightarrow> bool" where
  "valid_date = (\<lambda>(y, m, d). 1970 \<le> y \<and> 1 \<le> m \<and> m \<le> 12 \<and> 1 \<le> d \<and> d \<le> month_days y m)"

text \<open>Days since 1970-01-01: the years before, the months before, the days before.\<close>

definition day_number :: "int \<times> int \<times> int \<Rightarrow> int" where
  "day_number = (\<lambda>(y, m, d). (\<Sum>i \<in> {1970..<y}. year_days i) + (\<Sum>j \<in> {1..<m}. month_days y j) + (d - 1))"

lemma year_days_eq: "year_days y = 365 + (if leap y then 1 else 0)"
  by (simp add: year_days_def month_days_def simp_from_to)

lemma div_step:
  fixes y k :: int
  assumes "0 < k"
  shows "y div k - (y - 1) div k = (if k dvd y then 1 else 0)"
proof (cases "k dvd y")
  case True
  then obtain q where "y = k * q" by blast
  then have "(y - 1) div k = q - 1" using assms by (intro int_div_pos_eq [where r = "k - 1"]) (auto simp: algebra_simps)
  with True \<open>y = k * q\<close> assms show ?thesis by simp
next
  case False
  have "y = k * (y div k) + y mod k" by simp
  moreover have "y mod k \<noteq> 0" "0 \<le> y mod k" "y mod k < k" using False assms by (auto simp: dvd_eq_mod_eq_0)
  ultimately have "(y - 1) div k = y div k" by (intro int_div_pos_eq [where r = "y mod k - 1"]) linarith+
  with False show ?thesis by simp
qed

text \<open>Linear facts over the quotients, kept apart from the arithmetic of division.\<close>

lemma years_linear:
  fixes a a' b b' c c' :: int
  shows "s = d + (365 * (y - 1970) + a - b + c - 477) \<Longrightarrow> d = 365 + (a' - a) - (b' - b) + (c' - c) \<Longrightarrow>
    s = 365 * (y + 1 - 1970) + a' - b' + c' - 477"
  by simp

lemma mark_linear:
  fixes p p' q q' r r' :: int
  shows "p' - p \<le> 1 \<Longrightarrow> r' - r \<le> q' - q \<Longrightarrow> a - p + q - r \<le> a + 1 - p' + q' - r'"
  by simp

lemma years_closed:
  assumes "1970 \<le> y"
  shows "(\<Sum>i \<in> {1970..<y}. year_days i) = 365 * (y - 1970) + (y - 1) div 4 - (y - 1) div 100 + (y - 1) div 400 - 477"
  using assms
proof (induction y rule: int_ge_induct)
  case (step y)
  have "{1970..<y + 1} = insert y {1970..<y}" using step.hyps by auto
  then have "(\<Sum>i \<in> {1970..<y + 1}. year_days i) = year_days y + (\<Sum>i \<in> {1970..<y}. year_days i)" by simp
  then have "(\<Sum>i \<in> {1970..<y + 1}. year_days i) =
      year_days y + (365 * (y - 1970) + (y - 1) div 4 - (y - 1) div 100 + (y - 1) div 400 - 477)"
    unfolding step.IH .
  moreover have "100 dvd y \<Longrightarrow> 4 dvd y" "400 dvd y \<Longrightarrow> 100 dvd y" by (erule dvd_trans [rotated], simp)+
  then have "year_days y = 365 + (if 4 dvd y then 1 else 0) - (if 100 dvd y then 1 else 0) + (if 400 dvd y then 1 else 0)"
    unfolding year_days_eq leap_def by (cases "4 dvd y"; cases "100 dvd y"; cases "400 dvd y") simp_all
  then have "year_days y = 365 + (y div 4 - (y - 1) div 4) - (y div 100 - (y - 1) div 100) + (y div 400 - (y - 1) div 400)"
    by (simp only: div_step zero_less_numeral)
  ultimately have "(\<Sum>i \<in> {1970..<y + 1}. year_days i) = 365 * (y + 1 - 1970) + y div 4 - y div 100 + y div 400 - 477"
    by (rule years_linear)
  then show ?case by (simp only: add_diff_cancel_right')
qed simp

subsection \<open>Years within an era\<close>

text \<open>The first day of a year of the era that starts in March, and the quantity the year is read off.\<close>

definition year_start :: "int \<Rightarrow> int" where
  "year_start y = 365 * y + y div 4 - y div 100"

definition year_end :: "int \<Rightarrow> int" where
  "year_end y = (if y = 399 then 146097 else year_start (y + 1))"

definition year_mark :: "int \<Rightarrow> int" where
  "year_mark doe = doe - doe div 1460 + doe div 36524 - doe div 146096"

lemma year_mark_mono: "0 \<le> a \<Longrightarrow> a \<le> b \<Longrightarrow> b < 146097 \<Longrightarrow> year_mark a \<le> year_mark b"
proof -
  have inc: "year_mark a \<le> year_mark (a + 1)" for a
  proof -
    have "146096 dvd a + 1 \<Longrightarrow> 36524 dvd a + 1" by (erule dvd_trans [rotated]) simp
    then have "(if 1460 dvd a + 1 then 1 else 0) \<le> (1 :: int)"
      "(if 146096 dvd a + 1 then 1 else 0) \<le> (if 36524 dvd a + 1 then 1 else (0 :: int))" by auto
    then have "(a + 1) div 1460 - (a + 1 - 1) div 1460 \<le> 1"
      "(a + 1) div 146096 - (a + 1 - 1) div 146096 \<le> (a + 1) div 36524 - (a + 1 - 1) div 36524"
      by (simp_all only: div_step zero_less_numeral)
    then show ?thesis unfolding year_mark_def by (intro mark_linear) (simp_all only: add_diff_cancel_right')
  qed
  assume "0 \<le> a" "a \<le> b" "b < 146097"
  from this(2,1,3) show ?thesis
  proof (induction b rule: int_ge_induct)
    case (step b)
    then have "year_mark a \<le> year_mark b" by simp
    from this inc [of b] show ?case by (rule order_trans)
  qed simp
qed

lemma year_marks_checked:
  "list_all (\<lambda>y. 365 * y \<le> year_mark (year_start y) \<and> year_mark (year_end y - 1) < 365 * (y + 1) \<and> year_end y \<le> 146097) [0..399]"
  by code_simp

text \<open>A day of the era lies in exactly one year, and dividing its mark by 365 finds it.\<close>

lemma year_of_day:
  assumes "0 \<le> doe" "doe < 146097"
  shows "0 \<le> year_mark doe div 365 \<and> year_mark doe div 365 \<le> 399 \<and>
    year_start (year_mark doe div 365) \<le> doe \<and> doe < year_end (year_mark doe div 365)"
proof -
  have "\<exists>y. 0 \<le> y \<and> y \<le> int n \<and> year_start y \<le> doe \<and> doe < year_end y" if "doe < year_end (int n)" "n \<le> 399" for n
    using that
  proof (induction n)
    case 0
    then show ?case using assms(1) by (intro exI [of _ 0]) (simp add: year_start_def)
  next
    case (Suc n)
    then have e: "year_end (int n) = year_start (int (Suc n))" by (simp add: year_end_def add.commute)
    show ?case
    proof (cases "doe < year_end (int n)")
      case True
      with Suc show ?thesis by fastforce
    next
      case False
      with Suc.prems e show ?thesis by (intro exI [of _ "int (Suc n)"]) simp
    qed
  qed
  from this [of 399] assms(2) obtain y where y: "0 \<le> y" "y \<le> 399" "year_start y \<le> doe" "doe < year_end y"
    by (auto simp: year_end_def)
  then have "y \<in> set [0..399]" by simp
  then have c: "365 * y \<le> year_mark (year_start y)" "year_mark (year_end y - 1) < 365 * (y + 1)" "year_end y \<le> 146097"
    using year_marks_checked by (simp_all only: list_all_iff)
  have "0 \<le> year_start y" using y(1) by (simp add: year_start_def)
  then have "year_mark (year_start y) \<le> year_mark doe" using y(3) assms by (intro year_mark_mono) simp_all
  moreover have "year_mark doe \<le> year_mark (year_end y - 1)" using y(4) c(3) assms by (intro year_mark_mono) simp_all
  ultimately have "year_mark doe div 365 = y" using c by (intro int_div_pos_eq [where r = "year_mark doe - 365 * y"]) simp_all
  with y show ?thesis by simp
qed

subsection \<open>Months within a year\<close>

text \<open>Months counted from March; their lengths do not depend on the year, except for the last day of February.\<close>

definition month_of :: "int \<Rightarrow> int" where
  "month_of doy = (let mp = (5 * doy + 2) div 153 in if mp < 10 then mp + 3 else mp - 9)"

definition day_of :: "int \<Rightarrow> int" where
  "day_of doy = doy - (153 * ((5 * doy + 2) div 153) + 2) div 5 + 1"

definition before_march :: "int \<Rightarrow> int" where
  "before_march m = (if m = 3 then 0 else if m = 4 then 31 else if m = 5 then 61 else if m = 6 then 92 else if m = 7 then 122
     else if m = 8 then 153 else if m = 9 then 184 else if m = 10 then 214 else if m = 11 then 245 else if m = 12 then 275
     else if m = 1 then 306 else 337)"

lemma months_checked:
  "list_all (\<lambda>doy. 1 \<le> month_of doy \<and> month_of doy \<le> 12 \<and> 1 \<le> day_of doy \<and>
     doy = before_march (month_of doy) + (day_of doy - 1) \<and>
     day_of doy \<le> (if month_of doy = 2 then if doy = 365 then 29 else 28 else if month_of doy = 4 \<or> month_of doy = 6 \<or> month_of doy = 9 \<or> month_of doy = 11 then 30 else 31)) [0..365]"
  by code_simp

lemma months_before:
  assumes "1 \<le> m" "m \<le> 12"
  shows "(\<Sum>j \<in> {1..<m}. month_days y j) =
    (if m \<le> 2 then before_march m - 306 else before_march m + 59 + (if leap y then 1 else 0))"
proof -
  have last: "(\<Sum>j \<in> {1..<m + 1}. month_days y j) = (\<Sum>j \<in> {1..<m}. month_days y j) + month_days y m" if "1 \<le> m" for m
  proof -
    have "{1..<m + 1} = insert m {1..<m}" using that by auto
    then show ?thesis by simp
  qed
  have "m \<le> 12 \<longrightarrow> ?thesis" using assms(1)
  proof (induction m rule: int_ge_induct)
    case (step m)
    show ?case
    proof
      assume "m + 1 \<le> 12"
      then have "m = 1 \<or> m = 2 \<or> m = 3 \<or> m = 4 \<or> m = 5 \<or> m = 6 \<or> m = 7 \<or> m = 8 \<or> m = 9 \<or> m = 10 \<or> m = 11"
        using step.hyps by presburger
      with step.IH last [OF step.hyps] show "(\<Sum>j \<in> {1..<m + 1}. month_days y j) =
          (if m + 1 \<le> 2 then before_march (m + 1) - 306 else before_march (m + 1) + 59 + (if leap y then 1 else 0))"
        by (elim disjE) (simp_all add: before_march_def month_days_def)
    qed
  qed (simp add: before_march_def)
  with assms(2) show ?thesis by blast
qed

subsection \<open>The date is right\<close>

text \<open>Days from the start of the calendar to the first of March of a year.\<close>

definition epoch :: "int \<Rightarrow> int" where
  "epoch y = 365 * y + y div 4 - y div 100 + y div 400"

lemma epoch_linear:
  fixes a a' b b' c c' :: int
  shows "365 + (a' - a) - (b' - b) + (c' - c) = d \<Longrightarrow> 365 * y + a' - b' + c' = 365 * (y - 1) + a - b + c + d"
  by simp

lemma epoch_step: "epoch y = epoch (y - 1) + (365 + (if leap y then 1 else 0))"
proof -
  have "100 dvd y \<Longrightarrow> 4 dvd y" "400 dvd y \<Longrightarrow> 100 dvd y" by (erule dvd_trans [rotated], simp)+
  then have "365 + (if 4 dvd y then 1 else 0) - (if 100 dvd y then 1 else 0) + (if 400 dvd y then 1 else 0) =
      365 + (if leap y then 1 else (0 :: int))"
    unfolding leap_def by (cases "4 dvd y"; cases "100 dvd y"; cases "400 dvd y") simp_all
  then have "365 + (y div 4 - (y - 1) div 4) - (y div 100 - (y - 1) div 100) + (y div 400 - (y - 1) div 400) =
      365 + (if leap y then 1 else 0)"
    by (simp only: div_step zero_less_numeral)
  then show ?thesis unfolding epoch_def by (rule epoch_linear)
qed

lemma epoch_mono: "x \<le> y \<Longrightarrow> epoch x + 365 * (y - x) \<le> epoch y"
proof (induction y rule: int_ge_induct)
  case (step y)
  with epoch_step [of "y + 1"] show ?case by (auto split: if_splits)
qed simp

lemma years_epoch:
  assumes "1970 \<le> y"
  shows "(\<Sum>i \<in> {1970..<y}. year_days i) = epoch (y - 1) - 719162"
proof -
  have "365 * (y - 1970) + a - b + c - 477 = 365 * (y - 1) + a - b + c - 719162" for a b c :: int by simp
  then show ?thesis unfolding years_closed [OF assms] epoch_def .
qed

lemma epoch_era:
  assumes "0 \<le> yoe" "yoe \<le> 399"
  shows "epoch (yoe + era * 400) = era * 146097 + year_start yoe"
proof -
  have "(yoe + era * 400) div 4 = (yoe + (100 * era) * 4) div 4" "(yoe + era * 400) div 100 = (yoe + (4 * era) * 100) div 100"
    by (simp_all add: algebra_simps)
  then have "(yoe + era * 400) div 4 = yoe div 4 + 100 * era" "(yoe + era * 400) div 100 = yoe div 100 + 4 * era"
    by simp_all
  moreover have "(yoe + era * 400) div 400 = era" using assms by simp
  ultimately show ?thesis unfolding epoch_def year_start_def by (simp only:) (simp add: algebra_simps)
qed

lemma year_length:
  assumes "0 \<le> yoe" "yoe \<le> 399"
  shows "year_end yoe \<le> year_start yoe + 365 + (if leap (yoe + era * 400 + 1) then 1 else 0)"
proof (cases "yoe = 399")
  case True
  have "leap (400 * (era + 1))" by (simp add: leap_def)
  moreover have "399 + era * 400 + 1 = 400 * (era + 1)" by simp
  ultimately have "leap (yoe + era * 400 + 1)" using True by (simp only:)
  then show ?thesis by (simp add: True year_end_def year_start_def)
next
  case False
  have "epoch (yoe + 1 + era * 400) = era * 146097 + year_start (yoe + 1)"
    using epoch_era [of "yoe + 1" era] assms False by simp
  moreover have "yoe + 1 + era * 400 = yoe + era * 400 + 1" by simp
  ultimately show ?thesis
    using epoch_era [OF assms, of era] epoch_step [of "yoe + era * 400 + 1"] False
    by (simp only: year_end_def add_diff_cancel_right' if_False)
qed

lemma sdiv_pos: "0 \<le> z \<Longrightarrow> z sdiv 146097 = z div (146097 :: int)"
  by (cases "z = 0") (simp_all add: signed_divide_int_def)

text \<open>The quantities of the algorithm, with what they stand for.\<close>

lemma let_step: "e = v \<Longrightarrow> f v = r \<Longrightarrow> Let e f = r"
  by simp

lemma civil_parts:
  assumes "0 \<le> z"
  obtains y doy where "civil_from_days z = (signed_take_bit 31 (if month_of doy \<le> 2 then y + 1 else y), month_of doy, day_of doy)"
    "0 \<le> doy" "doy \<le> 365" "doy = 365 \<longrightarrow> leap (y + 1)" "z = epoch y + doy - 719468" "y \<le> 400 * ((z + 719468) div 146097) + 399"
proof -
  define era doe where "era = (z + 719468) div 146097" and "doe = (z + 719468) mod 146097"
  have doe: "0 \<le> doe" "doe < 146097" by (simp_all add: doe_def)
  have split: "z + 719468 = era * 146097 + doe" unfolding era_def doe_def by (rule div_mult_mod_eq [symmetric])
  define yoe where "yoe = year_mark doe div 365"
  have yoe: "0 \<le> yoe" "yoe \<le> 399" "year_start yoe \<le> doe" "doe < year_end yoe"
    using year_of_day [OF doe] unfolding yoe_def by simp_all
  define doy where "doy = doe - year_start yoe"
  have doy: "0 \<le> doy" "doy < 366" "doy = 365 \<longrightarrow> leap (yoe + era * 400 + 1)"
    using yoe year_length [OF yoe(1,2), of era] by (auto simp: doy_def split: if_splits)
  have era: "(if z + 719468 \<ge> 0 then z + 719468 else z + 719468 - 146096) sdiv 146097 = era"
    using assms sdiv_pos [of "z + 719468"] unfolding era_def by simp
  have doe': "z + 719468 - era * 146097 = doe" using split by simp
  have "civil_from_days z =
      (signed_take_bit 31 (if month_of doy \<le> 2 then yoe + era * 400 + 1 else yoe + era * 400), month_of doy, day_of doy)"
    unfolding civil_from_days_def
    by (rule let_step [OF refl], rule let_step [OF era], rule let_step [OF doe'],
        rule let_step [OF yoe_def [unfolded year_mark_def, symmetric]], rule let_step [OF refl],
        rule let_step [OF doy_def [unfolded year_start_def, symmetric]]) (simp only: Let_def month_of_def day_of_def)
  moreover have "z = epoch (yoe + era * 400) + doy - 719468" using split epoch_era [OF yoe(1,2), of era] by (simp add: doy_def)
  moreover have "yoe + era * 400 \<le> 400 * era + 399" "doy \<le> 365" using yoe(2) doy(2) by simp_all
  ultimately show thesis using doy(1,3) that [of doy "yoe + era * 400"] unfolding era_def by blast
qed

lemma civil_from_days_valid:
  assumes "0 \<le> z" and "z < 784000000000"
  shows "valid_date (civil_from_days z) \<and> day_number (civil_from_days z) = z"
proof -
  obtain Y doy where c: "civil_from_days z = (signed_take_bit 31 (if month_of doy \<le> 2 then Y + 1 else Y), month_of doy, day_of doy)"
    and doy: "0 \<le> doy" "doy \<le> 365" "doy = 365 \<longrightarrow> leap (Y + 1)" and z: "z = epoch Y + doy - 719468"
    and Y: "Y \<le> 400 * ((z + 719468) div 146097) + 399"
    by (rule civil_parts [OF assms(1)])
  define m d where "m = month_of doy" and "d = day_of doy"
  have "doy \<in> set [0..365]" using doy by simp
  then have md: "1 \<le> m" "m \<le> 12" "1 \<le> d" "doy = before_march m + (d - 1)"
    "d \<le> (if m = 2 then if doy = 365 then 29 else 28 else if m = 4 \<or> m = 6 \<or> m = 9 \<or> m = 11 then 30 else 31)"
    using months_checked unfolding list_all_iff m_def d_def by blast+
  have e: "epoch 1969 = 719162" by (simp add: epoch_def)
  have Y1: "1969 \<le> Y"
  proof (rule ccontr)
    assume "\<not> 1969 \<le> Y"
    then show False using epoch_mono [of Y 1969] e z assms(1) doy(2) by simp
  qed
  have Y2: "1970 \<le> Y" if "\<not> m \<le> 2"
  proof (rule ccontr)
    assume "\<not> 1970 \<le> Y"
    with Y1 have "Y = 1969" by simp
    then have "306 \<le> doy" using z e assms(1) by simp
    moreover have "m = 3 \<or> m = 4 \<or> m = 5 \<or> m = 6 \<or> m = 7 \<or> m = 8 \<or> m = 9 \<or> m = 10 \<or> m = 11 \<or> m = 12"
      using that md(2) by presburger
    then have "before_march m \<le> 275" by (auto simp: before_march_def)
    moreover have "d \<le> 31" using md(5) by (simp split: if_splits)
    ultimately show False using md(4) by simp
  qed
  have "(z + 719468) div 146097 \<le> (784000000000 + 719468) div 146097" using assms(2) by (intro zdiv_mono1) simp_all
  then have small: "Y + 1 < 2 ^ 31" using Y by simp
  have y: "signed_take_bit 31 (if m \<le> 2 then Y + 1 else Y) = (if m \<le> 2 then Y + 1 else Y)"
    using Y1 small by (intro signed_take_bit_int_eq_self) auto
  have date: "civil_from_days z = (if m \<le> 2 then Y + 1 else Y, m, d)" using c y by (simp only: m_def d_def)
  show ?thesis
  proof (cases "m \<le> 2")
    case True
    have "d \<le> month_days (Y + 1) m" using md(1,5) True doy(3) by (auto simp: month_days_def split: if_splits)
    moreover have "day_number (Y + 1, m, d) = z"
      using years_epoch [of "Y + 1"] months_before [OF md(1,2), of "Y + 1"] Y1 True md(4) z by (simp add: day_number_def)
    ultimately show ?thesis using date True md(1-3) Y1 by (simp add: valid_date_def)
  next
    case False
    have "d \<le> month_days Y m" using md(5) False by (auto simp: month_days_def split: if_splits)
    moreover have "day_number (Y, m, d) = z"
      using years_epoch [OF Y2 [OF False]] months_before [OF md(1,2), of Y] epoch_step [of Y] False md(4) z
      by (simp add: day_number_def)
    ultimately show ?thesis using date False md(1-3) Y2 [OF False] by (simp add: valid_date_def)
  qed
qed

text \<open>
  C16: For every day from the epoch on, up to the range of the 32-bit year, the date is a valid Gregorian
  date and its days since 1970-01-01, counted year by year and month by month with the leap rule, are
  exactly the days it was computed from.
\<close>
theorem civil_from_days_exact:
  assumes "0 \<le> z" and "z < 784000000000"
  shows "valid_date (civil_from_days z) \<and> day_number (civil_from_days z) = z"
  using assms by (rule civil_from_days_valid)

theorem civil_from_days_exact_witness: "civil_from_days 18321 = (2020, 2, 29) \<and> day_number (2020, 2, 29) = 18321"
proof -
  have "civil_from_days 18321 = (2020, 2, 29)" by code_simp
  with civil_from_days_exact [of 18321] show ?thesis by simp
qed

subsection \<open>Comparing stamps\<close>

text \<open>The stamp of an instant at or after the epoch.\<close>

definition stamp :: "int \<Rightarrow> nat \<Rightarrow> string" where
  "stamp secs millis =
     (let (year, month, day) = civil_from_days (secs div 86400); t = secs mod 86400
      in pad 4 (nat year) @ ''-'' @ pad 2 (nat month) @ ''-'' @ pad 2 (nat day) @ ''T'' @ pad 2 (nat (t div 3600)) @ '':'' @
         pad 2 (nat ((t mod 3600) div 60)) @ '':'' @ pad 2 (nat (t mod 60)) @ ''.'' @ pad 3 millis @ ''Z'')"

lemma dec_small: "n < 10 \<Longrightarrow> dec n = [char_of (48 + n)]"
  by (simp add: dec.simps)

lemma dec_big: "\<not> n < 10 \<Longrightarrow> dec n = dec (n div 10) @ [char_of (48 + n mod 10)]"
  by (simp add: dec.simps)

lemma pad_one: "n < 10 \<Longrightarrow> pad (Suc 0) n = [char_of (48 + n)]"
  by (simp add: pad_def dec_small)

lemma pad_more: "pad (Suc (Suc w)) n = pad (Suc w) (n div 10) @ [char_of (48 + n mod 10)]"
proof (cases "n < 10")
  case True
  moreover have "char_of (48 :: nat) = CHR ''0''" by code_simp
  ultimately show ?thesis using replicate_append_same [of w "CHR ''0''"] by (simp add: pad_def dec_small)
qed (simp add: pad_def dec_big)

lemma digit_less: "i < 10 \<Longrightarrow> j < 10 \<Longrightarrow> (char_of (48 + i) :: char) < char_of (48 + j) \<longleftrightarrow> i < (j :: nat)"
  by (simp add: less_char_def)

lemma digit_eq: "i < 10 \<Longrightarrow> j < 10 \<Longrightarrow> (char_of (48 + i) :: char) = char_of (48 + j) \<longleftrightarrow> i = (j :: nat)"
  using digit_less [of i j] digit_less [of j i] by (auto simp: not_less_iff_gr_or_eq)

text \<open>Numbers printed with a fixed width compare as numbers.\<close>

lemma pad_less:
  "a < 10 ^ Suc w \<Longrightarrow> b < 10 ^ Suc w \<Longrightarrow> pad (Suc w) a @ x < pad (Suc w) b @ y \<longleftrightarrow> a < b \<or> a = b \<and> x < y"
proof (induction w arbitrary: a b x y)
  case 0
  then show ?case by (simp add: pad_one digit_less digit_eq)
next
  case (Suc w)
  have "10 * q + r < 10 * q' + r' \<longleftrightarrow> q < q' \<or> q = q' \<and> r < r'" if "r < 10" "r' < 10" for q r q' r' :: nat
    using that by arith
  from this [of "a mod 10" "b mod 10" "a div 10" "b div 10"]
  have "a < b \<longleftrightarrow> a div 10 < b div 10 \<or> a div 10 = b div 10 \<and> a mod 10 < b mod 10" by simp
  moreover have "a = b \<longleftrightarrow> a div 10 = b div 10 \<and> a mod 10 = b mod 10" by (metis div_mult_mod_eq)
  moreover have "a div 10 < 10 ^ Suc w" "b div 10 < 10 ^ Suc w"
    using Suc.prems by (auto simp: less_mult_imp_div_less)
  ultimately show ?case
    using Suc.IH [of "a div 10" "b div 10" "char_of (48 + a mod 10) # x" "char_of (48 + b mod 10) # y"]
    by (auto simp: pad_more digit_less digit_eq)
qed

text \<open>The days before a date fit in its year, so dates compare as their days do.\<close>

lemma month_days_pos: "0 < month_days y m"
  by (simp add: month_days_def)

lemma days_in_year:
  assumes "valid_date (y, m, d)"
  shows "(\<Sum>j \<in> {1..<m}. month_days y j) + d \<le> year_days y"
proof -
  have "{1..<m} \<union> {m} \<subseteq> {1..12}" using assms by (auto simp: valid_date_def)
  then have "(\<Sum>j \<in> {1..<m} \<union> {m}. month_days y j) \<le> year_days y"
    unfolding year_days_def by (intro sum_mono2) (auto intro: less_imp_le [OF month_days_pos])
  then show ?thesis using assms by (simp add: valid_date_def)
qed

lemma days_in_month:
  assumes "1 \<le> m" "m < m'" "d \<le> month_days y m"
  shows "(\<Sum>j \<in> {1..<m}. month_days y j) + d \<le> (\<Sum>j \<in> {1..<m'}. month_days y j)"
proof -
  have "(\<Sum>j \<in> {1..<m} \<union> {m}. month_days y j) \<le> (\<Sum>j \<in> {1..<m'}. month_days y j)"
    using assms(1,2) by (intro sum_mono2) (auto intro: less_imp_le [OF month_days_pos])
  then show ?thesis using assms(3) by simp
qed

lemma years_mono: "y < y' \<Longrightarrow> 1970 \<le> y \<Longrightarrow> (\<Sum>i \<in> {1970..<y}. year_days i) + year_days y \<le> (\<Sum>i \<in> {1970..<y'}. year_days i)"
proof -
  assume y: "y < y'" "1970 \<le> y"
  have "(\<Sum>i \<in> {1970..<y} \<union> {y}. year_days i) \<le> (\<Sum>i \<in> {1970..<y'}. year_days i)"
    using y by (intro sum_mono2) (auto simp: year_days_eq)
  then show ?thesis by simp
qed

lemma day_number_less:
  assumes "valid_date (y, m, d)" "valid_date (y', m', d')" "y < y' \<or> y = y' \<and> (m < m' \<or> m = m' \<and> d < d')"
  shows "day_number (y, m, d) < day_number (y', m', d')"
proof -
  have nonneg: "0 \<le> (\<Sum>j \<in> {1..<m'}. month_days y' j)" by (intro sum_nonneg less_imp_le [OF month_days_pos])
  show ?thesis
    using assms days_in_year [OF assms(1)] nonneg years_mono [of y y'] days_in_month [of m m' d y]
    by (auto simp: day_number_def valid_date_def)
qed

lemma date_order:
  assumes "valid_date (y, m, d)" "valid_date (y', m', d')"
  shows "y < y' \<or> y = y' \<and> (m < m' \<or> m = m' \<and> d < d') \<longleftrightarrow> day_number (y, m, d) < day_number (y', m', d')"
    and "(y, m, d) = (y', m', d') \<longleftrightarrow> day_number (y, m, d) = day_number (y', m', d')"
proof -
  note lt = day_number_less [OF assms] and gt = day_number_less [OF assms(2,1)]
  consider "y < y' \<or> y = y' \<and> (m < m' \<or> m = m' \<and> d < d')" | "(y, m, d) = (y', m', d')"
    | "y' < y \<or> y' = y \<and> (m' < m \<or> m' = m \<and> d' < d)" by fastforce
  note cs = this
  show "y < y' \<or> y = y' \<and> (m < m' \<or> m = m' \<and> d < d') \<longleftrightarrow> day_number (y, m, d) < day_number (y', m', d')"
    by (cases rule: cs) (use lt gt in auto)
  show "(y, m, d) = (y', m', d') \<longleftrightarrow> day_number (y, m, d) = day_number (y', m', d')"
    by (cases rule: cs) (use lt gt in auto)
qed

lemma year_bound:
  assumes "valid_date (y, m, d)" "day_number (y, m, d) < 2932897"
  shows "y < 10000"
proof (rule ccontr)
  assume "\<not> y < 10000"
  then have "(\<Sum>i \<in> {1970..<y}. year_days i) \<ge> (\<Sum>i \<in> {1970..<10000}. year_days i)"
    by (intro sum_mono2) (auto simp: year_days_eq)
  moreover have "(\<Sum>i \<in> {1970..<10000}. year_days i) = 2932897" using years_closed [of 10000] by simp
  moreover have "0 \<le> (\<Sum>j \<in> {1..<m}. month_days y j)" by (intro sum_nonneg less_imp_le [OF month_days_pos])
  ultimately show False using assms by (simp add: day_number_def valid_date_def)
qed

lemma div_mod_order:
  fixes a b k :: int
  assumes "0 < k"
  shows "a < b \<longleftrightarrow> a div k < b div k \<or> a div k = b div k \<and> a mod k < b mod k"
    and "a = b \<longleftrightarrow> a div k = b div k \<and> a mod k = b mod k"
proof -
  have e: "a = a div k * k + a mod k" "b = b div k * k + b mod k" by simp_all
  have "a < b" if "a div k < b div k"
    using that assms by (metis linorder_not_less zdiv_mono1)
  moreover have "a div k \<le> b div k" if "a < b" using that assms by (simp add: zdiv_mono1)
  ultimately show "a < b \<longleftrightarrow> a div k < b div k \<or> a div k = b div k \<and> a mod k < b mod k"
    using e by (smt (verit))
  show "a = b \<longleftrightarrow> a div k = b div k \<and> a mod k = b mod k" using e by metis
qed

lemma clock_order:
  fixes t t' :: int
  shows "t < t' \<longleftrightarrow> t div 3600 < t' div 3600 \<or> t div 3600 = t' div 3600 \<and> (t mod 3600 div 60 < t' mod 3600 div 60 \<or>
      t mod 3600 div 60 = t' mod 3600 div 60 \<and> t mod 60 < t' mod 60)"
    and "t = t' \<longleftrightarrow> t div 3600 = t' div 3600 \<and> t mod 3600 div 60 = t' mod 3600 div 60 \<and> t mod 60 = t' mod 60"
proof -
  have m: "x mod 3600 mod 60 = x mod 60" for x :: int by (rule mod_mod_cancel) simp
  have k: "(0 :: int) < 3600" "(0 :: int) < 60" by simp_all
  note o1 = div_mod_order [OF k(1), of t t'] and o2 = div_mod_order [OF k(2), of "t mod 3600" "t' mod 3600", unfolded m]
  show "t < t' \<longleftrightarrow> t div 3600 < t' div 3600 \<or> t div 3600 = t' div 3600 \<and> (t mod 3600 div 60 < t' mod 3600 div 60 \<or>
      t mod 3600 div 60 = t' mod 3600 div 60 \<and> t mod 60 < t' mod 60)"
    using o1(1) o2(1) by blast
  show "t = t' \<longleftrightarrow> t div 3600 = t' div 3600 \<and> t mod 3600 div 60 = t' mod 3600 div 60 \<and> t mod 60 = t' mod 60"
    using o1(2) o2(2) by blast
qed

text \<open>A field of the stamp: the next one counts only when this one is the same.\<close>

lemma field_less:
  fixes a b :: int
  assumes "0 \<le> a" "0 \<le> b" "a < 10 ^ Suc w" "b < 10 ^ Suc w"
  shows "pad (Suc w) (nat a) @ c # x < pad (Suc w) (nat b) @ c # y \<longleftrightarrow> a < b \<or> a = b \<and> x < y"
  using pad_less [of "nat a" w "nat b" "c # x" "c # y"] assms by (auto simp: nat_less_iff eq_nat_nat_iff)

lemmas field_less4 = field_less [where w = 3, simplified]

lemma field_less2:
  fixes a b :: int
  assumes "0 \<le> a" "0 \<le> b" "a < 100" "b < 100"
  shows "pad 2 (nat a) @ c # x < pad 2 (nat b) @ c # y \<longleftrightarrow> a < b \<or> a = b \<and> x < y"
  using field_less [of a b 1 c x y] assms by (simp add: numeral_2_eq_2)

lemma millis_less: "a < 1000 \<Longrightarrow> b < 1000 \<Longrightarrow> pad 3 a @ x < pad 3 b @ y \<longleftrightarrow> a < b \<or> a = b \<and> x < y"
  using pad_less [of a 2 b x y] by simp

lemma stamp_less:
  assumes "0 \<le> s" "s < 253402300800" "0 \<le> s'" "s' < 253402300800" "ms < 1000" "ms' < 1000"
  shows "stamp s ms < stamp s' ms' \<longleftrightarrow> s < s' \<or> s = s' \<and> ms < ms'"
proof -
  obtain y m d where c: "civil_from_days (s div 86400) = (y, m, d)" by (cases "civil_from_days (s div 86400)")
  obtain y' m' d' where c': "civil_from_days (s' div 86400) = (y', m', d')" by (cases "civil_from_days (s' div 86400)")
  have b: "s div 86400 < 2932897" "s' div 86400 < 2932897" using zdiv_mono1 [of s 253402300799 86400] zdiv_mono1 [of s' 253402300799 86400] assms(2,4) by simp_all
  have v: "valid_date (y, m, d)" "day_number (y, m, d) = s div 86400" "valid_date (y', m', d')" "day_number (y', m', d') = s' div 86400"
    using civil_from_days_valid [of "s div 86400"] civil_from_days_valid [of "s' div 86400"] assms(1,3) b c c'
    by (auto simp: pos_imp_zdiv_nonneg_iff)
  define t t' where "t = s mod 86400" and "t' = s' mod 86400"
  have t: "0 \<le> t" "t < 86400" "0 \<le> t'" "t' < 86400" by (simp_all add: t_def t'_def)
  have dl: "month_days Y M \<le> 31" for Y M by (simp add: month_days_def)
  have date: "0 \<le> y" "0 \<le> y'" "y < 10000" "y' < 10000" "0 \<le> m" "0 \<le> m'" "m < 100" "m' < 100" "0 \<le> d" "0 \<le> d'" "d < 100" "d' < 100"
    using year_bound [OF v(1)] year_bound [OF v(3)] v b dl [of y m] dl [of y' m'] by (auto simp: valid_date_def)
  have h: "0 \<le> x div 3600" "x div 3600 < 100" if "0 \<le> x" "x < 86400" for x :: int
    using zdiv_mono1 [of x 86399 3600] that by (simp_all add: pos_imp_zdiv_nonneg_iff)
  have mi: "0 \<le> x mod 3600 div 60" "x mod 3600 div 60 < 100" for x :: int
    using zdiv_mono1 [of "x mod 3600" 3599 60] pos_mod_bound [of 3600 x] by (simp_all add: pos_imp_zdiv_nonneg_iff)
  have se: "0 \<le> x mod 60" "x mod 60 < 100" for x :: int using pos_mod_bound [of 60 x] by simp_all
  have "stamp s ms < stamp s' ms' \<longleftrightarrow>
      y < y' \<or> y = y' \<and> (m < m' \<or> m = m' \<and> (d < d' \<or> d = d' \<and>
       (t div 3600 < t' div 3600 \<or> t div 3600 = t' div 3600 \<and> (t mod 3600 div 60 < t' mod 3600 div 60 \<or>
        t mod 3600 div 60 = t' mod 3600 div 60 \<and> (t mod 60 < t' mod 60 \<or> t mod 60 = t' mod 60 \<and> ms < ms')))))"
    unfolding stamp_def c c' t_def [symmetric] t'_def [symmetric] Let_def case_prod_conv append.simps
      field_less4 [OF date(1-4)] field_less2 [OF date(5-8)] field_less2 [OF date(9-12)]
      field_less2 [OF h(1) [OF t(1,2)] h(1) [OF t(3,4)] h(2) [OF t(1,2)] h(2) [OF t(3,4)]] field_less2 [OF mi(1) mi(1) mi(2) mi(2)]
      field_less2 [OF se(1) se(1) se(2) se(2)] millis_less [OF assms(5,6)]
    by simp
  then have "stamp s ms < stamp s' ms' \<longleftrightarrow>
      (y < y' \<or> y = y' \<and> (m < m' \<or> m = m' \<and> d < d')) \<or> (y, m, d) = (y', m', d') \<and> (t < t' \<or> t = t' \<and> ms < ms')"
    unfolding clock_order [of t t'] prod.inject by argo
  moreover have "(0 :: int) < 86400" by simp
  note div_mod_order [OF this, of s s']
  ultimately show ?thesis unfolding date_order [OF v(1,3)] v(2,4) t_def t'_def by blast
qed

lemma rfc3339_stamp:
  assumes "0 \<le> sint now_secs + off" "sint now_secs + off < 253402300800"
  shows "rfc3339_offset now_secs ms off = stamp (sint now_secs + off) ms"
proof -
  have "saturating_add_i64 (sint now_secs) off = sint now_secs + off" using assms by (simp add: saturating_add_i64_def)
  moreover obtain y m d where c: "civil_from_days ((sint now_secs + off) div 86400) = (y, m, d)"
    by (cases "civil_from_days ((sint now_secs + off) div 86400)")
  moreover have "(sint now_secs + off) div 86400 < 784000000000"
    using zdiv_mono1 [of "sint now_secs + off" 253402300799 86400] assms(2) by simp
  then have "valid_date (y, m, d)"
    using civil_from_days_valid [of "(sint now_secs + off) div 86400"] assms(1) c by (simp add: pos_imp_zdiv_nonneg_iff)
  then have "\<not> y < 0" by (simp add: valid_date_def)
  ultimately show ?thesis using assms(1) by (simp add: rfc3339_offset_def stamp_def Let_def)
qed

lemma rfc3339_clamped:
  assumes "sint now_secs + off < 0"
  shows "rfc3339_offset now_secs ms off = stamp 0 0"
proof -
  have "saturating_add_i64 (sint now_secs) off < 0" using assms by (simp add: saturating_add_i64_def)
  moreover have "civil_from_days 0 = (1970, 1, 1)" by code_simp
  ultimately show ?thesis by (simp add: rfc3339_offset_def stamp_def Let_def)
qed

text \<open>
  C14: Stamps compare as the instants they stand for. Up to the end of the year 9999 two printed stamps,
  however they were shifted, compare as strings exactly as their seconds and then their milliseconds
  do, which is what expiry and grace periods rely on; a shift past the epoch is the epoch itself.
\<close>

theorem stamps_compare:
  assumes "t = sint n + off" "t' = sint n' + off'" "0 \<le> t" "t < 253402300800" "0 \<le> t'" "t' < 253402300800" "ms < 1000" "ms' < 1000"
  shows "(rfc3339_offset n ms off < rfc3339_offset n' ms' off' \<longleftrightarrow> t < t' \<or> t = t' \<and> ms < ms') \<and>
    (sint m + neg < 0 \<longrightarrow> rfc3339_offset m ms neg = ''1970-01-01T00:00:00.000Z'')"
proof -
  have "stamp 0 0 = ''1970-01-01T00:00:00.000Z''" by code_simp
  then show ?thesis
    using rfc3339_stamp [of n off ms] rfc3339_stamp [of n' off' ms'] stamp_less [of t t' ms ms'] assms rfc3339_clamped [of m neg ms] by simp
qed

theorem stamps_compare_witness:
  "rfc3339_offset 1700000000 0 (- 60) < rfc3339_offset 1700000000 0 900 \<and> rfc3339_offset 5 17 (- 60) = ''1970-01-01T00:00:00.000Z''"
proof -
  have w: "sint (1700000000 :: u64) = 1700000000" "sint (5 :: u64) = 5" by (simp_all add: sint_uint signed_take_bit_int_eq_self)
  have "rfc3339_offset 1700000000 0 (- 60) < rfc3339_offset 1700000000 0 900"
    using stamps_compare [of 1699999940 1700000000 "- 60" 1700000900 1700000000 900 0 0, unfolded w] by simp
  moreover have "rfc3339_offset 5 17 (- 60) = ''1970-01-01T00:00:00.000Z''"
    using stamps_compare [of 5 5 0 5 5 0 17 17 5 "- 60", unfolded w] by simp
  ultimately show ?thesis ..
qed

end
