(* ===== verification/Fuse_Wire.thy ===== *)
theory Fuse_Wire
  imports Nano_Prelude
begin

text \<open>
  The FUSE wire format of the file-sharing device: the request and reply headers of
  \<^verbatim>\<open>crates/virtio-fs/src/lib.rs\<close> and the fixed-size bodies of \<^verbatim>\<open>body.rs\<close>. A Rust array
  \<^verbatim>\<open>[u32; n]\<close> is a list, of length \<open>n\<close> in valid records. Every body is a row of little-endian
  fields, so each of its codecs is an instance of the prelude's \<open>le_struct\<close>.
\<close>

subsection \<open>Headers\<close>

datatype fuse_error = ShortHeader nat nat | ShortBuffer nat nat | UnknownOpcode u32

definition FUSE_KERNEL_VERSION :: u32 where "FUSE_KERNEL_VERSION = 7"
definition FUSE_KERNEL_MINOR_VERSION :: u32 where "FUSE_KERNEL_MINOR_VERSION = 33"
definition FUSE_IN_HDR_LEN :: nat where "FUSE_IN_HDR_LEN = 40"
definition FUSE_OUT_HDR_LEN :: nat where "FUSE_OUT_HDR_LEN = 16"

datatype fuse_opcode =
    Lookup | Forget | Getattr | Setattr | Readlink | Symlink | Mknod | Mkdir | Unlink | Rmdir | Rename | Link
  | Open | Read | Write | Statfs | Release | Fsync | Flush | Init | Opendir | Readdir | Releasedir | Destroy

fun FuseOpcode_as_raw :: "fuse_opcode \<Rightarrow> u32" where
  "FuseOpcode_as_raw Lookup = 1"
| "FuseOpcode_as_raw Forget = 2"
| "FuseOpcode_as_raw Getattr = 3"
| "FuseOpcode_as_raw Setattr = 4"
| "FuseOpcode_as_raw Readlink = 5"
| "FuseOpcode_as_raw Symlink = 6"
| "FuseOpcode_as_raw Mknod = 8"
| "FuseOpcode_as_raw Mkdir = 9"
| "FuseOpcode_as_raw Unlink = 10"
| "FuseOpcode_as_raw Rmdir = 11"
| "FuseOpcode_as_raw Rename = 12"
| "FuseOpcode_as_raw Link = 13"
| "FuseOpcode_as_raw Open = 14"
| "FuseOpcode_as_raw Read = 15"
| "FuseOpcode_as_raw Write = 16"
| "FuseOpcode_as_raw Statfs = 17"
| "FuseOpcode_as_raw Release = 18"
| "FuseOpcode_as_raw Fsync = 20"
| "FuseOpcode_as_raw Flush = 25"
| "FuseOpcode_as_raw Init = 26"
| "FuseOpcode_as_raw Opendir = 27"
| "FuseOpcode_as_raw Readdir = 28"
| "FuseOpcode_as_raw Releasedir = 29"
| "FuseOpcode_as_raw Destroy = 38"

definition FuseOpcode_from_raw :: "u32 \<Rightarrow> (fuse_error, fuse_opcode) result" where
  "FuseOpcode_from_raw raw =
     (if raw = 1 then Ok Lookup
      else if raw = 2 then Ok Forget
      else if raw = 3 then Ok Getattr
      else if raw = 4 then Ok Setattr
      else if raw = 5 then Ok Readlink
      else if raw = 6 then Ok Symlink
      else if raw = 8 then Ok Mknod
      else if raw = 9 then Ok Mkdir
      else if raw = 10 then Ok Unlink
      else if raw = 11 then Ok Rmdir
      else if raw = 12 then Ok Rename
      else if raw = 13 then Ok Link
      else if raw = 14 then Ok Open
      else if raw = 15 then Ok Read
      else if raw = 16 then Ok Write
      else if raw = 17 then Ok Statfs
      else if raw = 18 then Ok Release
      else if raw = 20 then Ok Fsync
      else if raw = 25 then Ok Flush
      else if raw = 26 then Ok Init
      else if raw = 27 then Ok Opendir
      else if raw = 28 then Ok Readdir
      else if raw = 29 then Ok Releasedir
      else if raw = 38 then Ok Destroy
      else Err (UnknownOpcode raw))"

record fuse_in_header =
  fh_len :: u32
  fh_opcode :: fuse_opcode
  fh_unique :: u64
  fh_nodeid :: u64
  fh_uid :: u32
  fh_gid :: u32
  fh_pid :: u32
  fh_total_extlen :: u16
  fh_padding :: u16

definition FuseInHeader_from_bytes :: "bytes \<Rightarrow> (fuse_error, fuse_in_header) result" where
  "FuseInHeader_from_bytes buf =
     (if length buf < FUSE_IN_HDR_LEN then Err (ShortHeader (length buf) FUSE_IN_HDR_LEN)
      else
        let len = from_le (slice_at 0 4 buf);
            opcode_raw = from_le (slice_at 4 4 buf);
            unique = from_le (slice_at 8 8 buf);
            nodeid = from_le (slice_at 16 8 buf);
            uid = from_le (slice_at 24 4 buf);
            gid = from_le (slice_at 28 4 buf);
            pid = from_le (slice_at 32 4 buf);
            total_extlen = from_le (slice_at 36 2 buf);
            padding = from_le (slice_at 38 2 buf)
        in and_then (FuseOpcode_from_raw opcode_raw) (\<lambda>opcode.
             Ok \<lparr>fh_len = len, fh_opcode = opcode, fh_unique = unique, fh_nodeid = nodeid, fh_uid = uid,
                 fh_gid = gid, fh_pid = pid, fh_total_extlen = total_extlen, fh_padding = padding\<rparr>))"

definition FuseInHeader_write_to :: "fuse_in_header \<Rightarrow> bytes \<Rightarrow> (fuse_error, nat \<times> bytes) result" where
  "FuseInHeader_write_to h buf =
     (if length buf < FUSE_IN_HDR_LEN then Err (ShortBuffer (length buf) FUSE_IN_HDR_LEN)
      else
        let buf = copy_into 0 (to_le 4 (fh_len h)) buf;
            buf = copy_into 4 (to_le 4 (FuseOpcode_as_raw (fh_opcode h))) buf;
            buf = copy_into 8 (to_le 8 (fh_unique h)) buf;
            buf = copy_into 16 (to_le 8 (fh_nodeid h)) buf;
            buf = copy_into 24 (to_le 4 (fh_uid h)) buf;
            buf = copy_into 28 (to_le 4 (fh_gid h)) buf;
            buf = copy_into 32 (to_le 4 (fh_pid h)) buf;
            buf = copy_into 36 (to_le 2 (fh_total_extlen h)) buf;
            buf = copy_into 38 (to_le 2 (fh_padding h)) buf
        in Ok (FUSE_IN_HDR_LEN, buf))"

definition FuseInHeader_to_bytes :: "fuse_in_header \<Rightarrow> bytes" where
  "FuseInHeader_to_bytes h = written_buf (FuseInHeader_write_to h (replicate FUSE_IN_HDR_LEN 0))"

text \<open>The error field is an \<^verbatim>\<open>i32\<close>: a negative error number or zero.\<close>

record fuse_out_header =
  fo_len :: u32
  fo_error :: u32
  fo_unique :: u64

definition FuseOutHeader_ok :: "u64 \<Rightarrow> u32 \<Rightarrow> fuse_out_header" where
  "FuseOutHeader_ok unique body_len =
     \<lparr>fo_len = of_nat FUSE_OUT_HDR_LEN + body_len, fo_error = 0, fo_unique = unique\<rparr>"

definition FuseOutHeader_err :: "u64 \<Rightarrow> u32 \<Rightarrow> fuse_out_header" where
  "FuseOutHeader_err unique errno =
     \<lparr>fo_len = of_nat FUSE_OUT_HDR_LEN, fo_error = - errno, fo_unique = unique\<rparr>"

definition FuseOutHeader_is_error :: "fuse_out_header \<Rightarrow> bool" where
  "FuseOutHeader_is_error h \<longleftrightarrow> fo_error h \<noteq> 0"

definition FuseOutHeader_from_bytes :: "bytes \<Rightarrow> (fuse_error, fuse_out_header) result" where
  "FuseOutHeader_from_bytes buf =
     (if length buf < FUSE_OUT_HDR_LEN then Err (ShortHeader (length buf) FUSE_OUT_HDR_LEN)
      else Ok \<lparr>fo_len = from_le (slice_at 0 4 buf), fo_error = from_le (slice_at 4 4 buf),
               fo_unique = from_le (slice_at 8 8 buf)\<rparr>)"

definition FuseOutHeader_write_to :: "fuse_out_header \<Rightarrow> bytes \<Rightarrow> (fuse_error, nat \<times> bytes) result" where
  "FuseOutHeader_write_to x buf =
     (if length buf < FUSE_OUT_HDR_LEN then Err (ShortBuffer (length buf) FUSE_OUT_HDR_LEN)
      else let buf = copy_into 0 (to_le 4 (fo_len x)) buf;
          buf = copy_into 4 (to_le 4 (fo_error x)) buf;
          buf = copy_into 8 (to_le 8 (fo_unique x)) buf
      in Ok (FUSE_OUT_HDR_LEN, buf))"

definition FuseOutHeader_to_bytes :: "fuse_out_header \<Rightarrow> bytes" where
  "FuseOutHeader_to_bytes x = written_buf (FuseOutHeader_write_to x (replicate FUSE_OUT_HDR_LEN 0))"

subsection \<open>Bodies\<close>

definition FUSE_INIT_IN_LEN :: nat where "FUSE_INIT_IN_LEN = 16"

record fuse_init_in =
  ii_major :: u32
  ii_minor :: u32
  ii_max_readahead :: u32
  ii_flags :: u32

definition FuseInitIn_from_bytes :: "bytes \<Rightarrow> (fuse_error, fuse_init_in) result" where
  "FuseInitIn_from_bytes buf =
     (if length buf < FUSE_INIT_IN_LEN then Err (ShortHeader (length buf) FUSE_INIT_IN_LEN)
      else Ok
        \<lparr>ii_major = from_le (slice_at 0 4 buf), ii_minor = from_le (slice_at 4 4 buf),
         ii_max_readahead = from_le (slice_at 8 4 buf), ii_flags = from_le (slice_at 12 4 buf)\<rparr>)"

definition FuseInitIn_write_to :: "fuse_init_in \<Rightarrow> bytes \<Rightarrow> (fuse_error, nat \<times> bytes) result" where
  "FuseInitIn_write_to x buf =
     (if length buf < FUSE_INIT_IN_LEN then Err (ShortBuffer (length buf) FUSE_INIT_IN_LEN)
      else let buf = copy_into 0 (to_le 4 (ii_major x)) buf;
          buf = copy_into 4 (to_le 4 (ii_minor x)) buf;
          buf = copy_into 8 (to_le 4 (ii_max_readahead x)) buf;
          buf = copy_into 12 (to_le 4 (ii_flags x)) buf
      in Ok (FUSE_INIT_IN_LEN, buf))"

definition FuseInitIn_to_bytes :: "fuse_init_in \<Rightarrow> bytes" where
  "FuseInitIn_to_bytes x = written_buf (FuseInitIn_write_to x (replicate FUSE_INIT_IN_LEN 0))"

definition FUSE_INIT_OUT_LEN :: nat where "FUSE_INIT_OUT_LEN = 64"

record fuse_init_out =
  io_major :: u32
  io_minor :: u32
  io_max_readahead :: u32
  io_flags :: u32
  io_max_background :: u16
  io_congestion_threshold :: u16
  io_max_write :: u32
  io_time_gran :: u32
  io_max_pages :: u16
  io_map_alignment :: u16
  io_flags2 :: u32
  io_unused :: "u32 list"

definition FuseInitOut_from_bytes :: "bytes \<Rightarrow> (fuse_error, fuse_init_out) result" where
  "FuseInitOut_from_bytes buf =
     (if length buf < FUSE_INIT_OUT_LEN then Err (ShortHeader (length buf) FUSE_INIT_OUT_LEN)
      else Ok
        \<lparr>io_major = from_le (slice_at 0 4 buf), io_minor = from_le (slice_at 4 4 buf),
         io_max_readahead = from_le (slice_at 8 4 buf), io_flags = from_le (slice_at 12 4 buf),
         io_max_background = from_le (slice_at 16 2 buf),
         io_congestion_threshold = from_le (slice_at 18 2 buf),
         io_max_write = from_le (slice_at 20 4 buf), io_time_gran = from_le (slice_at 24 4 buf),
         io_max_pages = from_le (slice_at 28 2 buf), io_map_alignment = from_le (slice_at 30 2 buf),
         io_flags2 = from_le (slice_at 32 4 buf),
         io_unused = map (\<lambda>i. from_le (slice_at (36 + 4 * i) 4 buf)) [0..<7]\<rparr>)"

definition FuseInitOut_write_to :: "fuse_init_out \<Rightarrow> bytes \<Rightarrow> (fuse_error, nat \<times> bytes) result" where
  "FuseInitOut_write_to x buf =
     (if length buf < FUSE_INIT_OUT_LEN then Err (ShortBuffer (length buf) FUSE_INIT_OUT_LEN)
      else let buf = copy_into 0 (to_le 4 (io_major x)) buf;
          buf = copy_into 4 (to_le 4 (io_minor x)) buf;
          buf = copy_into 8 (to_le 4 (io_max_readahead x)) buf;
          buf = copy_into 12 (to_le 4 (io_flags x)) buf;
          buf = copy_into 16 (to_le 2 (io_max_background x)) buf;
          buf = copy_into 18 (to_le 2 (io_congestion_threshold x)) buf;
          buf = copy_into 20 (to_le 4 (io_max_write x)) buf;
          buf = copy_into 24 (to_le 4 (io_time_gran x)) buf;
          buf = copy_into 28 (to_le 2 (io_max_pages x)) buf;
          buf = copy_into 30 (to_le 2 (io_map_alignment x)) buf;
          buf = copy_into 32 (to_le 4 (io_flags2 x)) buf;
          buf = fold (\<lambda>(i, w) buf. copy_into (36 + 4 * i) (to_le 4 w) buf) (enumerate 0 (io_unused x)) buf
      in Ok (FUSE_INIT_OUT_LEN, buf))"

definition FuseInitOut_to_bytes :: "fuse_init_out \<Rightarrow> bytes" where
  "FuseInitOut_to_bytes x = written_buf (FuseInitOut_write_to x (replicate FUSE_INIT_OUT_LEN 0))"

definition FuseInitOut_minimal :: "u32 \<Rightarrow> u32 \<Rightarrow> u32 \<Rightarrow> u32 \<Rightarrow> u32 \<Rightarrow> fuse_init_out" where
  "FuseInitOut_minimal major minor max_readahead flags max_write =
     \<lparr>io_major = major, io_minor = minor, io_max_readahead = max_readahead, io_flags = flags, io_max_background = 0,
      io_congestion_threshold = 0, io_max_write = max_write, io_time_gran = 1, io_max_pages = 0,
      io_map_alignment = 0, io_flags2 = 0, io_unused = replicate 7 0\<rparr>"

definition FUSE_ATTR_LEN :: nat where "FUSE_ATTR_LEN = 88"

record fuse_attr =
  fa_ino :: u64
  fa_size :: u64
  fa_blocks :: u64
  fa_atime :: u64
  fa_mtime :: u64
  fa_ctime :: u64
  fa_atimensec :: u32
  fa_mtimensec :: u32
  fa_ctimensec :: u32
  fa_mode :: u32
  fa_nlink :: u32
  fa_uid :: u32
  fa_gid :: u32
  fa_rdev :: u32
  fa_blksize :: u32
  fa_flags :: u32

definition FuseAttr_from_bytes :: "bytes \<Rightarrow> (fuse_error, fuse_attr) result" where
  "FuseAttr_from_bytes buf =
     (if length buf < FUSE_ATTR_LEN then Err (ShortHeader (length buf) FUSE_ATTR_LEN)
      else Ok
        \<lparr>fa_ino = from_le (slice_at 0 8 buf), fa_size = from_le (slice_at 8 8 buf),
         fa_blocks = from_le (slice_at 16 8 buf), fa_atime = from_le (slice_at 24 8 buf),
         fa_mtime = from_le (slice_at 32 8 buf), fa_ctime = from_le (slice_at 40 8 buf),
         fa_atimensec = from_le (slice_at 48 4 buf), fa_mtimensec = from_le (slice_at 52 4 buf),
         fa_ctimensec = from_le (slice_at 56 4 buf), fa_mode = from_le (slice_at 60 4 buf),
         fa_nlink = from_le (slice_at 64 4 buf), fa_uid = from_le (slice_at 68 4 buf),
         fa_gid = from_le (slice_at 72 4 buf), fa_rdev = from_le (slice_at 76 4 buf),
         fa_blksize = from_le (slice_at 80 4 buf), fa_flags = from_le (slice_at 84 4 buf)\<rparr>)"

definition FuseAttr_write_to :: "fuse_attr \<Rightarrow> bytes \<Rightarrow> (fuse_error, nat \<times> bytes) result" where
  "FuseAttr_write_to x buf =
     (if length buf < FUSE_ATTR_LEN then Err (ShortBuffer (length buf) FUSE_ATTR_LEN)
      else let buf = copy_into 0 (to_le 8 (fa_ino x)) buf;
          buf = copy_into 8 (to_le 8 (fa_size x)) buf;
          buf = copy_into 16 (to_le 8 (fa_blocks x)) buf;
          buf = copy_into 24 (to_le 8 (fa_atime x)) buf;
          buf = copy_into 32 (to_le 8 (fa_mtime x)) buf;
          buf = copy_into 40 (to_le 8 (fa_ctime x)) buf;
          buf = copy_into 48 (to_le 4 (fa_atimensec x)) buf;
          buf = copy_into 52 (to_le 4 (fa_mtimensec x)) buf;
          buf = copy_into 56 (to_le 4 (fa_ctimensec x)) buf;
          buf = copy_into 60 (to_le 4 (fa_mode x)) buf;
          buf = copy_into 64 (to_le 4 (fa_nlink x)) buf;
          buf = copy_into 68 (to_le 4 (fa_uid x)) buf;
          buf = copy_into 72 (to_le 4 (fa_gid x)) buf;
          buf = copy_into 76 (to_le 4 (fa_rdev x)) buf;
          buf = copy_into 80 (to_le 4 (fa_blksize x)) buf;
          buf = copy_into 84 (to_le 4 (fa_flags x)) buf
      in Ok (FUSE_ATTR_LEN, buf))"

definition FuseAttr_to_bytes :: "fuse_attr \<Rightarrow> bytes" where
  "FuseAttr_to_bytes x = written_buf (FuseAttr_write_to x (replicate FUSE_ATTR_LEN 0))"

definition FUSE_ENTRY_OUT_LEN :: nat where "FUSE_ENTRY_OUT_LEN = 128"

record fuse_entry_out =
  eo_nodeid :: u64
  eo_generation :: u64
  eo_entry_valid :: u64
  eo_attr_valid :: u64
  eo_entry_valid_nsec :: u32
  eo_attr_valid_nsec :: u32
  eo_attr :: fuse_attr

definition FuseEntryOut_from_bytes :: "bytes \<Rightarrow> (fuse_error, fuse_entry_out) result" where
  "FuseEntryOut_from_bytes buf =
     (if length buf < FUSE_ENTRY_OUT_LEN then Err (ShortHeader (length buf) FUSE_ENTRY_OUT_LEN)
      else and_then (FuseAttr_from_bytes (slice_at 40 FUSE_ATTR_LEN buf)) (\<lambda>attr.
        Ok \<lparr>eo_nodeid = from_le (slice_at 0 8 buf), eo_generation = from_le (slice_at 8 8 buf),
            eo_entry_valid = from_le (slice_at 16 8 buf), eo_attr_valid = from_le (slice_at 24 8 buf),
            eo_entry_valid_nsec = from_le (slice_at 32 4 buf),
            eo_attr_valid_nsec = from_le (slice_at 36 4 buf), eo_attr = attr\<rparr>))"

definition FuseEntryOut_write_to :: "fuse_entry_out \<Rightarrow> bytes \<Rightarrow> (fuse_error, nat \<times> bytes) result" where
  "FuseEntryOut_write_to x buf =
     (if length buf < FUSE_ENTRY_OUT_LEN then Err (ShortBuffer (length buf) FUSE_ENTRY_OUT_LEN)
      else let buf = copy_into 0 (to_le 8 (eo_nodeid x)) buf;
          buf = copy_into 8 (to_le 8 (eo_generation x)) buf;
          buf = copy_into 16 (to_le 8 (eo_entry_valid x)) buf;
          buf = copy_into 24 (to_le 8 (eo_attr_valid x)) buf;
          buf = copy_into 32 (to_le 4 (eo_entry_valid_nsec x)) buf;
          buf = copy_into 36 (to_le 4 (eo_attr_valid_nsec x)) buf
      in and_then (FuseAttr_write_to (eo_attr x) (slice_at 40 FUSE_ATTR_LEN buf)) (\<lambda>(_, sub).
           Ok (FUSE_ENTRY_OUT_LEN, copy_into 40 sub buf)))"

definition FuseEntryOut_to_bytes :: "fuse_entry_out \<Rightarrow> bytes" where
  "FuseEntryOut_to_bytes x = written_buf (FuseEntryOut_write_to x (replicate FUSE_ENTRY_OUT_LEN 0))"

definition FUSE_OPEN_IN_LEN :: nat where "FUSE_OPEN_IN_LEN = 8"

record fuse_open_in =
  oi_flags :: u32
  oi_open_flags :: u32

definition FuseOpenIn_from_bytes :: "bytes \<Rightarrow> (fuse_error, fuse_open_in) result" where
  "FuseOpenIn_from_bytes buf =
     (if length buf < FUSE_OPEN_IN_LEN then Err (ShortHeader (length buf) FUSE_OPEN_IN_LEN)
      else Ok
        \<lparr>oi_flags = from_le (slice_at 0 4 buf), oi_open_flags = from_le (slice_at 4 4 buf)\<rparr>)"

definition FuseOpenIn_write_to :: "fuse_open_in \<Rightarrow> bytes \<Rightarrow> (fuse_error, nat \<times> bytes) result" where
  "FuseOpenIn_write_to x buf =
     (if length buf < FUSE_OPEN_IN_LEN then Err (ShortBuffer (length buf) FUSE_OPEN_IN_LEN)
      else let buf = copy_into 0 (to_le 4 (oi_flags x)) buf;
          buf = copy_into 4 (to_le 4 (oi_open_flags x)) buf
      in Ok (FUSE_OPEN_IN_LEN, buf))"

definition FuseOpenIn_to_bytes :: "fuse_open_in \<Rightarrow> bytes" where
  "FuseOpenIn_to_bytes x = written_buf (FuseOpenIn_write_to x (replicate FUSE_OPEN_IN_LEN 0))"

definition FUSE_OPEN_OUT_LEN :: nat where "FUSE_OPEN_OUT_LEN = 16"

record fuse_open_out =
  oo_fh :: u64
  oo_open_flags :: u32
  oo_padding :: u32

definition FuseOpenOut_from_bytes :: "bytes \<Rightarrow> (fuse_error, fuse_open_out) result" where
  "FuseOpenOut_from_bytes buf =
     (if length buf < FUSE_OPEN_OUT_LEN then Err (ShortHeader (length buf) FUSE_OPEN_OUT_LEN)
      else Ok
        \<lparr>oo_fh = from_le (slice_at 0 8 buf), oo_open_flags = from_le (slice_at 8 4 buf),
         oo_padding = from_le (slice_at 12 4 buf)\<rparr>)"

definition FuseOpenOut_write_to :: "fuse_open_out \<Rightarrow> bytes \<Rightarrow> (fuse_error, nat \<times> bytes) result" where
  "FuseOpenOut_write_to x buf =
     (if length buf < FUSE_OPEN_OUT_LEN then Err (ShortBuffer (length buf) FUSE_OPEN_OUT_LEN)
      else let buf = copy_into 0 (to_le 8 (oo_fh x)) buf;
          buf = copy_into 8 (to_le 4 (oo_open_flags x)) buf;
          buf = copy_into 12 (to_le 4 (oo_padding x)) buf
      in Ok (FUSE_OPEN_OUT_LEN, buf))"

definition FuseOpenOut_to_bytes :: "fuse_open_out \<Rightarrow> bytes" where
  "FuseOpenOut_to_bytes x = written_buf (FuseOpenOut_write_to x (replicate FUSE_OPEN_OUT_LEN 0))"

definition FUSE_READ_IN_LEN :: nat where "FUSE_READ_IN_LEN = 40"

record fuse_read_in =
  ri_fh :: u64
  ri_offset :: u64
  ri_size :: u32
  ri_read_flags :: u32
  ri_lock_owner :: u64
  ri_flags :: u32
  ri_padding :: u32

definition FuseReadIn_from_bytes :: "bytes \<Rightarrow> (fuse_error, fuse_read_in) result" where
  "FuseReadIn_from_bytes buf =
     (if length buf < FUSE_READ_IN_LEN then Err (ShortHeader (length buf) FUSE_READ_IN_LEN)
      else Ok
        \<lparr>ri_fh = from_le (slice_at 0 8 buf), ri_offset = from_le (slice_at 8 8 buf),
         ri_size = from_le (slice_at 16 4 buf), ri_read_flags = from_le (slice_at 20 4 buf),
         ri_lock_owner = from_le (slice_at 24 8 buf), ri_flags = from_le (slice_at 32 4 buf),
         ri_padding = from_le (slice_at 36 4 buf)\<rparr>)"

definition FuseReadIn_write_to :: "fuse_read_in \<Rightarrow> bytes \<Rightarrow> (fuse_error, nat \<times> bytes) result" where
  "FuseReadIn_write_to x buf =
     (if length buf < FUSE_READ_IN_LEN then Err (ShortBuffer (length buf) FUSE_READ_IN_LEN)
      else let buf = copy_into 0 (to_le 8 (ri_fh x)) buf;
          buf = copy_into 8 (to_le 8 (ri_offset x)) buf;
          buf = copy_into 16 (to_le 4 (ri_size x)) buf;
          buf = copy_into 20 (to_le 4 (ri_read_flags x)) buf;
          buf = copy_into 24 (to_le 8 (ri_lock_owner x)) buf;
          buf = copy_into 32 (to_le 4 (ri_flags x)) buf;
          buf = copy_into 36 (to_le 4 (ri_padding x)) buf
      in Ok (FUSE_READ_IN_LEN, buf))"

definition FuseReadIn_to_bytes :: "fuse_read_in \<Rightarrow> bytes" where
  "FuseReadIn_to_bytes x = written_buf (FuseReadIn_write_to x (replicate FUSE_READ_IN_LEN 0))"

definition FUSE_WRITE_IN_LEN :: nat where "FUSE_WRITE_IN_LEN = 40"

record fuse_write_in =
  wi_fh :: u64
  wi_offset :: u64
  wi_size :: u32
  wi_write_flags :: u32
  wi_lock_owner :: u64
  wi_flags :: u32
  wi_padding :: u32

definition FuseWriteIn_from_bytes :: "bytes \<Rightarrow> (fuse_error, fuse_write_in) result" where
  "FuseWriteIn_from_bytes buf =
     (if length buf < FUSE_WRITE_IN_LEN then Err (ShortHeader (length buf) FUSE_WRITE_IN_LEN)
      else Ok
        \<lparr>wi_fh = from_le (slice_at 0 8 buf), wi_offset = from_le (slice_at 8 8 buf),
         wi_size = from_le (slice_at 16 4 buf), wi_write_flags = from_le (slice_at 20 4 buf),
         wi_lock_owner = from_le (slice_at 24 8 buf), wi_flags = from_le (slice_at 32 4 buf),
         wi_padding = from_le (slice_at 36 4 buf)\<rparr>)"

definition FuseWriteIn_write_to :: "fuse_write_in \<Rightarrow> bytes \<Rightarrow> (fuse_error, nat \<times> bytes) result" where
  "FuseWriteIn_write_to x buf =
     (if length buf < FUSE_WRITE_IN_LEN then Err (ShortBuffer (length buf) FUSE_WRITE_IN_LEN)
      else let buf = copy_into 0 (to_le 8 (wi_fh x)) buf;
          buf = copy_into 8 (to_le 8 (wi_offset x)) buf;
          buf = copy_into 16 (to_le 4 (wi_size x)) buf;
          buf = copy_into 20 (to_le 4 (wi_write_flags x)) buf;
          buf = copy_into 24 (to_le 8 (wi_lock_owner x)) buf;
          buf = copy_into 32 (to_le 4 (wi_flags x)) buf;
          buf = copy_into 36 (to_le 4 (wi_padding x)) buf
      in Ok (FUSE_WRITE_IN_LEN, buf))"

definition FuseWriteIn_to_bytes :: "fuse_write_in \<Rightarrow> bytes" where
  "FuseWriteIn_to_bytes x = written_buf (FuseWriteIn_write_to x (replicate FUSE_WRITE_IN_LEN 0))"

definition FUSE_WRITE_OUT_LEN :: nat where "FUSE_WRITE_OUT_LEN = 8"

record fuse_write_out =
  wo_size :: u32
  wo_padding :: u32

definition FuseWriteOut_from_bytes :: "bytes \<Rightarrow> (fuse_error, fuse_write_out) result" where
  "FuseWriteOut_from_bytes buf =
     (if length buf < FUSE_WRITE_OUT_LEN then Err (ShortHeader (length buf) FUSE_WRITE_OUT_LEN)
      else Ok
        \<lparr>wo_size = from_le (slice_at 0 4 buf), wo_padding = from_le (slice_at 4 4 buf)\<rparr>)"

definition FuseWriteOut_write_to :: "fuse_write_out \<Rightarrow> bytes \<Rightarrow> (fuse_error, nat \<times> bytes) result" where
  "FuseWriteOut_write_to x buf =
     (if length buf < FUSE_WRITE_OUT_LEN then Err (ShortBuffer (length buf) FUSE_WRITE_OUT_LEN)
      else let buf = copy_into 0 (to_le 4 (wo_size x)) buf;
          buf = copy_into 4 (to_le 4 (wo_padding x)) buf
      in Ok (FUSE_WRITE_OUT_LEN, buf))"

definition FuseWriteOut_to_bytes :: "fuse_write_out \<Rightarrow> bytes" where
  "FuseWriteOut_to_bytes x = written_buf (FuseWriteOut_write_to x (replicate FUSE_WRITE_OUT_LEN 0))"

definition FUSE_FLUSH_IN_LEN :: nat where "FUSE_FLUSH_IN_LEN = 24"

record fuse_flush_in =
  fi_fh :: u64
  fi_unused :: u32
  fi_padding :: u32
  fi_lock_owner :: u64

definition FuseFlushIn_from_bytes :: "bytes \<Rightarrow> (fuse_error, fuse_flush_in) result" where
  "FuseFlushIn_from_bytes buf =
     (if length buf < FUSE_FLUSH_IN_LEN then Err (ShortHeader (length buf) FUSE_FLUSH_IN_LEN)
      else Ok
        \<lparr>fi_fh = from_le (slice_at 0 8 buf), fi_unused = from_le (slice_at 8 4 buf),
         fi_padding = from_le (slice_at 12 4 buf), fi_lock_owner = from_le (slice_at 16 8 buf)\<rparr>)"

definition FuseFlushIn_write_to :: "fuse_flush_in \<Rightarrow> bytes \<Rightarrow> (fuse_error, nat \<times> bytes) result" where
  "FuseFlushIn_write_to x buf =
     (if length buf < FUSE_FLUSH_IN_LEN then Err (ShortBuffer (length buf) FUSE_FLUSH_IN_LEN)
      else let buf = copy_into 0 (to_le 8 (fi_fh x)) buf;
          buf = copy_into 8 (to_le 4 (fi_unused x)) buf;
          buf = copy_into 12 (to_le 4 (fi_padding x)) buf;
          buf = copy_into 16 (to_le 8 (fi_lock_owner x)) buf
      in Ok (FUSE_FLUSH_IN_LEN, buf))"

definition FuseFlushIn_to_bytes :: "fuse_flush_in \<Rightarrow> bytes" where
  "FuseFlushIn_to_bytes x = written_buf (FuseFlushIn_write_to x (replicate FUSE_FLUSH_IN_LEN 0))"

definition FUSE_RELEASE_IN_LEN :: nat where "FUSE_RELEASE_IN_LEN = 24"

record fuse_release_in =
  rl_fh :: u64
  rl_flags :: u32
  rl_release_flags :: u32
  rl_lock_owner :: u64

definition FuseReleaseIn_from_bytes :: "bytes \<Rightarrow> (fuse_error, fuse_release_in) result" where
  "FuseReleaseIn_from_bytes buf =
     (if length buf < FUSE_RELEASE_IN_LEN then Err (ShortHeader (length buf) FUSE_RELEASE_IN_LEN)
      else Ok
        \<lparr>rl_fh = from_le (slice_at 0 8 buf), rl_flags = from_le (slice_at 8 4 buf),
         rl_release_flags = from_le (slice_at 12 4 buf), rl_lock_owner = from_le (slice_at 16 8 buf)\<rparr>)"

definition FuseReleaseIn_write_to :: "fuse_release_in \<Rightarrow> bytes \<Rightarrow> (fuse_error, nat \<times> bytes) result" where
  "FuseReleaseIn_write_to x buf =
     (if length buf < FUSE_RELEASE_IN_LEN then Err (ShortBuffer (length buf) FUSE_RELEASE_IN_LEN)
      else let buf = copy_into 0 (to_le 8 (rl_fh x)) buf;
          buf = copy_into 8 (to_le 4 (rl_flags x)) buf;
          buf = copy_into 12 (to_le 4 (rl_release_flags x)) buf;
          buf = copy_into 16 (to_le 8 (rl_lock_owner x)) buf
      in Ok (FUSE_RELEASE_IN_LEN, buf))"

definition FuseReleaseIn_to_bytes :: "fuse_release_in \<Rightarrow> bytes" where
  "FuseReleaseIn_to_bytes x = written_buf (FuseReleaseIn_write_to x (replicate FUSE_RELEASE_IN_LEN 0))"

definition FUSE_FORGET_IN_LEN :: nat where "FUSE_FORGET_IN_LEN = 8"

record fuse_forget_in =
  fg_nlookup :: u64

definition FuseForgetIn_from_bytes :: "bytes \<Rightarrow> (fuse_error, fuse_forget_in) result" where
  "FuseForgetIn_from_bytes buf =
     (if length buf < FUSE_FORGET_IN_LEN then Err (ShortHeader (length buf) FUSE_FORGET_IN_LEN)
      else Ok
        \<lparr>fg_nlookup = from_le (slice_at 0 8 buf)\<rparr>)"

definition FuseForgetIn_write_to :: "fuse_forget_in \<Rightarrow> bytes \<Rightarrow> (fuse_error, nat \<times> bytes) result" where
  "FuseForgetIn_write_to x buf =
     (if length buf < FUSE_FORGET_IN_LEN then Err (ShortBuffer (length buf) FUSE_FORGET_IN_LEN)
      else let buf = copy_into 0 (to_le 8 (fg_nlookup x)) buf
      in Ok (FUSE_FORGET_IN_LEN, buf))"

definition FuseForgetIn_to_bytes :: "fuse_forget_in \<Rightarrow> bytes" where
  "FuseForgetIn_to_bytes x = written_buf (FuseForgetIn_write_to x (replicate FUSE_FORGET_IN_LEN 0))"

definition FUSE_GETATTR_IN_LEN :: nat where "FUSE_GETATTR_IN_LEN = 16"

record fuse_getattr_in =
  ga_getattr_flags :: u32
  ga_dummy :: u32
  ga_fh :: u64

definition FuseGetattrIn_from_bytes :: "bytes \<Rightarrow> (fuse_error, fuse_getattr_in) result" where
  "FuseGetattrIn_from_bytes buf =
     (if length buf < FUSE_GETATTR_IN_LEN then Err (ShortHeader (length buf) FUSE_GETATTR_IN_LEN)
      else Ok
        \<lparr>ga_getattr_flags = from_le (slice_at 0 4 buf), ga_dummy = from_le (slice_at 4 4 buf),
         ga_fh = from_le (slice_at 8 8 buf)\<rparr>)"

definition FuseGetattrIn_write_to :: "fuse_getattr_in \<Rightarrow> bytes \<Rightarrow> (fuse_error, nat \<times> bytes) result" where
  "FuseGetattrIn_write_to x buf =
     (if length buf < FUSE_GETATTR_IN_LEN then Err (ShortBuffer (length buf) FUSE_GETATTR_IN_LEN)
      else let buf = copy_into 0 (to_le 4 (ga_getattr_flags x)) buf;
          buf = copy_into 4 (to_le 4 (ga_dummy x)) buf;
          buf = copy_into 8 (to_le 8 (ga_fh x)) buf
      in Ok (FUSE_GETATTR_IN_LEN, buf))"

definition FuseGetattrIn_to_bytes :: "fuse_getattr_in \<Rightarrow> bytes" where
  "FuseGetattrIn_to_bytes x = written_buf (FuseGetattrIn_write_to x (replicate FUSE_GETATTR_IN_LEN 0))"

definition FUSE_ATTR_OUT_LEN :: nat where "FUSE_ATTR_OUT_LEN = 16 + FUSE_ATTR_LEN"

record fuse_attr_out =
  ao_attr_valid :: u64
  ao_attr_valid_nsec :: u32
  ao_dummy :: u32
  ao_attr :: fuse_attr

definition FuseAttrOut_from_bytes :: "bytes \<Rightarrow> (fuse_error, fuse_attr_out) result" where
  "FuseAttrOut_from_bytes buf =
     (if length buf < FUSE_ATTR_OUT_LEN then Err (ShortHeader (length buf) FUSE_ATTR_OUT_LEN)
      else and_then (FuseAttr_from_bytes (slice_at 16 FUSE_ATTR_LEN buf)) (\<lambda>attr.
        Ok \<lparr>ao_attr_valid = from_le (slice_at 0 8 buf), ao_attr_valid_nsec = from_le (slice_at 8 4 buf),
            ao_dummy = from_le (slice_at 12 4 buf), ao_attr = attr\<rparr>))"

definition FuseAttrOut_write_to :: "fuse_attr_out \<Rightarrow> bytes \<Rightarrow> (fuse_error, nat \<times> bytes) result" where
  "FuseAttrOut_write_to x buf =
     (if length buf < FUSE_ATTR_OUT_LEN then Err (ShortBuffer (length buf) FUSE_ATTR_OUT_LEN)
      else let buf = copy_into 0 (to_le 8 (ao_attr_valid x)) buf;
          buf = copy_into 8 (to_le 4 (ao_attr_valid_nsec x)) buf;
          buf = copy_into 12 (to_le 4 (ao_dummy x)) buf
      in and_then (FuseAttr_write_to (ao_attr x) (slice_at 16 FUSE_ATTR_LEN buf)) (\<lambda>(_, sub).
           Ok (FUSE_ATTR_OUT_LEN, copy_into 16 sub buf)))"

definition FuseAttrOut_to_bytes :: "fuse_attr_out \<Rightarrow> bytes" where
  "FuseAttrOut_to_bytes x = written_buf (FuseAttrOut_write_to x (replicate FUSE_ATTR_OUT_LEN 0))"

definition FUSE_SETATTR_IN_LEN :: nat where "FUSE_SETATTR_IN_LEN = 88"

record fuse_setattr_in =
  sa_valid :: u32
  sa_padding :: u32
  sa_fh :: u64
  sa_size :: u64
  sa_lock_owner :: u64
  sa_atime :: u64
  sa_mtime :: u64
  sa_ctime :: u64
  sa_atimensec :: u32
  sa_mtimensec :: u32
  sa_ctimensec :: u32
  sa_mode :: u32
  sa_unused4 :: u32
  sa_uid :: u32
  sa_gid :: u32
  sa_unused5 :: u32

definition FuseSetattrIn_from_bytes :: "bytes \<Rightarrow> (fuse_error, fuse_setattr_in) result" where
  "FuseSetattrIn_from_bytes buf =
     (if length buf < FUSE_SETATTR_IN_LEN then Err (ShortHeader (length buf) FUSE_SETATTR_IN_LEN)
      else Ok
        \<lparr>sa_valid = from_le (slice_at 0 4 buf), sa_padding = from_le (slice_at 4 4 buf),
         sa_fh = from_le (slice_at 8 8 buf), sa_size = from_le (slice_at 16 8 buf),
         sa_lock_owner = from_le (slice_at 24 8 buf), sa_atime = from_le (slice_at 32 8 buf),
         sa_mtime = from_le (slice_at 40 8 buf), sa_ctime = from_le (slice_at 48 8 buf),
         sa_atimensec = from_le (slice_at 56 4 buf), sa_mtimensec = from_le (slice_at 60 4 buf),
         sa_ctimensec = from_le (slice_at 64 4 buf), sa_mode = from_le (slice_at 68 4 buf),
         sa_unused4 = from_le (slice_at 72 4 buf), sa_uid = from_le (slice_at 76 4 buf),
         sa_gid = from_le (slice_at 80 4 buf), sa_unused5 = from_le (slice_at 84 4 buf)\<rparr>)"

definition FuseSetattrIn_write_to :: "fuse_setattr_in \<Rightarrow> bytes \<Rightarrow> (fuse_error, nat \<times> bytes) result" where
  "FuseSetattrIn_write_to x buf =
     (if length buf < FUSE_SETATTR_IN_LEN then Err (ShortBuffer (length buf) FUSE_SETATTR_IN_LEN)
      else let buf = copy_into 0 (to_le 4 (sa_valid x)) buf;
          buf = copy_into 4 (to_le 4 (sa_padding x)) buf;
          buf = copy_into 8 (to_le 8 (sa_fh x)) buf;
          buf = copy_into 16 (to_le 8 (sa_size x)) buf;
          buf = copy_into 24 (to_le 8 (sa_lock_owner x)) buf;
          buf = copy_into 32 (to_le 8 (sa_atime x)) buf;
          buf = copy_into 40 (to_le 8 (sa_mtime x)) buf;
          buf = copy_into 48 (to_le 8 (sa_ctime x)) buf;
          buf = copy_into 56 (to_le 4 (sa_atimensec x)) buf;
          buf = copy_into 60 (to_le 4 (sa_mtimensec x)) buf;
          buf = copy_into 64 (to_le 4 (sa_ctimensec x)) buf;
          buf = copy_into 68 (to_le 4 (sa_mode x)) buf;
          buf = copy_into 72 (to_le 4 (sa_unused4 x)) buf;
          buf = copy_into 76 (to_le 4 (sa_uid x)) buf;
          buf = copy_into 80 (to_le 4 (sa_gid x)) buf;
          buf = copy_into 84 (to_le 4 (sa_unused5 x)) buf
      in Ok (FUSE_SETATTR_IN_LEN, buf))"

definition FuseSetattrIn_to_bytes :: "fuse_setattr_in \<Rightarrow> bytes" where
  "FuseSetattrIn_to_bytes x = written_buf (FuseSetattrIn_write_to x (replicate FUSE_SETATTR_IN_LEN 0))"

definition FUSE_STATFS_OUT_LEN :: nat where "FUSE_STATFS_OUT_LEN = 80"

record fuse_statfs_out =
  so_blocks :: u64
  so_bfree :: u64
  so_bavail :: u64
  so_files :: u64
  so_ffree :: u64
  so_bsize :: u32
  so_namelen :: u32
  so_frsize :: u32
  so_padding :: u32
  so_spare :: "u32 list"

definition FuseStatfsOut_from_bytes :: "bytes \<Rightarrow> (fuse_error, fuse_statfs_out) result" where
  "FuseStatfsOut_from_bytes buf =
     (if length buf < FUSE_STATFS_OUT_LEN then Err (ShortHeader (length buf) FUSE_STATFS_OUT_LEN)
      else Ok
        \<lparr>so_blocks = from_le (slice_at 0 8 buf), so_bfree = from_le (slice_at 8 8 buf),
         so_bavail = from_le (slice_at 16 8 buf), so_files = from_le (slice_at 24 8 buf),
         so_ffree = from_le (slice_at 32 8 buf), so_bsize = from_le (slice_at 40 4 buf),
         so_namelen = from_le (slice_at 44 4 buf), so_frsize = from_le (slice_at 48 4 buf),
         so_padding = from_le (slice_at 52 4 buf),
         so_spare = map (\<lambda>i. from_le (slice_at (56 + 4 * i) 4 buf)) [0..<6]\<rparr>)"

definition FuseStatfsOut_write_to :: "fuse_statfs_out \<Rightarrow> bytes \<Rightarrow> (fuse_error, nat \<times> bytes) result" where
  "FuseStatfsOut_write_to x buf =
     (if length buf < FUSE_STATFS_OUT_LEN then Err (ShortBuffer (length buf) FUSE_STATFS_OUT_LEN)
      else let buf = copy_into 0 (to_le 8 (so_blocks x)) buf;
          buf = copy_into 8 (to_le 8 (so_bfree x)) buf;
          buf = copy_into 16 (to_le 8 (so_bavail x)) buf;
          buf = copy_into 24 (to_le 8 (so_files x)) buf;
          buf = copy_into 32 (to_le 8 (so_ffree x)) buf;
          buf = copy_into 40 (to_le 4 (so_bsize x)) buf;
          buf = copy_into 44 (to_le 4 (so_namelen x)) buf;
          buf = copy_into 48 (to_le 4 (so_frsize x)) buf;
          buf = copy_into 52 (to_le 4 (so_padding x)) buf;
          buf = fold (\<lambda>(i, w) buf. copy_into (56 + 4 * i) (to_le 4 w) buf) (enumerate 0 (so_spare x)) buf
      in Ok (FUSE_STATFS_OUT_LEN, buf))"

definition FuseStatfsOut_to_bytes :: "fuse_statfs_out \<Rightarrow> bytes" where
  "FuseStatfsOut_to_bytes x = written_buf (FuseStatfsOut_write_to x (replicate FUSE_STATFS_OUT_LEN 0))"

definition FUSE_MKNOD_IN_LEN :: nat where "FUSE_MKNOD_IN_LEN = 16"

record fuse_mknod_in =
  mk_mode :: u32
  mk_rdev :: u32
  mk_umask :: u32
  mk_padding :: u32

definition FuseMknodIn_from_bytes :: "bytes \<Rightarrow> (fuse_error, fuse_mknod_in) result" where
  "FuseMknodIn_from_bytes buf =
     (if length buf < FUSE_MKNOD_IN_LEN then Err (ShortHeader (length buf) FUSE_MKNOD_IN_LEN)
      else Ok
        \<lparr>mk_mode = from_le (slice_at 0 4 buf), mk_rdev = from_le (slice_at 4 4 buf),
         mk_umask = from_le (slice_at 8 4 buf), mk_padding = from_le (slice_at 12 4 buf)\<rparr>)"

definition FuseMknodIn_write_to :: "fuse_mknod_in \<Rightarrow> bytes \<Rightarrow> (fuse_error, nat \<times> bytes) result" where
  "FuseMknodIn_write_to x buf =
     (if length buf < FUSE_MKNOD_IN_LEN then Err (ShortBuffer (length buf) FUSE_MKNOD_IN_LEN)
      else let buf = copy_into 0 (to_le 4 (mk_mode x)) buf;
          buf = copy_into 4 (to_le 4 (mk_rdev x)) buf;
          buf = copy_into 8 (to_le 4 (mk_umask x)) buf;
          buf = copy_into 12 (to_le 4 (mk_padding x)) buf
      in Ok (FUSE_MKNOD_IN_LEN, buf))"

definition FuseMknodIn_to_bytes :: "fuse_mknod_in \<Rightarrow> bytes" where
  "FuseMknodIn_to_bytes x = written_buf (FuseMknodIn_write_to x (replicate FUSE_MKNOD_IN_LEN 0))"

definition FUSE_MKDIR_IN_LEN :: nat where "FUSE_MKDIR_IN_LEN = 8"

record fuse_mkdir_in =
  md_mode :: u32
  md_umask :: u32

definition FuseMkdirIn_from_bytes :: "bytes \<Rightarrow> (fuse_error, fuse_mkdir_in) result" where
  "FuseMkdirIn_from_bytes buf =
     (if length buf < FUSE_MKDIR_IN_LEN then Err (ShortHeader (length buf) FUSE_MKDIR_IN_LEN)
      else Ok
        \<lparr>md_mode = from_le (slice_at 0 4 buf), md_umask = from_le (slice_at 4 4 buf)\<rparr>)"

definition FuseMkdirIn_write_to :: "fuse_mkdir_in \<Rightarrow> bytes \<Rightarrow> (fuse_error, nat \<times> bytes) result" where
  "FuseMkdirIn_write_to x buf =
     (if length buf < FUSE_MKDIR_IN_LEN then Err (ShortBuffer (length buf) FUSE_MKDIR_IN_LEN)
      else let buf = copy_into 0 (to_le 4 (md_mode x)) buf;
          buf = copy_into 4 (to_le 4 (md_umask x)) buf
      in Ok (FUSE_MKDIR_IN_LEN, buf))"

definition FuseMkdirIn_to_bytes :: "fuse_mkdir_in \<Rightarrow> bytes" where
  "FuseMkdirIn_to_bytes x = written_buf (FuseMkdirIn_write_to x (replicate FUSE_MKDIR_IN_LEN 0))"

definition FUSE_FSYNC_IN_LEN :: nat where "FUSE_FSYNC_IN_LEN = 16"

record fuse_fsync_in =
  fy_fh :: u64
  fy_fsync_flags :: u32
  fy_padding :: u32

definition FuseFsyncIn_from_bytes :: "bytes \<Rightarrow> (fuse_error, fuse_fsync_in) result" where
  "FuseFsyncIn_from_bytes buf =
     (if length buf < FUSE_FSYNC_IN_LEN then Err (ShortHeader (length buf) FUSE_FSYNC_IN_LEN)
      else Ok
        \<lparr>fy_fh = from_le (slice_at 0 8 buf), fy_fsync_flags = from_le (slice_at 8 4 buf),
         fy_padding = from_le (slice_at 12 4 buf)\<rparr>)"

definition FuseFsyncIn_write_to :: "fuse_fsync_in \<Rightarrow> bytes \<Rightarrow> (fuse_error, nat \<times> bytes) result" where
  "FuseFsyncIn_write_to x buf =
     (if length buf < FUSE_FSYNC_IN_LEN then Err (ShortBuffer (length buf) FUSE_FSYNC_IN_LEN)
      else let buf = copy_into 0 (to_le 8 (fy_fh x)) buf;
          buf = copy_into 8 (to_le 4 (fy_fsync_flags x)) buf;
          buf = copy_into 12 (to_le 4 (fy_padding x)) buf
      in Ok (FUSE_FSYNC_IN_LEN, buf))"

definition FuseFsyncIn_to_bytes :: "fuse_fsync_in \<Rightarrow> bytes" where
  "FuseFsyncIn_to_bytes x = written_buf (FuseFsyncIn_write_to x (replicate FUSE_FSYNC_IN_LEN 0))"

definition FUSE_RENAME_IN_LEN :: nat where "FUSE_RENAME_IN_LEN = 8"

record fuse_rename_in =
  rn_newdir :: u64

definition FuseRenameIn_from_bytes :: "bytes \<Rightarrow> (fuse_error, fuse_rename_in) result" where
  "FuseRenameIn_from_bytes buf =
     (if length buf < FUSE_RENAME_IN_LEN then Err (ShortHeader (length buf) FUSE_RENAME_IN_LEN)
      else Ok
        \<lparr>rn_newdir = from_le (slice_at 0 8 buf)\<rparr>)"

definition FuseRenameIn_write_to :: "fuse_rename_in \<Rightarrow> bytes \<Rightarrow> (fuse_error, nat \<times> bytes) result" where
  "FuseRenameIn_write_to x buf =
     (if length buf < FUSE_RENAME_IN_LEN then Err (ShortBuffer (length buf) FUSE_RENAME_IN_LEN)
      else let buf = copy_into 0 (to_le 8 (rn_newdir x)) buf
      in Ok (FUSE_RENAME_IN_LEN, buf))"

definition FuseRenameIn_to_bytes :: "fuse_rename_in \<Rightarrow> bytes" where
  "FuseRenameIn_to_bytes x = written_buf (FuseRenameIn_write_to x (replicate FUSE_RENAME_IN_LEN 0))"

definition FUSE_LINK_IN_LEN :: nat where "FUSE_LINK_IN_LEN = 8"

record fuse_link_in =
  ln_oldnodeid :: u64

definition FuseLinkIn_from_bytes :: "bytes \<Rightarrow> (fuse_error, fuse_link_in) result" where
  "FuseLinkIn_from_bytes buf =
     (if length buf < FUSE_LINK_IN_LEN then Err (ShortHeader (length buf) FUSE_LINK_IN_LEN)
      else Ok
        \<lparr>ln_oldnodeid = from_le (slice_at 0 8 buf)\<rparr>)"

definition FuseLinkIn_write_to :: "fuse_link_in \<Rightarrow> bytes \<Rightarrow> (fuse_error, nat \<times> bytes) result" where
  "FuseLinkIn_write_to x buf =
     (if length buf < FUSE_LINK_IN_LEN then Err (ShortBuffer (length buf) FUSE_LINK_IN_LEN)
      else let buf = copy_into 0 (to_le 8 (ln_oldnodeid x)) buf
      in Ok (FUSE_LINK_IN_LEN, buf))"

definition FuseLinkIn_to_bytes :: "fuse_link_in \<Rightarrow> bytes" where
  "FuseLinkIn_to_bytes x = written_buf (FuseLinkIn_write_to x (replicate FUSE_LINK_IN_LEN 0))"

definition FUSE_GETATTR_FH :: u32 where "FUSE_GETATTR_FH = 1"
definition FUSE_FSYNC_FDATASYNC :: u32 where "FUSE_FSYNC_FDATASYNC = 1"
definition fattr_MODE :: u32 where "fattr_MODE = push_bit 0 1"
definition fattr_SIZE :: u32 where "fattr_SIZE = push_bit 3 1"

subsection \<open>The codecs are exact\<close>

text \<open>Arrays of words, as one field.\<close>

lemma fold_copy_words:
  "fold (\<lambda>(i, w) buf. copy_into (off + 4 * i) (to_le 4 w) buf) (enumerate n ws) b =
    write_fields (off + 4 * n) (map (to_le 4) (ws :: u32 list)) b"
  by (induction ws arbitrary: n b) (simp_all add: algebra_simps)

lemma write_fields_join:
  "off + length (concat fs) \<le> length b \<Longrightarrow> write_fields off fs b = copy_into off (concat fs) b"
proof (induction fs arbitrary: off b)
  case (Cons f fs)
  then have "write_fields off (f # fs) b = copy_into (off + length f) (concat fs) (copy_into off f b)"
    by (simp add: ac_simps)
  also have "\<dots> = copy_into off (concat (f # fs)) b"
    using Cons.prems by (simp add: copy_into_def ac_simps)
  finally show ?case .
qed (simp add: copy_into_def)

lemma read_words:
  "concat (map (\<lambda>i. to_le 4 (from_le (slice_at (off + 4 * i) 4 b) :: u32)) [0..<n]) = slice_at off (4 * n) b"
  if "off + 4 * n \<le> length b"
  using that by (induction n) (simp_all add: le_roundtrip_bytes slice_append_adj add.commute, simp add: slice_at_def)

lemma words_inject: "concat (map (to_le 4) ws) = concat (map (to_le 4) vs) \<Longrightarrow> length ws = length vs \<Longrightarrow> ws = (vs :: u32 list)"
  by (induction ws vs rule: list_induct2') (auto simp: to_le_inject)

lemma sum_list_fours: "sum_list (map (\<lambda>_. 4) ws) = 4 * length (ws :: 'a list)"
  by (induction ws) auto

interpretation fuse_init_in: le_struct FuseInitIn_from_bytes FuseInitIn_write_to FuseInitIn_to_bytes FUSE_INIT_IN_LEN
  "\<lambda>n. ShortHeader n FUSE_INIT_IN_LEN" "\<lambda>n. ShortBuffer n FUSE_INIT_IN_LEN"
  "\<lambda>x. [to_le 4 (ii_major x), to_le 4 (ii_minor x), to_le 4 (ii_max_readahead x), to_le 4 (ii_flags x)]"
  "[4, 4, 4, 4]" "\<lambda>_. True"
  by unfold_locales
    (auto simp: FuseInitIn_from_bytes_def FuseInitIn_write_to_def FuseInitIn_to_bytes_def FUSE_INIT_IN_LEN_def Let_def to_le_inject le_roundtrip_bytes)

interpretation fuse_init_out: le_struct FuseInitOut_from_bytes FuseInitOut_write_to FuseInitOut_to_bytes FUSE_INIT_OUT_LEN
  "\<lambda>n. ShortHeader n FUSE_INIT_OUT_LEN" "\<lambda>n. ShortBuffer n FUSE_INIT_OUT_LEN"
  "\<lambda>x. [to_le 4 (io_major x), to_le 4 (io_minor x), to_le 4 (io_max_readahead x), to_le 4 (io_flags x),
    to_le 2 (io_max_background x), to_le 2 (io_congestion_threshold x), to_le 4 (io_max_write x),
    to_le 4 (io_time_gran x), to_le 2 (io_max_pages x), to_le 2 (io_map_alignment x),
    to_le 4 (io_flags2 x), concat (map (to_le 4) (io_unused x))]"
  "[4, 4, 4, 4, 2, 2, 4, 4, 2, 2, 4, 28]" "\<lambda>x. length (io_unused x) = 7"
  by unfold_locales
    (auto simp: FuseInitOut_from_bytes_def FuseInitOut_write_to_def FuseInitOut_to_bytes_def FUSE_INIT_OUT_LEN_def Let_def to_le_inject le_roundtrip_bytes
      fold_copy_words write_fields_join read_words length_concat comp_def sum_list_fours map_map
      dest: words_inject)

interpretation fuse_attr: le_struct FuseAttr_from_bytes FuseAttr_write_to FuseAttr_to_bytes FUSE_ATTR_LEN
  "\<lambda>n. ShortHeader n FUSE_ATTR_LEN" "\<lambda>n. ShortBuffer n FUSE_ATTR_LEN"
  "\<lambda>x. [to_le 8 (fa_ino x), to_le 8 (fa_size x), to_le 8 (fa_blocks x), to_le 8 (fa_atime x),
    to_le 8 (fa_mtime x), to_le 8 (fa_ctime x), to_le 4 (fa_atimensec x), to_le 4 (fa_mtimensec x),
    to_le 4 (fa_ctimensec x), to_le 4 (fa_mode x), to_le 4 (fa_nlink x), to_le 4 (fa_uid x),
    to_le 4 (fa_gid x), to_le 4 (fa_rdev x), to_le 4 (fa_blksize x), to_le 4 (fa_flags x)]"
  "[8, 8, 8, 8, 8, 8, 4, 4, 4, 4, 4, 4, 4, 4, 4, 4]" "\<lambda>_. True"
  by unfold_locales
    (auto simp: FuseAttr_from_bytes_def FuseAttr_write_to_def FuseAttr_to_bytes_def FUSE_ATTR_LEN_def Let_def to_le_inject le_roundtrip_bytes)

lemma attr_width [simp]: "length (FuseAttr_to_bytes a) = 88"
  using fuse_attr.enc_length [of a] by (simp add: FUSE_ATTR_LEN_def)

lemma attr_inject: "FuseAttr_to_bytes a = FuseAttr_to_bytes b \<Longrightarrow> a = b"
  using fuse_attr.enc_inject by simp

interpretation fuse_entry_out: le_struct FuseEntryOut_from_bytes FuseEntryOut_write_to FuseEntryOut_to_bytes FUSE_ENTRY_OUT_LEN
  "\<lambda>n. ShortHeader n FUSE_ENTRY_OUT_LEN" "\<lambda>n. ShortBuffer n FUSE_ENTRY_OUT_LEN"
  "\<lambda>x. [to_le 8 (eo_nodeid x), to_le 8 (eo_generation x), to_le 8 (eo_entry_valid x),
    to_le 8 (eo_attr_valid x), to_le 4 (eo_entry_valid_nsec x), to_le 4 (eo_attr_valid_nsec x),
    FuseAttr_to_bytes (eo_attr x)]"
  "[8, 8, 8, 8, 4, 4, 88]" "\<lambda>_. True"
proof (unfold_locales, goal_cases)
  case (5 b)
  then obtain a where "FuseAttr_from_bytes (slice_at 40 88 b) = Inr a" and "FuseAttr_to_bytes a = slice_at 40 88 b"
    using fuse_attr.dec_total [of "slice_at 40 88 b"] fuse_attr.enc_dec by (fastforce simp: FUSE_ENTRY_OUT_LEN_def FUSE_ATTR_LEN_def)
  with 5 show ?case by (simp add: FuseEntryOut_from_bytes_def FUSE_ENTRY_OUT_LEN_def FUSE_ATTR_LEN_def le_roundtrip_bytes)
qed (auto simp: FuseEntryOut_from_bytes_def FuseEntryOut_write_to_def FuseEntryOut_to_bytes_def FUSE_ENTRY_OUT_LEN_def FUSE_ATTR_LEN_def Let_def to_le_inject
    fuse_attr.write_to_eq attr_width dest: attr_inject)

interpretation fuse_open_in: le_struct FuseOpenIn_from_bytes FuseOpenIn_write_to FuseOpenIn_to_bytes FUSE_OPEN_IN_LEN
  "\<lambda>n. ShortHeader n FUSE_OPEN_IN_LEN" "\<lambda>n. ShortBuffer n FUSE_OPEN_IN_LEN"
  "\<lambda>x. [to_le 4 (oi_flags x), to_le 4 (oi_open_flags x)]"
  "[4, 4]" "\<lambda>_. True"
  by unfold_locales
    (auto simp: FuseOpenIn_from_bytes_def FuseOpenIn_write_to_def FuseOpenIn_to_bytes_def FUSE_OPEN_IN_LEN_def Let_def to_le_inject le_roundtrip_bytes)

interpretation fuse_open_out: le_struct FuseOpenOut_from_bytes FuseOpenOut_write_to FuseOpenOut_to_bytes FUSE_OPEN_OUT_LEN
  "\<lambda>n. ShortHeader n FUSE_OPEN_OUT_LEN" "\<lambda>n. ShortBuffer n FUSE_OPEN_OUT_LEN"
  "\<lambda>x. [to_le 8 (oo_fh x), to_le 4 (oo_open_flags x), to_le 4 (oo_padding x)]"
  "[8, 4, 4]" "\<lambda>_. True"
  by unfold_locales
    (auto simp: FuseOpenOut_from_bytes_def FuseOpenOut_write_to_def FuseOpenOut_to_bytes_def FUSE_OPEN_OUT_LEN_def Let_def to_le_inject le_roundtrip_bytes)

interpretation fuse_read_in: le_struct FuseReadIn_from_bytes FuseReadIn_write_to FuseReadIn_to_bytes FUSE_READ_IN_LEN
  "\<lambda>n. ShortHeader n FUSE_READ_IN_LEN" "\<lambda>n. ShortBuffer n FUSE_READ_IN_LEN"
  "\<lambda>x. [to_le 8 (ri_fh x), to_le 8 (ri_offset x), to_le 4 (ri_size x), to_le 4 (ri_read_flags x),
    to_le 8 (ri_lock_owner x), to_le 4 (ri_flags x), to_le 4 (ri_padding x)]"
  "[8, 8, 4, 4, 8, 4, 4]" "\<lambda>_. True"
  by unfold_locales
    (auto simp: FuseReadIn_from_bytes_def FuseReadIn_write_to_def FuseReadIn_to_bytes_def FUSE_READ_IN_LEN_def Let_def to_le_inject le_roundtrip_bytes)

interpretation fuse_write_in: le_struct FuseWriteIn_from_bytes FuseWriteIn_write_to FuseWriteIn_to_bytes FUSE_WRITE_IN_LEN
  "\<lambda>n. ShortHeader n FUSE_WRITE_IN_LEN" "\<lambda>n. ShortBuffer n FUSE_WRITE_IN_LEN"
  "\<lambda>x. [to_le 8 (wi_fh x), to_le 8 (wi_offset x), to_le 4 (wi_size x), to_le 4 (wi_write_flags x),
    to_le 8 (wi_lock_owner x), to_le 4 (wi_flags x), to_le 4 (wi_padding x)]"
  "[8, 8, 4, 4, 8, 4, 4]" "\<lambda>_. True"
  by unfold_locales
    (auto simp: FuseWriteIn_from_bytes_def FuseWriteIn_write_to_def FuseWriteIn_to_bytes_def FUSE_WRITE_IN_LEN_def Let_def to_le_inject le_roundtrip_bytes)

interpretation fuse_write_out: le_struct FuseWriteOut_from_bytes FuseWriteOut_write_to FuseWriteOut_to_bytes FUSE_WRITE_OUT_LEN
  "\<lambda>n. ShortHeader n FUSE_WRITE_OUT_LEN" "\<lambda>n. ShortBuffer n FUSE_WRITE_OUT_LEN"
  "\<lambda>x. [to_le 4 (wo_size x), to_le 4 (wo_padding x)]"
  "[4, 4]" "\<lambda>_. True"
  by unfold_locales
    (auto simp: FuseWriteOut_from_bytes_def FuseWriteOut_write_to_def FuseWriteOut_to_bytes_def FUSE_WRITE_OUT_LEN_def Let_def to_le_inject le_roundtrip_bytes)

interpretation fuse_flush_in: le_struct FuseFlushIn_from_bytes FuseFlushIn_write_to FuseFlushIn_to_bytes FUSE_FLUSH_IN_LEN
  "\<lambda>n. ShortHeader n FUSE_FLUSH_IN_LEN" "\<lambda>n. ShortBuffer n FUSE_FLUSH_IN_LEN"
  "\<lambda>x. [to_le 8 (fi_fh x), to_le 4 (fi_unused x), to_le 4 (fi_padding x), to_le 8 (fi_lock_owner x)]"
  "[8, 4, 4, 8]" "\<lambda>_. True"
  by unfold_locales
    (auto simp: FuseFlushIn_from_bytes_def FuseFlushIn_write_to_def FuseFlushIn_to_bytes_def FUSE_FLUSH_IN_LEN_def Let_def to_le_inject le_roundtrip_bytes)

interpretation fuse_release_in: le_struct FuseReleaseIn_from_bytes FuseReleaseIn_write_to FuseReleaseIn_to_bytes FUSE_RELEASE_IN_LEN
  "\<lambda>n. ShortHeader n FUSE_RELEASE_IN_LEN" "\<lambda>n. ShortBuffer n FUSE_RELEASE_IN_LEN"
  "\<lambda>x. [to_le 8 (rl_fh x), to_le 4 (rl_flags x), to_le 4 (rl_release_flags x), to_le 8 (rl_lock_owner x)]"
  "[8, 4, 4, 8]" "\<lambda>_. True"
  by unfold_locales
    (auto simp: FuseReleaseIn_from_bytes_def FuseReleaseIn_write_to_def FuseReleaseIn_to_bytes_def FUSE_RELEASE_IN_LEN_def Let_def to_le_inject le_roundtrip_bytes)

interpretation fuse_forget_in: le_struct FuseForgetIn_from_bytes FuseForgetIn_write_to FuseForgetIn_to_bytes FUSE_FORGET_IN_LEN
  "\<lambda>n. ShortHeader n FUSE_FORGET_IN_LEN" "\<lambda>n. ShortBuffer n FUSE_FORGET_IN_LEN"
  "\<lambda>x. [to_le 8 (fg_nlookup x)]"
  "[8]" "\<lambda>_. True"
  by unfold_locales
    (auto simp: FuseForgetIn_from_bytes_def FuseForgetIn_write_to_def FuseForgetIn_to_bytes_def FUSE_FORGET_IN_LEN_def Let_def to_le_inject le_roundtrip_bytes)

interpretation fuse_getattr_in: le_struct FuseGetattrIn_from_bytes FuseGetattrIn_write_to FuseGetattrIn_to_bytes FUSE_GETATTR_IN_LEN
  "\<lambda>n. ShortHeader n FUSE_GETATTR_IN_LEN" "\<lambda>n. ShortBuffer n FUSE_GETATTR_IN_LEN"
  "\<lambda>x. [to_le 4 (ga_getattr_flags x), to_le 4 (ga_dummy x), to_le 8 (ga_fh x)]"
  "[4, 4, 8]" "\<lambda>_. True"
  by unfold_locales
    (auto simp: FuseGetattrIn_from_bytes_def FuseGetattrIn_write_to_def FuseGetattrIn_to_bytes_def FUSE_GETATTR_IN_LEN_def Let_def to_le_inject le_roundtrip_bytes)

interpretation fuse_attr_out: le_struct FuseAttrOut_from_bytes FuseAttrOut_write_to FuseAttrOut_to_bytes FUSE_ATTR_OUT_LEN
  "\<lambda>n. ShortHeader n FUSE_ATTR_OUT_LEN" "\<lambda>n. ShortBuffer n FUSE_ATTR_OUT_LEN"
  "\<lambda>x. [to_le 8 (ao_attr_valid x), to_le 4 (ao_attr_valid_nsec x), to_le 4 (ao_dummy x),
    FuseAttr_to_bytes (ao_attr x)]"
  "[8, 4, 4, 88]" "\<lambda>_. True"
proof (unfold_locales, goal_cases)
  case (5 b)
  then obtain a where "FuseAttr_from_bytes (slice_at 16 88 b) = Inr a" and "FuseAttr_to_bytes a = slice_at 16 88 b"
    using fuse_attr.dec_total [of "slice_at 16 88 b"] fuse_attr.enc_dec by (fastforce simp: FUSE_ATTR_OUT_LEN_def FUSE_ATTR_LEN_def)
  with 5 show ?case by (simp add: FuseAttrOut_from_bytes_def FUSE_ATTR_OUT_LEN_def FUSE_ATTR_LEN_def le_roundtrip_bytes)
qed (auto simp: FuseAttrOut_from_bytes_def FuseAttrOut_write_to_def FuseAttrOut_to_bytes_def FUSE_ATTR_OUT_LEN_def FUSE_ATTR_LEN_def Let_def to_le_inject
    fuse_attr.write_to_eq attr_width dest: attr_inject)

interpretation fuse_setattr_in: le_struct FuseSetattrIn_from_bytes FuseSetattrIn_write_to FuseSetattrIn_to_bytes FUSE_SETATTR_IN_LEN
  "\<lambda>n. ShortHeader n FUSE_SETATTR_IN_LEN" "\<lambda>n. ShortBuffer n FUSE_SETATTR_IN_LEN"
  "\<lambda>x. [to_le 4 (sa_valid x), to_le 4 (sa_padding x), to_le 8 (sa_fh x), to_le 8 (sa_size x),
    to_le 8 (sa_lock_owner x), to_le 8 (sa_atime x), to_le 8 (sa_mtime x), to_le 8 (sa_ctime x),
    to_le 4 (sa_atimensec x), to_le 4 (sa_mtimensec x), to_le 4 (sa_ctimensec x), to_le 4 (sa_mode x),
    to_le 4 (sa_unused4 x), to_le 4 (sa_uid x), to_le 4 (sa_gid x), to_le 4 (sa_unused5 x)]"
  "[4, 4, 8, 8, 8, 8, 8, 8, 4, 4, 4, 4, 4, 4, 4, 4]" "\<lambda>_. True"
  by unfold_locales
    (auto simp: FuseSetattrIn_from_bytes_def FuseSetattrIn_write_to_def FuseSetattrIn_to_bytes_def FUSE_SETATTR_IN_LEN_def Let_def to_le_inject le_roundtrip_bytes)

interpretation fuse_statfs_out: le_struct FuseStatfsOut_from_bytes FuseStatfsOut_write_to FuseStatfsOut_to_bytes FUSE_STATFS_OUT_LEN
  "\<lambda>n. ShortHeader n FUSE_STATFS_OUT_LEN" "\<lambda>n. ShortBuffer n FUSE_STATFS_OUT_LEN"
  "\<lambda>x. [to_le 8 (so_blocks x), to_le 8 (so_bfree x), to_le 8 (so_bavail x), to_le 8 (so_files x),
    to_le 8 (so_ffree x), to_le 4 (so_bsize x), to_le 4 (so_namelen x), to_le 4 (so_frsize x),
    to_le 4 (so_padding x), concat (map (to_le 4) (so_spare x))]"
  "[8, 8, 8, 8, 8, 4, 4, 4, 4, 24]" "\<lambda>x. length (so_spare x) = 6"
  by unfold_locales
    (auto simp: FuseStatfsOut_from_bytes_def FuseStatfsOut_write_to_def FuseStatfsOut_to_bytes_def FUSE_STATFS_OUT_LEN_def Let_def to_le_inject le_roundtrip_bytes
      fold_copy_words write_fields_join read_words length_concat comp_def sum_list_fours map_map
      dest: words_inject)

interpretation fuse_mknod_in: le_struct FuseMknodIn_from_bytes FuseMknodIn_write_to FuseMknodIn_to_bytes FUSE_MKNOD_IN_LEN
  "\<lambda>n. ShortHeader n FUSE_MKNOD_IN_LEN" "\<lambda>n. ShortBuffer n FUSE_MKNOD_IN_LEN"
  "\<lambda>x. [to_le 4 (mk_mode x), to_le 4 (mk_rdev x), to_le 4 (mk_umask x), to_le 4 (mk_padding x)]"
  "[4, 4, 4, 4]" "\<lambda>_. True"
  by unfold_locales
    (auto simp: FuseMknodIn_from_bytes_def FuseMknodIn_write_to_def FuseMknodIn_to_bytes_def FUSE_MKNOD_IN_LEN_def Let_def to_le_inject le_roundtrip_bytes)

interpretation fuse_mkdir_in: le_struct FuseMkdirIn_from_bytes FuseMkdirIn_write_to FuseMkdirIn_to_bytes FUSE_MKDIR_IN_LEN
  "\<lambda>n. ShortHeader n FUSE_MKDIR_IN_LEN" "\<lambda>n. ShortBuffer n FUSE_MKDIR_IN_LEN"
  "\<lambda>x. [to_le 4 (md_mode x), to_le 4 (md_umask x)]"
  "[4, 4]" "\<lambda>_. True"
  by unfold_locales
    (auto simp: FuseMkdirIn_from_bytes_def FuseMkdirIn_write_to_def FuseMkdirIn_to_bytes_def FUSE_MKDIR_IN_LEN_def Let_def to_le_inject le_roundtrip_bytes)

interpretation fuse_fsync_in: le_struct FuseFsyncIn_from_bytes FuseFsyncIn_write_to FuseFsyncIn_to_bytes FUSE_FSYNC_IN_LEN
  "\<lambda>n. ShortHeader n FUSE_FSYNC_IN_LEN" "\<lambda>n. ShortBuffer n FUSE_FSYNC_IN_LEN"
  "\<lambda>x. [to_le 8 (fy_fh x), to_le 4 (fy_fsync_flags x), to_le 4 (fy_padding x)]"
  "[8, 4, 4]" "\<lambda>_. True"
  by unfold_locales
    (auto simp: FuseFsyncIn_from_bytes_def FuseFsyncIn_write_to_def FuseFsyncIn_to_bytes_def FUSE_FSYNC_IN_LEN_def Let_def to_le_inject le_roundtrip_bytes)

interpretation fuse_rename_in: le_struct FuseRenameIn_from_bytes FuseRenameIn_write_to FuseRenameIn_to_bytes FUSE_RENAME_IN_LEN
  "\<lambda>n. ShortHeader n FUSE_RENAME_IN_LEN" "\<lambda>n. ShortBuffer n FUSE_RENAME_IN_LEN"
  "\<lambda>x. [to_le 8 (rn_newdir x)]"
  "[8]" "\<lambda>_. True"
  by unfold_locales
    (auto simp: FuseRenameIn_from_bytes_def FuseRenameIn_write_to_def FuseRenameIn_to_bytes_def FUSE_RENAME_IN_LEN_def Let_def to_le_inject le_roundtrip_bytes)

interpretation fuse_link_in: le_struct FuseLinkIn_from_bytes FuseLinkIn_write_to FuseLinkIn_to_bytes FUSE_LINK_IN_LEN
  "\<lambda>n. ShortHeader n FUSE_LINK_IN_LEN" "\<lambda>n. ShortBuffer n FUSE_LINK_IN_LEN"
  "\<lambda>x. [to_le 8 (ln_oldnodeid x)]"
  "[8]" "\<lambda>_. True"
  by unfold_locales
    (auto simp: FuseLinkIn_from_bytes_def FuseLinkIn_write_to_def FuseLinkIn_to_bytes_def FUSE_LINK_IN_LEN_def Let_def to_le_inject le_roundtrip_bytes)

interpretation fuse_out_header: le_struct FuseOutHeader_from_bytes FuseOutHeader_write_to FuseOutHeader_to_bytes FUSE_OUT_HDR_LEN
  "\<lambda>n. ShortHeader n FUSE_OUT_HDR_LEN" "\<lambda>n. ShortBuffer n FUSE_OUT_HDR_LEN"
  "\<lambda>x. [to_le 4 (fo_len x), to_le 4 (fo_error x), to_le 8 (fo_unique x)]" "[4, 4, 8]" "\<lambda>_. True"
  by unfold_locales
    (auto simp: FuseOutHeader_from_bytes_def FuseOutHeader_write_to_def FuseOutHeader_to_bytes_def FUSE_OUT_HDR_LEN_def
      Let_def to_le_inject le_roundtrip_bytes)

text \<open>The request header alone can be refused although it is long enough: unknown operations.\<close>

definition in_header_fields :: "fuse_in_header \<Rightarrow> bytes list" where
  "in_header_fields h =
     [to_le 4 (fh_len h), to_le 4 (FuseOpcode_as_raw (fh_opcode h)), to_le 8 (fh_unique h), to_le 8 (fh_nodeid h),
      to_le 4 (fh_uid h), to_le 4 (fh_gid h), to_le 4 (fh_pid h), to_le 2 (fh_total_extlen h), to_le 2 (fh_padding h)]"

lemma FuseOpcode_roundtrip [simp]: "FuseOpcode_from_raw (FuseOpcode_as_raw op) = Inr op"
  by (cases op) (simp_all add: FuseOpcode_from_raw_def)

lemma FuseOpcode_from_raw_Ok: "FuseOpcode_from_raw raw = Inr op \<Longrightarrow> FuseOpcode_as_raw op = raw"
  by (auto simp: FuseOpcode_from_raw_def split: if_splits)

lemma FuseOpcode_from_raw_Err: "FuseOpcode_from_raw raw = Inl e \<Longrightarrow> e = UnknownOpcode raw"
  by (auto simp: FuseOpcode_from_raw_def split: if_splits)

lemma FuseInHeader_write_to_eq:
  "FUSE_IN_HDR_LEN \<le> length buf \<Longrightarrow>
    FuseInHeader_write_to h buf = Inr (FUSE_IN_HDR_LEN, concat (in_header_fields h) @ drop FUSE_IN_HDR_LEN buf)"
  using write_fields_eq [of "in_header_fields h" buf]
  by (simp add: FuseInHeader_write_to_def in_header_fields_def FUSE_IN_HDR_LEN_def Let_def)

lemma FuseInHeader_to_bytes_eq: "FuseInHeader_to_bytes h = concat (in_header_fields h)"
  by (simp add: FuseInHeader_to_bytes_def FuseInHeader_write_to_eq written_buf_def)

lemma length_in_header [simp]: "length (FuseInHeader_to_bytes h) = 40"
  by (simp add: FuseInHeader_to_bytes_eq in_header_fields_def)

interpretation fuse_in_header: canonical_codec FuseInHeader_to_bytes FuseInHeader_from_bytes FUSE_IN_HDR_LEN
  "\<lambda>n. ShortHeader n FUSE_IN_HDR_LEN" "\<lambda>_. True"
proof (unfold_locales, goal_cases)
  case (2 x rest)
  show ?case
    by (simp add: FuseInHeader_to_bytes_eq in_header_fields_def FuseInHeader_from_bytes_def FUSE_IN_HDR_LEN_def slice_at_def Let_def)
next
  case (5 b x)
  then have "40 \<le> length b"
    by (simp add: FuseInHeader_from_bytes_def FUSE_IN_HDR_LEN_def split: if_splits)
  with 5 have "in_header_fields x = read_fields 0 [4, 4, 8, 8, 4, 4, 4, 2, 2] b"
    by (auto simp: FuseInHeader_from_bytes_def FUSE_IN_HDR_LEN_def in_header_fields_def Let_def and_then_eqs
        le_roundtrip_bytes dest!: FuseOpcode_from_raw_Ok)
  then show ?case
    by (simp only: FuseInHeader_to_bytes_eq concat_read_fields) (simp add: slice_zero_take FUSE_IN_HDR_LEN_def)
qed (simp_all add: FuseInHeader_from_bytes_def FUSE_IN_HDR_LEN_def)

abbreviation fuse_exact ::
    "(bytes \<Rightarrow> (fuse_error, 'a) result) \<Rightarrow> ('a \<Rightarrow> bytes \<Rightarrow> (fuse_error, nat \<times> bytes) result) \<Rightarrow> ('a \<Rightarrow> bytes) \<Rightarrow>
     nat \<Rightarrow> ('a \<Rightarrow> bool) \<Rightarrow> bool" where
  "fuse_exact from_bytes write_to to_bytes n valid \<equiv>
     codec_exact from_bytes write_to to_bytes n (\<lambda>k. ShortHeader k n) (\<lambda>k. ShortBuffer k n) valid"

text \<open>
  Every FUSE body has an exact codec: a buffer parses to a record exactly when it begins with the
  record's serialization, short buffers are refused with both lengths, and serializing changes the
  record's own bytes only. For the request header a buffer long enough is refused exactly when its
  operation is unknown.
\<close>

theorem fuse_codecs_exact:
  "fuse_exact FuseInitIn_from_bytes FuseInitIn_write_to FuseInitIn_to_bytes FUSE_INIT_IN_LEN (\<lambda>_. True) \<and>
   fuse_exact FuseInitOut_from_bytes FuseInitOut_write_to FuseInitOut_to_bytes FUSE_INIT_OUT_LEN (\<lambda>x. length (io_unused x) = 7) \<and>
   fuse_exact FuseAttr_from_bytes FuseAttr_write_to FuseAttr_to_bytes FUSE_ATTR_LEN (\<lambda>_. True) \<and>
   fuse_exact FuseEntryOut_from_bytes FuseEntryOut_write_to FuseEntryOut_to_bytes FUSE_ENTRY_OUT_LEN (\<lambda>_. True) \<and>
   fuse_exact FuseOpenIn_from_bytes FuseOpenIn_write_to FuseOpenIn_to_bytes FUSE_OPEN_IN_LEN (\<lambda>_. True) \<and>
   fuse_exact FuseOpenOut_from_bytes FuseOpenOut_write_to FuseOpenOut_to_bytes FUSE_OPEN_OUT_LEN (\<lambda>_. True) \<and>
   fuse_exact FuseReadIn_from_bytes FuseReadIn_write_to FuseReadIn_to_bytes FUSE_READ_IN_LEN (\<lambda>_. True) \<and>
   fuse_exact FuseWriteIn_from_bytes FuseWriteIn_write_to FuseWriteIn_to_bytes FUSE_WRITE_IN_LEN (\<lambda>_. True) \<and>
   fuse_exact FuseWriteOut_from_bytes FuseWriteOut_write_to FuseWriteOut_to_bytes FUSE_WRITE_OUT_LEN (\<lambda>_. True) \<and>
   fuse_exact FuseFlushIn_from_bytes FuseFlushIn_write_to FuseFlushIn_to_bytes FUSE_FLUSH_IN_LEN (\<lambda>_. True) \<and>
   fuse_exact FuseReleaseIn_from_bytes FuseReleaseIn_write_to FuseReleaseIn_to_bytes FUSE_RELEASE_IN_LEN (\<lambda>_. True) \<and>
   fuse_exact FuseForgetIn_from_bytes FuseForgetIn_write_to FuseForgetIn_to_bytes FUSE_FORGET_IN_LEN (\<lambda>_. True) \<and>
   fuse_exact FuseGetattrIn_from_bytes FuseGetattrIn_write_to FuseGetattrIn_to_bytes FUSE_GETATTR_IN_LEN (\<lambda>_. True) \<and>
   fuse_exact FuseAttrOut_from_bytes FuseAttrOut_write_to FuseAttrOut_to_bytes FUSE_ATTR_OUT_LEN (\<lambda>_. True) \<and>
   fuse_exact FuseSetattrIn_from_bytes FuseSetattrIn_write_to FuseSetattrIn_to_bytes FUSE_SETATTR_IN_LEN (\<lambda>_. True) \<and>
   fuse_exact FuseStatfsOut_from_bytes FuseStatfsOut_write_to FuseStatfsOut_to_bytes FUSE_STATFS_OUT_LEN (\<lambda>x. length (so_spare x) = 6) \<and>
   fuse_exact FuseMknodIn_from_bytes FuseMknodIn_write_to FuseMknodIn_to_bytes FUSE_MKNOD_IN_LEN (\<lambda>_. True) \<and>
   fuse_exact FuseMkdirIn_from_bytes FuseMkdirIn_write_to FuseMkdirIn_to_bytes FUSE_MKDIR_IN_LEN (\<lambda>_. True) \<and>
   fuse_exact FuseFsyncIn_from_bytes FuseFsyncIn_write_to FuseFsyncIn_to_bytes FUSE_FSYNC_IN_LEN (\<lambda>_. True) \<and>
   fuse_exact FuseRenameIn_from_bytes FuseRenameIn_write_to FuseRenameIn_to_bytes FUSE_RENAME_IN_LEN (\<lambda>_. True) \<and>
   fuse_exact FuseLinkIn_from_bytes FuseLinkIn_write_to FuseLinkIn_to_bytes FUSE_LINK_IN_LEN (\<lambda>_. True) \<and>
   fuse_exact FuseOutHeader_from_bytes FuseOutHeader_write_to FuseOutHeader_to_bytes FUSE_OUT_HDR_LEN (\<lambda>_. True) \<and>
   (FuseInHeader_from_bytes b = Ok h \<longleftrightarrow> FUSE_IN_HDR_LEN \<le> length b \<and> take FUSE_IN_HDR_LEN b = FuseInHeader_to_bytes h) \<and>
   (FuseInHeader_from_bytes b = Err e \<longleftrightarrow>
      (if length b < FUSE_IN_HDR_LEN then e = ShortHeader (length b) FUSE_IN_HDR_LEN
       else FuseOpcode_from_raw (from_le (slice_at 4 4 b)) = Err e \<and> e = UnknownOpcode (from_le (slice_at 4 4 b))))"
proof -
  have "FuseInHeader_from_bytes b = Err e \<longleftrightarrow>
      (if length b < FUSE_IN_HDR_LEN then e = ShortHeader (length b) FUSE_IN_HDR_LEN
       else FuseOpcode_from_raw (from_le (slice_at 4 4 b)) = Err e \<and> e = UnknownOpcode (from_le (slice_at 4 4 b)))"
    by (auto simp: FuseInHeader_from_bytes_def Let_def and_then_eqs dest: FuseOpcode_from_raw_Err)
  then show ?thesis
    by (intro conjI fuse_init_in.exact fuse_init_out.exact fuse_attr.exact fuse_entry_out.exact fuse_open_in.exact
      fuse_open_out.exact fuse_read_in.exact fuse_write_in.exact fuse_write_out.exact fuse_flush_in.exact
      fuse_release_in.exact fuse_forget_in.exact fuse_getattr_in.exact fuse_attr_out.exact fuse_setattr_in.exact
      fuse_statfs_out.exact fuse_mknod_in.exact fuse_mkdir_in.exact fuse_fsync_in.exact fuse_rename_in.exact
      fuse_link_in.exact fuse_out_header.exact) (simp_all only: fuse_in_header.dec_iff simp_thms)
qed

end
