(* ===== verification/Fuse_Dispatch.thy ===== *)
theory Fuse_Dispatch
  imports Fuse_Wire
begin

text \<open>
  Parsing and dispatching FUSE requests: \<^verbatim>\<open>crates/virtio-fs/src/dispatch.rs\<close>. The trait
  \<^verbatim>\<open>FuseHandler\<close> is a record of functions on the handler's state; an error number is the 32-bit
  pattern of the \<^verbatim>\<open>i32\<close>. The request borrows its names and data from the packet; here it holds
  those bytes.
\<close>

subsection \<open>Requests\<close>

definition ENOSYS :: u32 where "ENOSYS = 38"
definition EINVAL :: u32 where "EINVAL = 22"

datatype fuse_request =
    ReqInit fuse_init_in
  | ReqForget fuse_forget_in
  | ReqGetattr fuse_getattr_in
  | ReqSetattr fuse_setattr_in
  | ReqLookup bytes
  | ReqReadlink
  | ReqMknod fuse_mknod_in bytes
  | ReqMkdir fuse_mkdir_in bytes
  | ReqUnlink bytes
  | ReqRmdir bytes
  | ReqSymlink bytes bytes
  | ReqRename fuse_rename_in bytes bytes
  | ReqLink fuse_link_in bytes
  | ReqOpen fuse_open_in
  | ReqRead fuse_read_in
  | ReqWrite fuse_write_in bytes
  | ReqStatfs
  | ReqRelease fuse_release_in
  | ReqFsync fuse_fsync_in
  | ReqFlush fuse_flush_in
  | ReqOpendir fuse_open_in
  | ReqReaddir fuse_read_in
  | ReqReleasedir fuse_release_in
  | ReqDestroy

text \<open>The bytes before and after the first zero byte.\<close>

definition split_nul :: "bytes \<Rightarrow> (fuse_error, bytes \<times> bytes) result" where
  "split_nul buf =
     (if 0 \<in> set buf then Ok (takeWhile (\<lambda>b. b \<noteq> 0) buf, tl (dropWhile (\<lambda>b. b \<noteq> 0) buf))
      else Err (ShortHeader (length buf) (length buf + 1)))"

definition split_two_nul_strings :: "bytes \<Rightarrow> (fuse_error, bytes \<times> bytes) result" where
  "split_two_nul_strings buf =
     and_then (split_nul buf) (\<lambda>(first, rest).
     and_then (split_nul rest) (\<lambda>(second, _). Ok (first, second)))"

definition parse_body :: "fuse_opcode \<Rightarrow> bytes \<Rightarrow> (fuse_error, fuse_request) result" where
  "parse_body op body =
     (case op of
        Init \<Rightarrow> map_sum id ReqInit (FuseInitIn_from_bytes body)
      | Forget \<Rightarrow> map_sum id ReqForget (FuseForgetIn_from_bytes body)
      | Getattr \<Rightarrow> map_sum id ReqGetattr (FuseGetattrIn_from_bytes body)
      | Setattr \<Rightarrow> map_sum id ReqSetattr (FuseSetattrIn_from_bytes body)
      | Lookup \<Rightarrow> Ok (ReqLookup body)
      | Readlink \<Rightarrow> Ok ReqReadlink
      | Mknod \<Rightarrow> and_then (FuseMknodIn_from_bytes body) (\<lambda>b. Ok (ReqMknod b (drop FUSE_MKNOD_IN_LEN body)))
      | Mkdir \<Rightarrow> and_then (FuseMkdirIn_from_bytes body) (\<lambda>b. Ok (ReqMkdir b (drop FUSE_MKDIR_IN_LEN body)))
      | Unlink \<Rightarrow> Ok (ReqUnlink body)
      | Rmdir \<Rightarrow> Ok (ReqRmdir body)
      | Symlink \<Rightarrow> and_then (split_two_nul_strings body) (\<lambda>(name, target). Ok (ReqSymlink name target))
      | Rename \<Rightarrow>
          and_then (FuseRenameIn_from_bytes body) (\<lambda>b.
          let rest = drop FUSE_RENAME_IN_LEN body
          in and_then (split_two_nul_strings rest) (\<lambda>(old_name, new_name). Ok (ReqRename b old_name new_name)))
      | Link \<Rightarrow> and_then (FuseLinkIn_from_bytes body) (\<lambda>b. Ok (ReqLink b (drop FUSE_LINK_IN_LEN body)))
      | Open \<Rightarrow> map_sum id ReqOpen (FuseOpenIn_from_bytes body)
      | Read \<Rightarrow> map_sum id ReqRead (FuseReadIn_from_bytes body)
      | Write \<Rightarrow> and_then (FuseWriteIn_from_bytes body) (\<lambda>b. Ok (ReqWrite b (drop FUSE_WRITE_IN_LEN body)))
      | Statfs \<Rightarrow> Ok ReqStatfs
      | Release \<Rightarrow> map_sum id ReqRelease (FuseReleaseIn_from_bytes body)
      | Fsync \<Rightarrow> map_sum id ReqFsync (FuseFsyncIn_from_bytes body)
      | Flush \<Rightarrow> map_sum id ReqFlush (FuseFlushIn_from_bytes body)
      | Opendir \<Rightarrow> map_sum id ReqOpendir (FuseOpenIn_from_bytes body)
      | Readdir \<Rightarrow> map_sum id ReqReaddir (FuseReadIn_from_bytes body)
      | Releasedir \<Rightarrow> map_sum id ReqReleasedir (FuseReleaseIn_from_bytes body)
      | Destroy \<Rightarrow> Ok ReqDestroy)"

definition parse_request :: "bytes \<Rightarrow> (fuse_error, fuse_in_header \<times> fuse_request) result" where
  "parse_request buf =
     and_then (FuseInHeader_from_bytes buf) (\<lambda>hdr.
     let body = drop FUSE_IN_HDR_LEN buf
     in and_then (parse_body (fh_opcode hdr) body) (\<lambda>req. Ok (hdr, req)))"

subsection \<open>Handlers\<close>

type_synonym errno = u32

record 'h fuse_handler =
  on_init :: "'h \<Rightarrow> fuse_in_header \<Rightarrow> fuse_init_in \<Rightarrow> 'h \<times> (errno, fuse_init_out) result"
  on_forget :: "'h \<Rightarrow> fuse_in_header \<Rightarrow> fuse_forget_in \<Rightarrow> 'h"
  on_getattr :: "'h \<Rightarrow> fuse_in_header \<Rightarrow> fuse_getattr_in \<Rightarrow> 'h \<times> (errno, fuse_attr_out) result"
  on_setattr :: "'h \<Rightarrow> fuse_in_header \<Rightarrow> fuse_setattr_in \<Rightarrow> 'h \<times> (errno, fuse_attr_out) result"
  on_lookup :: "'h \<Rightarrow> fuse_in_header \<Rightarrow> bytes \<Rightarrow> 'h \<times> (errno, fuse_entry_out) result"
  on_readlink :: "'h \<Rightarrow> fuse_in_header \<Rightarrow> 'h \<times> (errno, bytes) result"
  on_mknod :: "'h \<Rightarrow> fuse_in_header \<Rightarrow> fuse_mknod_in \<Rightarrow> bytes \<Rightarrow> 'h \<times> (errno, fuse_entry_out) result"
  on_mkdir :: "'h \<Rightarrow> fuse_in_header \<Rightarrow> fuse_mkdir_in \<Rightarrow> bytes \<Rightarrow> 'h \<times> (errno, fuse_entry_out) result"
  on_unlink :: "'h \<Rightarrow> fuse_in_header \<Rightarrow> bytes \<Rightarrow> 'h \<times> (errno, unit) result"
  on_rmdir :: "'h \<Rightarrow> fuse_in_header \<Rightarrow> bytes \<Rightarrow> 'h \<times> (errno, unit) result"
  on_symlink :: "'h \<Rightarrow> fuse_in_header \<Rightarrow> bytes \<Rightarrow> bytes \<Rightarrow> 'h \<times> (errno, fuse_entry_out) result"
  on_rename :: "'h \<Rightarrow> fuse_in_header \<Rightarrow> fuse_rename_in \<Rightarrow> bytes \<Rightarrow> bytes \<Rightarrow> 'h \<times> (errno, unit) result"
  on_link :: "'h \<Rightarrow> fuse_in_header \<Rightarrow> fuse_link_in \<Rightarrow> bytes \<Rightarrow> 'h \<times> (errno, fuse_entry_out) result"
  on_open :: "'h \<Rightarrow> fuse_in_header \<Rightarrow> fuse_open_in \<Rightarrow> 'h \<times> (errno, fuse_open_out) result"
  on_read :: "'h \<Rightarrow> fuse_in_header \<Rightarrow> fuse_read_in \<Rightarrow> 'h \<times> (errno, bytes) result"
  on_write :: "'h \<Rightarrow> fuse_in_header \<Rightarrow> fuse_write_in \<Rightarrow> bytes \<Rightarrow> 'h \<times> (errno, fuse_write_out) result"
  on_statfs :: "'h \<Rightarrow> fuse_in_header \<Rightarrow> 'h \<times> (errno, fuse_statfs_out) result"
  on_release :: "'h \<Rightarrow> fuse_in_header \<Rightarrow> fuse_release_in \<Rightarrow> 'h \<times> (errno, unit) result"
  on_fsync :: "'h \<Rightarrow> fuse_in_header \<Rightarrow> fuse_fsync_in \<Rightarrow> 'h \<times> (errno, unit) result"
  on_flush :: "'h \<Rightarrow> fuse_in_header \<Rightarrow> fuse_flush_in \<Rightarrow> 'h \<times> (errno, unit) result"
  on_opendir :: "'h \<Rightarrow> fuse_in_header \<Rightarrow> fuse_open_in \<Rightarrow> 'h \<times> (errno, fuse_open_out) result"
  on_readdir :: "'h \<Rightarrow> fuse_in_header \<Rightarrow> fuse_read_in \<Rightarrow> 'h \<times> (errno, bytes) result"
  on_releasedir :: "'h \<Rightarrow> fuse_in_header \<Rightarrow> fuse_release_in \<Rightarrow> 'h \<times> (errno, unit) result"
  on_destroy :: "'h \<Rightarrow> fuse_in_header \<Rightarrow> 'h"

text \<open>The default methods of the trait.\<close>

definition default_handler :: "'h fuse_handler" where
  "default_handler =
     \<lparr>on_init = \<lambda>h _ _. (h, Err ENOSYS), on_forget = \<lambda>h _ _. h, on_getattr = \<lambda>h _ _. (h, Err ENOSYS),
      on_setattr = \<lambda>h _ _. (h, Err ENOSYS), on_lookup = \<lambda>h _ _. (h, Err ENOSYS),
      on_readlink = \<lambda>h _. (h, Err ENOSYS), on_mknod = \<lambda>h _ _ _. (h, Err ENOSYS),
      on_mkdir = \<lambda>h _ _ _. (h, Err ENOSYS), on_unlink = \<lambda>h _ _. (h, Err ENOSYS),
      on_rmdir = \<lambda>h _ _. (h, Err ENOSYS), on_symlink = \<lambda>h _ _ _. (h, Err ENOSYS),
      on_rename = \<lambda>h _ _ _ _. (h, Err ENOSYS), on_link = \<lambda>h _ _ _. (h, Err ENOSYS),
      on_open = \<lambda>h _ _. (h, Err ENOSYS), on_read = \<lambda>h _ _. (h, Err ENOSYS),
      on_write = \<lambda>h _ _ _. (h, Err ENOSYS), on_statfs = \<lambda>h _. (h, Err ENOSYS),
      on_release = \<lambda>h _ _. (h, Err ENOSYS), on_fsync = \<lambda>h _ _. (h, Err ENOSYS),
      on_flush = \<lambda>h _ _. (h, Err ENOSYS), on_opendir = \<lambda>h _ _. (h, Err ENOSYS),
      on_readdir = \<lambda>h _ _. (h, Err ENOSYS), on_releasedir = \<lambda>h _ _. (h, Err ENOSYS), on_destroy = \<lambda>h _. h\<rparr>"

definition unsigned_abs :: "errno \<Rightarrow> u32" where
  "unsigned_abs e = (if sint e < 0 then - e else e)"

definition encode_result :: "u64 \<Rightarrow> (errno, bytes) result \<Rightarrow> bytes option" where
  "encode_result unique r =
     (case r of
        Inr body \<Rightarrow> Some (FuseOutHeader_to_bytes (FuseOutHeader_ok unique (of_nat (length body))) @ body)
      | Inl errno \<Rightarrow> Some (FuseOutHeader_to_bytes (FuseOutHeader_err unique (unsigned_abs errno))))"

definition answer_with :: "u64 \<Rightarrow> ('a \<Rightarrow> bytes) \<Rightarrow> 'h \<times> (errno, 'a) result \<Rightarrow> 'h \<times> bytes option" where
  "answer_with unique f = (\<lambda>(h, r). (h, encode_result unique (map_sum id f r)))"

definition fuse_dispatch :: "'h fuse_handler \<Rightarrow> 'h \<Rightarrow> fuse_in_header \<Rightarrow> fuse_request \<Rightarrow> 'h \<times> bytes option" where
  "fuse_dispatch H h hdr req =
     (let u = fh_unique hdr; empty = (\<lambda>_ :: unit. []) in
      case req of
        ReqForget body \<Rightarrow> (on_forget H h hdr body, None)
      | ReqDestroy \<Rightarrow> (on_destroy H h hdr, None)
      | ReqInit body \<Rightarrow> answer_with u FuseInitOut_to_bytes (on_init H h hdr body)
      | ReqGetattr body \<Rightarrow> answer_with u FuseAttrOut_to_bytes (on_getattr H h hdr body)
      | ReqSetattr body \<Rightarrow> answer_with u FuseAttrOut_to_bytes (on_setattr H h hdr body)
      | ReqLookup name \<Rightarrow> answer_with u FuseEntryOut_to_bytes (on_lookup H h hdr name)
      | ReqReadlink \<Rightarrow> answer_with u id (on_readlink H h hdr)
      | ReqMknod body name \<Rightarrow> answer_with u FuseEntryOut_to_bytes (on_mknod H h hdr body name)
      | ReqMkdir body name \<Rightarrow> answer_with u FuseEntryOut_to_bytes (on_mkdir H h hdr body name)
      | ReqUnlink name \<Rightarrow> answer_with u empty (on_unlink H h hdr name)
      | ReqRmdir name \<Rightarrow> answer_with u empty (on_rmdir H h hdr name)
      | ReqSymlink name target \<Rightarrow> answer_with u FuseEntryOut_to_bytes (on_symlink H h hdr name target)
      | ReqRename body old_name new_name \<Rightarrow> answer_with u empty (on_rename H h hdr body old_name new_name)
      | ReqLink body name \<Rightarrow> answer_with u FuseEntryOut_to_bytes (on_link H h hdr body name)
      | ReqOpen body \<Rightarrow> answer_with u FuseOpenOut_to_bytes (on_open H h hdr body)
      | ReqRead body \<Rightarrow> answer_with u id (on_read H h hdr body)
      | ReqWrite body data \<Rightarrow> answer_with u FuseWriteOut_to_bytes (on_write H h hdr body data)
      | ReqStatfs \<Rightarrow> answer_with u FuseStatfsOut_to_bytes (on_statfs H h hdr)
      | ReqRelease body \<Rightarrow> answer_with u empty (on_release H h hdr body)
      | ReqFsync body \<Rightarrow> answer_with u empty (on_fsync H h hdr body)
      | ReqFlush body \<Rightarrow> answer_with u empty (on_flush H h hdr body)
      | ReqOpendir body \<Rightarrow> answer_with u FuseOpenOut_to_bytes (on_opendir H h hdr body)
      | ReqReaddir body \<Rightarrow> answer_with u id (on_readdir H h hdr body)
      | ReqReleasedir body \<Rightarrow> answer_with u empty (on_releasedir H h hdr body))"

subsection \<open>Parsing is exact\<close>

text \<open>What a request looks like on the wire, and what may follow it.\<close>

fun opcode_of :: "fuse_request \<Rightarrow> fuse_opcode" where
  "opcode_of (ReqInit _) = Init"
| "opcode_of (ReqForget _) = Forget"
| "opcode_of (ReqGetattr _) = Getattr"
| "opcode_of (ReqSetattr _) = Setattr"
| "opcode_of (ReqLookup _) = Lookup"
| "opcode_of ReqReadlink = Readlink"
| "opcode_of (ReqMknod _ _) = Mknod"
| "opcode_of (ReqMkdir _ _) = Mkdir"
| "opcode_of (ReqUnlink _) = Unlink"
| "opcode_of (ReqRmdir _) = Rmdir"
| "opcode_of (ReqSymlink _ _) = Symlink"
| "opcode_of (ReqRename _ _ _) = Rename"
| "opcode_of (ReqLink _ _) = Link"
| "opcode_of (ReqOpen _) = Open"
| "opcode_of (ReqRead _) = Read"
| "opcode_of (ReqWrite _ _) = Write"
| "opcode_of ReqStatfs = Statfs"
| "opcode_of (ReqRelease _) = Release"
| "opcode_of (ReqFsync _) = Fsync"
| "opcode_of (ReqFlush _) = Flush"
| "opcode_of (ReqOpendir _) = Opendir"
| "opcode_of (ReqReaddir _) = Readdir"
| "opcode_of (ReqReleasedir _) = Releasedir"
| "opcode_of ReqDestroy = Destroy"

definition nul_free :: "bytes \<Rightarrow> bool" where
  "nul_free s \<longleftrightarrow> 0 \<notin> set s"

fun request_bytes :: "fuse_request \<Rightarrow> bytes" where
  "request_bytes (ReqInit b) = FuseInitIn_to_bytes b"
| "request_bytes (ReqForget b) = FuseForgetIn_to_bytes b"
| "request_bytes (ReqGetattr b) = FuseGetattrIn_to_bytes b"
| "request_bytes (ReqSetattr b) = FuseSetattrIn_to_bytes b"
| "request_bytes (ReqLookup name) = name"
| "request_bytes ReqReadlink = []"
| "request_bytes (ReqMknod b name) = FuseMknodIn_to_bytes b @ name"
| "request_bytes (ReqMkdir b name) = FuseMkdirIn_to_bytes b @ name"
| "request_bytes (ReqUnlink name) = name"
| "request_bytes (ReqRmdir name) = name"
| "request_bytes (ReqSymlink name target) = name @ 0 # target @ [0]"
| "request_bytes (ReqRename b old_name new_name) = FuseRenameIn_to_bytes b @ old_name @ 0 # new_name @ [0]"
| "request_bytes (ReqLink b name) = FuseLinkIn_to_bytes b @ name"
| "request_bytes (ReqOpen b) = FuseOpenIn_to_bytes b"
| "request_bytes (ReqRead b) = FuseReadIn_to_bytes b"
| "request_bytes (ReqWrite b data) = FuseWriteIn_to_bytes b @ data"
| "request_bytes ReqStatfs = []"
| "request_bytes (ReqRelease b) = FuseReleaseIn_to_bytes b"
| "request_bytes (ReqFsync b) = FuseFsyncIn_to_bytes b"
| "request_bytes (ReqFlush b) = FuseFlushIn_to_bytes b"
| "request_bytes (ReqOpendir b) = FuseOpenIn_to_bytes b"
| "request_bytes (ReqReaddir b) = FuseReadIn_to_bytes b"
| "request_bytes (ReqReleasedir b) = FuseReleaseIn_to_bytes b"
| "request_bytes ReqDestroy = []"

text \<open>Names and data reach to the end of the packet; two names end in zeros; anything else is ignored.\<close>

definition wire_tail :: "fuse_request \<Rightarrow> bytes set" where
  "wire_tail req = (if opcode_of req \<in> {Lookup, Mknod, Mkdir, Unlink, Rmdir, Link, Write} then {[]} else UNIV)"

fun request_ok :: "fuse_request \<Rightarrow> bool" where
  "request_ok (ReqSymlink name target) \<longleftrightarrow> nul_free name \<and> nul_free target"
| "request_ok (ReqRename _ old_name new_name) \<longleftrightarrow> nul_free old_name \<and> nul_free new_name"
| "request_ok _ \<longleftrightarrow> True"

lemma dropWhile_nul: "0 \<in> set buf \<Longrightarrow> dropWhile (\<lambda>b. b \<noteq> 0) buf = 0 # tl (dropWhile (\<lambda>b. b \<noteq> 0) (buf :: bytes))"
  by (induction buf) auto

lemma takeWhile_nul:
  "0 \<notin> set a \<Longrightarrow> takeWhile (\<lambda>b. b \<noteq> 0) (a @ 0 # b) = a"
  "0 \<notin> set a \<Longrightarrow> dropWhile (\<lambda>b. b \<noteq> 0) (a @ 0 # b) = (0 :: u8) # b"
  by (induction a) auto

lemma split_nul_iff: "split_nul buf = Inr (a, b) \<longleftrightarrow> nul_free a \<and> buf = a @ 0 # b"
proof
  assume "split_nul buf = Inr (a, b)"
  then have "0 \<in> set buf" "a = takeWhile (\<lambda>b. b \<noteq> 0) buf" "b = tl (dropWhile (\<lambda>b. b \<noteq> 0) buf)"
    by (auto simp: split_nul_def split: if_splits)
  moreover from this have "dropWhile (\<lambda>b. b \<noteq> 0) buf = 0 # b" using dropWhile_nul by simp
  ultimately show "nul_free a \<and> buf = a @ 0 # b"
    using takeWhile_dropWhile_id [of "\<lambda>b. b \<noteq> 0" buf] by (auto simp: nul_free_def dest: set_takeWhileD)
next
  assume "nul_free a \<and> buf = a @ 0 # b"
  then show "split_nul buf = Inr (a, b)"
    by (auto simp: split_nul_def nul_free_def takeWhile_nul)
qed

lemma split_two_iff:
  "split_two_nul_strings buf = Inr (a, b) \<longleftrightarrow> nul_free a \<and> nul_free b \<and> (\<exists>rest. buf = (a @ 0 # b @ [0]) @ rest)"
  by (auto simp: split_two_nul_strings_def and_then_eqs split_nul_iff)

lemmas body_codecs =
  fuse_init_in.dec_prefix fuse_forget_in.dec_prefix fuse_getattr_in.dec_prefix fuse_setattr_in.dec_prefix
  fuse_mknod_in.dec_prefix fuse_mkdir_in.dec_prefix fuse_rename_in.dec_prefix fuse_link_in.dec_prefix
  fuse_open_in.dec_prefix fuse_read_in.dec_prefix fuse_write_in.dec_prefix fuse_release_in.dec_prefix
  fuse_fsync_in.dec_prefix fuse_flush_in.dec_prefix

lemmas body_widths =
  fuse_mknod_in.enc_length fuse_mkdir_in.enc_length fuse_rename_in.enc_length fuse_link_in.enc_length
  fuse_write_in.enc_length

lemma map_sum_Ok: "map_sum id f r = Inr y \<longleftrightarrow> (\<exists>x. r = Inr x \<and> y = f x)"
  by (cases r) auto

lemma parse_body_sound:
  "parse_body op body = Inr req \<Longrightarrow>
    op = opcode_of req \<and> request_ok req \<and> (\<exists>rest \<in> wire_tail req. body = request_bytes req @ rest)"
  by (cases op) (auto simp: parse_body_def map_sum_Ok and_then_eqs body_codecs body_widths split_two_iff wire_tail_def)

lemma parse_body_complete:
  "request_ok req \<Longrightarrow> rest \<in> wire_tail req \<Longrightarrow> parse_body (opcode_of req) (request_bytes req @ rest) = Inr req"
  by (cases req) (auto simp: parse_body_def map_sum_Ok and_then_eqs body_codecs body_widths split_two_iff wire_tail_def)

text \<open>
  C19: Request parsing is exact. A packet parses to a header and a request exactly when it is the header's
  bytes, then the request's, with the operation of the header, names without zeros where two of them
  follow each other, and nothing after a name or data that runs to the end of the packet: no two
  requests share a packet and no field is lost.
\<close>

theorem parse_request_exact:
  "parse_request buf = Ok (hdr, req) \<longleftrightarrow> fh_opcode hdr = opcode_of req \<and> request_ok req \<and>
     (\<exists>rest \<in> wire_tail req. buf = FuseInHeader_to_bytes hdr @ request_bytes req @ rest)"
  (is "?l \<longleftrightarrow> ?r")
proof
  assume ?l
  then obtain body where "buf = FuseInHeader_to_bytes hdr @ body" "parse_body (fh_opcode hdr) body = Inr req"
    by (auto simp: parse_request_def and_then_eqs fuse_in_header.dec_prefix FUSE_IN_HDR_LEN_def)
  then show ?r using parse_body_sound by blast
next
  assume ?r
  then show ?l
    using parse_body_complete [of req] fuse_in_header.dec_enc [of hdr]
    by (auto simp: parse_request_def FUSE_IN_HDR_LEN_def)
qed

subsection \<open>Replies\<close>

lemma sint_minus_abs: "sint (- unsigned_abs e) \<le> 0"
proof -
  have "sint (- w) \<le> 0" if "0 \<le> sint w" for w :: u32
    using that sint_lt [of w] by (simp add: sint_word_ariths signed_take_bit_int_eq_self)
  then show ?thesis by (simp add: unsigned_abs_def)
qed

lemma encode_result_parses:
  assumes "encode_result u r = Some bytes"
  shows "\<exists>out. FuseOutHeader_from_bytes bytes = Ok out \<and> fo_unique out = u \<and> sint (fo_error out) \<le> 0 \<and>
    fo_len out = of_nat (length bytes) \<and>
    (case r of Inr body \<Rightarrow> fo_error out = 0 \<and> drop FUSE_OUT_HDR_LEN bytes = body
     | Inl e \<Rightarrow> fo_error out = - unsigned_abs e \<and> length bytes = FUSE_OUT_HDR_LEN)"
  using assms fuse_out_header.dec_enc fuse_out_header.enc_length
  by (cases r) (auto simp: encode_result_def FuseOutHeader_ok_def FuseOutHeader_err_def FUSE_OUT_HDR_LEN_def
      fuse_out_header.roundtrip sint_minus_abs)

definition is_reply :: "u64 \<Rightarrow> bytes \<Rightarrow> bool" where
  "is_reply u reply \<longleftrightarrow>
     (\<exists>out. FuseOutHeader_from_bytes reply = Ok out \<and> fo_unique out = u \<and>
        fo_len out = of_nat (length reply) \<and> sint (fo_error out) \<le> 0 \<and>
        (if FuseOutHeader_is_error out then length reply = FUSE_OUT_HDR_LEN else FUSE_OUT_HDR_LEN \<le> length reply))"

lemma encode_result_reply: "encode_result u r = Some bytes \<Longrightarrow> is_reply u bytes"
  using encode_result_parses [of u r bytes] fuse_out_header.dec_Ok_length [of bytes]
  by (cases r) (auto simp: is_reply_def FuseOutHeader_is_error_def)

lemma answer_with_reply: "\<exists>bytes. answer_with u f x = (fst x, Some bytes) \<and> is_reply u bytes"
proof (cases x)
  case (Pair h r)
  obtain bytes where "encode_result u (map_sum id f r) = Some bytes"
    by (cases r) (auto simp: encode_result_def)
  with Pair encode_result_reply [OF this] show ?thesis by (simp add: answer_with_def)
qed

lemma answer_with_simps:
  "fst (answer_with u f x) = fst x"
  "\<exists>bytes. snd (answer_with u f x) = Some bytes \<and> is_reply u bytes"
  using answer_with_reply [of u f x] by auto

lemma answer_with_None: "snd (answer_with u f x) \<noteq> None"
  using answer_with_simps(2) [of u f x] by auto

lemma answer_with_Some: "snd (answer_with u f x) = Some bytes \<Longrightarrow> is_reply u bytes"
  using answer_with_simps(2) [of u f x] by auto

text \<open>
  Every request but Forget and Destroy is answered exactly once, whatever the handler does: the answer
  begins with a header that carries the request's unique id and the answer's length (as a 32-bit
  number), its error is zero or negative, and an answer with an error has no body. Forget and Destroy are never
  answered.
\<close>

theorem dispatch_answers:
  "case snd (fuse_dispatch H h hdr req) of
     None \<Rightarrow> opcode_of req \<in> {Forget, Destroy}
   | Some reply \<Rightarrow> opcode_of req \<notin> {Forget, Destroy} \<and>
       (\<exists>out. FuseOutHeader_from_bytes reply = Ok out \<and> fo_unique out = fh_unique hdr \<and>
          fo_len out = of_nat (length reply) \<and> sint (fo_error out) \<le> 0 \<and>
          (if FuseOutHeader_is_error out then length reply = FUSE_OUT_HDR_LEN else FUSE_OUT_HDR_LEN \<le> length reply))"
  unfolding is_reply_def [symmetric]
  by (cases req) (auto simp: fuse_dispatch_def Let_def answer_with_None split: option.split dest: answer_with_Some)

subsection \<open>Sessions\<close>

text \<open>
  The contract of a handler that keeps an invariant: \<open>inv n\<close> holds after \<open>n\<close> requests, each of them
  \<open>allowed\<close> in the state it finds.
\<close>

locale fuse_session =
  fixes H :: "'h fuse_handler"
    and inv :: "nat \<Rightarrow> 'h \<Rightarrow> bool"
    and allowed :: "'h \<Rightarrow> fuse_in_header \<Rightarrow> fuse_request \<Rightarrow> bool"
  assumes step: "inv n h \<Longrightarrow> allowed h hdr req \<Longrightarrow> inv (Suc n) (fst (fuse_dispatch H h hdr req))"

fun fuse_run :: "'h fuse_handler \<Rightarrow> 'h \<Rightarrow> (fuse_in_header \<times> fuse_request) list \<Rightarrow> 'h" where
  "fuse_run H h [] = h"
| "fuse_run H h ((hdr, req) # rs) = fuse_run H (fst (fuse_dispatch H h hdr req)) rs"

fun all_allowed ::
    "'h fuse_handler \<Rightarrow> ('h \<Rightarrow> fuse_in_header \<Rightarrow> fuse_request \<Rightarrow> bool) \<Rightarrow> 'h \<Rightarrow> (fuse_in_header \<times> fuse_request) list \<Rightarrow> bool" where
  "all_allowed H allowed h [] \<longleftrightarrow> True"
| "all_allowed H allowed h ((hdr, req) # rs) \<longleftrightarrow>
     allowed h hdr req \<and> all_allowed H allowed (fst (fuse_dispatch H h hdr req)) rs"

context fuse_session
begin

lemma run_inv: "inv n h \<Longrightarrow> all_allowed H allowed h rs \<Longrightarrow> inv (n + length rs) (fuse_run H h rs)"
proof (induction rs arbitrary: n h)
  case (Cons r rs)
  then show ?case using step [of n h "fst r" "snd r"] by (cases r) fastforce
qed simp

end

end
