(* ===== verification/Fuse_Dirent.thy ===== *)
theory Fuse_Dirent
  imports Fuse_Wire
begin

text \<open>
  Directory streams: the \<^verbatim>\<open>fuse_dirent\<close> records of \<^verbatim>\<open>crates/virtio-fs/src/body.rs\<close> with the writer
  that packs them into a bounded reply and the iterator that reads them back. Every record is a
  header, the name and zeros up to a multiple of eight.
\<close>

unbundle bit_operations_syntax

subsection \<open>The code\<close>

definition FUSE_DIRENT_HDR_LEN :: nat where "FUSE_DIRENT_HDR_LEN = 24"

record fuse_dirent_header =
  dh_ino :: u64
  dh_off :: u64
  dh_namelen :: u32
  dh_ftype :: u32

definition FuseDirentHeader_from_bytes :: "bytes \<Rightarrow> (fuse_error, fuse_dirent_header) result" where
  "FuseDirentHeader_from_bytes buf =
     (if length buf < FUSE_DIRENT_HDR_LEN then Err (ShortHeader (length buf) FUSE_DIRENT_HDR_LEN)
      else Ok
        \<lparr>dh_ino = from_le (slice_at 0 8 buf), dh_off = from_le (slice_at 8 8 buf),
         dh_namelen = from_le (slice_at 16 4 buf), dh_ftype = from_le (slice_at 20 4 buf)\<rparr>)"

definition FuseDirentHeader_write_to :: "fuse_dirent_header \<Rightarrow> bytes \<Rightarrow> (fuse_error, nat \<times> bytes) result" where
  "FuseDirentHeader_write_to x buf =
     (if length buf < FUSE_DIRENT_HDR_LEN then Err (ShortBuffer (length buf) FUSE_DIRENT_HDR_LEN)
      else let buf = copy_into 0 (to_le 8 (dh_ino x)) buf;
          buf = copy_into 8 (to_le 8 (dh_off x)) buf;
          buf = copy_into 16 (to_le 4 (dh_namelen x)) buf;
          buf = copy_into 20 (to_le 4 (dh_ftype x)) buf
      in Ok (FUSE_DIRENT_HDR_LEN, buf))"

definition FuseDirentHeader_to_bytes :: "fuse_dirent_header \<Rightarrow> bytes" where
  "FuseDirentHeader_to_bytes x = written_buf (FuseDirentHeader_write_to x (replicate FUSE_DIRENT_HDR_LEN 0))"

definition FUSE_DIRENT_ALIGN :: nat where "FUSE_DIRENT_ALIGN = 8"

definition dt_UNKNOWN :: u32 where "dt_UNKNOWN = 0"
definition dt_DIR :: u32 where "dt_DIR = 4"
definition dt_REG :: u32 where "dt_REG = 8"
definition dt_LNK :: u32 where "dt_LNK = 10"

definition fuse_dirent_padded_size :: "nat \<Rightarrow> nat" where
  "fuse_dirent_padded_size name_len =
     (let total = FUSE_DIRENT_HDR_LEN + name_len
      in nat (int (total + FUSE_DIRENT_ALIGN - 1) AND NOT (int (FUSE_DIRENT_ALIGN - 1))))"

datatype dirent_write_error = BufferFull nat nat | NameTooLong nat

record dirent_writer =
  dw_buf :: bytes
  dw_cap :: nat

definition FuseDirentWriter_with_capacity :: "nat \<Rightarrow> dirent_writer" where
  "FuseDirentWriter_with_capacity cap = \<lparr>dw_buf = [], dw_cap = cap\<rparr>"

definition FuseDirentWriter_remaining :: "dirent_writer \<Rightarrow> nat" where
  "FuseDirentWriter_remaining w = dw_cap w - length (dw_buf w)"

definition FuseDirentWriter_push ::
    "dirent_writer \<Rightarrow> u64 \<Rightarrow> u64 \<Rightarrow> u32 \<Rightarrow> bytes \<Rightarrow> dirent_writer \<times> (dirent_write_error, unit) result" where
  "FuseDirentWriter_push w ino off ftype name =
     (if length name \<ge> 2 ^ 32 then (w, Err (NameTooLong (length name)))
      else
        let namelen = of_nat (length name);
            need = fuse_dirent_padded_size (length name)
        in if length (dw_buf w) + need > dw_cap w
           then (w, Err (BufferFull need (FuseDirentWriter_remaining w)))
           else
             let header = \<lparr>dh_ino = ino, dh_off = off, dh_namelen = namelen, dh_ftype = ftype\<rparr>;
                 pad = need - FUSE_DIRENT_HDR_LEN - length name
             in (w\<lparr>dw_buf := dw_buf w @ FuseDirentHeader_to_bytes header @ name @ replicate pad 0\<rparr>, Ok ()))"

record dirent_iter =
  di_rest :: bytes
  di_failed :: bool

definition FuseDirentIter_new :: "bytes \<Rightarrow> dirent_iter" where
  "FuseDirentIter_new buf = \<lparr>di_rest = buf, di_failed = False\<rparr>"

definition FuseDirentIter_next ::
    "dirent_iter \<Rightarrow> dirent_iter \<times> (fuse_error, fuse_dirent_header \<times> bytes) result option" where
  "FuseDirentIter_next it =
     (if di_failed it \<or> di_rest it = [] then (it, None)
      else if length (di_rest it) < FUSE_DIRENT_HDR_LEN
      then (it\<lparr>di_failed := True\<rparr>, Some (Err (ShortHeader (length (di_rest it)) FUSE_DIRENT_HDR_LEN)))
      else
        case FuseDirentHeader_from_bytes (take FUSE_DIRENT_HDR_LEN (di_rest it)) of
          Inl e \<Rightarrow> (it\<lparr>di_failed := True\<rparr>, Some (Err e))
        | Inr hdr \<Rightarrow>
            let name_len = unat (dh_namelen hdr);
                total = fuse_dirent_padded_size name_len
            in if length (di_rest it) < total
               then (it\<lparr>di_failed := True\<rparr>, Some (Err (ShortHeader (length (di_rest it)) total)))
               else (it\<lparr>di_rest := drop total (di_rest it)\<rparr>,
                     Some (Ok (hdr, slice_at FUSE_DIRENT_HDR_LEN name_len (di_rest it)))))"

subsection \<open>One record\<close>

lemma padded_size: "fuse_dirent_padded_size n = (n + 31) div 8 * 8"
proof -
  have "x AND NOT (mask k) = push_bit k (drop_bit k x)" for x :: int and k
    by (rule bit_eqI) (auto simp: bit_simps)
  from this [of "int (n + 31)" 3] have "int (n + 31) AND NOT 7 = int (n + 31) div 8 * 8"
    by (simp add: mask_numeral push_bit_eq_mult drop_bit_eq_div)
  moreover have "nat (int (n + 31) div 8 * 8) = (n + 31) div 8 * 8"
    by (metis nat_int of_nat_mult zdiv_int of_nat_numeral)
  ultimately show ?thesis
    by (simp add: fuse_dirent_padded_size_def FUSE_DIRENT_HDR_LEN_def FUSE_DIRENT_ALIGN_def Let_def add.commute)
qed

lemma padded_size_bounds:
  "24 + n \<le> fuse_dirent_padded_size n" "fuse_dirent_padded_size n < 32 + n" "8 dvd fuse_dirent_padded_size n"
  unfolding padded_size by linarith+ simp

interpretation fuse_dirent_header: le_struct FuseDirentHeader_from_bytes FuseDirentHeader_write_to FuseDirentHeader_to_bytes FUSE_DIRENT_HDR_LEN
  "\<lambda>n. ShortHeader n FUSE_DIRENT_HDR_LEN" "\<lambda>n. ShortBuffer n FUSE_DIRENT_HDR_LEN"
  "\<lambda>x. [to_le 8 (dh_ino x), to_le 8 (dh_off x), to_le 4 (dh_namelen x), to_le 4 (dh_ftype x)]"
  "[8, 8, 4, 4]" "\<lambda>_. True"
  by unfold_locales
    (auto simp: FuseDirentHeader_from_bytes_def FuseDirentHeader_write_to_def FuseDirentHeader_to_bytes_def
      FUSE_DIRENT_HDR_LEN_def Let_def to_le_inject le_roundtrip_bytes)

lemma length_dirent_header [simp]: "length (FuseDirentHeader_to_bytes h) = 24"
  using fuse_dirent_header.enc_length [of h] by (simp add: FUSE_DIRENT_HDR_LEN_def)

type_synonym dirent = "u64 \<times> u64 \<times> u32 \<times> bytes"

definition header_of :: "dirent \<Rightarrow> fuse_dirent_header" where
  "header_of = (\<lambda>(ino, off, ftype, name). \<lparr>dh_ino = ino, dh_off = off, dh_namelen = of_nat (length name), dh_ftype = ftype\<rparr>)"

definition name_of :: "dirent \<Rightarrow> bytes" where
  "name_of = (\<lambda>(_, _, _, name). name)"

definition record_of :: "dirent \<Rightarrow> bytes" where
  "record_of d = FuseDirentHeader_to_bytes (header_of d) @ name_of d @
     replicate (fuse_dirent_padded_size (length (name_of d)) - 24 - length (name_of d)) 0"

lemma length_record_of: "length (record_of d) = fuse_dirent_padded_size (length (name_of d))"
  using padded_size_bounds(1) [of "length (name_of d)"] by (simp add: record_of_def)

lemma push_cases:
  "FuseDirentWriter_push w ino off ftype name =
     (if length name \<ge> 2 ^ 32 then (w, Err (NameTooLong (length name)))
      else if length (dw_buf w) + fuse_dirent_padded_size (length name) > dw_cap w
      then (w, Err (BufferFull (fuse_dirent_padded_size (length name)) (dw_cap w - length (dw_buf w))))
      else (w\<lparr>dw_buf := dw_buf w @ record_of (ino, off, ftype, name)\<rparr>, Ok ()))"
  by (simp add: FuseDirentWriter_push_def FuseDirentWriter_remaining_def record_of_def header_of_def name_of_def
      FUSE_DIRENT_HDR_LEN_def Let_def)

lemma next_record:
  assumes "length (name_of d) < 2 ^ 32"
  shows "FuseDirentIter_next \<lparr>di_rest = record_of d @ rest, di_failed = False\<rparr> =
    (\<lparr>di_rest = rest, di_failed = False\<rparr>, Some (Ok (header_of d, name_of d)))"
proof -
  let ?n = "length (name_of d)"
  have n: "unat (dh_namelen (header_of d)) = ?n"
    using assms by (cases d) (simp add: header_of_def name_of_def unat_of_nat)
  have len: "length (record_of d) = fuse_dirent_padded_size ?n" by (rule length_record_of)
  have "record_of d @ rest \<noteq> []" using len padded_size_bounds(1) [of ?n] by (cases "record_of d") auto
  moreover have "take 24 (record_of d @ rest) = FuseDirentHeader_to_bytes (header_of d)" by (simp add: record_of_def)
  moreover have "slice_at 24 ?n (record_of d @ rest) = name_of d" by (simp add: record_of_def slice_at_def)
  ultimately show ?thesis
    using padded_size_bounds(1) [of ?n] fuse_dirent_header.roundtrip [of "header_of d"]
    by (simp add: FuseDirentIter_next_def FUSE_DIRENT_HDR_LEN_def Let_def n len)
qed

subsection \<open>The whole stream\<close>

definition iter_weight :: "dirent_iter \<Rightarrow> nat" where
  "iter_weight it = 2 * length (di_rest it) + (if di_failed it then 0 else 1)"

lemma next_cases:
  assumes "FuseDirentIter_next it = (it', Some r)"
  obtains (failed) e where "r = Inl e" "it' = it\<lparr>di_failed := True\<rparr>" "\<not> di_failed it"
  | (item) hdr n where "n = unat (dh_namelen hdr)" "r = Inr (hdr, slice_at 24 n (di_rest it))"
      "it' = it\<lparr>di_rest := drop (fuse_dirent_padded_size n) (di_rest it)\<rparr>"
      "fuse_dirent_padded_size n \<le> length (di_rest it)"
      "take 24 (di_rest it) = FuseDirentHeader_to_bytes hdr" "\<not> di_failed it"
proof (cases "length (di_rest it) < 24")
  case True
  then show ?thesis
    using assms failed by (auto simp: FuseDirentIter_next_def FUSE_DIRENT_HDR_LEN_def split: if_splits)
next
  case False
  then obtain hdr where h: "FuseDirentHeader_from_bytes (take 24 (di_rest it)) = Inr hdr"
    using fuse_dirent_header.dec_total [of "take 24 (di_rest it)"] by (auto simp: FUSE_DIRENT_HDR_LEN_def)
  then have "take 24 (di_rest it) = FuseDirentHeader_to_bytes hdr"
    using fuse_dirent_header.enc_dec [OF h] False by (simp add: FUSE_DIRENT_HDR_LEN_def)
  then show ?thesis
    using assms h False failed item [OF refl]
    by (auto simp: FuseDirentIter_next_def FUSE_DIRENT_HDR_LEN_def Let_def not_less split: if_splits)
qed

lemma next_shrinks:
  assumes "FuseDirentIter_next it = (it', Some r)"
  shows "iter_weight it' < iter_weight it"
  using assms
proof (cases rule: next_cases)
  case (item hdr n)
  then show ?thesis using padded_size_bounds(1) [of n] by (simp add: iter_weight_def)
qed (simp add: iter_weight_def)

function dirent_items :: "dirent_iter \<Rightarrow> (fuse_error, fuse_dirent_header \<times> bytes) result list" where
  "dirent_items it =
     (case FuseDirentIter_next it of (_, None) \<Rightarrow> [] | (it', Some r) \<Rightarrow> r # dirent_items it')"
  by pat_completeness auto
termination by (relation "measure iter_weight") (auto dest!: sym [of "(_, Some _)"] next_shrinks)

declare dirent_items.simps [simp del]

lemma dirent_items_failed [simp]: "di_failed it \<Longrightarrow> dirent_items it = []"
  by (subst dirent_items.simps) (simp add: FuseDirentIter_next_def)

lemma dirent_items_empty [simp]: "di_rest it = [] \<Longrightarrow> dirent_items it = []"
  by (subst dirent_items.simps) (simp add: FuseDirentIter_next_def)

lemma dirent_items_records:
  "list_all (\<lambda>d. length (name_of d) < 2 ^ 32) ds \<Longrightarrow>
    dirent_items (FuseDirentIter_new (concat (map record_of ds))) = map (\<lambda>d. Ok (header_of d, name_of d)) ds"
proof (induction ds)
  case (Cons d ds)
  then show ?case by (subst dirent_items.simps) (simp add: FuseDirentIter_new_def next_record)
qed (simp add: FuseDirentIter_new_def)

text \<open>A sequence of pushes: the writer at the end and the entries it accepted.\<close>

fun pushes :: "dirent_writer \<Rightarrow> dirent list \<Rightarrow> dirent_writer \<times> dirent list" where
  "pushes w [] = (w, [])"
| "pushes w ((ino, off, ftype, name) # ds) =
     (case FuseDirentWriter_push w ino off ftype name of
        (w, Inl _) \<Rightarrow> pushes w ds
      | (w, Inr _) \<Rightarrow> (let (w, acc) = pushes w ds in (w, (ino, off, ftype, name) # acc)))"

lemma pushes_exact:
  assumes "pushes w ds = (w', acc)"
  shows "dw_buf w' = dw_buf w @ concat (map record_of acc) \<and> dw_cap w' = dw_cap w \<and>
    list_all (\<lambda>d. length (name_of d) < 2 ^ 32) acc \<and> (length (dw_buf w) \<le> dw_cap w \<longrightarrow> length (dw_buf w') \<le> dw_cap w')"
  using assms
proof (induction ds arbitrary: w acc)
  case (Cons d ds)
  obtain ino off ftype name where d: "d = (ino, off, ftype, name)" by (cases d)
  from Cons.prems show ?case
    unfolding d
    by (auto simp: push_cases name_of_def length_record_of split: if_splits prod.splits dest!: Cons.IH)
qed simp

lemma record_aligned: "8 dvd length (concat (map record_of ds))"
  by (induction ds) (simp_all add: length_record_of padded_size_bounds)

text \<open>
  Directory streams round-trip within their bound. Whatever entries are pushed, the reply never
  exceeds its capacity and is a multiple of eight long; an entry is refused exactly when its padded
  record does not fit any more (or its name length is no 32-bit number), and then changes nothing; and
  reading the reply gives exactly the accepted entries, in order, without an error.
\<close>

theorem dirent_stream_exact:
  fixes cap ds defines "w \<equiv> fst (pushes (FuseDirentWriter_with_capacity cap) ds)"
    and "acc \<equiv> snd (pushes (FuseDirentWriter_with_capacity cap) ds)"
  shows "dirent_items (FuseDirentIter_new (dw_buf w)) = map (\<lambda>d. Ok (header_of d, name_of d)) acc \<and>
    length (dw_buf w) \<le> cap \<and> 8 dvd length (dw_buf w) \<and>
    (snd (FuseDirentWriter_push w ino off ftype name) = Ok () \<longleftrightarrow>
       length name < 2 ^ 32 \<and> length (dw_buf w) + fuse_dirent_padded_size (length name) \<le> cap) \<and>
    (snd (FuseDirentWriter_push w ino off ftype name) = Ok () \<or> fst (FuseDirentWriter_push w ino off ftype name) = w)"
proof -
  have "dw_buf w = concat (map record_of acc)" "dw_cap w = cap"
    "list_all (\<lambda>d. length (name_of d) < 2 ^ 32) acc" "length (dw_buf w) \<le> cap"
    using pushes_exact [of "FuseDirentWriter_with_capacity cap" ds w acc]
    by (auto simp: w_def acc_def FuseDirentWriter_with_capacity_def)
  then show ?thesis
    by (simp add: dirent_items_records record_aligned push_cases not_less not_le)
qed

text \<open>
  C99: Reading a directory stream from an arbitrary buffer is safe: it ends, at most the last item is an
  error, every name has the length its header announces, and the records read lie one after the other
  inside the buffer.
\<close>

theorem dirent_iter_safe:
  "\<exists>ds errs. dirent_items (FuseDirentIter_new buf) = map Ok ds @ map Err errs \<and> length errs \<le> 1 \<and>
     list_all (\<lambda>(hdr, name). length name = unat (dh_namelen hdr)) ds \<and>
     (\<Sum>(hdr, name)\<leftarrow>ds. fuse_dirent_padded_size (length name)) \<le> length buf"
proof -
  have "\<exists>ds errs. dirent_items it = map Ok ds @ map Err errs \<and> length errs \<le> 1 \<and>
      list_all (\<lambda>(hdr, name). length name = unat (dh_namelen hdr)) ds \<and>
      (\<Sum>(hdr, name)\<leftarrow>ds. fuse_dirent_padded_size (length name)) \<le> length (di_rest it)" for it
  proof (induction it rule: dirent_items.induct)
    case (1 it)
    obtain it' item where step: "FuseDirentIter_next it = (it', item)" by fastforce
    show ?case
    proof (cases item)
      case None
      with step show ?thesis by (subst dirent_items.simps) (auto intro!: exI [of _ "[]"])
    next
      case (Some r)
      with step have "FuseDirentIter_next it = (it', Some r)" by simp
      then show ?thesis
      proof (cases rule: next_cases)
        case (failed e)
        then show ?thesis
          using step Some by (subst dirent_items.simps) (auto intro!: exI [of _ "[]"] exI [of _ "[e]"])
      next
        case (item hdr n)
        obtain ds errs where ih: "dirent_items it' = map Ok ds @ map Err errs" "length errs \<le> 1"
          "list_all (\<lambda>(hdr, name). length name = unat (dh_namelen hdr)) ds"
          "(\<Sum>(hdr, name)\<leftarrow>ds. fuse_dirent_padded_size (length name)) \<le> length (di_rest it')"
          using "1.IH" [OF step [symmetric] Some] by blast
        have "length (slice_at 24 n (di_rest it)) = n" using item(4) padded_size_bounds(1) [of n] by simp
        moreover have "dirent_items it = r # dirent_items it'"
          using step Some by (subst dirent_items.simps) simp
        ultimately show ?thesis
          using ih item by (intro exI [of _ "(hdr, slice_at 24 n (di_rest it)) # ds"] exI [of _ errs]) auto
      qed
    qed
  qed
  from this [of "FuseDirentIter_new buf"] show ?thesis by (simp add: FuseDirentIter_new_def)
qed

end
