(* ===== verification/Std_Fs.thy ===== *)
theory Std_Fs
  imports Fuse_Dispatch Fuse_Dirent Std_Text
begin

text \<open>
  The FUSE handler that serves a host directory: \<^verbatim>\<open>crates/virtio-fs/src/std_fs.rs\<close>. The host's file
  system is a parameter: a record of the \<^verbatim>\<open>std::fs\<close> operations the handler calls, on a state of any
  type, which also gives the order in which the path map is walked. Paths are raw strings, and the
  path map is keyed by components, with the raw key beside the value, as equal paths may be
  written differently. The build is the Unix one.
\<close>

unbundle bit_operations_syntax

subsection \<open>The host\<close>

datatype io_kind =
    NotFound | AlreadyExists | PermissionDenied | InvalidInput | DirectoryNotEmpty | IsADirectory | NotADirectory
  | OtherKind

record file_meta =
  mt_size :: u64
  mt_blocks :: u64
  mt_atime :: u64
  mt_mtime :: u64
  mt_ctime :: u64
  mt_atime_nsec :: u64
  mt_mtime_nsec :: u64
  mt_ctime_nsec :: u64
  mt_mode :: u32
  mt_nlink :: u64
  mt_uid :: u32
  mt_gid :: u32
  mt_rdev :: u64
  mt_blksize :: u64

datatype host_file_type = IsDir | IsSymlink | IsFile | IsOther

record open_options =
  op_read :: bool
  op_write :: bool
  op_append :: bool
  op_truncate :: bool
  op_create :: bool
  op_create_new :: bool

record ('f, 'fd) host =
  ho_symlink_metadata :: "'f \<Rightarrow> string \<Rightarrow> (io_kind, file_meta) result"
  ho_is_dir :: "'f \<Rightarrow> string \<Rightarrow> (io_kind, bool) result"
  ho_canonicalize :: "'f \<Rightarrow> string \<Rightarrow> (io_kind, string) result"
  ho_read_link :: "'f \<Rightarrow> string \<Rightarrow> (io_kind, bytes) result"
  ho_read_dir :: "'f \<Rightarrow> string \<Rightarrow> (io_kind, (io_kind, bytes \<times> (io_kind, host_file_type) result) result list) result"
  ho_open :: "'f \<Rightarrow> string \<Rightarrow> open_options \<Rightarrow> 'f \<times> (io_kind, 'fd) result"
  ho_set_len :: "'f \<Rightarrow> 'fd \<Rightarrow> u64 \<Rightarrow> 'f \<times> (io_kind, unit) result"
  ho_set_permissions :: "'f \<Rightarrow> string \<Rightarrow> u32 \<Rightarrow> 'f \<times> (io_kind, unit) result"
  ho_create_dir :: "'f \<Rightarrow> string \<Rightarrow> 'f \<times> (io_kind, unit) result"
  ho_remove_file :: "'f \<Rightarrow> string \<Rightarrow> 'f \<times> (io_kind, unit) result"
  ho_remove_dir :: "'f \<Rightarrow> string \<Rightarrow> 'f \<times> (io_kind, unit) result"
  ho_symlink :: "'f \<Rightarrow> string \<Rightarrow> string \<Rightarrow> 'f \<times> (io_kind, unit) result"
  ho_rename :: "'f \<Rightarrow> string \<Rightarrow> string \<Rightarrow> 'f \<times> (io_kind, unit) result"
  ho_hard_link :: "'f \<Rightarrow> string \<Rightarrow> string \<Rightarrow> 'f \<times> (io_kind, unit) result"
  ho_seek :: "'f \<Rightarrow> 'fd \<Rightarrow> u64 \<Rightarrow> 'f \<times> (io_kind, unit) result"
  ho_read :: "'f \<Rightarrow> 'fd \<Rightarrow> nat \<Rightarrow> 'f \<times> (io_kind, bytes) result"
  ho_write :: "'f \<Rightarrow> 'fd \<Rightarrow> bytes \<Rightarrow> 'f \<times> (io_kind, nat) result"
  ho_sync_data :: "'f \<Rightarrow> 'fd \<Rightarrow> 'f \<times> (io_kind, unit) result"
  ho_sync_all :: "'f \<Rightarrow> 'fd \<Rightarrow> 'f \<times> (io_kind, unit) result"
  ho_flush :: "'f \<Rightarrow> 'fd \<Rightarrow> 'f \<times> (io_kind, unit) result"
  ho_walk :: "'f \<Rightarrow> path_component list list"

subsection \<open>The handler's state\<close>

definition ROOT_NODE_ID :: u64 where "ROOT_NODE_ID = 1"
definition ATTR_TTL_SECS :: u64 where "ATTR_TTL_SECS = 1"
definition ENOENT :: errno where "ENOENT = 2"
definition EIO :: errno where "EIO = 5"
definition EBADF :: errno where "EBADF = 9"
definition EEXIST :: errno where "EEXIST = 17"
definition ENOTDIR :: errno where "ENOTDIR = 20"
definition EISDIR :: errno where "EISDIR = 21"
definition ENOTEMPTY :: errno where "ENOTEMPTY = 39"
definition O_ACCMODE :: u32 where "O_ACCMODE = 3"
definition O_WRONLY :: u32 where "O_WRONLY = 1"
definition O_RDWR :: u32 where "O_RDWR = 2"
definition O_APPEND :: u32 where "O_APPEND = 1024"
definition O_TRUNC :: u32 where "O_TRUNC = 512"
definition O_CREAT :: u32 where "O_CREAT = 64"
definition S_IFMT :: u32 where "S_IFMT = 0xF000"
definition S_IFREG :: u32 where "S_IFREG = 0x8000"

record ('f, 'fd) std_fs =
  sf_host :: 'f
  sf_nodes :: "u64 \<rightharpoonup> string"
  sf_paths :: "path_component list \<rightharpoonup> string \<times> u64"
  sf_lookup_counts :: "u64 \<rightharpoonup> u64"
  sf_next_node :: u64
  sf_next_handle :: u64
  sf_files :: "u64 \<rightharpoonup> 'fd"
  sf_dirs :: "u64 \<rightharpoonup> string"

definition io_to_errno :: "io_kind \<Rightarrow> errno" where
  "io_to_errno k =
     (case k of NotFound \<Rightarrow> ENOENT | AlreadyExists \<Rightarrow> EEXIST | PermissionDenied \<Rightarrow> EIO | InvalidInput \<Rightarrow> EINVAL
      | DirectoryNotEmpty \<Rightarrow> ENOTEMPTY | IsADirectory \<Rightarrow> EISDIR | NotADirectory \<Rightarrow> ENOTDIR | OtherKind \<Rightarrow> EIO)"

definition metadata_to_attr :: "u64 \<Rightarrow> file_meta \<Rightarrow> fuse_attr" where
  "metadata_to_attr nodeid m =
     \<lparr>fa_ino = nodeid, fa_size = mt_size m, fa_blocks = mt_blocks m, fa_atime = mt_atime m, fa_mtime = mt_mtime m,
      fa_ctime = mt_ctime m, fa_atimensec = ucast (mt_atime_nsec m), fa_mtimensec = ucast (mt_mtime_nsec m),
      fa_ctimensec = ucast (mt_ctime_nsec m), fa_mode = mt_mode m, fa_nlink = ucast (mt_nlink m), fa_uid = mt_uid m,
      fa_gid = mt_gid m, fa_rdev = ucast (mt_rdev m), fa_blksize = ucast (mt_blksize m), fa_flags = 0\<rparr>"

definition file_type_to_dt :: "host_file_type \<Rightarrow> u32" where
  "file_type_to_dt ft = (case ft of IsDir \<Rightarrow> dt_DIR | IsSymlink \<Rightarrow> dt_LNK | IsFile \<Rightarrow> dt_REG | IsOther \<Rightarrow> dt_UNKNOWN)"

text \<open>
  Inserting into a map of paths keeps the key that is there. \<open>bind_st\<close> is the \<^verbatim>\<open>?\<close> of a method on
  the state; \<open>on_host\<close> runs a host operation and translates its error.
\<close>

definition paths_insert :: "string \<Rightarrow> u64 \<Rightarrow> (path_component list \<rightharpoonup> string \<times> u64) \<Rightarrow> path_component list \<rightharpoonup> string \<times> u64" where
  "paths_insert p i m =
     (case m (components p) of
        Some (k, _) \<Rightarrow> m(components p \<mapsto> (k, i))
      | None \<Rightarrow> m(components p \<mapsto> (p, i)))"

definition bind_st :: "'s \<times> ('e, 'a) result \<Rightarrow> ('s \<Rightarrow> 'a \<Rightarrow> 's \<times> ('e, 'b) result) \<Rightarrow> 's \<times> ('e, 'b) result" where
  "bind_st m f = (case m of (s, Inl e) \<Rightarrow> (s, Inl e) | (s, Inr x) \<Rightarrow> f s x)"

definition on_host ::
    "('f \<Rightarrow> 'f \<times> (io_kind, 'a) result) \<Rightarrow> ('f, 'fd) std_fs \<Rightarrow> ('f, 'fd) std_fs \<times> (errno, 'a) result" where
  "on_host op s = (let (f, r) = op (sf_host s) in (s\<lparr>sf_host := f\<rparr>, map_err io_to_errno r))"

definition StdFsHandler_new :: "('f, 'fd) host \<Rightarrow> 'f \<Rightarrow> string \<Rightarrow> (io_kind, ('f, 'fd) std_fs) result" where
  "StdFsHandler_new H f root =
     and_then (ho_is_dir H f root) (\<lambda>is_dir.
       if \<not> is_dir then Err InvalidInput
       else and_then (ho_canonicalize H f root) (\<lambda>root.
         Ok \<lparr>sf_host = f, sf_nodes = [ROOT_NODE_ID \<mapsto> root], sf_paths = [components root \<mapsto> (root, ROOT_NODE_ID)],
             sf_lookup_counts = [ROOT_NODE_ID \<mapsto> -1], sf_next_node = ROOT_NODE_ID + 1, sf_next_handle = 1,
             sf_files = Map.empty, sf_dirs = Map.empty\<rparr>))"

definition resolve_node :: "('f, 'fd) std_fs \<Rightarrow> u64 \<Rightarrow> (errno, string) result" where
  "resolve_node s nodeid = ok_or ENOENT (sf_nodes s nodeid)"

definition register_path :: "('f, 'fd) std_fs \<Rightarrow> string \<Rightarrow> ('f, 'fd) std_fs \<times> u64" where
  "register_path s p =
     (case sf_paths s (components p) of
        Some (_, i) \<Rightarrow> (s, i)
      | None \<Rightarrow>
          let i = sf_next_node s
          in (s\<lparr>sf_next_node := i + 1, sf_nodes := (sf_nodes s)(i \<mapsto> p), sf_paths := paths_insert p i (sf_paths s)\<rparr>, i))"

definition forget_path :: "('f, 'fd) std_fs \<Rightarrow> string \<Rightarrow> ('f, 'fd) std_fs" where
  "forget_path s p =
     (case sf_paths s (components p) of
        None \<Rightarrow> s
      | Some (_, i) \<Rightarrow>
          s\<lparr>sf_paths := (sf_paths s)(components p := None), sf_nodes := (sf_nodes s)(i := None),
            sf_lookup_counts := (sf_lookup_counts s)(i := None)\<rparr>)"

definition rebase_one :: "string \<Rightarrow> string \<Rightarrow> string \<Rightarrow> ('f, 'fd) std_fs \<Rightarrow> ('f, 'fd) std_fs" where
  "rebase_one old_base new_base old s =
     (case sf_paths s (components old) of
        None \<Rightarrow> s
      | Some (_, i) \<Rightarrow>
          let s = s\<lparr>sf_paths := (sf_paths s)(components old := None)\<rparr>
          in case path_strip_prefix old old_base of
               Some rest \<Rightarrow>
                 let new = path_join new_base rest
                 in s\<lparr>sf_paths := paths_insert new i (sf_paths s), sf_nodes := (sf_nodes s)(i \<mapsto> new)\<rparr>
             | None \<Rightarrow> s)"

definition rebase_paths :: "path_component list list \<Rightarrow> ('f, 'fd) std_fs \<Rightarrow> string \<Rightarrow> string \<Rightarrow> ('f, 'fd) std_fs" where
  "rebase_paths order s old_base new_base =
     (let old_paths = filter (\<lambda>p. path_starts_with p old_base) (map fst (List.map_filter (sf_paths s) order))
      in fold (rebase_one old_base new_base) old_paths s)"

definition child_path :: "('f, 'fd) std_fs \<Rightarrow> u64 \<Rightarrow> bytes \<Rightarrow> (errno, string) result" where
  "child_path s parent raw_name =
     (let name = (case split_nul raw_name of Inr (name, _) \<Rightarrow> name | Inl _ \<Rightarrow> raw_name)
      in and_then (ok_or EINVAL (from_utf8 name)) (\<lambda>rel.
           if length (components rel) \<noteq> 1 \<or>
              (case components rel of c # _ \<Rightarrow> c \<in> {CurDir, ParentDir, RootDir} | [] \<Rightarrow> True)
           then Err EINVAL
           else and_then (resolve_node s parent) (\<lambda>base. Ok (path_join base rel))))"

definition node_attr ::
    "('f, 'fd) host \<Rightarrow> ('f, 'fd) std_fs \<Rightarrow> string \<Rightarrow> ('f, 'fd) std_fs \<times> (errno, u64 \<times> fuse_attr) result" where
  "node_attr H s p =
     (case map_err io_to_errno (ho_symlink_metadata H (sf_host s) p) of
        Inl e \<Rightarrow> (s, Err e)
      | Inr meta \<Rightarrow> let (s, i) = register_path s p in (s, Ok (i, metadata_to_attr i meta)))"

definition saturating_inc :: "u64 \<Rightarrow> u64" where
  "saturating_inc n = (if n = -1 then -1 else n + 1)"

definition entry_for_path ::
    "('f, 'fd) host \<Rightarrow> ('f, 'fd) std_fs \<Rightarrow> string \<Rightarrow> ('f, 'fd) std_fs \<times> (errno, fuse_entry_out) result" where
  "entry_for_path H s p =
     bind_st (node_attr H s p) (\<lambda>s (i, attr).
       let s = (if i \<noteq> ROOT_NODE_ID
                then s\<lparr>sf_lookup_counts := (sf_lookup_counts s)(i \<mapsto>
                       (case sf_lookup_counts s i of Some n \<Rightarrow> saturating_inc n | None \<Rightarrow> 1))\<rparr>
                else s)
       in (s, Ok \<lparr>eo_nodeid = i, eo_generation = 0, eo_entry_valid = ATTR_TTL_SECS, eo_attr_valid = ATTR_TTL_SECS,
                  eo_entry_valid_nsec = 0, eo_attr_valid_nsec = 0, eo_attr = attr\<rparr>))"

definition attr_out ::
    "('f, 'fd) host \<Rightarrow> ('f, 'fd) std_fs \<Rightarrow> string \<Rightarrow> ('f, 'fd) std_fs \<times> (errno, fuse_attr_out) result" where
  "attr_out H s p =
     bind_st (node_attr H s p) (\<lambda>s (_, attr).
       (s, Ok \<lparr>ao_attr_valid = ATTR_TTL_SECS, ao_attr_valid_nsec = 0, ao_dummy = 0, ao_attr = attr\<rparr>))"

definition next_fh :: "('f, 'fd) std_fs \<Rightarrow> ('f, 'fd) std_fs \<times> u64" where
  "next_fh s = (s\<lparr>sf_next_handle := sf_next_handle s + 1\<rparr>, sf_next_handle s)"

text \<open>The rows of a directory listing: the name, its type and its path.\<close>

definition dir_entries ::
    "('f, 'fd) host \<Rightarrow> 'f \<Rightarrow> string \<Rightarrow> (errno, (bytes \<times> u32 \<times> string) list) result" where
  "dir_entries H f dir =
     and_then (map_err io_to_errno (ho_read_dir H f dir)) (\<lambda>listed.
     and_then (try_map (\<lambda>r.
        and_then (map_err io_to_errno r) (\<lambda>(name, ftype).
        and_then (map_err io_to_errno ftype) (\<lambda>ftype.
          Ok (utf8_lossy name, file_type_to_dt ftype, path_join dir (map (\<lambda>b. char_of (unat b)) name))))) listed) (\<lambda>rows.
       Ok ((into_bytes ''.'', dt_DIR, dir) #
           (into_bytes ''..'', dt_DIR, (case path_parent dir of Some p \<Rightarrow> p | None \<Rightarrow> dir)) # rows)))"

fun write_entries ::
    "nat \<Rightarrow> (bytes \<times> u32 \<times> string) list \<Rightarrow> ('f, 'fd) std_fs \<Rightarrow> dirent_writer \<Rightarrow> ('f, 'fd) std_fs \<times> dirent_writer" where
  "write_entries idx [] s w = (s, w)"
| "write_entries idx ((name, ftype, p) # rows) s w =
     (let (s, nodeid) = register_path s p
      in case FuseDirentWriter_push w nodeid (of_nat (idx + 1)) ftype name of
           (w, Inl _) \<Rightarrow> (s, w)
         | (w, Inr _) \<Rightarrow> write_entries (idx + 1) rows s w)"

definition build_dirent_payload ::
    "('f, 'fd) host \<Rightarrow> ('f, 'fd) std_fs \<Rightarrow> string \<Rightarrow> nat \<Rightarrow> nat \<Rightarrow> ('f, 'fd) std_fs \<times> (errno, bytes) result" where
  "build_dirent_payload H s dir start cap =
     (case dir_entries H (sf_host s) dir of
        Inl e \<Rightarrow> (s, Err e)
      | Inr entries \<Rightarrow>
          let (s, w) = write_entries start (drop start entries) s (FuseDirentWriter_with_capacity cap)
          in (s, Ok (dw_buf w)))"

definition forget_node :: "('f, 'fd) std_fs \<Rightarrow> u64 \<Rightarrow> u64 \<Rightarrow> ('f, 'fd) std_fs" where
  "forget_node s nodeid nlookup =
     (if nodeid = ROOT_NODE_ID then s
      else
        let count = (case sf_lookup_counts s nodeid of Some n \<Rightarrow> n | None \<Rightarrow> 0)
        in if nlookup \<ge> count
           then
             let s = (case sf_nodes s nodeid of
                        None \<Rightarrow> s
                      | Some p \<Rightarrow> s\<lparr>sf_nodes := (sf_nodes s)(nodeid := None), sf_paths := (sf_paths s)(components p := None)\<rparr>)
             in s\<lparr>sf_lookup_counts := (sf_lookup_counts s)(nodeid := None)\<rparr>
           else s\<lparr>sf_lookup_counts := (sf_lookup_counts s)(nodeid \<mapsto> count - nlookup)\<rparr>)"

subsection \<open>The methods\<close>

definition StdFs_init :: "('f, 'fd) std_fs \<Rightarrow> fuse_init_in \<Rightarrow> ('f, 'fd) std_fs \<times> (errno, fuse_init_out) result" where
  "StdFs_init s req =
     (s, Ok (FuseInitOut_minimal FUSE_KERNEL_VERSION FUSE_KERNEL_MINOR_VERSION (ii_max_readahead req) 0 (1024 * 1024)))"

definition StdFs_destroy :: "('f, 'fd) std_fs \<Rightarrow> ('f, 'fd) std_fs" where
  "StdFs_destroy s =
     (let root = sf_nodes s ROOT_NODE_ID;
          s = s\<lparr>sf_nodes := Map.empty, sf_paths := Map.empty, sf_lookup_counts := Map.empty\<rparr>;
          s = (case root of
                 None \<Rightarrow> s
               | Some p \<Rightarrow> s\<lparr>sf_nodes := [ROOT_NODE_ID \<mapsto> p], sf_paths := [components p \<mapsto> (p, ROOT_NODE_ID)],
                             sf_lookup_counts := [ROOT_NODE_ID \<mapsto> -1]\<rparr>)
      in s\<lparr>sf_files := Map.empty, sf_dirs := Map.empty\<rparr>)"

definition with_node ::
    "('f, 'fd) std_fs \<Rightarrow> u64 \<Rightarrow> (string \<Rightarrow> ('f, 'fd) std_fs \<times> (errno, 'a) result) \<Rightarrow> ('f, 'fd) std_fs \<times> (errno, 'a) result" where
  "with_node s nodeid f = (case resolve_node s nodeid of Inl e \<Rightarrow> (s, Err e) | Inr p \<Rightarrow> f p)"

definition with_child ::
    "('f, 'fd) std_fs \<Rightarrow> u64 \<Rightarrow> bytes \<Rightarrow> (string \<Rightarrow> ('f, 'fd) std_fs \<times> (errno, 'a) result) \<Rightarrow> ('f, 'fd) std_fs \<times> (errno, 'a) result" where
  "with_child s parent name f = (case child_path s parent name of Inl e \<Rightarrow> (s, Err e) | Inr p \<Rightarrow> f p)"

definition StdFs_getattr ::
    "('f, 'fd) host \<Rightarrow> ('f, 'fd) std_fs \<Rightarrow> fuse_in_header \<Rightarrow> ('f, 'fd) std_fs \<times> (errno, fuse_attr_out) result" where
  "StdFs_getattr H s hdr = with_node s (fh_nodeid hdr) (attr_out H s)"

definition opened_for_write :: open_options where
  "opened_for_write = \<lparr>op_read = False, op_write = True, op_append = False, op_truncate = False, op_create = False,
     op_create_new = False\<rparr>"

definition StdFs_setattr ::
    "('f, 'fd) host \<Rightarrow> ('f, 'fd) std_fs \<Rightarrow> fuse_in_header \<Rightarrow> fuse_setattr_in \<Rightarrow>
     ('f, 'fd) std_fs \<times> (errno, fuse_attr_out) result" where
  "StdFs_setattr H s hdr req =
     with_node s (fh_nodeid hdr) (\<lambda>p.
       bind_st (if sa_valid req AND fattr_SIZE \<noteq> 0
                then bind_st (on_host (\<lambda>f. ho_open H f p opened_for_write) s)
                       (\<lambda>s fd. on_host (\<lambda>f. ho_set_len H f fd (sa_size req)) s)
                else (s, Ok ())) (\<lambda>s _.
       bind_st (if sa_valid req AND fattr_MODE \<noteq> 0
                then on_host (\<lambda>f. ho_set_permissions H f p (sa_mode req AND 0xFFF)) s
                else (s, Ok ())) (\<lambda>s _.
       if sa_valid req AND NOT (fattr_SIZE OR fattr_MODE) \<noteq> 0 then (s, Err ENOSYS)
       else attr_out H s p)))"

definition StdFs_lookup ::
    "('f, 'fd) host \<Rightarrow> ('f, 'fd) std_fs \<Rightarrow> fuse_in_header \<Rightarrow> bytes \<Rightarrow> ('f, 'fd) std_fs \<times> (errno, fuse_entry_out) result" where
  "StdFs_lookup H s hdr name = with_child s (fh_nodeid hdr) name (entry_for_path H s)"

definition StdFs_readlink ::
    "('f, 'fd) host \<Rightarrow> ('f, 'fd) std_fs \<Rightarrow> fuse_in_header \<Rightarrow> ('f, 'fd) std_fs \<times> (errno, bytes) result" where
  "StdFs_readlink H s hdr =
     with_node s (fh_nodeid hdr) (\<lambda>p. (s, map_err io_to_errno (ho_read_link H (sf_host s) p)))"

definition StdFs_mknod ::
    "('f, 'fd) host \<Rightarrow> ('f, 'fd) std_fs \<Rightarrow> fuse_in_header \<Rightarrow> fuse_mknod_in \<Rightarrow> bytes \<Rightarrow>
     ('f, 'fd) std_fs \<times> (errno, fuse_entry_out) result" where
  "StdFs_mknod H s hdr req name =
     with_child s (fh_nodeid hdr) name (\<lambda>p.
       let kind = mk_mode req AND S_IFMT
       in if kind \<noteq> 0 \<and> kind \<noteq> S_IFREG then (s, Err ENOSYS)
          else
            bind_st (on_host (\<lambda>f. ho_open H f p (opened_for_write\<lparr>op_create_new := True\<rparr>)) s) (\<lambda>s _.
            bind_st (on_host (\<lambda>f. ho_set_permissions H f p (mk_mode req AND 0xFFF)) s) (\<lambda>s _.
            entry_for_path H s p)))"

definition StdFs_mkdir ::
    "('f, 'fd) host \<Rightarrow> ('f, 'fd) std_fs \<Rightarrow> fuse_in_header \<Rightarrow> fuse_mkdir_in \<Rightarrow> bytes \<Rightarrow>
     ('f, 'fd) std_fs \<times> (errno, fuse_entry_out) result" where
  "StdFs_mkdir H s hdr req name =
     with_child s (fh_nodeid hdr) name (\<lambda>p.
       bind_st (on_host (\<lambda>f. ho_create_dir H f p) s) (\<lambda>s _.
       bind_st (on_host (\<lambda>f. ho_set_permissions H f p (md_mode req AND 0xFFF)) s) (\<lambda>s _.
       entry_for_path H s p)))"

definition StdFs_unlink ::
    "('f, 'fd) host \<Rightarrow> ('f, 'fd) std_fs \<Rightarrow> fuse_in_header \<Rightarrow> bytes \<Rightarrow> ('f, 'fd) std_fs \<times> (errno, unit) result" where
  "StdFs_unlink H s hdr name =
     with_child s (fh_nodeid hdr) name (\<lambda>p.
       bind_st (on_host (\<lambda>f. ho_remove_file H f p) s) (\<lambda>s _. (forget_path s p, Ok ())))"

definition StdFs_rmdir ::
    "('f, 'fd) host \<Rightarrow> ('f, 'fd) std_fs \<Rightarrow> fuse_in_header \<Rightarrow> bytes \<Rightarrow> ('f, 'fd) std_fs \<times> (errno, unit) result" where
  "StdFs_rmdir H s hdr name =
     with_child s (fh_nodeid hdr) name (\<lambda>p.
       bind_st (on_host (\<lambda>f. ho_remove_dir H f p) s) (\<lambda>s _. (forget_path s p, Ok ())))"

definition StdFs_symlink ::
    "('f, 'fd) host \<Rightarrow> ('f, 'fd) std_fs \<Rightarrow> fuse_in_header \<Rightarrow> bytes \<Rightarrow> bytes \<Rightarrow>
     ('f, 'fd) std_fs \<times> (errno, fuse_entry_out) result" where
  "StdFs_symlink H s hdr name target =
     with_child s (fh_nodeid hdr) name (\<lambda>link.
       case from_utf8 target of
         None \<Rightarrow> (s, Err EINVAL)
       | Some target \<Rightarrow> bind_st (on_host (\<lambda>f. ho_symlink H f target link) s) (\<lambda>s _. entry_for_path H s link))"

definition StdFs_rename ::
    "('f, 'fd) host \<Rightarrow> ('f, 'fd) std_fs \<Rightarrow> fuse_in_header \<Rightarrow> fuse_rename_in \<Rightarrow> bytes \<Rightarrow> bytes \<Rightarrow>
     ('f, 'fd) std_fs \<times> (errno, unit) result" where
  "StdFs_rename H s hdr req old_name new_name =
     with_child s (fh_nodeid hdr) old_name (\<lambda>old_path.
     with_child s (rn_newdir req) new_name (\<lambda>new_path.
       bind_st (on_host (\<lambda>f. ho_rename H f old_path new_path) s) (\<lambda>s _.
         (rebase_paths (ho_walk H (sf_host s)) s old_path new_path, Ok ()))))"

definition StdFs_link ::
    "('f, 'fd) host \<Rightarrow> ('f, 'fd) std_fs \<Rightarrow> fuse_in_header \<Rightarrow> fuse_link_in \<Rightarrow> bytes \<Rightarrow>
     ('f, 'fd) std_fs \<times> (errno, fuse_entry_out) result" where
  "StdFs_link H s hdr req name =
     with_node s (ln_oldnodeid req) (\<lambda>src.
     with_child s (fh_nodeid hdr) name (\<lambda>dst.
       bind_st (on_host (\<lambda>f. ho_hard_link H f src dst) s) (\<lambda>s _. entry_for_path H s dst)))"

definition open_flags_options :: "u32 \<Rightarrow> open_options" where
  "open_flags_options flags =
     (let mode = flags AND O_ACCMODE
      in \<lparr>op_read = (mode \<noteq> O_WRONLY), op_write = (mode = O_WRONLY \<or> mode = O_RDWR),
          op_append = (flags AND O_APPEND \<noteq> 0), op_truncate = (flags AND O_TRUNC \<noteq> 0),
          op_create = (flags AND O_CREAT \<noteq> 0), op_create_new = False\<rparr>)"

definition StdFs_open ::
    "('f, 'fd) host \<Rightarrow> ('f, 'fd) std_fs \<Rightarrow> fuse_in_header \<Rightarrow> fuse_open_in \<Rightarrow>
     ('f, 'fd) std_fs \<times> (errno, fuse_open_out) result" where
  "StdFs_open H s hdr req =
     with_node s (fh_nodeid hdr) (\<lambda>p.
       bind_st (on_host (\<lambda>f. ho_open H f p (open_flags_options (oi_flags req))) s) (\<lambda>s file.
         let (s, fh) = next_fh s
         in (s\<lparr>sf_files := (sf_files s)(fh \<mapsto> file)\<rparr>, Ok \<lparr>oo_fh = fh, oo_open_flags = 0, oo_padding = 0\<rparr>)))"

definition with_file ::
    "('f, 'fd) std_fs \<Rightarrow> u64 \<Rightarrow> ('fd \<Rightarrow> ('f, 'fd) std_fs \<times> (errno, 'a) result) \<Rightarrow> ('f, 'fd) std_fs \<times> (errno, 'a) result" where
  "with_file s fh f = (case sf_files s fh of None \<Rightarrow> (s, Err EBADF) | Some file \<Rightarrow> f file)"

definition StdFs_read ::
    "('f, 'fd) host \<Rightarrow> ('f, 'fd) std_fs \<Rightarrow> fuse_read_in \<Rightarrow> ('f, 'fd) std_fs \<times> (errno, bytes) result" where
  "StdFs_read H s req =
     with_file s (ri_fh req) (\<lambda>file.
       bind_st (on_host (\<lambda>f. ho_seek H f file (ri_offset req)) s) (\<lambda>s _.
       on_host (\<lambda>f. ho_read H f file (unat (ri_size req))) s))"

definition StdFs_write ::
    "('f, 'fd) host \<Rightarrow> ('f, 'fd) std_fs \<Rightarrow> fuse_write_in \<Rightarrow> bytes \<Rightarrow> ('f, 'fd) std_fs \<times> (errno, fuse_write_out) result" where
  "StdFs_write H s req data =
     with_file s (wi_fh req) (\<lambda>file.
       bind_st (on_host (\<lambda>f. ho_seek H f file (wi_offset req)) s) (\<lambda>s _.
       bind_st (on_host (\<lambda>f. ho_write H f file data) s) (\<lambda>s n.
         (s, Ok \<lparr>wo_size = of_nat n, wo_padding = 0\<rparr>))))"

definition StdFs_statfs :: "('f, 'fd) std_fs \<Rightarrow> ('f, 'fd) std_fs \<times> (errno, fuse_statfs_out) result" where
  "StdFs_statfs s =
     (s, Ok \<lparr>so_blocks = 0, so_bfree = 0, so_bavail = 0, so_files = of_nat (card (dom (sf_paths s))), so_ffree = 0,
             so_bsize = 4096, so_namelen = 255, so_frsize = 4096, so_padding = 0, so_spare = replicate 6 0\<rparr>)"

definition StdFs_release ::
    "('f, 'fd) std_fs \<Rightarrow> fuse_release_in \<Rightarrow> ('f, 'fd) std_fs \<times> (errno, unit) result" where
  "StdFs_release s req =
     with_file s (rl_fh req) (\<lambda>_. (s\<lparr>sf_files := (sf_files s)(rl_fh req := None)\<rparr>, Ok ()))"

definition StdFs_fsync ::
    "('f, 'fd) host \<Rightarrow> ('f, 'fd) std_fs \<Rightarrow> fuse_fsync_in \<Rightarrow> ('f, 'fd) std_fs \<times> (errno, unit) result" where
  "StdFs_fsync H s req =
     with_file s (fy_fh req) (\<lambda>file.
       if fy_fsync_flags req AND FUSE_FSYNC_FDATASYNC \<noteq> 0
       then on_host (\<lambda>f. ho_sync_data H f file) s
       else on_host (\<lambda>f. ho_sync_all H f file) s)"

definition StdFs_flush ::
    "('f, 'fd) host \<Rightarrow> ('f, 'fd) std_fs \<Rightarrow> fuse_flush_in \<Rightarrow> ('f, 'fd) std_fs \<times> (errno, unit) result" where
  "StdFs_flush H s req = with_file s (fi_fh req) (\<lambda>file. on_host (\<lambda>f. ho_flush H f file) s)"

definition StdFs_opendir ::
    "('f, 'fd) host \<Rightarrow> ('f, 'fd) std_fs \<Rightarrow> fuse_in_header \<Rightarrow> ('f, 'fd) std_fs \<times> (errno, fuse_open_out) result" where
  "StdFs_opendir H s hdr =
     with_node s (fh_nodeid hdr) (\<lambda>p.
       case map_err io_to_errno (ho_is_dir H (sf_host s) p) of
         Inl e \<Rightarrow> (s, Err e)
       | Inr is_dir \<Rightarrow>
           if \<not> is_dir then (s, Err ENOTDIR)
           else
             let (s, fh) = next_fh s
             in (s\<lparr>sf_dirs := (sf_dirs s)(fh \<mapsto> p)\<rparr>, Ok \<lparr>oo_fh = fh, oo_open_flags = 0, oo_padding = 0\<rparr>))"

definition StdFs_readdir ::
    "('f, 'fd) host \<Rightarrow> ('f, 'fd) std_fs \<Rightarrow> fuse_read_in \<Rightarrow> ('f, 'fd) std_fs \<times> (errno, bytes) result" where
  "StdFs_readdir H s req =
     (case sf_dirs s (ri_fh req) of
        None \<Rightarrow> (s, Err EBADF)
      | Some dir \<Rightarrow> build_dirent_payload H s dir (unat (ri_offset req)) (unat (ri_size req)))"

definition StdFs_releasedir ::
    "('f, 'fd) std_fs \<Rightarrow> fuse_release_in \<Rightarrow> ('f, 'fd) std_fs \<times> (errno, unit) result" where
  "StdFs_releasedir s req =
     (case sf_dirs s (rl_fh req) of
        None \<Rightarrow> (s, Err EBADF)
      | Some _ \<Rightarrow> (s\<lparr>sf_dirs := (sf_dirs s)(rl_fh req := None)\<rparr>, Ok ()))"

definition StdFsHandler :: "('f, 'fd) host \<Rightarrow> ('f, 'fd) std_fs fuse_handler" where
  "StdFsHandler H =
     \<lparr>on_init = \<lambda>s _ req. StdFs_init s req, on_forget = \<lambda>s hdr req. forget_node s (fh_nodeid hdr) (fg_nlookup req),
      on_getattr = \<lambda>s hdr _. StdFs_getattr H s hdr, on_setattr = StdFs_setattr H, on_lookup = StdFs_lookup H,
      on_readlink = StdFs_readlink H, on_mknod = StdFs_mknod H, on_mkdir = StdFs_mkdir H, on_unlink = StdFs_unlink H,
      on_rmdir = StdFs_rmdir H, on_symlink = StdFs_symlink H, on_rename = StdFs_rename H, on_link = StdFs_link H,
      on_open = StdFs_open H, on_read = \<lambda>s _. StdFs_read H s, on_write = \<lambda>s _. StdFs_write H s,
      on_statfs = \<lambda>s _. StdFs_statfs s, on_release = \<lambda>s _. StdFs_release s, on_fsync = \<lambda>s _. StdFs_fsync H s,
      on_flush = \<lambda>s _. StdFs_flush H s, on_opendir = \<lambda>s hdr _. StdFs_opendir H s hdr,
      on_readdir = \<lambda>s _. StdFs_readdir H s, on_releasedir = \<lambda>s _. StdFs_releasedir s,
      on_destroy = \<lambda>s _. StdFs_destroy s\<rparr>"

subsection \<open>A sample session\<close>

text \<open>A host on which every operation succeeds and every directory holds one file \<open>a\<close>; a guest that looks
  the file up, opens the root and lists it from its third entry on.\<close>

definition sample_meta :: file_meta where
  "sample_meta = \<lparr>mt_size = 0, mt_blocks = 0, mt_atime = 0, mt_mtime = 0, mt_ctime = 0, mt_atime_nsec = 0, mt_mtime_nsec = 0,
     mt_ctime_nsec = 0, mt_mode = 0x81A4, mt_nlink = 1, mt_uid = 0, mt_gid = 0, mt_rdev = 0, mt_blksize = 4096\<rparr>"

definition sample_dir_host :: "(unit, unit) host" where
  "sample_dir_host =
     \<lparr>ho_symlink_metadata = \<lambda>f p. Ok sample_meta, ho_is_dir = \<lambda>f p. Ok True, ho_canonicalize = \<lambda>f p. Ok p,
      ho_read_link = \<lambda>f p. Ok [], ho_read_dir = \<lambda>f p. Ok [Ok ([97], Ok IsFile)],
      ho_open = \<lambda>f p o'. (f, Ok ()), ho_set_len = \<lambda>f fd n. (f, Ok ()), ho_set_permissions = \<lambda>f p m. (f, Ok ()),
      ho_create_dir = \<lambda>f p. (f, Ok ()), ho_remove_file = \<lambda>f p. (f, Ok ()), ho_remove_dir = \<lambda>f p. (f, Ok ()),
      ho_symlink = \<lambda>f p q. (f, Ok ()), ho_rename = \<lambda>f p q. (f, Ok ()), ho_hard_link = \<lambda>f p q. (f, Ok ()),
      ho_seek = \<lambda>f fd n. (f, Ok ()), ho_read = \<lambda>f fd n. (f, Ok []), ho_write = \<lambda>f fd bs. (f, Ok (length bs)),
      ho_sync_data = \<lambda>f fd. (f, Ok ()), ho_sync_all = \<lambda>f fd. (f, Ok ()), ho_flush = \<lambda>f fd. (f, Ok ()),
      ho_walk = \<lambda>f. []\<rparr>"

definition sample_header :: "fuse_opcode \<Rightarrow> fuse_in_header" where
  "sample_header opc = \<lparr>fh_len = 0, fh_opcode = opc, fh_unique = 7, fh_nodeid = 1, fh_uid = 0, fh_gid = 0, fh_pid = 0,
     fh_total_extlen = 0, fh_padding = 0\<rparr>"

definition sample_session :: "(fuse_in_header \<times> fuse_request) list" where
  "sample_session =
     [(sample_header Lookup, ReqLookup [97]),
      (sample_header Opendir, ReqOpendir \<lparr>oi_flags = 0, oi_open_flags = 0\<rparr>),
      (sample_header Readdir, ReqReaddir \<lparr>ri_fh = 1, ri_offset = 2, ri_size = 4096, ri_read_flags = 0, ri_lock_owner = 0,
         ri_flags = 0, ri_padding = 0\<rparr>)]"

definition sample_start :: "(unit, unit) std_fs" where
  "sample_start = \<lparr>sf_host = (), sf_nodes = [1 \<mapsto> ''/srv''], sf_paths = [components ''/srv'' \<mapsto> (''/srv'', 1)],
     sf_lookup_counts = [1 \<mapsto> -1], sf_next_node = 2, sf_next_handle = 1, sf_files = Map.empty, sf_dirs = Map.empty\<rparr>"

subsection \<open>Moves\<close>

text \<open>
  Every method changes the tables by a few kinds of moves. A path may be registered when it is that of a
  node or an open directory, a child of one, or the parent of an open directory for which \<open>up\<close>
  holds. \<open>fs_moves up s k\<close> is a sequence of moves from \<open>s\<close> that registers paths and opens handles \<open>k\<close> times.
\<close>

definition child_of :: "string \<Rightarrow> string \<Rightarrow> bool" where
  "child_of base p \<longleftrightarrow> (\<exists>rel w. p = path_join base rel \<and> \<not> is_absolute rel \<and> parts rel = [w] \<and> w \<noteq> ''..'')"

definition nameable :: "(string \<Rightarrow> bool) \<Rightarrow> ('f, 'fd) std_fs \<Rightarrow> string \<Rightarrow> bool" where
  "nameable up s p \<longleftrightarrow>
     (\<exists>base \<in> ran (sf_nodes s) \<union> ran (sf_dirs s). p = base \<or> child_of base p) \<or>
     (\<exists>dir \<in> ran (sf_dirs s). up dir \<and> path_parent dir = Some p)"

inductive fs_moves :: "(string \<Rightarrow> bool) \<Rightarrow> ('f, 'fd) std_fs \<Rightarrow> nat \<Rightarrow> ('f, 'fd) std_fs \<Rightarrow> bool" for up s where
  same: "fs_moves up s 0 s"
| host: "fs_moves up s k t \<Longrightarrow> fs_moves up s k (t\<lparr>sf_host := f\<rparr>)"
| register: "fs_moves up s k t \<Longrightarrow> nameable up t p \<Longrightarrow> fs_moves up s (Suc k) (fst (register_path t p))"
| counts: "fs_moves up s k t \<Longrightarrow> fs_moves up s k (t\<lparr>sf_lookup_counts := c\<rparr>)"
| forget_p: "fs_moves up s k t \<Longrightarrow> fs_moves up s k (forget_path t p)"
| forget_n: "fs_moves up s k t \<Longrightarrow> fs_moves up s k (forget_node t i n)"
| rebase: "fs_moves up s k t \<Longrightarrow> nameable up t old \<Longrightarrow> nameable up t new \<Longrightarrow>
    fs_moves up s k (rebase_paths order t old new)"
| close_file: "fs_moves up s k t \<Longrightarrow> fs_moves up s k (t\<lparr>sf_files := (sf_files t)(fh := None)\<rparr>)"
| open_file: "fs_moves up s k t \<Longrightarrow> fs_moves up s (Suc k)
    (t\<lparr>sf_next_handle := sf_next_handle t + 1, sf_files := (sf_files t)(sf_next_handle t \<mapsto> file)\<rparr>)"
| open_dir: "fs_moves up s k t \<Longrightarrow> nameable up t p \<Longrightarrow> fs_moves up s (Suc k)
    (t\<lparr>sf_next_handle := sf_next_handle t + 1, sf_dirs := (sf_dirs t)(sf_next_handle t \<mapsto> p)\<rparr>)"
| clear: "fs_moves up s k t \<Longrightarrow> fs_moves up s k (StdFs_destroy t)"
| close_dir: "fs_moves up s k t \<Longrightarrow> fs_moves up s k (t\<lparr>sf_dirs := (sf_dirs t)(fh := None)\<rparr>)"

lemma on_host_moves:
  "on_host op t = (t', r) \<Longrightarrow> fs_moves up s k t \<Longrightarrow> fs_moves up s k t'"
  by (auto simp: on_host_def fs_moves.host split: prod.splits)

lemma nameable_host [simp]: "nameable up (s\<lparr>sf_host := f\<rparr>) p = nameable up s p"
  by (simp add: nameable_def)

lemma on_host_nameable: "on_host op t = (t', r) \<Longrightarrow> nameable up t' p = nameable up t p"
  by (auto simp: on_host_def split: prod.splits)

lemma resolve_nameable: "resolve_node s i = Inr p \<Longrightarrow> nameable up s p"
  by (auto simp: resolve_node_def nameable_def ran_def)

lemma child_path_exact:
  assumes "child_path s parent name = Inr p"
  shows "\<exists>base. sf_nodes s parent = Some base \<and> child_of base p"
proof -
  obtain rel base where base: "sf_nodes s parent = Some base" "p = path_join base rel"
    and one: "\<not> (length (components rel) \<noteq> 1 \<or>
      (case components rel of c # _ \<Rightarrow> c \<in> {CurDir, ParentDir, RootDir} | [] \<Rightarrow> True))"
    using assms by (auto simp: child_path_def Let_def and_then_eqs resolve_node_def split: if_splits)
  from one obtain c where c: "components rel = [c]" "c \<notin> {CurDir, ParentDir, RootDir}"
    by (cases "components rel") auto
  then obtain w where "components rel = [Normal w]" by (cases c) auto
  then have "\<not> is_absolute rel" "parts rel = [w]" "w \<noteq> ''..''"
    by (auto simp: components_alt parts_def split: if_splits)
  with base show ?thesis by (auto simp: child_of_def)
qed

lemma child_nameable: "child_path s parent name = Inr p \<Longrightarrow> nameable up s p"
  using child_path_exact by (fastforce simp: nameable_def ran_def)

text \<open>At most \<open>n\<close> registrations and openings.\<close>

definition moves_upto :: "(string \<Rightarrow> bool) \<Rightarrow> nat \<Rightarrow> ('f, 'fd) std_fs \<Rightarrow> ('f, 'fd) std_fs \<Rightarrow> bool" where
  "moves_upto up n s t \<longleftrightarrow> (\<exists>k \<le> n. fs_moves up s k t)"

lemma moves_none: "fs_moves up s 0 t \<Longrightarrow> moves_upto up n s t"
  by (auto simp: moves_upto_def)

lemma moves_same: "moves_upto up n s s"
  by (rule moves_none [OF fs_moves.same])

lemma moves_forget: "fs_moves up s 0 t \<Longrightarrow> moves_upto up n s (forget_path t p)"
  by (rule moves_none [OF fs_moves.forget_p])

lemma moves_rebase:
  "fs_moves up s 0 t \<Longrightarrow> nameable up t old \<Longrightarrow> nameable up t new \<Longrightarrow> moves_upto up n s (rebase_paths order t old new)"
  by (rule moves_none [OF fs_moves.rebase])

lemma moves_with_node:
  "(\<And>p. resolve_node t i = Inr p \<Longrightarrow> moves_upto up n s (fst (f p))) \<Longrightarrow> moves_upto up n s t \<Longrightarrow>
    moves_upto up n s (fst (with_node t i f))"
  by (auto simp: with_node_def split: sum.splits)

lemma moves_with_child:
  "(\<And>p. child_path t i name = Inr p \<Longrightarrow> moves_upto up n s (fst (f p))) \<Longrightarrow> moves_upto up n s t \<Longrightarrow>
    moves_upto up n s (fst (with_child t i name f))"
  by (auto simp: with_child_def split: sum.splits)

lemma moves_with_file:
  "(\<And>file. moves_upto up n s (fst (f file))) \<Longrightarrow> moves_upto up n s t \<Longrightarrow> moves_upto up n s (fst (with_file t fh f))"
  by (auto simp: with_file_def split: option.splits)

lemma moves_host: "fs_moves up s 0 t \<Longrightarrow> moves_upto up n s (fst (on_host op t))"
  by (cases "on_host op t") (auto intro: moves_none on_host_moves)

lemma moves_bind_host:
  assumes "\<And>t' x. on_host op t = (t', Inr x) \<Longrightarrow> fs_moves up s 0 t' \<Longrightarrow> moves_upto up n s (fst (f t' x))"
    and "fs_moves up s 0 t"
  shows "moves_upto up n s (fst (bind_st (on_host op t) f))"
proof (cases "on_host op t")
  case (Pair t' r)
  with assms show ?thesis by (cases r) (auto simp: bind_st_def intro: moves_none on_host_moves)
qed

lemma node_attr_moves:
  assumes "fs_moves up s k t" and "nameable up t p"
  shows "\<exists>j \<le> Suc k. fs_moves up s j (fst (node_attr H t p))"
  using fs_moves.register [OF assms] assms(1)
  by (auto simp: node_attr_def Let_def split: sum.splits prod.splits intro: exI [of _ k] exI [of _ "Suc k"])

lemma entry_for_path_moves:
  assumes "fs_moves up s 0 t" and "nameable up t p"
  shows "moves_upto up (Suc n) s (fst (entry_for_path H t p))"
proof -
  obtain j where j: "j \<le> 1" "fs_moves up s j (fst (node_attr H t p))"
    using node_attr_moves [OF assms] by auto
  obtain u r where u: "node_attr H t p = (u, r)" by fastforce
  have "\<exists>c. fst (entry_for_path H t p) = u \<or> fst (entry_for_path H t p) = u\<lparr>sf_lookup_counts := c\<rparr>"
    by (cases r) (auto simp: entry_for_path_def u bind_st_def Let_def split: prod.splits)
  moreover have "fs_moves up s j u" using j(2) u by simp
  ultimately show ?thesis
    unfolding moves_upto_def using le_trans [OF j(1), of "Suc n"] fs_moves.counts [of up s j u] by fastforce
qed

lemma attr_out_moves:
  assumes "fs_moves up s 0 t" and "nameable up t p"
  shows "moves_upto up (Suc n) s (fst (attr_out H t p))"
proof -
  have "fst (attr_out H t p) = fst (node_attr H t p)"
    by (cases "node_attr H t p"; cases "snd (node_attr H t p)") (auto simp: attr_out_def bind_st_def)
  then show ?thesis using node_attr_moves [OF assms, of H] by (auto simp: moves_upto_def intro: le_trans)
qed

text \<open>The methods, one by one.\<close>

lemmas moves_intros =
  moves_with_node moves_with_child moves_with_file moves_bind_host moves_host moves_same fs_moves.same
  entry_for_path_moves attr_out_moves

lemma mknod_moves: "moves_upto up 1 s (fst (StdFs_mknod H s hdr req name))"
  unfolding StdFs_mknod_def Let_def
  by (auto intro!: moves_intros simp: on_host_nameable child_nameable)

lemma mkdir_moves: "moves_upto up 1 s (fst (StdFs_mkdir H s hdr req name))"
  unfolding StdFs_mkdir_def
  by (auto intro!: moves_intros simp: on_host_nameable child_nameable)

lemma symlink_moves: "moves_upto up 1 s (fst (StdFs_symlink H s hdr name target))"
  unfolding StdFs_symlink_def
  by (auto intro!: moves_intros simp: on_host_nameable child_nameable split: option.splits)

lemma link_moves: "moves_upto up 1 s (fst (StdFs_link H s hdr req name))"
  unfolding StdFs_link_def
  by (auto intro!: moves_intros simp: on_host_nameable child_nameable)

lemma lookup_moves: "moves_upto up 1 s (fst (StdFs_lookup H s hdr name))"
  unfolding StdFs_lookup_def
  by (auto intro!: moves_intros simp: child_nameable)

lemma getattr_moves: "moves_upto up 1 s (fst (StdFs_getattr H s hdr))"
  unfolding StdFs_getattr_def
  by (auto intro!: moves_intros simp: resolve_nameable)

lemma unlink_moves: "moves_upto up 1 s (fst (StdFs_unlink H s hdr name))"
  unfolding StdFs_unlink_def
  by (auto intro!: moves_with_child moves_bind_host moves_same fs_moves.same moves_forget)

lemma rmdir_moves: "moves_upto up 1 s (fst (StdFs_rmdir H s hdr name))"
  unfolding StdFs_rmdir_def
  by (auto intro!: moves_with_child moves_bind_host moves_same fs_moves.same moves_forget)

lemma rename_moves: "moves_upto up 1 s (fst (StdFs_rename H s hdr req old_name new_name))"
  unfolding StdFs_rename_def
  by (auto intro!: moves_with_child moves_bind_host moves_same fs_moves.same moves_rebase
      simp: on_host_nameable child_nameable)

lemma open_moves: "moves_upto up 1 s (fst (StdFs_open H s hdr req))"
proof -
  have "moves_upto up 1 s (t\<lparr>sf_next_handle := sf_next_handle t + 1, sf_files := (sf_files t)(sf_next_handle t \<mapsto> x)\<rparr>)"
    if "fs_moves up s 0 t" for t x
    using fs_moves.open_file [OF that] by (auto simp: moves_upto_def)
  then show ?thesis
    unfolding StdFs_open_def by (auto intro!: moves_with_node moves_bind_host moves_same fs_moves.same simp: next_fh_def)
qed

lemma opendir_moves: "moves_upto up 1 s (fst (StdFs_opendir H s hdr))"
proof -
  have "moves_upto up 1 s (s\<lparr>sf_next_handle := sf_next_handle s + 1, sf_dirs := (sf_dirs s)(sf_next_handle s \<mapsto> p)\<rparr>)"
    if "resolve_node s i = Inr p" for i p
    using fs_moves.open_dir [OF fs_moves.same resolve_nameable [OF that]] by (auto simp: moves_upto_def)
  then show ?thesis
    unfolding StdFs_opendir_def
    by (auto intro!: moves_with_node moves_same simp: next_fh_def split: sum.splits)
qed

lemma setattr_moves: "moves_upto up 1 s (fst (StdFs_setattr H s hdr req))"
proof -
  have inner: "moves_upto up 1 s (fst (bind_st (if b then on_host op t else (t, Ok ())) (\<lambda>t _. if c then (t, Err e) else attr_out H t p)))"
    if "fs_moves up s 0 t" "nameable up t p" for t b c op e p
    using that moves_none [OF that(1), of 1]
    by (cases b) (auto intro!: moves_bind_host attr_out_moves intro: moves_none simp: on_host_nameable bind_st_def [of "(_, Ok ())"])
  show ?thesis
  proof (unfold StdFs_setattr_def, rule moves_with_node, goal_cases)
    case (1 p)
    then have nm: "nameable up s p" by (rule resolve_nameable)
    show ?case
    proof (cases "sa_valid req AND fattr_SIZE \<noteq> 0")
      case True
      have "moves_upto up 1 s (fst (bind_st (bind_st (on_host op s) (\<lambda>s fd. on_host (op' fd) s)) g))"
        if "\<And>t x. fs_moves up s 0 t \<Longrightarrow> nameable up t p \<Longrightarrow> moves_upto up 1 s (fst (g t x))" for op op' g
      proof (cases "on_host op s")
        case (Pair t r)
        have t: "fs_moves up s 0 t" "nameable up t p"
          using on_host_moves [OF Pair fs_moves.same] on_host_nameable [OF Pair] nm by auto
        show ?thesis
        proof (cases r)
          case (Inr fd)
          with Pair t that show ?thesis
            using moves_bind_host [of "op' fd" t up s 1 g] by (auto simp: bind_st_def on_host_nameable)
        qed (use Pair t in \<open>auto simp: bind_st_def intro: moves_none\<close>)
      qed
      from this [OF inner] True show ?thesis by simp
    qed (use inner [OF fs_moves.same nm] in \<open>simp add: bind_st_def\<close>)
  qed (rule moves_same)
qed

text \<open>
  What \<^verbatim>\<open>std::fs::read_dir\<close> promises: no entry for the directory itself or its parent, and names that are
  single components. Directories are taken to have fewer than \<open>2^32\<close> entries.
\<close>

definition plain_name :: "string \<Rightarrow> bool" where
  "plain_name w \<longleftrightarrow> is_part w \<and> w \<noteq> ''..'' \<and> CHR ''/'' \<notin> set w"

definition plain_listings :: "('f, 'fd) host \<Rightarrow> bool" where
  "plain_listings H \<longleftrightarrow>
     (\<forall>f dir rows. ho_read_dir H f dir = Inr rows \<longrightarrow> length rows < 2 ^ 32 \<and>
        (\<forall>name ft. Inr (name, ft) \<in> set rows \<longrightarrow> plain_name (map (\<lambda>b. char_of (unat b)) name)))"

lemma sample_listings: "plain_listings sample_dir_host"
proof -
  have "plain_name [char_of (97::nat)]" by code_simp
  then show ?thesis by (auto simp: plain_listings_def sample_dir_host_def)
qed

lemma sample_new: "StdFsHandler_new sample_dir_host () ''/srv'' = Ok sample_start"
  by (simp add: StdFsHandler_new_def sample_dir_host_def sample_start_def ROOT_NODE_ID_def)

lemma plain_child: "plain_name w \<Longrightarrow> child_of dir (path_join dir w)"
  unfolding child_of_def plain_name_def
  by (rule exI [of _ w], rule exI [of _ w]) (auto simp: parts_def split_slash_simple is_absolute_def split: list.splits)

lemma dir_entries_exact:
  assumes "plain_listings H" and "dir_entries H f dir = Inr rows"
  shows "length rows \<le> 2 ^ 32 + 1 \<and>
    (\<exists>a b rest. rows = a # b # rest \<and> snd (snd a) = dir \<and> snd (snd b) = (case path_parent dir of Some p \<Rightarrow> p | None \<Rightarrow> dir) \<and>
       (\<forall>r \<in> set rest. child_of dir (snd (snd r))))"
proof -
  let ?g = "\<lambda>r. and_then (map_err io_to_errno r) (\<lambda>(name, ftype).
        and_then (map_err io_to_errno ftype) (\<lambda>ftype.
          Ok (utf8_lossy name, file_type_to_dt ftype, path_join dir (map (\<lambda>b. char_of (unat b)) name))))
    :: (errno, bytes \<times> u32 \<times> string) result"
  obtain listed rest where l: "ho_read_dir H f dir = Inr listed" and r: "try_map ?g listed = Inr rest"
    and rows: "rows = (into_bytes ''.'', dt_DIR, dir) #
      (into_bytes ''..'', dt_DIR, (case path_parent dir of Some p \<Rightarrow> p | None \<Rightarrow> dir)) # rest"
    using assms(2) by (auto simp: dir_entries_def and_then_eqs map_err_def split: sum.splits)
  have len: "length rest < 2 ^ 32" using assms(1) l try_map_length [OF r] by (auto simp: plain_listings_def)
  have "child_of dir (snd (snd x))" if x: "x \<in> set rest" for x
  proof -
    obtain i where i: "i < length rest" "x = rest ! i" using x by (metis in_set_conv_nth)
    have "?g (listed ! i) = Inr x" using try_map_nth [OF r, of i] i try_map_length [OF r] by simp
    then obtain name ft where "listed ! i = Inr (name, ft)" "snd (snd x) = path_join dir (map (\<lambda>b. char_of (unat b)) name)"
      by (cases "listed ! i") (auto simp: and_then_eqs)
    moreover from this have "Inr (name, ft) \<in> set listed" using i try_map_length [OF r] by (metis nth_mem)
    moreover from this have "plain_name (map (\<lambda>b. char_of (unat b)) name)"
      using assms(1) l unfolding plain_listings_def by blast
    ultimately show ?thesis using plain_child by metis
  qed
  then show ?thesis using rows len by auto
qed

lemma register_dirs [simp]: "sf_dirs (fst (register_path t p)) = sf_dirs t"
  by (auto simp: register_path_def Let_def split: option.splits)

lemma write_entries_moves:
  assumes "\<forall>r \<in> set rows. \<exists>dir \<in> ran (sf_dirs t). snd (snd r) = dir \<or> child_of dir (snd (snd r)) \<or>
      up dir \<and> path_parent dir = Some (snd (snd r))"
    and "fs_moves up s k t"
  shows "\<exists>j \<le> k + length rows. fs_moves up s j (fst (write_entries idx rows t w))"
  using assms
proof (induction rows arbitrary: idx t w k)
  case (Cons r rows)
  obtain name ft p where r: "r = (name, ft, p)" by (cases r)
  let ?t = "fst (register_path t p)"
  have "nameable up t p" using Cons.prems(1) by (fastforce simp: r nameable_def)
  then have reg: "fs_moves up s (Suc k) ?t" using Cons.prems(2) fs_moves.register by blast
  obtain w' res where push: "FuseDirentWriter_push w (snd (register_path t p)) (of_nat (idx + 1)) ft name = (w', res)"
    by fastforce
  show ?case
  proof (cases res)
    case Inl
    then show ?thesis using reg push by (auto simp: r split: prod.splits intro!: exI [of _ "Suc k"])
  next
    case Inr
    have "\<exists>j \<le> Suc k + length rows. fs_moves up s j (fst (write_entries (idx + 1) rows ?t w'))"
      using Cons.prems(1) reg by (intro Cons.IH) auto
    then show ?thesis using Inr push by (auto simp: r split: prod.splits)
  qed
qed auto

definition readdir_allowed :: "(string \<Rightarrow> bool) \<Rightarrow> ('f, 'fd) std_fs \<Rightarrow> fuse_in_header \<Rightarrow> fuse_request \<Rightarrow> bool" where
  "readdir_allowed up s hdr req =
     (case req of
        ReqReaddir body \<Rightarrow>
          (case sf_dirs s (ri_fh body) of Some dir \<Rightarrow> up dir \<or> 2 \<le> unat (ri_offset body) | None \<Rightarrow> True)
      | _ \<Rightarrow> True)"

definition LISTING_MAX :: nat where "LISTING_MAX = 2 ^ 32 + 1"

lemma readdir_moves:
  assumes "plain_listings H" and "readdir_allowed up s hdr (ReqReaddir req)"
  shows "moves_upto up LISTING_MAX s (fst (StdFs_readdir H s req))"
proof (cases "sf_dirs s (ri_fh req)")
  case None
  then show ?thesis by (simp add: StdFs_readdir_def moves_same)
next
  case (Some dir)
  then have dir: "dir \<in> ran (sf_dirs s)" by (auto simp: ran_def)
  show ?thesis
  proof (cases "dir_entries H (sf_host s) dir")
    case Inl
    with Some show ?thesis by (simp add: StdFs_readdir_def build_dirent_payload_def moves_same)
  next
    case (Inr rows)
    let ?start = "unat (ri_offset req)"
    obtain a b rest where rows: "rows = a # b # rest" "snd (snd a) = dir"
      "snd (snd b) = (case path_parent dir of Some p \<Rightarrow> p | None \<Rightarrow> dir)" "\<forall>r \<in> set rest. child_of dir (snd (snd r))"
      and len: "length rows \<le> LISTING_MAX"
      using dir_entries_exact [OF assms(1) Inr] unfolding LISTING_MAX_def by blast
    have up: "up dir \<or> 2 \<le> ?start" using assms(2) Some by (simp add: readdir_allowed_def)
    have "\<exists>dir \<in> ran (sf_dirs s). snd (snd r) = dir \<or> child_of dir (snd (snd r)) \<or>
      up dir \<and> path_parent dir = Some (snd (snd r))" if "r \<in> set (drop ?start rows)" for r
    proof -
      consider "r = a" | "r = b" "?start < 2" | "r \<in> set rest"
      proof (cases "2 \<le> ?start")
        case True
        then have "drop ?start rows = drop (?start - 2) rest" by (simp add: rows drop_Cons' numeral_2_eq_2)
        then show ?thesis using that that(1) \<open>r \<in> set (drop ?start rows)\<close> by (metis in_set_dropD)
      next
        case False
        then show ?thesis using that \<open>r \<in> set (drop ?start rows)\<close> in_set_dropD [of r ?start rows] by (auto simp: rows)
      qed
      then show ?thesis using rows up dir by cases (auto split: option.splits)
    qed
    then obtain j where "j \<le> length (drop ?start rows)"
      "fs_moves up s j (fst (write_entries ?start (drop ?start rows) s (FuseDirentWriter_with_capacity (unat (ri_size req)))))"
      using write_entries_moves [OF _ fs_moves.same, of "drop ?start rows" s up] by force
    moreover from this have "j \<le> LISTING_MAX" using len by simp
    ultimately show ?thesis
      using Some Inr by (auto simp: StdFs_readdir_def build_dirent_payload_def moves_upto_def split: prod.splits)
  qed
qed

lemma moves_more: "moves_upto up 1 s t \<Longrightarrow> moves_upto up LISTING_MAX s t"
proof -
  have "1 \<le> LISTING_MAX" by (simp add: LISTING_MAX_def)
  then show "moves_upto up 1 s t \<Longrightarrow> moves_upto up LISTING_MAX s t" unfolding moves_upto_def by (meson le_trans)
qed

lemma handle_moves:
  "moves_upto up n s (forget_node s i k)" "moves_upto up n s (StdFs_destroy s)"
  "moves_upto up n s (s\<lparr>sf_files := (sf_files s)(fh := None)\<rparr>)"
  "moves_upto up n s (s\<lparr>sf_dirs := (sf_dirs s)(fh := None)\<rparr>)"
  using fs_moves.forget_n [OF fs_moves.same] fs_moves.clear [OF fs_moves.same] fs_moves.close_file [OF fs_moves.same]
    fs_moves.close_dir [OF fs_moves.same] by (blast intro: moves_none)+

lemma file_moves:
  "moves_upto up n s (fst (StdFs_readlink H s hdr))" "moves_upto up n s (fst (StdFs_read H s r))"
  "moves_upto up n s (fst (StdFs_write H s wr data))" "moves_upto up n s (fst (StdFs_release s rl))"
  "moves_upto up n s (fst (StdFs_fsync H s fy))" "moves_upto up n s (fst (StdFs_flush H s fl))"
  "moves_upto up n s (fst (StdFs_releasedir s rl))"
  by (auto simp: StdFs_readlink_def StdFs_read_def StdFs_write_def StdFs_release_def StdFs_fsync_def StdFs_flush_def
      StdFs_releasedir_def handle_moves moves_same split: option.splits
      intro!: moves_with_node moves_with_file moves_bind_host moves_host fs_moves.same intro: moves_none)

lemma dispatch_moves:
  assumes "plain_listings H" and "readdir_allowed up s hdr req"
  shows "moves_upto up LISTING_MAX s (fst (fuse_dispatch (StdFsHandler H) s hdr req))"
proof (cases req)
  case (ReqReaddir body)
  then show ?thesis
    using readdir_moves [OF assms(1), of up s hdr body] assms(2)
    by (simp add: fuse_dispatch_def StdFsHandler_def answer_with_simps Let_def)
qed (auto intro!: moves_more mknod_moves mkdir_moves symlink_moves link_moves lookup_moves getattr_moves unlink_moves
    rmdir_moves rename_moves open_moves opendir_moves setattr_moves moves_same handle_moves file_moves
    simp: fuse_dispatch_def StdFsHandler_def answer_with_simps Let_def StdFs_init_def StdFs_statfs_def)

subsection \<open>The tables stay consistent\<close>

definition links :: "(u64 \<rightharpoonup> string) \<Rightarrow> (path_component list \<rightharpoonup> string \<times> u64) \<Rightarrow> bool" where
  "links nodes paths \<longleftrightarrow>
     (\<forall>c p i. paths c = Some (p, i) \<longrightarrow> components p = c \<and> (\<exists>q. nodes i = Some q \<and> components q = c))"

definition table_ok :: "('f, 'fd) std_fs \<Rightarrow> bool" where
  "table_ok s \<longleftrightarrow> links (sf_nodes s) (sf_paths s) \<and> (\<forall>i \<in> dom (sf_nodes s). i < sf_next_node s) \<and>
     (\<forall>h \<in> dom (sf_files s) \<union> dom (sf_dirs s). h < sf_next_handle s) \<and> dom (sf_files s) \<inter> dom (sf_dirs s) = {}"

lemma paths_insert_cases:
  "paths_insert p i m c = Some (q, j) \<Longrightarrow>
    (c = components p \<and> j = i \<and> (q = p \<or> (\<exists>k. m c = Some (q, k)))) \<or> (c \<noteq> components p \<and> m c = Some (q, j))"
  by (auto simp: paths_insert_def split: option.splits if_splits)

lemma linksI: "(\<And>c p i. paths c = Some (p, i) \<Longrightarrow> components p = c \<and> (\<exists>q. nodes i = Some q \<and> components q = c)) \<Longrightarrow> links nodes paths"
  by (auto simp: links_def)

lemma linksD: "links nodes paths \<Longrightarrow> paths c = Some (p, i) \<Longrightarrow> components p = c \<and> (\<exists>q. nodes i = Some q \<and> components q = c)"
  by (auto simp: links_def)

lemma links_drop: "links nodes paths \<Longrightarrow> links nodes (paths(c := None))"
  by (auto intro!: linksI dest: linksD split: if_splits)

lemma links_forget: "links nodes paths \<Longrightarrow> nodes i = Some p \<Longrightarrow> links (nodes(i := None)) (paths(components p := None))"
  by (rule linksI) (auto dest!: linksD split: if_splits)

lemma links_insert:
  assumes "links nodes paths" and "\<And>c q j. c \<noteq> components p \<Longrightarrow> paths c = Some (q, j) \<Longrightarrow> j \<noteq> i"
  shows "links (nodes(i \<mapsto> p)) (paths_insert p i paths)"
proof (rule linksI)
  fix c q j
  assume "paths_insert p i paths c = Some (q, j)"
  from paths_insert_cases [OF this] show "components q = c \<and> (\<exists>r. (nodes(i \<mapsto> p)) j = Some r \<and> components r = c)"
  proof (elim disjE conjE exE)
    fix k
    assume "c = components p" "j = i" "paths c = Some (q, k)"
    then show ?thesis using linksD [OF assms(1)] by simp
  next
    assume "c \<noteq> components p" "paths c = Some (q, j)"
    then show ?thesis using linksD [OF assms(1)] assms(2) by simp
  qed auto
qed

lemma table_ok_paths:
  assumes "table_ok s" and "sf_paths s c = Some (p, i)"
  shows "components p = c \<and> (\<exists>q. sf_nodes s i = Some q \<and> components q = c) \<and> i < sf_next_node s"
  using linksD [of "sf_nodes s" "sf_paths s" c p i] assms by (auto simp: table_ok_def)

lemma word_inc:
  fixes n :: u64
  assumes "unat n + 1 < 2 ^ 64"
  shows "unat (n + 1) = unat n + 1" "i < n + 1 \<longleftrightarrow> i < n \<or> i = n"
proof -
  show "unat (n + 1) = unat n + 1" using assms by (simp add: unat_word_ariths)
  then show "i < n + 1 \<longleftrightarrow> i < n \<or> i = n" by (auto simp: word_less_nat_alt word_unat_eq_iff)
qed

lemma register_table_ok:
  assumes "table_ok s" and "unat (sf_next_node s) + 1 < 2 ^ 64"
  shows "table_ok (fst (register_path s p))"
proof (cases "sf_paths s (components p)")
  case None
  have "j \<noteq> sf_next_node s" if "sf_paths s c = Some (q, j)" for c q j
    using table_ok_paths [OF assms(1) that] by auto
  then have "links ((sf_nodes s)(sf_next_node s \<mapsto> p)) (paths_insert p (sf_next_node s) (sf_paths s))"
    using assms(1) by (intro links_insert) (auto simp: table_ok_def)
  then show ?thesis
    using None assms by (auto simp: table_ok_def register_path_def Let_def word_inc(2))
qed (use assms in \<open>auto simp: register_path_def\<close>)

lemma drop_path_ok:
  "table_ok s \<Longrightarrow> sf_nodes s i = Some p \<Longrightarrow>
    table_ok (s\<lparr>sf_nodes := (sf_nodes s)(i := None), sf_paths := (sf_paths s)(components p := None)\<rparr>)"
  using links_forget [of "sf_nodes s" "sf_paths s" i p] by (auto simp: table_ok_def)

lemma table_ok_counts [simp]: "table_ok (s\<lparr>sf_lookup_counts := c\<rparr>) = table_ok s"
  by (simp add: table_ok_def)

lemma table_ok_host [simp]: "table_ok (s\<lparr>sf_host := f\<rparr>) = table_ok s"
  by (simp add: table_ok_def)

lemma forget_node_ok: "table_ok s \<Longrightarrow> table_ok (forget_node s i n)"
  using drop_path_ok [of s i] by (auto simp: forget_node_def Let_def split: option.splits)

lemma forget_path_ok:
  assumes "table_ok s"
  shows "table_ok (forget_path s p)"
proof (cases "sf_paths s (components p)")
  case (Some e)
  obtain k i where e: "e = (k, i)" by (cases e)
  obtain q where "sf_nodes s i = Some q" "components q = components p"
    using table_ok_paths [OF assms] Some e by blast
  moreover have "forget_path s p = (s\<lparr>sf_nodes := (sf_nodes s)(i := None), sf_paths := (sf_paths s)(components p := None)\<rparr>)
      \<lparr>sf_lookup_counts := (sf_lookup_counts s)(i := None)\<rparr>"
    by (simp add: forget_path_def Some e)
  ultimately show ?thesis using drop_path_ok [OF assms, of i q] by simp
qed (use assms in \<open>simp add: forget_path_def\<close>)

lemma rebase_one_ok:
  assumes "table_ok s"
  shows "table_ok (rebase_one old_base new_base old s)"
proof (cases "sf_paths s (components old)")
  case (Some e)
  obtain k i where e: "e = (k, i)" by (cases e)
  obtain q where q: "sf_nodes s i = Some q" "components q = components old" "i < sf_next_node s"
    using table_ok_paths [OF assms] Some e by blast
  show ?thesis
  proof (cases "path_strip_prefix old old_base")
    case None
    then have "rebase_one old_base new_base old s = s\<lparr>sf_paths := (sf_paths s)(components old := None)\<rparr>"
      using Some e by (simp add: rebase_one_def)
    then show ?thesis using assms links_drop by (simp add: table_ok_def)
  next
    case (Some rest)
    let ?new = "path_join new_base rest"
    let ?m = "(sf_paths s)(components old := None)"
    have "j \<noteq> i" if "?m c = Some (r, j)" for c r j
      using table_ok_paths [OF assms, of c r j] q(1,2) that by (auto split: if_splits)
    then have "links ((sf_nodes s)(i \<mapsto> ?new)) (paths_insert ?new i ?m)"
      using assms by (intro links_insert links_drop) (auto simp: table_ok_def)
    moreover have "rebase_one old_base new_base old s =
        s\<lparr>sf_paths := paths_insert ?new i ?m, sf_nodes := (sf_nodes s)(i \<mapsto> ?new)\<rparr>"
      using \<open>sf_paths s (components old) = Some e\<close> e Some by (simp add: rebase_one_def Let_def)
    ultimately show ?thesis using assms q(3) by (auto simp: table_ok_def)
  qed
qed (use assms in \<open>simp add: rebase_one_def\<close>)

lemma rebase_one_counters [simp]:
  "sf_next_node (rebase_one a b c s) = sf_next_node s" "sf_next_handle (rebase_one a b c s) = sf_next_handle s"
  "sf_dirs (rebase_one a b c s) = sf_dirs s"
  by (auto simp: rebase_one_def Let_def split: option.splits)

lemma fold_rebase:
  "(\<And>old s. old \<in> set ps \<Longrightarrow> P s \<Longrightarrow> P (rebase_one a b old s)) \<Longrightarrow> P s \<Longrightarrow> P (fold (rebase_one a b) ps s)"
  by (induction ps arbitrary: s) auto

lemma rebase_paths_ok: "table_ok s \<Longrightarrow> table_ok (rebase_paths order s a b)"
  unfolding rebase_paths_def Let_def by (rule fold_rebase) (auto intro: rebase_one_ok)

lemma rebase_paths_counters [simp]:
  "sf_next_node (rebase_paths order s a b) = sf_next_node s"
  "sf_next_handle (rebase_paths order s a b) = sf_next_handle s"
  "sf_dirs (rebase_paths order s a b) = sf_dirs s"
proof -
  have "sf_next_node u = sf_next_node s \<and> sf_next_handle u = sf_next_handle s \<and> sf_dirs u = sf_dirs s"
    if "u = rebase_paths order s a b" for u
    unfolding that rebase_paths_def Let_def by (rule fold_rebase) auto
  from this [OF refl] show "sf_next_node (rebase_paths order s a b) = sf_next_node s"
    "sf_next_handle (rebase_paths order s a b) = sf_next_handle s" "sf_dirs (rebase_paths order s a b) = sf_dirs s" by auto
qed

lemma forget_counters [simp]:
  "sf_next_node (forget_node s i n) = sf_next_node s" "sf_next_handle (forget_node s i n) = sf_next_handle s"
  "sf_next_node (forget_path s p) = sf_next_node s" "sf_next_handle (forget_path s p) = sf_next_handle s"
  "sf_dirs (forget_node s i n) = sf_dirs s" "sf_dirs (forget_path s p) = sf_dirs s"
  by (auto simp: forget_node_def forget_path_def Let_def split: option.splits)

lemma destroy_ok: "table_ok s \<Longrightarrow> table_ok (StdFs_destroy s)"
  by (auto simp: table_ok_def links_def StdFs_destroy_def Let_def split: option.splits if_splits)

lemma destroy_counters [simp]:
  "sf_next_node (StdFs_destroy s) = sf_next_node s" "sf_next_handle (StdFs_destroy s) = sf_next_handle s"
  by (auto simp: StdFs_destroy_def Let_def split: option.splits)

lemma register_counters:
  "sf_next_node (fst (register_path s p)) \<in> {sf_next_node s, sf_next_node s + 1}"
  "sf_next_handle (fst (register_path s p)) = sf_next_handle s"
  by (auto simp: register_path_def Let_def split: option.splits)

lemma open_table_ok:
  assumes "table_ok t" and "unat (sf_next_handle t) + 1 < 2 ^ 64"
  shows "table_ok (t\<lparr>sf_next_handle := sf_next_handle t + 1, sf_files := (sf_files t)(sf_next_handle t \<mapsto> file)\<rparr>)"
    and "table_ok (t\<lparr>sf_next_handle := sf_next_handle t + 1, sf_dirs := (sf_dirs t)(sf_next_handle t \<mapsto> p)\<rparr>)"
  using assms(1) unfolding table_ok_def by (auto simp: word_inc(2) [OF assms(2)])

lemma close_table_ok:
  assumes "table_ok t"
  shows "table_ok (t\<lparr>sf_files := (sf_files t)(fh := None)\<rparr>)" "table_ok (t\<lparr>sf_dirs := (sf_dirs t)(fh := None)\<rparr>)"
  using assms unfolding table_ok_def by auto

lemma moves_table_ok:
  assumes "fs_moves up s k t" and "table_ok s" and "unat (sf_next_node s) + k < 2 ^ 64" and "unat (sf_next_handle s) + k < 2 ^ 64"
  shows "table_ok t \<and> unat (sf_next_node t) \<le> unat (sf_next_node s) + k \<and> unat (sf_next_handle t) \<le> unat (sf_next_handle s) + k"
  using assms
proof (induction rule: fs_moves.induct)
  case (register k t p)
  then have t: "table_ok t" "unat (sf_next_node t) \<le> unat (sf_next_node s) + k" "unat (sf_next_handle t) \<le> unat (sf_next_handle s) + k"
    by simp_all
  have room: "unat (sf_next_node t) + 1 < 2 ^ 64" using t(2) register.prems(2) by linarith
  have "unat (sf_next_node (fst (register_path t p))) \<le> unat (sf_next_node t) + 1"
    using register_counters(1) [of t p] word_inc(1) [OF room] by (elim insertE) simp_all
  then show ?case
    using register_table_ok [OF t(1) room, of p] register_counters(2) [of t p] t(2,3) by simp
next
  case (open_file k t fd)
  then have t: "table_ok t" "unat (sf_next_node t) \<le> unat (sf_next_node s) + k" "unat (sf_next_handle t) \<le> unat (sf_next_handle s) + k"
    by simp_all
  have room: "unat (sf_next_handle t) + 1 < 2 ^ 64" using t(3) open_file.prems(3) by linarith
  show ?case using open_table_ok(1) [OF t(1) room] word_inc(1) [OF room] t(2,3) by simp
next
  case (open_dir k t p)
  then have t: "table_ok t" "unat (sf_next_node t) \<le> unat (sf_next_node s) + k" "unat (sf_next_handle t) \<le> unat (sf_next_handle s) + k"
    by simp_all
  have room: "unat (sf_next_handle t) + 1 < 2 ^ 64" using t(3) open_dir.prems(3) by linarith
  show ?case using open_table_ok(2) [OF t(1) room] word_inc(1) [OF room] t(2,3) by simp
next
  case (close_file k t fh)
  then show ?case by (simp add: close_table_ok)
next
  case (close_dir k t fh)
  then show ?case by (simp add: close_table_ok)
qed (simp_all add: forget_node_ok forget_path_ok rebase_paths_ok destroy_ok)

text \<open>A session of at most \<open>2^31\<close> requests cannot exhaust the 64-bit counters.\<close>

definition tables_inv :: "('f, 'fd) host \<Rightarrow> nat \<Rightarrow> ('f, 'fd) std_fs \<Rightarrow> bool" where
  "tables_inv H n s \<longleftrightarrow> plain_listings H \<and>
     (n \<le> 2 ^ 31 \<longrightarrow> table_ok s \<and> unat (sf_next_node s) \<le> 2 + n * LISTING_MAX \<and> unat (sf_next_handle s) \<le> 2 + n * LISTING_MAX)"

lemma listing_room: "n \<le> 2 ^ 31 \<Longrightarrow> 2 + n * LISTING_MAX + LISTING_MAX < 2 ^ 64"
  by (simp add: LISTING_MAX_def)

interpretation std_table: fuse_session "StdFsHandler H" "tables_inv H" "readdir_allowed (\<lambda>_. True)"
  for H :: "('f, 'fd) host"
proof (unfold_locales, goal_cases)
  case (1 n s hdr req)
  let ?t = "fst (fuse_dispatch (StdFsHandler H) s hdr req)"
  have plain: "plain_listings H" using 1 by (simp add: tables_inv_def)
  obtain k where k: "k \<le> LISTING_MAX" and m: "fs_moves (\<lambda>_. True) s k ?t"
    using dispatch_moves [OF plain 1(2)] by (auto simp: moves_upto_def)
  show ?case
  proof (cases "Suc n \<le> 2 ^ 31")
    case True
    then have s: "table_ok s" "unat (sf_next_node s) \<le> 2 + n * LISTING_MAX" "unat (sf_next_handle s) \<le> 2 + n * LISTING_MAX"
      and room: "2 + n * LISTING_MAX + LISTING_MAX < 2 ^ 64"
      using 1(1) listing_room [of n] unfolding tables_inv_def by simp_all
    have "table_ok ?t \<and> unat (sf_next_node ?t) \<le> unat (sf_next_node s) + k \<and> unat (sf_next_handle ?t) \<le> unat (sf_next_handle s) + k"
      using moves_table_ok [OF m s(1)] s(2,3) room k by linarith
    with s(2,3) k plain show ?thesis by (auto simp: tables_inv_def)
  qed (use plain in \<open>simp add: tables_inv_def\<close>)
qed

lemma new_state:
  assumes "StdFsHandler_new H f dir = Inr s"
  shows "\<exists>root. ho_canonicalize H f dir = Inr root \<and> sf_nodes s = [1 \<mapsto> root] \<and> sf_paths s = [components root \<mapsto> (root, 1)] \<and>
    sf_next_node s = 2 \<and> sf_next_handle s = 1 \<and> sf_files s = Map.empty \<and> sf_dirs s = Map.empty"
  using assms by (auto simp: StdFsHandler_new_def and_then_eqs ROOT_NODE_ID_def split: if_splits)

lemma any_readdir: "all_allowed H (readdir_allowed (\<lambda>_. True)) s rs"
  by (induction rs arbitrary: s) (auto simp: readdir_allowed_def split: fuse_request.splits option.splits)



subsection \<open>Paths stay below the root\<close>

definition below :: "string \<Rightarrow> string \<Rightarrow> bool" where
  "below root p \<longleftrightarrow> is_absolute p \<and> (\<exists>ws. parts p = parts root @ ws \<and> ''..'' \<notin> set ws)"

definition confined :: "string \<Rightarrow> ('f, 'fd) std_fs \<Rightarrow> bool" where
  "confined root s \<longleftrightarrow> is_absolute root \<and> (\<forall>p \<in> ran (sf_nodes s) \<union> ran (sf_dirs s). below root p) \<and>
     (\<forall>c p i. sf_paths s c = Some (p, i) \<longrightarrow> below root p)"

lemma below_components: "is_absolute root \<Longrightarrow> below root p \<Longrightarrow> \<exists>ws. components p = components root @ map Normal ws"
  unfolding below_def by (auto simp: components_absolute) (metis map_classify_Normal)

lemma below_child: "below root base \<Longrightarrow> child_of base p \<Longrightarrow> below root p"
  by (auto simp: below_def child_of_def parts_join)

lemma below_parent:
  assumes "is_absolute root" and "below root d" and "components d \<noteq> components root" and "path_parent d = Some p"
  shows "below root p"
proof -
  obtain ws where ws: "parts d = parts root @ ws" "''..'' \<notin> set ws" "is_absolute d" using assms(2) by (auto simp: below_def)
  have "ws \<noteq> []" using assms(1,3) ws by (auto simp: components_absolute)
  then show ?thesis
    using parent_parts [OF assms(4) ws(3)] ws by (auto simp: below_def butlast_append dest: in_set_butlastD)
qed

lemma confined_nameable:
  assumes "confined root s" and "nameable (\<lambda>d. components d \<noteq> components root) s p"
  shows "below root p"
  using assms below_child below_parent unfolding confined_def nameable_def by blast

lemma below_rebase:
  assumes "below root old" and "below root old_base" and "below root new_base" and "path_strip_prefix old old_base = Some rest"
  shows "below root (path_join new_base rest)"
proof -
  obtain us vs ws where u: "parts old = parts root @ us" "''..'' \<notin> set us" and v: "parts old_base = parts root @ vs"
    and w: "parts new_base = parts root @ ws" "''..'' \<notin> set ws" "is_absolute new_base"
    using assms(1-3) by (auto simp: below_def)
  have "parts rest = drop (length vs) us" "\<not> is_absolute rest"
    using strip_prefix_parts [OF assms(4)] u v by auto
  then show ?thesis using w u parts_join [of new_base rest] by (auto simp: below_def dest: in_set_dropD)
qed

lemma ran_upd: "p \<in> ran (m(k \<mapsto> q)) \<Longrightarrow> p = q \<or> p \<in> ran m" "p \<in> ran (m(k := None)) \<Longrightarrow> p \<in> ran m"
  by (auto simp: ran_def split: if_splits)

lemma confined_rebase_one:
  assumes "confined root s" and "below root old" and "below root old_base" and "below root new_base"
  shows "confined root (rebase_one old_base new_base old s)"
proof (cases "sf_paths s (components old)")
  case (Some e)
  obtain k i where e: "e = (k, i)" by (cases e)
  show ?thesis
  proof (cases "path_strip_prefix old old_base")
    case None
    then have "rebase_one old_base new_base old s = s\<lparr>sf_paths := (sf_paths s)(components old := None)\<rparr>"
      using Some e by (simp add: rebase_one_def)
    then show ?thesis using assms(1) by (simp add: confined_def)
  next
    case (Some rest)
    let ?new = "path_join new_base rest"
    have new: "below root ?new" using below_rebase assms(2-4) Some by blast
    have "below root r" if "paths_insert ?new i ((sf_paths s)(components old := None)) c = Some (r, j)" for c r j
      using paths_insert_cases [OF that] assms(1) new by (auto simp: confined_def split: if_splits)
    moreover have "rebase_one old_base new_base old s =
        s\<lparr>sf_paths := paths_insert ?new i ((sf_paths s)(components old := None)), sf_nodes := (sf_nodes s)(i \<mapsto> ?new)\<rparr>"
      using \<open>sf_paths s (components old) = Some e\<close> e Some by (simp add: rebase_one_def Let_def)
    ultimately show ?thesis
      using assms(1) new by (auto simp: confined_def dest!: ran_upd)
  qed
qed (use assms in \<open>simp add: rebase_one_def\<close>)

lemma confined_rebase:
  assumes "confined root s" and "below root a" and "below root b"
  shows "confined root (rebase_paths order s a b)"
proof -
  let ?ps = "filter (\<lambda>p. path_starts_with p a) (map fst (List.map_filter (sf_paths s) order))"
  have ps: "below root p" if p: "p \<in> set ?ps" for p
  proof -
    obtain c e where "sf_paths s c = Some e" "p = fst e" using p by (auto simp: List.map_filter_def)
    with assms(1) show ?thesis unfolding confined_def by (metis prod.collapse)
  qed
  show ?thesis
    unfolding rebase_paths_def Let_def
    by (rule fold_rebase [where P = "confined root"]) (use assms ps confined_rebase_one in blast)+
qed

lemma confined_register: "confined root s \<Longrightarrow> below root p \<Longrightarrow> confined root (fst (register_path s p))"
  by (auto simp: confined_def register_path_def Let_def split: option.splits if_splits dest!: ran_upd paths_insert_cases)

lemma confined_forget:
  assumes "confined root s"
  shows "confined root (forget_node s i n)" and "confined root (forget_path s p)"
  using assms
  by (auto simp: confined_def forget_node_def forget_path_def Let_def split: option.splits if_splits dest!: ran_upd)

lemma confined_destroy: "confined root s \<Longrightarrow> confined root (StdFs_destroy s)"
  by (auto simp: confined_def StdFs_destroy_def Let_def ran_def split: option.splits if_splits)

lemma confined_simps [simp]:
  "confined root (s\<lparr>sf_host := f\<rparr>) = confined root s" "confined root (s\<lparr>sf_lookup_counts := c\<rparr>) = confined root s"
  "confined root (s\<lparr>sf_files := g\<rparr>) = confined root s" "confined root (s\<lparr>sf_next_handle := n\<rparr>) = confined root s"
  by (simp_all add: confined_def)

lemma confined_close: "confined root s \<Longrightarrow> confined root (s\<lparr>sf_dirs := (sf_dirs s)(fh := None)\<rparr>)"
  by (auto simp: confined_def dest!: ran_upd)

lemma moves_confined:
  assumes "fs_moves (\<lambda>d. components d \<noteq> components root) s k t" and "confined root s"
  shows "confined root t"
  using assms
proof (induction rule: fs_moves.induct)
  case (rebase k t old new order)
  then have t: "confined root t" by simp
  show ?case by (rule confined_rebase [OF t confined_nameable [OF t rebase.hyps(2)] confined_nameable [OF t rebase.hyps(3)]])
next
  case (register k t p)
  then have t: "confined root t" by simp
  show ?case by (rule confined_register [OF t confined_nameable [OF t register.hyps(2)]])
next
  case (open_dir k t p)
  then have t: "confined root t" by simp
  from confined_nameable [OF t open_dir.hyps(2)] t show ?case by (auto simp: confined_def dest!: ran_upd)
next
  case (host k t f)
  then show ?case by simp
next
  case (counts k t c)
  then show ?case by simp
qed (simp_all add: confined_forget confined_destroy confined_close)

interpretation std_confined: fuse_session "StdFsHandler H" "\<lambda>_ s. plain_listings H \<and> confined root s"
    "readdir_allowed (\<lambda>d. components d \<noteq> components root)"
  for H :: "('f, 'fd) host" and root
proof (unfold_locales, goal_cases)
  case (1 n s hdr req)
  then obtain k where "fs_moves (\<lambda>d. components d \<noteq> components root) s k (fst (fuse_dispatch (StdFsHandler H) s hdr req))"
    using dispatch_moves [of H _ s hdr req] unfolding moves_upto_def by blast
  with 1 show ?case using moves_confined by blast
qed

text \<open>
  C17: Every path the handler uses lies below the shared directory, lexically, as long as the guest does
  not read the first two entries of the root's own listing: after any session of requests, each node and each open directory
  names the root followed by plain components, and so does every child a request can name, one
  component longer. (Links inside the directory are followed by the host.)
\<close>

theorem std_fs_confined:
  assumes "StdFsHandler_new H f dir = Ok s0" and "plain_listings H"
    and "ho_canonicalize H f dir = Ok root" and "is_absolute root"
    and "all_allowed (StdFsHandler H) (readdir_allowed (\<lambda>d. components d \<noteq> components root)) s0 rs"
  shows "(\<forall>p \<in> ran (sf_nodes (fuse_run (StdFsHandler H) s0 rs)) \<union> ran (sf_dirs (fuse_run (StdFsHandler H) s0 rs)).
        \<exists>ws. components p = components root @ map Normal ws) \<and>
    (\<forall>i name p. child_path (fuse_run (StdFsHandler H) s0 rs) i name = Ok p \<longrightarrow>
        (\<exists>ws. components p = components root @ map Normal ws \<and> ws \<noteq> []))"
proof -
  let ?s = "fuse_run (StdFsHandler H) s0 rs"
  have "below root root" using assms(4) by (simp add: below_def)
  then have "confined root s0"
    using new_state [OF assms(1)] assms(3,4) by (auto simp: confined_def ran_def split: if_splits)
  then have c: "confined root ?s"
    using std_confined.run_inv [of H root s0 rs] assms(2,5) by simp
  have "\<exists>ws. components p = components root @ map Normal ws \<and> ws \<noteq> []" if named: "child_path ?s i name = Ok p" for i name p
  proof -
    obtain base where b: "sf_nodes ?s i = Some base" "child_of base p" using child_path_exact [OF named] by blast
    then have "below root base" using c by (auto simp: confined_def ran_def)
    then obtain us where "is_absolute base" "parts base = parts root @ us" "''..'' \<notin> set us" by (auto simp: below_def)
    moreover obtain rel w where "p = path_join base rel" "\<not> is_absolute rel" "parts rel = [w]" "w \<noteq> ''..''"
      using b(2) by (auto simp: child_of_def)
    ultimately have "components p = components root @ map Normal (us @ [w])"
      using assms(4) map_classify_Normal [of "us @ [w]" "us @ [w]"] by (simp add: components_absolute parts_join)
    then show ?thesis by blast
  qed
  with c show ?thesis using below_components [OF assms(4)] by (simp add: confined_def)
qed

lemma sample_allowed: "all_allowed (StdFsHandler sample_dir_host) (readdir_allowed up) sample_start sample_session"
  by (simp add: sample_session_def readdir_allowed_def split: option.split)

theorem std_fs_confined_witness:
  "\<exists>p ws. child_path (fuse_run (StdFsHandler sample_dir_host) sample_start sample_session) 1 [98] = Ok p \<and>
     components p = components ''/srv'' @ map Normal ws \<and> ws \<noteq> []"
proof -
  let ?t = "fst (StdFs_opendir sample_dir_host (fst (StdFs_lookup sample_dir_host sample_start (sample_header Lookup) [97]))
    (sample_header Opendir))"
  have "sf_dirs ?t 1 = Some ''/srv''" by code_simp
  moreover have "dir_entries sample_dir_host () ''/srv'' = Ok [([46], 4, ''/srv''), ([46, 46], 4, ''/''), ([97], 8, ''/srv/a'')]"
    by code_simp
  ultimately have "fst (StdFs_readdir sample_dir_host ?t req) = fst (register_path ?t ''/srv/a'')"
    if "ri_fh req = 1" "ri_offset req = 2" for req
    using that by (simp add: StdFs_readdir_def build_dirent_payload_def split: prod.split sum.split)
  moreover have "child_path (fst (register_path ?t ''/srv/a'')) 1 [98] = Ok ''/srv/b''" by code_simp
  ultimately have named: "child_path (fuse_run (StdFsHandler sample_dir_host) sample_start sample_session) 1 [98] = Ok ''/srv/b''"
    by (simp add: sample_session_def fuse_dispatch_def StdFsHandler_def answer_with_simps)
  have root: "ho_canonicalize sample_dir_host () ''/srv'' = Ok ''/srv''" "is_absolute ''/srv''"
    by (simp_all add: sample_dir_host_def is_absolute_def)
  show ?thesis using std_fs_confined [OF sample_new sample_listings root sample_allowed] named by blast
qed

subsection \<open>Where the handler leaves the directory\<close>

text \<open>
  The listing of the root has an entry for its parent, and the handler registers a node for every entry it
  lists: reading from the second entry on gives the guest a node for the directory above the root, in
  which it can look up, create and remove names like in any other.
\<close>

lemma register_knows: "\<exists>i k. sf_paths (fst (register_path s p)) (components p) = Some (k, i)"
  by (auto simp: register_path_def Let_def paths_insert_def split: option.splits)

lemma register_keeps: "sf_paths s c = Some e \<Longrightarrow> sf_paths (fst (register_path s p)) c = Some e"
  by (cases "sf_paths s (components p)") (auto simp: register_path_def Let_def paths_insert_def)

lemma write_entries_keeps: "sf_paths s c = Some e \<Longrightarrow> sf_paths (fst (write_entries idx rows s w)) c = Some e"
proof (induction idx rows s w rule: write_entries.induct)
  case (2 idx name ftype p rows s w)
  then show ?case
    using register_keeps [OF "2.prems", of p] by (auto simp: Let_def split: prod.splits sum.splits)
qed simp

lemma readdir_names_parent:
  assumes "sf_dirs s (ri_fh req) = Some root" and "path_parent root = Some par" and "unat (ri_offset req) = 1"
    and "StdFs_readdir H s req = (s', Inr bytes)"
  shows "sf_paths s' (components par) \<noteq> None"
proof -
  obtain rows where rows: "dir_entries H (sf_host s) root = Inr rows"
    using assms by (auto simp: StdFs_readdir_def build_dirent_payload_def split: sum.splits)
  then obtain a b rest where r: "rows = a # b # rest" "snd (snd b) = par"
    using assms(2) by (auto simp: dir_entries_def and_then_eqs)
  obtain n ft where b: "b = (n, ft, par)" using r(2) by (cases b) auto
  have s': "s' = fst (write_entries 1 (b # rest) s (FuseDirentWriter_with_capacity (unat (ri_size req))))"
    using assms rows r(1) by (auto simp: StdFs_readdir_def build_dirent_payload_def split: prod.splits)
  obtain i k where "sf_paths (fst (register_path s par)) (components par) = Some (k, i)"
    using register_knows by blast
  then show ?thesis
    using write_entries_keeps [of "fst (register_path s par)"]
    by (auto simp: s' b Let_def split: prod.splits sum.splits)
qed

text \<open>
  Renaming rewrites the node's own path with an empty rest, which joins as a trailing separator: the host
  then resolves the node's path as a directory.
\<close>

lemma rename_adds_separator:
  assumes "sf_paths s (components old) = Some (k, i)" and "new \<noteq> []" and "last new \<noteq> CHR ''/''"
  shows "sf_nodes (rebase_one old new old s) i = Some (new @ ''/'')"
proof -
  have "filter is_part (drop_parts (length (filter is_part (split_slash old))) (split_slash old)) = []"
    by (simp add: filter_drop_parts)
  then have "drop_parts (length (filter is_part (split_slash old))) (split_slash old) = []"
    using hd_drop_parts by (metis filter.simps(2) list.discI list.exhaust_sel)
  then have "path_strip_prefix old old = Some []"
    by (simp add: path_strip_prefix_def path_starts_with_def trim_parts_def join_slash_def)
  then show ?thesis using assms by (simp add: rebase_one_def Let_def path_join_def is_absolute_def)
qed

text \<open>An unsupported attribute is refused only after the size has been changed.\<close>

lemma setattr_truncates_then_fails:
  assumes "sf_nodes s (fh_nodeid hdr) = Some p" and "sa_valid req AND fattr_SIZE \<noteq> 0" and "sa_valid req AND fattr_MODE = 0"
    and "sa_valid req AND NOT (fattr_SIZE OR fattr_MODE) \<noteq> 0"
    and "ho_open H (sf_host s) p opened_for_write = (f1, Inr fd)" and "ho_set_len H f1 fd (sa_size req) = (f2, Inr ())"
  shows "StdFs_setattr H s hdr req = (s\<lparr>sf_host := f2\<rparr>, Err ENOSYS)"
  using assms by (simp add: StdFs_setattr_def with_node_def resolve_node_def on_host_def bind_st_def)

end
