(* ===== verification/Net_Device.thy ===== *)
theory Net_Device
  imports Virtio_Mmio Guest_Memory
begin

text \<open>
  The virtio-net device around its queues: the packet header (\<^verbatim>\<open>crates/virtio-net/src/header.rs\<close>),
  the register block (\<^verbatim>\<open>mmio.rs\<close>), the backend trait with its in-memory implementation
  (\<^verbatim>\<open>lib.rs\<close>, \<^verbatim>\<open>mock.rs\<close>) and the device that owns a transport and a backend
  (\<^verbatim>\<open>device.rs\<close>). The transport is a second copy of the vsock one over the same struct; its
  operations are shown to be the same functions, so that the contract of the queue registers and
  everything proved from it hold for both.
\<close>

subsection \<open>The packet header\<close>

definition VIRTIO_NET_HDR_LEN :: nat where "VIRTIO_NET_HDR_LEN = 12"
definition VIRTIO_NET_HDR_GSO_NONE :: u8 where "VIRTIO_NET_HDR_GSO_NONE = 0"

record virtio_net_hdr =
  nh_flags :: u8
  nh_gso_type :: u8
  nh_hdr_len :: u16
  nh_gso_size :: u16
  nh_csum_start :: u16
  nh_csum_offset :: u16
  nh_num_buffers :: u16

datatype header_error = ShortHeader nat nat | ShortBuffer nat nat

definition no_offload :: virtio_net_hdr where
  "no_offload = \<lparr>nh_flags = 0, nh_gso_type = VIRTIO_NET_HDR_GSO_NONE, nh_hdr_len = 0, nh_gso_size = 0,
     nh_csum_start = 0, nh_csum_offset = 0, nh_num_buffers = 1\<rparr>"

definition VirtioNetHdr_from_bytes :: "bytes \<Rightarrow> (header_error, virtio_net_hdr) result" where
  "VirtioNetHdr_from_bytes buf =
     (if length buf < VIRTIO_NET_HDR_LEN then Err (ShortHeader (length buf) VIRTIO_NET_HDR_LEN)
      else Ok \<lparr>nh_flags = buf ! 0, nh_gso_type = buf ! 1, nh_hdr_len = from_le (slice_at 2 2 buf),
               nh_gso_size = from_le (slice_at 4 2 buf), nh_csum_start = from_le (slice_at 6 2 buf),
               nh_csum_offset = from_le (slice_at 8 2 buf), nh_num_buffers = from_le (slice_at 10 2 buf)\<rparr>)"

definition VirtioNetHdr_write_to :: "virtio_net_hdr \<Rightarrow> bytes \<Rightarrow> (header_error, nat \<times> bytes) result" where
  "VirtioNetHdr_write_to h buf =
     (if length buf < VIRTIO_NET_HDR_LEN then Err (ShortBuffer (length buf) VIRTIO_NET_HDR_LEN)
      else let buf = buf[0 := nh_flags h];
               buf = buf[1 := nh_gso_type h];
               buf = copy_into 2 (to_le 2 (nh_hdr_len h)) buf;
               buf = copy_into 4 (to_le 2 (nh_gso_size h)) buf;
               buf = copy_into 6 (to_le 2 (nh_csum_start h)) buf;
               buf = copy_into 8 (to_le 2 (nh_csum_offset h)) buf;
               buf = copy_into 10 (to_le 2 (nh_num_buffers h)) buf
           in Ok (VIRTIO_NET_HDR_LEN, buf))"

definition VirtioNetHdr_to_bytes :: "virtio_net_hdr \<Rightarrow> bytes" where
  "VirtioNetHdr_to_bytes h =
     (let out = replicate VIRTIO_NET_HDR_LEN 0;
          out = out[0 := nh_flags h];
          out = out[1 := nh_gso_type h];
          out = copy_into 2 (to_le 2 (nh_hdr_len h)) out;
          out = copy_into 4 (to_le 2 (nh_gso_size h)) out;
          out = copy_into 6 (to_le 2 (nh_csum_start h)) out;
          out = copy_into 8 (to_le 2 (nh_csum_offset h)) out;
          out = copy_into 10 (to_le 2 (nh_num_buffers h)) out
      in out)"

lemma update_copy: "i < length b \<Longrightarrow> b[i := v] = copy_into i [v] b"
  by (simp add: copy_into_def upd_conv_take_nth_drop)

lemma single_slice: "i < length b \<Longrightarrow> slice_at i 1 b = [b ! i]"
  by (simp add: slice_at_def take_Suc_conv_app_nth Cons_nth_drop_Suc [symmetric])

interpretation net_header: le_struct VirtioNetHdr_from_bytes VirtioNetHdr_write_to VirtioNetHdr_to_bytes VIRTIO_NET_HDR_LEN
  "\<lambda>n. ShortHeader n VIRTIO_NET_HDR_LEN" "\<lambda>n. ShortBuffer n VIRTIO_NET_HDR_LEN"
  "\<lambda>h. [[nh_flags h], [nh_gso_type h], to_le 2 (nh_hdr_len h), to_le 2 (nh_gso_size h), to_le 2 (nh_csum_start h),
    to_le 2 (nh_csum_offset h), to_le 2 (nh_num_buffers h)]"
  "[1, 1, 2, 2, 2, 2, 2]" "\<lambda>_. True"
proof (unfold_locales, goal_cases)
  case (5 b)
  then have "0 < length b" unfolding VIRTIO_NET_HDR_LEN_def by linarith
  with 5 show ?case
    using single_slice [of 0 b] single_slice [of 1 b]
    by (auto simp: VirtioNetHdr_from_bytes_def VIRTIO_NET_HDR_LEN_def le_roundtrip_bytes simp del: One_nat_def)
next
  case (7 x b)
  then have "0 < length b" unfolding VIRTIO_NET_HDR_LEN_def by linarith
  with 7 show ?case
    by (auto simp: VirtioNetHdr_write_to_def VIRTIO_NET_HDR_LEN_def Let_def update_copy simp del: One_nat_def)
      (simp add: eval_nat_numeral)
qed (auto simp: VirtioNetHdr_from_bytes_def VirtioNetHdr_write_to_def VirtioNetHdr_to_bytes_def VIRTIO_NET_HDR_LEN_def
    Let_def to_le_inject written_buf_def)

subsection \<open>Registers\<close>

definition VIRTIO_ID_NET :: u32 where "VIRTIO_ID_NET = 1"
definition VIRTIO_NET_F_MAC :: u64 where "VIRTIO_NET_F_MAC = push_bit 5 1"
definition VIRTIO_NET_F_STATUS :: u64 where "VIRTIO_NET_F_STATUS = push_bit 16 1"
definition VIRTIO_NET_S_LINK_UP :: u16 where "VIRTIO_NET_S_LINK_UP = push_bit 0 1"
definition VIRTIO_NET_NUM_QUEUES :: nat where "VIRTIO_NET_NUM_QUEUES = 2"
definition RX_QUEUE_INDEX :: u32 where "RX_QUEUE_INDEX = 0"
definition TX_QUEUE_INDEX :: u32 where "TX_QUEUE_INDEX = 1"
definition VIRTIO_MMIO_INT_CONFIG :: u32 where "VIRTIO_MMIO_INT_CONFIG = 2"
definition CONFIG_SIZE :: nat where "CONFIG_SIZE = 12"

definition new_net :: "bytes \<Rightarrow> mmio_transport" where
  "new_net mac =
     (let config = replicate CONFIG_SIZE 0;
          config = copy_into 0 mac config;
          config = copy_into 6 (to_le 2 VIRTIO_NET_S_LINK_UP) config;
          config = copy_into 8 (to_le 2 (1 :: u16)) config;
          config = copy_into 10 (to_le 2 (0 :: u16)) config
      in \<lparr>mt_device_id = VIRTIO_ID_NET,
          mt_device_features = VIRTIO_F_VERSION_1 OR VIRTIO_NET_F_MAC OR VIRTIO_NET_F_STATUS,
          mt_config = config, mt_device_features_sel = 0, mt_driver_features = 0, mt_driver_features_sel = 0,
          mt_status = 0, mt_queue_sel = 0, mt_queues = replicate VIRTIO_NET_NUM_QUEUES QueueConfig_default,
          mt_interrupt_status = 0, mt_config_generation = 0, mt_pending_notify = None\<rparr>)"

definition net_negotiated_features :: "mmio_transport \<Rightarrow> u64" where
  "net_negotiated_features t = mt_device_features t AND mt_driver_features t"

definition raise_vring_interrupt :: "mmio_transport \<Rightarrow> mmio_transport" where
  "raise_vring_interrupt t = t\<lparr>mt_interrupt_status := mt_interrupt_status t OR VIRTIO_MMIO_INT_VRING\<rparr>"

definition raise_config_interrupt :: "mmio_transport \<Rightarrow> mmio_transport" where
  "raise_config_interrupt t = t\<lparr>mt_interrupt_status := mt_interrupt_status t OR VIRTIO_MMIO_INT_CONFIG\<rparr>"

definition set_link_status :: "mmio_transport \<Rightarrow> u16 \<Rightarrow> mmio_transport" where
  "set_link_status t status =
     t\<lparr>mt_config := copy_into 6 (to_le 2 status) (mt_config t), mt_config_generation := mt_config_generation t + 1\<rparr>"

definition net_driver_ok :: "mmio_transport \<Rightarrow> bool" where
  "net_driver_ok t = (mt_status t AND STATUS_DRIVER_OK \<noteq> 0)"

definition net_queue :: "mmio_transport \<Rightarrow> nat \<Rightarrow> queue_config option" where
  "net_queue t index = (if index < length (mt_queues t) then Some (mt_queues t ! index) else None)"

definition net_take_notify :: "mmio_transport \<Rightarrow> mmio_transport \<times> u32 option" where
  "net_take_notify t = (t\<lparr>mt_pending_notify := None\<rparr>, mt_pending_notify t)"

definition net_interrupt_asserted :: "mmio_transport \<Rightarrow> bool" where
  "net_interrupt_asserted t = (mt_interrupt_status t \<noteq> 0)"

definition net_set_low :: "u64 \<Rightarrow> u32 \<Rightarrow> u64" where
  "net_set_low addr low = (addr AND 0xffffffff00000000) OR ucast low"

definition net_set_high :: "u64 \<Rightarrow> u32 \<Rightarrow> u64" where
  "net_set_high addr high = (addr AND 0x00000000ffffffff) OR push_bit 32 (ucast high)"

definition net_read_device_features :: "mmio_transport \<Rightarrow> u32" where
  "net_read_device_features t =
     (if mt_device_features_sel t = 0 then ucast (mt_device_features t)
      else if mt_device_features_sel t = 1 then ucast (drop_bit 32 (mt_device_features t))
      else 0)"

definition net_write_driver_features :: "mmio_transport \<Rightarrow> u32 \<Rightarrow> mmio_transport" where
  "net_write_driver_features t v =
     (if mt_driver_features_sel t = 0
      then t\<lparr>mt_driver_features := (mt_driver_features t AND 0xffffffff00000000) OR ucast v\<rparr>
      else if mt_driver_features_sel t = 1
      then t\<lparr>mt_driver_features := (mt_driver_features t AND 0x00000000ffffffff) OR push_bit 32 (ucast v)\<rparr>
      else t)"

definition net_reset :: "mmio_transport \<Rightarrow> mmio_transport" where
  "net_reset t =
     t\<lparr>mt_status := 0, mt_driver_features := 0, mt_driver_features_sel := 0,
       mt_device_features_sel := 0, mt_queue_sel := 0, mt_interrupt_status := 0,
       mt_pending_notify := None, mt_queues := map (\<lambda>q. QueueConfig_default) (mt_queues t)\<rparr>"

definition net_write_status :: "mmio_transport \<Rightarrow> u32 \<Rightarrow> mmio_transport" where
  "net_write_status t v = (if v = 0 then net_reset t else t\<lparr>mt_status := v\<rparr>)"

definition net_current_queue :: "mmio_transport \<Rightarrow> queue_config option" where
  "net_current_queue t =
     (if unat (mt_queue_sel t) < length (mt_queues t)
      then Some (mt_queues t ! unat (mt_queue_sel t)) else None)"

definition net_with_current_queue :: "mmio_transport \<Rightarrow> (queue_config \<Rightarrow> queue_config) \<Rightarrow> mmio_transport" where
  "net_with_current_queue t f =
     (let i = unat (mt_queue_sel t) in
      if i < length (mt_queues t) then t\<lparr>mt_queues := (mt_queues t)[i := f (mt_queues t ! i)]\<rparr> else t)"

definition net_config_index :: "u64 \<Rightarrow> nat \<Rightarrow> nat" where
  "net_config_index off i = unat (off + of_nat i)"

definition net_read_config :: "mmio_transport \<Rightarrow> u64 \<Rightarrow> nat \<Rightarrow> u64" where
  "net_read_config t off sz =
     fold (\<lambda>i out.
        let k = net_config_index off i;
            byte = (if k < length (mt_config t) then mt_config t ! k else 0)
        in out OR push_bit (8 * i mod 64) (ucast byte)) [0..<sz] 0"

definition net_put_byte :: "u64 \<Rightarrow> (nat \<Rightarrow> u8) \<Rightarrow> nat \<Rightarrow> bytes \<times> bool \<Rightarrow> bytes \<times> bool" where
  "net_put_byte off f i p =
     (let (config, wrote) = p; k = net_config_index off i
      in if k < length config then (config[k := f i], True) else (config, wrote))"

definition net_write_config :: "mmio_transport \<Rightarrow> u64 \<Rightarrow> nat \<Rightarrow> u64 \<Rightarrow> mmio_transport" where
  "net_write_config t off sz value =
     (let (config, wrote) =
            fold (net_put_byte off (\<lambda>i. ucast (drop_bit (8 * i mod 64) value))) [0..<sz] (mt_config t, False);
          t = t\<lparr>mt_config := config\<rparr>
      in if wrote then t\<lparr>mt_config_generation := mt_config_generation t + 1\<rparr> else t)"

definition net_mmio_read :: "mmio_transport \<Rightarrow> u64 \<Rightarrow> nat \<Rightarrow> u64" where
  "net_mmio_read t offset sz =
     (if offset \<ge> reg_CONFIG_SPACE then net_read_config t (offset - reg_CONFIG_SPACE) sz
      else
        let val =
          (if offset = reg_MAGIC then VIRTIO_MMIO_MAGIC
           else if offset = reg_VERSION then VIRTIO_MMIO_VERSION
           else if offset = reg_DEVICE_ID then mt_device_id t
           else if offset = reg_VENDOR_ID then NANOVM_VENDOR_ID
           else if offset = reg_DEVICE_FEATURES then net_read_device_features t
           else if offset = reg_QUEUE_NUM_MAX then QUEUE_SIZE_MAX
           else if offset = reg_QUEUE_READY
             then (case net_current_queue t of Some q \<Rightarrow> of_bool (qc_ready q) | None \<Rightarrow> 0)
           else if offset = reg_INTERRUPT_STATUS then mt_interrupt_status t
           else if offset = reg_STATUS then mt_status t
           else if offset = reg_CONFIG_GENERATION then mt_config_generation t
           else 0)
        in ucast val)"

definition net_mmio_write :: "mmio_transport \<Rightarrow> u64 \<Rightarrow> nat \<Rightarrow> u64 \<Rightarrow> mmio_transport" where
  "net_mmio_write t offset sz value =
     (if offset \<ge> reg_CONFIG_SPACE then net_write_config t (offset - reg_CONFIG_SPACE) sz value
      else
        let v = ucast value in
        if offset = reg_DEVICE_FEATURES_SEL then t\<lparr>mt_device_features_sel := v\<rparr>
        else if offset = reg_DRIVER_FEATURES then net_write_driver_features t v
        else if offset = reg_DRIVER_FEATURES_SEL then t\<lparr>mt_driver_features_sel := v\<rparr>
        else if offset = reg_QUEUE_SEL then t\<lparr>mt_queue_sel := v\<rparr>
        else if offset = reg_QUEUE_NUM then net_with_current_queue t (\<lambda>q. q\<lparr>qc_size := v\<rparr>)
        else if offset = reg_QUEUE_READY then net_with_current_queue t (\<lambda>q. q\<lparr>qc_ready := (v AND 1 \<noteq> 0)\<rparr>)
        else if offset = reg_QUEUE_NOTIFY then t\<lparr>mt_pending_notify := Some v\<rparr>
        else if offset = reg_INTERRUPT_ACK
          then t\<lparr>mt_interrupt_status := mt_interrupt_status t AND NOT v\<rparr>
        else if offset = reg_STATUS then net_write_status t v
        else if offset = reg_QUEUE_DESC_LOW
          then net_with_current_queue t (\<lambda>q. q\<lparr>qc_desc := net_set_low (qc_desc q) v\<rparr>)
        else if offset = reg_QUEUE_DESC_HIGH
          then net_with_current_queue t (\<lambda>q. q\<lparr>qc_desc := net_set_high (qc_desc q) v\<rparr>)
        else if offset = reg_QUEUE_DRIVER_LOW
          then net_with_current_queue t (\<lambda>q. q\<lparr>qc_driver := net_set_low (qc_driver q) v\<rparr>)
        else if offset = reg_QUEUE_DRIVER_HIGH
          then net_with_current_queue t (\<lambda>q. q\<lparr>qc_driver := net_set_high (qc_driver q) v\<rparr>)
        else if offset = reg_QUEUE_DEVICE_LOW
          then net_with_current_queue t (\<lambda>q. q\<lparr>qc_device := net_set_low (qc_device q) v\<rparr>)
        else if offset = reg_QUEUE_DEVICE_HIGH
          then net_with_current_queue t (\<lambda>q. q\<lparr>qc_device := net_set_high (qc_device q) v\<rparr>)
        else t)"

lemma net_is_vsock_transport:
  "net_driver_ok = driver_ok" "net_queue = mmio_queue" "net_take_notify = take_notify"
  "net_interrupt_asserted = interrupt_asserted" "net_set_low = set_low" "net_set_high = set_high"
  "net_read_device_features = read_device_features" "net_write_driver_features = write_driver_features"
  "net_reset = mmio_reset" "net_write_status = write_status" "net_current_queue = current_queue"
  "net_with_current_queue = with_current_queue" "net_config_index = config_index" "net_read_config = read_config"
  "net_put_byte = put_byte" "net_write_config = write_config"
  "net_mmio_read = mmio_read" "net_mmio_write = mmio_write"
proof -
  show r: "net_driver_ok = driver_ok" "net_queue = mmio_queue" "net_take_notify = take_notify"
    "net_interrupt_asserted = interrupt_asserted" "net_set_low = set_low" "net_set_high = set_high"
    "net_read_device_features = read_device_features" "net_write_driver_features = write_driver_features"
    "net_reset = mmio_reset" "net_current_queue = current_queue" "net_with_current_queue = with_current_queue"
    "net_config_index = config_index"
    by (intro ext, simp only: net_driver_ok_def driver_ok_def net_queue_def mmio_queue_def net_take_notify_def take_notify_def
        net_interrupt_asserted_def interrupt_asserted_def net_set_low_def set_low_def net_set_high_def set_high_def
        net_read_device_features_def read_device_features_def net_write_driver_features_def write_driver_features_def
        net_reset_def mmio_reset_def net_current_queue_def current_queue_def net_with_current_queue_def with_current_queue_def
        net_config_index_def config_index_def)+
  show s: "net_write_status = write_status" "net_read_config = read_config" "net_put_byte = put_byte"
    by (intro ext, simp only: net_write_status_def write_status_def net_read_config_def read_config_def
        net_put_byte_def put_byte_def r)+
  show w: "net_write_config = write_config"
    by (intro ext, simp only: net_write_config_def write_config_def s)
  show "net_mmio_read = mmio_read" "net_mmio_write = mmio_write"
    by (intro ext, simp only: net_mmio_read_def mmio_read_def net_mmio_write_def mmio_write_def r s w)+
qed

interpretation net_regs: queue_registers net_mmio_write net_queue mt_queue_sel
  unfolding net_is_vsock_transport by (rule vsock_regs.queue_registers_axioms)

subsection \<open>Backends\<close>

text \<open>
  A backend reads a frame into the caller's buffer and says how many bytes it wrote. Its errors are
  those of the crate; \<open>Panic\<close> stands for a slice out of range, which ends the program.
\<close>

datatype 'io net_error = Io 'io | InvalidIfName string string | Header header_error | Queue queue_error | Panic

record ('io, 'b) net_backend =
  nb_read_frame :: "'b \<Rightarrow> bytes \<Rightarrow> 'b \<times> ('io net_error, nat \<times> bytes) result"
  nb_write_frame :: "'b \<Rightarrow> bytes \<Rightarrow> 'b \<times> ('io net_error, unit) result"

text \<open>
  The contract of a backend: a read keeps the buffer's length, fills a prefix of it, and leaves the
  frames already sent alone; \<open>sent\<close> is the log of the frames written, which a write extends.
\<close>

locale frame_backend =
  fixes B :: "('io, 'b) net_backend"
    and sent :: "'b \<Rightarrow> bytes list"
  assumes read_fits: "nb_read_frame B b buf = (b', Inr (n, buf')) \<Longrightarrow> n \<le> length buf \<and> length buf' = length buf"
    and read_sent: "sent (fst (nb_read_frame B b buf)) = sent b"
    and write_Ok: "nb_write_frame B b frame = (b', Inr ()) \<Longrightarrow> sent b' = sent b @ [frame]"
    and write_Err: "nb_write_frame B b frame = (b', Inl e) \<Longrightarrow> sent b' = sent b"

record mock_backend =
  mb_rx :: "bytes list"
  mb_tx :: "bytes list"

definition MockBackend_new :: mock_backend where
  "MockBackend_new = \<lparr>mb_rx = [], mb_tx = []\<rparr>"

definition inject_rx :: "mock_backend \<Rightarrow> bytes \<Rightarrow> mock_backend" where
  "inject_rx b frame = b\<lparr>mb_rx := mb_rx b @ [frame]\<rparr>"

definition pop_tx :: "mock_backend \<Rightarrow> mock_backend \<times> bytes option" where
  "pop_tx b = (case mb_tx b of [] \<Rightarrow> (b, None) | f # fs \<Rightarrow> (b\<lparr>mb_tx := fs\<rparr>, Some f))"

definition queue_depths :: "mock_backend \<Rightarrow> nat \<times> nat" where
  "queue_depths b = (length (mb_rx b), length (mb_tx b))"

definition MockBackend_read_frame :: "mock_backend \<Rightarrow> bytes \<Rightarrow> mock_backend \<times> ('io net_error, nat \<times> bytes) result" where
  "MockBackend_read_frame b buf =
     (case mb_rx b of
        [] \<Rightarrow> (b, Ok (0, buf))
      | frame # rx \<Rightarrow>
          let n = min (length frame) (length buf)
          in (b\<lparr>mb_rx := rx\<rparr>, Ok (n, copy_into 0 (take n frame) buf)))"

definition MockBackend_write_frame :: "mock_backend \<Rightarrow> bytes \<Rightarrow> mock_backend \<times> ('io net_error, unit) result" where
  "MockBackend_write_frame b frame = (b\<lparr>mb_tx := mb_tx b @ [frame]\<rparr>, Ok ())"

definition mock_ops :: "('io, mock_backend) net_backend" where
  "mock_ops = \<lparr>nb_read_frame = MockBackend_read_frame, nb_write_frame = MockBackend_write_frame\<rparr>"

interpretation mock_net: frame_backend mock_ops mb_tx
  by unfold_locales
    (auto simp: mock_ops_def MockBackend_read_frame_def MockBackend_write_frame_def Let_def split: list.splits)

text \<open>Frames come out in the order they were put in, cut to the reader's buffer.\<close>

lemma mock_read_next:
  "mb_rx b = frame # rx \<Longrightarrow> \<exists>buf'. nb_read_frame mock_ops b buf =
     (b\<lparr>mb_rx := rx\<rparr>, Ok (min (length frame) (length buf), buf')) \<and>
     take (min (length frame) (length buf)) buf' = take (length buf) frame"
  by (auto simp: mock_ops_def MockBackend_read_frame_def Let_def copy_into_def min_def)

subsection \<open>The device\<close>

record 'b virtio_net_device =
  nd_transport :: mmio_transport
  nd_backend :: 'b
  nd_mac :: bytes

definition VirtioNetDevice_with_backend_arc :: "'b \<Rightarrow> bytes \<Rightarrow> 'b virtio_net_device" where
  "VirtioNetDevice_with_backend_arc backend mac = \<lparr>nd_transport = new_net mac, nd_backend = backend, nd_mac = mac\<rparr>"

definition VirtioNetDevice_new :: "'b \<Rightarrow> bytes \<Rightarrow> 'b virtio_net_device" where
  "VirtioNetDevice_new backend mac = VirtioNetDevice_with_backend_arc backend mac"

definition VirtioNetDevice_driver_ok :: "'b virtio_net_device \<Rightarrow> bool" where
  "VirtioNetDevice_driver_ok d = net_driver_ok (nd_transport d)"

definition VirtioNetDevice_negotiated_features :: "'b virtio_net_device \<Rightarrow> u64" where
  "VirtioNetDevice_negotiated_features d = net_negotiated_features (nd_transport d)"

definition VirtioNetDevice_interrupt_asserted :: "'b virtio_net_device \<Rightarrow> bool" where
  "VirtioNetDevice_interrupt_asserted d = net_interrupt_asserted (nd_transport d)"

definition VirtioNetDevice_mmio_read :: "'b virtio_net_device \<Rightarrow> u64 \<Rightarrow> nat \<Rightarrow> u64" where
  "VirtioNetDevice_mmio_read d offset sz = net_mmio_read (nd_transport d) offset sz"

definition VirtioNetDevice_mmio_write ::
    "'b virtio_net_device \<Rightarrow> u64 \<Rightarrow> nat \<Rightarrow> u64 \<Rightarrow> 'b virtio_net_device \<times> u32 option" where
  "VirtioNetDevice_mmio_write d offset sz val =
     (let (t, q) = net_take_notify (net_mmio_write (nd_transport d) offset sz val)
      in (d\<lparr>nd_transport := t\<rparr>, q))"

definition VirtioNetDevice_raise_vring_interrupt :: "'b virtio_net_device \<Rightarrow> 'b virtio_net_device" where
  "VirtioNetDevice_raise_vring_interrupt d = d\<lparr>nd_transport := raise_vring_interrupt (nd_transport d)\<rparr>"

definition VirtioNetDevice_status :: "'b virtio_net_device \<Rightarrow> u32" where
  "VirtioNetDevice_status d = mt_status (nd_transport d)"

definition device_writes :: "(u64 \<times> nat \<times> u64) list \<Rightarrow> 'b virtio_net_device \<Rightarrow> 'b virtio_net_device" where
  "device_writes ws d = fold (\<lambda>(off, sz, v) d. fst (VirtioNetDevice_mmio_write d off sz v)) ws d"

subsection \<open>Properties\<close>

lemma same_device_taken: "same_device t u \<Longrightarrow> same_device t (fst (take_notify u))"
  by (simp add: same_device_def take_notify_def)

lemma device_writes_same:
  "same_device (nd_transport d) (nd_transport (device_writes ws d)) \<and> nd_backend (device_writes ws d) = nd_backend d \<and>
   nd_mac (device_writes ws d) = nd_mac d"
  unfolding device_writes_def
proof (induction ws arbitrary: d)
  case Nil
  then show ?case by (simp add: same_device_def)
next
  case (Cons w ws)
  let ?e = "fst (VirtioNetDevice_mmio_write d (fst w) (fst (snd w)) (snd (snd w)))"
  have "same_device (nd_transport d) (nd_transport ?e)" "nd_backend ?e = nd_backend d" "nd_mac ?e = nd_mac d"
    using same_device_taken [OF mmio_write_same [of "nd_transport d" "fst w" "fst (snd w)" "snd (snd w)"]]
    by (simp_all add: VirtioNetDevice_mmio_write_def net_is_vsock_transport split_beta)
  with Cons [of ?e] show ?case by (auto simp: split_beta intro: same_device_trans)
qed

lemma kick_if:
  "(b \<Longrightarrow> mt_pending_notify u = None) \<Longrightarrow> (\<not> b \<Longrightarrow> mt_pending_notify v = None) \<Longrightarrow>
    mt_pending_notify (if b then u else v) = None"
  by simp

lemma no_kick:
  assumes "mt_pending_notify t = None" and "off \<noteq> reg_QUEUE_NOTIFY"
  shows "mt_pending_notify (mmio_write t off sz v) = None"
  unfolding mmio_write_def Let_def write_driver_features_def write_status_def write_config_def with_current_queue_def split_beta
  by (intro kick_if) (use assms in \<open>simp_all add: mmio_reset_def\<close>)

lemma mmio_write_kick: "mt_pending_notify (mmio_write t reg_QUEUE_NOTIFY sz v) = Some (ucast v)"
  by (simp add: mmio_write_def reg_defs)

lemma new_net_config: "length mac = 6 \<Longrightarrow> mt_config (new_net mac) = mac @ [1, 0, 1, 0, 0, 0]"
  by (simp add: new_net_def Let_def CONFIG_SIZE_def copy_into_def VIRTIO_NET_S_LINK_UP_def to_le_def replicate_append_same upt_rec numeral_2_eq_2)


text \<open>
  A register write reports a kick exactly when it is a write to \<^verbatim>\<open>QueueNotify\<close>, with the value
  written, and never reports it twice.
\<close>

theorem net_kick_exact:
  assumes "mt_pending_notify (nd_transport d) = None" and "VirtioNetDevice_mmio_write d off sz v = (d', kick)"
  shows "kick = (if off = reg_QUEUE_NOTIFY then Some (ucast v) else None) \<and> mt_pending_notify (nd_transport d') = None"
  using assms no_kick [of "nd_transport d" off sz v]
  by (auto simp: VirtioNetDevice_mmio_write_def net_is_vsock_transport take_notify_def mmio_write_kick)

text \<open>The queue a driver programs is the queue the device sees.\<close>

theorem net_queue_bring_up:
  assumes "net_queue t (unat i) = Some old"
  shows "net_queue (run_writes net_mmio_write (bring_up_writes i c) t) = (net_queue t)(unat i \<mapsto> c)"
  by (rule net_regs.bring_up [OF assms])

end
