(* ===== verification/Net_Queue.thy ===== *)
theory Net_Queue
  imports Net_Device Vsock_Queue
begin

text \<open>
  The data path of the network device (\<^verbatim>\<open>crates/virtio-net/src/queue.rs\<close>): draining the
  transmit queue into a backend and filling the receive queue from it, over any guest memory and any
  backend. The loops over the available ring are recursive functions; they end because every turn
  moves the cursor one step towards the index read at the start. A call returns the memory, the
  cursor and the backend as it left them next to its result, since they keep what was done before an
  error.
\<close>

subsection \<open>Model\<close>

definition MAX_FRAME_LEN :: nat where "MAX_FRAME_LEN = 1518"
definition MAX_CHAIN_BYTES :: nat where "MAX_CHAIN_BYTES = MAX_FRAME_LEN + VIRTIO_NET_HDR_LEN"
definition MIN_FRAME_LEN :: nat where "MIN_FRAME_LEN = 14 + 46"
definition MAX_SUPPORTED_QUEUE_SIZE :: u32 where "MAX_SUPPORTED_QUEUE_SIZE = QUEUE_SIZE_MAX"

lemmas net_limits = MAX_FRAME_LEN_def MAX_CHAIN_BYTES_def MIN_FRAME_LEN_def VIRTIO_NET_HDR_LEN_def

definition net_validate_qsize :: "u32 \<Rightarrow> u16 option" where
  "net_validate_qsize cfg_size =
     (if cfg_size = 0 \<or> cfg_size > MAX_SUPPORTED_QUEUE_SIZE then None
      else if \<not> is_power_of_two cfg_size then None
      else Some (ucast cfg_size))"

definition avail_delta_is_sane :: "u16 \<Rightarrow> u16 \<Rightarrow> u16 \<Rightarrow> bool" where
  "avail_delta_is_sane last_seen avail_idx qsize \<longleftrightarrow> avail_idx - last_seen \<le> qsize"

record queue_cursor =
  last_seen_avail :: u16

record process_stats =
  completed_chains :: nat
  frames_moved :: nat

definition ProcessStats_default :: process_stats where
  "ProcessStats_default = \<lparr>completed_chains = 0, frames_moved = 0\<rparr>"

definition should_raise_interrupt :: "process_stats \<Rightarrow> bool" where
  "should_raise_interrupt st \<longleftrightarrow> completed_chains st > 0"

definition net_read_u16 :: "(queue_error, 'm) mem_ops \<Rightarrow> 'm \<Rightarrow> u64 \<Rightarrow> (queue_error, u16) result" where
  "net_read_u16 R mem gpa = and_then (mem_read R mem gpa 2) (\<lambda>b. Ok (from_le b))"

definition read_descriptor_table ::
    "(queue_error, 'm) mem_ops \<Rightarrow> 'm \<Rightarrow> u64 \<Rightarrow> u16 \<Rightarrow> (queue_error, descriptor list) result" where
  "read_descriptor_table R mem base qsize =
     try_map (\<lambda>i. and_then (mem_read R mem (base + of_nat i * of_nat DESC_SIZE) DESC_SIZE) Descriptor_from_bytes)
       [0..<unat qsize]"

definition net_push_used ::
    "(queue_error, 'm) mem_ops \<Rightarrow> 'm \<Rightarrow> u64 \<Rightarrow> u16 \<Rightarrow> u32 \<Rightarrow> u32 \<Rightarrow> 'm \<times> (queue_error, unit) result" where
  "net_push_used R mem base qsize head_idx written_len =
     (case mem_read R mem (base + 2) 2 of
        Inl e \<Rightarrow> (mem, Err e)
      | Inr idx_bytes \<Rightarrow>
          let cur = from_le idx_bytes :: u16;
              slot = ucast (cur mod qsize) :: u64;
              off = base + (4 + slot * 8)
          in case mem_write R mem off (to_le 4 head_idx) of
               Inl e \<Rightarrow> (mem, Err e)
             | Inr mem \<Rightarrow>
                 (case mem_write R mem (off + 4) (to_le 4 written_len) of
                    Inl e \<Rightarrow> (mem, Err e)
                  | Inr mem \<Rightarrow>
                      (case mem_write R mem (base + 2) (to_le 2 (cur + 1)) of
                         Inl e \<Rightarrow> (mem, Err e)
                       | Inr mem \<Rightarrow> (mem, Ok ()))))"

text \<open>What a call has changed so far.\<close>

record ('m, 'b) net_run =
  nr_mem :: 'm
  nr_cursor :: queue_cursor
  nr_backend :: 'b
  nr_stats :: process_stats

definition net_complete ::
    "(queue_error, 'm) mem_ops \<Rightarrow> queue_config \<Rightarrow> u16 \<Rightarrow> u16 \<Rightarrow> u32 \<Rightarrow> ('m, 'b) net_run \<Rightarrow>
     ('m, 'b) net_run \<times> ('io net_error, unit) result" where
  "net_complete R cfg qsize head len s =
     (case net_push_used R (nr_mem s) (qc_device cfg) qsize (ucast head) len of
        (mem, Inl e) \<Rightarrow> (s\<lparr>nr_mem := mem\<rparr>, Err (Queue e))
      | (mem, Inr _) \<Rightarrow>
          (s\<lparr>nr_mem := mem, nr_cursor := \<lparr>last_seen_avail = last_seen_avail (nr_cursor s) + 1\<rparr>,
             nr_stats := (nr_stats s)\<lparr>completed_chains := completed_chains (nr_stats s) + 1\<rparr>\<rparr>, Ok ()))"

definition count_frame :: "('m, 'b) net_run \<Rightarrow> ('m, 'b) net_run" where
  "count_frame s = s\<lparr>nr_stats := (nr_stats s)\<lparr>frames_moved := frames_moved (nr_stats s) + 1\<rparr>\<rparr>"

primrec tx_gather ::
    "(queue_error, 'm) mem_ops \<Rightarrow> 'm \<Rightarrow> (queue_error, descriptor) result list \<Rightarrow> bytes \<Rightarrow> (queue_error, bytes \<times> bool) result" where
  "tx_gather R mem [] scratch = Ok (scratch, True)"
| "tx_gather R mem (r # rs) scratch =
     (case r of
        Inl e \<Rightarrow> Err e
      | Inr desc \<Rightarrow>
          if is_indirect desc then Ok (scratch, False)
          else if is_writable desc then tx_gather R mem rs scratch
          else if length scratch + unat (desc_len desc) > MAX_CHAIN_BYTES then Ok (scratch, False)
          else and_then (read_from R desc mem) (\<lambda>bs. tx_gather R mem rs (scratch @ bs)))"

definition tx_send ::
    "('io, 'b) net_backend \<Rightarrow> bytes \<Rightarrow> bool \<Rightarrow> ('m, 'b) net_run \<Rightarrow> ('m, 'b) net_run \<times> ('io net_error, unit) result" where
  "tx_send B scratch chain_valid s =
     (if chain_valid \<and> length scratch \<ge> VIRTIO_NET_HDR_LEN + MIN_FRAME_LEN \<and> length scratch \<le> MAX_CHAIN_BYTES
      then
        (case VirtioNetHdr_from_bytes (take VIRTIO_NET_HDR_LEN scratch) of
           Inl e \<Rightarrow> (s, Err (Header e))
         | Inr _ \<Rightarrow>
             (case nb_write_frame B (nr_backend s) (drop VIRTIO_NET_HDR_LEN scratch) of
                (b, Inl e) \<Rightarrow> (s\<lparr>nr_backend := b\<rparr>, Err e)
              | (b, Inr _) \<Rightarrow> (count_frame (s\<lparr>nr_backend := b\<rparr>), Ok ())))
      else (s, Ok ()))"

definition tx_step ::
    "(queue_error, 'm) mem_ops \<Rightarrow> ('io, 'b) net_backend \<Rightarrow> queue_config \<Rightarrow> u16 \<Rightarrow> descriptor list \<Rightarrow> ('m, 'b) net_run \<Rightarrow>
     ('m, 'b) net_run \<times> ('io net_error, unit) result" where
  "tx_step R B cfg qsize table s =
     (let slot = ucast (last_seen_avail (nr_cursor s) mod qsize) :: u64
      in case net_read_u16 R (nr_mem s) (qc_driver cfg + (4 + slot * 2)) of
           Inl e \<Rightarrow> (s, Err (Queue e))
         | Inr head \<Rightarrow>
             (case tx_gather R (nr_mem s) (walk table head) [] of
                Inl e \<Rightarrow> (s, Err (Queue e))
              | Inr (scratch, chain_valid) \<Rightarrow>
                  (case tx_send B scratch chain_valid s of
                     (s, Inl e) \<Rightarrow> (s, Err e)
                   | (s, Inr _) \<Rightarrow> net_complete R cfg qsize head 0 s)))"

lemma net_complete_cursor:
  "net_complete R cfg q head len s = (s', Inr u) \<Longrightarrow> last_seen_avail (nr_cursor s') = last_seen_avail (nr_cursor s) + 1"
  by (auto simp: net_complete_def split: prod.splits sum.splits)

lemma tx_send_frame:
  "nr_cursor (fst (tx_send B scratch ok s)) = nr_cursor s" "nr_mem (fst (tx_send B scratch ok s)) = nr_mem s"
  "completed_chains (nr_stats (fst (tx_send B scratch ok s))) = completed_chains (nr_stats s)"
  by (simp_all add: tx_send_def count_frame_def split: prod.split sum.split)

lemma tx_step_cursor:
  assumes "tx_step R B cfg q t s = (s', Inr u)"
  shows "last_seen_avail (nr_cursor s') = last_seen_avail (nr_cursor s) + 1"
proof -
  obtain head scratch ok where
    "(case tx_send B scratch ok s of (s, Inl e) \<Rightarrow> (s, Inl e) | (s, Inr _) \<Rightarrow> net_complete R cfg q head 0 s) = (s', Inr u)"
    using assms by (auto simp: tx_step_def Let_def split: sum.splits)
  then show ?thesis
    using tx_send_frame(1) [of B scratch ok s] by (auto split: prod.splits sum.splits dest: net_complete_cursor)
qed

lemma cursor_closer:
  fixes c d :: u16
  assumes "c \<noteq> d"
  shows "unat (d - (c + 1)) + 1 = unat (d - c)"
  using counter_step [OF assms] by simp

lemma cursor_less: "c \<noteq> d \<Longrightarrow> unat (d - (c + 1)) < unat (d - c)" for c d :: u16
  using cursor_closer [of c d] by simp

function tx_loop ::
    "(queue_error, 'm) mem_ops \<Rightarrow> ('io, 'b) net_backend \<Rightarrow> queue_config \<Rightarrow> u16 \<Rightarrow> descriptor list \<Rightarrow> u16 \<Rightarrow> ('m, 'b) net_run \<Rightarrow>
     ('m, 'b) net_run \<times> ('io net_error, unit) result" where
  "tx_loop R B cfg qsize table avail_idx s =
     (if last_seen_avail (nr_cursor s) = avail_idx then (s, Ok ())
      else case tx_step R B cfg qsize table s of
             (s', Inl e) \<Rightarrow> (s', Err e)
           | (s', Inr _) \<Rightarrow> tx_loop R B cfg qsize table avail_idx s')"
  by pat_completeness auto

termination
proof (relation "measure (\<lambda>(R, B, cfg, qsize, table, avail_idx, s). unat (avail_idx - last_seen_avail (nr_cursor s)))", goal_cases)
  case 2
  then show ?case by (auto simp: cursor_less dest!: tx_step_cursor [OF sym])
qed simp

declare tx_loop.simps [simp del]

definition net_run_start :: "queue_cursor \<Rightarrow> 'm \<Rightarrow> 'b \<Rightarrow> ('m, 'b) net_run" where
  "net_run_start cursor mem backend =
     \<lparr>nr_mem = mem, nr_cursor = cursor, nr_backend = backend, nr_stats = ProcessStats_default\<rparr>"

definition process_tx ::
    "(queue_error, 'm) mem_ops \<Rightarrow> ('io, 'b) net_backend \<Rightarrow> queue_config \<Rightarrow> queue_cursor \<Rightarrow> 'm \<Rightarrow> 'b \<Rightarrow>
     ('m, 'b) net_run \<times> ('io net_error, process_stats) result" where
  "process_tx R B cfg cursor mem backend =
     (let s = net_run_start cursor mem backend
      in if \<not> qc_ready cfg then (s, Ok (nr_stats s))
         else case net_validate_qsize (qc_size cfg) of
           None \<Rightarrow> (s, Ok (nr_stats s))
         | Some qsize \<Rightarrow>
             (case read_descriptor_table R mem (qc_desc cfg) qsize of
                Inl e \<Rightarrow> (s, Err (Queue e))
              | Inr table \<Rightarrow>
                  (case net_read_u16 R mem (qc_driver cfg + 2) of
                     Inl e \<Rightarrow> (s, Err (Queue e))
                   | Inr avail_idx \<Rightarrow>
                       if \<not> avail_delta_is_sane (last_seen_avail cursor) avail_idx qsize then (s, Ok (nr_stats s))
                       else case tx_loop R B cfg qsize table avail_idx s of
                              (s, Inl e) \<Rightarrow> (s, Err e)
                            | (s, Inr _) \<Rightarrow> (s, Ok (nr_stats s)))))"

primrec rx_collect ::
    "(queue_error, descriptor) result list \<Rightarrow> descriptor list \<Rightarrow> (queue_error, descriptor list \<times> bool) result" where
  "rx_collect [] writable = Ok (writable, True)"
| "rx_collect (r # rs) writable =
     (case r of
        Inl e \<Rightarrow> Err e
      | Inr desc \<Rightarrow>
          if is_indirect desc then Ok (writable, False)
          else if \<not> is_writable desc then rx_collect rs writable
          else rx_collect rs (writable @ [desc]))"

primrec rx_scatter ::
    "(queue_error, 'm) mem_ops \<Rightarrow> bytes \<Rightarrow> descriptor list \<Rightarrow> 'm \<Rightarrow> nat \<Rightarrow> 'm \<times> (queue_error, nat) result" where
  "rx_scatter R payload [] mem written = (mem, Ok written)"
| "rx_scatter R payload (desc # ds) mem written =
     (if written = length payload then (mem, Ok written)
      else case write_to_guest R desc mem (drop written payload) of
             Inl e \<Rightarrow> (mem, Err e)
           | Inr (n, mem) \<Rightarrow> rx_scatter R payload ds mem (written + n))"

definition rx_deliver ::
    "(queue_error, 'm) mem_ops \<Rightarrow> queue_config \<Rightarrow> u16 \<Rightarrow> u16 \<Rightarrow> descriptor list \<Rightarrow> bytes \<Rightarrow> ('m, 'b) net_run \<Rightarrow>
     ('m, 'b) net_run \<times> ('io net_error, unit) result" where
  "rx_deliver R cfg qsize head writable frame s =
     (let payload = VirtioNetHdr_to_bytes no_offload @ frame
      in case rx_scatter R payload writable (nr_mem s) 0 of
           (mem, Inl e) \<Rightarrow> (s\<lparr>nr_mem := mem\<rparr>, Err (Queue e))
         | (mem, Inr written) \<Rightarrow>
             (case net_complete R cfg qsize head (of_nat written) (s\<lparr>nr_mem := mem\<rparr>) of
                (s, Inl e) \<Rightarrow> (s, Err e)
              | (s, Inr _) \<Rightarrow> (count_frame s, Ok ())))"

text \<open>
  One turn of the receive loop, with the frame buffer the turns share; it answers whether to go on.
\<close>

definition rx_step ::
    "(queue_error, 'm) mem_ops \<Rightarrow> ('io, 'b) net_backend \<Rightarrow> queue_config \<Rightarrow> u16 \<Rightarrow> descriptor list \<Rightarrow>
     bytes \<times> ('m, 'b) net_run \<Rightarrow> (bytes \<times> ('m, 'b) net_run) \<times> ('io net_error, bool) result" where
  "rx_step R B cfg qsize table p =
     (let (frame_buf, s) = p
      in case nb_read_frame B (nr_backend s) frame_buf of
           (b, Inl e) \<Rightarrow> ((frame_buf, s\<lparr>nr_backend := b\<rparr>), Err e)
         | (b, Inr (n, frame_buf)) \<Rightarrow>
             let s = s\<lparr>nr_backend := b\<rparr>
             in if n = 0 then ((frame_buf, s), Ok False)
                else if n > length frame_buf then ((frame_buf, s), Err Panic)
                else
                  let frame = take n frame_buf;
                      slot = ucast (last_seen_avail (nr_cursor s) mod qsize) :: u64
                  in (case net_read_u16 R (nr_mem s) (qc_driver cfg + (4 + slot * 2)) of
                       Inl e \<Rightarrow> ((frame_buf, s), Err (Queue e))
                     | Inr head \<Rightarrow>
                         (case rx_collect (walk table head) [] of
                            Inl e \<Rightarrow> ((frame_buf, s), Err (Queue e))
                          | Inr (writable, chain_valid) \<Rightarrow>
                              let total_cap = sum_list (map (\<lambda>d. unat (desc_len d)) writable);
                                  need = VIRTIO_NET_HDR_LEN + length frame;
                                  (s, r) = (if \<not> chain_valid \<or> total_cap < need
                                            then net_complete R cfg qsize head 0 s
                                            else rx_deliver R cfg qsize head writable frame s)
                              in ((frame_buf, s), map_sum id (\<lambda>_. True) r))))"

lemma rx_deliver_cursor:
  "rx_deliver R cfg q head ds frame s = (s', Inr u) \<Longrightarrow> last_seen_avail (nr_cursor s') = last_seen_avail (nr_cursor s) + 1"
  by (auto simp: rx_deliver_def count_frame_def split: prod.splits sum.splits dest!: net_complete_cursor)

lemma rx_step_cases:
  assumes "rx_step R B cfg q t (buf, s) = ((buf', s'), r)"
  shows "(\<exists>b e. nb_read_frame B (nr_backend s) buf = (b, Inl e) \<and> s' = s\<lparr>nr_backend := b\<rparr> \<and> r = Inl e) \<or>
    (\<exists>b n. nb_read_frame B (nr_backend s) buf = (b, Inr (n, buf')) \<and>
      ((s' = s\<lparr>nr_backend := b\<rparr> \<and> (n = 0 \<and> r = Inr False \<or> 0 < n \<and> (\<exists>e. r = Inl e))) \<or>
       (\<exists>head writable ok. 0 < n \<and> n \<le> length buf' \<and>
          net_read_u16 R (nr_mem s) (qc_driver cfg + (4 + ucast (last_seen_avail (nr_cursor s) mod q) * 2)) = Inr head \<and>
          rx_collect (walk t head) [] = Inr (writable, ok) \<and>
          (\<exists>r'. r = map_sum id (\<lambda>_. True) r' \<and>
            (if \<not> ok \<or> sum_list (map (\<lambda>d. unat (desc_len d)) writable) < VIRTIO_NET_HDR_LEN + n
             then net_complete R cfg q head 0 (s\<lparr>nr_backend := b\<rparr>) = (s', r')
             else rx_deliver R cfg q head writable (take n buf') (s\<lparr>nr_backend := b\<rparr>) = (s', r'))))))"
  using assms
  by (auto simp: rx_step_def Let_def min_def split: prod.splits sum.splits if_splits)

lemma rx_step_cursor:
  fixes B :: "('io, 'b) net_backend"
  assumes "rx_step R B cfg q t (buf, s) = ((buf', s'), Inr True)"
  shows "last_seen_avail (nr_cursor s') = last_seen_avail (nr_cursor s) + 1"
proof -
  obtain b n head writable ok and r' :: "('io net_error, unit) result" where r': "Inr True = map_sum id (\<lambda>_. True) r'"
    and s': "if \<not> ok \<or> sum_list (map (\<lambda>d. unat (desc_len d)) writable) < VIRTIO_NET_HDR_LEN + n
      then net_complete R cfg q head 0 (s\<lparr>nr_backend := b\<rparr>) = (s', r')
      else rx_deliver R cfg q head writable (take n buf') (s\<lparr>nr_backend := b\<rparr>) = (s', r')"
    using rx_step_cases [OF assms] by (elim disjE exE conjE) (simp | blast)+
  from r' have "r' = Inr ()" by (cases r') auto
  then have "last_seen_avail (nr_cursor s') = last_seen_avail (nr_cursor (s\<lparr>nr_backend := b\<rparr>)) + 1"
    using s' by (auto split: if_splits dest!: net_complete_cursor rx_deliver_cursor)
  then show ?thesis by simp
qed

function rx_loop ::
    "(queue_error, 'm) mem_ops \<Rightarrow> ('io, 'b) net_backend \<Rightarrow> queue_config \<Rightarrow> u16 \<Rightarrow> descriptor list \<Rightarrow> u16 \<Rightarrow>
     bytes \<times> ('m, 'b) net_run \<Rightarrow> (bytes \<times> ('m, 'b) net_run) \<times> ('io net_error, unit) result" where
  "rx_loop R B cfg qsize table avail_idx p =
     (if last_seen_avail (nr_cursor (snd p)) = avail_idx then (p, Ok ())
      else case rx_step R B cfg qsize table p of
             (p', Inl e) \<Rightarrow> (p', Err e)
           | (p', Inr go_on) \<Rightarrow> if go_on then rx_loop R B cfg qsize table avail_idx p' else (p', Ok ()))"
  by pat_completeness auto

termination
proof (relation "measure (\<lambda>(R, B, cfg, qsize, table, avail_idx, p). unat (avail_idx - last_seen_avail (nr_cursor (snd p))))", goal_cases)
  case (2 R B cfg qsize table avail_idx p q p' go_on)
  then show ?case
    using rx_step_cursor [of R B cfg qsize table "fst p" "snd p" "fst q" "snd q"] by (auto simp: cursor_less)
qed simp

declare rx_loop.simps [simp del]

definition process_rx ::
    "(queue_error, 'm) mem_ops \<Rightarrow> ('io, 'b) net_backend \<Rightarrow> queue_config \<Rightarrow> queue_cursor \<Rightarrow> 'm \<Rightarrow> 'b \<Rightarrow>
     ('m, 'b) net_run \<times> ('io net_error, process_stats) result" where
  "process_rx R B cfg cursor mem backend =
     (let s = net_run_start cursor mem backend
      in if \<not> qc_ready cfg then (s, Ok (nr_stats s))
         else case net_validate_qsize (qc_size cfg) of
           None \<Rightarrow> (s, Ok (nr_stats s))
         | Some qsize \<Rightarrow>
             (case read_descriptor_table R mem (qc_desc cfg) qsize of
                Inl e \<Rightarrow> (s, Err (Queue e))
              | Inr table \<Rightarrow>
                  (case net_read_u16 R mem (qc_driver cfg + 2) of
                     Inl e \<Rightarrow> (s, Err (Queue e))
                   | Inr avail_idx \<Rightarrow>
                       if \<not> avail_delta_is_sane (last_seen_avail cursor) avail_idx qsize then (s, Ok (nr_stats s))
                       else case rx_loop R B cfg qsize table avail_idx (replicate MAX_FRAME_LEN 0, s) of
                              ((_, s), Inl e) \<Rightarrow> (s, Err e)
                            | ((_, s), Inr _) \<Rightarrow> (s, Ok (nr_stats s)))))"

subsection \<open>What the used ring is written\<close>

definition same_outside :: "('e, 'm) mem_ops \<Rightarrow> nat \<Rightarrow> nat \<Rightarrow> 'm \<Rightarrow> 'm \<Rightarrow> bool" where
  "same_outside R lo hi m m' \<longleftrightarrow>
     (\<forall>a k. unat a + k \<le> lo \<or> hi \<le> unat a \<longrightarrow> mem_read R m' a k = mem_read R m a k)"

lemma same_outside_refl [simp]: "same_outside R lo hi m m"
  by (simp add: same_outside_def)

lemma same_outside_trans: "same_outside R lo hi m m1 \<Longrightarrow> same_outside R lo hi m1 m2 \<Longrightarrow> same_outside R lo hi m m2"
  by (simp add: same_outside_def)

lemma used_slot_address:
  fixes base :: u64 and c q :: u16
  assumes "unat base + 4 + 8 * unat q \<le> 2 ^ 64" and "q \<noteq> 0"
  shows "unat (c mod q) < unat q" "unat (base + 2) = unat base + 2"
    "unat (base + (4 + ucast (c mod q) * 8)) = unat base + 4 + 8 * unat (c mod q)"
    "unat (base + (4 + ucast (c mod q) * 8) + 4) = unat base + 8 + 8 * unat (c mod q)"
proof -
  have "0 < unat q" using assms(2) by (simp add: unat_gt_0)
  then show slot: "unat (c mod q) < unat q" by (simp add: unat_mod)
  show "unat (base + 2) = unat base + 2" using unat_add_of_nat [of base 2] assms(1) \<open>0 < unat q\<close> by simp
  have "4 + ucast (c mod q) * 8 = (of_nat (4 + 8 * unat (c mod q)) :: u64)" by simp
  then show a: "unat (base + (4 + ucast (c mod q) * 8)) = unat base + 4 + 8 * unat (c mod q)"
    using unat_add_of_nat [of base "4 + 8 * unat (c mod q)"] assms(1) slot by (simp add: mult.commute)
  then show "unat (base + (4 + ucast (c mod q) * 8) + 4) = unat base + 8 + 8 * unat (c mod q)"
    using unat_add_of_nat [of "base + (4 + ucast (c mod q) * 8)" 4] assms(1) slot by simp
qed

context guest_ram
begin

lemma write_outside:
  assumes "mem_write R m a b = Inr m'" and "lo \<le> unat a" and "unat a + length b \<le> hi"
  shows "same_outside R lo hi m m'"
  using write_frame [OF assms(1)] assms(2,3) by (auto simp: same_outside_def)

end

lemma net_push_used_outside:
  assumes "guest_ram R" and "unat base + 4 + 8 * unat q \<le> 2 ^ 64" and "q \<noteq> 0"
  shows "same_outside R (unat base + 2) (unat base + 4 + 8 * unat q) m (fst (net_push_used R m base q h l))"
proof -
  let ?lo = "unat base + 2" and ?hi = "unat base + 4 + 8 * unat q"
  note addr = used_slot_address [OF assms(2,3)]
  have w: "same_outside R ?lo ?hi m m'"
    if "mem_write R m a b = Inr m'" "?lo \<le> unat a" "unat a + length b \<le> ?hi" for m m' a b
    by (rule guest_ram.write_outside [OF assms(1) that])
  have "same_outside R ?lo ?hi m m3"
    if w1: "mem_write R m (base + (4 + ucast (c mod q) * 8)) (to_le 4 h) = Inr m1"
      and w2: "mem_write R m1 (base + (4 + ucast (c mod q) * 8) + 4) (to_le 4 l) = Inr m2"
      and w3: "mem_write R m2 (base + 2) (to_le 2 (c + 1)) = Inr m3 \<or> m3 = m2" for c m1 m2 m3
    using w [OF w1] w [OF w2] w [of m2 "base + 2" _ m3] w3 addr(1,3,4) [of c] addr(2)
    by (auto intro: same_outside_trans)
  moreover have "same_outside R ?lo ?hi m m1"
    if "mem_write R m (base + (4 + ucast (c mod q) * 8)) (to_le 4 h) = Inr m1" for c m1
    using w [OF that] addr(1,3) [of c] by auto
  ultimately show ?thesis
    by (auto simp: net_push_used_def Let_def split: sum.split)
qed

subsection \<open>Transmitting\<close>

text \<open>
  What a run of the transmit loop may do, whatever the guest put in its memory: send \<open>fs\<close>, all of
  legal length, and complete \<open>k\<close> chains, writing inside the used ring only.
\<close>

definition legal_frame :: "bytes \<Rightarrow> bool" where
  "legal_frame f \<longleftrightarrow> MIN_FRAME_LEN \<le> length f \<and> length f \<le> MAX_FRAME_LEN"

definition tx_progress ::
    "('e, 'm) mem_ops \<Rightarrow> ('b \<Rightarrow> bytes list) \<Rightarrow> nat \<Rightarrow> nat \<Rightarrow> nat \<Rightarrow> bytes list \<Rightarrow> ('m, 'b) net_run \<Rightarrow> ('m, 'b) net_run \<Rightarrow> bool" where
  "tx_progress R sent lo hi k fs s s' \<longleftrightarrow>
     sent (nr_backend s') = sent (nr_backend s) @ fs \<and> list_all legal_frame fs \<and>
     last_seen_avail (nr_cursor s') = last_seen_avail (nr_cursor s) + of_nat k \<and>
     completed_chains (nr_stats s') = completed_chains (nr_stats s) + k \<and>
     frames_moved (nr_stats s') = frames_moved (nr_stats s) + length fs \<and>
     same_outside R lo hi (nr_mem s) (nr_mem s')"

lemma tx_progress_refl [simp]: "tx_progress R sent lo hi 0 [] s s"
  by (simp add: tx_progress_def)

lemma tx_progress_trans:
  "tx_progress R sent lo hi k fs s t \<Longrightarrow> tx_progress R sent lo hi j gs t u \<Longrightarrow> tx_progress R sent lo hi (k + j) (fs @ gs) s u"
  by (auto simp: tx_progress_def intro: same_outside_trans)

lemma tx_send_progress:
  assumes "frame_backend B sent"
  shows "\<exists>fs. length fs \<le> 1 \<and> tx_progress R sent lo hi 0 fs s (fst (tx_send B scratch ok s))"
proof (cases "\<exists>b. nb_write_frame B (nr_backend s) (drop VIRTIO_NET_HDR_LEN scratch) = (b, Inr ())")
  case True
  then obtain b where b: "nb_write_frame B (nr_backend s) (drop VIRTIO_NET_HDR_LEN scratch) = (b, Inr ())" by blast
  have "tx_progress R sent lo hi 0 [drop VIRTIO_NET_HDR_LEN scratch] s (count_frame (s\<lparr>nr_backend := b\<rparr>))"
    if "VIRTIO_NET_HDR_LEN + MIN_FRAME_LEN \<le> length scratch" "length scratch \<le> MAX_CHAIN_BYTES"
    using frame_backend.write_Ok [OF assms b] that
    by (simp add: tx_progress_def count_frame_def legal_frame_def net_limits) linarith
  then show ?thesis
    using b tx_progress_refl [of R sent lo hi s]
    by (cases "VirtioNetHdr_from_bytes (take VIRTIO_NET_HDR_LEN scratch)")
      (auto simp: tx_send_def intro: exI [of _ "[]"] exI [of _ "[drop VIRTIO_NET_HDR_LEN scratch]"])
next
  case False
  then obtain b e where b: "nb_write_frame B (nr_backend s) (drop VIRTIO_NET_HDR_LEN scratch) = (b, Inl e)"
    by (metis old.unit.exhaust prod.exhaust sum.exhaust)
  have "tx_progress R sent lo hi 0 [] s (s\<lparr>nr_backend := b\<rparr>)"
    using frame_backend.write_Err [OF assms b] by (simp add: tx_progress_def)
  then have "tx_progress R sent lo hi 0 [] s (fst (tx_send B scratch ok s))"
    using b tx_progress_refl [of R sent lo hi s] by (simp add: tx_send_def split: sum.split)
  then show ?thesis by (intro exI [of _ "[]"]) simp
qed

lemma net_complete_progress:
  assumes "guest_ram R" and "unat (qc_device cfg) + 4 + 8 * unat q \<le> 2 ^ 64" and "q \<noteq> 0"
    and "net_complete R cfg q head len s = (s', r)"
  shows "tx_progress R sent (unat (qc_device cfg) + 2) (unat (qc_device cfg) + 4 + 8 * unat q) (if is_ok r then 1 else 0) [] s s'"
  using assms(4) net_push_used_outside [OF assms(1-3), of "nr_mem s" "ucast head" len]
  by (auto simp: net_complete_def tx_progress_def split: prod.splits sum.splits)

lemma tx_step_progress:
  assumes "guest_ram R" and "frame_backend B sent" and "unat (qc_device cfg) + 4 + 8 * unat q \<le> 2 ^ 64" and "q \<noteq> 0"
    and "tx_step R B cfg q t s = (s', r)"
  shows "\<exists>fs. length fs \<le> 1 \<and>
    tx_progress R sent (unat (qc_device cfg) + 2) (unat (qc_device cfg) + 4 + 8 * unat q) (if is_ok r then 1 else 0) fs s s'"
    (is "\<exists>fs. _ \<and> tx_progress R sent ?lo ?hi _ fs s s'")
proof (cases "s' = s \<and> \<not> is_ok r")
  case True
  then show ?thesis using tx_progress_refl by (intro exI [of _ "[]"]) simp
next
  case False
  then obtain head scratch ok where step:
    "(case tx_send B scratch ok s of (s, Inl e) \<Rightarrow> (s, Inl e) | (s, Inr _) \<Rightarrow> net_complete R cfg q head 0 s) = (s', r)"
    using assms(5) by (auto simp: tx_step_def Let_def split: sum.splits)
  obtain t' r' where t': "tx_send B scratch ok s = (t', r')" by (cases "tx_send B scratch ok s")
  obtain fs where fs: "length fs \<le> 1" "tx_progress R sent ?lo ?hi 0 fs s t'"
    using tx_send_progress [OF assms(2), of R ?lo ?hi s scratch ok] t' by auto
  show ?thesis
  proof (cases r')
    case (Inl e)
    then show ?thesis using step t' fs by auto
  next
    case (Inr u)
    then have "net_complete R cfg q head 0 t' = (s', r)" using step t' by simp
    from tx_progress_trans [OF fs(2) net_complete_progress [OF assms(1,3,4) this]] show ?thesis
      using fs(1) by (intro exI [of _ fs]) simp
  qed
qed

lemma tx_loop_progress:
  fixes B :: "('io, 'b) net_backend"
  assumes "guest_ram R" and "frame_backend B sent" and "unat (qc_device cfg) + 4 + 8 * unat q \<le> 2 ^ 64" and "q \<noteq> 0"
    and "tx_loop R B cfg q t avail s = (s', r)"
  shows "\<exists>k fs. k \<le> unat (avail - last_seen_avail (nr_cursor s)) \<and> length fs \<le> unat (avail - last_seen_avail (nr_cursor s)) \<and>
    (is_ok r \<longrightarrow> last_seen_avail (nr_cursor s') = avail) \<and>
    tx_progress R sent (unat (qc_device cfg) + 2) (unat (qc_device cfg) + 4 + 8 * unat q) k fs s s'"
  using assms
proof (induction R B cfg q t avail s rule: tx_loop.induct)
  case (1 R B cfg q t avail s)
  let ?lo = "unat (qc_device cfg) + 2" and ?hi = "unat (qc_device cfg) + 4 + 8 * unat q"
    and ?n = "unat (avail - last_seen_avail (nr_cursor s))"
  show ?case
  proof (cases "last_seen_avail (nr_cursor s) = avail")
    case True
    then show ?thesis using "1.prems"(5) tx_progress_refl by (intro exI [of _ 0] exI [of _ "[]"]) (simp add: tx_loop.simps [of R B])
  next
    case False
    obtain s1 r1 where step: "tx_step R B cfg q t s = (s1, r1)" by (cases "tx_step R B cfg q t s")
    obtain fs where fs: "length fs \<le> 1" "tx_progress R sent ?lo ?hi (if is_ok r1 then 1 else 0) fs s s1"
      using tx_step_progress [OF "1.prems"(1-4) step] by blast
    have closer: "unat (avail - (last_seen_avail (nr_cursor s) + 1)) + 1 = ?n" using cursor_closer [OF False] .
    show ?thesis
    proof (cases r1)
      case (Inl e)
      then have "s' = s1" "r = Inl e" using "1.prems"(5) step False by (simp_all add: tx_loop.simps [of R B])
      then show ?thesis using fs Inl closer by (intro exI [of _ 0] exI [of _ fs]) simp
    next
      case (Inr u)
      then have rest: "tx_loop R B cfg q t avail s1 = (s', r)"
        using "1.prems"(5) step False by (simp add: tx_loop.simps [of R B cfg q t avail s])
      have c1: "last_seen_avail (nr_cursor s1) = last_seen_avail (nr_cursor s) + 1" using fs(2) Inr by (simp add: tx_progress_def)
      obtain k gs where "k \<le> unat (avail - last_seen_avail (nr_cursor s1))" "length gs \<le> unat (avail - last_seen_avail (nr_cursor s1))"
        and r: "is_ok r \<longrightarrow> last_seen_avail (nr_cursor s') = avail" and p: "tx_progress R sent ?lo ?hi k gs s1 s'"
        using "1.IH" [OF False step [symmetric] Inr "1.prems"(1-4) rest] by blast
      moreover have "tx_progress R sent ?lo ?hi (1 + k) (fs @ gs) s s'"
        using tx_progress_trans [OF fs(2) p] Inr by simp
      ultimately show ?thesis using fs(1) closer c1 by (intro exI [of _ "1 + k"] exI [of _ "fs @ gs"]) simp
    qed
  qed
qed

lemma net_validate_qsize_Some:
  assumes "net_validate_qsize n = Some q"
  shows "q \<noteq> 0" "unat q = unat n" "unat q \<le> 256"
proof -
  have n: "n \<noteq> 0" "unat n \<le> 256" "q = ucast n"
    using assms by (auto simp: net_validate_qsize_def MAX_SUPPORTED_QUEUE_SIZE_def QUEUE_SIZE_MAX_def word_less_nat_alt split: if_splits)
  then show u: "unat q = unat n" by (simp add: unsigned_ucast_eq take_bit_nat_eq_self)
  then show "unat q \<le> 256" using n by simp
  show "q \<noteq> 0" using u n(1) by (metis unat_eq_zero)
qed

text \<open>
  C29: However a guest fills its memory, one call of \<^verbatim>\<open>process_tx\<close> sends at most 256 frames, each of
  60 to 1518 bytes, completes as many chains as it moves its cursor, and writes nowhere but in the
  used ring. (The ring is one the address space holds.)
\<close>

theorem process_tx_safe:
  assumes "guest_ram R" and "frame_backend B sent"
    and "unat (qc_device cfg) + 4 + 8 * unat (qc_size cfg) \<le> 2 ^ 64"
    and "process_tx R B cfg cursor mem backend = (s', r)"
  shows "\<exists>fs k. sent (nr_backend s') = sent backend @ fs \<and> length fs \<le> 256 \<and>
    list_all (\<lambda>f. 60 \<le> length f \<and> length f \<le> 1518) fs \<and>
    k \<le> 256 \<and> last_seen_avail (nr_cursor s') = last_seen_avail cursor + of_nat k \<and>
    (\<forall>st. r = Ok st \<longrightarrow> completed_chains st = k \<and> frames_moved st = length fs) \<and>
    (\<forall>a n. unat a + n \<le> unat (qc_device cfg) + 2 \<or> unat (qc_device cfg) + 4 + 8 * unat (qc_size cfg) \<le> unat a \<longrightarrow>
       mem_read R (nr_mem s') a n = mem_read R mem a n)"
proof -
  let ?s = "net_run_start cursor mem backend" and ?lo = "unat (qc_device cfg) + 2"
    and ?hi = "unat (qc_device cfg) + 4 + 8 * unat (qc_size cfg)"
  have "\<exists>fs k. length fs \<le> 256 \<and> k \<le> 256 \<and> tx_progress R sent ?lo ?hi k fs ?s s' \<and> (\<forall>st. r = Ok st \<longrightarrow> st = nr_stats s')"
  proof (cases "s' = ?s \<and> (\<forall>st. r = Ok st \<longrightarrow> st = nr_stats s')")
    case True
    then show ?thesis by (intro exI [of _ "[]"] exI [of _ 0]) auto
  next
    case False
    then obtain q t avail r' where q: "net_validate_qsize (qc_size cfg) = Some q"
      and sane: "avail_delta_is_sane (last_seen_avail cursor) avail q"
      and loop: "tx_loop R B cfg q t avail ?s = (s', r')" and r: "\<forall>st. r = Ok st \<longrightarrow> st = nr_stats s'"
      using assms(4) by (auto simp: process_tx_def Let_def split: if_splits option.splits sum.splits prod.splits)
    note q' = net_validate_qsize_Some [OF q]
    have n: "unat (avail - last_seen_avail (nr_cursor ?s)) \<le> 256"
      using sane q'(3) by (simp add: avail_delta_is_sane_def word_le_nat_alt net_run_start_def)
    have "unat (qc_device cfg) + 4 + 8 * unat q \<le> 2 ^ 64" using assms(3) q'(2) by simp
    from tx_loop_progress [OF assms(1,2) this q'(1) loop] n r show ?thesis
      unfolding q'(2) by (meson le_trans)
  qed
  then obtain fs k where "length fs \<le> 256" "k \<le> 256" and p: "tx_progress R sent ?lo ?hi k fs ?s s'"
    and r: "\<forall>st. r = Ok st \<longrightarrow> st = nr_stats s'"
    by blast
  then show ?thesis
    by (intro exI [of _ fs] exI [of _ k])
      (auto simp: tx_progress_def net_run_start_def ProcessStats_default_def same_outside_def legal_frame_def [abs_def] net_limits)
qed

subsection \<open>What is sent\<close>

context guest_ram
begin

lemma read_after_write:
  assumes r: "mem_read R m a n = Inr b" and w: "mem_write R m (a + of_nat i) v = Inr m'" and le: "i + length v \<le> n" and v: "v \<noteq> []"
  shows "mem_read R m' a n = Inr (copy_into i v b)"
proof -
  have "is_ok (mem_read R m' a n)" using write_domain [OF w] r by simp
  then obtain c where c: "mem_read R m' a n = Inr c" by (auto simp: is_ok_iff)
  have len: "length c = n" "length b = n" using read_length [OF c] read_length [OF r] .
  have at: "unat (a + of_nat j) = unat a + j" if "j < n" for j
    using read_part [OF r, of 1 j] that by (simp add: unat_add_of_nat)
  have pos: "0 < length v" using v by simp
  have ai: "unat (a + of_nat i) = unat a + i" using at [of i] le v by (cases v) auto
  have same: "slice_at j k c = slice_at j k b" if "j + k \<le> n" "0 < k" "j + k \<le> i \<or> i + length v \<le> j" for j k
  proof -
    have "mem_read R m' (a + of_nat j) k = mem_read R m (a + of_nat j) k"
      using that pos le at [of j] ai by (intro write_frame [OF w]) auto
    then show ?thesis using read_part [OF r that(2,1)] read_part [OF c that(2,1)] by simp
  qed
  have "slice_at i (length v) c = v"
    using read_part [OF c pos le] write_read [OF w] by simp
  moreover have "take i c = take i b"
    using same [of 0 i] le by (cases "i = 0") (simp_all add: slice_at_def)
  moreover have "drop (i + length v) c = drop (i + length v) b"
    using same [of "i + length v" "n - (i + length v)"] le len by (cases "i + length v = n") (simp_all add: slice_at_def)
  ultimately have "c = take i b @ v @ drop (i + length v) b"
    using append_take_drop_id [of i c] append_take_drop_id [of "length v" "drop i c"] by (simp add: slice_at_def add.commute)
  with c show ?thesis by (simp add: copy_into_def)
qed

end

text \<open>The device completes a chain the way \<^verbatim>\<open>UsedRing::push\<close> of the virtqueue crate does.\<close>

lemma net_push_used_exact:
  assumes R: "guest_ram R" and u: "used_ring_ok u" "ur_qsize u = q" "length (ur_bytes u) = used_ring_size q"
    and r: "mem_read R m base (used_ring_size q) = Ok (ur_bytes u)"
  shows "\<exists>m'. net_push_used R m base q h l = (m', Ok ()) \<and>
    mem_read R m' base (used_ring_size q) = Ok (ur_bytes (snd (UsedRing_push h l u)))"
proof -
  let ?c = "UsedRing_idx u" and ?n = "used_ring_size q"
  let ?off = "4 + 8 * unat (?c mod q)"
  have fits: "?off + 8 \<le> ?n" using used_slot_fits [OF u(1), of ?c] u(2) by (simp add: used_ring_size_def)
  have idx: "mem_read R m (base + 2) 2 = Ok (slice_at 2 2 (ur_bytes u))"
    using guest_ram.read_part [OF R r, of 2 2] by (simp add: used_ring_size_def)
  have c: "from_le (slice_at 2 2 (ur_bytes u)) = ?c" by (simp add: UsedRing_idx_def le16_at_def)
  have a: "base + (4 + ucast (?c mod q) * 8) = base + of_nat ?off" "base + (4 + ucast (?c mod q) * 8) + 4 = base + of_nat (?off + 4)"
    "base + 2 = base + of_nat 2"
    by (simp_all add: algebra_simps)
  have ok: "\<exists>m'. mem_write R m1 (base + of_nat i) v = Ok m' \<and> mem_read R m' base ?n = Ok (copy_into i v b)"
    if "mem_read R m1 base ?n = Ok b" "i + length v \<le> ?n" "v \<noteq> []" for m1 b i v
  proof -
    have "is_ok (mem_read R m1 (base + of_nat i) (length v))"
      using guest_ram.read_part [OF R that(1), of "length v" i] that(2,3) by (simp add: is_ok_iff)
    then obtain m' where "mem_write R m1 (base + of_nat i) v = Ok m'" using guest_ram.write_total [OF R] by blast
    with guest_ram.read_after_write [OF R that(1) this that(2,3)] show ?thesis by blast
  qed
  obtain m1 where m1: "mem_write R m (base + of_nat ?off) (to_le 4 h) = Ok m1"
      "mem_read R m1 base ?n = Ok (copy_into ?off (to_le 4 h) (ur_bytes u))"
    using ok [OF r, of ?off "to_le 4 h"] fits by (auto simp: to_le_def)
  obtain m2 where m2: "mem_write R m1 (base + of_nat (?off + 4)) (to_le 4 l) = Ok m2"
      "mem_read R m2 base ?n = Ok (copy_into (?off + 4) (to_le 4 l) (copy_into ?off (to_le 4 h) (ur_bytes u)))"
    using ok [OF m1(2), of "?off + 4" "to_le 4 l"] fits by (auto simp: to_le_def)
  obtain m3 where m3: "mem_write R m2 (base + of_nat 2) (to_le 2 (?c + 1)) = Ok m3"
      "mem_read R m3 base ?n = Ok (copy_into 2 (to_le 2 (?c + 1))
        (copy_into (?off + 4) (to_le 4 l) (copy_into ?off (to_le 4 h) (ur_bytes u))))"
    using ok [OF m2(2), of 2 "to_le 2 (?c + 1)"] fits by (auto simp: to_le_def)
  have "net_push_used R m base q h l = (m3, Ok ())"
    by (simp only: net_push_used_def Let_def idx sum.case c m1(1) [folded a(1)] m2(1) [folded a(2)] m3(1) [folded a(3)])
  moreover have "ur_bytes (snd (UsedRing_push h l u)) = copy_into 2 (to_le 2 (?c + 1))
        (copy_into (?off + 4) (to_le 4 l) (copy_into ?off (to_le 4 h) (ur_bytes u)))"
    using u(2) by (simp add: UsedRing_push_def UsedRing_set_idx_def Let_def)
  ultimately show ?thesis using m3(2) by simp
qed

text \<open>The frame a chain of descriptors carries, if it is one the device sends.\<close>

definition tx_frame :: "(queue_error, 'm) mem_ops \<Rightarrow> 'm \<Rightarrow> descriptor list \<Rightarrow> bytes option" where
  "tx_frame R m ds =
     (case gather R m (map vq_of (filter (\<lambda>d. \<not> is_writable d) ds)) of
        Inl _ \<Rightarrow> None
      | Inr payload \<Rightarrow>
          if list_all (\<lambda>d. \<not> is_indirect d) ds \<and> 72 \<le> length payload \<and> length payload \<le> 1530
          then Some (drop 12 payload) else None)"

lemma read_from_small: "unat (desc_len d) \<le> MAX_CHAIN_BYTES \<Longrightarrow> read_from R d m = mem_read R m (desc_addr d) (unat (desc_len d))"
  by (simp add: read_from_def Let_def net_limits MAX_DESC_READ_BYTES_def)

lemma vq_of_simps [simp]: "vd_addr (vq_of d) = desc_addr d" "vd_len (vq_of d) = desc_len d" "vd_writable (vq_of d) = is_writable d"
  by (simp_all add: vq_of_def)

lemma tx_gather_exact:
  assumes "guest_ram R" and "gather R m (map vq_of (filter (\<lambda>d. \<not> is_writable d) ds)) = Inr payload" and "length acc \<le> MAX_CHAIN_BYTES"
  shows "\<exists>sc. tx_gather R m (map Inr ds) acc =
    Inr (sc, list_all (\<lambda>d. \<not> is_indirect d) ds \<and> length acc + length payload \<le> MAX_CHAIN_BYTES) \<and>
    (list_all (\<lambda>d. \<not> is_indirect d) ds \<longrightarrow> length acc + length payload \<le> MAX_CHAIN_BYTES \<longrightarrow> sc = acc @ payload)"
  using assms(2,3)
proof (induction ds arbitrary: acc payload)
  case (Cons d ds)
  show ?case
  proof (cases "is_indirect d \<or> is_writable d")
    case True
    then show ?thesis using Cons by auto
  next
    case False
    then obtain bs rest where bs: "mem_read R m (desc_addr d) (unat (desc_len d)) = Inr bs"
      and rest: "gather R m (map vq_of (filter (\<lambda>d. \<not> is_writable d) ds)) = Inr rest" and p: "payload = bs @ rest"
      using Cons.prems(1) by (auto simp: and_then_eqs)
    have len: "length bs = unat (desc_len d)" using guest_ram.read_length [OF assms(1) bs] .
    show ?thesis
    proof (cases "length acc + length bs \<le> MAX_CHAIN_BYTES")
      case True
      then show ?thesis
        using False bs len p Cons.IH [OF rest, of "acc @ bs"] by (simp add: read_from_small ac_simps)
    qed (use False len p in auto)
  qed
qed simp

definition frame_list :: "bytes option \<Rightarrow> bytes list" where
  "frame_list f = (case f of None \<Rightarrow> [] | Some f \<Rightarrow> [f])"

lemma tx_send_exact:
  assumes "guest_ram R" and "frame_backend B sent" and accepts: "\<And>b f. snd (nb_write_frame B b f) = Ok ()"
    and g: "gather R m (map vq_of (filter (\<lambda>d. \<not> is_writable d) ds)) = Ok payload"
    and sc: "tx_gather R m (map Inr ds) [] = Ok (sc, ok)"
  shows "\<exists>s'. tx_send B sc ok s = (s', Ok ()) \<and> nr_mem s' = nr_mem s \<and> nr_cursor s' = nr_cursor s \<and>
    sent (nr_backend s') = sent (nr_backend s) @ frame_list (tx_frame R m ds) \<and>
    completed_chains (nr_stats s') = completed_chains (nr_stats s) \<and>
    frames_moved (nr_stats s') = frames_moved (nr_stats s) + length (frame_list (tx_frame R m ds))"
proof -
  have ok: "ok \<longleftrightarrow> list_all (\<lambda>d. \<not> is_indirect d) ds \<and> length payload \<le> MAX_CHAIN_BYTES" "ok \<Longrightarrow> sc = payload"
    using tx_gather_exact [OF assms(1) g, of "[]"] sc by auto
  show ?thesis
  proof (cases "ok \<and> 72 \<le> length payload")
    case True
    then have "tx_frame R m ds = Some (drop VIRTIO_NET_HDR_LEN sc)" using ok g by (simp add: tx_frame_def net_limits)
    moreover obtain hd where "VirtioNetHdr_from_bytes (take VIRTIO_NET_HDR_LEN sc) = Inr hd"
      using net_header.dec_total [of "take VIRTIO_NET_HDR_LEN sc"] True ok by (auto simp: net_limits)
    moreover obtain b where b: "nb_write_frame B (nr_backend s) (drop VIRTIO_NET_HDR_LEN sc) = (b, Inr ())"
      using accepts by (metis prod.collapse)
    moreover have "sent b = sent (nr_backend s) @ [drop VIRTIO_NET_HDR_LEN sc]"
      using frame_backend.write_Ok [OF assms(2) b] .
    ultimately show ?thesis
      using True ok by (simp add: tx_send_def count_frame_def frame_list_def net_limits)
  next
    case False
    then have "tx_frame R m ds = None" using ok g by (auto simp: tx_frame_def net_limits)
    then show ?thesis using False ok by (auto simp: tx_send_def frame_list_def net_limits)
  qed
qed

lemma tx_step_exact:
  fixes B :: "('io, 'b) net_backend"
  assumes R: "guest_ram R" and B: "frame_backend B sent" "\<And>b f. snd (nb_write_frame B b f) = Ok ()"
    and h: "net_read_u16 R (nr_mem s) (qc_driver cfg + (4 + ucast (last_seen_avail (nr_cursor s) mod q) * 2)) = Ok h"
    and w: "walk t h = map Ok ds" and g: "gather R (nr_mem s) (map vq_of (filter (\<lambda>d. \<not> is_writable d) ds)) = Ok payload"
    and u: "used_ring_ok u" "ur_qsize u = q" "length (ur_bytes u) = used_ring_size q"
      "mem_read R (nr_mem s) (qc_device cfg) (used_ring_size q) = Ok (ur_bytes u)"
  shows "\<exists>s'. tx_step R B cfg q t s = (s', Ok ()) \<and>
    last_seen_avail (nr_cursor s') = last_seen_avail (nr_cursor s) + 1 \<and>
    sent (nr_backend s') = sent (nr_backend s) @ frame_list (tx_frame R (nr_mem s) ds) \<and>
    completed_chains (nr_stats s') = completed_chains (nr_stats s) + 1 \<and>
    frames_moved (nr_stats s') = frames_moved (nr_stats s) + length (frame_list (tx_frame R (nr_mem s) ds)) \<and>
    mem_read R (nr_mem s') (qc_device cfg) (used_ring_size q) = Ok (ur_bytes (snd (UsedRing_push (ucast h) 0 u)))"
proof -
  obtain sc ok where sc: "tx_gather R (nr_mem s) (map Inr ds) [] = Ok (sc, ok)"
    using tx_gather_exact [OF R g, of "[]"] by auto
  obtain s1 where s1: "tx_send B sc ok s = (s1, Ok ())" "nr_mem s1 = nr_mem s" "nr_cursor s1 = nr_cursor s"
    "sent (nr_backend s1) = sent (nr_backend s) @ frame_list (tx_frame R (nr_mem s) ds)"
    "completed_chains (nr_stats s1) = completed_chains (nr_stats s)"
    "frames_moved (nr_stats s1) = frames_moved (nr_stats s) + length (frame_list (tx_frame R (nr_mem s) ds))"
    using tx_send_exact [OF R B g sc, of s] by blast
  obtain m' where m': "net_push_used R (nr_mem s) (qc_device cfg) q (ucast h) 0 = (m', Ok ())"
    "mem_read R m' (qc_device cfg) (used_ring_size q) = Ok (ur_bytes (snd (UsedRing_push (ucast h) 0 u)))"
    using net_push_used_exact [OF R u] by blast
  then show ?thesis
    using h w sc s1 by (simp add: tx_step_def Let_def net_complete_def)
qed

text \<open>
  A chain that can be sent: its descriptors are linked to an end, its readable buffers are memory, and
  none of them overlaps the used ring.
\<close>

definition chain_of :: "descriptor list \<Rightarrow> u16 \<Rightarrow> descriptor list" where
  "chain_of t h = List.map_filter (\<lambda>r. case r of Inl _ \<Rightarrow> None | Inr d \<Rightarrow> Some d) (walk t h)"

lemma chain_of_walk: "walk t h = map Ok ds \<Longrightarrow> chain_of t h = ds"
  by (simp add: chain_of_def map_filter_def comp_def)

definition clear_of :: "u64 \<Rightarrow> u16 \<Rightarrow> descriptor \<Rightarrow> bool" where
  "clear_of used q d \<longleftrightarrow> unat (desc_addr d) + unat (desc_len d) \<le> unat used \<or> unat used + used_ring_size q \<le> unat (desc_addr d)"

definition tx_ready :: "(queue_error, 'm) mem_ops \<Rightarrow> 'm \<Rightarrow> u64 \<Rightarrow> u16 \<Rightarrow> descriptor list \<Rightarrow> u16 \<Rightarrow> bool" where
  "tx_ready R m used q t h \<longleftrightarrow>
     (\<exists>ds payload. walk t h = map Ok ds \<and> gather R m (map vq_of (filter (\<lambda>d. \<not> is_writable d) ds)) = Ok payload \<and>
        (\<forall>d \<in> set ds. \<not> is_writable d \<longrightarrow> clear_of used q d))"

lemma same_outside_mono: "same_outside R lo hi m m' \<Longrightarrow> lo' \<le> lo \<Longrightarrow> hi \<le> hi' \<Longrightarrow> same_outside R lo' hi' m m'"
  unfolding same_outside_def by (meson le_trans)

lemma net_read_head:
  assumes "guest_ram R" and "mem_read R m a (avail_ring_size q) = Ok ab" and "AvailRing_new ab q = Ok av"
  shows "net_read_u16 R m (a + 2) = Ok (AvailRing_idx av)"
    and "net_read_u16 R m (a + (4 + ucast (i mod q) * 2)) = Ok (AvailRing_head av i)"
proof -
  have av: "av = \<lparr>ar_bytes = ab, ar_qsize = q\<rparr>" and v: "validate_qsize q = Inr ()"
    using assms(3) by (auto simp: AvailRing_new_def and_then_eqs Let_def split: if_splits)
  note part = guest_ram.read_part [OF assms(1,2), of 2]
  show "net_read_u16 R m (a + 2) = Ok (AvailRing_idx av)"
    using part [of 2] by (simp add: net_read_u16_def av AvailRing_idx_def le16_at_def avail_ring_size_def)
  have "4 + ucast (i mod q) * 2 = (of_nat (4 + 2 * unat (i mod q)) :: u64)" by simp
  then show "net_read_u16 R m (a + (4 + ucast (i mod q) * 2)) = Ok (AvailRing_head av i)"
    using part [of "4 + 2 * unat (i mod q)"] slot_less [OF v, of i]
    by (simp only: net_read_u16_def) (simp add: av AvailRing_head_def le16_at_def avail_ring_size_def)
qed

lemma tx_ready_stable:
  assumes "guest_ram R" and "tx_ready R m used q t h" and "same_outside R (unat used) (unat used + used_ring_size q) m m'"
  shows "\<exists>payload. walk t h = map Ok (chain_of t h) \<and>
    gather R m' (map vq_of (filter (\<lambda>d. \<not> is_writable d) (chain_of t h))) = Ok payload \<and>
    tx_frame R m' (chain_of t h) = tx_frame R m (chain_of t h)"
proof -
  obtain ds payload where ds: "walk t h = map Ok ds" and g: "gather R m (map vq_of (filter (\<lambda>d. \<not> is_writable d) ds)) = Ok payload"
    and c: "\<forall>d \<in> set ds. \<not> is_writable d \<longrightarrow> clear_of used q d"
    using assms(2) by (auto simp: tx_ready_def)
  have "gather R m' (map vq_of (filter (\<lambda>d. \<not> is_writable d) ds)) = gather R m (map vq_of (filter (\<lambda>d. \<not> is_writable d) ds))"
    using c assms(3) by (intro guest_ram.gather_cong [OF assms(1)]) (auto simp: clear_of_def same_outside_def)
  with ds g show ?thesis by (simp add: chain_of_walk [OF ds] tx_frame_def)
qed

lemma avail_items_Cons:
  assumes "avail_items \<lparr>ai_ring = r, ai_next = c, ai_end = e\<rparr> = hs"
  shows "(hs = [] \<and> c = e) \<or> (c \<noteq> e \<and> hs = AvailRing_head r c # avail_items \<lparr>ai_ring = r, ai_next = c + 1, ai_end = e\<rparr>)"
  using assms by (subst (asm) avail_items.simps) (auto simp: AvailIter_next_def split: if_splits)

lemma tx_loop_exact:
  fixes B :: "('io, 'b) net_backend"
  assumes R: "guest_ram R" and B: "frame_backend B sent" "\<And>b f. snd (nb_write_frame B b f) = Ok ()"
    and ab: "mem_read R m (qc_driver cfg) (avail_ring_size q) = Ok ab" "AvailRing_new ab q = Ok av"
    and rings: "unat (qc_driver cfg) + avail_ring_size q \<le> unat (qc_device cfg) \<or>
      unat (qc_device cfg) + used_ring_size q \<le> unat (qc_driver cfg)"
    and hs: "avail_items \<lparr>ai_ring = av, ai_next = last_seen_avail (nr_cursor s), ai_end = e\<rparr> = hs"
    and ready: "\<forall>h \<in> set hs. tx_ready R m (qc_device cfg) q t h"
    and m: "same_outside R (unat (qc_device cfg)) (unat (qc_device cfg) + used_ring_size q) m (nr_mem s)"
    and u: "used_ring_ok u" "ur_qsize u = q" "length (ur_bytes u) = used_ring_size q"
      "mem_read R (nr_mem s) (qc_device cfg) (used_ring_size q) = Ok (ur_bytes u)"
  shows "\<exists>s'. tx_loop R B cfg q t e s = (s', Ok ()) \<and> last_seen_avail (nr_cursor s') = e \<and>
    sent (nr_backend s') = sent (nr_backend s) @ concat (map (\<lambda>h. frame_list (tx_frame R m (chain_of t h))) hs) \<and>
    completed_chains (nr_stats s') = completed_chains (nr_stats s) + length hs \<and>
    frames_moved (nr_stats s') = frames_moved (nr_stats s) + length (concat (map (\<lambda>h. frame_list (tx_frame R m (chain_of t h))) hs)) \<and>
    mem_read R (nr_mem s') (qc_device cfg) (used_ring_size q) = Ok (ur_bytes (push_all (map (\<lambda>h. (ucast h, 0)) hs) u))"
  using hs ready m u
proof (induction hs arbitrary: s u)
  case Nil
  then have "last_seen_avail (nr_cursor s) = e" using avail_items_Cons by blast
  then show ?case using Nil by (simp add: tx_loop.simps [of R B])
next
  case (Cons h hs)
  let ?c = "last_seen_avail (nr_cursor s)" and ?dev = "unat (qc_device cfg)"
  have c: "?c \<noteq> e" "h = AvailRing_head av ?c" "avail_items \<lparr>ai_ring = av, ai_next = ?c + 1, ai_end = e\<rparr> = hs"
    using avail_items_Cons [OF Cons.prems(1)] by auto
  have "mem_read R (nr_mem s) (qc_driver cfg) (avail_ring_size q) = Ok ab"
    using Cons.prems(3) rings ab(1) by (auto simp: same_outside_def)
  then have hd: "net_read_u16 R (nr_mem s) (qc_driver cfg + (4 + ucast (?c mod q) * 2)) = Ok h"
    using net_read_head(2) [OF R _ ab(2)] c(2) by simp
  obtain payload where w: "walk t h = map Ok (chain_of t h)"
    and g: "gather R (nr_mem s) (map vq_of (filter (\<lambda>d. \<not> is_writable d) (chain_of t h))) = Ok payload"
    and f: "tx_frame R (nr_mem s) (chain_of t h) = tx_frame R m (chain_of t h)"
    using tx_ready_stable [OF R _ Cons.prems(3), of t h] Cons.prems(2) by auto
  obtain s1 where s1: "tx_step R B cfg q t s = (s1, Ok ())" "last_seen_avail (nr_cursor s1) = ?c + 1"
    "sent (nr_backend s1) = sent (nr_backend s) @ frame_list (tx_frame R m (chain_of t h))"
    "completed_chains (nr_stats s1) = completed_chains (nr_stats s) + 1"
    "frames_moved (nr_stats s1) = frames_moved (nr_stats s) + length (frame_list (tx_frame R m (chain_of t h)))"
    "mem_read R (nr_mem s1) (qc_device cfg) (used_ring_size q) = Ok (ur_bytes (snd (UsedRing_push (ucast h) 0 u)))"
    using tx_step_exact [OF R B hd w g Cons.prems(4-7)] f by auto
  let ?u = "snd (UsedRing_push (ucast h) 0 u)"
  have fit: "?dev + used_ring_size q \<le> 2 ^ 64"
    using guest_ram.read_bound [OF R Cons.prems(7)] by (simp add: used_ring_size_def)
  have q0: "q \<noteq> 0" using Cons.prems(4,5) by (auto simp: used_ring_ok_def validate_qsize_def)
  have "same_outside R (?dev + 2) (?dev + 4 + 8 * unat q) (nr_mem s) (nr_mem s1)"
    using tx_step_progress [OF R B(1) _ q0 s1(1)] fit by (auto simp: tx_progress_def used_ring_size_def)
  then have "same_outside R ?dev (?dev + used_ring_size q) (nr_mem s) (nr_mem s1)"
    by (rule same_outside_mono) (auto simp: used_ring_size_def)
  then have m1: "same_outside R ?dev (?dev + used_ring_size q) m (nr_mem s1)" by (rule same_outside_trans [OF Cons.prems(3)])
  have u1: "used_ring_ok ?u" "ur_qsize ?u = q" "length (ur_bytes ?u) = used_ring_size q"
    using Cons.prems(4-6) guest_ram.read_length [OF R s1(6)] by (simp_all add: UsedRing_push_ok)
  have "\<forall>h \<in> set hs. tx_ready R m (qc_device cfg) q t h" using Cons.prems(2) by simp
  from Cons.IH [OF c(3) [folded s1(2)] this m1 u1 s1(6)] s1 c(1) show ?case
    by (auto simp: tx_loop.simps [of R B cfg q t e s])
qed

text \<open>
  C28: \<^verbatim>\<open>process_tx\<close> sends what the guest queued. When the rings and the readable buffers lie in guest
  memory and the used ring overlaps none of them, the call hands the backend exactly the frames of
  the available chains, in the order of the ring and without their headers, leaving out the chains
  that have an indirect descriptor or carry less than 60 or more than 1518 bytes of frame; every
  chain, sent or not, is pushed on the used ring as the virtqueue crate's \<^verbatim>\<open>UsedRing::push\<close> does,
  with length 0, and the cursor ends at the available index.
\<close>

theorem process_tx_exact:
  assumes "guest_ram R" and "frame_backend B sent" and "\<And>b f. snd (nb_write_frame B b f) = Ok ()"
    and "qc_ready cfg" and "net_validate_qsize (qc_size cfg) = Some q"
    and "read_descriptor_table R m (qc_desc cfg) q = Ok t"
    and "mem_read R m (qc_driver cfg) (avail_ring_size q) = Ok ab" and "AvailRing_new ab q = Ok av"
    and "mem_read R m (qc_device cfg) (used_ring_size q) = Ok ub" and "UsedRing_new ub q = Ok u"
    and "unat (qc_driver cfg) + avail_ring_size q \<le> unat (qc_device cfg) \<or>
      unat (qc_device cfg) + used_ring_size q \<le> unat (qc_driver cfg)"
    and "hs = avail_items (AvailRing_iter_new av (last_seen_avail cursor))" and "length hs \<le> unat q"
    and "\<forall>h \<in> set hs. tx_ready R m (qc_device cfg) q t h"
    and "fs = concat (map (\<lambda>h. frame_list (tx_frame R m (chain_of t h))) hs)"
  shows "\<exists>s'. process_tx R B cfg cursor m b = (s', Ok \<lparr>completed_chains = length hs, frames_moved = length fs\<rparr>) \<and>
    sent (nr_backend s') = sent b @ fs \<and> last_seen_avail (nr_cursor s') = AvailRing_idx av \<and>
    mem_read R (nr_mem s') (qc_device cfg) (used_ring_size q) = Ok (ur_bytes (push_all (map (\<lambda>h. (ucast h, 0)) hs) u))"
proof -
  let ?s = "net_run_start cursor m b"
  have u: "used_ring_ok u" "ur_qsize u = q" "ur_bytes u = ub" using assms(10) UsedRing_new_Ok_iff by auto
  have len: "length ub = used_ring_size q" using guest_ram.read_length [OF assms(1,9)] .
  have sane: "avail_delta_is_sane (last_seen_avail cursor) (AvailRing_idx av) q"
    using assms(12,13) by (simp add: avail_items_eq AvailRing_iter_new_def avail_delta_is_sane_def word_le_nat_alt)
  have "avail_items \<lparr>ai_ring = av, ai_next = last_seen_avail (nr_cursor ?s), ai_end = AvailRing_idx av\<rparr> = hs"
    using assms(12) by (simp add: AvailRing_iter_new_def net_run_start_def)
  from tx_loop_exact [OF assms(1-3,7,8,11) this assms(14) _ u(1,2)] assms(9) u(3) len assms(15)
  obtain s' where "tx_loop R B cfg q t (AvailRing_idx av) ?s = (s', Ok ())"
    "last_seen_avail (nr_cursor s') = AvailRing_idx av" "sent (nr_backend s') = sent (nr_backend ?s) @ fs"
    "completed_chains (nr_stats s') = completed_chains (nr_stats ?s) + length hs"
    "frames_moved (nr_stats s') = frames_moved (nr_stats ?s) + length fs"
    "mem_read R (nr_mem s') (qc_device cfg) (used_ring_size q) = Ok (ur_bytes (push_all (map (\<lambda>h. (ucast h, 0)) hs) u))"
    by (auto simp: net_run_start_def)
  then show ?thesis
    using assms(4-6) sane net_read_head(1) [OF assms(1,7,8)]
    by (auto simp: process_tx_def net_run_start_def ProcessStats_default_def Let_def)
qed

subsection \<open>Instances\<close>

text \<open>
  A queue of size one for the concrete instances: the descriptor table at 0 with one buffer at 40, the
  available ring at 16 with one entry published, the used ring at 24.
\<close>

definition net_sample_cfg :: queue_config where
  "net_sample_cfg = \<lparr>qc_size = 1, qc_ready = True, qc_desc = 0, qc_driver = 16, qc_device = 24\<rparr>"

definition net_sample_desc :: "u16 \<Rightarrow> bytes \<Rightarrow> descriptor" where
  "net_sample_desc flags b = \<lparr>desc_addr = 40, desc_len = of_nat (length b), desc_flags = flags, desc_next = 0\<rparr>"

definition net_sample_ram :: "u16 \<Rightarrow> bytes \<Rightarrow> slice_mem" where
  "net_sample_ram flags b = SliceGuestMemory_new 0
     (Descriptor_to_bytes (net_sample_desc flags b) @ sample_avail @ replicate 16 0 @ b)"

lemma net_sample_read:
  assumes "a + n \<le> 40 + length b" and "length b < 2000"
  shows "mem_read slice_ops (net_sample_ram flags b) (of_nat a) n = Inr (slice_at a n (sm_bytes (net_sample_ram flags b)))"
proof -
  have "unat (of_nat a :: u64) = a" using assms by (simp add: unat_of_nat)
  with assms show ?thesis
    by (simp add: slice_ops_def SliceGuestMemory_read_Ok_iff net_sample_ram_def SliceGuestMemory_new_def
        Descriptor_to_bytes_def sample_avail_def)
qed

lemma net_sample_qsize: "net_validate_qsize (qc_size net_sample_cfg) = Some 1" "validate_qsize 1 = Inr ()"
  by (auto simp: validate_qsize_Ok_iff MAX_QUEUE_SIZE_def is_power_of_two_iff net_validate_qsize_def
      MAX_SUPPORTED_QUEUE_SIZE_def QUEUE_SIZE_MAX_def net_sample_cfg_def intro: exI [of _ 0])

lemma net_sample_layout:
  assumes "length b < 2000"
  shows "read_descriptor_table slice_ops (net_sample_ram flags b) (qc_desc net_sample_cfg) 1 = Inr [net_sample_desc flags b]"
    and "mem_read slice_ops (net_sample_ram flags b) (qc_driver net_sample_cfg) (avail_ring_size 1) = Inr sample_avail"
    and "mem_read slice_ops (net_sample_ram flags b) (qc_device net_sample_cfg) (used_ring_size 1) = Inr (replicate 14 0)"
    and "mem_read slice_ops (net_sample_ram flags b) 40 (length b) = Inr b"
proof -
  note rd = net_sample_read [OF _ assms, of _ _ flags]
  have "mem_read slice_ops (net_sample_ram flags b) 0 16 = Inr (Descriptor_to_bytes (net_sample_desc flags b))"
    using rd [of 0 16] by (simp add: net_sample_ram_def SliceGuestMemory_new_def slice_at_def Descriptor_to_bytes_def)
  then show "read_descriptor_table slice_ops (net_sample_ram flags b) (qc_desc net_sample_cfg) 1 = Inr [net_sample_desc flags b]"
    using desc_codec.roundtrip [of "net_sample_desc flags b"]
    by (simp add: read_descriptor_table_def net_sample_cfg_def DESC_SIZE_def)
  show "mem_read slice_ops (net_sample_ram flags b) (qc_driver net_sample_cfg) (avail_ring_size 1) = Inr sample_avail"
    using rd [of 16 8] by (simp add: net_sample_ram_def SliceGuestMemory_new_def slice_at_def Descriptor_to_bytes_def
        net_sample_cfg_def avail_ring_size_def sample_avail_def)
  show "mem_read slice_ops (net_sample_ram flags b) (qc_device net_sample_cfg) (used_ring_size 1) = Inr (replicate 14 0)"
    using rd [of 24 14] by (simp add: net_sample_ram_def SliceGuestMemory_new_def slice_at_def Descriptor_to_bytes_def
        net_sample_cfg_def used_ring_size_def sample_avail_def)
  show "mem_read slice_ops (net_sample_ram flags b) 40 (length b) = Inr b"
    using rd [of 40 "length b"] by (simp add: net_sample_ram_def SliceGuestMemory_new_def slice_at_def Descriptor_to_bytes_def
        sample_avail_def)
qed

lemma net_sample_rings:
  "AvailRing_new sample_avail 1 = Inr \<lparr>ar_bytes = sample_avail, ar_qsize = 1\<rparr>"
  "UsedRing_new (replicate 14 0) 1 = Inr \<lparr>ur_bytes = replicate 14 0, ur_qsize = 1\<rparr>"
  "avail_items (AvailRing_iter_new \<lparr>ar_bytes = sample_avail, ar_qsize = 1\<rparr> 0) = [0]"
  by (simp_all add: AvailRing_new_def UsedRing_new_def net_sample_qsize avail_ring_size_def used_ring_size_def sample_avail_def
      avail_items_eq AvailRing_iter_new_def AvailRing_idx_def AvailRing_head_def le16_at_def slice_at_def)

lemma net_sample_chain:
  assumes "flags = 0 \<or> flags = 2"
  shows "walk [net_sample_desc flags b] 0 = map Inr [net_sample_desc flags b]" "chain_of [net_sample_desc flags b] 0 = [net_sample_desc flags b]"
    "\<not> is_indirect (net_sample_desc flags b)" "is_writable (net_sample_desc flags b) \<longleftrightarrow> flags = 2"
proof -
  have "chain_path [net_sample_desc flags b] 0 [net_sample_desc flags b]"
    using chain_path.path_last [of 0 "[net_sample_desc flags b]"] assms by (auto simp: has_next_def net_sample_desc_def DESC_F_NEXT_def)
  then show w: "walk [net_sample_desc flags b] 0 = map Inr [net_sample_desc flags b]" by (simp only: walk_Ok_path_iff)
  show "chain_of [net_sample_desc flags b] 0 = [net_sample_desc flags b]" by (rule chain_of_walk [OF w])
  show "\<not> is_indirect (net_sample_desc flags b)" "is_writable (net_sample_desc flags b) \<longleftrightarrow> flags = 2"
    using assms by (auto simp: is_indirect_def is_writable_def net_sample_desc_def DESC_F_INDIRECT_def DESC_F_WRITE_def)
qed

theorem process_tx_safe_witness:
  "let p = process_tx slice_ops (mock_ops :: (unit, mock_backend) net_backend) net_sample_cfg \<lparr>last_seen_avail = 0\<rparr>
     (net_sample_ram 0 (replicate 72 7)) MockBackend_new
   in list_all (\<lambda>f. 60 \<le> length f \<and> length f \<le> 1518) (mb_tx (nr_backend (fst p))) \<and>
     mem_read slice_ops (nr_mem (fst p)) 0 16 = mem_read slice_ops (net_sample_ram 0 (replicate 72 7)) 0 16"
proof -
  let ?p = "process_tx slice_ops (mock_ops :: (unit, mock_backend) net_backend) net_sample_cfg \<lparr>last_seen_avail = 0\<rparr>
     (net_sample_ram 0 (replicate 72 7)) MockBackend_new"
  have "unat (qc_device net_sample_cfg) + 4 + 8 * unat (qc_size net_sample_cfg) \<le> 2 ^ 64" by (simp add: net_sample_cfg_def)
  from process_tx_safe [OF slice_ram.guest_ram_axioms mock_net.frame_backend_axioms this prod.collapse [symmetric]]
  obtain fs where "mb_tx (nr_backend (fst ?p)) = mb_tx MockBackend_new @ fs" "list_all (\<lambda>f. 60 \<le> length f \<and> length f \<le> 1518) fs"
    and same: "\<And>a n. unat a + n \<le> unat (qc_device net_sample_cfg) + 2 \<Longrightarrow>
      mem_read slice_ops (nr_mem (fst ?p)) a n = mem_read slice_ops (net_sample_ram 0 (replicate 72 7)) a n"
    by blast
  moreover have "mem_read slice_ops (nr_mem (fst ?p)) 0 16 = mem_read slice_ops (net_sample_ram 0 (replicate 72 7)) 0 16"
    by (rule same) (simp add: net_sample_cfg_def)
  moreover have "mb_tx MockBackend_new @ fs = fs" by (simp add: MockBackend_new_def)
  ultimately show ?thesis unfolding Let_def by (simp only: simp_thms)
qed

lemma net_sample_tx:
  defines "b \<equiv> replicate 12 0 @ replicate 60 7"
  shows "tx_frame slice_ops (net_sample_ram 0 b) [net_sample_desc 0 b] = Some (replicate 60 7)"
    and "tx_ready slice_ops (net_sample_ram 0 b) (qc_device net_sample_cfg) 1 [net_sample_desc 0 b] 0"
proof -
  have b: "length b = 72" "drop 12 b = replicate 60 7" by (simp_all add: b_def)
  have r: "mem_read slice_ops (net_sample_ram 0 b) 40 72 = Inr b" using net_sample_layout(4) [of b 0] b by simp
  have g: "gather slice_ops (net_sample_ram 0 b) (map vq_of (filter (\<lambda>d. \<not> is_writable d) [net_sample_desc 0 b])) = Inr b"
    using r b by (simp add: net_sample_chain) (simp add: net_sample_desc_def)
  then show "tx_frame slice_ops (net_sample_ram 0 b) [net_sample_desc 0 b] = Some (replicate 60 7)"
    using b by (simp add: tx_frame_def net_sample_chain)
  show "tx_ready slice_ops (net_sample_ram 0 b) (qc_device net_sample_cfg) 1 [net_sample_desc 0 b] 0"
    unfolding tx_ready_def using g net_sample_chain(1) [of 0 b] b
    by (intro exI [of _ "[net_sample_desc 0 b]"] exI [of _ b])
      (auto simp: clear_of_def net_sample_desc_def net_sample_cfg_def used_ring_size_def)
qed

theorem process_tx_exact_witness:
  "\<exists>s'. process_tx slice_ops (mock_ops :: (unit, mock_backend) net_backend) net_sample_cfg \<lparr>last_seen_avail = 0\<rparr>
      (net_sample_ram 0 (replicate 12 0 @ replicate 60 7)) MockBackend_new =
        (s', Ok \<lparr>completed_chains = 1, frames_moved = 1\<rparr>) \<and>
    mb_tx (nr_backend s') = [replicate 60 7] \<and> last_seen_avail (nr_cursor s') = 1"
proof -
  let ?b = "replicate 12 0 @ replicate 60 7 :: bytes" and ?av = "\<lparr>ar_bytes = sample_avail, ar_qsize = 1\<rparr>"
    and ?cur = "\<lparr>last_seen_avail = 0\<rparr> :: queue_cursor"
  have len: "length ?b < 2000" by simp
  have acc: "snd (nb_write_frame (mock_ops :: (unit, mock_backend) net_backend) b f) = Ok ()" for b f
    by (simp add: mock_ops_def MockBackend_write_frame_def)
  have apart: "unat (qc_driver net_sample_cfg) + avail_ring_size 1 \<le> unat (qc_device net_sample_cfg) \<or>
      unat (qc_device net_sample_cfg) + used_ring_size 1 \<le> unat (qc_driver net_sample_cfg)"
    by (simp add: net_sample_cfg_def avail_ring_size_def)
  have rdy: "qc_ready net_sample_cfg" by (simp add: net_sample_cfg_def)
  have "[0] = avail_items (AvailRing_iter_new ?av (last_seen_avail ?cur))" "length [0 :: u16] \<le> unat (1 :: u16)"
    using net_sample_rings(3) by simp_all
  moreover have "\<forall>h \<in> set [0]. tx_ready slice_ops (net_sample_ram 0 ?b) (qc_device net_sample_cfg) 1 [net_sample_desc 0 ?b] h"
    using net_sample_tx(2) by simp
  moreover have "[replicate 60 7] =
      concat (map (\<lambda>h. frame_list (tx_frame slice_ops (net_sample_ram 0 ?b) (chain_of [net_sample_desc 0 ?b] h))) [0])"
    using net_sample_tx(1) net_sample_chain(2) [of 0 ?b] by (simp add: frame_list_def)
  ultimately obtain s' where "process_tx slice_ops (mock_ops :: (unit, mock_backend) net_backend) net_sample_cfg ?cur (net_sample_ram 0 ?b)
      MockBackend_new = (s', Ok \<lparr>completed_chains = length [0 :: u16], frames_moved = length [replicate 60 (7 :: u8)]\<rparr>)"
    "mb_tx (nr_backend s') = mb_tx MockBackend_new @ [replicate 60 7]" "last_seen_avail (nr_cursor s') = AvailRing_idx ?av"
    using process_tx_exact [OF slice_ram.guest_ram_axioms mock_net.frame_backend_axioms acc rdy net_sample_qsize(1)
        net_sample_layout(1,2) [OF len] net_sample_rings(1) net_sample_layout(3) [OF len] net_sample_rings(2) apart,
        where hs = "[0]" and cursor = ?cur and fs = "[replicate 60 7]" and b = MockBackend_new]
    by metis
  then show ?thesis by (simp add: MockBackend_new_def AvailRing_idx_def le16_at_def sample_avail_def slice_at_def)
qed


end
