(* ===== verification/Net_Receive.thy ===== *)
theory Net_Receive
  imports Net_Queue
begin

text \<open>
  The receive path of the network device: what a call of \<^verbatim>\<open>process_rx\<close> may change whatever the guest
  put in its memory, and what it delivers when the guest's queue is well formed.
\<close>

subsection \<open>Receiving\<close>

text \<open>Reads that touch neither the used ring nor a buffer of \<open>ds\<close>.\<close>

definition avoids :: "u64 \<Rightarrow> u16 \<Rightarrow> descriptor list \<Rightarrow> u64 \<Rightarrow> nat \<Rightarrow> bool" where
  "avoids used q ds a k \<longleftrightarrow> (unat a + k \<le> unat used \<or> unat used + used_ring_size q \<le> unat a) \<and>
     (\<forall>d \<in> set ds. unat a + k \<le> unat (desc_addr d) \<or> unat (desc_addr d) + unat (desc_len d) \<le> unat a)"

definition same_avoiding :: "('e, 'm) mem_ops \<Rightarrow> u64 \<Rightarrow> u16 \<Rightarrow> descriptor list \<Rightarrow> 'm \<Rightarrow> 'm \<Rightarrow> bool" where
  "same_avoiding R used q ds m m' \<longleftrightarrow> (\<forall>a k. avoids used q ds a k \<longrightarrow> mem_read R m' a k = mem_read R m a k) \<and>
     (\<forall>a k. is_ok (mem_read R m' a k) \<longleftrightarrow> is_ok (mem_read R m a k))"

lemma same_avoiding_refl [simp]: "same_avoiding R used q ds m m"
  by (simp add: same_avoiding_def)

lemma same_avoiding_trans:
  "same_avoiding R used q ds m m1 \<Longrightarrow> same_avoiding R used q ds m1 m2 \<Longrightarrow> same_avoiding R used q ds m m2"
  by (simp add: same_avoiding_def)

lemma same_avoiding_mono: "same_avoiding R used q ds m m' \<Longrightarrow> set ds \<subseteq> set es \<Longrightarrow> same_avoiding R used q es m m'"
  unfolding same_avoiding_def avoids_def by blast

lemma same_avoiding_outside:
  "same_outside R (unat used) (unat used + used_ring_size q) m m' \<Longrightarrow>
   (\<forall>a k. is_ok (mem_read R m' a k) \<longleftrightarrow> is_ok (mem_read R m a k)) \<Longrightarrow> same_avoiding R used q ds m m'"
  unfolding same_avoiding_def avoids_def same_outside_def by blast

lemma net_push_used_domain:
  assumes "guest_ram R"
  shows "is_ok (mem_read R (fst (net_push_used R m base q h l)) a k) \<longleftrightarrow> is_ok (mem_read R m a k)"
  using guest_ram.write_domain [OF assms] by (simp add: net_push_used_def Let_def split: sum.split)

lemma net_push_used_avoiding:
  assumes "guest_ram R" and "unat base + used_ring_size q \<le> 2 ^ 64" and "q \<noteq> 0"
  shows "same_avoiding R base q ds m (fst (net_push_used R m base q h l))"
proof -
  have "unat base + 4 + 8 * unat q \<le> 2 ^ 64" using assms(2) by (simp add: used_ring_size_def)
  from net_push_used_outside [OF assms(1) this assms(3), of m h l]
  have "same_outside R (unat base) (unat base + used_ring_size q) m (fst (net_push_used R m base q h l))"
    by (rule same_outside_mono) (auto simp: used_ring_size_def)
  then show ?thesis by (rule same_avoiding_outside) (simp add: net_push_used_domain [OF assms(1)])
qed

lemma rx_scatter_avoiding:
  assumes "guest_ram R"
  shows "same_avoiding R used q ds m (fst (rx_scatter R payload ds m n))"
proof (induction ds arbitrary: m n)
  case (Cons d ds)
  have "same_avoiding R used q (d # ds) m m1" if "write_to_guest R d m v = Inr (k, m1)" for v k m1
  proof -
    have w: "mem_write R m (desc_addr d) (take k v) = Inr m1" "k \<le> unat (desc_len d)"
      using that by (auto simp: write_to_guest_def Let_def and_then_eqs split: if_splits)
    then show ?thesis
      using guest_ram.write_frame [OF assms w(1)] guest_ram.write_domain [OF assms w(1)]
      by (fastforce simp: same_avoiding_def avoids_def)
  qed
  moreover have "same_avoiding R used q (d # ds) m1 (fst (rx_scatter R payload ds m1 j))" for m1 j
    using Cons [of m1 j] by (rule same_avoiding_mono) auto
  ultimately show ?case
    by (auto split: sum.splits) (blast intro: same_avoiding_trans)
qed simp

lemma rx_collect_writable:
  "rx_collect rs acc = Inr (ws, ok) \<Longrightarrow> set ws \<subseteq> set acc \<union> {d. Inr d \<in> set rs \<and> is_writable d}"
  by (induction rs arbitrary: acc) (fastforce split: sum.splits if_splits)+

lemma walk_in_table: "Inr d \<in> set (walk t h) \<Longrightarrow> d \<in> set t"
  using chain_items_shape [of 0 t h] by (auto simp: walk_step_form)

text \<open>
  What a run of the receive loop may do: \<open>j\<close> frames delivered and \<open>k\<close> chains completed, with
  writes to the used ring and to writable buffers only.
\<close>

definition rx_progress ::
    "('e, 'm) mem_ops \<Rightarrow> ('b \<Rightarrow> bytes list) \<Rightarrow> u64 \<Rightarrow> u16 \<Rightarrow> descriptor list \<Rightarrow> nat \<Rightarrow> nat \<Rightarrow> ('m, 'b) net_run \<Rightarrow> ('m, 'b) net_run \<Rightarrow> bool" where
  "rx_progress R sent used q ds k j s s' \<longleftrightarrow>
     sent (nr_backend s') = sent (nr_backend s) \<and> j \<le> k \<and>
     last_seen_avail (nr_cursor s') = last_seen_avail (nr_cursor s) + of_nat k \<and>
     completed_chains (nr_stats s') = completed_chains (nr_stats s) + k \<and>
     frames_moved (nr_stats s') = frames_moved (nr_stats s) + j \<and>
     same_avoiding R used q ds (nr_mem s) (nr_mem s')"

lemma rx_progress_refl [simp]: "rx_progress R sent used q ds 0 0 s s"
  by (simp add: rx_progress_def)

lemma rx_progress_trans:
  "rx_progress R sent used q ds k j s t \<Longrightarrow> rx_progress R sent used q ds k' j' t u \<Longrightarrow>
    rx_progress R sent used q ds (k + k') (j + j') s u"
  by (auto simp: rx_progress_def intro: same_avoiding_trans)

lemma net_complete_rx:
  assumes "guest_ram R" and "unat (qc_device cfg) + used_ring_size q \<le> 2 ^ 64" and "q \<noteq> 0"
    and "net_complete R cfg q head len s = (s', r)"
  shows "rx_progress R sent (qc_device cfg) q ds (if is_ok r then 1 else 0) 0 s s'"
  using assms(4) net_push_used_avoiding [OF assms(1-3), of ds "nr_mem s" "ucast head" len]
  by (auto simp: net_complete_def rx_progress_def split: prod.splits sum.splits)

lemma rx_deliver_progress:
  fixes r :: "('io net_error, unit) result"
  assumes "guest_ram R" and "unat (qc_device cfg) + used_ring_size q \<le> 2 ^ 64" and "q \<noteq> 0"
    and "set ws \<subseteq> set ds" and "rx_deliver R cfg q head ws frame s = (s', r)"
  shows "rx_progress R sent (qc_device cfg) q ds (if is_ok r then 1 else 0) (if is_ok r then 1 else 0) s s'"
proof -
  obtain m1 r1 where m1: "rx_scatter R (VirtioNetHdr_to_bytes no_offload @ frame) ws (nr_mem s) 0 = (m1, r1)"
    by (cases "rx_scatter R (VirtioNetHdr_to_bytes no_offload @ frame) ws (nr_mem s) 0")
  have "same_avoiding R (qc_device cfg) q ds (nr_mem s) m1"
    using same_avoiding_mono [OF rx_scatter_avoiding [OF assms(1)] assms(4)] m1 by (metis fst_conv)
  then have p: "rx_progress R sent (qc_device cfg) q ds 0 0 s (s\<lparr>nr_mem := m1\<rparr>)" by (simp add: rx_progress_def)
  show ?thesis
  proof (cases r1)
    case (Inl e)
    then show ?thesis using assms(5) m1 p by (auto simp: rx_deliver_def)
  next
    case (Inr n)
    obtain s2 and r2 :: "('io net_error, unit) result"
      where s2: "net_complete R cfg q head (of_nat n) (s\<lparr>nr_mem := m1\<rparr>) = (s2, r2)" by fastforce
    then have "s' = (if is_ok r2 then count_frame s2 else s2)" "is_ok r = is_ok r2"
      using assms(5) m1 Inr by (auto simp: rx_deliver_def split: sum.splits)
    with rx_progress_trans [OF p net_complete_rx [OF assms(1-3) s2, of sent ds]] show ?thesis
      by (auto simp: rx_progress_def count_frame_def split: if_splits)
  qed
qed

lemma rx_step_progress:
  fixes B :: "('io, 'b) net_backend"
  assumes R: "guest_ram R" and B: "frame_backend B sent" and fit: "unat (qc_device cfg) + used_ring_size q \<le> 2 ^ 64" and q: "q \<noteq> 0"
    and step: "rx_step R B cfg q t (buf, s) = ((buf', s'), r)"
  shows "\<exists>j. rx_progress R sent (qc_device cfg) q (filter is_writable t) (if r = Inr True then 1 else 0) j s s'"
proof -
  let ?P = "\<lambda>k j s s'. rx_progress R sent (qc_device cfg) q (filter is_writable t) k j s s'"
  have read: "?P 0 0 s (s\<lparr>nr_backend := b\<rparr>)" if "nb_read_frame B (nr_backend s) buf = (b, x)" for b x
    using frame_backend.read_sent [OF B, of "nr_backend s" buf] that by (simp add: rx_progress_def)
  show ?thesis
  proof (cases "\<exists>b. s' = s\<lparr>nr_backend := b\<rparr> \<and> r \<noteq> Inr True \<and> (\<exists>x. nb_read_frame B (nr_backend s) buf = (b, x))")
    case True
    then show ?thesis using read by auto
  next
    case False
    then obtain b n head ws ok and r' :: "('io net_error, unit) result" where
      b: "nb_read_frame B (nr_backend s) buf = (b, Inr (n, buf'))" and ws: "rx_collect (walk t head) [] = Inr (ws, ok)"
      and r: "r = map_sum id (\<lambda>_. True) r'"
      and s': "if \<not> ok \<or> sum_list (map (\<lambda>d. unat (desc_len d)) ws) < VIRTIO_NET_HDR_LEN + n
             then net_complete R cfg q head 0 (s\<lparr>nr_backend := b\<rparr>) = (s', r')
             else rx_deliver R cfg q head ws (take n buf') (s\<lparr>nr_backend := b\<rparr>) = (s', r')"
      using rx_step_cases [OF step] by (elim disjE exE conjE) (blast | simp)+
    have sub: "set ws \<subseteq> set (filter is_writable t)"
      using rx_collect_writable [OF ws] walk_in_table by fastforce
    have k: "(if r = Inr True then 1 else 0) = (if is_ok r' then 1 else (0 :: nat))" unfolding r by (cases r') auto
    have "\<exists>j. ?P (if is_ok r' then 1 else 0) j (s\<lparr>nr_backend := b\<rparr>) s'"
    proof (cases "\<not> ok \<or> sum_list (map (\<lambda>d. unat (desc_len d)) ws) < VIRTIO_NET_HDR_LEN + n")
      case True
      then have "net_complete R cfg q head 0 (s\<lparr>nr_backend := b\<rparr>) = (s', r')" using s' by simp
      from net_complete_rx [OF R fit q this] show ?thesis by blast
    next
      case False
      then have "rx_deliver R cfg q head ws (take n buf') (s\<lparr>nr_backend := b\<rparr>) = (s', r')" using s' by simp
      from rx_deliver_progress [OF R fit q sub this] show ?thesis by blast
    qed
    then show ?thesis unfolding k using rx_progress_trans [OF read [OF b]] by fastforce
  qed
qed

lemma rx_loop_progress:
  fixes B :: "('io, 'b) net_backend"
  assumes R: "guest_ram R" and B: "frame_backend B sent" and fit: "unat (qc_device cfg) + used_ring_size q \<le> 2 ^ 64" and q: "q \<noteq> 0"
    and "rx_loop R B cfg q t avail p = (p', r)"
  shows "\<exists>k j. k \<le> unat (avail - last_seen_avail (nr_cursor (snd p))) \<and>
    rx_progress R sent (qc_device cfg) q (filter is_writable t) k j (snd p) (snd p')"
  using assms
proof (induction R B cfg q t avail p rule: rx_loop.induct)
  case (1 R B cfg q t avail p)
  show ?case
  proof (cases "last_seen_avail (nr_cursor (snd p)) = avail")
    case True
    then have "p' = p" using "1.prems"(5) by (simp add: rx_loop.simps [of R B])
    then show ?thesis by (intro exI [of _ 0]) simp
  next
    case False
    obtain p1 r1 where step: "rx_step R B cfg q t p = (p1, r1)" by (cases "rx_step R B cfg q t p")
    obtain j where j: "rx_progress R sent (qc_device cfg) q (filter is_writable t) (if r1 = Inr True then 1 else 0) j (snd p) (snd p1)"
      using rx_step_progress [OF "1.prems"(1-4), of t "fst p" "snd p" "fst p1" "snd p1" r1] step by auto
    have closer: "unat (avail - (last_seen_avail (nr_cursor (snd p)) + 1)) + 1 = unat (avail - last_seen_avail (nr_cursor (snd p)))"
      using cursor_closer [OF False] .
    show ?thesis
    proof (cases "r1 = Inr True")
      case True
      then have rest: "rx_loop R B cfg q t avail p1 = (p', r)"
        using "1.prems"(5) step False by (simp add: rx_loop.simps [of R B cfg q t avail p])
      have c1: "last_seen_avail (nr_cursor (snd p1)) = last_seen_avail (nr_cursor (snd p)) + 1" using j True by (simp add: rx_progress_def)
      obtain k i where k: "k \<le> unat (avail - last_seen_avail (nr_cursor (snd p1)))"
        and p: "rx_progress R sent (qc_device cfg) q (filter is_writable t) k i (snd p1) (snd p')"
        using "1.IH" [OF False step [symmetric] True _ "1.prems"(1-4) rest] by blast
      have "rx_progress R sent (qc_device cfg) q (filter is_writable t) (1 + k) (j + i) (snd p) (snd p')"
        using rx_progress_trans [OF j p] True by simp
      then show ?thesis using k closer c1 by (intro exI [of _ "1 + k"] exI [of _ "j + i"]) simp
    next
      case False2: False
      then have "p' = p1"
        using "1.prems"(5) step False by (auto simp: rx_loop.simps [of R B cfg q t avail p] split: sum.splits if_splits)
      then show ?thesis using j False2 by (intro exI [of _ 0] exI [of _ j]) simp
    qed
  qed
qed

text \<open>
  C31: However a guest fills its memory, one call of \<^verbatim>\<open>process_rx\<close> completes at most 256 chains, sends
  nothing, delivers at most one frame for each chain it completes, and writes nowhere but in the used
  ring and in buffers that the descriptor table marks as writable.
\<close>

theorem process_rx_safe:
  assumes "guest_ram R" and "frame_backend B sent"
    and "net_validate_qsize (qc_size cfg) = Some q" and "read_descriptor_table R mem (qc_desc cfg) q = Ok t"
    and "unat (qc_device cfg) + used_ring_size q \<le> 2 ^ 64"
    and "process_rx R B cfg cursor mem backend = (s', r)"
  shows "\<exists>k j. sent (nr_backend s') = sent backend \<and> k \<le> 256 \<and> j \<le> k \<and>
    last_seen_avail (nr_cursor s') = last_seen_avail cursor + of_nat k \<and>
    (\<forall>st. r = Ok st \<longrightarrow> completed_chains st = k \<and> frames_moved st = j) \<and>
    (\<forall>a n. (unat a + n \<le> unat (qc_device cfg) \<or> unat (qc_device cfg) + used_ring_size q \<le> unat a) \<and>
       (\<forall>d \<in> set t. is_writable d \<longrightarrow>
          unat a + n \<le> unat (desc_addr d) \<or> unat (desc_addr d) + unat (desc_len d) \<le> unat a) \<longrightarrow>
       mem_read R (nr_mem s') a n = mem_read R mem a n)"
proof -
  let ?s = "net_run_start cursor mem backend"
  note q' = net_validate_qsize_Some [OF assms(3)]
  have "\<exists>k j. k \<le> 256 \<and> rx_progress R sent (qc_device cfg) q (filter is_writable t) k j ?s s' \<and> (\<forall>st. r = Ok st \<longrightarrow> st = nr_stats s')"
  proof (cases "s' = ?s \<and> (\<forall>st. r = Ok st \<longrightarrow> st = nr_stats s')")
    case True
    then show ?thesis by (intro exI [of _ 0]) auto
  next
    case False
    then obtain avail buf r' where sane: "avail_delta_is_sane (last_seen_avail cursor) avail q"
      and loop: "rx_loop R B cfg q t avail (replicate MAX_FRAME_LEN 0, ?s) = ((buf, s'), r')"
      and r: "\<forall>st. r = Ok st \<longrightarrow> st = nr_stats s'"
      using assms(3,4,6) by (auto simp: process_rx_def Let_def split: if_splits option.splits sum.splits prod.splits)
    have n: "unat (avail - last_seen_avail (nr_cursor ?s)) \<le> 256"
      using sane q'(3) by (simp add: avail_delta_is_sane_def word_le_nat_alt net_run_start_def)
    from rx_loop_progress [OF assms(1,2,5) q'(1) loop] n r show ?thesis by (metis le_trans snd_conv)
  qed
  then obtain k j where "k \<le> 256" and p: "rx_progress R sent (qc_device cfg) q (filter is_writable t) k j ?s s'"
    and r: "\<forall>st. r = Ok st \<longrightarrow> st = nr_stats s'"
    by blast
  moreover have "mem_read R (nr_mem s') a n = mem_read R mem a n" if "avoids (qc_device cfg) q (filter is_writable t) a n" for a n
    using p that by (simp add: rx_progress_def same_avoiding_def net_run_start_def)
  ultimately show ?thesis
    by (intro exI [of _ k] exI [of _ j])
      (auto simp: rx_progress_def net_run_start_def ProcessStats_default_def avoids_def)
qed

subsection \<open>What is delivered\<close>

abbreviation rx_buffers :: "descriptor list \<Rightarrow> u16 \<Rightarrow> descriptor list" where
  "rx_buffers t h \<equiv> filter is_writable (chain_of t h)"

definition rx_ready :: "(queue_error, 'm) mem_ops \<Rightarrow> 'm \<Rightarrow> descriptor list \<Rightarrow> u16 \<Rightarrow> bool" where
  "rx_ready R m t h \<longleftrightarrow> walk t h = map Ok (chain_of t h) \<and> list_all (\<lambda>d. \<not> is_indirect d) (chain_of t h) \<and>
     (\<forall>d \<in> set (rx_buffers t h). is_ok (mem_read R m (desc_addr d) (unat (desc_len d)))) \<and>
     1530 \<le> capacity (map vq_of (rx_buffers t h))"

definition delivered :: "(queue_error, 'm) mem_ops \<Rightarrow> 'm \<Rightarrow> descriptor list \<Rightarrow> u16 \<Rightarrow> bytes \<Rightarrow> bool" where
  "delivered R m t h frame \<longleftrightarrow>
     (\<exists>rest. gather R m (map vq_of (rx_buffers t h)) = Ok (VirtioNetHdr_to_bytes no_offload @ take 1518 frame @ rest))"

lemma rx_ready_stable: "rx_ready R m t h \<Longrightarrow> same_avoiding R used q ds m m' \<Longrightarrow> rx_ready R m' t h"
  by (simp add: rx_ready_def same_avoiding_def)

lemma gather_total: "(\<forall>d \<in> set ds. is_ok (mem_read R m (desc_addr d) (unat (desc_len d)))) \<Longrightarrow> \<exists>b. gather R m (map vq_of ds) = Inr b"
  by (induction ds) (auto simp: is_ok_iff)

lemma rx_scatter_scatter:
  assumes "\<forall>d \<in> set ds. is_writable d" and "n \<le> length p"
  shows "rx_scatter R p ds m n = scatter R p (map vq_of ds) m n"
  using assms
proof (induction ds arbitrary: m n)
  case (Cons d ds)
  let ?k = "min (unat (desc_len d)) (length p - n)"
  have "n + ?k \<le> length p" using Cons.prems(2) by simp
  then show ?case
    using Cons by (auto simp: write_to_guest_def Let_def and_then_def slice_at_def split: sum.splits)
qed simp

lemma rx_collect_exact:
  "list_all (\<lambda>d. \<not> is_indirect d) ds \<Longrightarrow> rx_collect (map Inr ds) acc = Inr (acc @ filter is_writable ds, True)"
  by (induction ds arbitrary: acc) auto

lemma gather_avoiding:
  assumes "guest_ram R" and "same_avoiding R used q ds m m'" and "\<forall>d \<in> set ws. avoids used q ds (desc_addr d) (unat (desc_len d))"
  shows "gather R m' (map vq_of ws) = gather R m (map vq_of ws)"
  using assms(2,3) by (intro guest_ram.gather_cong [OF assms(1)]) (auto simp: same_avoiding_def)

lemma rx_deliver_exact:
  assumes R: "guest_ram R" and ready: "rx_ready R (nr_mem s) t h" and f: "length frame \<le> 1518"
    and ap: "sorted_wrt apart (map vq_of (rx_buffers t h))" and clear: "\<forall>d \<in> set (rx_buffers t h). clear_of (qc_device cfg) q d"
    and u: "used_ring_ok u" "ur_qsize u = q" "length (ur_bytes u) = used_ring_size q"
      "mem_read R (nr_mem s) (qc_device cfg) (used_ring_size q) = Ok (ur_bytes u)"
  shows "\<exists>s'. rx_deliver R cfg q h (rx_buffers t h) frame s = (s', Ok ()) \<and> delivered R (nr_mem s') t h frame \<and>
    nr_backend s' = nr_backend s \<and> last_seen_avail (nr_cursor s') = last_seen_avail (nr_cursor s) + 1 \<and>
    completed_chains (nr_stats s') = completed_chains (nr_stats s) + 1 \<and> frames_moved (nr_stats s') = frames_moved (nr_stats s) + 1 \<and>
    mem_read R (nr_mem s') (qc_device cfg) (used_ring_size q) =
      Ok (ur_bytes (snd (UsedRing_push (ucast h) (of_nat (12 + length frame)) u)))"
proof -
  let ?ws = "rx_buffers t h" and ?p = "VirtioNetHdr_to_bytes no_offload @ frame"
  have hl: "length (VirtioNetHdr_to_bytes no_offload) = 12" using net_header.enc_length by (simp add: VIRTIO_NET_HDR_LEN_def)
  obtain old where old: "gather R (nr_mem s) (map vq_of ?ws) = Inr old"
    using gather_total [of ?ws R "nr_mem s"] ready by (auto simp: rx_ready_def)
  have cap: "1530 \<le> capacity (map vq_of ?ws)" using ready by (simp add: rx_ready_def)
  then have n: "min (0 + capacity (map vq_of ?ws)) (length ?p) = length ?p" using f hl by simp
  obtain m1 where m1: "scatter R ?p (map vq_of ?ws) (nr_mem s) 0 = (m1, Inr (length ?p))"
    and g1: "gather R m1 (map vq_of ?ws) = Inr (?p @ drop (length ?p) old)"
    and fr: "\<And>a k. \<forall>d \<in> set (map vq_of ?ws). unat a + k \<le> unat (vd_addr d) \<or> unat (vd_addr d) + unat (vd_len d) \<le> unat a \<Longrightarrow>
      mem_read R m1 a k = mem_read R (nr_mem s) a k"
    using guest_ram.scatter_gather [OF R old ap, of 0 ?p] unfolding n by (auto simp: slice_at_def)
  have sc: "rx_scatter R ?p ?ws (nr_mem s) 0 = (m1, Inr (length ?p))"
    using m1 by (simp add: rx_scatter_scatter)
  have "mem_read R m1 (qc_device cfg) (used_ring_size q) = Ok (ur_bytes u)"
    using fr [of "qc_device cfg" "used_ring_size q"] clear u(4) by (fastforce simp: clear_of_def)
  then obtain m2 where m2: "net_push_used R m1 (qc_device cfg) q (ucast h) (of_nat (length ?p)) = (m2, Ok ())"
    and r2: "mem_read R m2 (qc_device cfg) (used_ring_size q) = Ok (ur_bytes (snd (UsedRing_push (ucast h) (of_nat (length ?p)) u)))"
    using net_push_used_exact [OF R u(1-3)] by blast
  have fit: "unat (qc_device cfg) + used_ring_size q \<le> 2 ^ 64" using guest_ram.read_bound [OF R u(4)] by (simp add: used_ring_size_def)
  have q0: "q \<noteq> 0" using u(1,2) by (auto simp: used_ring_ok_def validate_qsize_def)
  have "same_avoiding R (qc_device cfg) q [] m1 m2"
    using net_push_used_avoiding [OF R fit q0, of "[]" m1 "ucast h" "of_nat (length ?p)"] m2 by simp
  then have "gather R m2 (map vq_of ?ws) = Inr (?p @ drop (length ?p) old)"
    using gather_avoiding [OF R, of _ _ "[]" m1 m2 ?ws] g1 clear by (auto simp: avoids_def clear_of_def)
  then have "delivered R m2 t h frame" using f by (auto simp: delivered_def)
  then show ?thesis
    using sc m2 r2 hl by (simp add: rx_deliver_def Let_def net_complete_def count_frame_def)
qed

lemma used_ring_room:
  assumes "guest_ram R" and "used_ring_ok u" and "ur_qsize u = q" and "length (ur_bytes u) = used_ring_size q"
    and "mem_read R m base (used_ring_size q) = Ok (ur_bytes u)"
  shows "unat base + used_ring_size q \<le> 2 ^ 64" and "q \<noteq> 0"
  using guest_ram.read_bound [OF assms(1,5)] assms(2,3) by (auto simp: used_ring_size_def used_ring_ok_def validate_qsize_def)

lemma rx_step_go:
  fixes B :: "('io, 'b) net_backend"
  assumes "nb_read_frame B (nr_backend s) buf = (b, Ok (n, buf'))" and "0 < n" and "n \<le> length buf'"
    and "net_read_u16 R (nr_mem s) (qc_driver cfg + (4 + ucast (last_seen_avail (nr_cursor s) mod q) * 2)) = Ok h"
    and "rx_collect (walk t h) [] = Ok (ws, True)" and "VIRTIO_NET_HDR_LEN + n \<le> sum_list (map (\<lambda>d. unat (desc_len d)) ws)"
    and "rx_deliver R cfg q h ws (take n buf') (s\<lparr>nr_backend := b\<rparr>) = (s', (Ok () :: ('io net_error, unit) result))"
  shows "rx_step R B cfg q t (buf, s) = ((buf', s'), Ok True)"
proof -
  have "\<not> length buf' < n" "\<not> sum_list (map (\<lambda>d. unat (desc_len d)) ws) < VIRTIO_NET_HDR_LEN + length (take n buf')"
    using assms(3,6) by simp_all
  then show ?thesis using assms(2) by (simp add: rx_step_def Let_def assms(1,4,5,7) del: length_take)
qed

lemma rx_step_exact:
  assumes R: "guest_ram R" and ready: "rx_ready R (nr_mem s) t h"
    and hd: "net_read_u16 R (nr_mem s) (qc_driver cfg + (4 + ucast (last_seen_avail (nr_cursor s) mod q) * 2)) = Ok h"
    and ap: "sorted_wrt apart (map vq_of (rx_buffers t h))" and clear: "\<forall>d \<in> set (rx_buffers t h). clear_of (qc_device cfg) q d"
    and u: "used_ring_ok u" "ur_qsize u = q" "length (ur_bytes u) = used_ring_size q"
      "mem_read R (nr_mem s) (qc_device cfg) (used_ring_size q) = Ok (ur_bytes u)"
    and rx: "mb_rx (nr_backend s) = frame # rest" "frame \<noteq> []" and buf: "length buf = MAX_FRAME_LEN"
  shows "\<exists>buf' s'. rx_step R (mock_ops :: ('io, mock_backend) net_backend) cfg q t (buf, s) = ((buf', s'), Ok True) \<and> length buf' = MAX_FRAME_LEN \<and>
    delivered R (nr_mem s') t h frame \<and> nr_backend s' = (nr_backend s)\<lparr>mb_rx := rest\<rparr> \<and>
    last_seen_avail (nr_cursor s') = last_seen_avail (nr_cursor s) + 1 \<and>
    completed_chains (nr_stats s') = completed_chains (nr_stats s) + 1 \<and> frames_moved (nr_stats s') = frames_moved (nr_stats s) + 1 \<and>
    mem_read R (nr_mem s') (qc_device cfg) (used_ring_size q) =
      Ok (ur_bytes (snd (UsedRing_push (ucast h) (of_nat (12 + length (take 1518 frame))) u))) \<and>
    same_avoiding R (qc_device cfg) q (rx_buffers t h) (nr_mem s) (nr_mem s')"
proof -
  let ?n = "min (length frame) 1518" and ?b = "(nr_backend s)\<lparr>mb_rx := rest\<rparr>" and ?f = "take 1518 frame"
  have "\<exists>buf'. nb_read_frame (mock_ops :: ('io, mock_backend) net_backend) (nr_backend s) buf = (?b, Ok (?n, buf')) \<and> take ?n buf' = ?f"
    using mock_read_next [OF rx(1), of buf] buf by (simp add: MAX_FRAME_LEN_def)
  then obtain buf' where buf': "nb_read_frame (mock_ops :: ('io, mock_backend) net_backend) (nr_backend s) buf = (?b, Ok (?n, buf'))"
    and f: "take ?n buf' = ?f"
    by blast
  let ?s = "s\<lparr>nr_backend := ?b\<rparr>"
  have len: "length buf' = 1518" using mock_net.read_fits [OF buf'] buf by (simp add: MAX_FRAME_LEN_def)
  have n: "0 < ?n" "?n \<le> length buf'" "?n = length ?f" "length ?f \<le> 1518" using rx(2) len by simp_all
  have c: "rx_collect (walk t h) [] = Inr (rx_buffers t h, True)"
    using rx_collect_exact [of "chain_of t h" "[]"] ready unfolding rx_ready_def by simp
  have "1530 \<le> sum_list (map (\<lambda>d. unat (desc_len d)) (rx_buffers t h))"
    using ready by (simp add: rx_ready_def comp_def)
  then have cap: "VIRTIO_NET_HDR_LEN + ?n \<le> sum_list (map (\<lambda>d. unat (desc_len d)) (rx_buffers t h))"
    unfolding VIRTIO_NET_HDR_LEN_def by linarith
  have "rx_ready R (nr_mem ?s) t h" "mem_read R (nr_mem ?s) (qc_device cfg) (used_ring_size q) = Ok (ur_bytes u)"
    using ready u(4) by simp_all
  from rx_deliver_exact [OF R this(1) n(4) ap clear u(1-3) this(2)] obtain s' where
    s': "rx_deliver R cfg q h (rx_buffers t h) ?f ?s = (s', (Ok () :: ('io net_error, unit) result))"
    and d: "delivered R (nr_mem s') t h ?f"
    and rest: "nr_backend s' = nr_backend ?s" "last_seen_avail (nr_cursor s') = last_seen_avail (nr_cursor ?s) + 1"
      "completed_chains (nr_stats s') = completed_chains (nr_stats ?s) + 1" "frames_moved (nr_stats s') = frames_moved (nr_stats ?s) + 1"
      "mem_read R (nr_mem s') (qc_device cfg) (used_ring_size q) = Ok (ur_bytes (snd (UsedRing_push (ucast h) (of_nat (12 + length ?f)) u)))"
    by blast
  have "rx_step R (mock_ops :: ('io, mock_backend) net_backend) cfg q t (buf, s) = ((buf', s'), (Ok True :: ('io net_error, bool) result))"
    using s' unfolding f [symmetric] by (rule rx_step_go [OF buf' n(1,2) hd c cap])
  moreover have "delivered R (nr_mem s') t h frame" using d by (simp add: delivered_def)
  moreover have "same_avoiding R (qc_device cfg) q (rx_buffers t h) (nr_mem s) (nr_mem s')"
    using rx_deliver_progress [OF R _ _ subset_refl s', of mb_tx] used_ring_room [OF R u] by (simp add: rx_progress_def)
  ultimately show ?thesis using rest len
    by (intro exI [of _ buf'] exI [of _ s']) (simp add: MAX_FRAME_LEN_def del: length_take)
qed

lemma rx_step_idle:
  assumes "mb_rx (nr_backend s) = []"
  shows "rx_step R mock_ops cfg q t (buf, s) = ((buf, s), Ok False)"
  using assms by (cases s) (simp add: rx_step_def mock_ops_def MockBackend_read_frame_def)

lemma delivered_avoiding:
  assumes "guest_ram R" and "delivered R m t h f" and "same_avoiding R used q ds m m'"
    and "\<forall>d \<in> set (rx_buffers t h). clear_of used q d" and "\<forall>d \<in> set (rx_buffers t h). \<forall>e \<in> set ds. apart (vq_of d) (vq_of e)"
  shows "delivered R m' t h f"
  using assms(2) gather_avoiding [OF assms(1,3), of "rx_buffers t h"] assms(4,5)
  by (fastforce simp: delivered_def avoids_def clear_of_def apart_def)

definition rx_results :: "(u16 \<times> bytes) list \<Rightarrow> (u32 \<times> u32) list" where
  "rx_results ps = map (\<lambda>(h, f). (ucast h, of_nat (12 + min (length f) 1518))) ps"

lemma rx_loop_exact:
  assumes R: "guest_ram R" and av: "AvailRing_new ab q = Ok av"
    and hs: "avail_items \<lparr>ai_ring = av, ai_next = last_seen_avail (nr_cursor s), ai_end = e\<rparr> = hs"
    and ab: "mem_read R (nr_mem s) (qc_driver cfg) (avail_ring_size q) = Ok ab"
    and rings: "avoids (qc_device cfg) q (concat (map (rx_buffers t) hs)) (qc_driver cfg) (avail_ring_size q)"
    and ap: "sorted_wrt apart (map vq_of (concat (map (rx_buffers t) hs)))"
    and clear: "\<forall>d \<in> set (concat (map (rx_buffers t) hs)). clear_of (qc_device cfg) q d"
    and ready: "\<forall>h \<in> set hs. rx_ready R (nr_mem s) t h"
    and rx: "[] \<notin> set (mb_rx (nr_backend s))" and buf: "length buf = MAX_FRAME_LEN"
    and u: "used_ring_ok u" "ur_qsize u = q" "length (ur_bytes u) = used_ring_size q"
      "mem_read R (nr_mem s) (qc_device cfg) (used_ring_size q) = Ok (ur_bytes u)"
    and ps: "zip hs (mb_rx (nr_backend s)) = ps"
  shows "\<exists>buf' s'. rx_loop R (mock_ops :: ('io, mock_backend) net_backend) cfg q t e (buf, s) = ((buf', s'), Ok ()) \<and>
    nr_backend s' = (nr_backend s)\<lparr>mb_rx := drop (length hs) (mb_rx (nr_backend s))\<rparr> \<and>
    (\<forall>(h, f) \<in> set ps. delivered R (nr_mem s') t h f) \<and>
    last_seen_avail (nr_cursor s') = last_seen_avail (nr_cursor s) + of_nat (length ps) \<and>
    completed_chains (nr_stats s') = completed_chains (nr_stats s) + length ps \<and>
    frames_moved (nr_stats s') = frames_moved (nr_stats s) + length ps \<and>
    mem_read R (nr_mem s') (qc_device cfg) (used_ring_size q) = Ok (ur_bytes (push_all (rx_results ps) u)) \<and>
    same_avoiding R (qc_device cfg) q (concat (map (rx_buffers t) hs)) (nr_mem s) (nr_mem s')"
  using hs ab rings ap clear ready rx buf u ps
proof (induction hs arbitrary: s u buf ps)
  case Nil
  then have "last_seen_avail (nr_cursor s) = e" using avail_items_Cons by blast
  then show ?case using Nil.prems by (cases s) (simp add: rx_loop.simps [of R mock_ops] rx_results_def)
next
  case (Cons h hs)
  let ?c = "last_seen_avail (nr_cursor s)" and ?dev = "qc_device cfg" and ?W = "concat (map (rx_buffers t) hs)"
  have c: "?c \<noteq> e" "h = AvailRing_head av ?c" "avail_items \<lparr>ai_ring = av, ai_next = ?c + 1, ai_end = e\<rparr> = hs"
    using avail_items_Cons [OF Cons.prems(1)] by auto
  show ?case
  proof (cases "mb_rx (nr_backend s)")
    case Nil
    have "drop (length (h # hs)) (mb_rx (nr_backend s)) = []" "ps = []" "nr_backend s = (nr_backend s)\<lparr>mb_rx := []\<rparr>"
      using Nil Cons.prems(13) by auto
    then show ?thesis
      using c(1) Cons.prems(12)
      by (intro exI [of _ buf] exI [of _ s]) (simp add: rx_loop.simps [of R mock_ops] rx_step_idle [OF Nil] rx_results_def)
  next
    case (Cons f rest)
    note rx = this and pr = Cons.prems
    have hd: "net_read_u16 R (nr_mem s) (qc_driver cfg + (4 + ucast (?c mod q) * 2)) = Ok h"
      using net_read_head(2) [OF R pr(2) av] c(2) by simp
    have ap': "sorted_wrt apart (map vq_of (rx_buffers t h))" "sorted_wrt apart (map vq_of ?W)"
      "\<forall>d \<in> set (rx_buffers t h). \<forall>e \<in> set ?W. apart (vq_of d) (vq_of e)"
      using pr(4) by (simp_all add: sorted_wrt_append)
    have cl: "\<forall>d \<in> set (rx_buffers t h). clear_of ?dev q d" "\<forall>d \<in> set ?W. clear_of ?dev q d" using pr(5) by auto
    have "f \<noteq> []" using pr(7) rx by auto
    from rx_step_exact [OF R _ hd ap'(1) cl(1) pr(9-12) rx this pr(8)] pr(6)
    obtain buf1 s1 where step: "rx_step R (mock_ops :: ('io, mock_backend) net_backend) cfg q t (buf, s) = ((buf1, s1), Ok True)"
      and b1: "length buf1 = MAX_FRAME_LEN" and d1: "delivered R (nr_mem s1) t h f"
      and s1: "nr_backend s1 = (nr_backend s)\<lparr>mb_rx := rest\<rparr>" "last_seen_avail (nr_cursor s1) = ?c + 1"
        "completed_chains (nr_stats s1) = completed_chains (nr_stats s) + 1" "frames_moved (nr_stats s1) = frames_moved (nr_stats s) + 1"
      and r1: "mem_read R (nr_mem s1) ?dev (used_ring_size q) =
        Ok (ur_bytes (snd (UsedRing_push (ucast h) (of_nat (12 + length (take 1518 f))) u)))"
      and m1: "same_avoiding R ?dev q (rx_buffers t h) (nr_mem s) (nr_mem s1)"
      by auto
    let ?u = "snd (UsedRing_push (ucast h) (of_nat (12 + length (take 1518 f))) u)" and ?ps = "zip hs rest"
    have u1: "used_ring_ok ?u" "ur_qsize ?u = q" "length (ur_bytes ?u) = used_ring_size q"
      using pr(9-11) guest_ram.read_length [OF R r1] by (simp_all add: UsedRing_push_ok)
    have "mem_read R (nr_mem s1) (qc_driver cfg) (avail_ring_size q) = Ok ab"
      using m1 pr(2,3) by (auto simp: same_avoiding_def avoids_def)
    moreover have "avoids ?dev q ?W (qc_driver cfg) (avail_ring_size q)" using pr(3) by (auto simp: avoids_def)
    moreover have "\<forall>h \<in> set hs. rx_ready R (nr_mem s1) t h" using pr(6) rx_ready_stable [OF _ m1] by auto
    moreover have "[] \<notin> set (mb_rx (nr_backend s1))" using pr(7) rx s1(1) by auto
    moreover have "zip hs (mb_rx (nr_backend s1)) = ?ps" using s1(1) by simp
    ultimately obtain buf2 s2 where loop: "rx_loop R (mock_ops :: ('io, mock_backend) net_backend) cfg q t e (buf1, s1) = ((buf2, s2), Ok ())"
      and d2: "\<forall>(h, f) \<in> set ?ps. delivered R (nr_mem s2) t h f"
      and s2: "nr_backend s2 = (nr_backend s1)\<lparr>mb_rx := drop (length hs) (mb_rx (nr_backend s1))\<rparr>"
        "last_seen_avail (nr_cursor s2) = last_seen_avail (nr_cursor s1) + of_nat (length ?ps)"
        "completed_chains (nr_stats s2) = completed_chains (nr_stats s1) + length ?ps"
        "frames_moved (nr_stats s2) = frames_moved (nr_stats s1) + length ?ps"
        "mem_read R (nr_mem s2) ?dev (used_ring_size q) = Ok (ur_bytes (push_all (rx_results ?ps) ?u))"
      and m2: "same_avoiding R ?dev q ?W (nr_mem s1) (nr_mem s2)"
      using Cons.IH [OF c(3) [folded s1(2)] _ _ ap'(2) cl(2) _ _ b1 u1 r1] by metis
    have "delivered R (nr_mem s2) t h f" using delivered_avoiding [OF R d1 m2 cl(1) ap'(3)] .
    moreover have "same_avoiding R ?dev q (concat (map (rx_buffers t) (h # hs))) (nr_mem s) (nr_mem s2)"
      using same_avoiding_trans [OF same_avoiding_mono [OF m1] same_avoiding_mono [OF m2]] by simp
    moreover have "ps = (h, f) # ?ps" using pr(13) rx by simp
    moreover have "rx_loop R (mock_ops :: ('io, mock_backend) net_backend) cfg q t e (buf, s) = ((buf2, s2), Ok ())"
      using loop step c(1) by (simp add: rx_loop.simps [of R mock_ops cfg q t e "(buf, s)"])
    ultimately show ?thesis
      using d2 s1 s2 rx by (intro exI [of _ buf2] exI [of _ s2]) (simp add: rx_results_def min.commute)
  qed
qed


text \<open>
  C30: \<^verbatim>\<open>process_rx\<close> delivers the waiting frames. When the rings and the writable buffers of the
  available chains lie in guest memory, apart from one another, and every such chain has room for a
  full frame, the call pairs the chains, in the order of the ring, with the frames that wait in the
  backend, in the order they came: after it the buffers of each paired chain hold a header with no
  offload followed by its frame (cut to 1518 bytes), the used ring has these chains with the lengths
  written, frames beyond the available chains stay in the backend, and the cursor has moved past
  exactly the chains that were filled.
\<close>

theorem process_rx_exact:
  assumes "guest_ram R" and "qc_ready cfg" and "net_validate_qsize (qc_size cfg) = Some q"
    and "read_descriptor_table R m (qc_desc cfg) q = Ok t"
    and "mem_read R m (qc_driver cfg) (avail_ring_size q) = Ok ab" and "AvailRing_new ab q = Ok av"
    and "mem_read R m (qc_device cfg) (used_ring_size q) = Ok ub" and "UsedRing_new ub q = Ok u"
    and "hs = avail_items (AvailRing_iter_new av (last_seen_avail cursor))" and "length hs \<le> unat q"
    and "bufs = concat (map (\<lambda>h. filter is_writable (chain_of t h)) hs)"
    and "avoids (qc_device cfg) q bufs (qc_driver cfg) (avail_ring_size q)"
    and "sorted_wrt apart (map vq_of bufs)" and "\<forall>d \<in> set bufs. clear_of (qc_device cfg) q d"
    and "\<forall>h \<in> set hs. rx_ready R m t h" and "[] \<notin> set (mb_rx b)" and "ps = zip hs (mb_rx b)"
  shows "\<exists>s'. process_rx R (mock_ops :: ('io, mock_backend) net_backend) cfg cursor m b = (s', Ok \<lparr>completed_chains = length ps, frames_moved = length ps\<rparr>) \<and>
    nr_backend s' = b\<lparr>mb_rx := drop (length hs) (mb_rx b)\<rparr> \<and>
    (\<forall>(h, f) \<in> set ps. delivered R (nr_mem s') t h f) \<and>
    last_seen_avail (nr_cursor s') = last_seen_avail cursor + of_nat (length ps) \<and>
    mem_read R (nr_mem s') (qc_device cfg) (used_ring_size q) = Ok (ur_bytes (push_all (rx_results ps) u))"
proof -
  let ?s = "net_run_start cursor m b" and ?buf = "replicate MAX_FRAME_LEN 0 :: bytes"
  have u: "used_ring_ok u" "ur_qsize u = q" "ur_bytes u = ub" using assms(8) UsedRing_new_Ok_iff by auto
  have len: "length (ur_bytes u) = used_ring_size q" using guest_ram.read_length [OF assms(1,7)] u(3) by simp
  have sane: "avail_delta_is_sane (last_seen_avail cursor) (AvailRing_idx av) q"
    using assms(9,10) by (simp add: avail_items_eq AvailRing_iter_new_def avail_delta_is_sane_def word_le_nat_alt)
  have s: "avail_items \<lparr>ai_ring = av, ai_next = last_seen_avail (nr_cursor ?s), ai_end = AvailRing_idx av\<rparr> = hs"
    "nr_mem ?s = m" "nr_backend ?s = b" "nr_stats ?s = ProcessStats_default" "nr_cursor ?s = cursor"
    using assms(9) by (simp_all add: AvailRing_iter_new_def net_run_start_def)
  note loop = rx_loop_exact [where 'io = 'io, OF assms(1,6) s(1), unfolded s, OF assms(5) assms(12-14) [unfolded assms(11)] assms(15,16) _ u(1,2) len
    assms(7) [folded u(3)] assms(17) [symmetric], of ?buf]
  then obtain buf' s' where loop: "rx_loop R (mock_ops :: ('io, mock_backend) net_backend) cfg q t (AvailRing_idx av) (?buf, ?s) = ((buf', s'), Ok ())"
    and "nr_backend s' = b\<lparr>mb_rx := drop (length hs) (mb_rx b)\<rparr>" "\<forall>(h, f) \<in> set ps. delivered R (nr_mem s') t h f"
      "last_seen_avail (nr_cursor s') = last_seen_avail cursor + of_nat (length ps)"
      "mem_read R (nr_mem s') (qc_device cfg) (used_ring_size q) = Ok (ur_bytes (push_all (rx_results ps) u))"
    and st: "completed_chains (nr_stats s') = length ps" "frames_moved (nr_stats s') = length ps"
    by (simp add: ProcessStats_default_def) blast
  moreover have "nr_stats s' = \<lparr>completed_chains = length ps, frames_moved = length ps\<rparr>" using st by (cases "nr_stats s'") simp
  ultimately show ?thesis
    using assms(2-4) sane net_read_head(1) [OF assms(1,5,6)] by (simp add: process_rx_def s Let_def)
qed

subsection \<open>Instances\<close>

lemma net_sample_rx:
  assumes b: "length b = 1530"
  shows "rx_ready slice_ops (net_sample_ram 2 b) [net_sample_desc 2 b] 0"
    and "unat (desc_len (net_sample_desc 2 b)) = 1530" "desc_addr (net_sample_desc 2 b) = 40"
proof -
  show d: "unat (desc_len (net_sample_desc 2 b)) = 1530" "desc_addr (net_sample_desc 2 b) = 40"
    using b by (simp_all add: net_sample_desc_def)
  have "mem_read slice_ops (net_sample_ram 2 b) 40 1530 = Inr b" using net_sample_layout(4) [of b 2] b by simp
  then show "rx_ready slice_ops (net_sample_ram 2 b) [net_sample_desc 2 b] 0"
    using d net_sample_chain [of 2 b] by (simp add: rx_ready_def)
qed

theorem process_rx_safe_witness:
  "let p = process_rx slice_ops (mock_ops :: (unit, mock_backend) net_backend) net_sample_cfg \<lparr>last_seen_avail = 0\<rparr>
     (net_sample_ram 2 (replicate 1530 0)) (inject_rx MockBackend_new [1, 2, 3])
   in mb_tx (nr_backend (fst p)) = [] \<and>
     mem_read slice_ops (nr_mem (fst p)) 0 16 = mem_read slice_ops (net_sample_ram 2 (replicate 1530 0)) 0 16"
proof -
  define b :: bytes where "b = replicate 1530 0"
  have b: "length b = 1530" by (simp add: b_def)
  then have len: "length b < 2000" by simp
  let ?B = "inject_rx MockBackend_new [1, 2, 3]"
  let ?p = "process_rx slice_ops (mock_ops :: (unit, mock_backend) net_backend) net_sample_cfg \<lparr>last_seen_avail = 0\<rparr> (net_sample_ram 2 b) ?B"
  have "unat (qc_device net_sample_cfg) + used_ring_size 1 \<le> 2 ^ 64" by (simp add: net_sample_cfg_def used_ring_size_def)
  from process_rx_safe [OF slice_ram.guest_ram_axioms mock_net.frame_backend_axioms net_sample_qsize(1) net_sample_layout(1) [OF len] this
      prod.collapse [symmetric]]
  obtain k j :: nat where "mb_tx (nr_backend (fst ?p)) = mb_tx ?B" and
    same: "\<forall>a n. (unat a + n \<le> unat (qc_device net_sample_cfg) \<or> unat (qc_device net_sample_cfg) + used_ring_size 1 \<le> unat a) \<and>
       (\<forall>d \<in> set [net_sample_desc 2 b]. is_writable d \<longrightarrow>
          unat a + n \<le> unat (desc_addr d) \<or> unat (desc_addr d) + unat (desc_len d) \<le> unat a) \<longrightarrow>
       mem_read slice_ops (nr_mem (fst ?p)) a n = mem_read slice_ops (net_sample_ram 2 b) a n"
    by blast
  moreover have "mem_read slice_ops (nr_mem (fst ?p)) 0 16 = mem_read slice_ops (net_sample_ram 2 b) 0 16"
    by (rule same [rule_format]) (simp add: net_sample_cfg_def net_sample_rx [OF b])
  moreover have "mb_tx ?B = []" by (simp add: MockBackend_new_def inject_rx_def)
  ultimately show ?thesis unfolding Let_def b_def [symmetric] by (simp only: simp_thms)
qed

theorem process_rx_exact_witness:
  "\<exists>s'. process_rx slice_ops (mock_ops :: (unit, mock_backend) net_backend) net_sample_cfg \<lparr>last_seen_avail = 0\<rparr>
      (net_sample_ram 2 (replicate 1530 0)) (inject_rx (inject_rx MockBackend_new [1, 2, 3]) [4]) =
        (s', Ok \<lparr>completed_chains = 1, frames_moved = 1\<rparr>) \<and>
    mb_rx (nr_backend s') = [[4]] \<and> delivered slice_ops (nr_mem s') [net_sample_desc 2 (replicate 1530 0)] 0 [1, 2, 3]"
proof -
  define b :: bytes where "b = replicate 1530 0"
  have b: "length b = 1530" by (simp add: b_def)
  then have len: "length b < 2000" by simp
  let ?B = "inject_rx (inject_rx MockBackend_new [1, 2, 3]) [4]" and ?av = "\<lparr>ar_bytes = sample_avail, ar_qsize = 1\<rparr>"
    and ?cur = "\<lparr>last_seen_avail = 0\<rparr> :: queue_cursor" and ?t = "[net_sample_desc 2 b]"
  have B: "mb_rx ?B = [[1, 2, 3], [4]]" by (simp add: MockBackend_new_def inject_rx_def)
  have "qc_ready net_sample_cfg" by (simp add: net_sample_cfg_def)
  moreover have "[0] = avail_items (AvailRing_iter_new ?av (last_seen_avail ?cur))" "length [0 :: u16] \<le> unat (1 :: u16)"
    using net_sample_rings(3) by simp_all
  moreover have "?t = concat (map (\<lambda>h. filter is_writable (chain_of ?t h)) [0])" using net_sample_chain [of 2 b] by simp
  moreover have "avoids (qc_device net_sample_cfg) 1 ?t (qc_driver net_sample_cfg) (avail_ring_size 1)"
    "sorted_wrt apart (map vq_of ?t)" "\<forall>d \<in> set ?t. clear_of (qc_device net_sample_cfg) 1 d"
    by (simp_all add: avoids_def clear_of_def net_sample_cfg_def avail_ring_size_def used_ring_size_def net_sample_rx(3) [OF b])
  moreover have "\<forall>h \<in> set [0]. rx_ready slice_ops (net_sample_ram 2 b) ?t h" using net_sample_rx(1) [OF b] by simp
  moreover have "[] \<notin> set (mb_rx ?B)" "[(0, [1, 2, 3])] = zip [0] (mb_rx ?B)" by (simp_all add: B)
  ultimately have "\<exists>s'. process_rx slice_ops (mock_ops :: (unit, mock_backend) net_backend) net_sample_cfg ?cur (net_sample_ram 2 b) ?B =
      (s', Ok \<lparr>completed_chains = length [(0 :: u16, [1, 2, 3 :: u8])], frames_moved = length [(0 :: u16, [1, 2, 3 :: u8])]\<rparr>) \<and>
    nr_backend s' = ?B\<lparr>mb_rx := drop (length [0 :: u16]) (mb_rx ?B)\<rparr> \<and> (\<forall>(h, f) \<in> set [(0, [1, 2, 3])]. delivered slice_ops (nr_mem s') ?t h f)"
    using process_rx_exact [OF slice_ram.guest_ram_axioms _ net_sample_qsize(1) net_sample_layout(1,2) [OF len] net_sample_rings(1)
      net_sample_layout(3) [OF len] net_sample_rings(2), where hs = "[0]" and cursor = ?cur and bufs = ?t and b = ?B and ps = "[(0, [1, 2, 3])]"]
    by blast
  then show ?thesis unfolding b_def [symmetric] by (elim exE) (intro exI, auto simp: B)
qed

end
