(* ===== verification/Vmm_Child.thy ===== *)
theory Vmm_Child
  imports Vm_Mock Frame_Codec
begin

text \<open>
  The protocol between the control plane and a VM process (\<^verbatim>\<open>crates/vmm-ipc/src/lib.rs\<close>) and the process's
  side of it (\<^verbatim>\<open>crates/nanovm-vmm-child/src/lib.rs\<close>): requests and responses, the error code of a VM error,
  the dispatcher over the hypervisor, and the serve loop on the framed byte stream. The hypervisor is
  the mock (the default build). The host's file system and processes, the JSON library and the text
  of a backend error are the fields of \<open>worker_host\<close> and \<open>ipc_json\<close>; the order in which the mock's
  hash map lists its snapshots is one of them.

  The loop is run on the bytes a peer sends before it closes the stream. It ends because every frame
  has a header of four bytes.
\<close>

subsection \<open>Messages\<close>

datatype ipc_request =
    RqPing
  | RqCreateVm vm_config
  | RqStart vm_id
  | RqStop vm_id
  | RqSnapshot vm_id
  | RqRestore snapshot_id
  | RqDestroy vm_id
  | RqState vm_id
  | RqVmMeta vm_id
  | RqSnapshotMeta snapshot_id
  | RqDeleteSnapshot snapshot_id
  | RqListSnapshots
  | RqExecInGuest vm_id guest_exec_request
  | RqReadFile vm_id string
  | RqWriteFile vm_id string bytes u32
  | RqShutdown
  | RqSnapshotExportDir snapshot_id
  | RqSnapshotAdopt path

datatype error_code = CodeUnknownVm | CodeUnknownSnapshot | CodeInvalidTransition | CodeBackend | CodeUnsupported | CodeBadRequest

datatype ipc_response =
    RsPong
  | RsEmpty
  | RsVmHandle vm_handle
  | RsState vm_state
  | RsVmMeta vm_meta
  | RsSnapshot snapshot_id
  | RsSnapshotMeta snapshot_meta
  | RsSnapshotIds "snapshot_id list"
  | RsExecResult guest_exec_result
  | RsBytes bytes
  | RsWritten u64
  | RsOptPath "path option"
  | RsError error_code string

definition is_error :: "ipc_response \<Rightarrow> bool" where
  "is_error r \<longleftrightarrow> (case r of RsError _ _ \<Rightarrow> True | _ \<Rightarrow> False)"

definition VmState_debug :: "vm_state \<Rightarrow> string" where
  "VmState_debug st = (case st of Created \<Rightarrow> ''Created'' | Running \<Rightarrow> ''Running'' | Stopped \<Rightarrow> ''Stopped'')"

definition VmError_display :: "(('j, 'io) backend_error \<Rightarrow> string) \<Rightarrow> ('j, 'io) vm_error \<Rightarrow> string" where
  "VmError_display text err =
     (case err of
        Unsupported s \<Rightarrow> ''operation not supported: '' @ s
      | UnknownVm i \<Rightarrow> ''unknown vm id: '' @ VmId_display i
      | UnknownSnapshot k \<Rightarrow> ''unknown snapshot id: '' @ SnapshotId_display k
      | InvalidTransition i f t \<Rightarrow>
          ''invalid state transition for '' @ VmId_display i @ '': '' @ VmState_debug f @ '' -> '' @ VmState_debug t
      | Backend b \<Rightarrow> ''backend error: '' @ text b)"

definition error_code_of :: "('j, 'io) vm_error \<Rightarrow> error_code" where
  "error_code_of err =
     (case err of
        UnknownVm _ \<Rightarrow> CodeUnknownVm
      | UnknownSnapshot _ \<Rightarrow> CodeUnknownSnapshot
      | InvalidTransition _ _ _ \<Rightarrow> CodeInvalidTransition
      | Unsupported _ \<Rightarrow> CodeUnsupported
      | _ \<Rightarrow> CodeBackend)"

definition Response_from :: "(('j, 'io) backend_error \<Rightarrow> string) \<Rightarrow> ('j, 'io) vm_error \<Rightarrow> ipc_response" where
  "Response_from text err = RsError (error_code_of err) (VmError_display text err)"

subsection \<open>The worker\<close>

record ('j, 'io, 'f, 'c) worker_host =
  wh_fs :: "('io, 'f) fs_ops"
  wh_manifest_from :: "bytes \<Rightarrow> ('j, manifest) result"
  wh_manifest_to :: "manifest \<Rightarrow> ('j, bytes) result"
  wh_exec :: "('io, 'c) exec_host"
  wh_order :: "mock_hv \<Rightarrow> snapshot_id list"
  wh_backend_text :: "('j, 'io) backend_error \<Rightarrow> string"

record 'j ipc_json =
  ij_rq_to :: "ipc_request \<Rightarrow> ('j, bytes) result"
  ij_rq_from :: "bytes \<Rightarrow> ('j, ipc_request) result"
  ij_rs_to :: "ipc_response \<Rightarrow> ('j, bytes) result"
  ij_rs_from :: "bytes \<Rightarrow> ('j, ipc_response) result"

definition respond ::
    "('j, 'io, 'f, 'c) worker_host \<Rightarrow> ('a \<Rightarrow> ipc_response) \<Rightarrow> (('j, 'io) vm_error, 'a) result \<Rightarrow> ipc_response" where
  "respond W ok r = (case r of Inl e \<Rightarrow> Response_from (wh_backend_text W) e | Inr x \<Rightarrow> ok x)"

definition child_dispatch ::
    "('j, 'io, 'f, 'c) worker_host \<Rightarrow> host_env \<Rightarrow> 'f \<Rightarrow> mock_hv \<Rightarrow> ipc_request \<Rightarrow> 'f \<times> mock_hv \<times> ipc_response" where
  "child_dispatch W env fs hv req =
     (case req of
        RqPing \<Rightarrow> (fs, hv, RsPong)
      | RqShutdown \<Rightarrow> (fs, hv, RsEmpty)
      | RqCreateVm config \<Rightarrow>
          let (hv, r) = create_vm (wh_fs W) (wh_manifest_from W) env fs hv config in (fs, hv, respond W RsVmHandle r)
      | RqStart i \<Rightarrow> let (hv, r) = start hv i in (fs, hv, respond W (\<lambda>_. RsEmpty) r)
      | RqStop i \<Rightarrow> let (hv, r) = stop hv i in (fs, hv, respond W (\<lambda>_. RsEmpty) r)
      | RqSnapshot i \<Rightarrow> let (hv, r) = snapshot hv i in (fs, hv, respond W RsSnapshot r)
      | RqRestore k \<Rightarrow> let (hv, r) = restore env hv k in (fs, hv, respond W RsVmHandle r)
      | RqDestroy i \<Rightarrow> let (fs, hv, r) = destroy (wh_fs W) fs hv i in (fs, hv, respond W (\<lambda>_. RsEmpty) r)
      | RqState i \<Rightarrow> (fs, hv, respond W RsState (state hv i))
      | RqVmMeta i \<Rightarrow> (fs, hv, respond W RsVmMeta (vm_meta_of hv i))
      | RqSnapshotMeta k \<Rightarrow> (fs, hv, respond W RsSnapshotMeta (snapshot_meta_of hv k))
      | RqDeleteSnapshot k \<Rightarrow> let (hv, r) = delete_snapshot hv k in (fs, hv, respond W (\<lambda>_. RsEmpty) r)
      | RqListSnapshots \<Rightarrow> (fs, hv, respond W RsSnapshotIds (list_snapshots (wh_order W hv) hv))
      | RqExecInGuest i exec_req \<Rightarrow> (fs, hv, respond W RsExecResult (exec_in_guest (wh_exec W) hv i exec_req))
      | RqReadFile i p \<Rightarrow> (fs, hv, respond W RsBytes (read_file (wh_fs W) fs hv i p))
      | RqWriteFile i p content mode \<Rightarrow>
          let (fs, r) = write_file (wh_fs W) fs hv i p content mode in (fs, hv, respond W RsWritten r)
      | RqSnapshotExportDir k \<Rightarrow>
          let (fs, r) = snapshot_export_dir (wh_fs W) (wh_manifest_to W) env fs hv k in (fs, hv, respond W RsOptPath r)
      | RqSnapshotAdopt dir \<Rightarrow>
          let (hv, r) = snapshot_adopt (wh_fs W) (wh_manifest_from W) fs hv dir in (fs, hv, respond W RsSnapshot r))"

text \<open>
  The ends of a byte stream. Reading takes from the bytes that have arrived; when they run out it
  fails with \<open>UnexpectedEof\<close> if the peer has closed the stream, and otherwise never returns, which is
  the result \<open>Waiting\<close>. Writing to an open stream succeeds.
\<close>

datatype pipe_error = UnexpectedEof | BrokenPipe | Waiting

definition pipe_read :: "bool \<Rightarrow> bytes \<Rightarrow> nat \<Rightarrow> bytes \<times> (pipe_error, bytes) result" where
  "pipe_read peer_open buf n =
     (if n \<le> length buf then (drop n buf, Ok (take n buf))
      else if peer_open then (buf, Err Waiting) else ([], Err UnexpectedEof))"

definition pipe_write :: "bytes \<Rightarrow> bytes \<Rightarrow> bytes \<times> (pipe_error, unit) result" where
  "pipe_write buf b = (buf @ b, Ok ())"

definition pipe_flush :: "bytes \<Rightarrow> bytes \<times> (pipe_error, unit) result" where
  "pipe_flush buf = (buf, Ok ())"

text \<open>One turn of the loop: go on, or leave it with a result.\<close>

datatype 'j serve_turn = GoOn | Leave "((pipe_error, 'j) ipc_error, unit) result"

definition serve_step ::
    "'j ipc_json \<Rightarrow> ('j, 'io, 'f, 'c) worker_host \<Rightarrow> host_env \<Rightarrow> 'f \<times> mock_hv \<times> bytes \<times> bytes \<Rightarrow>
     ('f \<times> mock_hv \<times> bytes \<times> bytes) \<times> 'j serve_turn" where
  "serve_step J W env st =
     (let (fs, hv, reader, writer) = st
      in case read_frame (pipe_read False) (ij_rq_from J) reader of
           (reader, Inl e) \<Rightarrow>
             ((fs, hv, reader, writer), Leave (if e = ipc_error.Io UnexpectedEof then Ok () else Err e))
         | (reader, Inr req) \<Rightarrow>
             let (fs, hv, resp) = child_dispatch W env fs hv req
             in (case write_frame pipe_write pipe_flush (ij_rs_to J) writer resp of
                   (writer, Inl e) \<Rightarrow> ((fs, hv, reader, writer), Leave (Err e))
                 | (writer, Inr _) \<Rightarrow>
                     ((fs, hv, reader, writer), if req = RqShutdown then Leave (Ok ()) else GoOn)))"

lemma read_frame_shorter:
  assumes "read_frame (pipe_read closed) from_slice r = (r', Inr v)"
  shows "length r' < length r"
  using assms
  by (auto simp: read_frame_def read_frame_with_cap_def pipe_read_def Let_def map_err_def split: if_splits sum.splits)

lemma serve_step_shorter:
  assumes "serve_step J W env (fs, hv, r, w) = ((fs', hv', r', w'), GoOn)"
  shows "length r' < length r"
  using assms
  by (auto simp: serve_step_def Let_def split: prod.splits sum.splits if_splits dest: read_frame_shorter)

function serve ::
    "'j ipc_json \<Rightarrow> ('j, 'io, 'f, 'c) worker_host \<Rightarrow> host_env \<Rightarrow> 'f \<times> mock_hv \<times> bytes \<times> bytes \<Rightarrow>
     ('f \<times> mock_hv \<times> bytes \<times> bytes) \<times> ((pipe_error, 'j) ipc_error, unit) result" where
  "serve J W env st =
     (case serve_step J W env st of
        (st', GoOn) \<Rightarrow> serve J W env st'
      | (st', Leave r) \<Rightarrow> (st', r))"
  by pat_completeness auto

termination
  by (relation "measure (\<lambda>(J, W, env, fs, hv, r, w). length r)") (auto dest!: serve_step_shorter [OF sym])

declare serve.simps [simp del]

subsection \<open>Frames on a pipe\<close>

definition ipc_frame :: "bytes \<Rightarrow> bytes" where
  "ipc_frame p = to_be 4 (of_nat (length p) :: u32) @ p"

lemma read_frame_pipe:
  assumes "length p < 2 ^ 32"
  shows "read_frame (pipe_read open) from_slice (ipc_frame p @ rest) =
    (if length p \<le> 4194304 then (rest, map_err BadJson (from_slice p)) else (p @ rest, Err (FrameTooLarge (length p) 4194304)))"
  using assms
  by (simp add: read_frame_def read_frame_with_cap_def pipe_read_def ipc_frame_def DEFAULT_MAX_FRAME_BYTES_def unat_of_nat Let_def)

lemma write_frame_pipe:
  assumes "to_vec v = Ok p" and "length p < 2 ^ 32"
  shows "write_frame pipe_write pipe_flush to_vec w v = (w @ ipc_frame p, Ok ())"
  using assms by (simp add: write_frame_def pipe_write_def pipe_flush_def ipc_frame_def)

lemma write_frame_pipe_cases:
  "write_frame pipe_write pipe_flush to_vec w v = (w', r) \<Longrightarrow>
    (\<exists>e. r = Err e \<and> w' = w) \<or> (\<exists>p. to_vec v = Ok p \<and> length p < 2 ^ 32 \<and> w' = w @ ipc_frame p \<and> r = Ok ())"
  by (auto simp: write_frame_def pipe_write_def pipe_flush_def ipc_frame_def Let_def split: sum.splits if_splits)

text \<open>What \<^verbatim>\<open>serde_json\<close> documents for these types: what it prints, it reads.\<close>

definition json_laws :: "'j ipc_json \<Rightarrow> bool" where
  "json_laws J \<longleftrightarrow> (\<forall>r p. ij_rq_to J r = Ok p \<longrightarrow> ij_rq_from J p = Ok r) \<and> (\<forall>r p. ij_rs_to J r = Ok p \<longrightarrow> ij_rs_from J p = Ok r)"

text \<open>Requests that fit a frame of the reader, and responses that fit a frame of the writer.\<close>

definition rq_payload :: "'j ipc_json \<Rightarrow> ipc_request \<Rightarrow> bytes" where
  "rq_payload J r = (case ij_rq_to J r of Inl _ \<Rightarrow> [] | Inr p \<Rightarrow> p)"

definition rs_payload :: "'j ipc_json \<Rightarrow> ipc_response \<Rightarrow> bytes" where
  "rs_payload J r = (case ij_rs_to J r of Inl _ \<Rightarrow> [] | Inr p \<Rightarrow> p)"

definition rq_fits :: "'j ipc_json \<Rightarrow> nat \<Rightarrow> ipc_request \<Rightarrow> bool" where
  "rq_fits J n r \<longleftrightarrow> is_ok (ij_rq_to J r) \<and> length (rq_payload J r) \<le> n"

definition rs_fits :: "'j ipc_json \<Rightarrow> nat \<Rightarrow> ipc_response \<Rightarrow> bool" where
  "rs_fits J n r \<longleftrightarrow> is_ok (ij_rs_to J r) \<and> length (rs_payload J r) \<le> n"

lemma rq_fits_iff: "rq_fits J n r \<longleftrightarrow> ij_rq_to J r = Inr (rq_payload J r) \<and> length (rq_payload J r) \<le> n"
  by (auto simp: rq_fits_def rq_payload_def is_ok_iff split: sum.splits)

lemma rs_fits_iff: "rs_fits J n r \<longleftrightarrow> ij_rs_to J r = Inr (rs_payload J r) \<and> length (rs_payload J r) \<le> n"
  by (auto simp: rs_fits_def rs_payload_def is_ok_iff split: sum.splits)

lemma serve_step_request:
  assumes "json_laws J" and "rq_fits J 4194304 req" and "child_dispatch W env fs hv req = (fs', hv', resp)"
    and "rs_fits J (2 ^ 32 - 1) resp"
  shows "serve_step J W env (fs, hv, ipc_frame (rq_payload J req) @ rest, out) =
    ((fs', hv', rest, out @ ipc_frame (rs_payload J resp)), if req = RqShutdown then Leave (Ok ()) else GoOn)"
proof -
  have "ij_rq_from J (rq_payload J req) = Inr req" "length (rq_payload J req) \<le> 4194304"
    using assms(1,2) by (auto simp: json_laws_def rq_fits_iff)
  then have "read_frame (pipe_read False) (ij_rq_from J) (ipc_frame (rq_payload J req) @ rest) = (rest, Inr req)"
    by (simp add: read_frame_pipe map_err_def)
  moreover have "write_frame pipe_write pipe_flush (ij_rs_to J) out resp = (out @ ipc_frame (rs_payload J resp), Ok ())"
    using assms(4) by (intro write_frame_pipe) (auto simp: rs_fits_iff)
  ultimately show ?thesis using assms(3) by (simp add: serve_step_def)
qed

primrec child_run ::
    "('j, 'io, 'f, 'c) worker_host \<Rightarrow> host_env \<Rightarrow> 'f \<Rightarrow> mock_hv \<Rightarrow> ipc_request list \<Rightarrow> 'f \<times> mock_hv \<times> ipc_response list" where
  "child_run W env fs hv [] = (fs, hv, [])"
| "child_run W env fs hv (q # qs) =
     (let (fs, hv, r) = child_dispatch W env fs hv q; (fs, hv, rs) = child_run W env fs hv qs in (fs, hv, r # rs))"


definition sample_json :: "unit ipc_json" where
  "sample_json = \<lparr>
     ij_rq_to = (\<lambda>r. if r = RqCreateVm VmConfig_default then Ok [1] else if r = RqStart 1 then Ok [2] else if r = RqStart 7 then Ok [3]
       else if r = RqShutdown then Ok [4] else Err ()),
     ij_rq_from = (\<lambda>p. if p = [1] then Ok (RqCreateVm VmConfig_default) else if p = [2] then Ok (RqStart 1) else if p = [3] then Ok (RqStart 7)
       else if p = [4] then Ok RqShutdown else Err ()),
     ij_rs_to = (\<lambda>r. case r of RsEmpty \<Rightarrow> Ok [5] | RsVmHandle h \<Rightarrow> if h = \<lparr>vm_h_id = 1, vm_h_state = Created\<rparr> then Ok [6] else Err ()
       | RsError c m \<Rightarrow> if c = CodeUnknownVm \<and> m = ''unknown vm id: vm-0000000000000007'' then Ok [7] else Err () | _ \<Rightarrow> Err ()),
     ij_rs_from = (\<lambda>p. if p = [5] then Ok RsEmpty else if p = [6] then Ok (RsVmHandle \<lparr>vm_h_id = 1, vm_h_state = Created\<rparr>)
       else if p = [7] then Ok (RsError CodeUnknownVm ''unknown vm id: vm-0000000000000007'') else Err ())\<rparr>"

definition sample_worker_host :: "(unit, unit, path \<rightharpoonup> bytes, unit) worker_host" where
  "sample_worker_host = \<lparr>wh_fs = mem_fs, wh_manifest_from = (\<lambda>_. Err ()), wh_manifest_to = (\<lambda>_. Err ()),
     wh_exec = \<lparr>eh_spawn = (\<lambda>_. Err ()), eh_wait_with_output = (\<lambda>_. Err ()), eh_elapsed_ms = (\<lambda>_. 0)\<rparr>,
     wh_order = (\<lambda>_. []), wh_backend_text = (\<lambda>_. [])\<rparr>"

lemma sample_json_laws: "json_laws sample_json"
  by (auto simp: json_laws_def sample_json_def split: if_splits ipc_response.splits)

lemma sample_display: "VmId_display 7 = ''vm-0000000000000007''"
proof -
  have "hex 7 = ''7''" by (subst hex.simps) (simp add: hex_digit_def)
  moreover have "replicate 15 CHR ''0'' = ''000000000000000''" by (simp add: numeral_eq_Suc)
  ultimately show ?thesis by (simp only: VmId_display_def hex_pad_def) simp
qed

lemma sample_child_run:
  "\<exists>hv. child_run sample_worker_host sample_env Map.empty MockHypervisor_new [RqCreateVm VmConfig_default, RqStart 1, RqStart 7] =
     (Map.empty, hv, [RsVmHandle \<lparr>vm_h_id = 1, vm_h_state = Created\<rparr>, RsEmpty, RsError CodeUnknownVm ''unknown vm id: vm-0000000000000007''])"
  by (simp add: child_dispatch_def respond_def create_vm_def start_def VmConfig_default_def MockHypervisor_new_def VmId_next_def
      sample_worker_host_def Response_from_def error_code_of_def VmError_display_def sample_display Let_def)


end
