(* ===== verification/Fleet.thy ===== *)
theory Fleet
  imports Vmm_Child
begin

text \<open>
  The hypervisor that runs every VM in a process of its own (\<^verbatim>\<open>crates/nanovm-fleet/src/lib.rs\<close>), over
  workers that run the loop of \<^verbatim>\<open>nanovm-vmm-child\<close>. A worker is a process with the mock's state behind a
  stream; the stream keeps the bytes the fleet has not read yet, so a response that was refused stays
  in it. What the operating system decides is the record \<open>fleet_host\<close>: whether the socket directory
  can be made, what each attempt to start a jailer with given arguments does, and whether the worker
  binds its socket in time. Starting a jailer gives the worker's environment (its process id).
  Socket files, the tokio runtime and log lines are left out. Operations run one at a time; between
  them any worker may be killed.

  A \<^verbatim>\<open>VmError\<close> made by the fleet is a \<open>fleet_error\<close>: its backend message is a constructor with the values
  it prints.
\<close>

subsection \<open>Data\<close>

record fleet_config =
  fc_jailer_binary :: string
  fc_vmm_child_binary :: string
  fc_socket_dir :: string
  fc_default_memory_limit_mib :: "u64 option"
  fc_default_cpu_quota_pct :: "u32 option"
  fc_cgroup_parent :: "string option"
  fc_spawn_timeout_ms :: nat
  fc_warm_pool_size :: nat

definition FleetConfig_default :: fleet_config where
  "FleetConfig_default =
     \<lparr>fc_jailer_binary = ''/usr/local/bin/nanovm-jailer'', fc_vmm_child_binary = ''/usr/local/bin/nanovm-vmm-child'',
      fc_socket_dir = ''/var/run/nanovm'', fc_default_memory_limit_mib = None, fc_default_cpu_quota_pct = None,
      fc_cgroup_parent = None, fc_spawn_timeout_ms = 5000, fc_warm_pool_size = 0\<rparr>"

record worker_process =
  wp_env :: host_env
  wp_hv :: mock_hv
  wp_alive :: bool

record worker =
  wk_process :: worker_process
  wk_stream :: "bytes option"
  wk_vm_id :: "vm_id option"

datatype ('j, 'io) fleet_message =
    MsgText string
  | MsgUnsupported string
  | MsgBadRequest string
  | MsgUnexpected ipc_response
  | MsgNotExportable snapshot_id
  | MsgIdNotAssigned
  | MsgStreamClosed
  | MsgIpc "(pipe_error, 'j) ipc_error"
  | MsgSocketDir 'io
  | MsgSpawn 'io
  | MsgNeverBound string nat
  | MsgPing "(pipe_error, 'j) ipc_error"
  | MsgHandshake ipc_response

datatype ('j, 'io) fleet_error =
    FlUnknownVm vm_id
  | FlUnknownSnapshot snapshot_id
  | FlInvalidTransition vm_id vm_state vm_state
  | FlBackend "('j, 'io) fleet_message"

record 'io fleet_host =
  fh_create_dir_all :: "string \<Rightarrow> ('io, unit) result"
  fh_spawn :: "string \<Rightarrow> string list \<Rightarrow> nat \<Rightarrow> ('io, host_env) result"
  fh_is_text_busy :: "'io \<Rightarrow> bool"
  fh_connects :: "string \<Rightarrow> bool"

record ('j, 'io, 'f, 'c) fleet_ctx =
  fx_config :: fleet_config
  fx_json :: "'j ipc_json"
  fx_worker :: "('j, 'io, 'f, 'c) worker_host"
  fx_host :: "'io fleet_host"

record 'f process_fleet =
  fl_fs :: 'f
  fl_workers :: "vm_id \<rightharpoonup> worker"
  fl_snapshot_owner :: "snapshot_id \<rightharpoonup> vm_id"
  fl_next_vm_id :: u64
  fl_warm_pool :: "(vm_id \<times> worker) list"

subsection \<open>Talking to a worker\<close>

definition roundtrip_on ::
    "('j, 'io, 'f, 'c) fleet_ctx \<Rightarrow> 'f \<Rightarrow> worker_process \<Rightarrow> bytes \<Rightarrow> ipc_request \<Rightarrow>
     'f \<times> worker_process \<times> bytes \<times> ((pipe_error, 'j) ipc_error, ipc_response) result" where
  "roundtrip_on P fs p buf req =
     (case write_frame pipe_write pipe_flush (ij_rq_to (fx_json P)) [] req of
        (_, Inl e) \<Rightarrow> (fs, p, buf, Err e)
      | (sent, Inr _) \<Rightarrow>
          if \<not> wp_alive p then (fs, p, buf, Err (ipc_error.Io BrokenPipe))
          else
            let ((fs, hv, _, out), turn) = serve_step (fx_json P) (fx_worker P) (wp_env p) (fs, wp_hv p, sent, []);
                alive = (case turn of GoOn \<Rightarrow> True | Leave _ \<Rightarrow> False);
                (buf, r) = read_frame (pipe_read alive) (ij_rs_from (fx_json P)) (buf @ out)
            in (fs, p\<lparr>wp_hv := hv, wp_alive := alive\<rparr>, buf, r))"

definition dispatch_to_slot ::
    "('j, 'io, 'f, 'c) fleet_ctx \<Rightarrow> 'f \<Rightarrow> worker \<Rightarrow> ipc_request \<Rightarrow>
     'f \<times> worker \<times> (('j, 'io) fleet_error, ipc_response) result" where
  "dispatch_to_slot P fs w req =
     (case wk_stream w of
        None \<Rightarrow> (fs, w, Err (FlBackend MsgStreamClosed))
      | Some buf \<Rightarrow>
          let (fs, p, buf, r) = roundtrip_on P fs (wk_process w) buf req
          in (fs, w\<lparr>wk_process := p, wk_stream := Some buf\<rparr>, map_err (\<lambda>e. FlBackend (MsgIpc e)) r))"

definition unwrap_response ::
    "ipc_response \<Rightarrow> (ipc_response \<Rightarrow> 'a option) \<Rightarrow> (('j, 'io) fleet_error, 'a) result" where
  "unwrap_response resp extract =
     (case resp of
        RsError code message \<Rightarrow>
          Err (case code of
                 CodeUnknownVm \<Rightarrow> FlUnknownVm 0
               | CodeUnknownSnapshot \<Rightarrow> FlUnknownSnapshot 0
               | CodeInvalidTransition \<Rightarrow> FlInvalidTransition 0 Created Running
               | CodeUnsupported \<Rightarrow> FlBackend (MsgUnsupported message)
               | CodeBackend \<Rightarrow> FlBackend (MsgText message)
               | CodeBadRequest \<Rightarrow> FlBackend (MsgBadRequest message))
      | other \<Rightarrow> ok_or (FlBackend (MsgUnexpected other)) (extract other))"

definition as_unit :: "ipc_response \<Rightarrow> unit option" where
  "as_unit r = (case r of RsEmpty \<Rightarrow> Some () | _ \<Rightarrow> None)"
definition as_handle :: "ipc_response \<Rightarrow> vm_handle option" where
  "as_handle r = (case r of RsVmHandle h \<Rightarrow> Some h | _ \<Rightarrow> None)"
definition as_snapshot :: "ipc_response \<Rightarrow> snapshot_id option" where
  "as_snapshot r = (case r of RsSnapshot k \<Rightarrow> Some k | _ \<Rightarrow> None)"

subsection \<open>Starting workers\<close>

definition worker_socket :: "fleet_config \<Rightarrow> vm_id \<Rightarrow> string" where
  "worker_socket cfg i = path_join (fc_socket_dir cfg) (''vm-'' @ dec (unat i) @ ''.sock'')"

definition jailer_args :: "fleet_config \<Rightarrow> vm_id \<Rightarrow> string list" where
  "jailer_args cfg i =
     [''--vm-id'', dec (unat i), ''--socket'', worker_socket cfg i, ''--vmm-child-binary'', fc_vmm_child_binary cfg] @
     (case fc_default_memory_limit_mib cfg of None \<Rightarrow> [] | Some mib \<Rightarrow> [''--memory-limit-mib'', dec (unat mib)]) @
     (case fc_default_cpu_quota_pct cfg of None \<Rightarrow> [] | Some pct \<Rightarrow> [''--cpu-quota-pct'', dec (unat pct)]) @
     (case fc_cgroup_parent cfg of None \<Rightarrow> [] | Some parent \<Rightarrow> [''--cgroup-parent'', parent])"

function spawn_jailer :: "(nat \<Rightarrow> ('io, 'a) result) \<Rightarrow> ('io \<Rightarrow> bool) \<Rightarrow> nat \<Rightarrow> ('io, 'a) result" where
  "spawn_jailer spawn busy attempt =
     (case spawn attempt of
        Inr c \<Rightarrow> Ok c
      | Inl e \<Rightarrow> if busy e \<and> attempt < 2 then spawn_jailer spawn busy (attempt + 1) else Err e)"
  by pat_completeness auto
termination by (relation "measure (\<lambda>(_, _, attempt). 2 - attempt)") auto

declare spawn_jailer.simps [simp del]

definition wait_for_socket_and_open ::
    "('j, 'io, 'f, 'c) fleet_ctx \<Rightarrow> 'f \<Rightarrow> host_env \<Rightarrow> string \<Rightarrow> (('j, 'io) fleet_error, worker) result" where
  "wait_for_socket_and_open P fs env sock =
     (if \<not> fh_connects (fx_host P) sock
      then Err (FlBackend (MsgNeverBound sock (fc_spawn_timeout_ms (fx_config P))))
      else
        let (_, p, buf, r) = roundtrip_on P fs \<lparr>wp_env = env, wp_hv = MockHypervisor_new, wp_alive = True\<rparr> [] RqPing
        in case r of
             Inl e \<Rightarrow> Err (FlBackend (MsgPing e))
           | Inr resp \<Rightarrow>
               if resp = RsPong then Ok \<lparr>wk_process = p, wk_stream = Some buf, wk_vm_id = None\<rparr>
               else Err (FlBackend (MsgHandshake resp)))"

definition spawn_worker ::
    "('j, 'io, 'f, 'c) fleet_ctx \<Rightarrow> 'f \<Rightarrow> vm_id \<Rightarrow> (('j, 'io) fleet_error, worker) result" where
  "spawn_worker P fs i =
     (let cfg = fx_config P; H = fx_host P
      in and_then (map_err (\<lambda>e. FlBackend (MsgSocketDir e)) (fh_create_dir_all H (fc_socket_dir cfg))) (\<lambda>_.
         and_then (map_err (\<lambda>e. FlBackend (MsgSpawn e))
             (spawn_jailer (fh_spawn H (fc_jailer_binary cfg) (jailer_args cfg i)) (fh_is_text_busy H) 0)) (\<lambda>env.
           wait_for_socket_and_open P fs env (worker_socket cfg i))))"

definition next_vm_id :: "'f process_fleet \<Rightarrow> 'f process_fleet \<times> vm_id" where
  "next_vm_id s = (s\<lparr>fl_next_vm_id := fl_next_vm_id s + 1\<rparr>, fl_next_vm_id s)"

function refill_loop ::
    "('j, 'io, 'f, 'c) fleet_ctx \<Rightarrow> 'f process_fleet \<Rightarrow> 'f process_fleet \<times> (('j, 'io) fleet_error, unit) result" where
  "refill_loop P s =
     (if length (fl_warm_pool s) < fc_warm_pool_size (fx_config P)
      then
        let (s, i) = next_vm_id s
        in case spawn_worker P (fl_fs s) i of
             Inl e \<Rightarrow> (s, Err e)
           | Inr w \<Rightarrow> refill_loop P (s\<lparr>fl_warm_pool := fl_warm_pool s @ [(i, w)]\<rparr>)
      else (s, Ok ()))"
  by pat_completeness auto
termination
  by (relation "measure (\<lambda>(P, s). fc_warm_pool_size (fx_config P) - length (fl_warm_pool s))") (auto simp: next_vm_id_def)

declare refill_loop.simps [simp del]

definition refill_warm_pool ::
    "('j, 'io, 'f, 'c) fleet_ctx \<Rightarrow> 'f process_fleet \<Rightarrow> 'f process_fleet \<times> (('j, 'io) fleet_error, unit) result" where
  "refill_warm_pool P s = (if fc_warm_pool_size (fx_config P) = 0 then (s, Ok ()) else refill_loop P s)"

definition ProcessFleet_new ::
    "('j, 'io, 'f, 'c) fleet_ctx \<Rightarrow> 'f \<Rightarrow> 'f process_fleet \<times> (('j, 'io) fleet_error, unit) result" where
  "ProcessFleet_new P fs =
     refill_warm_pool P \<lparr>fl_fs = fs, fl_workers = Map.empty, fl_snapshot_owner = Map.empty, fl_next_vm_id = 1, fl_warm_pool = []\<rparr>"

definition fleet_take_warm :: "'f process_fleet \<Rightarrow> 'f process_fleet \<times> (vm_id \<times> worker) option" where
  "fleet_take_warm s =
     (case fl_warm_pool s of [] \<Rightarrow> (s, None) | e # es \<Rightarrow> (s\<lparr>fl_warm_pool := es\<rparr>, Some e))"

definition warm_pool_len :: "'f process_fleet \<Rightarrow> nat" where
  "warm_pool_len s = length (fl_warm_pool s)"

subsection \<open>Operations\<close>

definition worker_for :: "'f process_fleet \<Rightarrow> vm_id \<Rightarrow> (('j, 'io) fleet_error, worker) result" where
  "worker_for s i = ok_or (FlUnknownVm i) (fl_workers s i)"

text \<open>A request on the worker of \<open>i\<close>, which stays in the map.\<close>

definition call_slot ::
    "('j, 'io, 'f, 'c) fleet_ctx \<Rightarrow> 'f process_fleet \<Rightarrow> vm_id \<Rightarrow> worker \<Rightarrow> ipc_request \<Rightarrow>
     'f process_fleet \<times> (('j, 'io) fleet_error, ipc_response) result" where
  "call_slot P s i w req =
     (let (fs, w, r) = dispatch_to_slot P (fl_fs s) w req
      in (s\<lparr>fl_fs := fs, fl_workers := (fl_workers s)(i \<mapsto> w)\<rparr>, r))"

definition fleet_dispatch ::
    "('j, 'io, 'f, 'c) fleet_ctx \<Rightarrow> 'f process_fleet \<Rightarrow> vm_id \<Rightarrow> ipc_request \<Rightarrow>
     'f process_fleet \<times> (('j, 'io) fleet_error, ipc_response) result" where
  "fleet_dispatch P s i req =
     (case worker_for s i of Inl e \<Rightarrow> (s, Err e) | Inr w \<Rightarrow> call_slot P s i w req)"

definition dispatch_remapped ::
    "('j, 'io, 'f, 'c) fleet_ctx \<Rightarrow> 'f process_fleet \<Rightarrow> vm_id \<Rightarrow> (vm_id \<Rightarrow> ipc_request) \<Rightarrow>
     'f process_fleet \<times> (('j, 'io) fleet_error, ipc_response) result" where
  "dispatch_remapped P s i build =
     (case worker_for s i of
        Inl e \<Rightarrow> (s, Err e)
      | Inr w \<Rightarrow>
          (case wk_vm_id w of
             None \<Rightarrow> (s, Err (FlBackend MsgIdNotAssigned))
           | Some worker_id \<Rightarrow> call_slot P s i w (build worker_id)))"

definition unwrap ::
    "(ipc_response \<Rightarrow> 'a option) \<Rightarrow> 's \<times> (('j, 'io) fleet_error, ipc_response) result \<Rightarrow> 's \<times> (('j, 'io) fleet_error, 'a) result" where
  "unwrap extract sr = (fst sr, and_then (snd sr) (\<lambda>resp. unwrap_response resp extract))"

definition fleet_acquire ::
    "('j, 'io, 'f, 'c) fleet_ctx \<Rightarrow> 'f process_fleet \<Rightarrow> 'f process_fleet \<times> (('j, 'io) fleet_error, vm_id \<times> worker) result" where
  "fleet_acquire P s =
     (case fleet_take_warm s of
        (s, Some (i, w)) \<Rightarrow> (fst (refill_warm_pool P s), Ok (i, w))
      | (s, None) \<Rightarrow> let (s, i) = next_vm_id s in (s, map_sum id (\<lambda>w. (i, w)) (spawn_worker P (fl_fs s) i)))"

definition fleet_create_vm ::
    "('j, 'io, 'f, 'c) fleet_ctx \<Rightarrow> 'f process_fleet \<Rightarrow> vm_config \<Rightarrow> 'f process_fleet \<times> (('j, 'io) fleet_error, vm_handle) result" where
  "fleet_create_vm P s cfg =
     (case fleet_acquire P s of
        (s, Inl e) \<Rightarrow> (s, Err e)
      | (s, Inr (i, w)) \<Rightarrow>
          let (fs, w, r) = dispatch_to_slot P (fl_fs s) w (RqCreateVm cfg);
              s = s\<lparr>fl_fs := fs\<rparr>
          in case and_then r (\<lambda>resp. unwrap_response resp as_handle) of
               Inl e \<Rightarrow> (s, Err e)
             | Inr handle \<Rightarrow>
                 (s\<lparr>fl_workers := (fl_workers s)(i \<mapsto> w\<lparr>wk_vm_id := Some (vm_h_id handle)\<rparr>)\<rparr>,
                  Ok (handle\<lparr>vm_h_id := i\<rparr>)))"

definition fleet_start where
  "fleet_start P s i = unwrap as_unit (dispatch_remapped P s i RqStart)"

definition fleet_stop where
  "fleet_stop P s i = unwrap as_unit (dispatch_remapped P s i RqStop)"

definition fleet_state where
  "fleet_state P s i = unwrap (\<lambda>r. case r of RsState st \<Rightarrow> Some st | _ \<Rightarrow> None) (dispatch_remapped P s i RqState)"

definition fleet_vm_meta where
  "fleet_vm_meta P s i = unwrap (\<lambda>r. case r of RsVmMeta m \<Rightarrow> Some m | _ \<Rightarrow> None) (dispatch_remapped P s i RqVmMeta)"

definition fleet_exec_in_guest where
  "fleet_exec_in_guest P s i req =
     unwrap (\<lambda>r. case r of RsExecResult x \<Rightarrow> Some x | _ \<Rightarrow> None) (dispatch_remapped P s i (\<lambda>w. RqExecInGuest w req))"

definition fleet_write_file where
  "fleet_write_file P s i p content mode =
     unwrap (\<lambda>r. case r of RsWritten n \<Rightarrow> Some n | _ \<Rightarrow> None) (dispatch_remapped P s i (\<lambda>w. RqWriteFile w p content mode))"

definition fleet_read_file where
  "fleet_read_file P s i p =
     unwrap (\<lambda>r. case r of RsBytes b \<Rightarrow> Some b | _ \<Rightarrow> None) (dispatch_remapped P s i (\<lambda>w. RqReadFile w p))"

definition fleet_snapshot ::
    "('j, 'io, 'f, 'c) fleet_ctx \<Rightarrow> 'f process_fleet \<Rightarrow> vm_id \<Rightarrow> 'f process_fleet \<times> (('j, 'io) fleet_error, snapshot_id) result" where
  "fleet_snapshot P s i =
     (case unwrap as_snapshot (dispatch_remapped P s i RqSnapshot) of
        (s, Inl e) \<Rightarrow> (s, Err e)
      | (s, Inr snap) \<Rightarrow> (s\<lparr>fl_snapshot_owner := (fl_snapshot_owner s)(snap \<mapsto> i)\<rparr>, Ok snap))"

definition fleet_restore_into ::
    "('j, 'io, 'f, 'c) fleet_ctx \<Rightarrow> 'f process_fleet \<Rightarrow> vm_id \<Rightarrow> worker \<Rightarrow> path \<Rightarrow>
     'f process_fleet \<times> (('j, 'io) fleet_error, vm_handle) result" where
  "fleet_restore_into P s i w dir =
     (let (fs, w, r) = dispatch_to_slot P (fl_fs s) w (RqSnapshotAdopt dir);
          s = s\<lparr>fl_fs := fs\<rparr>
      in case and_then r (\<lambda>resp. unwrap_response resp as_snapshot) of
           Inl e \<Rightarrow> (s, Err e)
         | Inr local_snap \<Rightarrow>
             let (fs, w, r) = dispatch_to_slot P (fl_fs s) w (RqRestore local_snap);
                 s = s\<lparr>fl_fs := fs\<rparr>
             in case and_then r (\<lambda>resp. unwrap_response resp as_handle) of
                  Inl e \<Rightarrow> (s, Err e)
                | Inr handle \<Rightarrow>
                    (s\<lparr>fl_workers := (fl_workers s)(i \<mapsto> w\<lparr>wk_vm_id := Some (vm_h_id handle)\<rparr>)\<rparr>,
                     Ok (handle\<lparr>vm_h_id := i\<rparr>)))"

definition fleet_restore ::
    "('j, 'io, 'f, 'c) fleet_ctx \<Rightarrow> 'f process_fleet \<Rightarrow> snapshot_id \<Rightarrow> 'f process_fleet \<times> (('j, 'io) fleet_error, vm_handle) result" where
  "fleet_restore P s snap =
     (case fl_snapshot_owner s snap of
        None \<Rightarrow> (s, Err (FlUnknownSnapshot snap))
      | Some owner_vm \<Rightarrow>
          (case unwrap (\<lambda>r. case r of RsOptPath p \<Rightarrow> Some p | _ \<Rightarrow> None) (fleet_dispatch P s owner_vm (RqSnapshotExportDir snap)) of
             (s, Inl e) \<Rightarrow> (s, Err e)
           | (s, Inr None) \<Rightarrow> (s, Err (FlBackend (MsgNotExportable snap)))
           | (s, Inr (Some dir)) \<Rightarrow>
               let (s, i) = next_vm_id s
               in case spawn_worker P (fl_fs s) i of
                    Inl e \<Rightarrow> (s, Err e)
                  | Inr w \<Rightarrow> fleet_restore_into P s i w dir))"

definition fleet_destroy ::
    "('j, 'io, 'f, 'c) fleet_ctx \<Rightarrow> 'f process_fleet \<Rightarrow> vm_id \<Rightarrow> 'f process_fleet \<times> (('j, 'io) fleet_error, unit) result" where
  "fleet_destroy P s i =
     (case worker_for s i of
        Inl e \<Rightarrow> (s, Err e)
      | Inr w \<Rightarrow>
          let (fs, w) = (case wk_vm_id w of
                           None \<Rightarrow> (fl_fs s, w)
                         | Some wid \<Rightarrow> let (fs, w, _) = dispatch_to_slot P (fl_fs s) w (RqDestroy wid) in (fs, w));
              (fs, w, _) = dispatch_to_slot P fs w RqShutdown
          in (s\<lparr>fl_fs := fs, fl_workers := (fl_workers s)(i := None),
                fl_snapshot_owner := (\<lambda>k. if fl_snapshot_owner s k = Some i then None else fl_snapshot_owner s k)\<rparr>, Ok ()))"

fun fleet_list_loop ::
    "('j, 'io, 'f, 'c) fleet_ctx \<Rightarrow> 'f process_fleet \<Rightarrow> vm_id list \<Rightarrow> 'f process_fleet \<times> vm_handle list" where
  "fleet_list_loop P s [] = (s, [])"
| "fleet_list_loop P s (i # is) =
     (let (s, r) = fleet_state P s i;
          st = (case r of Inl _ \<Rightarrow> Created | Inr st \<Rightarrow> st);
          (s, hs) = fleet_list_loop P s is
      in (s, \<lparr>vm_h_id = i, vm_h_state = st\<rparr> # hs))"

definition fleet_list_vms ::
    "('j, 'io, 'f, 'c) fleet_ctx \<Rightarrow> vm_id list \<Rightarrow> 'f process_fleet \<Rightarrow> 'f process_fleet \<times> (('j, 'io) fleet_error, vm_handle list) result" where
  "fleet_list_vms P order s =
     (let (s, hs) = fleet_list_loop P s (filter (\<lambda>i. fl_workers s i \<noteq> None) order) in (s, Ok hs))"

definition fleet_list_snapshots :: "snapshot_id list \<Rightarrow> 'f process_fleet \<Rightarrow> (('j, 'io) fleet_error, snapshot_id list) result" where
  "fleet_list_snapshots order s = Ok (filter (\<lambda>k. fl_snapshot_owner s k \<noteq> None) order)"

definition fleet_delete_snapshot ::
    "('j, 'io, 'f, 'c) fleet_ctx \<Rightarrow> 'f process_fleet \<Rightarrow> snapshot_id \<Rightarrow> 'f process_fleet \<times> (('j, 'io) fleet_error, unit) result" where
  "fleet_delete_snapshot P s snap =
     (case fl_snapshot_owner s snap of
        None \<Rightarrow> (s, Err (FlUnknownSnapshot snap))
      | Some owner_vm \<Rightarrow>
          (case unwrap as_unit (fleet_dispatch P s owner_vm (RqDeleteSnapshot snap)) of
             (s, Inl e) \<Rightarrow> (s, Err e)
           | (s, Inr _) \<Rightarrow> (s\<lparr>fl_snapshot_owner := (fl_snapshot_owner s)(snap := None)\<rparr>, Ok ())))"

definition fleet_snapshot_meta ::
    "('j, 'io, 'f, 'c) fleet_ctx \<Rightarrow> 'f process_fleet \<Rightarrow> snapshot_id \<Rightarrow> 'f process_fleet \<times> (('j, 'io) fleet_error, snapshot_meta) result" where
  "fleet_snapshot_meta P s snap =
     (case fl_snapshot_owner s snap of
        None \<Rightarrow> (s, Err (FlUnknownSnapshot snap))
      | Some owner_vm \<Rightarrow>
          unwrap (\<lambda>r. case r of RsSnapshotMeta m \<Rightarrow> Some m | _ \<Rightarrow> None) (fleet_dispatch P s owner_vm (RqSnapshotMeta snap)))"

subsection \<open>One worker at a time\<close>

text \<open>What a request may change: the worker it goes to, which keeps its place and its id.\<close>

definition slot_like :: "worker \<Rightarrow> worker \<Rightarrow> bool" where
  "slot_like w w' \<longleftrightarrow> wk_vm_id w' = wk_vm_id w \<and> (wk_stream w' = None \<longleftrightarrow> wk_stream w = None)"

definition only :: "'f process_fleet \<Rightarrow> vm_id \<Rightarrow> 'f process_fleet \<Rightarrow> bool" where
  "only s i s' \<longleftrightarrow> fl_snapshot_owner s' = fl_snapshot_owner s \<and> fl_next_vm_id s' = fl_next_vm_id s \<and> fl_warm_pool s' = fl_warm_pool s \<and>
     (\<forall>j. j \<noteq> i \<longrightarrow> fl_workers s' j = fl_workers s j) \<and> rel_option slot_like (fl_workers s i) (fl_workers s' i)"

lemma slot_like_refl [simp]: "slot_like w w"
  by (simp add: slot_like_def)

lemma only_refl [simp]: "only s i s"
  by (cases "fl_workers s i") (simp_all add: only_def)

lemma dispatch_to_slot_like: "dispatch_to_slot P fs w req = (fs', w', r) \<Longrightarrow> slot_like w w'"
  by (auto simp: dispatch_to_slot_def slot_like_def split: option.splits prod.splits)

lemma call_slot_only: "fl_workers s i = Some w \<Longrightarrow> only s i (fst (call_slot P s i w req))"
  by (auto simp: call_slot_def only_def split: prod.split dest: dispatch_to_slot_like)

lemma fleet_dispatch_only: "only s i (fst (fleet_dispatch P s i req))"
  by (cases "fl_workers s i") (simp_all add: fleet_dispatch_def worker_for_def call_slot_only)

lemma dispatch_remapped_only: "only s i (fst (dispatch_remapped P s i build))"
  by (cases "fl_workers s i") (simp_all add: dispatch_remapped_def worker_for_def call_slot_only split: option.split)

lemma unwrap_fst [simp]: "fst (unwrap extract sr) = fst sr"
  by (simp add: unwrap_def)

lemma unwrap_eq: "unwrap extract sr = (s, r) \<Longrightarrow> s = fst sr"
  by (auto simp: unwrap_def)

subsection \<open>Steps\<close>

datatype fleet_op =
    FlCreate vm_config
  | FlStart vm_id
  | FlStop vm_id
  | FlState vm_id
  | FlVmMeta vm_id
  | FlExec vm_id guest_exec_request
  | FlWriteFile vm_id string bytes u32
  | FlReadFile vm_id string
  | FlSnapshot vm_id
  | FlRestore snapshot_id
  | FlDestroy vm_id
  | FlListVms "vm_id list"
  | FlDeleteSnapshot snapshot_id
  | FlSnapshotMeta snapshot_id
  | FlKilled vm_id

text \<open>\<open>FlKilled\<close> is not a call: the kernel kills the worker of a VM.\<close>

definition kill_worker :: "worker \<Rightarrow> worker" where
  "kill_worker w = w\<lparr>wk_process := (wk_process w)\<lparr>wp_alive := False\<rparr>\<rparr>"

fun fleet_exec :: "('j, 'io, 'f, 'c) fleet_ctx \<Rightarrow> fleet_op \<Rightarrow> 'f process_fleet \<Rightarrow> 'f process_fleet" where
  "fleet_exec P (FlCreate cfg) s = fst (fleet_create_vm P s cfg)"
| "fleet_exec P (FlStart i) s = fst (fleet_start P s i)"
| "fleet_exec P (FlStop i) s = fst (fleet_stop P s i)"
| "fleet_exec P (FlState i) s = fst (fleet_state P s i)"
| "fleet_exec P (FlVmMeta i) s = fst (fleet_vm_meta P s i)"
| "fleet_exec P (FlExec i req) s = fst (fleet_exec_in_guest P s i req)"
| "fleet_exec P (FlWriteFile i p b m) s = fst (fleet_write_file P s i p b m)"
| "fleet_exec P (FlReadFile i p) s = fst (fleet_read_file P s i p)"
| "fleet_exec P (FlSnapshot i) s = fst (fleet_snapshot P s i)"
| "fleet_exec P (FlRestore k) s = fst (fleet_restore P s k)"
| "fleet_exec P (FlDestroy i) s = fst (fleet_destroy P s i)"
| "fleet_exec P (FlListVms order) s = fst (fleet_list_vms P order s)"
| "fleet_exec P (FlDeleteSnapshot k) s = fst (fleet_delete_snapshot P s k)"
| "fleet_exec P (FlSnapshotMeta k) s = fst (fleet_snapshot_meta P s k)"
| "fleet_exec P (FlKilled i) s = s\<lparr>fl_workers := (fl_workers s)(i := map_option kill_worker (fl_workers s i))\<rparr>"

text \<open>The VMs an operation names, itself or through a snapshot.\<close>

fun targets :: "'f process_fleet \<Rightarrow> fleet_op \<Rightarrow> vm_id set" where
  "targets s (FlCreate cfg) = {}"
| "targets s (FlRestore k) = set_option (fl_snapshot_owner s k)"
| "targets s (FlDeleteSnapshot k) = set_option (fl_snapshot_owner s k)"
| "targets s (FlSnapshotMeta k) = set_option (fl_snapshot_owner s k)"
| "targets s (FlListVms order) = set order"
| "targets s (FlStart i) = {i}"
| "targets s (FlStop i) = {i}"
| "targets s (FlState i) = {i}"
| "targets s (FlVmMeta i) = {i}"
| "targets s (FlExec i _) = {i}"
| "targets s (FlWriteFile i _ _ _) = {i}"
| "targets s (FlReadFile i _) = {i}"
| "targets s (FlSnapshot i) = {i}"
| "targets s (FlDestroy i) = {i}"
| "targets s (FlKilled i) = {i}"

text \<open>
  The states of a fleet: ids in use are below the counter and in one place only, live VMs have a
  worker id and warm workers none, no stream is closed, and every snapshot belongs to a live VM.
\<close>

definition fleet_inv :: "'f process_fleet \<Rightarrow> bool" where
  "fleet_inv s \<longleftrightarrow>
     (\<forall>i w. fl_workers s i = Some w \<longrightarrow> unat i < unat (fl_next_vm_id s) \<and> wk_vm_id w \<noteq> None \<and> wk_stream w \<noteq> None) \<and>
     (\<forall>(i, w) \<in> set (fl_warm_pool s). unat i < unat (fl_next_vm_id s) \<and> i \<notin> dom (fl_workers s) \<and> wk_vm_id w = None \<and> wk_stream w \<noteq> None) \<and>
     distinct (map fst (fl_warm_pool s)) \<and> ran (fl_snapshot_owner s) \<subseteq> dom (fl_workers s)"

lemma fleet_inv_only:
  assumes "fleet_inv s" and "only s i s'"
  shows "fleet_inv s'" and "dom (fl_workers s') = dom (fl_workers s)"
proof -
  have like: "\<exists>w. fl_workers s j = Some w \<and> slot_like w w'" if "fl_workers s' j = Some w'" for j w'
    using assms(2) that by (cases "j = i") (auto simp: only_def rel_option_iff split: option.splits)
  have "fl_workers s' j = None \<longleftrightarrow> fl_workers s j = None" for j
    using assms(2) by (cases "j = i") (auto simp: only_def rel_option_iff split: option.splits)
  then show d: "dom (fl_workers s') = dom (fl_workers s)" by (simp add: dom_def)
  show "fleet_inv s'"
    using assms like unfolding fleet_inv_def only_def d by (fastforce simp: slot_like_def)
qed

lemma spawn_worker_shape:
  assumes "spawn_worker P fs i = Inr w"
  shows "wk_vm_id w = None \<and> wk_stream w \<noteq> None"
  using assms
  by (auto simp: spawn_worker_def wait_for_socket_and_open_def Let_def and_then_eqs split: if_splits prod.splits sum.splits)

lemma next_vm_id_unat:
  assumes "unat (fl_next_vm_id s) + 1 < 2 ^ 64"
  shows "unat (fl_next_vm_id s + 1) = unat (fl_next_vm_id s) + 1"
  using assms by (simp add: unat_word_ariths)

lemma fleet_inv_next:
  assumes "fleet_inv s" and "unat (fl_next_vm_id s) + 1 < 2 ^ 64"
  shows "fleet_inv (s\<lparr>fl_next_vm_id := fl_next_vm_id s + 1\<rparr>)"
  using assms unfolding fleet_inv_def by (fastforce simp: next_vm_id_unat [OF assms(2)] intro: less_SucI)

lemma fleet_inv_fresh: "fleet_inv s \<Longrightarrow> fl_next_vm_id s \<notin> dom (fl_workers s) \<and> fl_next_vm_id s \<notin> fst ` set (fl_warm_pool s)"
  by (fastforce simp: fleet_inv_def)

text \<open>What making workers changes: the counter and the pool.\<close>

lemma refill_loop_keeps:
  assumes "fleet_inv s" and "unat (fl_next_vm_id s) + (fc_warm_pool_size (fx_config P) - length (fl_warm_pool s)) < 2 ^ 64"
  shows "fleet_inv (fst (refill_loop P s)) \<and> fl_workers (fst (refill_loop P s)) = fl_workers s \<and>
    fl_snapshot_owner (fst (refill_loop P s)) = fl_snapshot_owner s \<and>
    (\<forall>x. x \<in> fst ` set (fl_warm_pool (fst (refill_loop P s))) \<longrightarrow> x \<in> fst ` set (fl_warm_pool s) \<or> unat (fl_next_vm_id s) \<le> unat x) \<and>
    unat (fl_next_vm_id s) \<le> unat (fl_next_vm_id (fst (refill_loop P s))) \<and>
    unat (fl_next_vm_id (fst (refill_loop P s))) \<le> unat (fl_next_vm_id s) + (fc_warm_pool_size (fx_config P) - length (fl_warm_pool s))"
  using assms
proof (induction P s rule: refill_loop.induct)
  case (1 P s)
  let ?n = "fc_warm_pool_size (fx_config P)" and ?i = "fl_next_vm_id s" and ?s = "s\<lparr>fl_next_vm_id := fl_next_vm_id s + 1\<rparr>"
  show ?case
  proof (cases "length (fl_warm_pool s) < ?n")
    case True
    then have room: "unat ?i + 1 < 2 ^ 64" using "1.prems"(2) by linarith
    note n = next_vm_id_unat [OF room] and inv = fleet_inv_next [OF "1.prems"(1) room]
    show ?thesis
    proof (cases "spawn_worker P (fl_fs s) ?i")
      case (Inl e)
      then have "fst (refill_loop P s) = ?s" using True by (simp add: refill_loop.simps [of P s] next_vm_id_def)
      then show ?thesis using inv n True by auto
    next
      case (Inr w)
      let ?t = "?s\<lparr>fl_warm_pool := fl_warm_pool ?s @ [(?i, w)]\<rparr>"
      have loop: "refill_loop P s = refill_loop P ?t" using True Inr by (simp add: refill_loop.simps [of P s] next_vm_id_def)
      have inv: "fleet_inv ?t"
        using inv spawn_worker_shape [OF Inr] fleet_inv_fresh [OF "1.prems"(1)] n unfolding fleet_inv_def by auto
      have "unat (fl_next_vm_id ?t) + (?n - length (fl_warm_pool ?t)) < 2 ^ 64"
        using "1.prems"(2) n True by simp
      from "1.IH" [OF True refl _ _ inv this] Inr n True show ?thesis
        unfolding loop by (auto simp: next_vm_id_def)
    qed
  next
    case False
    then show ?thesis using "1.prems" by (simp add: refill_loop.simps [of P s])
  qed
qed

definition spare :: "'f process_fleet \<Rightarrow> vm_id \<Rightarrow> worker \<Rightarrow> bool" where
  "spare s i w \<longleftrightarrow> i \<notin> dom (fl_workers s) \<and> i \<notin> fst ` set (fl_warm_pool s) \<and> unat i < unat (fl_next_vm_id s) \<and>
     wk_vm_id w = None \<and> wk_stream w \<noteq> None"

lemma spawn_fresh:
  assumes "fleet_inv s" and "unat (fl_next_vm_id s) + 1 < 2 ^ 64" and "next_vm_id s = (s', i)" and "spawn_worker P fs i = Inr w"
  shows "spare s' i w"
  using fleet_inv_fresh [OF assms(1)] spawn_worker_shape [OF assms(4)] next_vm_id_unat [OF assms(2)] assms(3)
  by (auto simp: spare_def next_vm_id_def)

definition room_for_ids :: "('j, 'io, 'f, 'c) fleet_ctx \<Rightarrow> 'f process_fleet \<Rightarrow> bool" where
  "room_for_ids P s \<longleftrightarrow> unat (fl_next_vm_id s) + fc_warm_pool_size (fx_config P) + 1 < 2 ^ 64"

lemma fleet_acquire_keeps:
  assumes "fleet_inv s" and "room_for_ids P s" and "fleet_acquire P s = (s', r)"
  shows "fleet_inv s' \<and> fl_workers s' = fl_workers s \<and> fl_snapshot_owner s' = fl_snapshot_owner s \<and>
    (\<forall>i w. r = Inr (i, w) \<longrightarrow> spare s' i w)"
proof (cases "fl_warm_pool s")
  case Nil
  have room: "unat (fl_next_vm_id s) + 1 < 2 ^ 64" using assms(2) by (simp add: room_for_ids_def)
  let ?t = "s\<lparr>fl_next_vm_id := fl_next_vm_id s + 1\<rparr>"
  have "s' = ?t" "r = map_sum id (\<lambda>w. (fl_next_vm_id s, w)) (spawn_worker P (fl_fs s) (fl_next_vm_id s))"
    using assms(3) Nil by (auto simp: fleet_acquire_def fleet_take_warm_def next_vm_id_def)
  then show ?thesis
    using fleet_inv_next [OF assms(1) room] spawn_fresh [OF assms(1) room, of ?t "fl_next_vm_id s" P "fl_fs s"]
    by (auto simp: next_vm_id_def map_sum_def split: sum.splits)
next
  case (Cons e es)
  obtain i w where e: "e = (i, w)" by (cases e)
  let ?t = "s\<lparr>fl_warm_pool := es\<rparr>"
  have inv: "fleet_inv ?t" and i: "i \<notin> dom (fl_workers s)" "i \<notin> fst ` set es" "unat i < unat (fl_next_vm_id s)"
    "wk_vm_id w = None" "wk_stream w \<noteq> None"
    using assms(1) unfolding Cons e fleet_inv_def by auto
  have s': "s' = fst (refill_warm_pool P ?t)" "r = Inr (i, w)"
    using assms(3) Cons e by (auto simp: fleet_acquire_def fleet_take_warm_def)
  have "unat (fl_next_vm_id ?t) + (fc_warm_pool_size (fx_config P) - length (fl_warm_pool ?t)) < 2 ^ 64"
    using assms(2) by (simp add: room_for_ids_def)
  from refill_loop_keeps [OF inv this] inv i show ?thesis
    unfolding s' spare_def by (auto simp: refill_warm_pool_def)
qed

lemma fleet_inv_insert:
  assumes "fleet_inv s" and "spare s i w" and "slot_like w w'"
  shows "fleet_inv (s\<lparr>fl_workers := (fl_workers s)(i \<mapsto> w'\<lparr>wk_vm_id := Some v\<rparr>)\<rparr>)"
proof -
  have "\<forall>(j, u) \<in> set (fl_warm_pool s). j \<noteq> i" using assms(2) by (force simp: spare_def)
  moreover have "wk_stream w' \<noteq> None" "unat i < unat (fl_next_vm_id s)" using assms(2,3) by (auto simp: spare_def slot_like_def)
  ultimately show ?thesis using assms(1) unfolding fleet_inv_def by (auto split: if_splits)
qed

lemma fleet_inv_fs [simp]: "fleet_inv (s\<lparr>fl_fs := fs\<rparr>) = fleet_inv s" "spare (s\<lparr>fl_fs := fs\<rparr>) i w = spare s i w"
  by (simp_all add: fleet_inv_def spare_def)

text \<open>A VM is made under an id that names no other, next to the others.\<close>

definition added :: "'f process_fleet \<Rightarrow> ('e, vm_handle) result \<Rightarrow> 'f process_fleet \<Rightarrow> bool" where
  "added s r s' \<longleftrightarrow> fl_snapshot_owner s' = fl_snapshot_owner s \<and>
     (case r of
        Inl _ \<Rightarrow> fl_workers s' = fl_workers s
      | Inr h \<Rightarrow> vm_h_id h \<notin> dom (fl_workers s) \<and> (\<exists>w. fl_workers s' = (fl_workers s)(vm_h_id h \<mapsto> w)))"

lemma fleet_create_keeps:
  assumes "fleet_inv s" and "room_for_ids P s" and "fleet_create_vm P s cfg = (s', r)"
  shows "fleet_inv s' \<and> added s r s'"
proof -
  obtain t q where t: "fleet_acquire P s = (t, q)" by (cases "fleet_acquire P s")
  note keep = fleet_acquire_keeps [OF assms(1,2) t]
  show ?thesis
  proof (cases q)
    case (Inl e)
    then show ?thesis using assms(3) t keep by (auto simp: fleet_create_vm_def added_def)
  next
    case (Inr iw)
    obtain i w where iw: "iw = (i, w)" by (cases iw)
    obtain fs w' r' where d: "dispatch_to_slot P (fl_fs t) w (RqCreateVm cfg) = (fs, w', r')" by (metis prod.exhaust)
    have sp: "spare t i w" using keep Inr iw by auto
    show ?thesis
      using assms(3) t keep Inr iw d sp fleet_inv_insert [OF _ sp dispatch_to_slot_like [OF d]]
        fleet_inv_insert [of "t\<lparr>fl_fs := fs\<rparr>" i w w', OF _ _ dispatch_to_slot_like [OF d]]
      by (auto simp: fleet_create_vm_def added_def spare_def Let_def split: sum.splits)
  qed
qed

lemma fleet_restore_into_keeps:
  assumes "fleet_inv s" and "spare s i w" and "fleet_restore_into P s i w dir = (s', r)"
  shows "fleet_inv s' \<and> added s r s'"
proof -
  obtain fs1 w1 r1 where d1: "dispatch_to_slot P (fl_fs s) w (RqSnapshotAdopt dir) = (fs1, w1, r1)" by (metis prod.exhaust)
  have l1: "slot_like w w1" by (rule dispatch_to_slot_like [OF d1])
  have ins: "fleet_inv (s\<lparr>fl_fs := fs, fl_workers := (fl_workers s)(i \<mapsto> w2\<lparr>wk_vm_id := Some v\<rparr>)\<rparr>)"
    if d2: "dispatch_to_slot P fs1 w1 (RqRestore k) = (fs2, w2, r2)" for k fs fs2 w2 r2 v
  proof -
    have "slot_like w w2" using l1 dispatch_to_slot_like [OF d2] by (auto simp: slot_like_def)
    from fleet_inv_insert [of "s\<lparr>fl_fs := fs\<rparr>" i w w2 v, OF _ _ this] assms(1,2) show ?thesis by simp
  qed
  show ?thesis
    using assms d1 ins
    by (auto simp: fleet_restore_into_def added_def Let_def spare_def split: sum.splits prod.splits)
qed

text \<open>A step keeps the invariant and the workers of the VMs in \<open>js\<close>.\<close>

definition keeps :: "'f process_fleet \<Rightarrow> vm_id set \<Rightarrow> 'f process_fleet \<Rightarrow> bool" where
  "keeps s js s' \<longleftrightarrow> fleet_inv s' \<and> (\<forall>j \<in> js. fl_workers s' j = fl_workers s j)"

lemma keeps_only: "fleet_inv s \<Longrightarrow> only s i s' \<Longrightarrow> i \<notin> js \<Longrightarrow> keeps s js s'"
  unfolding keeps_def using fleet_inv_only(1) [of s i s'] by (metis only_def)

lemma keeps_trans: "keeps s js s1 \<Longrightarrow> keeps s1 js s2 \<Longrightarrow> keeps s js s2"
  by (simp add: keeps_def)

lemma keeps_added: "fleet_inv s' \<Longrightarrow> added s r s' \<Longrightarrow> js \<subseteq> dom (fl_workers s) \<Longrightarrow> keeps s js s'"
  by (auto 0 4 simp: keeps_def added_def split: sum.splits if_splits)

lemma dispatch_remapped_dom: "snd (dispatch_remapped P s i build) = Inr resp \<Longrightarrow> i \<in> dom (fl_workers s)"
  by (cases "fl_workers s i") (auto simp: dispatch_remapped_def worker_for_def)

lemma fleet_snapshot_keeps:
  assumes "fleet_inv s" and "i \<notin> js"
  shows "keeps s js (fst (fleet_snapshot P s i))"
proof -
  obtain s1 r where d: "dispatch_remapped P s i RqSnapshot = (s1, r)" by (cases "dispatch_remapped P s i RqSnapshot")
  have o: "only s i s1" using dispatch_remapped_only [of s i P RqSnapshot] d by simp
  have k: "keeps s js s1" using keeps_only [OF assms(1) o assms(2)] .
  have "keeps s js (s1\<lparr>fl_snapshot_owner := (fl_snapshot_owner s1)(k \<mapsto> i)\<rparr>)" if "and_then r f = Inr k" for f k
  proof -
    have "i \<in> dom (fl_workers s1)"
      using that dispatch_remapped_dom [of P s i RqSnapshot] d fleet_inv_only(2) [OF assms(1) o] by (auto simp: and_then_eqs)
    then show ?thesis using k unfolding keeps_def fleet_inv_def by (auto simp: ran_def)
  qed
  then show ?thesis using d k by (auto simp: fleet_snapshot_def unwrap_def split: sum.split)
qed

lemma fleet_delete_keeps:
  assumes "fleet_inv s" and "set_option (fl_snapshot_owner s k) \<inter> js = {}"
  shows "keeps s js (fst (fleet_delete_snapshot P s k))"
proof (cases "fl_snapshot_owner s k")
  case None
  then show ?thesis using assms(1) by (simp add: fleet_delete_snapshot_def keeps_def)
next
  case (Some i)
  obtain s1 r where d: "fleet_dispatch P s i (RqDeleteSnapshot k) = (s1, r)" by (cases "fleet_dispatch P s i (RqDeleteSnapshot k)")
  have "only s i s1" using fleet_dispatch_only [of s i P "RqDeleteSnapshot k"] d by simp
  from keeps_only [OF assms(1) this] assms(2) Some have k: "keeps s js s1" by simp
  moreover have "keeps s js (s1\<lparr>fl_snapshot_owner := (fl_snapshot_owner s1)(k := None)\<rparr>)"
    using k unfolding keeps_def fleet_inv_def by (auto simp: ran_def split: if_splits)
  ultimately show ?thesis using d Some by (auto simp: fleet_delete_snapshot_def unwrap_def split: sum.split)
qed

lemma fleet_restore_keeps:
  assumes inv: "fleet_inv s" and room: "room_for_ids P s" and js: "set_option (fl_snapshot_owner s k) \<inter> js = {}" "js \<subseteq> dom (fl_workers s)"
  shows "keeps s js (fst (fleet_restore P s k))"
proof (cases "fl_snapshot_owner s k")
  case None
  then show ?thesis using inv by (simp add: fleet_restore_def keeps_def)
next
  case (Some i)
  let ?x = "\<lambda>r. case r of RsOptPath p \<Rightarrow> Some p | _ \<Rightarrow> None"
  obtain s1 r1 where d: "unwrap ?x (fleet_dispatch P s i (RqSnapshotExportDir k)) = (s1, r1)"
    by (cases "unwrap ?x (fleet_dispatch P s i (RqSnapshotExportDir k))")
  then have o: "only s i s1" using fleet_dispatch_only [of s i P "RqSnapshotExportDir k"] unwrap_eq [OF d] by simp
  have k1: "keeps s js s1" using keeps_only [OF inv o] js(1) Some by simp
  have inv1: "fleet_inv s1" using k1 by (simp add: keeps_def)
  have n1: "unat (fl_next_vm_id s1) + 1 < 2 ^ 64" using o room by (simp add: only_def room_for_ids_def)
  let ?s2 = "s1\<lparr>fl_next_vm_id := fl_next_vm_id s1 + 1\<rparr>" and ?i = "fl_next_vm_id s1"
  have inv2: "fleet_inv ?s2" using fleet_inv_next [OF inv1 n1] .
  then have k2: "keeps s js ?s2" using k1 by (simp add: keeps_def)
  have k3: "keeps s js (fst (fleet_restore_into P ?s2 ?i w dir))" if w: "spawn_worker P (fl_fs s1) ?i = Inr w" for w dir
  proof -
    have "spare ?s2 ?i w" using spawn_fresh [OF inv1 n1 _ w, of ?s2] by (simp add: next_vm_id_def)
    moreover obtain s3 r3 where r: "fleet_restore_into P ?s2 ?i w dir = (s3, r3)" by (cases "fleet_restore_into P ?s2 ?i w dir")
    ultimately have "fleet_inv s3 \<and> added ?s2 r3 s3" using fleet_restore_into_keeps [OF inv2] by blast
    moreover have "js \<subseteq> dom (fl_workers ?s2)" using js(2) fleet_inv_only(2) [OF inv o] by simp
    ultimately have "keeps ?s2 js s3" using keeps_added by blast
    then show ?thesis using keeps_trans [OF k2] r by simp
  qed
  show ?thesis
    using Some d k1 k2 k3
    by (auto simp: fleet_restore_def next_vm_id_def split: sum.splits option.splits)
qed

lemma fleet_destroy_keeps:
  assumes "fleet_inv s" and "i \<notin> js"
  shows "keeps s js (fst (fleet_destroy P s i))"
proof -
  have "keeps s js (s\<lparr>fl_fs := fs, fl_workers := (fl_workers s)(i := None),
      fl_snapshot_owner := (\<lambda>k. if fl_snapshot_owner s k = Some i then None else fl_snapshot_owner s k)\<rparr>)" for fs
    using assms unfolding keeps_def fleet_inv_def by (auto simp: ran_def split: if_splits)
  then show ?thesis
    using assms by (auto simp: fleet_destroy_def worker_for_def ok_or_def keeps_def split: option.split prod.split)
qed

lemma fleet_list_keeps:
  assumes "fleet_inv s" and "set is \<inter> js = {}"
  shows "keeps s js (fst (fleet_list_loop P s is))"
  using assms
proof (induction "is" arbitrary: s)
  case Nil
  then show ?case by (simp add: keeps_def)
next
  case (Cons i "is")
  obtain s1 r where s1: "fleet_state P s i = (s1, r)" by (cases "fleet_state P s i")
  then have "only s i s1" using dispatch_remapped_only [of s i P RqState] unwrap_eq by (metis fleet_state_def)
  from keeps_only [OF Cons.prems(1) this] have "keeps s js s1" using Cons.prems(2) by simp
  moreover from this have "keeps s1 js (fst (fleet_list_loop P s1 is))"
    using Cons.IH Cons.prems(2) by (simp add: keeps_def)
  ultimately have "keeps s js (fst (fleet_list_loop P s1 is))" by (rule keeps_trans)
  then show ?case using s1 by (simp add: case_prod_beta Let_def)
qed

lemmas vm_ops = fleet_start_def fleet_stop_def fleet_state_def fleet_vm_meta_def fleet_exec_in_guest_def
  fleet_write_file_def fleet_read_file_def

lemma fleet_exec_keeps:
  assumes inv: "fleet_inv s" and room: "room_for_ids P s" and js: "js \<subseteq> dom (fl_workers s)" "targets s op \<inter> js = {}"
  shows "keeps s js (fleet_exec P op s)"
proof -
  have vm: "keeps s js (fst (dispatch_remapped P s i build))" if "i \<notin> js" for i build
    using keeps_only [OF inv dispatch_remapped_only that] .
  show ?thesis
  proof (cases op)
    case (FlCreate cfg)
    obtain s' r where c: "fleet_create_vm P s cfg = (s', r)" by (cases "fleet_create_vm P s cfg")
    then show ?thesis using fleet_create_keeps [OF inv room c] keeps_added [OF _ _ js(1)] FlCreate by auto
  next
    case (FlRestore k)
    then show ?thesis using fleet_restore_keeps [OF inv room _ js(1)] js(2) by simp
  next
    case (FlListVms order)
    then have "set (filter (\<lambda>i. fl_workers s i \<noteq> None) order) \<inter> js = {}" using js(2) by auto
    from fleet_list_keeps [OF inv this, of P] FlListVms show ?thesis
      by (simp add: fleet_list_vms_def case_prod_beta)
  next
    case (FlSnapshotMeta k)
    show ?thesis
    proof (cases "fl_snapshot_owner s k")
      case (Some i)
      then show ?thesis
        using FlSnapshotMeta js(2) keeps_only [OF inv fleet_dispatch_only] by (simp add: fleet_snapshot_meta_def)
    qed (use FlSnapshotMeta inv in \<open>simp add: fleet_snapshot_meta_def keeps_def\<close>)
  next
    case (FlKilled i)
    have "only s i (fleet_exec P (FlKilled i) s)"
      by (cases "fl_workers s i") (simp_all add: only_def kill_worker_def slot_like_def)
    then show ?thesis using keeps_only [OF inv] FlKilled js(2) by simp
  qed (use js(2) in \<open>simp_all add: vm_ops vm fleet_snapshot_keeps [OF inv] fleet_delete_keeps [OF inv] fleet_destroy_keeps [OF inv]\<close>)
qed

text \<open>The states a fleet can be in, as long as the id counter does not wrap.\<close>

inductive fleet_reachable :: "('j, 'io, 'f, 'c) fleet_ctx \<Rightarrow> 'f process_fleet \<Rightarrow> bool" for P where
  fresh: "ProcessFleet_new P fs = (s, Ok ()) \<Longrightarrow> fc_warm_pool_size (fx_config P) < 2 ^ 64 - 1 \<Longrightarrow> fleet_reachable P s"
| step: "fleet_reachable P s \<Longrightarrow> room_for_ids P s \<Longrightarrow> fleet_reachable P (fleet_exec P op s)"

lemma fleet_reachable_inv:
  assumes "fleet_reachable P s"
  shows "fleet_inv s"
  using assms
proof (induction rule: fleet_reachable.induct)
  case (fresh fs s)
  let ?s = "\<lparr>fl_fs = fs, fl_workers = Map.empty, fl_snapshot_owner = Map.empty, fl_next_vm_id = 1, fl_warm_pool = []\<rparr>"
  have "fleet_inv ?s" by (simp add: fleet_inv_def)
  moreover have "unat (fl_next_vm_id ?s) + (fc_warm_pool_size (fx_config P) - length (fl_warm_pool ?s)) < 2 ^ 64"
    using fresh(2) by simp
  ultimately have "fleet_inv (fst (refill_warm_pool P ?s))"
    using refill_loop_keeps [of ?s P] by (simp add: refill_warm_pool_def)
  then show ?case using fresh(1) by (simp add: ProcessFleet_new_def)
next
  case (step s op)
  then show ?case using fleet_exec_keeps [of s P "{}" op] by (simp add: keeps_def)
qed


text \<open>
  C35: One VM per crash domain. Whatever an operation does, and whether it succeeds, it leaves the worker
  of every VM untouched that it does not name, itself or as the owner of the snapshot it names: the
  process with its hypervisor state, the stream and the id are the same afterwards. Killing a
  worker changes no other.
\<close>

theorem fleet_isolation:
  assumes "fleet_reachable P s" and "room_for_ids P s" and "fl_workers s j = Some w" and "j \<notin> targets s op"
  shows "fl_workers (fleet_exec P op s) j = Some w"
  using fleet_exec_keeps [OF fleet_reachable_inv [OF assms(1)] assms(2), of "{j}" op] assms(3,4) by (auto simp: keeps_def)

subsection \<open>What a call does\<close>

definition worker_up :: "worker \<Rightarrow> host_env \<Rightarrow> mock_hv \<Rightarrow> bool" where
  "worker_up w env hv \<longleftrightarrow> wk_stream w = Some [] \<and> wk_process w = \<lparr>wp_env = env, wp_hv = hv, wp_alive = True\<rparr>"

definition with_hv :: "worker \<Rightarrow> host_env \<Rightarrow> mock_hv \<Rightarrow> worker" where
  "with_hv w env hv = w\<lparr>wk_process := \<lparr>wp_env = env, wp_hv = hv, wp_alive = True\<rparr>\<rparr>"

text \<open>The request and its response fit in frames.\<close>

definition fits :: "('j, 'io, 'f, 'c) fleet_ctx \<Rightarrow> host_env \<Rightarrow> 'f \<Rightarrow> mock_hv \<Rightarrow> ipc_request \<Rightarrow> bool" where
  "fits P env fs hv req \<longleftrightarrow> rq_fits (fx_json P) 4194304 req \<and>
     rs_fits (fx_json P) 4194304 (snd (snd (child_dispatch (fx_worker P) env fs hv req)))"

lemma roundtrip_up:
  assumes J: "json_laws (fx_json P)" and f: "fits P env fs hv req" and "req \<noteq> RqShutdown"
    and d: "child_dispatch (fx_worker P) env fs hv req = (fs', hv', resp)"
  shows "roundtrip_on P fs \<lparr>wp_env = env, wp_hv = hv, wp_alive = True\<rparr> [] req =
    (fs', \<lparr>wp_env = env, wp_hv = hv', wp_alive = True\<rparr>, [], Ok resp)"
proof -
  let ?J = "fx_json P"
  have rq: "rq_fits ?J 4194304 req" and rs: "rs_fits ?J 4194304 resp" using f d by (simp_all add: fits_def)
  have "write_frame pipe_write pipe_flush (ij_rq_to ?J) [] req = (ipc_frame (rq_payload ?J req), Ok ())"
    using write_frame_pipe [of "ij_rq_to ?J" req "rq_payload ?J req" "[]"] rq by (simp add: rq_fits_iff)
  moreover have "serve_step ?J (fx_worker P) env (fs, hv, ipc_frame (rq_payload ?J req), []) =
      ((fs', hv', [], ipc_frame (rs_payload ?J resp)), GoOn)"
    using serve_step_request [OF J rq d, of "[]" "[]"] rs assms(3) by (simp add: rs_fits_iff)
  moreover have "read_frame (pipe_read True) (ij_rs_from ?J) (ipc_frame (rs_payload ?J resp)) = ([], Ok resp)"
    using read_frame_pipe [of "rs_payload ?J resp" True "ij_rs_from ?J" "[]"] rs J by (auto simp: rs_fits_iff json_laws_def map_err_def)
  ultimately show ?thesis by (simp add: roundtrip_on_def)
qed

lemma dispatch_to_slot_up:
  assumes "json_laws (fx_json P)" and "worker_up w env hv" and "fits P env fs hv req" and "req \<noteq> RqShutdown"
    and "child_dispatch (fx_worker P) env fs hv req = (fs', hv', resp)"
  shows "dispatch_to_slot P fs w req = (fs', with_hv w env hv', Ok resp)"
  using roundtrip_up [OF assms(1,3-5)] assms(2) by (simp add: dispatch_to_slot_def worker_up_def with_hv_def map_err_def)

text \<open>A VM error after its way through the wire.\<close>

definition wire_error :: "('j, 'io, 'f, 'c) worker_host \<Rightarrow> ('j, 'io) vm_error \<Rightarrow> ('j, 'io) fleet_error" where
  "wire_error W e =
     (case e of
        UnknownVm _ \<Rightarrow> FlUnknownVm 0
      | UnknownSnapshot _ \<Rightarrow> FlUnknownSnapshot 0
      | InvalidTransition _ _ _ \<Rightarrow> FlInvalidTransition 0 Created Running
      | Unsupported _ \<Rightarrow> FlBackend (MsgUnsupported (VmError_display (wh_backend_text W) e))
      | Backend _ \<Rightarrow> FlBackend (MsgText (VmError_display (wh_backend_text W) e)))"

lemma unwrap_respond:
  assumes "\<And>x. extract (ok x) = Some x" and "\<And>x. \<not> is_error (ok x)"
  shows "unwrap_response (respond W ok r) extract = map_err (wire_error W) r"
proof (cases r)
  case (Inl e)
  then show ?thesis by (cases e) (simp_all add: respond_def unwrap_response_def Response_from_def error_code_of_def wire_error_def map_err_def)
next
  case (Inr x)
  then show ?thesis using assms [of x] by (cases "ok x") (simp_all add: respond_def unwrap_response_def is_error_def ok_or_def map_err_def)
qed

lemma dispatch_remapped_up:
  assumes "json_laws (fx_json P)" and "fl_workers s i = Some w" and "worker_up w env hv" and "wk_vm_id w = Some v"
    and "fits P env (fl_fs s) hv (build v)" and "build v \<noteq> RqShutdown"
    and "child_dispatch (fx_worker P) env (fl_fs s) hv (build v) = (fs', hv', resp)"
  shows "dispatch_remapped P s i build = (s\<lparr>fl_fs := fs', fl_workers := (fl_workers s)(i \<mapsto> with_hv w env hv')\<rparr>, Ok resp)"
  using dispatch_to_slot_up [OF assms(1,3,5,6,7)] assms(2,4)
  by (simp add: dispatch_remapped_def worker_for_def call_slot_def)

lemma vm_op_up:
  assumes "json_laws (fx_json P)" and "fl_workers s i = Some w" and "worker_up w env hv" and "wk_vm_id w = Some v"
    and "fits P env (fl_fs s) hv (build v)" and "build v \<noteq> RqShutdown"
    and "child_dispatch (fx_worker P) env (fl_fs s) hv (build v) = (fs', hv', respond (fx_worker P) ok r)"
    and "\<And>x. extract (ok x) = Some x" and "\<And>x. \<not> is_error (ok x)"
  shows "unwrap extract (dispatch_remapped P s i build) =
    (s\<lparr>fl_fs := fs', fl_workers := (fl_workers s)(i \<mapsto> with_hv w env hv')\<rparr>, map_err (wire_error (fx_worker P)) r)"
  using dispatch_remapped_up [where build = build, OF assms(1-7)] unwrap_respond [of "extract" ok "fx_worker P" r, OF assms(8,9)]
  by (simp add: unwrap_def)

lemma fleet_snapshot_up:
  assumes "json_laws (fx_json P)" and "fl_workers s i = Some w" and "worker_up w env hv" and "wk_vm_id w = Some v"
    and "fits P env (fl_fs s) hv (RqSnapshot v)" and "snapshot hv v = (hv', r)"
  shows "fleet_snapshot P s i =
    (let t = s\<lparr>fl_fs := fl_fs s, fl_workers := (fl_workers s)(i \<mapsto> with_hv w env hv')\<rparr>
     in case r of Inl e \<Rightarrow> (t, Err (wire_error (fx_worker P) e))
        | Inr k \<Rightarrow> (t\<lparr>fl_snapshot_owner := (fl_snapshot_owner s)(k \<mapsto> i)\<rparr>, Ok k))"
proof -
  have "child_dispatch (fx_worker P) env (fl_fs s) hv (RqSnapshot v) = (fl_fs s, hv', respond (fx_worker P) RsSnapshot r)"
    using assms(6) by (simp add: child_dispatch_def)
  from vm_op_up [where build = RqSnapshot, OF assms(1-5) _ this, of as_snapshot] show ?thesis
    by (cases r) (simp_all add: fleet_snapshot_def as_snapshot_def is_error_def map_err_def Let_def)
qed


text \<open>A killed worker: every call on its VM fails, and the VM can still be destroyed.\<close>

lemma killed_worker_fails:
  assumes "\<not> wp_alive (wk_process w)"
  shows "\<exists>e. dispatch_to_slot P fs w req = (fs, w, Err e)"
  using assms by (cases w) (auto simp: dispatch_to_slot_def roundtrip_on_def map_err_def split: option.split prod.split sum.split)

text \<open>
  Snapshot ids are not unique in a fleet. Every worker numbers its snapshots from 1 and the fleet
  records them under these numbers: when two VMs have taken equally many, the next snapshots of
  both get the same id, the second takes over the entry, and from then on the id of the first VM's
  snapshot stands for the second VM's.
\<close>

theorem snapshot_ids_collide:
  fixes P :: "('j, 'io, 'f, 'c) fleet_ctx"
  assumes "json_laws (fx_json P)" and "i \<noteq> j"
    and "fl_workers s i = Some w1" and "worker_up w1 env1 hv1" and "wk_vm_id w1 = Some v1" and "mh_vms hv1 v1 \<noteq> None"
    and "fl_workers s j = Some w2" and "worker_up w2 env2 hv2" and "wk_vm_id w2 = Some v2" and "mh_vms hv2 v2 \<noteq> None"
    and "fits P env1 (fl_fs s) hv1 (RqSnapshot v1)" and "fits P env2 (fl_fs s) hv2 (RqSnapshot v2)"
    and "mh_next_snap hv1 = mh_next_snap hv2"
  shows "\<exists>s1 s2 k. fleet_snapshot P s i = (s1, Ok k) \<and> fleet_snapshot P s1 j = (s2, Ok k) \<and> fl_snapshot_owner s2 k = Some j"
proof -
  define k where "k = mh_next_snap hv1"
  obtain t1 t2 where t: "snapshot hv1 v1 = (t1, (Inr k :: (('j, 'io) vm_error, snapshot_id) result))"
    "snapshot hv2 v2 = (t2, (Inr k :: (('j, 'io) vm_error, snapshot_id) result))"
    using assms(6,10,13) by (auto simp: snapshot_def SnapshotId_next_def k_def)
  let ?s1 = "s\<lparr>fl_fs := fl_fs s, fl_workers := (fl_workers s)(i \<mapsto> with_hv w1 env1 t1), fl_snapshot_owner := (fl_snapshot_owner s)(k \<mapsto> i)\<rparr>"
  have "fleet_snapshot P s i = (?s1, Ok k)"
    using fleet_snapshot_up [OF assms(1,3-5,11) t(1)] by (simp add: Let_def)
  moreover have "fl_workers ?s1 j = Some w2" "fits P env2 (fl_fs ?s1) hv2 (RqSnapshot v2)" using assms(2,7,12) by simp_all
  from fleet_snapshot_up [OF assms(1) this(1) assms(8,9) this(2) t(2)]
  obtain s2 where "fleet_snapshot P ?s1 j = (s2, Ok k)" "fl_snapshot_owner s2 k = Some j" by (simp add: Let_def)
  ultimately show ?thesis by blast
qed

text \<open>
  A request above the reader's limit ends the worker: the call fails, and so does every later one.
\<close>

lemma oversized_request_kills:
  assumes "wk_stream w = Some buf" and "wp_alive (wk_process w)"
    and "ij_rq_to (fx_json P) req = Ok p" and "4194304 < length p" and "length p < 2 ^ 32"
  shows "\<not> wp_alive (wk_process (fst (snd (dispatch_to_slot P fs w req))))"
proof -
  have "write_frame pipe_write pipe_flush (ij_rq_to (fx_json P)) [] req = (ipc_frame p, Ok ())"
    using write_frame_pipe [where to_vec = "ij_rq_to (fx_json P)", OF assms(3,5), of "[]"] by simp
  moreover have "serve_step (fx_json P) (fx_worker P) env (fs, hv, ipc_frame p, []) =
      ((fs, hv, p, []), Leave (Err (FrameTooLarge (length p) 4194304)))" for env hv
    using read_frame_pipe [OF assms(5), of False "ij_rq_from (fx_json P)" "[]"] assms(4) by (simp add: serve_step_def)
  ultimately show ?thesis
    using assms(1,2) by (simp add: dispatch_to_slot_def roundtrip_on_def split: prod.split)
qed

subsection \<open>Instances\<close>

text \<open>A fleet without a warm pool on a host where every worker starts, with a JSON library for the messages used.\<close>

definition sample_fleet_json :: "unit ipc_json" where
  "sample_fleet_json = \<lparr>
     ij_rq_to = (\<lambda>r. if r = RqPing then Ok [1] else if r = RqCreateVm VmConfig_default then Ok [2] else if r = RqSnapshot 1 then Ok [3]
       else if r = RqStart 1 then Ok [4] else Err ()),
     ij_rq_from = (\<lambda>p. if p = [1] then Ok RqPing else if p = [2] then Ok (RqCreateVm VmConfig_default) else if p = [3] then Ok (RqSnapshot 1)
       else if p = [4] then Ok (RqStart 1) else Err ()),
     ij_rs_to = (\<lambda>r. if r = RsPong then Ok [1] else if r = RsVmHandle \<lparr>vm_h_id = 1, vm_h_state = Created\<rparr> then Ok [2] else if r = RsSnapshot 1 then Ok [3]
       else if r = RsEmpty then Ok [4] else Err ()),
     ij_rs_from = (\<lambda>p. if p = [1] then Ok RsPong else if p = [2] then Ok (RsVmHandle \<lparr>vm_h_id = 1, vm_h_state = Created\<rparr>) else if p = [3] then Ok (RsSnapshot 1)
       else if p = [4] then Ok RsEmpty else Err ())\<rparr>"

definition sample_fleet :: "(unit, unit, path \<rightharpoonup> bytes, unit) fleet_ctx" where
  "sample_fleet = \<lparr>fx_config = FleetConfig_default, fx_json = sample_fleet_json, fx_worker = sample_worker_host,
     fx_host = \<lparr>fh_create_dir_all = (\<lambda>_. Ok ()), fh_spawn = (\<lambda>_ _ _. Ok sample_env), fh_is_text_busy = (\<lambda>_. False), fh_connects = (\<lambda>_. True)\<rparr>\<rparr>"

definition hv_one :: mock_hv where
  "hv_one = fst (create_vm mem_fs (\<lambda>_. Err () :: (unit, manifest) result) sample_env Map.empty MockHypervisor_new VmConfig_default)"

definition worker_one :: worker where
  "worker_one = \<lparr>wk_process = \<lparr>wp_env = sample_env, wp_hv = hv_one, wp_alive = True\<rparr>, wk_stream = Some [], wk_vm_id = Some 1\<rparr>"

definition two_vms :: "(path \<rightharpoonup> bytes) process_fleet" where
  "two_vms = fleet_exec sample_fleet (FlCreate VmConfig_default) (fleet_exec sample_fleet (FlCreate VmConfig_default)
     (fst (ProcessFleet_new sample_fleet Map.empty)))"

lemma sample_fleet_sel [simp]:
  "fx_json sample_fleet = sample_fleet_json" "fx_worker sample_fleet = sample_worker_host" "fc_warm_pool_size (fx_config sample_fleet) = 0"
  by (simp_all add: sample_fleet_def FleetConfig_default_def)

lemma sample_fleet_laws: "json_laws sample_fleet_json"
  by (auto simp: json_laws_def sample_fleet_json_def split: if_splits)

lemma hv_one_eq: "hv_one = \<lparr>mh_vms = [1 \<mapsto> \<lparr>mv_config = VmConfig_default, mv_state = Created, mv_guest_root = guest_root_dir sample_env 1\<rparr>],
    mh_snapshots = Map.empty, mh_next_vm = 2, mh_next_snap = 1\<rparr>"
  by (simp add: hv_one_def create_vm_def VmConfig_default_def MockHypervisor_new_def VmId_next_def)

lemma sample_fits:
  "fits sample_fleet env fs MockHypervisor_new RqPing" "fits sample_fleet sample_env fs MockHypervisor_new (RqCreateVm VmConfig_default)"
  "fits sample_fleet env fs hv_one (RqSnapshot 1)" "fits sample_fleet env fs hv_one (RqStart 1)"
  by (simp_all add: fits_def rq_fits_iff rs_fits_iff rq_payload_def rs_payload_def sample_fleet_json_def child_dispatch_def respond_def
      create_vm_def VmConfig_default_def MockHypervisor_new_def VmId_next_def snapshot_def SnapshotId_next_def start_def hv_one_eq)

lemma sample_spawn:
  "spawn_worker sample_fleet fs i = Inr \<lparr>wk_process = \<lparr>wp_env = sample_env, wp_hv = MockHypervisor_new, wp_alive = True\<rparr>, wk_stream = Some [], wk_vm_id = None\<rparr>"
proof -
  have "child_dispatch (fx_worker sample_fleet) sample_env fs MockHypervisor_new RqPing = (fs, MockHypervisor_new, RsPong)"
    by (simp add: child_dispatch_def)
  from roundtrip_up [OF _ sample_fits(1) _ this] sample_fleet_laws
  have "roundtrip_on sample_fleet fs \<lparr>wp_env = sample_env, wp_hv = MockHypervisor_new, wp_alive = True\<rparr> [] RqPing =
      (fs, \<lparr>wp_env = sample_env, wp_hv = MockHypervisor_new, wp_alive = True\<rparr>, [], Ok RsPong)" by simp
  then show ?thesis
    by (simp add: spawn_worker_def wait_for_socket_and_open_def map_err_def spawn_jailer.simps) (simp add: sample_fleet_def spawn_jailer.simps)
qed

lemma sample_create:
  assumes "fl_warm_pool s = []" and "fl_fs s = Map.empty"
  shows "fleet_create_vm sample_fleet s VmConfig_default =
    (s\<lparr>fl_next_vm_id := fl_next_vm_id s + 1, fl_workers := (fl_workers s)(fl_next_vm_id s \<mapsto> worker_one)\<rparr>,
     Ok \<lparr>vm_h_id = fl_next_vm_id s, vm_h_state = Created\<rparr>)"
proof -
  let ?w = "\<lparr>wk_process = \<lparr>wp_env = sample_env, wp_hv = MockHypervisor_new, wp_alive = True\<rparr>, wk_stream = Some [], wk_vm_id = None\<rparr>"
  have "worker_up ?w sample_env MockHypervisor_new" by (simp add: worker_up_def)
  moreover have "child_dispatch (fx_worker sample_fleet) sample_env Map.empty MockHypervisor_new (RqCreateVm VmConfig_default) =
      (Map.empty, hv_one, RsVmHandle \<lparr>vm_h_id = 1, vm_h_state = Created\<rparr>)"
    by (simp add: child_dispatch_def respond_def sample_worker_host_def hv_one_def create_vm_def VmConfig_default_def MockHypervisor_new_def VmId_next_def)
  ultimately have "dispatch_to_slot sample_fleet Map.empty ?w (RqCreateVm VmConfig_default) =
      (Map.empty, with_hv ?w sample_env hv_one, Ok (RsVmHandle \<lparr>vm_h_id = 1, vm_h_state = Created\<rparr>))"
    using dispatch_to_slot_up [OF _ _ sample_fits(2)] sample_fleet_laws by simp
  then show ?thesis
    using assms
    by (cases s) (simp add: fleet_create_vm_def fleet_acquire_def fleet_take_warm_def next_vm_id_def sample_spawn unwrap_response_def
        as_handle_def worker_one_def with_hv_def)
qed

lemma two_vms_eq:
  "two_vms = \<lparr>fl_fs = Map.empty, fl_workers = [1 \<mapsto> worker_one, 2 \<mapsto> worker_one], fl_snapshot_owner = Map.empty, fl_next_vm_id = 3, fl_warm_pool = []\<rparr>"
  by (simp add: two_vms_def ProcessFleet_new_def refill_warm_pool_def sample_create)

lemma two_vms_reachable: "fleet_reachable sample_fleet two_vms"
proof -
  let ?s = "\<lparr>fl_fs = Map.empty, fl_workers = Map.empty, fl_snapshot_owner = Map.empty, fl_next_vm_id = 1, fl_warm_pool = []\<rparr>"
  have new: "ProcessFleet_new sample_fleet Map.empty = (?s, Ok ())"
    by (simp add: ProcessFleet_new_def refill_warm_pool_def)
  have r0: "fleet_reachable sample_fleet ?s" by (rule fleet_reachable.fresh [OF new]) simp
  have "room_for_ids sample_fleet ?s" by (simp add: room_for_ids_def)
  note r1 = fleet_reachable.step [OF r0 this, of "FlCreate VmConfig_default"]
  have "room_for_ids sample_fleet (fleet_exec sample_fleet (FlCreate VmConfig_default) ?s)"
    by (simp add: sample_create room_for_ids_def)
  from fleet_reachable.step [OF r1 this, of "FlCreate VmConfig_default"] new show ?thesis by (simp add: two_vms_def)
qed

lemma worker_one_up: "worker_up worker_one sample_env hv_one" "wk_vm_id worker_one = Some 1"
  by (simp_all add: worker_up_def worker_one_def)


theorem fleet_isolation_witness: "fl_workers (fleet_exec sample_fleet (FlKilled 1) two_vms) 2 = Some worker_one"
  by (rule fleet_isolation [OF two_vms_reachable]) (simp_all add: room_for_ids_def two_vms_eq)


theorem snapshot_ids_collide_witness:
  "\<exists>s1 s2 k. fleet_snapshot sample_fleet two_vms 1 = (s1, Ok k) \<and> fleet_snapshot sample_fleet s1 2 = (s2, Ok k) \<and> fl_snapshot_owner s2 k = Some 2"
  by (rule snapshot_ids_collide [OF _ _ _ worker_one_up _ _ worker_one_up _ sample_fits(3) sample_fits(3)])
    (simp_all add: sample_fleet_laws two_vms_eq hv_one_eq)

end
