(* ===== verification/Billing.thy ===== *)
theory Billing
  imports Control_Plane Civil_Time "HOL-Library.Multiset"
begin

text \<open>
  Billing of the control plane (\<^verbatim>\<open>crates/control-plane/src/billing.rs\<close> and \<^verbatim>\<open>billing/usage_reporter.rs\<close>, the
  \<^verbatim>\<open>billing\<close> build): plan tiers, the in-memory store, the grace period of unpaid subscriptions, the
  signed webhook through which subscriptions change, and the reporter of metered usage. HMAC-SHA256,
  the JSON parser and the Stripe client are parameters; a JSON value is the tree the code walks.
  The clock is seconds and milliseconds since the epoch.
\<close>

subsection \<open>Plan tiers\<close>

record plan_tier =
  pl_name :: string
  pl_rps :: u32

type_synonym plan_tiers = "string \<rightharpoonup> plan_tier"

definition parse_u32 :: "string \<Rightarrow> u32 option" where
  "parse_u32 s = (case parse_u64 s of None \<Rightarrow> None | Some n \<Rightarrow> if unat n < 2 ^ 32 then Some (ucast n) else None)"

definition parse_tier :: "string \<Rightarrow> (string \<times> plan_tier) option" where
  "parse_tier entry =
     (let entry = trim entry in
      if entry = [] then None
      else Option.bind (split_once (\<lambda>c. c = CHR ''='') entry) (\<lambda>(price_id, tail).
           Option.bind (split_once (\<lambda>c. c = CHR '':'') tail) (\<lambda>(name, rps).
           Option.bind (parse_u32 (trim rps)) (\<lambda>rps.
             let price_id = trim price_id; name = trim name in
             if price_id = [] \<or> name = [] then None else Some (price_id, \<lparr>pl_name = name, pl_rps = rps\<rparr>)))))"

definition PlanTiers_parse :: "string \<Rightarrow> plan_tiers" where
  "PlanTiers_parse raw =
     fold (\<lambda>entry m. case parse_tier entry of None \<Rightarrow> m | Some (price_id, tier) \<Rightarrow> m(price_id \<mapsto> tier))
       (split_at_char CHR '','' raw) Map.empty"

subsection \<open>The store\<close>

record subscription_state =
  ss_subscription_id :: string
  ss_status :: string
  ss_price_id :: "string option"
  ss_subscription_item_id :: "string option"
  ss_updated_at :: string

record pending_signup =
  pg_token_hash :: string
  pg_email :: string
  pg_org_name :: string
  pg_created_at :: string
  pg_expires_at :: string

record billing_store =
  bs_map :: "org_id \<rightharpoonup> string"
  bs_subs :: "string \<rightharpoonup> subscription_state"
  bs_pending :: "string \<rightharpoonup> pending_signup"

datatype billing_store_error = NoCustomerRecorded string

definition InMemoryBillingStore_default :: billing_store where
  "InMemoryBillingStore_default = \<lparr>bs_map = Map.empty, bs_subs = Map.empty, bs_pending = Map.empty\<rparr>"

definition record_customer :: "billing_store \<Rightarrow> org_id \<Rightarrow> string \<Rightarrow> billing_store" where
  "record_customer st org customer_id = st\<lparr>bs_map := (bs_map st)(org \<mapsto> customer_id)\<rparr>"

definition get_customer :: "billing_store \<Rightarrow> org_id \<Rightarrow> string option" where
  "get_customer st org = bs_map st org"

text \<open>The map is searched through its keys, in the order \<open>order\<close> the hash map has them.\<close>

definition org_by_customer :: "org_id list \<Rightarrow> billing_store \<Rightarrow> string \<Rightarrow> org_id option" where
  "org_by_customer order st customer_id = List.find (\<lambda>org. bs_map st org = Some customer_id) order"

definition record_subscription ::
    "org_id list \<Rightarrow> billing_store \<Rightarrow> string \<Rightarrow> subscription_state \<Rightarrow> billing_store \<times> (billing_store_error, unit) result" where
  "record_subscription order st customer_id sub =
     (if \<not> list_ex (\<lambda>org. bs_map st org = Some customer_id) order then (st, Err (NoCustomerRecorded customer_id))
      else (st\<lparr>bs_subs := (bs_subs st)(customer_id \<mapsto> sub)\<rparr>, Ok ()))"

definition get_subscription :: "billing_store \<Rightarrow> string \<Rightarrow> subscription_state option" where
  "get_subscription st customer_id = bs_subs st customer_id"

definition record_pending_signup :: "billing_store \<Rightarrow> pending_signup \<Rightarrow> billing_store" where
  "record_pending_signup st signup =
     st\<lparr>bs_pending := (\<lambda>h. case bs_pending st h of
           None \<Rightarrow> None
         | Some p \<Rightarrow> if pg_email p \<noteq> pg_email signup then Some p else None)(pg_token_hash signup \<mapsto> signup)\<rparr>"

definition take_pending_signup :: "billing_store \<Rightarrow> string \<Rightarrow> string \<Rightarrow> billing_store \<times> pending_signup option" where
  "take_pending_signup st token_hash now =
     (case bs_pending st token_hash of
        None \<Rightarrow> (st, None)
      | Some entry \<Rightarrow>
          (st\<lparr>bs_pending := (bs_pending st)(token_hash := None)\<rparr>,
           if pg_expires_at entry < now then None else Some entry))"

definition peek_pending_signup :: "billing_store \<Rightarrow> string \<Rightarrow> string \<Rightarrow> pending_signup option" where
  "peek_pending_signup st token_hash now =
     Option.bind (bs_pending st token_hash) (\<lambda>entry. if pg_expires_at entry < now then None else Some entry)"

definition delete_pending_signup :: "billing_store \<Rightarrow> string \<Rightarrow> billing_store" where
  "delete_pending_signup st token_hash = st\<lparr>bs_pending := (bs_pending st)(token_hash := None)\<rparr>"

definition gc_expired_signups :: "string list \<Rightarrow> billing_store \<Rightarrow> string \<Rightarrow> billing_store \<times> nat" where
  "gc_expired_signups order st now =
     (let keep = (\<lambda>h. case bs_pending st h of None \<Rightarrow> None | Some p \<Rightarrow> if pg_expires_at p \<ge> now then Some p else None)
      in (st\<lparr>bs_pending := keep\<rparr>,
          length (filter (\<lambda>h. bs_pending st h \<noteq> None) order) - length (filter (\<lambda>h. keep h \<noteq> None) order)))"

subsection \<open>Plans and the grace period\<close>

record plan_response =
  pr_plan :: "plan_tier option"
  pr_subscription_status :: "string option"
  pr_price_id :: "string option"

definition resolve_plan :: "plan_tiers \<Rightarrow> billing_store \<Rightarrow> org_id \<Rightarrow> plan_response" where
  "resolve_plan tiers st org =
     (case get_customer st org of
        None \<Rightarrow> \<lparr>pr_plan = None, pr_subscription_status = None, pr_price_id = None\<rparr>
      | Some customer_id \<Rightarrow>
          (case get_subscription st customer_id of
             None \<Rightarrow> \<lparr>pr_plan = None, pr_subscription_status = None, pr_price_id = None\<rparr>
           | Some sub \<Rightarrow>
               \<lparr>pr_plan = Option.bind (ss_price_id sub) tiers, pr_subscription_status = Some (ss_status sub),
                pr_price_id = ss_price_id sub\<rparr>))"

definition DELINQUENT_STATUSES :: "string list" where
  "DELINQUENT_STATUSES = [''past_due'', ''unpaid'', ''canceled'']"

definition DEFAULT_DUNNING_GRACE_HOURS :: u64 where "DEFAULT_DUNNING_GRACE_HOURS = 72"

definition parse_dunning_grace_hours :: "string option \<Rightarrow> u64" where
  "parse_dunning_grace_hours raw =
     (case raw of
        Some v \<Rightarrow> (case parse_u64 (trim v) of Some n \<Rightarrow> n | None \<Rightarrow> DEFAULT_DUNNING_GRACE_HOURS)
      | None \<Rightarrow> DEFAULT_DUNNING_GRACE_HOURS)"

record dunning_verdict =
  dv_status :: string
  dv_updated_at :: string
  dv_grace_hours :: u64

definition grace_secs :: "u64 \<Rightarrow> int" where
  "grace_secs grace_hours =
     min (2 ^ 63 - 1) ((if uint grace_hours < 2 ^ 63 then uint grace_hours else 2 ^ 63 - 1) * 3600)"

definition check_dunning :: "u64 \<Rightarrow> nat \<Rightarrow> billing_store \<Rightarrow> org_id \<Rightarrow> u64 \<Rightarrow> (dunning_verdict, unit) result" where
  "check_dunning now_secs now_millis st org grace_hours =
     (case get_customer st org of
        None \<Rightarrow> Ok ()
      | Some customer_id \<Rightarrow>
          (case get_subscription st customer_id of
             None \<Rightarrow> Ok ()
           | Some sub \<Rightarrow>
               if ss_status sub \<notin> set DELINQUENT_STATUSES then Ok ()
               else
                 let grace_boundary = rfc3339_offset now_secs now_millis (- grace_secs grace_hours)
                 in if ss_updated_at sub \<ge> grace_boundary then Ok ()
                    else Err \<lparr>dv_status = ss_status sub, dv_updated_at = ss_updated_at sub, dv_grace_hours = grace_hours\<rparr>))"

text \<open>The two checks the fork route makes when billing is configured, over the metrics it updates.\<close>

definition check_dunning_or_402 ::
    "u64 \<Rightarrow> nat \<Rightarrow> string option \<Rightarrow> billing_store option \<Rightarrow> org_id \<Rightarrow> metrics \<Rightarrow> metrics \<times> (dunning_verdict, unit) result" where
  "check_dunning_or_402 now_secs now_millis grace_env ctx org mt =
     (case ctx of
        None \<Rightarrow> (mt, Ok ())
      | Some st \<Rightarrow>
          (case check_dunning now_secs now_millis st org (parse_dunning_grace_hours grace_env) of
             Inl v \<Rightarrow> (record_dunning_block mt org (dv_status v), Err v)
           | Inr _ \<Rightarrow> (mt, Ok ())))"

definition resolve_tier_limits :: "(plan_tiers \<times> billing_store) option \<Rightarrow> org_id \<Rightarrow> real option \<times> u32 option" where
  "resolve_tier_limits ctx org =
     (case ctx of
        None \<Rightarrow> (None, None)
      | Some (tiers, st) \<Rightarrow>
          (case pr_plan (resolve_plan tiers st org) of
             None \<Rightarrow> (None, None)
           | Some tier \<Rightarrow> (Some (real (unat (pl_rps tier))), Some (max (pl_rps tier) 1))))"

subsection \<open>Webhook signatures\<close>

datatype webhook_error = MalformedHeader | StaleTimestamp int int int | SignatureMismatch

definition parse_i64 :: "string \<Rightarrow> int option" where
  "parse_i64 s =
     (let neg = (case s of c # cs \<Rightarrow> c = CHR ''-'' | [] \<Rightarrow> False);
          ds = (case s of c # cs \<Rightarrow> if c = CHR ''-'' \<or> c = CHR ''+'' then cs else s | [] \<Rightarrow> []);
          n = foldl (\<lambda>a c. 10 * a + (of_char c - 48)) 0 ds :: nat;
          v = (if neg then - int n else int n)
      in if ds \<noteq> [] \<and> list_all (\<lambda>c. 48 \<le> (of_char c :: nat) \<and> (of_char c :: nat) < 58) ds \<and> - (2 ^ 63) \<le> v \<and> v < 2 ^ 63
         then Some v else None)"

definition dec_int :: "int \<Rightarrow> string" where
  "dec_int i = (if i < 0 then CHR ''-'' # dec (nat (- i)) else dec (nat i))"

fun signature_parts :: "string list \<Rightarrow> int option \<Rightarrow> string list \<Rightarrow> (webhook_error, int option \<times> string list) result" where
  "signature_parts [] timestamp v1s = Ok (timestamp, v1s)"
| "signature_parts (part # rest) timestamp v1s =
     (case split_once (\<lambda>c. c = CHR ''='') part of
        None \<Rightarrow> Err MalformedHeader
      | Some (k, v) \<Rightarrow>
          if trim k = ''t'' then
            (case parse_i64 (trim v) of
               None \<Rightarrow> Err MalformedHeader
             | Some ts \<Rightarrow> signature_parts rest (Some ts) v1s)
          else if trim k = ''v1'' then signature_parts rest timestamp (v1s @ [trim v])
          else signature_parts rest timestamp v1s)"

definition parse_stripe_signature :: "string \<Rightarrow> (webhook_error, int \<times> string list) result" where
  "parse_stripe_signature header =
     and_then (signature_parts (split_at_char CHR '','' header) None []) (\<lambda>(timestamp, v1s).
     and_then (ok_or MalformedHeader timestamp) (\<lambda>ts.
       if v1s = [] then Err MalformedHeader else Ok (ts, v1s)))"

definition constant_time_eq_bytes :: "bytes \<Rightarrow> bytes \<Rightarrow> bool" where
  "constant_time_eq_bytes a b =
     (if length a \<noteq> length b then False
      else fold (\<lambda>(x, y) diff. diff OR (x XOR y)) (zip a b) 0 = 0)"

definition constant_time_eq_hex :: "string \<Rightarrow> string \<Rightarrow> bool" where
  "constant_time_eq_hex a b = constant_time_eq_bytes (into_bytes a) (into_bytes b)"

definition hex_encode :: "bytes \<Rightarrow> string" where
  "hex_encode bs = concat (map (\<lambda>b. hex_pad 2 (unat b)) bs)"

definition verify_webhook_signature ::
    "(bytes \<Rightarrow> bytes \<Rightarrow> bytes) \<Rightarrow> string \<Rightarrow> bytes \<Rightarrow> string \<Rightarrow> int \<Rightarrow> int \<Rightarrow> (webhook_error, unit) result" where
  "verify_webhook_signature hmac header payload secret now tolerance_secs =
     and_then (parse_stripe_signature header) (\<lambda>(ts, v1s).
       let skew = \<bar>now - ts\<bar>; tolerance = max tolerance_secs 0 in
       if skew > tolerance then Err (StaleTimestamp ts now tolerance_secs)
       else
         let computed = hex_encode (hmac (into_bytes secret) (into_bytes (dec_int ts) @ into_bytes ''.'' @ payload))
         in if list_ex (\<lambda>v1. constant_time_eq_hex computed v1) v1s then Ok () else Err SignatureMismatch)"

subsection \<open>Events\<close>

datatype json = JNull | JBool bool | JInt int | JFloat real | JStr string | JArr "json list" | JObj "(string \<times> json) list"

definition json_get :: "string \<Rightarrow> json \<Rightarrow> json option" where
  "json_get k v = (case v of JObj kvs \<Rightarrow> map_of kvs k | _ \<Rightarrow> None)"

definition as_str :: "json \<Rightarrow> string option" where
  "as_str v = (case v of JStr s \<Rightarrow> Some s | _ \<Rightarrow> None)"

definition as_i64 :: "json \<Rightarrow> int option" where
  "as_i64 v = (case v of JInt i \<Rightarrow> if - (2 ^ 63) \<le> i \<and> i < 2 ^ 63 then Some i else None | _ \<Rightarrow> None)"

definition first_of :: "json \<Rightarrow> json option" where
  "first_of v = (case v of JArr (x # xs) \<Rightarrow> Some x | _ \<Rightarrow> None)"

record stripe_event =
  se_id :: string
  se_event_type :: string
  se_data :: "json option"

definition parse_subscription_object :: "string \<Rightarrow> stripe_event \<Rightarrow> (string, string \<times> subscription_state) result" where
  "parse_subscription_object now event =
     and_then (ok_or ''event has no data'' (se_data event)) (\<lambda>data.
     and_then (ok_or ''data.object missing'' (json_get ''object'' data)) (\<lambda>ob.
     and_then (ok_or ''data.object.id missing'' (Option.bind (json_get ''id'' ob) as_str)) (\<lambda>subscription_id.
     and_then (ok_or ''data.object.customer missing'' (Option.bind (json_get ''customer'' ob) as_str)) (\<lambda>customer_id.
     and_then (ok_or ''data.object.status missing'' (Option.bind (json_get ''status'' ob) as_str)) (\<lambda>status.
       let primary_item = Option.bind (Option.bind (json_get ''items'' ob) (json_get ''data'')) first_of;
           price_id = Option.bind (Option.bind (Option.bind primary_item (json_get ''price'')) (json_get ''id'')) as_str;
           item_id = Option.bind (Option.bind primary_item (json_get ''id'')) as_str
       in Ok (customer_id, \<lparr>ss_subscription_id = subscription_id, ss_status = status, ss_price_id = price_id,
              ss_subscription_item_id = item_id, ss_updated_at = now\<rparr>))))))"

record invoice_object =
  iv_invoice_id :: string
  iv_customer_id :: string
  iv_amount_paid :: int
  iv_amount_due :: int
  iv_hosted_invoice_url :: "string option"

definition unwrap_or :: "'a option \<Rightarrow> 'a \<Rightarrow> 'a" where
  "unwrap_or v d = (case v of None \<Rightarrow> d | Some x \<Rightarrow> x)"

definition parse_invoice_object :: "stripe_event \<Rightarrow> (string, invoice_object) result" where
  "parse_invoice_object event =
     and_then (ok_or ''event has no data'' (se_data event)) (\<lambda>data.
     and_then (ok_or ''data.object missing'' (json_get ''object'' data)) (\<lambda>ob.
     and_then (ok_or ''data.object.customer missing'' (Option.bind (json_get ''customer'' ob) as_str)) (\<lambda>customer_id.
       Ok \<lparr>iv_invoice_id = unwrap_or (Option.bind (json_get ''id'' ob) as_str) ''<none>'', iv_customer_id = customer_id,
           iv_amount_paid = unwrap_or (Option.bind (json_get ''amount_paid'' ob) as_i64) 0,
           iv_amount_due = unwrap_or (Option.bind (json_get ''amount_due'' ob) as_i64) 0,
           iv_hosted_invoice_url = Option.bind (json_get ''hosted_invoice_url'' ob) as_str\<rparr>)))"

text \<open>Events of invoices are only logged, so they leave the store as it is.\<close>

definition route_webhook_event :: "org_id list \<Rightarrow> string \<Rightarrow> billing_store \<Rightarrow> stripe_event \<Rightarrow> billing_store" where
  "route_webhook_event order now st event =
     (if se_event_type event \<in>
           {''customer.subscription.created'', ''customer.subscription.updated'', ''customer.subscription.deleted''}
      then (case parse_subscription_object now event of
              Inl _ \<Rightarrow> st
            | Inr (customer_id, sub) \<Rightarrow> fst (record_subscription order st customer_id sub))
      else st)"

subsection \<open>The webhook endpoint\<close>

datatype billing_api_error =
    ApiUnsupported string
  | ApiBadJson
  | ApiBad string
  | ApiForbidden string
  | ApiUnauthorized
  | ApiNotFound string
  | ApiTooManyRequests string nat
  | ApiInternalDyn

definition webhook_to_api_error :: "webhook_error \<Rightarrow> billing_api_error" where
  "webhook_to_api_error e = ApiForbidden ''invalid_signature''"

record billing_config =
  bg_stripe_secret_key :: string
  bg_portal_return_url :: string
  bg_signup_token :: string
  bg_webhook_signing_secret :: "string option"
  bg_signup_verify_url :: string
  bg_signup_token_ttl_secs :: int

text \<open>What one webhook call takes from outside: the clock, the order of the customer map, HMAC and JSON.\<close>

record 'j webhook_env =
  we_now_secs :: u64
  we_now_millis :: nat
  we_order :: "org_id list"
  we_hmac :: "bytes \<Rightarrow> bytes \<Rightarrow> bytes"
  we_event_from :: "bytes \<Rightarrow> ('j, stripe_event) result"

definition webhook_event ::
    "'j webhook_env \<Rightarrow> billing_config option \<Rightarrow> string option \<Rightarrow> bytes \<Rightarrow> (billing_api_error, stripe_event) result" where
  "webhook_event E config header body =
     and_then (ok_or (ApiUnsupported ''billing_disabled'') config) (\<lambda>cfg.
     and_then (ok_or (ApiUnsupported ''webhook_disabled'') (bg_webhook_signing_secret cfg)) (\<lambda>secret.
     and_then (ok_or (ApiBad ''missing Stripe-Signature header'') header) (\<lambda>raw.
     and_then (ok_or (ApiBad ''Stripe-Signature is not valid UTF-8'') (header_to_str raw)) (\<lambda>text.
     and_then (map_err webhook_to_api_error
                (verify_webhook_signature (we_hmac E) text body secret (sint (we_now_secs E)) 300)) (\<lambda>_.
       map_err (\<lambda>_. ApiBad ''webhook body is not valid JSON'') (we_event_from E body))))))"

definition stripe_webhook_handler ::
    "'j webhook_env \<Rightarrow> billing_config option \<Rightarrow> string option \<Rightarrow> bytes \<Rightarrow> billing_store \<times> metrics \<Rightarrow>
     (billing_store \<times> metrics) \<times> (billing_api_error, unit) result" where
  "stripe_webhook_handler E config header body s =
     (case webhook_event E config header body of
        Inl e \<Rightarrow> (s, Err e)
      | Inr event \<Rightarrow>
          ((route_webhook_event (we_order E) (rfc3339_now (we_now_secs E) (we_now_millis E)) (fst s) event,
            record_stripe_event (snd s) (se_event_type event)), Ok ()))"

subsection \<open>The usage reporter\<close>

definition UsageReporterConfig_parse :: "string option \<Rightarrow> u64 option" where
  "UsageReporterConfig_parse raw =
     Option.bind raw (\<lambda>raw.
       if raw = [] \<or> raw = ''0'' then None
       else case parse_u64 raw of Some n \<Rightarrow> if n > 0 then Some n else None | None \<Rightarrow> None)"

text \<open>A snapshot is the list of the organisations with their counts, in the order of the hash map.\<close>

definition compute_deltas :: "(string \<rightharpoonup> u64) \<Rightarrow> (string \<times> u64) list \<Rightarrow> (string \<times> u64) list" where
  "compute_deltas prior now =
     sort_key fst (List.map_filter (\<lambda>(org, current).
       let previous = unwrap_or (prior org) 0
       in if current > previous then Some (org, current - previous) else None) now)"

record usage_report =
  up_item :: string
  up_quantity :: u64
  up_timestamp :: int
  up_key :: string

definition flush_one :: "billing_store \<Rightarrow> int \<Rightarrow> string \<times> u64 \<Rightarrow> usage_report option" where
  "flush_one st timestamp_secs = (\<lambda>(org, delta).
     Option.bind (get_customer st org) (\<lambda>customer_id.
     Option.bind (get_subscription st customer_id) (\<lambda>sub.
     Option.bind (ss_subscription_item_id sub) (\<lambda>item_id.
       Some \<lparr>up_item = item_id, up_quantity = delta, up_timestamp = timestamp_secs,
             up_key = item_id @ ''-'' @ dec_int timestamp_secs\<rparr>))))"

definition fork_counts :: "metrics \<Rightarrow> (string \<times> u64) list" where
  "fork_counts m = map (\<lambda>(org, count, _). (org, count)) (forks_by_org_snapshot m)"

text \<open>One tick: the new baseline and the reports that are sent, whether or not Stripe takes them.\<close>

definition reporter_tick ::
    "metrics \<Rightarrow> billing_store \<Rightarrow> int \<Rightarrow> (string \<rightharpoonup> u64) \<Rightarrow> (string \<rightharpoonup> u64) \<times> usage_report list" where
  "reporter_tick m st ts_secs prior_snapshot =
     (let now_snapshot = fork_counts m
      in (map_of now_snapshot, List.map_filter (flush_one st ts_secs) (compute_deltas prior_snapshot now_snapshot)))"

subsection \<open>Only signed events count\<close>

lemma or_xor_fold: "fold (\<lambda>(x, y) diff. diff OR (x XOR y)) ps d = 0 \<longleftrightarrow> d = (0 :: u8) \<and> (\<forall>(x, y) \<in> set ps. x = y)"
proof (induction ps arbitrary: d)
  case (Cons p ps)
  have "a OR (x XOR y) = 0 \<longleftrightarrow> a = 0 \<and> x = y" for a x y :: u8
    by (auto simp: bit_eq_iff bit_simps)
  then show ?case using Cons by (cases p) auto
qed simp

lemma constant_time_eq_bytes_iff: "constant_time_eq_bytes a b \<longleftrightarrow> a = b"
proof -
  have "length a = length b \<Longrightarrow> (\<forall>(x, y) \<in> set (zip a b). x = y) \<longleftrightarrow> a = b"
    by (induction a b rule: list_induct2) auto
  then show ?thesis by (auto simp: constant_time_eq_bytes_def or_xor_fold)
qed

lemma into_bytes_inject: "into_bytes a = into_bytes b \<longleftrightarrow> a = b"
proof -
  have "inj (\<lambda>c :: char. of_nat (of_char c) :: u8)"
  proof (rule injI)
    fix c d :: char
    assume "(of_nat (of_char c) :: u8) = of_nat (of_char d)"
    then have "unat (of_nat (of_char c) :: u8) = unat (of_nat (of_char d) :: u8)" by (rule arg_cong)
    moreover have "(of_char c :: nat) < 2 ^ 8" "(of_char d :: nat) < 2 ^ 8" using nat_of_char_less_256 [of c] nat_of_char_less_256 [of d] by simp_all
    ultimately have "(of_char c :: nat) = of_char d" by (simp add: unat_of_nat)
    then show "c = d" by simp
  qed
  then show ?thesis by (simp add: into_bytes_def inj_map_eq_map)
qed

lemma constant_time_eq_hex_iff: "constant_time_eq_hex a b \<longleftrightarrow> a = b"
  by (simp add: constant_time_eq_hex_def constant_time_eq_bytes_iff into_bytes_inject)

text \<open>What Stripe signs, and the header it sends.\<close>

definition webhook_signature :: "(bytes \<Rightarrow> bytes \<Rightarrow> bytes) \<Rightarrow> string \<Rightarrow> int \<Rightarrow> bytes \<Rightarrow> string" where
  "webhook_signature hmac secret ts payload =
     hex_encode (hmac (into_bytes secret) (into_bytes (dec_int ts @ ''.'') @ payload))"

definition stripe_header :: "int \<Rightarrow> string list \<Rightarrow> string" where
  "stripe_header ts sigs = ''t='' @ dec_int ts @ concat (map (\<lambda>sig. '',v1='' @ sig) sigs)"

lemma verify_iff:
  "verify_webhook_signature hmac header payload secret now tol = Ok () \<longleftrightarrow>
    (\<exists>ts v1s. parse_stripe_signature header = Ok (ts, v1s) \<and> \<bar>now - ts\<bar> \<le> max tol 0 \<and>
      webhook_signature hmac secret ts payload \<in> set v1s)"
proof (cases "parse_stripe_signature header")
  case (Inr p)
  have "into_bytes (dec_int ts @ ''.'') @ payload = into_bytes (dec_int ts) @ into_bytes ''.'' @ payload" for ts
    by (simp add: into_bytes_def)
  then show ?thesis
    using Inr by (cases p) (auto simp: verify_webhook_signature_def webhook_signature_def list_ex_iff constant_time_eq_hex_iff Let_def)
qed (simp add: verify_webhook_signature_def)

lemma split_at_char_none: "d \<notin> set a \<Longrightarrow> split_at_char d a = [a]"
  by (induction a) auto

lemma split_at_char_append: "d \<notin> set a \<Longrightarrow> split_at_char d (a @ d # b) = a # split_at_char d b"
  by (induction a) auto

lemma trim_id: "list_all (\<lambda>c. \<not> is_ws c) s \<Longrightarrow> trim s = s"
proof -
  have d: "list_all (\<lambda>c. \<not> is_ws c) s \<Longrightarrow> dropWhile is_ws s = s" for s by (cases s) simp_all
  assume "list_all (\<lambda>c. \<not> is_ws c) s"
  then show ?thesis by (simp add: trim_def d)
qed

text \<open>A header field of printable characters that neither separates nor ends a field.\<close>

definition field_ok :: "string \<Rightarrow> bool" where
  "field_ok s \<longleftrightarrow> list_all (\<lambda>c. \<not> is_ws c \<and> c \<noteq> CHR '','') s"

lemma dec_int_field: "field_ok (dec_int ts)"
proof -
  have "\<not> is_ws c \<and> c \<noteq> CHR '',''" if "48 \<le> (of_char c :: nat)" for c using that by (auto simp: is_ws_def)
  then have "field_ok (dec n)" for n using dec_digits by (auto simp: field_ok_def list_all_iff)
  then show ?thesis by (simp add: dec_int_def field_ok_def is_ws_def)
qed

lemma parse_i64_dec:
  assumes "- (2 ^ 63) \<le> ts" "ts < 2 ^ 63"
  shows "parse_i64 (dec_int ts) = Some ts"
proof -
  have nz: "dec n \<noteq> []" for n by (subst dec.simps) simp
  have "c \<noteq> CHR ''-'' \<and> c \<noteq> CHR ''+''" if "48 \<le> (of_char c :: nat)" for c using that by auto
  then have hd: "dec n = c # cs \<Longrightarrow> c \<noteq> CHR ''-'' \<and> c \<noteq> CHR ''+''" for n c cs
    using dec_digits [of c n] by (metis list.set_intros(1))
  have digits: "list_all (\<lambda>c. 48 \<le> (of_char c :: nat) \<and> (of_char c :: nat) < 58) (dec n)" for n 
    unfolding list_all_iff using dec_digits by blast
  show ?thesis
  proof (cases "ts < 0")
    case True
    then show ?thesis using assms nz digits by (simp add: parse_i64_def dec_int_def decimal_value Let_def)
  next
    case False
    obtain c cs where d: "dec (nat ts) = c # cs" using nz by (cases "dec (nat ts)") auto
    then show ?thesis using False assms hd [OF d] digits [of "nat ts"] decimal_value [of "nat ts"]
      by (simp add: parse_i64_def dec_int_def Let_def)
  qed
qed

lemma signature_parts_v1s:
  assumes "list_all field_ok sigs"
  shows "signature_parts (map (\<lambda>sig. ''v1='' @ sig) sigs) ts v1s = Ok (ts, v1s @ sigs)"
  using assms
proof (induction sigs arbitrary: v1s)
  case (Cons sig sigs)
  have "trim ''v1'' = ''v1''" by code_simp
  moreover have "trim sig = sig" using Cons.prems by (intro trim_id) (auto simp: field_ok_def list_all_iff)
  ultimately show ?case using Cons by simp
qed simp

lemma parse_stripe_header:
  assumes "list_all field_ok sigs" "sigs \<noteq> []" "- (2 ^ 63) \<le> ts" "ts < 2 ^ 63"
  shows "parse_stripe_signature (stripe_header ts sigs) = Ok (ts, sigs)"
proof -
  have step: "split_at_char CHR '','' (a @ concat (map (\<lambda>sig. '',v1='' @ sig) sigs)) = a # map (\<lambda>sig. ''v1='' @ sig) sigs"
    if "CHR '','' \<notin> set a" "list_all field_ok sigs" for a sigs
    using that
  proof (induction sigs arbitrary: a)
    case Nil
    then show ?case by (simp add: split_at_char_none)
  next
    case (Cons sig sigs)
    have "CHR '','' \<notin> set (''v1='' @ sig)" using Cons.prems by (auto simp: field_ok_def list_all_iff)
    then show ?case
      using Cons.IH [of "''v1='' @ sig"] Cons.prems split_at_char_append [of "CHR '',''" a "''v1='' @ sig @ concat (map (\<lambda>sig. '',v1='' @ sig) sigs)"]
      by simp
  qed
  have "CHR '','' \<notin> set (''t='' @ dec_int ts)" using dec_int_field [of ts] by (auto simp: field_ok_def list_all_iff)
  from step [OF this assms(1)] have "split_at_char CHR '','' (stripe_header ts sigs) = (''t='' @ dec_int ts) # map (\<lambda>sig. ''v1='' @ sig) sigs"
    by (simp add: stripe_header_def)
  moreover have "trim ''t'' = ''t''" by code_simp
  moreover have "trim (dec_int ts) = dec_int ts" using dec_int_field [of ts] by (intro trim_id) (auto simp: field_ok_def list_all_iff)
  ultimately show ?thesis
    using assms signature_parts_v1s [OF assms(1), of "Some ts" "[]"] parse_i64_dec [OF assms(3,4)]
    by (simp add: parse_stripe_signature_def)
qed

lemma map_err_eq_Ok: "map_err f r = Ok x \<longleftrightarrow> r = Ok x"
  by (cases r) simp_all

lemma webhook_event_iff:
  "webhook_event E config header body = Ok event \<longleftrightarrow> (\<exists>cfg secret h. config = Some cfg \<and>
     bg_webhook_signing_secret cfg = Some secret \<and> header = Some h \<and> header_to_str h = Some h \<and>
     verify_webhook_signature (we_hmac E) h body secret (sint (we_now_secs E)) 300 = Ok () \<and> we_event_from E body = Ok event)"
proof -
  have "header_to_str h = Some t \<Longrightarrow> t = h" for h t by (simp add: header_to_str_def split: if_splits)
  then show ?thesis unfolding webhook_event_def and_then_eq_Ok map_err_eq_Ok ok_or_eq_Ok by (metis (full_types) old.unit.exhaust)
qed


subsection \<open>The grace period\<close>

lemma grace_secs_exact: "uint h * 3600 < 2 ^ 63 \<Longrightarrow> grace_secs h = uint h * 3600"
  by (auto simp: grace_secs_def)

text \<open>
  C13: Dunning blocks exactly the customers that are overdue. For a subscription whose state was recorded
  at an instant before the year 10000, the check fails exactly when the status is one of the three
  delinquent ones and strictly more than the configured hours have passed since; the comparison of
  the printed stamps decides it to the millisecond.
\<close>

theorem dunning_exact:
  assumes "bs_map st org = Some customer" and "bs_subs st customer = Some sub"
    and "ss_updated_at sub = rfc3339_now u ums" and "ums < 1000" and "0 \<le> sint u" and "sint u < 253402300800"
    and "ms < 1000" and "0 \<le> sint n" and "sint n < 253402300800" and "uint h * 3600 < 2 ^ 63"
  shows "check_dunning n ms st org h =
    (if ss_status sub \<in> {''past_due'', ''unpaid'', ''canceled''} \<and>
        (sint n - sint u > uint h * 3600 \<or> sint n - sint u = uint h * 3600 \<and> ums < ms)
     then Err \<lparr>dv_status = ss_status sub, dv_updated_at = ss_updated_at sub, dv_grace_hours = h\<rparr> else Ok ())"
proof -
  let ?b = "rfc3339_offset n ms (- grace_secs h)"
  have u: "rfc3339_now u ums = stamp (sint u) ums" using rfc3339_stamp [of u 0 ums] assms(5,6) by (simp add: rfc3339_now_def)
  have "stamp (sint u) ums < ?b \<longleftrightarrow>
      sint n - sint u > uint h * 3600 \<or> sint n - sint u = uint h * 3600 \<and> ums < ms"
  proof (cases "sint n - uint h * 3600 < 0")
    case True
    then have "?b = stamp 0 0" using rfc3339_clamped [of n "- grace_secs h" ms] grace_secs_exact [OF assms(10)] by simp
    then show ?thesis using stamp_less [of "sint u" 0 ums 0] assms(4-6) True by auto
  next
    case False
    moreover have "0 \<le> uint h * 3600" by simp
    then have lt: "sint n - uint h * 3600 < 253402300800" using assms(9) by linarith
    ultimately have "?b = stamp (sint n - uint h * 3600) ms"
      using rfc3339_stamp [of n "- grace_secs h" ms] grace_secs_exact [OF assms(10)] by simp
    then show ?thesis
      using stamp_less [of "sint u" "sint n - uint h * 3600" ums ms] assms(4-9) False lt by auto
  qed
  then have "\<not> ss_updated_at sub \<ge> ?b \<longleftrightarrow>
      sint n - sint u > uint h * 3600 \<or> sint n - sint u = uint h * 3600 \<and> ums < ms"
    using u assms(3) by (simp add: not_le)
  then show ?thesis using assms(1,2) by (auto simp: check_dunning_def get_customer_def get_subscription_def DELINQUENT_STATUSES_def Let_def)
qed

subsection \<open>Metered usage\<close>

definition delta_of :: "string \<Rightarrow> (string \<times> u64) list \<Rightarrow> nat" where
  "delta_of org ds = sum_list (map (\<lambda>(o', d). if o' = org then unat d else 0) ds)"

definition count_of :: "metrics \<Rightarrow> string \<Rightarrow> nat" where
  "count_of m org = unat (unwrap_or (mt_forks_total_by_org m org) 0)"

text \<open>The reporter over a sequence of ticks, each with the metrics, the store and the clock it sees.\<close>

fun reporter_run :: "(string \<rightharpoonup> u64) \<Rightarrow> (metrics \<times> billing_store \<times> int) list \<Rightarrow> (string \<times> u64) list \<times> usage_report list" where
  "reporter_run prior [] = ([], [])"
| "reporter_run prior ((m, st, ts) # ticks) =
     (let (prior', sent) = reporter_tick m st ts prior; (ds, rest) = reporter_run prior' ticks
      in (compute_deltas prior (fork_counts m) @ ds, sent @ rest))"

lemma sum_list_sort_key: "sum_list (map f (sort_key k xs)) = (sum_list (map f xs) :: nat)"
  by (metis mset_map mset_sort sum_mset_sum_list)

lemma delta_of_list:
  assumes "distinct (map fst now)"
  shows "delta_of org (compute_deltas prior now) = unat (unwrap_or (map_of now org) 0) - unat (unwrap_or (prior org) 0)"
proof -
  let ?f = "\<lambda>(o', current). let previous = unwrap_or (prior o') 0 in if current > previous then Some (o', current - previous) else None"
  have "sum_list (map (\<lambda>(o', d). if o' = org then unat d else 0) (List.map_filter ?f now)) =
      unat (unwrap_or (map_of now org) 0) - unat (unwrap_or (prior org) 0)" if "distinct (map fst now)" for now
    using that
  proof (induction now)
    case Nil
    then show ?case by (simp add: List.map_filter_def unwrap_or_def)
  next
    case (Cons p now)
    obtain a c where p: "p = (a, c)" by force
    have "map_of now a = None" using Cons.prems p by (simp add: map_of_eq_None_iff)
    moreover have "c > q \<Longrightarrow> unat (c - q) = unat c - unat q" "\<not> c > q \<Longrightarrow> unat c - unat q = 0" for q :: u64
      by (simp_all add: unat_sub [OF order.strict_implies_order] not_less word_le_nat_alt)
    ultimately show ?case using Cons p by (auto simp: List.map_filter_simps unwrap_or_def Let_def simp del: sum_list_eq_0_iff)
  qed
  from this [OF assms] show ?thesis by (simp add: delta_of_def compute_deltas_def sum_list_sort_key)
qed

lemma fork_counts_map:
  assumes "finite (dom (mt_forks_total_by_org m))" "finite (dom (mt_fork_latency_ms_sum_by_org m))"
  shows "distinct (map fst (fork_counts m)) \<and> unat (unwrap_or (map_of (fork_counts m) org) 0) = count_of m org"
proof -
  let ?D = "dom (mt_forks_total_by_org m) \<union> dom (mt_fork_latency_ms_sum_by_org m)"
  have e: "fork_counts m = map (\<lambda>k. (k, unwrap_or (mt_forks_total_by_org m k) 0)) (sorted_list_of_set ?D)"
    by (simp add: fork_counts_def forks_by_org_snapshot_def Let_def unwrap_or_def)
  have "map_of (fork_counts m) org = (if org \<in> ?D then Some (unwrap_or (mt_forks_total_by_org m org) 0) else None)"
    using assms by (simp add: e map_of_map_restrict restrict_map_def)
  moreover have "distinct (map fst (fork_counts m))" by (simp add: e comp_def)
  ultimately show ?thesis by (auto simp: count_of_def unwrap_or_def)
qed

definition counters_finite :: "metrics \<Rightarrow> bool" where
  "counters_finite m \<longleftrightarrow> finite (dom (mt_forks_total_by_org m)) \<and> finite (dom (mt_fork_latency_ms_sum_by_org m))"

text \<open>
  Usage is attempted exactly once. Over any sequence of ticks at which the counter of an org only
  grows, the deltas the reporter works through add up to the growth of the counter since the
  baseline, and a delta is sent in the tick in which it is found or never: what is sent does not
  depend on whether earlier reports arrived.
\<close>

theorem usage_counted_once:
  assumes "list_all counters_finite (m0 # map fst ticks)" and "sorted (map (\<lambda>m. count_of m org) (m0 # map fst ticks))"
    and "reporter_run (map_of (fork_counts m0)) ticks = (ds, sent)"
  shows "delta_of org ds = count_of (last (m0 # map fst ticks)) org - count_of m0 org \<and>
    sent = concat (map (\<lambda>(prior, m, st, ts). List.map_filter (flush_one st ts) (compute_deltas (map_of (fork_counts prior)) (fork_counts m)))
      (zip (m0 # map fst ticks) ticks))"
  using assms
proof (induction ticks arbitrary: m0 ds sent)
  case Nil
  then show ?case by (simp add: delta_of_def)
next
  case (Cons t ticks)
  obtain m st ts where t: "t = (m, st, ts)" by (cases t)
  obtain ds' sent' where r: "reporter_run (map_of (fork_counts m)) ticks = (ds', sent')" by (cases "reporter_run (map_of (fork_counts m)) ticks")
  have ih: "delta_of org ds' = count_of (last (m # map fst ticks)) org - count_of m org \<and>
      sent' = concat (map (\<lambda>(prior, m, st, ts). List.map_filter (flush_one st ts) (compute_deltas (map_of (fork_counts prior)) (fork_counts m)))
        (zip (m # map fst ticks) ticks))"
    using Cons.IH [OF _ _ r] Cons.prems(1,2) t by simp
  have "delta_of org (compute_deltas (map_of (fork_counts m0)) (fork_counts m)) = count_of m org - count_of m0 org"
    using Cons.prems(1) t delta_of_list [of "fork_counts m" org] fork_counts_map [of m org] fork_counts_map [of m0 org]
    by (simp add: counters_finite_def)
  moreover have "count_of m0 org \<le> count_of m org" "count_of m org \<le> count_of (last (m # map fst ticks)) org"
    using Cons.prems(2) t by (auto simp: last_map)
  ultimately show ?case
    using Cons.prems(3) ih t r by (auto simp: reporter_tick_def Let_def delta_of_def)
qed

subsection \<open>Instances\<close>

text \<open>A stand-in for HMAC that mixes the lengths, an event and the header signed for it.\<close>

definition sample_event :: stripe_event where
  "sample_event = \<lparr>se_id = ''evt'', se_event_type = ''customer.subscription.deleted'',
     se_data = Some (JObj [(''object'', JObj [(''id'', JStr ''sub''), (''customer'', JStr ''cus''), (''status'', JStr ''canceled'')])])\<rparr>"

definition sample_webhook :: "unit webhook_env" where
  "sample_webhook = \<lparr>we_now_secs = 50, we_now_millis = 0, we_order = [''acme''],
     we_hmac = (\<lambda>k m. [of_nat (length k), of_nat (length m)]), we_event_from = (\<lambda>_. Ok sample_event)\<rparr>"

definition sample_billing :: billing_config where
  "sample_billing = \<lparr>bg_stripe_secret_key = ''sk'', bg_portal_return_url = ''u'', bg_signup_token = ''t'',
     bg_webhook_signing_secret = Some ''whsec'', bg_signup_verify_url = ''v'', bg_signup_token_ttl_secs = 900\<rparr>"

definition sample_store :: billing_store where
  "sample_store = record_customer InMemoryBillingStore_default ''acme'' ''cus''"


theorem dunning_exact_witness:
  "check_dunning 1700259201 0 (sample_store\<lparr>bs_subs := [''cus'' \<mapsto> \<lparr>ss_subscription_id = ''sub'', ss_status = ''unpaid'', ss_price_id = None,
      ss_subscription_item_id = None, ss_updated_at = rfc3339_now 1700000000 0\<rparr>]\<rparr>) ''acme'' 72 \<noteq> Ok () \<and>
   check_dunning 1700259200 0 (sample_store\<lparr>bs_subs := [''cus'' \<mapsto> \<lparr>ss_subscription_id = ''sub'', ss_status = ''unpaid'', ss_price_id = None,
      ss_subscription_item_id = None, ss_updated_at = rfc3339_now 1700000000 0\<rparr>]\<rparr>) ''acme'' 72 = Ok ()"
proof -
  let ?sub = "\<lparr>ss_subscription_id = ''sub'', ss_status = ''unpaid'', ss_price_id = None,
      ss_subscription_item_id = None, ss_updated_at = rfc3339_now 1700000000 0\<rparr>"
  have w: "sint (1700000000 :: u64) = 1700000000" "sint (1700259201 :: u64) = 1700259201" "sint (1700259200 :: u64) = 1700259200"
    by (simp_all add: sint_uint signed_take_bit_int_eq_self)
  have m: "bs_map (sample_store\<lparr>bs_subs := [''cus'' \<mapsto> ?sub]\<rparr>) ''acme'' = Some ''cus''"
    by (simp add: sample_store_def record_customer_def)
  have s: "bs_subs (sample_store\<lparr>bs_subs := [''cus'' \<mapsto> ?sub]\<rparr>) ''cus'' = Some ?sub" by simp
  show ?thesis
    using dunning_exact [OF m s, of 1700000000 0 0 1700259201 72] dunning_exact [OF m s, of 1700000000 0 0 1700259200 72] by (simp add: w)
qed

theorem usage_counted_once_witness:
  "delta_of ''acme'' (fst (reporter_run (map_of (fork_counts Metrics_new))
     [(record_fork (record_fork Metrics_new ''t'' ''acme'' 5) ''t'' ''acme'' 7, sample_store, 0)])) = 2"
proof -
  let ?m = "record_fork (record_fork Metrics_new ''t'' ''acme'' 5) ''t'' ''acme'' 7"
  obtain ds sent where run: "reporter_run (map_of (fork_counts Metrics_new)) [(?m, sample_store, 0)] = (ds, sent)" by fastforce
  have "count_of ?m ''acme'' = 2" "count_of Metrics_new ''acme'' = 0"
    by (simp_all add: count_of_def record_fork_def Metrics_new_def entry_add_def unwrap_or_def)
  moreover have "counters_finite ?m" "counters_finite Metrics_new"
    by (simp_all add: counters_finite_def record_fork_def Metrics_new_def entry_add_def)
  ultimately show ?thesis using usage_counted_once [OF _ _ run, of "''acme''"] run by simp
qed

end
