(* ===== verification/Signup.thy ===== *)
theory Signup
  imports Billing
begin

text \<open>
  Signing up (\<^verbatim>\<open>crates/control-plane/src/billing.rs\<close>): the operator's endpoint, and the self-serve one that
  mails a link with a random token and later exchanges the token for the first API key of an org.
  SHA-256 and the Stripe client are parameters; random bytes and the strings the key store
  generates are arguments. A verification waits for Stripe between looking the token up and
  consuming it, so its two halves are separate steps that other requests run between.
\<close>

subsection \<open>Tokens and slugs\<close>

definition hash_signup_token :: "(bytes \<Rightarrow> bytes) \<Rightarrow> string \<Rightarrow> string" where
  "hash_signup_token sha256 token = hex_encode (sha256 (into_bytes token))"

definition ALPHA :: string where
  "ALPHA = ''ABCDEFGHIJKLMNOPQRSTUVWXYZabcdefghijklmnopqrstuvwxyz0123456789-_''"

definition mint_chunk :: "u8 \<Rightarrow> u8 \<Rightarrow> u8 \<Rightarrow> string" where
  "mint_chunk a b c =
     [ALPHA ! unat (drop_bit 2 a), ALPHA ! unat (push_bit 4 (a AND 3) OR drop_bit 4 b),
      ALPHA ! unat (push_bit 2 (b AND 15) OR drop_bit 6 c), ALPHA ! unat (c AND 63)]"

text \<open>The buffer has 24 bytes, so every chunk is full; the code would panic on a shorter one.\<close>

fun mint_signup_token :: "bytes \<Rightarrow> string" where
  "mint_signup_token (a # b # c # buf) = mint_chunk a b c @ mint_signup_token buf"
| "mint_signup_token _ = []"

definition is_ascii_alphanumeric :: "char \<Rightarrow> bool" where
  "is_ascii_alphanumeric c \<longleftrightarrow> (let n = of_char c :: nat in 48 \<le> n \<and> n < 58 \<or> 65 \<le> n \<and> n < 91 \<or> 97 \<le> n \<and> n < 123)"

text \<open>
  The bytes of a character outside ASCII are all separators, as the character is, and runs of
  separators become one dash, so the loop over characters is a loop over bytes.
\<close>

fun slug_loop :: "bool \<Rightarrow> string \<Rightarrow> string \<Rightarrow> string" where
  "slug_loop prev_dash [] out = out"
| "slug_loop prev_dash (ch # cs) out =
     (let lower = ascii_lower ch in
      if is_ascii_alphanumeric lower then slug_loop False cs (out @ [lower])
      else if \<not> prev_dash then slug_loop True cs (out @ ''-'')
      else slug_loop prev_dash cs out)"

definition slugify :: "string \<Rightarrow> string" where
  "slugify input = rev (dropWhile (\<lambda>c. c = CHR ''-'') (rev (slug_loop True input [])))"

subsection \<open>Handlers\<close>

datatype billing_error =
    BadSignupToken
  | InvalidOrg
  | InvalidSignupToken
  | NoCustomerForOrg string
  | StripeApi nat string
  | StripeTransport string

text \<open>
  \<^verbatim>\<open>create_customer\<close> takes the address, the name, the slug and the idempotency key; the portal takes the
  customer and the return address.
\<close>

record stripe_client =
  sc_create_customer :: "string \<Rightarrow> string \<Rightarrow> string \<Rightarrow> string \<Rightarrow> (billing_error, string) result"
  sc_billing_portal :: "string \<Rightarrow> string \<Rightarrow> (billing_error, string) result"

text \<open>What issuing a key takes from outside: see \<open>issue\<close>.\<close>

record key_ctx =
  kc_order :: "string list"
  kc_write_ok :: bool
  kc_token :: string
  kc_id :: token_id
  kc_created_at :: string

definition issue_with :: "key_ctx \<Rightarrow> api_tokens \<Rightarrow> org_id \<Rightarrow> api_tokens \<times> issued_token" where
  "issue_with K tokens org = issue (kc_order K) (kc_write_ok K) (kc_token K) (kc_id K) (kc_created_at K) tokens org"

record signup_response =
  sp_org :: string
  sp_api_key :: string
  sp_stripe_customer_id :: string

text \<open>
  A request for a link: the new store and the mail that is sent, if any. The response is the same
  in every case.
\<close>

definition OPAQUE_MESSAGE :: string where
  "OPAQUE_MESSAGE = ''If that address is eligible, a verification link has been sent.''"

definition signup_request ::
    "(bytes \<Rightarrow> bytes) \<Rightarrow> u64 \<Rightarrow> nat \<Rightarrow> bytes \<Rightarrow> string \<Rightarrow> int \<Rightarrow> string \<Rightarrow> string \<Rightarrow> billing_store \<Rightarrow>
     billing_store \<times> (string \<times> string) option \<times> string" where
  "signup_request sha256 now_secs now_millis buf verify_url_base ttl_secs email org st =
     (let email_addr = trim email; org_name = trim org in
      if CHR ''@'' \<notin> set email_addr \<or> org_name = [] then (st, None, OPAQUE_MESSAGE)
      else
        let token = mint_signup_token buf;
            pending = \<lparr>pg_token_hash = hash_signup_token sha256 token, pg_email = email_addr, pg_org_name = org_name,
              pg_created_at = rfc3339_now now_secs now_millis, pg_expires_at = rfc3339_offset now_secs now_millis ttl_secs\<rparr>
        in (record_pending_signup st pending, Some (email_addr, verify_url_base @ ''?token='' @ token), OPAQUE_MESSAGE))"

text \<open>The first half of a verification, up to the call of Stripe: the pending signup and the slug.\<close>

definition verify_start ::
    "(bytes \<Rightarrow> bytes) \<Rightarrow> u64 \<Rightarrow> nat \<Rightarrow> string \<Rightarrow> billing_store \<Rightarrow> (billing_error, pending_signup \<times> string) result" where
  "verify_start sha256 now_secs now_millis token st =
     and_then (ok_or InvalidSignupToken
         (peek_pending_signup st (hash_signup_token sha256 token) (rfc3339_now now_secs now_millis))) (\<lambda>pending.
       let org_slug = slugify (pg_org_name pending) in
       if org_slug = [] then Err InvalidOrg else Ok (pending, org_slug))"

text \<open>The second half, with the customer Stripe created.\<close>

definition verify_finish ::
    "key_ctx \<Rightarrow> string \<Rightarrow> string \<Rightarrow> string \<Rightarrow> billing_store \<times> api_tokens \<Rightarrow> (billing_store \<times> api_tokens) \<times> signup_response" where
  "verify_finish K token_hash org_slug customer = (\<lambda>(st, tokens).
     let st = record_customer st org_slug customer;
         st = delete_pending_signup st token_hash;
         (tokens, issued) = issue_with K tokens org_slug
     in ((st, tokens), \<lparr>sp_org = org_slug, sp_api_key = it_token issued, sp_stripe_customer_id = customer\<rparr>))"

definition signup_verify ::
    "(bytes \<Rightarrow> bytes) \<Rightarrow> stripe_client \<Rightarrow> key_ctx \<Rightarrow> u64 \<Rightarrow> nat \<Rightarrow> string \<Rightarrow> billing_store \<times> api_tokens \<Rightarrow>
     (billing_store \<times> api_tokens) \<times> (billing_error, signup_response) result" where
  "signup_verify sha256 S K now_secs now_millis token s =
     (let token_hash = hash_signup_token sha256 token in
      case and_then (verify_start sha256 now_secs now_millis token (fst s)) (\<lambda>(pending, org_slug).
             map_sum id (\<lambda>customer. (org_slug, customer))
               (sc_create_customer S (pg_email pending) (pg_org_name pending) org_slug token_hash)) of
        Inl e \<Rightarrow> (s, Err e)
      | Inr (org_slug, customer) \<Rightarrow>
          let (s, resp) = verify_finish K token_hash org_slug customer s in (s, Ok resp))"

definition signup ::
    "billing_config \<Rightarrow> stripe_client \<Rightarrow> key_ctx \<Rightarrow> string option \<Rightarrow> string \<Rightarrow> string \<Rightarrow> billing_store \<times> api_tokens \<Rightarrow>
     (billing_store \<times> api_tokens) \<times> (billing_error, signup_response) result" where
  "signup cfg S K bearer email org = (\<lambda>(st, tokens).
     let bearer_ok = (case bearer of None \<Rightarrow> False
           | Some b \<Rightarrow> constant_time_eq_bytes (into_bytes b) (into_bytes (bg_signup_token cfg)));
         org_slug = slugify org in
     if \<not> bearer_ok then ((st, tokens), Err BadSignupToken)
     else if org_slug = [] then ((st, tokens), Err InvalidOrg)
     else
       (case sc_create_customer S email org org_slug org_slug of
          Inl e \<Rightarrow> ((st, tokens), Err e)
        | Inr customer \<Rightarrow>
            let st = record_customer st org_slug customer;
                (tokens, issued) = issue_with K tokens org_slug
            in ((st, tokens), Ok \<lparr>sp_org = org_slug, sp_api_key = it_token issued, sp_stripe_customer_id = customer\<rparr>)))"

definition billing_portal :: "billing_config \<Rightarrow> stripe_client \<Rightarrow> billing_store \<Rightarrow> org_id \<Rightarrow> (billing_error, string) result" where
  "billing_portal cfg S st caller_org =
     and_then (ok_or (NoCustomerForOrg caller_org) (get_customer st caller_org)) (\<lambda>customer_id.
       sc_billing_portal S customer_id (bg_portal_return_url cfg))"

definition billing_to_api_error :: "billing_error \<Rightarrow> billing_api_error" where
  "billing_to_api_error e =
     (case e of
        BadSignupToken \<Rightarrow> ApiUnauthorized
      | InvalidOrg \<Rightarrow> ApiBad ''org name must contain at least one alphanumeric character''
      | NoCustomerForOrg org \<Rightarrow> ApiNotFound ''no_billing_customer''
      | StripeApi status message \<Rightarrow>
          (if status = 429 then ApiTooManyRequests ''billing_upstream_throttled'' 60
           else if 500 \<le> status \<and> status \<le> 599 then ApiInternalDyn
           else ApiBad ''billing request was rejected by the upstream provider.'')
      | StripeTransport msg \<Rightarrow> ApiInternalDyn
      | InvalidSignupToken \<Rightarrow>
          ApiBad ''magic-link token is unknown or expired; request a fresh one via POST /v1/signup/request'')"

text \<open>
  The endpoints. A body that the extractor rejected is \<open>None\<close>; the bearer of the operator's endpoint
  is taken from the header as \<open>extract_bearer\<close> does.
\<close>

definition signup_handler ::
    "billing_config option \<Rightarrow> stripe_client \<Rightarrow> key_ctx \<Rightarrow> string option \<Rightarrow> (string \<times> string) option \<Rightarrow> billing_store \<times> api_tokens \<Rightarrow>
     (billing_store \<times> api_tokens) \<times> (billing_api_error, signup_response) result" where
  "signup_handler ctx S K authorization body s =
     (case and_then (ok_or (ApiUnsupported ''billing_disabled'') ctx) (\<lambda>cfg. and_then (ok_or ApiBadJson body) (\<lambda>req. Ok (cfg, req))) of
        Inl e \<Rightarrow> (s, Err e)
      | Inr (cfg, email, org) \<Rightarrow>
          let (s, r) = signup cfg S K (extract_bearer authorization) email org s in (s, map_err billing_to_api_error r))"

definition signup_request_handler ::
    "(bytes \<Rightarrow> bytes) \<Rightarrow> billing_config option \<Rightarrow> u64 \<Rightarrow> nat \<Rightarrow> bytes \<Rightarrow> (string \<times> string) option \<Rightarrow> billing_store \<Rightarrow>
     billing_store \<times> (string \<times> string) option \<times> (billing_api_error, string) result" where
  "signup_request_handler sha256 ctx now_secs now_millis buf body st =
     (case ctx of
        None \<Rightarrow> (st, None, Err (ApiUnsupported ''billing_disabled''))
      | Some cfg \<Rightarrow>
          (case body of
             None \<Rightarrow> (st, None, Ok OPAQUE_MESSAGE)
           | Some (email, org) \<Rightarrow>
               let (st, mail, msg) = signup_request sha256 now_secs now_millis buf (bg_signup_verify_url cfg)
                     (bg_signup_token_ttl_secs cfg) email org st
               in (st, mail, Ok msg)))"

definition signup_verify_handler ::
    "(bytes \<Rightarrow> bytes) \<Rightarrow> billing_config option \<Rightarrow> stripe_client \<Rightarrow> key_ctx \<Rightarrow> u64 \<Rightarrow> nat \<Rightarrow> string option \<Rightarrow> billing_store \<times> api_tokens \<Rightarrow>
     (billing_store \<times> api_tokens) \<times> (billing_api_error, signup_response) result" where
  "signup_verify_handler sha256 ctx S K now_secs now_millis body s =
     (case and_then (ok_or (ApiUnsupported ''billing_disabled'') ctx) (\<lambda>_. ok_or ApiBadJson body) of
        Inl e \<Rightarrow> (s, Err e)
      | Inr token \<Rightarrow>
          let (s, r) = signup_verify sha256 S K now_secs now_millis token s in (s, map_err billing_to_api_error r))"

definition billing_portal_handler ::
    "billing_config option \<Rightarrow> stripe_client \<Rightarrow> billing_store \<Rightarrow> org_id \<Rightarrow> role \<Rightarrow> (billing_api_error, string) result" where
  "billing_portal_handler ctx S st org role =
     (if \<not> role \<ge> Admin then Err (ApiForbidden ''role_required'')
      else and_then (ok_or (ApiUnsupported ''billing_disabled'') ctx) (\<lambda>cfg.
             map_err billing_to_api_error (billing_portal cfg S st org)))"

definition plan_handler :: "(plan_tiers \<times> billing_store) option \<Rightarrow> org_id \<Rightarrow> (billing_api_error, plan_response) result" where
  "plan_handler ctx org =
     and_then (ok_or (ApiUnsupported ''billing_disabled'') ctx) (\<lambda>(tiers, st). Ok (resolve_plan tiers st org))"

subsection \<open>Mailed tokens\<close>

lemma ALPHA_index: "distinct ALPHA" "length ALPHA = 64"
  by code_simp+

lemma ALPHA_inject: "i < 64 \<Longrightarrow> j < 64 \<Longrightarrow> ALPHA ! i = ALPHA ! j \<longleftrightarrow> i = j"
  using nth_eq_iff_index_eq [OF ALPHA_index(1)] ALPHA_index(2) by simp

lemma masks: "a AND 3 = take_bit 2 a" "a AND 15 = take_bit 4 a" "a AND 63 = take_bit 6 a" for a :: u8
  by (simp_all add: take_bit_eq_mask mask_eq_exp_minus_1)

lemma six_bits:
  fixes w :: u8
  assumes "take_bit 6 w = w"
  shows "unat w < 64"
proof -
  have "unat w = take_bit 6 (unat w)" using assms by (metis unsigned_take_bit_eq)
  moreover have "take_bit 6 (unat w) < 2 ^ 6" by (rule take_bit_nat_less_exp)
  ultimately show ?thesis by simp
qed

lemma chunk_parts:
  fixes a b c :: u8
  shows "take_bit 6 (drop_bit 2 a) = drop_bit 2 a" "take_bit 6 (push_bit 4 (take_bit 2 a) OR drop_bit 4 b) = push_bit 4 (take_bit 2 a) OR drop_bit 4 b"
    "take_bit 6 (push_bit 2 (take_bit 4 b) OR drop_bit 6 c) = push_bit 2 (take_bit 4 b) OR drop_bit 6 c"
  by (rule bit_word_eqI, auto simp: bit_simps dest: bit_imp_le_length)+

lemma chunk_back:
  fixes a b c :: u8
  shows "a = push_bit 2 (drop_bit 2 a) OR drop_bit 4 (push_bit 4 (take_bit 2 a) OR drop_bit 4 b)"
    "b = push_bit 4 (take_bit 4 (push_bit 4 (take_bit 2 a) OR drop_bit 4 b)) OR drop_bit 2 (push_bit 2 (take_bit 4 b) OR drop_bit 6 c)"
    "c = push_bit 6 (take_bit 2 (push_bit 2 (take_bit 4 b) OR drop_bit 6 c)) OR take_bit 6 c"
proof -
  have s: "\<not> n < 2 \<Longrightarrow> Suc (Suc (n - 2)) = n" for n by simp
  show "a = push_bit 2 (drop_bit 2 a) OR drop_bit 4 (push_bit 4 (take_bit 2 a) OR drop_bit 4 b)"
    by (rule bit_word_eqI, rename_tac n, case_tac "n < 2") (auto simp: bit_simps s dest: bit_imp_le_length)
  show "b = push_bit 4 (take_bit 4 (push_bit 4 (take_bit 2 a) OR drop_bit 4 b)) OR drop_bit 2 (push_bit 2 (take_bit 4 b) OR drop_bit 6 c)"
    by (rule bit_word_eqI, rename_tac n, case_tac "n < 4") (auto simp: bit_simps s dest: bit_imp_le_length)
  show "c = push_bit 6 (take_bit 2 (push_bit 2 (take_bit 4 b) OR drop_bit 6 c)) OR take_bit 6 c"
    by (rule bit_word_eqI, rename_tac n, case_tac "n < 6") (auto simp: bit_simps s dest: bit_imp_le_length)
qed

lemma mint_chunk_inject: "mint_chunk a b c = mint_chunk a' b' c' \<longleftrightarrow> a = a' \<and> b = b' \<and> c = c'"
proof
  assume "mint_chunk a b c = mint_chunk a' b' c'"
  then have "drop_bit 2 a = drop_bit 2 a'" "push_bit 4 (take_bit 2 a) OR drop_bit 4 b = push_bit 4 (take_bit 2 a') OR drop_bit 4 b'"
    "push_bit 2 (take_bit 4 b) OR drop_bit 6 c = push_bit 2 (take_bit 4 b') OR drop_bit 6 c'" "take_bit 6 c = take_bit 6 c'"
    using chunk_parts(1-3) by (simp_all add: mint_chunk_def masks ALPHA_inject six_bits word_unat_eq_iff del: take_bit_or)
  then show "a = a' \<and> b = b' \<and> c = c'" by (metis chunk_back)
qed simp

lemma mint_length: "length (mint_signup_token buf) = 4 * (length buf div 3)"
  by (induction buf rule: mint_signup_token.induct) (simp_all add: mint_chunk_def)

lemma mint_url_safe: "set (mint_signup_token buf) \<subseteq> set ALPHA"
  by (induction buf rule: mint_signup_token.induct)
    (auto simp: mint_chunk_def masks intro!: nth_mem six_bits chunk_parts simp: ALPHA_index(2) chunk_parts)

lemma three_ndvd_two: "\<not> 3 dvd Suc (Suc 0)"
proof -
  have "\<not> 3 dvd (2 :: nat)" by presburger
  then show ?thesis by (simp add: numeral_2_eq_2)
qed

lemma mint_inject:
  "length buf' = length buf \<Longrightarrow> 3 dvd length buf \<Longrightarrow> mint_signup_token buf = mint_signup_token buf' \<Longrightarrow> buf = buf'"
proof (induction buf arbitrary: buf' rule: mint_signup_token.induct)
  case (1 a b c buf)
  obtain a' b' c' rest where e: "buf' = a' # b' # c' # rest" using 1(2) by (cases buf' rule: mint_signup_token.cases) auto
  have "length (mint_chunk a b c) = length (mint_chunk a' b' c')" by (simp add: mint_chunk_def)
  then have eqs: "mint_chunk a b c = mint_chunk a' b' c'" "mint_signup_token buf = mint_signup_token rest" using 1(4) e by simp_all
  have "3 dvd length buf" using 1(3) by (simp add: dvd_def) presburger
  then have "buf = rest" using 1(1) [OF _ _ eqs(2)] 1(2) e by simp
  then show ?case using eqs(1) e by (simp add: mint_chunk_inject)
qed (auto simp: three_ndvd_two)

subsection \<open>Slugs\<close>

text \<open>The reference: the maximal runs of letters and digits, in lower case, joined by dashes.\<close>

fun split_by :: "(char \<Rightarrow> bool) \<Rightarrow> string \<Rightarrow> string list" where
  "split_by p [] = [[]]"
| "split_by p (c # cs) = (if p c then [] # split_by p cs else (c # hd (split_by p cs)) # tl (split_by p cs))"

definition slug_words :: "string \<Rightarrow> string list" where
  "slug_words s = filter (\<lambda>w. w \<noteq> []) (split_by (\<lambda>c. \<not> is_ascii_alphanumeric c) (map ascii_lower s))"

fun join_dash :: "string list \<Rightarrow> string" where
  "join_dash [] = []"
| "join_dash [w] = w"
| "join_dash (w # ws) = w @ ''-'' @ join_dash ws"

definition strip_dashes :: "string \<Rightarrow> string" where
  "strip_dashes s = rev (dropWhile (\<lambda>c. c = CHR ''-'') (rev s))"

lemma slug_loop_out: "slug_loop p s out = out @ slug_loop p s []"
proof (induction s arbitrary: p out)
  case (Cons c s)
  show ?case
    using Cons [of False "out @ [ascii_lower c]"] Cons [of False "[ascii_lower c]"] Cons [of True "out @ ''-''"] Cons [of True "''-''"] Cons [of True out]
    by (simp add: Let_def)
qed simp

lemma strip_dashes_Cons: "strip_dashes (c # s) = (if strip_dashes s = [] \<and> c = CHR ''-'' then [] else c # strip_dashes s)"
  by (auto simp: strip_dashes_def dropWhile_append dest: set_dropWhileD)

lemma join_dash_Cons: "join_dash (w # ws) = w @ (if ws = [] then [] else CHR ''-'' # join_dash ws)"
  by (cases ws) simp_all

lemma join_dash_empty: "(\<forall>w \<in> set ws. w \<noteq> []) \<Longrightarrow> join_dash ws = [] \<longleftrightarrow> ws = []"
  by (cases ws) (auto simp: join_dash_Cons)

lemma split_by_ne: "split_by p s \<noteq> []"
  by (cases s) simp_all

lemma dash_not_alphanumeric: "\<not> is_ascii_alphanumeric CHR ''-''"
  by code_simp

lemma slug_loop_words:
  fixes s
  defines "ws \<equiv> split_by (\<lambda>c. \<not> is_ascii_alphanumeric c) (map ascii_lower s)"
  shows "strip_dashes (slug_loop True s []) = join_dash (filter (\<lambda>w. w \<noteq> []) ws)"
    and "strip_dashes (slug_loop False s []) =
      hd ws @ (if filter (\<lambda>w. w \<noteq> []) (tl ws) = [] then [] else CHR ''-'' # join_dash (filter (\<lambda>w. w \<noteq> []) (tl ws)))"
  unfolding ws_def
proof (induction s)
  case Nil
  {
    case 1
    show ?case by (simp add: strip_dashes_def)
  next
    case 2
    show ?case by (simp add: strip_dashes_def)
  }
next
  case (Cons c s)
  let ?l = "ascii_lower c" and ?ws = "split_by (\<lambda>c. \<not> is_ascii_alphanumeric c) (map ascii_lower s)"
  have word: "strip_dashes (slug_loop p (c # s) []) = ?l # strip_dashes (slug_loop False s [])" if "is_ascii_alphanumeric ?l" for p
  proof -
    have "?l \<noteq> CHR ''-''" using that dash_not_alphanumeric by metis
    then show ?thesis using that slug_loop_out [of False s "[?l]"] by (simp add: Let_def strip_dashes_Cons)
  qed
  have dash: "strip_dashes (slug_loop False (c # s) []) =
      (if filter (\<lambda>w. w \<noteq> []) ?ws = [] then [] else CHR ''-'' # join_dash (filter (\<lambda>w. w \<noteq> []) ?ws))" if "\<not> is_ascii_alphanumeric ?l"
    using that Cons.IH(1) slug_loop_out [of True s "''-''"] join_dash_empty [of "filter (\<lambda>w. w \<noteq> []) ?ws"]
    by (simp add: Let_def strip_dashes_Cons)
  {
    case 1
    show ?case
    proof (cases "is_ascii_alphanumeric ?l")
      case True
      then show ?thesis using word [OF True, of True] Cons.IH(2) by (simp add: join_dash_Cons)
    next
      case False
      then show ?thesis using Cons.IH(1) by (simp add: Let_def)
    qed
  next
    case 2
    show ?case
    proof (cases "is_ascii_alphanumeric ?l")
      case True
      then show ?thesis using word [OF True, of False] Cons.IH(2) by simp
    next
      case False
      then show ?thesis using dash [OF False] by simp
    qed
  }
qed

lemma ascii_lower_idem: "ascii_lower (ascii_lower c) = ascii_lower c"
  by (auto simp: ascii_lower_def Let_def)

lemma split_by_word: "\<forall>c \<in> set w. \<not> p c \<Longrightarrow> split_by p (w @ t) = (w @ hd (split_by p t)) # tl (split_by p t)"
  by (induction w) (auto simp: split_by_ne)

lemma split_by_chars: "w \<in> set (split_by p s) \<Longrightarrow> c \<in> set w \<Longrightarrow> c \<in> set s \<and> \<not> p c"
proof (induction s arbitrary: w)
  case (Cons a s)
  then show ?case using split_by_ne [of p s] by (cases "split_by p s") (fastforce split: if_splits)+
qed simp

lemma slug_words_join:
  assumes "\<forall>w \<in> set ws. w \<noteq> [] \<and> (\<forall>c \<in> set w. is_ascii_alphanumeric c \<and> ascii_lower c = c)"
  shows "slug_words (join_dash ws) = ws"
  using assms
proof (induction ws)
  case Nil
  show ?case by (simp add: slug_words_def)
next
  case (Cons w ws)
  have w: "map ascii_lower w = w" using Cons.prems by (simp add: map_idI)
  have dash: "ascii_lower CHR ''-'' = CHR ''-''" by code_simp
  let ?p = "\<lambda>c. \<not> is_ascii_alphanumeric c"
  have "split_by ?p (w @ t) = (w @ hd (split_by ?p t)) # tl (split_by ?p t)" for t
    using Cons.prems by (intro split_by_word) simp
  then show ?case
    using Cons dash_not_alphanumeric by (auto simp: join_dash_Cons slug_words_def w dash)
qed

lemma slugify_words: "slugify s = join_dash (slug_words s)"
  using slug_loop_words(1) [of s] by (simp add: slugify_def strip_dashes_def slug_words_def)

lemma slug_words_shape: "w \<in> set (slug_words s) \<Longrightarrow> w \<noteq> [] \<and> (\<forall>c \<in> set w. is_ascii_alphanumeric c \<and> ascii_lower c = c)"
  using split_by_chars [of w "\<lambda>c. \<not> is_ascii_alphanumeric c" "map ascii_lower s"] by (fastforce simp: slug_words_def ascii_lower_idem)

text \<open>
  Slugs are the words of the name. The loop with its dash flag and the trimming of the end give
  exactly the maximal runs of ASCII letters and digits of the name, in lower case, joined by single
  dashes; the slug of a slug is the slug, so the org a name stands for does not depend on how often
  it is normalised.
\<close>

theorem slugify_exact: "slugify s = join_dash (slug_words s) \<and> slugify (slugify s) = slugify s"
  using slugify_words slug_words_join [of "slug_words s"] slug_words_shape by simp

subsection \<open>The signup endpoints together\<close>

text \<open>
  The state of the endpoints: the store and the key store, the verifications that wait for Stripe,
  and two logs, of the links that were mailed (address, org name, token) and of the keys that were
  handed out for a token (its hash, the org, the key).
\<close>

record signup_system =
  sy_store :: billing_store
  sy_tokens :: api_tokens
  sy_waiting :: "(string \<times> string) list"
  sy_mailed :: "(string \<times> string \<times> string) list"
  sy_granted :: "(string \<times> string \<times> string) list"

inductive signup_step :: "(bytes \<Rightarrow> bytes) \<Rightarrow> signup_system \<Rightarrow> signup_system \<Rightarrow> bool" for sha256 where
  request:
    "signup_request sha256 n ms buf base ttl email org (sy_store s) = (st, mail, msg) \<Longrightarrow>
     signup_step sha256 s (s\<lparr>sy_store := st,
       sy_mailed := (case mail of None \<Rightarrow> sy_mailed s | Some (addr, url) \<Rightarrow> (addr, trim org, mint_signup_token buf) # sy_mailed s)\<rparr>)"
| start:
    "verify_start sha256 n ms token (sy_store s) = Ok (pending, slug) \<Longrightarrow>
     signup_step sha256 s (s\<lparr>sy_waiting := (hash_signup_token sha256 token, slug) # sy_waiting s\<rparr>)"
| stripe_failed:
    "signup_step sha256 s (s\<lparr>sy_waiting := remove1 w (sy_waiting s)\<rparr>)"
| finish:
    "(h, slug) \<in> set (sy_waiting s) \<Longrightarrow> verify_finish K h slug customer (sy_store s, sy_tokens s) = ((st, tokens), resp) \<Longrightarrow>
     signup_step sha256 s (s\<lparr>sy_store := st, sy_tokens := tokens, sy_waiting := remove1 (h, slug) (sy_waiting s),
       sy_granted := (h, slug, sp_api_key resp) # sy_granted s\<rparr>)"
| operator:
    "signup cfg S K bearer email org (sy_store s, sy_tokens s) = ((st, tokens), r) \<Longrightarrow>
     signup_step sha256 s (s\<lparr>sy_store := st, sy_tokens := tokens\<rparr>)"
| sweep: "signup_step sha256 s (s\<lparr>sy_store := fst (gc_expired_signups order (sy_store s) now)\<rparr>)"
| webhook: "signup_step sha256 s (s\<lparr>sy_store := route_webhook_event order now (sy_store s) event\<rparr>)"
| key_change: "signup_step sha256 s (s\<lparr>sy_tokens := tokens\<rparr>)"

inductive signup_reachable :: "(bytes \<Rightarrow> bytes) \<Rightarrow> signup_system \<Rightarrow> bool" for sha256 where
  init: "signup_reachable sha256 \<lparr>sy_store = InMemoryBillingStore_default, sy_tokens = tokens, sy_waiting = [], sy_mailed = [], sy_granted = []\<rparr>"
| step: "signup_reachable sha256 s \<Longrightarrow> signup_step sha256 s s' \<Longrightarrow> signup_reachable sha256 s'"

text \<open>An org was asked for with a token of this hash, mailed to the given address.\<close>

definition asked_for :: "(bytes \<Rightarrow> bytes) \<Rightarrow> signup_system \<Rightarrow> string \<Rightarrow> string \<Rightarrow> string \<Rightarrow> bool" where
  "asked_for sha256 s h addr name \<longleftrightarrow> (\<exists>token. (addr, name, token) \<in> set (sy_mailed s) \<and> hash_signup_token sha256 token = h)"

definition pending_ok :: "(bytes \<Rightarrow> bytes) \<Rightarrow> signup_system \<Rightarrow> bool" where
  "pending_ok sha256 s \<longleftrightarrow>
     (\<forall>h p. bs_pending (sy_store s) h = Some p \<longrightarrow> pg_token_hash p = h \<and> asked_for sha256 s h (pg_email p) (pg_org_name p)) \<and>
     (\<forall>h h' p p'. bs_pending (sy_store s) h = Some p \<and> bs_pending (sy_store s) h' = Some p' \<and> pg_email p = pg_email p' \<longrightarrow> h = h')"

definition slug_asked :: "(bytes \<Rightarrow> bytes) \<Rightarrow> signup_system \<Rightarrow> string \<Rightarrow> string \<Rightarrow> bool" where
  "slug_asked sha256 s h slug \<longleftrightarrow> slug \<noteq> [] \<and> (\<exists>addr name. asked_for sha256 s h addr name \<and> slug = slugify name)"

definition signup_inv :: "(bytes \<Rightarrow> bytes) \<Rightarrow> signup_system \<Rightarrow> bool" where
  "signup_inv sha256 s \<longleftrightarrow> pending_ok sha256 s \<and> (\<forall>(h, slug) \<in> set (sy_waiting s). slug_asked sha256 s h slug) \<and>
     (\<forall>(h, slug, key) \<in> set (sy_granted s). slug_asked sha256 s h slug)"

text \<open>A step that only drops pending signups keeps the invariant.\<close>

lemma signup_inv_drop:
  assumes "signup_inv sha256 s" and "\<And>h p. bs_pending (sy_store s') h = Some p \<Longrightarrow> bs_pending (sy_store s) h = Some p"
    and "sy_mailed s' = sy_mailed s" and "set (sy_waiting s') \<subseteq> set (sy_waiting s)" and "sy_granted s' = sy_granted s"
  shows "signup_inv sha256 s'"
proof -
  have "asked_for sha256 s' = asked_for sha256 s" "slug_asked sha256 s' = slug_asked sha256 s"
    using assms(3) by (auto simp: asked_for_def slug_asked_def fun_eq_iff)
  then show ?thesis using assms unfolding signup_inv_def pending_ok_def by (auto; blast)
qed

lemma asked_updates [simp]:
  "asked_for sha256 (s\<lparr>sy_waiting := w\<rparr>) = asked_for sha256 s" "slug_asked sha256 (s\<lparr>sy_waiting := w\<rparr>) = slug_asked sha256 s"
  "pending_ok sha256 (s\<lparr>sy_waiting := w\<rparr>) = pending_ok sha256 s" "asked_for sha256 (s\<lparr>sy_granted := g\<rparr>) = asked_for sha256 s"
  "slug_asked sha256 (s\<lparr>sy_granted := g\<rparr>) = slug_asked sha256 s" "pending_ok sha256 (s\<lparr>sy_granted := g\<rparr>) = pending_ok sha256 s"
  by (simp_all add: asked_for_def slug_asked_def pending_ok_def fun_eq_iff)

lemma asked_for_more:
  assumes "set (sy_mailed s) \<subseteq> set (sy_mailed s')"
  shows "asked_for sha256 s h addr name \<Longrightarrow> asked_for sha256 s' h addr name" "slug_asked sha256 s h slug \<Longrightarrow> slug_asked sha256 s' h slug"
  using assms by (auto simp: asked_for_def slug_asked_def)

lemma signup_request_keeps:
  assumes inv: "signup_inv sha256 s" and req: "signup_request sha256 n ms buf base ttl email org (sy_store s) = (st, mail, msg)"
  shows "signup_inv sha256 (s\<lparr>sy_store := st,
    sy_mailed := (case mail of None \<Rightarrow> sy_mailed s | Some (addr, url) \<Rightarrow> (addr, trim org, mint_signup_token buf) # sy_mailed s)\<rparr>)"
proof (cases mail)
  case None
  then have "st = sy_store s" using req by (auto simp: signup_request_def Let_def split: if_splits)
  then show ?thesis using inv None by (intro signup_inv_drop [OF inv]) simp_all
next
  case (Some m)
  let ?s' = "s\<lparr>sy_store := st, sy_mailed := (case mail of None \<Rightarrow> sy_mailed s | Some (addr, url) \<Rightarrow> (addr, trim org, mint_signup_token buf) # sy_mailed s)\<rparr>"
  obtain pending where st: "st = record_pending_signup (sy_store s) pending" and
    pending: "pg_token_hash pending = hash_signup_token sha256 (mint_signup_token buf)" "pg_email pending = fst m" "pg_org_name pending = trim org"
    using req Some by (auto simp: signup_request_def Let_def split: if_splits)
  have mailed: "sy_mailed ?s' = (fst m, trim org, mint_signup_token buf) # sy_mailed s" using Some by (cases m) simp
  note more = asked_for_more [of s ?s' sha256, unfolded mailed, OF set_subset_Cons]
  have new: "asked_for sha256 ?s' (pg_token_hash pending) (pg_email pending) (pg_org_name pending)"
    unfolding asked_for_def mailed pending by auto
  have look: "bs_pending (sy_store ?s') h = Some p \<longleftrightarrow>
      (if h = pg_token_hash pending then p = pending else bs_pending (sy_store s) h = Some p \<and> pg_email p \<noteq> pg_email pending)" for h p
    by (auto simp: st record_pending_signup_def split: option.splits)
  have old: "bs_pending (sy_store s) h = Some p \<Longrightarrow> pg_token_hash p = h \<and> asked_for sha256 s h (pg_email p) (pg_org_name p)"
    "bs_pending (sy_store s) h = Some p \<Longrightarrow> bs_pending (sy_store s) h' = Some p' \<Longrightarrow> pg_email p = pg_email p' \<Longrightarrow> h = h'" for h h' p p'
    using inv unfolding signup_inv_def pending_ok_def by blast+
  have "pending_ok sha256 ?s'"
    unfolding pending_ok_def look using new more(1) old by (metis (no_types, lifting))
  then show ?thesis using inv more(2) unfolding signup_inv_def by auto
qed

lemma verify_start_asked:
  assumes "pending_ok sha256 s" and "verify_start sha256 n ms token (sy_store s) = Ok (pending, slug)"
  shows "slug_asked sha256 s (hash_signup_token sha256 token) slug"
  using assms unfolding pending_ok_def slug_asked_def
  by (fastforce simp: verify_start_def and_then_eq_Ok peek_pending_signup_def Let_def bind_eq_Some_conv split: if_splits)

lemma verify_finish_pending:
  "verify_finish K h slug customer (st, tokens) = ((st', tokens'), resp) \<Longrightarrow> bs_pending st' = (bs_pending st)(h := None)"
  by (auto simp: verify_finish_def record_customer_def delete_pending_signup_def Let_def split: prod.splits)

lemma signup_pending: "signup cfg S K bearer email org (st, tokens) = ((st', tokens'), r) \<Longrightarrow> bs_pending st' = bs_pending st"
  by (auto simp: signup_def record_customer_def Let_def split: if_splits sum.splits prod.splits)

lemma route_pending: "bs_pending (route_webhook_event order now st event) = bs_pending st"
  by (auto simp: route_webhook_event_def record_subscription_def split: sum.splits)

lemma signup_inv_grant:
  "signup_inv sha256 t \<Longrightarrow> slug_asked sha256 t h slug \<Longrightarrow> signup_inv sha256 (t\<lparr>sy_granted := (h, slug, key) # sy_granted t\<rparr>)"
  by (simp add: signup_inv_def)

lemma signup_inv_wait:
  "signup_inv sha256 t \<Longrightarrow> slug_asked sha256 t h slug \<Longrightarrow> signup_inv sha256 (t\<lparr>sy_waiting := (h, slug) # sy_waiting t\<rparr>)"
  by (simp add: signup_inv_def)

lemma signup_inv_step:
  assumes "signup_step sha256 s s'" "signup_inv sha256 s"
  shows "signup_inv sha256 s'"
  using assms
proof (induction rule: signup_step.induct)
  case (request n ms buf base ttl email org s st mail msg)
  then show ?case by (intro signup_request_keeps)
next
  case (start n ms token s pending slug)
  then have "slug_asked sha256 s (hash_signup_token sha256 token) slug" by (intro verify_start_asked) (simp_all add: signup_inv_def)
  with start(2) show ?case by (rule signup_inv_wait)
next
  case (stripe_failed s w)
  show ?case by (rule signup_inv_drop [OF stripe_failed]) (simp_all add: set_remove1_subset)
next
  case (finish h slug s K customer st tokens resp)
  let ?t = "s\<lparr>sy_store := st, sy_tokens := tokens, sy_waiting := remove1 (h, slug) (sy_waiting s)\<rparr>"
  have inv_t: "signup_inv sha256 ?t"
    using verify_finish_pending [OF finish(2)] set_remove1_subset by (intro signup_inv_drop [OF finish(3)]) (simp_all split: if_splits)
  have "slug_asked sha256 s h slug" using finish(1,3) unfolding signup_inv_def by auto
  then have "slug_asked sha256 ?t h slug" by (simp add: slug_asked_def asked_for_def)
  from signup_inv_grant [OF inv_t this, of "sp_api_key resp"] show ?case by simp
next
  case (operator cfg S K bearer email org s st tokens r)
  show ?case using signup_pending [OF operator(1)] by (intro signup_inv_drop [OF operator(2)]) simp_all
next
  case (sweep s order now)
  show ?case by (rule signup_inv_drop [OF sweep]) (auto simp: gc_expired_signups_def Let_def split: option.splits if_splits)
next
  case (webhook s order now event)
  show ?case by (rule signup_inv_drop [OF webhook]) (simp_all add: route_pending)
next
  case (key_change s tokens)
  show ?case by (rule signup_inv_drop [OF key_change]) simp_all
qed


lemma issue_with_resolve:
  "token_resolve (fst (issue_with K t org)) = (token_resolve t)(kc_token K \<mapsto> (org, Admin))" "it_token (snd (issue_with K t org)) = kc_token K"
  by (auto simp: issue_with_def issue_def persist_def token_resolve_def default_for_legacy_def Let_def fun_eq_iff)

lemma verify_finish_effects:
  assumes "verify_finish K h slug customer (st, tokens) = ((st', tokens'), resp)"
  shows "sp_org resp = slug" "bs_map st' = (bs_map st)(slug \<mapsto> customer)" "bs_pending st' = (bs_pending st)(h := None)"
    "token_resolve tokens' = (token_resolve tokens)(sp_api_key resp \<mapsto> (slug, Admin))" "sp_api_key resp = kc_token K"
proof -
  have e: "tokens' = fst (issue_with K tokens slug)" "sp_api_key resp = it_token (snd (issue_with K tokens slug))"
    and *: "sp_org resp = slug" "bs_map st' = (bs_map st)(slug \<mapsto> customer)" "bs_pending st' = (bs_pending st)(h := None)"
    using assms by (auto simp: verify_finish_def record_customer_def delete_pending_signup_def Let_def split: prod.splits)
  show "sp_org resp = slug" "bs_map st' = (bs_map st)(slug \<mapsto> customer)" "bs_pending st' = (bs_pending st)(h := None)"
    "token_resolve tokens' = (token_resolve tokens)(sp_api_key resp \<mapsto> (slug, Admin))" "sp_api_key resp = kc_token K"
    using * e issue_with_resolve by simp_all
qed

lemma signup_verify_cases:
  assumes "signup_verify sha256 S K n ms token (st, tokens) = (s', Ok resp)"
  obtains p customer where "bs_pending st (hash_signup_token sha256 token) = Some p" "\<not> pg_expires_at p < rfc3339_now n ms"
    "slugify (pg_org_name p) \<noteq> []"
    "sc_create_customer S (pg_email p) (pg_org_name p) (slugify (pg_org_name p)) (hash_signup_token sha256 token) = Ok customer"
    "verify_finish K (hash_signup_token sha256 token) (slugify (pg_org_name p)) customer (st, tokens) = (s', resp)"
proof -
  let ?h = "hash_signup_token sha256 token"
  obtain p slug where start: "verify_start sha256 n ms token st = Ok (p, slug)"
    using assms by (cases "verify_start sha256 n ms token st") (auto simp: signup_verify_def)
  obtain customer where stripe: "sc_create_customer S (pg_email p) (pg_org_name p) slug ?h = Ok customer"
    using assms start by (cases "sc_create_customer S (pg_email p) (pg_org_name p) slug ?h") (auto simp: signup_verify_def)
  have "bs_pending st ?h = Some p" "\<not> pg_expires_at p < rfc3339_now n ms" "slug = slugify (pg_org_name p)" "slug \<noteq> []"
    using start by (auto simp: verify_start_def and_then_eq_Ok peek_pending_signup_def Let_def bind_eq_Some_conv split: if_splits)
  moreover have "verify_finish K ?h slug customer (st, tokens) = (s', resp)"
    using assms start stripe by (simp add: signup_verify_def Let_def split: prod.splits)
  ultimately show thesis using that stripe by blast
qed

text \<open>
  C11: A link is good for one signup. A verification that fails changes nothing. One that succeeds was made
  with a token whose pending signup has not expired, and its effects are these: the org of the slug
  is bound to the customer Stripe created, exactly one new key resolves, to that org with the Admin
  role, and the pending signup is gone, so that the same token fails from then on.
\<close>

theorem signup_verify_exact:
  assumes "signup_verify sha256 S K n ms token (st, tokens) = ((st', tokens'), r)" and "h = hash_signup_token sha256 token"
  shows "(\<forall>e. r = Err e \<longrightarrow> st' = st \<and> tokens' = tokens) \<and>
    (\<forall>resp. r = Ok resp \<longrightarrow> (\<exists>p customer. bs_pending st h = Some p \<and> \<not> pg_expires_at p < rfc3339_now n ms \<and>
       sp_org resp = slugify (pg_org_name p) \<and> sp_org resp \<noteq> [] \<and>
       sc_create_customer S (pg_email p) (pg_org_name p) (sp_org resp) h = Ok customer \<and>
       bs_map st' = (bs_map st)(sp_org resp \<mapsto> customer) \<and> bs_pending st' = (bs_pending st)(h := None) \<and>
       token_resolve tokens' = (token_resolve tokens)(sp_api_key resp \<mapsto> (sp_org resp, Admin))) \<and>
       (\<forall>K' n' ms' tokens''. signup_verify sha256 S K' n' ms' token (st', tokens'') = ((st', tokens''), Err InvalidSignupToken)))"
proof -
  have spent: "signup_verify sha256 S K' n' ms' token (u, t) = ((u, t), Err InvalidSignupToken)" if "bs_pending u h = None" for K' n' ms' u t
    using that assms(2) by (simp add: signup_verify_def verify_start_def peek_pending_signup_def)
  show ?thesis
  proof (cases r)
    case (Inl e)
    then show ?thesis using assms(1) by (auto simp: signup_verify_def Let_def split: sum.splits prod.splits)
  next
    case (Inr resp)
    obtain p customer where v: "bs_pending st h = Some p" "\<not> pg_expires_at p < rfc3339_now n ms" "slugify (pg_org_name p) \<noteq> []"
      "sc_create_customer S (pg_email p) (pg_org_name p) (slugify (pg_org_name p)) h = Ok customer"
      and fin: "verify_finish K h (slugify (pg_org_name p)) customer (st, tokens) = ((st', tokens'), resp)"
      using signup_verify_cases [OF assms(1) [unfolded Inr]] assms(2) by metis
    then show ?thesis using Inr v verify_finish_effects [OF fin] spent [of st'] by auto
  qed
qed

subsection \<open>What a verification does not check\<close>

text \<open>Two verifications of one token that wait for Stripe together both end with a key.\<close>

lemma verify_twice:
  assumes "verify_start sha256 n ms token st = Ok (p, slug)" and "kc_token K' \<noteq> kc_token K" and "h = hash_signup_token sha256 token"
    and "verify_finish K h slug c (st, tokens) = ((st1, tokens1), resp1)"
    and "verify_finish K' h slug c (st1, tokens1) = ((st2, tokens2), resp2)"
  shows "sp_api_key resp1 \<noteq> sp_api_key resp2 \<and> token_resolve tokens2 (sp_api_key resp1) = Some (slug, Admin) \<and>
    token_resolve tokens2 (sp_api_key resp2) = Some (slug, Admin)"
  using verify_finish_effects [OF assms(4)] verify_finish_effects [OF assms(5)] assms(2) by simp

text \<open>
  Whoever can receive mail becomes administrator of any org: a signup under a name whose slug is
  taken succeeds, and its key has the role and the org of the keys already in use there.
\<close>

lemma signup_joins_existing_org:
  assumes "token_resolve tokens owner_key = Some (slugify name, Admin)" and "kc_token K \<noteq> owner_key"
    and "signup_verify sha256 S K n ms token (st, tokens) = ((st', tokens'), Ok resp)"
    and "bs_pending st (hash_signup_token sha256 token) = Some p" and "pg_org_name p = name"
  shows "token_resolve tokens' (sp_api_key resp) = token_resolve tokens' owner_key"
proof -
  obtain q customer where q: "bs_pending st (hash_signup_token sha256 token) = Some q"
    "verify_finish K (hash_signup_token sha256 token) (slugify (pg_org_name q)) customer (st, tokens) = ((st', tokens'), resp)"
    using signup_verify_cases [OF assms(3)] by metis
  then show ?thesis using verify_finish_effects [OF q(2)] assms(1,2,4,5) by simp
qed

subsection \<open>Instances\<close>

text \<open>A stand-in for SHA-256, a Stripe client that always succeeds, and the strings of one key.\<close>

definition sample_stripe :: stripe_client where
  "sample_stripe = \<lparr>sc_create_customer = (\<lambda>_ _ _ _. Ok ''cus''), sc_billing_portal = (\<lambda>_ _. Ok ''url'')\<rparr>"

definition sample_key :: key_ctx where
  "sample_key = \<lparr>kc_order = [], kc_write_ok = True, kc_token = ''key2'', kc_id = ''id2'', kc_created_at = ''c''\<rparr>"

definition sample_buf :: bytes where "sample_buf = replicate 24 0"

definition mailed_store :: billing_store where
  "mailed_store = fst (signup_request (\<lambda>b. b) 0 0 sample_buf ''v'' 900 ''m@x'' ''ACME!'' InMemoryBillingStore_default)"

definition acme_tokens :: api_tokens where
  "acme_tokens = \<lparr>at_by_token = [''key1'' \<mapsto> \<lparr>te_org = ''acme'', te_role = Admin, te_source = Env\<rparr>], at_id_to_token = Map.empty,
     at_persist = False, at_file = []\<rparr>"

lemma sample_request:
  "signup_request (\<lambda>b. b) 0 0 sample_buf ''v'' 900 ''m@x'' ''ACME!'' InMemoryBillingStore_default =
    (mailed_store, Some (''m@x'', ''v?token='' @ mint_signup_token sample_buf), OPAQUE_MESSAGE)"
proof -
  have "trim ''m@x'' = ''m@x''" "trim ''ACME!'' = ''ACME!''" by code_simp+
  then show ?thesis by (simp add: mailed_store_def signup_request_def Let_def)
qed

lemma sample_pending:
  "\<exists>p. bs_pending mailed_store (hash_signup_token (\<lambda>b. b) (mint_signup_token sample_buf)) = Some p \<and> pg_email p = ''m@x'' \<and>
    pg_org_name p = ''ACME!'' \<and> pg_expires_at p = rfc3339_offset 0 0 900"
proof -
  have "trim ''m@x'' = ''m@x''" "trim ''ACME!'' = ''ACME!''" by code_simp+
  then show ?thesis by (simp add: mailed_store_def signup_request_def record_pending_signup_def Let_def)
qed

lemma sample_start:
  "\<exists>p. verify_start (\<lambda>b. b) 0 0 (mint_signup_token sample_buf) mailed_store = Ok (p, ''acme'') \<and> pg_email p = ''m@x'' \<and> pg_org_name p = ''ACME!''"
proof -
  have "\<not> rfc3339_offset 0 0 900 < rfc3339_now 0 0"
    using stamp_less [of 900 0 0 0] rfc3339_stamp [of 0 900 0] rfc3339_stamp [of 0 0 0] by (simp add: rfc3339_now_def)
  moreover have "slugify ''ACME!'' = ''acme''" by code_simp
  ultimately show ?thesis using sample_pending by (auto simp: verify_start_def peek_pending_signup_def Let_def)
qed

theorem signup_verify_exact_witness:
  "\<exists>s resp. signup_verify (\<lambda>b. b) sample_stripe sample_key 0 0 (mint_signup_token sample_buf) (mailed_store, acme_tokens) = (s, Ok resp) \<and>
    token_resolve (snd s) ''key2'' = Some (''acme'', Admin) \<and> token_resolve (snd s) ''key1'' = Some (''acme'', Admin)"
proof -
  let ?h = "hash_signup_token (\<lambda>b. b) (mint_signup_token sample_buf)"
  obtain st t resp where fin: "verify_finish sample_key ?h ''acme'' ''cus'' (mailed_store, acme_tokens) = ((st, t), resp)"
    by (metis prod.exhaust)
  then have run: "signup_verify (\<lambda>b. b) sample_stripe sample_key 0 0 (mint_signup_token sample_buf) (mailed_store, acme_tokens) = ((st, t), Ok resp)"
    using sample_start by (auto simp: signup_verify_def sample_stripe_def)
  have "sp_api_key resp = ''key2''" "sp_org resp = ''acme''" using verify_finish_effects [OF fin] by (simp_all add: sample_key_def)
  moreover have "token_resolve acme_tokens ''key1'' = Some (''acme'', Admin)" by (simp add: token_resolve_def acme_tokens_def)
  ultimately show ?thesis using signup_verify_exact [OF run refl] run by auto
qed


end
