(* ===== verification/Spec2Isabelle.thy ===== *)
theory Spec2Isabelle
  imports Vsock_Device Cow_Pager Frame_Codec Exec_Stream Tenants Listing Civil_Time Std_Fs Net_Receive Fleet Signup
begin

text \<open>
  \<^bold>\<open>A verification library for rust-nano-vm.\<close>

  rust-nano-vm is a hypervisor for short-lived VMs that are forked from snapshots. A REST control
  plane authenticates callers, keeps who owns which VM and snapshot, limits the fork rate and keeps
  a pool of restored VMs; it drives a hypervisor, in process or one process per VM over a framed
  protocol. Inside a VM the guest talks to devices through virtqueues in its own memory: vsock for
  the agent, a network card and a shared directory. Everything the guest writes is untrusted, and
  one control plane serves several orgs; the theorems are about these two boundaries first.

  \<^bold>\<open>Theories.\<close> Source paths are below \<^verbatim>\<open>src/crates/\<close>; a definition has the name of the Rust item it
  models, with the type in front where the name alone is ambiguous.

  \<^item> \<open>Nano_Prelude\<close>: words and byte order, results, maps, and the codec interfaces
    \<open>wire_codec\<close>, \<open>canonical_codec\<close>, \<open>total_codec\<close>, \<open>le_struct\<close>. \<open>Std_Text\<close>: decimal and hexadecimal
    printing, UTF-8, paths.
  \<^item> \<open>Virtq_Desc\<close>, \<open>Virtq_Rings\<close>, \<open>Guest_Memory\<close>: \<^verbatim>\<open>virtio-queue/src/lib.rs\<close>, descriptors and the chain
    walker, the rings, guest memory (\<open>guest_ram\<close>) with the adapter of \<^verbatim>\<open>vm-kvm/src/lib.rs\<close>.
    The walker yields exactly the terminating chains and always stops.
  \<^item> \<open>Vsock_Packet\<close>, \<open>Vsock_Connection\<close>, \<open>Vsock_Table\<close>, \<open>Virtio_Mmio\<close>, \<open>Vsock_Queue\<close>, \<open>Vsock_Device\<close>:
    \<^verbatim>\<open>virtio-vsock/src/\<close>. The connection follows the documented life cycle; the table refines a
    two-state stream specification and keeps connections apart (\<open>keyed_dispatch\<close>); the queue pops
    what the walker describes; processing the device terminates.
  \<^item> \<open>Net_Device\<close>, \<open>Net_Queue\<close>, \<open>Net_Receive\<close>: \<^verbatim>\<open>virtio-net/src/\<close> header, registers, device and both drain
    loops over any backend (\<open>frame_backend\<close>): the frames of a call exactly, and what a hostile
    guest memory cannot make it do.
  \<^item> \<open>Fuse_Wire\<close>, \<open>Fuse_Dirent\<close>, \<open>Fuse_Dispatch\<close>, \<open>Std_Fs\<close>: \<^verbatim>\<open>virtio-fs/src/\<close>. Every wire struct is an
    instance of the codec interfaces; the dispatcher is proved over any handler, the handler of a
    host directory keeps its tables consistent and stays below its root (\<open>fuse_session\<close>).
  \<^item> \<open>Snapshot_Format\<close>, \<open>Cow_Pager\<close>: \<^verbatim>\<open>snapshot/src/lib.rs\<close> and \<^verbatim>\<open>runtime.rs\<close>.
  \<^item> \<open>Frame_Codec\<close>: \<^verbatim>\<open>proto/src/frame.rs\<close> and \<^verbatim>\<open>vmm-ipc/src/framing.rs\<close>.
  \<^item> \<open>Vm_Mock\<close>, \<open>Exec_Stream\<close>: \<^verbatim>\<open>vm-core/src/lib.rs\<close> and \<^verbatim>\<open>vm-mock/src/lib.rs\<close>: the hypervisor operations,
    guest paths, forks (\<open>fork_host\<close>), and the threads of the streaming exec as a step relation.
  \<^item> \<open>Vmm_Child\<close>, \<open>Fleet\<close>: \<^verbatim>\<open>vmm-ipc/src/lib.rs\<close>, \<^verbatim>\<open>nanovm-vmm-child/src/lib.rs\<close>, \<^verbatim>\<open>nanovm-fleet/src/lib.rs\<close>:
    the worker's loop, and the hypervisor that forwards to one worker per VM. A forwarded call has
    the effect of the call on the worker's own hypervisor, and no call touches another worker.
  \<^item> \<open>Auth\<close>, \<open>Ownership\<close>, \<open>Fork_Quota\<close>, \<open>Warm_Pool\<close>, \<open>Metrics\<close>, \<open>Civil_Time\<close>: the control-plane modules
    \<^verbatim>\<open>auth.rs\<close> and \<^verbatim>\<open>keys.rs\<close>, \<^verbatim>\<open>ownership.rs\<close> (\<open>owner_store\<close>), \<^verbatim>\<open>fork_quota.rs\<close>, \<^verbatim>\<open>warm_pool.rs\<close>, \<^verbatim>\<open>metrics.rs\<close>,
    \<^verbatim>\<open>time.rs\<close>. \<open>Control_Plane\<close>: \<^verbatim>\<open>routes.rs\<close>, \<^verbatim>\<open>sandbox.rs\<close>, \<^verbatim>\<open>api.rs\<close>, \<^verbatim>\<open>error.rs\<close>, every handler and the router.
    \<open>Tenants\<close>: isolation of orgs over all handlers, as a refinement of guarded steps. \<open>Listing\<close>:
    pagination seen by a client.
  \<^item> \<open>Billing\<close>, \<open>Signup\<close>: \<^verbatim>\<open>billing.rs\<close> and \<^verbatim>\<open>billing/usage_reporter.rs\<close>. Only signed and fresh webhooks
    change a subscription; an unpaid one blocks forks exactly after the grace period; usage is
    counted once; a signup key is handed out for a mailed link only, in every interleaving.

  \<^bold>\<open>How the code is modelled.\<close> A Rust integer is a word of its width and wraps as in a release build;
  \<^verbatim>\<open>usize\<close> is a natural number, as every length here is far below \<open>2 ^ 64\<close>. A struct is a record, an
  enum a datatype, \<^verbatim>\<open>Result\<close> a sum with the error on the left, a formatted message a constructor with
  the values it prints. State is passed explicitly; a method that holds a lock is one step.
  Where threads or tasks interleave, as in the warm pool and the streaming exec, the steps are an
  inductive relation and the theorems hold for every interleaving. A hash map is a function, and
  its iteration order an argument.

  \<^bold>\<open>Parameters.\<close> The host's files, processes, clocks and random bytes, the JSON library and guest
  memory are records of functions. What a theorem needs of them is an assumption it states (for
  instance \<open>json_laws\<close>: what was serialised parses back), and its witness instantiates them.
  The hypervisor behind the control plane and the workers is the mock, the only one without ioctls.

  \<^bold>\<open>Termination, bounds and fuel.\<close> Every loop is a total function with a measure: unvisited
  descriptors for the chain walker, remaining requests for the worker's loop, missing workers for
  the refill. Ring drains stop by the distance to the published index, at most 256 chains in the
  network device; in the vsock device the published index may move while it is read, and
  termination is a theorem with its condition. The only fuel is \<open>follow\<close> in \<open>Listing\<close>, the number of
  pages a client asks for: one more than the number of rows is enough, which the theorem states.
  The 4 MiB frame limit and the 16-bit ring indices are the ones of the code.

  \<^bold>\<open>Idealisations.\<close> The token buckets compute in real numbers instead of \<^verbatim>\<open>f64\<close>. A handler of the
  control plane and a method of the fleet run as one step, except for the tasks named above.
  A read from a stream that would wait for ever is the error value \<open>Waiting\<close>.
  The handlers of \<open>Control_Plane\<close> are those of the default build without the \<^verbatim>\<open>billing\<close> feature; the
  endpoints and checks that feature adds are in \<open>Billing\<close> and \<open>Signup\<close>, over their own state.

  \<^bold>\<open>Not modelled.\<close> The KVM backend but its memory adapter, cgroups, seccomp, the jailer and the TAP
  device: sequences of system calls whose meaning is the kernel's. The TCP/IP backend and its proxy:
  glue around smoltcp. The SQLite stores, S3 and the object store, the HTTP clients of Stripe and of
  the mail provider: clients of services that are not in the repository. The guest agent: processes and files of the guest. Audit log, request
  ids and tracing: no effect on requests. Start-up code, command line, benchmarks.
\<close>

end
